(* ===== verification/Prelude.thy ===== *)
theory Prelude
  imports Main "HOL-Library.Multiset" "HOL-Library.State_Monad" "HOL-Library.Monad_Syntax"
begin

text \<open>
  What every part of the model shares: the errors of
  src/internal/lib/errors/errors.go as values, Go maps as partial functions
  read with a zero default, and the generic lemmas on lists and sums which the
  component theories use.  Three collections of theorems are declared here:
  go_int for the bounds of machine arithmetic, dec for the decimal laws and
  svc for the equations that unfold service code.
\<close>

named_theorems go_int
named_theorems dec
named_theorems svc

section \<open>Strings, time stamps and metadata\<close>

text \<open>
  A Go string is a byte string, so it is a list of 8-bit characters.
  A time stamp is the number of nanoseconds since Go's zero time
  (1 January of year 1, UTC), so the zero value of time.Time is 0 and IsZero
  is a comparison with 0.
\<close>

type_synonym time = int
type_synonym duration = int
type_synonym metadata = "string \<rightharpoonup> string"

section \<open>Errors (src/internal/lib/errors/errors.go)\<close>

datatype error_type =
    BadRequestError | NotFoundError | ValidationError | InternalError
  | AuthenticationError | ForbiddenError | ConflictError | RateLimitError

text \<open>
  The sentinels of the core, the typed errors of the library, an error raised
  by an adapter (a driver or network failure, whose text the core never reads)
  and an error wrapped with fmt.Errorf and the verb for wrapping.
\<close>

datatype app_error =
    ErrNotFound
  | ErrInvalidInvoiceTransition
  | ErrItemNotFound
  | ErrBadConfig string
  | InfraError string
  | CustomError error_type string "app_error option"
  | WrapError string app_error

type_synonym 'a res = "app_error + 'a"

definition NewCustomError :: "error_type \<Rightarrow> string \<Rightarrow> app_error option \<Rightarrow> app_error" where
  "NewCustomError ty msg cause = CustomError ty msg cause"

text \<open>errors.Is against the sentinel of a missing row: it walks the chain.\<close>

fun is_not_found :: "app_error \<Rightarrow> bool" where
  "is_not_found ErrNotFound = True"
| "is_not_found (CustomError _ _ (Some e)) = is_not_found e"
| "is_not_found (WrapError _ e) = is_not_found e"
| "is_not_found _ = False"

text \<open>errors.As into a CustomError: the first one in the chain.\<close>

fun as_custom :: "app_error \<Rightarrow> (error_type \<times> string) option" where
  "as_custom (CustomError ty msg _) = Some (ty, msg)"
| "as_custom (WrapError _ e) = as_custom e"
| "as_custom _ = None"

abbreviation ok :: "'a \<Rightarrow> 'a res" where
  "ok x \<equiv> Inr x"

abbreviation fail :: "error_type \<Rightarrow> string \<Rightarrow> 'a res" where
  "fail ty msg \<equiv> Inl (CustomError ty msg None)"

definition bind_res :: "'a res \<Rightarrow> ('a \<Rightarrow> 'b res) \<Rightarrow> 'b res" where
  "bind_res r f = (case r of Inl e \<Rightarrow> Inl e | Inr x \<Rightarrow> f x)"

lemma bind_res_simps [simp]:
  "bind_res (Inl e) f = Inl e"
  "bind_res (Inr x) f = f x"
  by (simp_all add: bind_res_def)

section \<open>Go maps\<close>

text \<open>Reading an absent key of a Go map of integers gives the zero value.\<close>

definition mget :: "('k \<rightharpoonup> int) \<Rightarrow> 'k \<Rightarrow> int" where
  "mget m k = (case m k of None \<Rightarrow> 0 | Some v \<Rightarrow> v)"

definition sget :: "('k \<rightharpoonup> string) \<Rightarrow> 'k \<Rightarrow> string" where
  "sget m k = (case m k of None \<Rightarrow> [] | Some v \<Rightarrow> v)"

lemma mget_upd [simp]: "mget (m(k \<mapsto> v)) j = (if j = k then v else mget m j)"
  by (simp add: mget_def)

lemma mget_empty [simp]: "mget (\<lambda>_. None) k = 0"
  by (simp add: mget_def)

lemma mget_Some: "m k = Some v \<Longrightarrow> mget m k = v"
  by (simp add: mget_def)

lemma sget_upd [simp]: "sget (m(k \<mapsto> v)) j = (if j = k then v else sget m j)"
  by (simp add: sget_def)

lemma sget_empty [simp]: "sget (\<lambda>_. None) k = []"
  by (simp add: sget_def)

lemma fold_upd_const:
  "fold (\<lambda>k m. m(k \<mapsto> f k)) ks m k = (if k \<in> set ks then Some (f k) else m k)"
  by (induction ks arbitrary: m) auto

lemma fold_upd_keyed:
  assumes "distinct (map g xs)"
  shows "x \<in> set xs \<Longrightarrow> fold (\<lambda>y m. m(g y \<mapsto> f y)) xs m (g x) = Some (f x)"
    and "k \<notin> g ` set xs \<Longrightarrow> fold (\<lambda>y m. m(g y \<mapsto> f y)) xs m k = m k"
proof -
  show out: "k \<notin> g ` set xs \<Longrightarrow> fold (\<lambda>y m. m(g y \<mapsto> f y)) xs m k = m k" for m k
    by (induction xs arbitrary: m) auto
  show "x \<in> set xs \<Longrightarrow> fold (\<lambda>y m. m(g y \<mapsto> f y)) xs m (g x) = Some (f x)"
    using assms
  proof (induction xs arbitrary: m)
    case (Cons y ys)
    then show ?case
    proof (cases "x = y")
      case True
      have "g y \<notin> g ` set ys" using Cons.prems(2) by simp
      then have "fold (\<lambda>z m. m(g z \<mapsto> f z)) ys (m(g y \<mapsto> f y)) (g y) = (m(g y \<mapsto> f y)) (g y)"
        by (induction ys arbitrary: m) (auto simp: fun_upd_twist)
      then show ?thesis using True by (simp only: fold_simps comp_apply fun_upd_same)
    qed auto
  qed simp
qed

section \<open>Lists and sums\<close>

lemma sum_list_nonneg_map:
  fixes f :: "'a \<Rightarrow> int"
  assumes "\<And>x. x \<in> set xs \<Longrightarrow> 0 \<le> f x"
  shows "0 \<le> (\<Sum>x\<leftarrow>xs. f x)"
  using assms by (induction xs) auto

lemma member_le_sum_map:
  fixes f :: "'a \<Rightarrow> int"
  assumes "x \<in> set xs" and "\<And>y. y \<in> set xs \<Longrightarrow> 0 \<le> f y"
  shows "f x \<le> (\<Sum>y\<leftarrow>xs. f y)"
  using assms
proof (induction xs)
  case (Cons a xs)
  show ?case
  proof (cases "x = a")
    case True
    then show ?thesis using Cons.prems(2) sum_list_nonneg_map[of xs f] by simp
  next
    case False
    then show ?thesis using Cons by fastforce
  qed
qed simp

lemma sum_filter_le:
  fixes f :: "'a \<Rightarrow> int"
  assumes "\<And>x. x \<in> set xs \<Longrightarrow> 0 \<le> f x"
  shows "(\<Sum>x\<leftarrow>filter P xs. f x) \<le> (\<Sum>x\<leftarrow>xs. f x)"
  using assms by (induction xs) fastforce+

lemma sum_list_cong_le:
  fixes f g :: "'a \<Rightarrow> int"
  assumes "\<And>x. x \<in> set xs \<Longrightarrow> f x \<le> g x"
  shows "(\<Sum>x\<leftarrow>xs. f x) \<le> (\<Sum>x\<leftarrow>xs. g x)"
  using assms by (induction xs) fastforce+

lemma sum_list_const_mult_map:
  fixes c :: int
  shows "(\<Sum>x\<leftarrow>xs. f x * c) = (\<Sum>x\<leftarrow>xs. f x) * c"
  by (induction xs) (simp_all add: algebra_simps)

lemma sum_list_bump:
  fixes f :: "'a \<Rightarrow> int"
  shows "(\<Sum>x\<leftarrow>xs. f x + (if P x then 1 else 0)) = (\<Sum>x\<leftarrow>xs. f x) + int (length (filter P xs))"
  by (induction xs) simp_all

lemma sum_list_sort_key [simp]:
  fixes f :: "'a \<Rightarrow> int" and k :: "'a \<Rightarrow> 'k::linorder"
  shows "(\<Sum>x\<leftarrow>sort_key k xs. f x) = (\<Sum>x\<leftarrow>xs. f x)"
proof -
  have "mset (map f (sort_key k xs)) = mset (map f xs)" by (simp only: mset_map mset_sort)
  then show ?thesis by (metis sum_mset_sum_list)
qed

lemma distinct_map_sort_key [simp]:
  "distinct (map f (sort_key k xs)) = distinct (map f xs)"
proof -
  have "mset (map f (sort_key k xs)) = mset (map f xs)" by (simp only: mset_map mset_sort)
  then show ?thesis by (metis mset_eq_imp_distinct_iff)
qed

end
