(* ===== verification/Go_Int.thy ===== *)
theory Go_Int
  imports Prelude "HOL-Library.Signed_Division"
begin

text \<open>
  Go's int64 (and int, which has 64 bits on the platforms the program is built
  for).  Values are integers; every operation wraps to the signed 64-bit range
  as the language defines it, and division truncates toward zero.
\<close>

definition wrap64 :: "int \<Rightarrow> int" where
  "wrap64 x = (x + 2 ^ 63) mod 2 ^ 64 - 2 ^ 63"

definition in64 :: "int \<Rightarrow> bool" where
  "in64 x \<longleftrightarrow> - (2 ^ 63) \<le> x \<and> x < 2 ^ 63"

definition add64 :: "int \<Rightarrow> int \<Rightarrow> int" where
  "add64 a b = wrap64 (a + b)"

definition sub64 :: "int \<Rightarrow> int \<Rightarrow> int" where
  "sub64 a b = wrap64 (a - b)"

definition mul64 :: "int \<Rightarrow> int \<Rightarrow> int" where
  "mul64 a b = wrap64 (a * b)"

text \<open>Division panics on a zero divisor; each use in the source is guarded.\<close>

definition quot64 :: "int \<Rightarrow> int \<Rightarrow> int" where
  "quot64 a b = wrap64 (a sdiv b)"

definition rem64 :: "int \<Rightarrow> int \<Rightarrow> int" where
  "rem64 a b = a smod b"

lemma wrap64_id [simp]: "in64 x \<Longrightarrow> wrap64 x = x"
  by (simp add: wrap64_def in64_def mod_pos_pos_trivial)

lemma in64_wrap64 [simp, intro]: "in64 (wrap64 x)"
proof -
  have "0 \<le> (x + 2 ^ 63) mod 2 ^ 64" "(x + 2 ^ 63) mod 2 ^ 64 < (2 ^ 64 :: int)"
    by simp_all
  then show ?thesis unfolding in64_def wrap64_def by (simp add: algebra_simps)
qed

lemma in64_ops [simp, intro]:
  "in64 (add64 a b)" "in64 (sub64 a b)" "in64 (mul64 a b)" "in64 (quot64 a b)"
  by (simp_all add: add64_def sub64_def mul64_def quot64_def)

lemma in64_between: "in64 x" if "0 \<le> x" "x < 2 ^ 63"
  using that by (simp add: in64_def)

lemma add64_exact [go_int]: "in64 (a + b) \<Longrightarrow> add64 a b = a + b"
  by (simp add: add64_def)

lemma sub64_exact [go_int]: "in64 (a - b) \<Longrightarrow> sub64 a b = a - b"
  by (simp add: sub64_def)

lemma mul64_exact [go_int]: "in64 (a * b) \<Longrightarrow> mul64 a b = a * b"
  by (simp add: mul64_def)

lemma sdiv_nonneg: "a sdiv b = a div b" if "0 \<le> a" "0 < b" for a b :: int
  using that by (cases "a = 0") (simp_all add: signed_divide_int_def sgn_if)

lemma smod_nonneg: "a smod b = a mod b" if "0 \<le> a" "0 < b" for a b :: int
  using that by (cases "a = 0") (simp_all add: signed_modulo_int_def)

lemma quot64_exact [go_int]: "0 \<le> a \<Longrightarrow> a < 2 ^ 63 \<Longrightarrow> 0 < b \<Longrightarrow> quot64 a b = a div b"
proof -
  assume a: "0 \<le> a" "a < 2 ^ 63" "0 < b"
  have "a div b \<le> a" using a div_by_1[of a] zdiv_mono2[of a 1 b] by simp
  moreover have "0 \<le> a div b" using a by (simp add: pos_imp_zdiv_nonneg_iff)
  ultimately show ?thesis using a by (simp add: quot64_def sdiv_nonneg in64_def)
qed

lemma rem64_exact [go_int]: "0 \<le> a \<Longrightarrow> 0 < b \<Longrightarrow> rem64 a b = a mod b"
  by (simp add: rem64_def smod_nonneg)

text \<open>A running sum kept in an int64 accumulator.\<close>

definition sum64 :: "int list \<Rightarrow> int" where
  "sum64 xs = fold (\<lambda>x a. add64 a x) xs 0"

lemma fold_add64:
  assumes "\<And>x. x \<in> set xs \<Longrightarrow> 0 \<le> x" and "0 \<le> a" and "a + sum_list xs < 2 ^ 63"
  shows "fold (\<lambda>x a. add64 a x) xs a = a + sum_list xs"
  using assms
proof (induction xs arbitrary: a)
  case (Cons x xs)
  have "0 \<le> sum_list xs" using Cons.prems(1) by (simp add: sum_list_nonneg)
  moreover have x: "0 \<le> x" using Cons.prems(1) by simp
  ultimately have "in64 (a + x)" using Cons.prems(2,3) by (simp add: in64_def)
  note x this
  then show ?case using Cons.IH[of "a + x"] Cons.prems by (simp add: add64_exact add.assoc)
qed simp

lemma sum64_exact:
  assumes "\<And>x. x \<in> set xs \<Longrightarrow> 0 \<le> x" and "sum_list xs < 2 ^ 63"
  shows "sum64 xs = sum_list xs"
  using fold_add64[of xs 0] assms by (simp add: sum64_def)

end
