(* ===== verification/Decimal_Lib.thy ===== *)
theory Decimal_Lib
  imports Complex_Main Go_Int
begin

text \<open>
  The decimal package (github.com/shopspring/decimal) is not part of the
  repository.  Its operations are the record decimal_ops, a parameter of every
  definition that computes with decimals, and decimal_laws states what the
  package documents: exact addition, subtraction, multiplication and
  comparison, division rounded to 16 digits, Round(0) half away from zero,
  Ceil, and IntPart by truncation.  The value of a decimal is a rational.
  The locale decimal collects the consequences the billing code relies on, and
  rat_ops is an executable instance used by the witnesses.
\<close>

section \<open>The operations\<close>

record 'd decimal_ops =
  d_zero :: 'd
  d_of_int :: "int \<Rightarrow> 'd"
  d_add :: "'d \<Rightarrow> 'd \<Rightarrow> 'd"
  d_sub :: "'d \<Rightarrow> 'd \<Rightarrow> 'd"
  d_mul :: "'d \<Rightarrow> 'd \<Rightarrow> 'd"
  d_div :: "'d \<Rightarrow> 'd \<Rightarrow> 'd"
  d_cmp :: "'d \<Rightarrow> 'd \<Rightarrow> int"
  d_round :: "'d \<Rightarrow> 'd"
  d_ceil :: "'d \<Rightarrow> 'd"
  d_int_part :: "'d \<Rightarrow> int"

definition d_le :: "'d decimal_ops \<Rightarrow> 'd \<Rightarrow> 'd \<Rightarrow> bool" where
  "d_le D a b \<longleftrightarrow> d_cmp D a b \<le> 0"

definition d_ge :: "'d decimal_ops \<Rightarrow> 'd \<Rightarrow> 'd \<Rightarrow> bool" where
  "d_ge D a b \<longleftrightarrow> 0 \<le> d_cmp D a b"

definition d_gt :: "'d decimal_ops \<Rightarrow> 'd \<Rightarrow> 'd \<Rightarrow> bool" where
  "d_gt D a b \<longleftrightarrow> 0 < d_cmp D a b"

definition d_is_zero :: "'d decimal_ops \<Rightarrow> 'd \<Rightarrow> bool" where
  "d_is_zero D a \<longleftrightarrow> d_cmp D a (d_zero D) = 0"

section \<open>Their documented behaviour\<close>

definition round_half_away :: "rat \<Rightarrow> int" where
  "round_half_away x = (if 0 \<le> x then \<lfloor>x + 1 / 2\<rfloor> else - \<lfloor>1 / 2 - x\<rfloor>)"

definition div16 :: "rat \<Rightarrow> rat \<Rightarrow> rat" where
  "div16 a b = of_int (round_half_away (a / b * 10 ^ 16)) / 10 ^ 16"

definition trunc0 :: "rat \<Rightarrow> int" where
  "trunc0 x = (if 0 \<le> x then \<lfloor>x\<rfloor> else \<lceil>x\<rceil>)"

definition cmp_rat :: "rat \<Rightarrow> rat \<Rightarrow> int" where
  "cmp_rat a b = (if a < b then -1 else if a = b then 0 else 1)"

definition decimal_laws :: "'d decimal_ops \<Rightarrow> ('d \<Rightarrow> rat) \<Rightarrow> bool" where
  "decimal_laws D v \<longleftrightarrow>
     v (d_zero D) = 0 \<and>
     (\<forall>n. in64 n \<longrightarrow> v (d_of_int D n) = of_int n) \<and>
     (\<forall>a b. v (d_add D a b) = v a + v b) \<and>
     (\<forall>a b. v (d_sub D a b) = v a - v b) \<and>
     (\<forall>a b. v (d_mul D a b) = v a * v b) \<and>
     (\<forall>a b. v b \<noteq> 0 \<longrightarrow> v (d_div D a b) = div16 (v a) (v b)) \<and>
     (\<forall>a b. d_cmp D a b = cmp_rat (v a) (v b)) \<and>
     (\<forall>a. v (d_round D a) = of_int (round_half_away (v a))) \<and>
     (\<forall>a. v (d_ceil D a) = of_int \<lceil>v a\<rceil>) \<and>
     (\<forall>a. in64 (trunc0 (v a)) \<longrightarrow> d_int_part D a = trunc0 (v a))"

section \<open>Rounding\<close>

lemma round_half_away_of_int [simp]: "round_half_away (of_int n) = n"
proof -
  have a: "\<lfloor>of_int n + (1::rat) / 2\<rfloor> = n" for n by linarith
  have b: "\<lfloor>(1::rat) / 2 - of_int n\<rfloor> = - n" by linarith
  show ?thesis unfolding round_half_away_def a b by simp
qed

lemma round_half_away_0 [simp]: "round_half_away 0 = 0"
  using round_half_away_of_int[of 0] by simp

lemma round_half_away_mono: "x \<le> y \<Longrightarrow> round_half_away x \<le> round_half_away y"
proof -
  assume xy: "x \<le> y"
  consider "0 \<le> x" | "x < 0" "0 \<le> y" | "y < 0" by linarith
  then show ?thesis
  proof cases
    case 1
    then show ?thesis using xy by (simp add: round_half_away_def floor_mono)
  next
    case 2
    have "0 \<le> \<lfloor>1 / 2 - x\<rfloor>" "0 \<le> \<lfloor>y + 1 / 2\<rfloor>" using 2 by simp_all
    then have "- \<lfloor>1 / 2 - x\<rfloor> \<le> \<lfloor>y + 1 / 2\<rfloor>" by linarith
    then show ?thesis using 2 by (simp add: round_half_away_def)
  next
    case 3
    then have "\<lfloor>1 / 2 - y\<rfloor> \<le> \<lfloor>1 / 2 - x\<rfloor>" using xy by (intro floor_mono) simp
    then show ?thesis using 3 xy by (simp add: round_half_away_def)
  qed
qed

lemma round_half_away_le: "x \<le> of_int n \<Longrightarrow> round_half_away x \<le> n"
  using round_half_away_mono[of x "of_int n"] by simp

lemma round_half_away_ge: "of_int n \<le> x \<Longrightarrow> n \<le> round_half_away x"
  using round_half_away_mono[of "of_int n" x] by simp

lemma round_half_away_near: "\<bar>of_int (round_half_away x) - x\<bar> \<le> 1 / 2"
proof (cases "0 \<le> x")
  case True
  have "\<bar>of_int \<lfloor>x + 1 / 2\<rfloor> - x\<bar> \<le> 1 / 2" by linarith
  then show ?thesis using True by (simp only: round_half_away_def if_True)
next
  case False
  have "\<bar>of_int (- \<lfloor>1 / 2 - x\<rfloor>) - x\<bar> \<le> 1 / 2" by linarith
  then show ?thesis using False by (simp only: round_half_away_def if_False)
qed

lemma div16_le: "a / b \<le> of_int n \<Longrightarrow> div16 a b \<le> of_int n"
proof -
  assume "a / b \<le> of_int n"
  then have "a / b * 10 ^ 16 \<le> of_int n * 10 ^ 16" by (rule mult_right_mono) simp
  then have "a / b * 10 ^ 16 \<le> of_int (n * 10 ^ 16)" by simp
  then have "round_half_away (a / b * 10 ^ 16) \<le> n * 10 ^ 16" by (rule round_half_away_le)
  then have "of_int (round_half_away (a / b * 10 ^ 16)) \<le> (of_int (n * 10 ^ 16) :: rat)"
    by (simp only: of_int_le_iff)
  then show ?thesis by (simp add: div16_def field_simps)
qed

lemma div16_ge: "of_int n \<le> a / b \<Longrightarrow> of_int n \<le> div16 a b"
proof -
  assume "of_int n \<le> a / b"
  then have "of_int n * 10 ^ 16 \<le> a / b * 10 ^ 16" by (rule mult_right_mono) simp
  then have "of_int (n * 10 ^ 16) \<le> a / b * 10 ^ 16" by simp
  then have "n * 10 ^ 16 \<le> round_half_away (a / b * 10 ^ 16)" by (rule round_half_away_ge)
  then have "of_int (n * 10 ^ 16) \<le> (of_int (round_half_away (a / b * 10 ^ 16)) :: rat)"
    by (simp only: of_int_le_iff)
  then show ?thesis by (simp add: div16_def field_simps)
qed

lemma div16_near: "\<bar>div16 a b - a / b\<bar> \<le> 1 / (2 * 10 ^ 16)"
proof -
  have "\<bar>of_int (round_half_away (a / b * 10 ^ 16)) - a / b * 10 ^ 16\<bar> \<le> 1 / 2"
    by (rule round_half_away_near)
  then show ?thesis by (simp add: div16_def abs_le_iff field_simps)
qed

lemma trunc0_of_int [simp]: "trunc0 (of_int n) = n"
  by (simp add: trunc0_def)

section \<open>The interface\<close>

locale decimal =
  fixes D :: "'d decimal_ops" and v :: "'d \<Rightarrow> rat"
  assumes laws: "decimal_laws D v"
begin

lemma v_zero [simp]: "v (d_zero D) = 0"
  and v_of_int [simp]: "in64 n \<Longrightarrow> v (d_of_int D n) = of_int n"
  and v_add [simp]: "v (d_add D a b) = v a + v b"
  and v_sub [simp]: "v (d_sub D a b) = v a - v b"
  and v_mul [simp]: "v (d_mul D a b) = v a * v b"
  and v_div [simp]: "v b \<noteq> 0 \<Longrightarrow> v (d_div D a b) = div16 (v a) (v b)"
  and v_cmp: "d_cmp D a b = cmp_rat (v a) (v b)"
  and v_round [simp]: "v (d_round D a) = of_int (round_half_away (v a))"
  and v_ceil [simp]: "v (d_ceil D a) = of_int \<lceil>v a\<rceil>"
  and v_int_part: "in64 (trunc0 (v a)) \<Longrightarrow> d_int_part D a = trunc0 (v a)"
  using laws unfolding decimal_laws_def by blast+

lemma le_iff [simp]: "d_le D a b \<longleftrightarrow> v a \<le> v b"
  by (auto simp: d_le_def v_cmp cmp_rat_def)

lemma ge_iff [simp]: "d_ge D a b \<longleftrightarrow> v b \<le> v a"
  by (auto simp: d_ge_def v_cmp cmp_rat_def)

lemma gt_iff [simp]: "d_gt D a b \<longleftrightarrow> v b < v a"
  by (auto simp: d_gt_def v_cmp cmp_rat_def)

lemma is_zero_iff [simp]: "d_is_zero D a \<longleftrightarrow> v a = 0"
  by (auto simp: d_is_zero_def v_cmp cmp_rat_def)

text \<open>Round(0).IntPart() is the nearest integer while that fits in an int64.\<close>

lemma round_int_part:
  "in64 (round_half_away (v a)) \<Longrightarrow> d_int_part D (d_round D a) = round_half_away (v a)"
  using v_int_part[of "d_round D a"] by simp

end

section \<open>An executable instance\<close>

definition rat_ops :: "rat decimal_ops" where
  "rat_ops = \<lparr> d_zero = 0, d_of_int = of_int, d_add = (+), d_sub = (-), d_mul = (*),
     d_div = div16, d_cmp = cmp_rat, d_round = (\<lambda>a. of_int (round_half_away a)),
     d_ceil = (\<lambda>a. of_int \<lceil>a\<rceil>), d_int_part = (\<lambda>a. wrap64 (trunc0 a)) \<rparr>"

lemma rat_laws: "decimal_laws rat_ops (\<lambda>x. x)"
  by (simp add: decimal_laws_def rat_ops_def)

interpretation rat_dec: decimal rat_ops "\<lambda>x. x"
  by unfold_locales (rule rat_laws)

end
