(* ===== verification/Pricing.thy ===== *)
theory Pricing
  imports Decimal_Lib
begin

text \<open>
  Prices and what a quantity costs: src/internal/core/domain/price.go,
  price_types.go and pricing.go.  The schemes are fixed, volume, graduated and
  package.  The lemmas compare the graduated loop (which stops at the tier the
  quantity reaches) with the sum over all tiers, the package computation with
  the number of started blocks, and show that the tiers of a volume price leave
  no quantity without a rate.
\<close>

section \<open>Price types\<close>

datatype billing_interval =
    BillingIntervalNone | BillingIntervalSecond | BillingIntervalMinute | BillingIntervalDay
  | BillingIntervalWeek | BillingIntervalMonth | BillingIntervalYear | BillingIntervalOther string

datatype price_category =
  OneTime | PriceCategorySubscription | Free | Variable | PriceCategoryOther string

datatype pricing_scheme = Fixed | Tiered | Volume | Graduated | Package | PriceSchemeOther string

record 'd price_tier =
  tr_FromValue :: 'd
  tr_ToValue :: 'd
  tr_PerUnitAmount :: 'd
  tr_FlatAmount :: int

record 'd price =
  prc_OrgId :: string
  prc_Id :: string
  prc_VariantId :: string
  prc_Label :: string
  prc_Category :: price_category
  prc_Scheme :: pricing_scheme
  prc_Cycles :: int
  prc_Currency :: string
  prc_UnitPrice :: int
  prc_UnitCount :: int
  prc_MinPrice :: int
  prc_SuggestedPrice :: int
  prc_BillingInterval :: billing_interval
  prc_BillingIntervalQty :: int
  prc_TrialInterval :: billing_interval
  prc_TrialIntervalQty :: int
  prc_TaxCode :: string
  prc_BillableMetricId :: string
  prc_Tiers :: "'d price_tier list"
  prc_FilterField :: string
  prc_FilterValue :: string
  prc_ProrateOnIncrease :: bool
  prc_CreditOnDecrease :: bool
  prc_Metadata :: metadata
  prc_CreatedAt :: time
  prc_UpdatedAt :: time

definition IsDefaultFilter :: "'d price \<Rightarrow> bool" where
  "IsDefaultFilter p \<longleftrightarrow> prc_FilterField p \<noteq> [] \<and> prc_FilterValue p = []"

definition IsMetered :: "'d price \<Rightarrow> bool" where
  "IsMetered p \<longleftrightarrow> prc_BillableMetricId p \<noteq> []"

text \<open>The empty interval is BillingIntervalOther of the empty string.\<close>

definition IsRecurring :: "'d price \<Rightarrow> bool" where
  "IsRecurring p \<longleftrightarrow> IsMetered p \<or>
     (prc_BillingInterval p \<noteq> BillingIntervalOther [] \<and> prc_BillingInterval p \<noteq> BillingIntervalNone)"

text \<open>A float64 in the source, only compared with 31; the quotients are kept exact here.\<close>

definition approxBillingDays :: "billing_interval \<Rightarrow> int \<Rightarrow> rat" where
  "approxBillingDays interval qty =
    (let q = of_int (if qty \<le> 0 then 1 else qty) in
     case interval of
       BillingIntervalSecond \<Rightarrow> q / 86400
     | BillingIntervalMinute \<Rightarrow> q / 1440
     | BillingIntervalDay \<Rightarrow> q
     | BillingIntervalWeek \<Rightarrow> q * 7
     | BillingIntervalMonth \<Rightarrow> q * 30
     | BillingIntervalYear \<Rightarrow> q * 365
     | _ \<Rightarrow> 0)"

definition SubscriptionCadence :: "'d price \<Rightarrow> billing_interval \<times> int" where
  "SubscriptionCadence p =
    (let interval = prc_BillingInterval p; qty = prc_BillingIntervalQty p in
     if IsMetered p \<and> (interval = BillingIntervalOther [] \<or> interval = BillingIntervalNone
                         \<or> 31 < approxBillingDays interval qty)
     then (BillingIntervalMonth, 1)
     else (interval, qty))"

section \<open>What a quantity costs\<close>

definition roundWithUnit :: "'d decimal_ops \<Rightarrow> 'd \<Rightarrow> 'd \<Rightarrow> int \<times> 'd" where
  "roundWithUnit D tot units =
    (let amt = d_int_part D (d_round D tot) in
     if d_le D units (d_zero D) then (amt, d_zero D)
     else (amt, d_div D (d_of_int D amt) units))"

definition pricePackage :: "'d decimal_ops \<Rightarrow> 'd price \<Rightarrow> 'd \<Rightarrow> int \<times> 'd" where
  "pricePackage D p units =
    (if d_le D units (d_zero D) then (0, d_zero D)
     else
       let size = (if prc_UnitCount p < 1 then 1 else prc_UnitCount p);
           blocks = d_ceil D (d_div D units (d_of_int D size))
       in roundWithUnit D (d_mul D blocks (d_of_int D (prc_UnitPrice p))) units)"

definition priceFixed :: "'d decimal_ops \<Rightarrow> 'd price \<Rightarrow> 'd \<Rightarrow> int \<times> 'd" where
  "priceFixed D p units =
    (let unit = d_of_int D (prc_UnitPrice p) in
     if 1 < prc_UnitCount p then
       let count = d_of_int D (prc_UnitCount p) in
       (d_int_part D (d_round D (d_div D (d_mul D unit units) count)), d_div D unit count)
     else (d_int_part D (d_round D (d_mul D unit units)), unit))"

definition FixedLineAmount :: "'d decimal_ops \<Rightarrow> int \<Rightarrow> int \<Rightarrow> int \<Rightarrow> int" where
  "FixedLineAmount D unitPrice unitCount quantity =
    (if unitCount \<le> 1 then mul64 unitPrice quantity
     else d_int_part D (d_round D
       (d_div D (d_mul D (d_of_int D unitPrice) (d_of_int D quantity)) (d_of_int D unitCount))))"

fun graduated_loop :: "'d decimal_ops \<Rightarrow> 'd price_tier list \<Rightarrow> 'd \<Rightarrow> 'd \<Rightarrow> 'd" where
  "graduated_loop D [] units tot = tot"
| "graduated_loop D (t # ts) units tot =
    (let unbounded = d_is_zero D (tr_ToValue t);
         hi = (if \<not> unbounded \<and> d_gt D units (tr_ToValue t) then tr_ToValue t else units);
         qty = d_sub D hi (tr_FromValue t)
     in if d_le D qty (d_zero D) then graduated_loop D ts units tot
        else
          let tot' = d_add D (d_add D tot (d_mul D qty (tr_PerUnitAmount t))) (d_of_int D (tr_FlatAmount t))
          in if unbounded \<or> d_le D units (tr_ToValue t) then tot'
             else graduated_loop D ts units tot')"

definition priceGraduated :: "'d decimal_ops \<Rightarrow> 'd price_tier list \<Rightarrow> 'd \<Rightarrow> int \<times> 'd" where
  "priceGraduated D tiers units = roundWithUnit D (graduated_loop D tiers units (d_zero D)) units"

fun priceVolume :: "'d decimal_ops \<Rightarrow> 'd price_tier list \<Rightarrow> 'd \<Rightarrow> int \<times> 'd" where
  "priceVolume D [] units = (0, d_zero D)"
| "priceVolume D (t # ts) units =
    (let unbounded = d_is_zero D (tr_ToValue t) in
     if d_ge D units (tr_FromValue t) \<and> (unbounded \<or> d_le D units (tr_ToValue t))
     then (add64 (d_int_part D (d_round D (d_mul D units (tr_PerUnitAmount t)))) (tr_FlatAmount t),
           tr_PerUnitAmount t)
     else priceVolume D ts units)"

definition PriceUsage :: "'d decimal_ops \<Rightarrow> 'd price \<Rightarrow> 'd \<Rightarrow> int \<times> 'd" where
  "PriceUsage D p units =
    (case prc_Scheme p of
       Volume \<Rightarrow> priceVolume D (prc_Tiers p) units
     | Graduated \<Rightarrow> priceGraduated D (prc_Tiers p) units
     | Tiered \<Rightarrow> priceGraduated D (prc_Tiers p) units
     | Package \<Rightarrow> pricePackage D p units
     | _ \<Rightarrow> priceFixed D p units)"

section \<open>The reference for the graduated scheme\<close>

text \<open>
  What a tier owes for a quantity: its rate for the part of the quantity that
  lies in its band, and its flat amount as soon as that part is positive.
\<close>

definition tier_qty :: "('d \<Rightarrow> rat) \<Rightarrow> 'd price_tier \<Rightarrow> rat \<Rightarrow> rat" where
  "tier_qty v t u =
    (let hi = (if v (tr_ToValue t) \<noteq> 0 \<and> v (tr_ToValue t) < u then v (tr_ToValue t) else u)
     in max 0 (hi - v (tr_FromValue t)))"

definition tier_owes :: "('d \<Rightarrow> rat) \<Rightarrow> 'd price_tier \<Rightarrow> rat \<Rightarrow> rat" where
  "tier_owes v t u =
    tier_qty v t u * v (tr_PerUnitAmount t) + (if 0 < tier_qty v t u then of_int (tr_FlatAmount t) else 0)"

definition graduated_spec :: "('d \<Rightarrow> rat) \<Rightarrow> 'd price_tier list \<Rightarrow> rat \<Rightarrow> rat" where
  "graduated_spec v ts u = (\<Sum>t\<leftarrow>ts. tier_owes v t u)"

text \<open>Bands that follow each other; only the last may be open.\<close>

fun tiers_contiguous :: "('d \<Rightarrow> rat) \<Rightarrow> 'd price_tier list \<Rightarrow> bool" where
  "tiers_contiguous v [] = True"
| "tiers_contiguous v [t] = (0 \<le> v (tr_FromValue t) \<and>
     (v (tr_ToValue t) = 0 \<or> v (tr_FromValue t) < v (tr_ToValue t)))"
| "tiers_contiguous v (t # t' # ts) =
    (0 \<le> v (tr_FromValue t) \<and> v (tr_FromValue t) < v (tr_ToValue t) \<and>
     v (tr_ToValue t) = v (tr_FromValue t') \<and> tiers_contiguous v (t' # ts))"

definition tiers_flat64 :: "'d price_tier list \<Rightarrow> bool" where
  "tiers_flat64 ts \<longleftrightarrow> (\<forall>t\<in>set ts. in64 (tr_FlatAmount t))"

lemma tier_owes_below: "u \<le> v (tr_FromValue t) \<Longrightarrow> tier_owes v t u = 0"
  by (auto simp: tier_owes_def tier_qty_def Let_def)

lemma graduated_spec_Nil [simp]: "graduated_spec v [] u = 0"
  by (simp add: graduated_spec_def)

lemma graduated_spec_below:
  "tiers_contiguous v (t # ts) \<Longrightarrow> u \<le> v (tr_FromValue t) \<Longrightarrow> graduated_spec v (t # ts) u = 0"
proof (induction ts arbitrary: t)
  case Nil
  then show ?case by (simp add: graduated_spec_def tier_owes_below)
next
  case (Cons t' ts)
  then have "graduated_spec v (t' # ts) u = 0" by (intro Cons.IH) auto
  then show ?case using Cons.prems by (simp add: graduated_spec_def tier_owes_below)
qed

text \<open>Once the quantity ends in a band, the later bands owe nothing.\<close>

lemma graduated_spec_rest:
  "tiers_contiguous v (t # ts) \<Longrightarrow> v (tr_ToValue t) = 0 \<or> u \<le> v (tr_ToValue t) \<Longrightarrow>
    graduated_spec v ts u = 0"
  by (cases ts) (auto simp: graduated_spec_below)

context decimal
begin

lemma graduated_loop_spec:
  "tiers_contiguous v ts \<Longrightarrow> tiers_flat64 ts \<Longrightarrow>
    v (graduated_loop D ts units tot) = v tot + graduated_spec v ts (v units)"
proof (induction ts arbitrary: tot)
  case Nil
  then show ?case by (simp add: graduated_spec_def)
next
  case (Cons t ts)
  have ctg: "tiers_contiguous v ts" using Cons.prems(1) by (cases ts) auto
  have flat: "in64 (tr_FlatAmount t)" "tiers_flat64 ts" using Cons.prems(2) by (auto simp: tiers_flat64_def)
  have spec: "graduated_spec v (t # ts) u = tier_owes v t u + graduated_spec v ts u" for u
    by (simp add: graduated_spec_def)
  show ?case
  proof (cases "tier_qty v t (v units) = 0")
    case True
    then have "graduated_loop D (t # ts) units tot = graduated_loop D ts units tot"
      by (simp add: Let_def tier_qty_def max_def split: if_splits)
    then show ?thesis using Cons.IH[OF ctg flat(2)] True by (simp add: spec tier_owes_def)
  next
    case False
    moreover have "0 \<le> tier_qty v t (v units)" by (simp add: tier_qty_def Let_def)
    ultimately have pos: "0 < tier_qty v t (v units)" by simp
    let ?tot = "d_add D (d_add D tot (d_mul D (d_sub D (if \<not> d_is_zero D (tr_ToValue t) \<and> d_gt D units (tr_ToValue t)
      then tr_ToValue t else units) (tr_FromValue t)) (tr_PerUnitAmount t))) (d_of_int D (tr_FlatAmount t))"
    have tot: "v ?tot = v tot + tier_owes v t (v units)"
      using pos flat(1) by (auto simp: tier_owes_def tier_qty_def Let_def max_def split: if_splits)
    have step: "graduated_loop D (t # ts) units tot =
        (if v (tr_ToValue t) = 0 \<or> v units \<le> v (tr_ToValue t) then ?tot else graduated_loop D ts units ?tot)"
      using pos by (auto simp: Let_def tier_qty_def max_def split: if_splits)
    show ?thesis
    proof (cases "v (tr_ToValue t) = 0 \<or> v units \<le> v (tr_ToValue t)")
      case True
      then show ?thesis using graduated_spec_rest[OF Cons.prems(1) True] tot unfolding step spec by simp
    next
      case False
      then show ?thesis using Cons.IH[OF ctg flat(2), of ?tot] tot unfolding step spec by simp
    qed
  qed
qed

lemma roundWithUnit_amount:
  "in64 (round_half_away (v tot)) \<Longrightarrow> fst (roundWithUnit D tot units) = round_half_away (v tot)"
  by (simp add: roundWithUnit_def Let_def round_int_part)

lemma priceGraduated_amount:
  assumes "tiers_contiguous v ts" "tiers_flat64 ts" "in64 (round_half_away (graduated_spec v ts (v units)))"
  shows "fst (priceGraduated D ts units) = round_half_away (graduated_spec v ts (v units))"
  using graduated_loop_spec[OF assms(1,2)] assms(3) by (simp add: priceGraduated_def roundWithUnit_amount)

lemma priceVolume_hits:
  "tiers_contiguous v (t # ts) \<Longrightarrow> v (tr_ToValue (last (t # ts))) = 0 \<Longrightarrow> v (tr_FromValue t) \<le> v units \<Longrightarrow>
    \<exists>i < length (t # ts). let s = (t # ts) ! i in
      v (tr_FromValue s) \<le> v units \<and> (v (tr_ToValue s) = 0 \<or> v units \<le> v (tr_ToValue s)) \<and>
      (0 < i \<longrightarrow> v (tr_FromValue s) < v units) \<and>
      priceVolume D (t # ts) units =
        (add64 (d_int_part D (d_round D (d_mul D units (tr_PerUnitAmount s)))) (tr_FlatAmount s), tr_PerUnitAmount s)"
proof (induction ts arbitrary: t)
  case Nil
  then show ?case by (intro exI[of _ 0]) (simp add: Let_def)
next
  case (Cons t' ts)
  show ?case
  proof (cases "v units \<le> v (tr_ToValue t)")
    case True
    then show ?thesis using Cons.prems by (intro exI[of _ 0]) (simp add: Let_def)
  next
    case False
    have ctg: "tiers_contiguous v (t' # ts)" and to: "v (tr_ToValue t) = v (tr_FromValue t')"
      "0 \<le> v (tr_FromValue t)" "v (tr_FromValue t) < v (tr_ToValue t)"
      using Cons.prems(1) by auto
    have skip: "priceVolume D (t # t' # ts) units = priceVolume D (t' # ts) units"
      using False to(2,3) by (simp add: Let_def)
    have "v (tr_ToValue (last (t' # ts))) = 0" "v (tr_FromValue t') < v units"
      using Cons.prems(2) False to by simp_all
    then obtain i where i: "i < length (t' # ts)"
      and P: "let s = (t' # ts) ! i in
      v (tr_FromValue s) \<le> v units \<and> (v (tr_ToValue s) = 0 \<or> v units \<le> v (tr_ToValue s)) \<and>
      (0 < i \<longrightarrow> v (tr_FromValue s) < v units) \<and>
      priceVolume D (t' # ts) units =
        (add64 (d_int_part D (d_round D (d_mul D units (tr_PerUnitAmount s)))) (tr_FlatAmount s), tr_PerUnitAmount s)"
      using Cons.IH[OF ctg] by auto
    show ?thesis
    proof (intro exI[of _ "Suc i"] conjI)
      show "Suc i < length (t # t' # ts)" using i by simp
      have nth: "(t # t' # ts) ! Suc i = (t' # ts) ! i" by simp
      have "v (tr_FromValue ((t' # ts) ! i)) < v units"
        using P \<open>v (tr_FromValue t') < v units\<close> by (cases i) (auto simp: Let_def)
      then show "let s = (t # t' # ts) ! Suc i in
          v (tr_FromValue s) \<le> v units \<and> (v (tr_ToValue s) = 0 \<or> v units \<le> v (tr_ToValue s)) \<and>
          (0 < Suc i \<longrightarrow> v (tr_FromValue s) < v units) \<and>
          priceVolume D (t # t' # ts) units =
            (add64 (d_int_part D (d_round D (d_mul D units (tr_PerUnitAmount s)))) (tr_FlatAmount s), tr_PerUnitAmount s)"
        using P unfolding nth skip Let_def by blast
    qed
  qed
qed

end

section \<open>The started blocks of a package\<close>

lemma ceil_div16:
  fixes n size :: int
  assumes "0 < size" "size < 2 * 10 ^ 16"
  shows "\<lceil>div16 (of_int n) (of_int size)\<rceil> = (n + size - 1) div size"
proof -
  let ?q = "n div size" and ?r = "n mod size" and ?x = "of_int n / of_int size :: rat"
  have r: "0 \<le> ?r" "?r < size" using assms(1) by simp_all
  have x: "?x = of_int ?q + of_int ?r / of_int size"
  proof -
    have "of_int n = (of_int ?q * of_int size + of_int ?r :: rat)"
      by (metis div_mult_mod_eq of_int_add of_int_mult)
    then have "?x = (of_int ?q * of_int size + of_int ?r) / of_int size" by (simp only:)
    then show ?thesis using assms(1) by (simp add: add_divide_distrib)
  qed
  show ?thesis
  proof (cases "?r = 0")
    case True
    then have "?x = of_int ?q" using x by simp
    then have "div16 (of_int n) (of_int size) = of_int ?q"
      by (intro antisym div16_le div16_ge) simp_all
    moreover have "(n + size - 1) div size = ?q"
    proof -
      have "n = size * ?q" using True mult_div_mod_eq[of size n] by simp
      then have "n + size - 1 = (size - 1) + size * ?q" by simp
      then show ?thesis using assms(1) by (simp only: div_mult_self2) (simp add: div_pos_pos_trivial)
    qed
    ultimately show ?thesis by simp
  next
    case False
    then have r1: "1 \<le> ?r" using r by simp
    have "of_int ?q + 1 / of_int size \<le> ?x"
      unfolding x using r1 assms(1) by (simp add: divide_right_mono)
    moreover have "1 / (2 * 10 ^ 16) < (1 / of_int size :: rat)"
      using assms by (simp add: field_simps)
    moreover have "\<bar>div16 (of_int n) (of_int size) - ?x\<bar> \<le> 1 / (2 * 10 ^ 16)" by (rule div16_near)
    ultimately have lo: "of_int ?q < div16 (of_int n) (of_int size)" by linarith
    have rs: "?r \<le> size" using r by linarith
    have "?x \<le> of_int (?q + 1)" unfolding x using assms(1) by (simp add: rs)
    then have hi: "div16 (of_int n) (of_int size) \<le> of_int (?q + 1)" by (rule div16_le)
    have "\<lceil>div16 (of_int n) (of_int size)\<rceil> = ?q + 1" using lo hi by (intro ceiling_unique) simp_all
    moreover have "(n + size - 1) div size = ?q + 1"
    proof -
      have "n + size - 1 = (?r - 1) + size * (?q + 1)"
        using mult_div_mod_eq[of size n] by (simp add: algebra_simps)
      then have "(n + size - 1) div size = ((?r - 1) + size * (?q + 1)) div size" by (simp only:)
      also have "\<dots> = (?q + 1) + (?r - 1) div size" using assms(1) by (intro div_mult_self2) simp
      also have "(?r - 1) div size = 0" using r r1 by (intro div_pos_pos_trivial) linarith+
      finally show ?thesis by simp
    qed
    ultimately show ?thesis by simp
  qed
qed

lemma tier_qty_mono: "u \<le> u' \<Longrightarrow> tier_qty v t u \<le> tier_qty v t u'"
  by (auto simp: tier_qty_def Let_def max_def)

lemma graduated_spec_mono:
  assumes "\<forall>t\<in>set ts. 0 \<le> v (tr_PerUnitAmount t) \<and> 0 \<le> tr_FlatAmount t" "u \<le> u'"
  shows "graduated_spec v ts u \<le> graduated_spec v ts u'"
  unfolding graduated_spec_def
proof (rule sum_list_mono)
  fix t assume "t \<in> set ts"
  then have t: "0 \<le> v (tr_PerUnitAmount t)" "0 \<le> tr_FlatAmount t" using assms(1) by auto
  have q: "tier_qty v t u \<le> tier_qty v t u'" by (rule tier_qty_mono[OF assms(2)])
  have "tier_qty v t u * v (tr_PerUnitAmount t) \<le> tier_qty v t u' * v (tr_PerUnitAmount t)"
    using q t(1) by (rule mult_right_mono)
  then show "tier_owes v t u \<le> tier_owes v t u'" using q t(2) by (auto simp: tier_owes_def)
qed

section \<open>Sample data for the witnesses\<close>

definition sample_tiers :: "rat price_tier list" where
  "sample_tiers =
    [\<lparr> tr_FromValue = 0, tr_ToValue = 100, tr_PerUnitAmount = 10, tr_FlatAmount = 200 \<rparr>,
     \<lparr> tr_FromValue = 100, tr_ToValue = 0, tr_PerUnitAmount = 5, tr_FlatAmount = 0 \<rparr>]"

definition sample_price :: "rat price" where
  "sample_price = \<lparr> prc_OrgId = ''o'', prc_Id = ''p'', prc_VariantId = ''v'', prc_Label = ''l'',
     prc_Category = PriceCategorySubscription, prc_Scheme = Package, prc_Cycles = 0,
     prc_Currency = ''USD'', prc_UnitPrice = 500, prc_UnitCount = 1000, prc_MinPrice = 0,
     prc_SuggestedPrice = 0, prc_BillingInterval = BillingIntervalYear, prc_BillingIntervalQty = 1,
     prc_TrialInterval = BillingIntervalNone, prc_TrialIntervalQty = 0, prc_TaxCode = [],
     prc_BillableMetricId = ''m'', prc_Tiers = sample_tiers, prc_FilterField = [],
     prc_FilterValue = [], prc_ProrateOnIncrease = False, prc_CreditOnDecrease = False,
     prc_Metadata = Map.empty, prc_CreatedAt = 0, prc_UpdatedAt = 0 \<rparr>"

section \<open>Properties\<close>

text \<open>C3: Under contiguous tiers a graduated price charges the sum over all tiers of the
  tier's rate for the units in its band plus its flat amount once a unit lies in it,
  rounded once to the nearest whole amount; the loop's early exit loses nothing.\<close>

theorem graduated_price_reference:
  assumes "decimal_laws D v" and "prc_Scheme p \<in> {Graduated, Tiered}"
    and "tiers_contiguous v (prc_Tiers p)" and "tiers_flat64 (prc_Tiers p)"
    and "in64 (round_half_away (graduated_spec v (prc_Tiers p) (v units)))"
  shows "fst (PriceUsage D p units) = round_half_away (graduated_spec v (prc_Tiers p) (v units))"
  using decimal.priceGraduated_amount[OF decimal.intro[OF assms(1)] assms(3-5)] assms(2)
  by (auto simp: PriceUsage_def)

theorem graduated_price_reference_witness:
  "fst (PriceUsage rat_ops (sample_price\<lparr>prc_Scheme := Graduated\<rparr>) 250) =
     round_half_away (graduated_spec (\<lambda>x. x) sample_tiers 250)
   \<and> round_half_away (graduated_spec (\<lambda>x. x) sample_tiers 250) = 1950"
proof
  have val: "graduated_spec (\<lambda>x. x) sample_tiers 250 = of_int 1950"
    by (simp add: graduated_spec_def sample_tiers_def tier_owes_def tier_qty_def)
  then show "round_half_away (graduated_spec (\<lambda>x. x) sample_tiers 250) = 1950"
    by (simp only: round_half_away_of_int)
  then show "fst (PriceUsage rat_ops (sample_price\<lparr>prc_Scheme := Graduated\<rparr>) 250) =
     round_half_away (graduated_spec (\<lambda>x. x) sample_tiers 250)"
    using graduated_price_reference[OF rat_laws, of "sample_price\<lparr>prc_Scheme := Graduated\<rparr>" 250]
    by (simp add: sample_price_def sample_tiers_def tiers_flat64_def in64_def)
qed

text \<open>With non-negative rates and flat amounts a graduated price never charges less for more units.\<close>

theorem graduated_price_mono:
  assumes "decimal_laws D v" and "tiers_contiguous v ts"
    and "\<forall>t\<in>set ts. 0 \<le> v (tr_PerUnitAmount t) \<and> 0 \<le> tr_FlatAmount t \<and> tr_FlatAmount t < 2 ^ 63"
    and "v a \<le> v b" and "round_half_away (graduated_spec v ts (v b)) < 2 ^ 63"
  shows "fst (priceGraduated D ts a) \<le> fst (priceGraduated D ts b)"
proof -
  note dec = decimal.intro[OF assms(1)]
  have flat: "tiers_flat64 ts" using assms(3) by (auto simp: tiers_flat64_def in64_def)
  have mono: "graduated_spec v ts (v a) \<le> graduated_spec v ts (v b)"
    using assms(3,4) by (intro graduated_spec_mono) auto
  have nn: "0 \<le> graduated_spec v ts u" for u
    unfolding graduated_spec_def using assms(3)
    by (intro sum_list_nonneg) (auto simp: tier_owes_def tier_qty_def Let_def)
  have r: "0 \<le> round_half_away (graduated_spec v ts u)" for u
    using round_half_away_ge[of 0] nn[of u] by simp
  note m = round_half_away_mono[OF mono]
  have "in64 (round_half_away (graduated_spec v ts (v a)))" "in64 (round_half_away (graduated_spec v ts (v b)))"
    using r[of "v a"] r[of "v b"] m assms(5) by (auto intro!: in64_between)
  then show ?thesis using decimal.priceGraduated_amount[OF dec assms(2) flat] m by simp
qed

theorem graduated_price_mono_witness:
  "fst (priceGraduated rat_ops sample_tiers 99) \<le> fst (priceGraduated rat_ops sample_tiers 100)"
proof (rule graduated_price_mono[OF rat_laws])
  have "graduated_spec (\<lambda>x. x) sample_tiers 100 = of_int 1200"
    by (simp add: graduated_spec_def sample_tiers_def tier_owes_def tier_qty_def)
  then have "round_half_away (graduated_spec (\<lambda>x. x) sample_tiers 100) = 1200"
    by (simp only: round_half_away_of_int)
  then show "round_half_away (graduated_spec (\<lambda>x. x) sample_tiers 100) < 2 ^ 63" by simp
qed (simp_all add: sample_tiers_def)

text \<open>A package price charges a whole number of units by the started block: the
  block price times the quotient rounded up.\<close>

theorem package_price_blocks:
  assumes "decimal_laws D v" and "prc_Scheme p = Package" and "v units = of_int n" and "0 < n"
    and "1 \<le> prc_UnitCount p" and "prc_UnitCount p < 2 * 10 ^ 16" and "in64 (prc_UnitPrice p)"
    and "in64 ((n + prc_UnitCount p - 1) div prc_UnitCount p * prc_UnitPrice p)"
  shows "fst (PriceUsage D p units) = (n + prc_UnitCount p - 1) div prc_UnitCount p * prc_UnitPrice p"
proof -
  note dec = decimal.intro[OF assms(1)]
  let ?s = "prc_UnitCount p" and ?u = "prc_UnitPrice p"
  have s64: "in64 ?s" using assms(5,6) by (simp add: in64_def)
  have ceil: "\<lceil>div16 (of_int n) (of_int ?s)\<rceil> = (n + ?s - 1) div ?s"
    using assms(5,6) by (intro ceil_div16) auto
  let ?m = "d_mul D (d_ceil D (d_div D units (d_of_int D ?s))) (d_of_int D ?u)"
  have "v ?m = of_int ((n + ?s - 1) div ?s * ?u)"
    using assms(3,5,7) s64 ceil by (simp add: decimal.v_mul[OF dec] decimal.v_ceil[OF dec]
        decimal.v_div[OF dec] decimal.v_of_int[OF dec])
  then have "fst (roundWithUnit D ?m units) = (n + ?s - 1) div ?s * ?u"
    using decimal.roundWithUnit_amount[OF dec, of ?m] assms(8) by (simp only: round_half_away_of_int)
  then show ?thesis
    using assms(2-5) by (simp add: PriceUsage_def pricePackage_def Let_def decimal.le_iff[OF dec] decimal.v_zero[OF dec])
qed

theorem package_price_blocks_witness:
  "fst (PriceUsage rat_ops sample_price 1001) = 1000"
  using package_price_blocks[OF rat_laws, of sample_price 1001 1001]
  by (simp add: sample_price_def in64_def)

text \<open>Contiguous tiers from the first bound on, the last one open, leave no quantity
  without a rate: a volume price bills all units at one tier that contains the
  quantity, and a quantity on a bound shared by two tiers is billed by the lower one.\<close>

theorem volume_price_tier:
  assumes "decimal_laws D v" and "prc_Scheme p = Volume" and "prc_Tiers p = t # ts"
    and "tiers_contiguous v (t # ts)" and "v (tr_ToValue (last (t # ts))) = 0"
    and "v (tr_FromValue t) \<le> v units"
  shows "\<exists>i < length (prc_Tiers p). let s = prc_Tiers p ! i in
      v (tr_FromValue s) \<le> v units \<and> (v (tr_ToValue s) = 0 \<or> v units \<le> v (tr_ToValue s)) \<and>
      (0 < i \<longrightarrow> v (tr_FromValue s) < v units) \<and>
      PriceUsage D p units =
        (add64 (d_int_part D (d_round D (d_mul D units (tr_PerUnitAmount s)))) (tr_FlatAmount s), tr_PerUnitAmount s)"
  using decimal.priceVolume_hits[OF decimal.intro[OF assms(1)] assms(4-6)] assms(2,3)
  by (simp only: PriceUsage_def pricing_scheme.case)

theorem volume_price_tier_witness:
  "\<exists>i < length (prc_Tiers (sample_price\<lparr>prc_Scheme := Volume\<rparr>)).
    let s = prc_Tiers (sample_price\<lparr>prc_Scheme := Volume\<rparr>) ! i in
    tr_FromValue s \<le> 100 \<and> (tr_ToValue s = 0 \<or> 100 \<le> tr_ToValue s) \<and> (0 < i \<longrightarrow> tr_FromValue s < 100) \<and>
    PriceUsage rat_ops (sample_price\<lparr>prc_Scheme := Volume\<rparr>) 100 =
      (add64 (d_int_part rat_ops (d_round rat_ops (d_mul rat_ops 100 (tr_PerUnitAmount s)))) (tr_FlatAmount s),
       tr_PerUnitAmount s)"
  by (rule volume_price_tier[OF rat_laws, of _ "hd sample_tiers" "tl sample_tiers"])
    (simp_all add: sample_price_def sample_tiers_def)

end
