(* ===== verification/Cart.thy ===== *)
theory Cart
  imports Pricing
begin

text \<open>
  The cart entity of src/internal/core/domain/cart.go: its line items, the price
  snapshot they carry, and the operations that keep the totals.  The lemmas show
  that every operation leaves the cart consistent: the line amounts follow from
  unit price and quantity, and the totals are the sums over the lines.
\<close>

section \<open>Data\<close>

record cart_item_price =
  cip_Id :: string
  cip_VariantId :: string
  cip_Category :: price_category
  cip_Scheme :: pricing_scheme
  cip_Currency :: string
  cip_Cycles :: int
  cip_UnitPrice :: int
  cip_UnitCount :: int
  cip_MinPrice :: int
  cip_SuggestedPrice :: int
  cip_BillingInterval :: billing_interval
  cip_BillingIntervalQty :: int
  cip_TrialInterval :: billing_interval
  cip_TrialIntervalQty :: int
  cip_TaxCode :: string

record cart_line_item =
  cli_Id :: string
  cli_ProductId :: string
  cli_Price :: cart_item_price
  cli_Description :: string
  cli_Quantity :: int
  cli_UnitPrice :: int
  cli_UnitCount :: int
  cli_TaxTotal :: int
  cli_SubTotal :: int
  cli_DiscountTotal :: int
  cli_ShippingTotal :: int
  cli_Total :: int

record cart_data =
  cd_Currency :: string
  cd_Total :: int
  cd_SubTotal :: int
  cd_DiscountTotal :: int
  cd_ShippingTotal :: int
  cd_TaxTotal :: int
  cd_Items :: "cart_line_item list"

record cart =
  crt_OrgId :: string
  crt_Id :: string
  crt_Data :: cart_data
  crt_Status :: string
  crt_Total :: int
  crt_Metadata :: metadata
  crt_CreatedAt :: time
  crt_UpdatedAt :: time

section \<open>Operations\<close>

text \<open>MinPrice and SuggestedPrice are left at zero, as in the source.\<close>

definition PriceToCartItemPrice :: "'d price \<Rightarrow> cart_item_price" where
  "PriceToCartItemPrice p =
    \<lparr> cip_Id = prc_Id p, cip_VariantId = prc_VariantId p, cip_Category = prc_Category p,
      cip_Scheme = prc_Scheme p, cip_Currency = prc_Currency p, cip_Cycles = prc_Cycles p,
      cip_UnitPrice = prc_UnitPrice p, cip_UnitCount = prc_UnitCount p,
      cip_MinPrice = 0, cip_SuggestedPrice = 0,
      cip_BillingInterval = prc_BillingInterval p, cip_BillingIntervalQty = prc_BillingIntervalQty p,
      cip_TrialInterval = prc_TrialInterval p, cip_TrialIntervalQty = prc_TrialIntervalQty p,
      cip_TaxCode = prc_TaxCode p \<rparr>"

definition item_Calculate :: "'d decimal_ops \<Rightarrow> cart_line_item \<Rightarrow> cart_line_item" where
  "item_Calculate D i =
    (let s = FixedLineAmount D (cli_UnitPrice i) (cli_UnitCount i) (cli_Quantity i)
     in i\<lparr>cli_SubTotal := s, cli_Total := s\<rparr>)"

text \<open>One pass of the loop: recalculated items, then total, sub, discount and tax totals.\<close>

definition calc_step ::
    "'d decimal_ops \<Rightarrow> cart_line_item \<Rightarrow> cart_line_item list \<times> int \<times> int \<times> int \<times> int
      \<Rightarrow> cart_line_item list \<times> int \<times> int \<times> int \<times> int" where
  "calc_step D i st =
    (case st of (items, tot, subTotal, discountTotal, taxTotal) \<Rightarrow>
       let i' = item_Calculate D i;
           sub' = add64 subTotal (cli_SubTotal i')
       in (items @ [i'], sub', sub', add64 discountTotal (cli_DiscountTotal i'),
           add64 taxTotal (cli_TaxTotal i')))"

definition cart_Calculate :: "'d decimal_ops \<Rightarrow> cart \<Rightarrow> cart" where
  "cart_Calculate D c =
    (case fold (calc_step D) (cd_Items (crt_Data c)) ([], 0, 0, 0, 0) of
       (items, tot, subTotal, discountTotal, taxTotal) \<Rightarrow>
         c\<lparr>crt_Data := (crt_Data c)\<lparr>cd_Items := items, cd_Total := tot, cd_SubTotal := subTotal,
             cd_TaxTotal := taxTotal, cd_DiscountTotal := discountTotal\<rparr>,
           crt_Total := tot\<rparr>)"

fun remove_first :: "string \<Rightarrow> cart_line_item list \<Rightarrow> cart_line_item list" where
  "remove_first itemId [] = []"
| "remove_first itemId (i # is) = (if cli_Id i = itemId then is else i # remove_first itemId is)"

definition cart_RemoveItem :: "'d decimal_ops \<Rightarrow> string \<Rightarrow> cart \<Rightarrow> cart" where
  "cart_RemoveItem D itemId c =
    cart_Calculate D
      (c\<lparr>crt_Data := (crt_Data c)\<lparr>cd_Items := remove_first itemId (cd_Items (crt_Data c))\<rparr>\<rparr>)"

fun set_quantity :: "string \<Rightarrow> int \<Rightarrow> cart_line_item list \<Rightarrow> cart_line_item list option" where
  "set_quantity itemId quantity [] = None"
| "set_quantity itemId quantity (i # is) =
    (if cli_Id i = itemId then Some (i\<lparr>cli_Quantity := quantity\<rparr> # is)
     else map_option (Cons i) (set_quantity itemId quantity is))"

definition cart_AdjustQuantity :: "'d decimal_ops \<Rightarrow> string \<Rightarrow> int \<Rightarrow> cart \<Rightarrow> cart res" where
  "cart_AdjustQuantity D itemId quantity c =
    (case set_quantity itemId quantity (cd_Items (crt_Data c)) of
       None \<Rightarrow> Inl ErrItemNotFound
     | Some items \<Rightarrow> Inr (cart_Calculate D (c\<lparr>crt_Data := (crt_Data c)\<lparr>cd_Items := items\<rparr>\<rparr>)))"

section \<open>Consistency\<close>

definition item_ok :: "'d decimal_ops \<Rightarrow> cart_line_item \<Rightarrow> bool" where
  "item_ok D i \<longleftrightarrow> cli_SubTotal i = FixedLineAmount D (cli_UnitPrice i) (cli_UnitCount i) (cli_Quantity i)
     \<and> cli_Total i = cli_SubTotal i"

definition cart_ok :: "'d decimal_ops \<Rightarrow> cart \<Rightarrow> bool" where
  "cart_ok D c \<longleftrightarrow>
    (let d = crt_Data c in
     list_all (item_ok D) (cd_Items d) \<and>
     cd_SubTotal d = sum64 (map cli_SubTotal (cd_Items d)) \<and> cd_Total d = cd_SubTotal d \<and>
     crt_Total c = cd_Total d \<and>
     cd_DiscountTotal d = sum64 (map cli_DiscountTotal (cd_Items d)) \<and>
     cd_TaxTotal d = sum64 (map cli_TaxTotal (cd_Items d)))"

lemma item_Calculate_simps [simp]:
  "cli_Id (item_Calculate D i) = cli_Id i"
  "cli_Quantity (item_Calculate D i) = cli_Quantity i"
  "cli_DiscountTotal (item_Calculate D i) = cli_DiscountTotal i"
  "cli_TaxTotal (item_Calculate D i) = cli_TaxTotal i"
  "cli_SubTotal (item_Calculate D i) = FixedLineAmount D (cli_UnitPrice i) (cli_UnitCount i) (cli_Quantity i)"
  "item_ok D (item_Calculate D i)"
  "item_Calculate D (item_Calculate D i) = item_Calculate D i"
  by (simp_all add: item_Calculate_def item_ok_def Let_def)

lemma item_Calculate_id: "item_ok D i \<Longrightarrow> item_Calculate D i = i"
  by (cases i) (simp add: item_Calculate_def item_ok_def Let_def)

lemma fold_calc_step:
  "fold (calc_step D) is (done0, s, s, d, t) =
    (done0 @ map (item_Calculate D) is,
     fold (\<lambda>x a. add64 a x) (map (\<lambda>i. cli_SubTotal (item_Calculate D i)) is) s,
     fold (\<lambda>x a. add64 a x) (map (\<lambda>i. cli_SubTotal (item_Calculate D i)) is) s,
     fold (\<lambda>x a. add64 a x) (map cli_DiscountTotal is) d,
     fold (\<lambda>x a. add64 a x) (map cli_TaxTotal is) t)"
  by (induction "is" arbitrary: done0 s d t) (simp_all add: calc_step_def Let_def)

lemma cart_Calculate_eq:
  "cart_Calculate D c =
    (let items = map (item_Calculate D) (cd_Items (crt_Data c));
         s = sum64 (map cli_SubTotal items)
     in c\<lparr>crt_Data := (crt_Data c)\<lparr>cd_Items := items, cd_Total := s, cd_SubTotal := s,
             cd_TaxTotal := sum64 (map cli_TaxTotal items),
             cd_DiscountTotal := sum64 (map cli_DiscountTotal items)\<rparr>,
           crt_Total := s\<rparr>)"
  by (simp add: cart_Calculate_def fold_calc_step sum64_def Let_def comp_def)

lemma cart_Calculate_ok: "cart_ok D (cart_Calculate D c)"
  by (simp add: cart_ok_def cart_Calculate_eq Let_def list_all_iff)

lemma cart_Calculate_fix: "cart_ok D c \<Longrightarrow> cart_Calculate D c = c"
proof -
  assume ok: "cart_ok D c"
  then have "map (item_Calculate D) (cd_Items (crt_Data c)) = cd_Items (crt_Data c)"
    by (intro map_idI) (auto simp: cart_ok_def Let_def list_all_iff item_Calculate_id)
  then show ?thesis using ok by (simp add: cart_Calculate_eq cart_ok_def Let_def)
qed

lemma set_quantity_None: "set_quantity itemId q is = None \<longleftrightarrow> itemId \<notin> cli_Id ` set is"
  by (induction itemId q "is" rule: set_quantity.induct) auto

lemma set_quantity_Some:
  "set_quantity itemId q is = Some js \<Longrightarrow>
    \<exists>pre i post. is = pre @ i # post \<and> cli_Id i = itemId \<and> itemId \<notin> cli_Id ` set pre \<and>
      js = pre @ i\<lparr>cli_Quantity := q\<rparr> # post"
proof (induction itemId q "is" arbitrary: js rule: set_quantity.induct)
  case (2 itemId q i "is")
  show ?case
  proof (cases "cli_Id i = itemId")
    case True
    then show ?thesis using 2(2) by (intro exI[of _ "[]"]) auto
  next
    case False
    then obtain ks where "set_quantity itemId q is = Some ks" "js = i # ks" using 2(2) by auto
    then obtain pre j post where "is = pre @ j # post" "cli_Id j = itemId" "itemId \<notin> cli_Id ` set pre"
      "ks = pre @ j\<lparr>cli_Quantity := q\<rparr> # post" using 2(1)[OF False] by blast
    then show ?thesis using False \<open>js = i # ks\<close>
      by (intro exI[of _ "i # pre"] exI[of _ j] exI[of _ post]) auto
  qed
qed simp

section \<open>A cart's history\<close>

datatype cart_op = OpRemove string | OpAdjust string int | OpAdd cart_line_item

text \<open>OpAdd is the body of CartService.AddProduct on the loaded cart; a failing operation
  leaves the stored cart as it was.\<close>

fun cart_apply :: "'d decimal_ops \<Rightarrow> cart_op \<Rightarrow> cart \<Rightarrow> cart" where
  "cart_apply D (OpRemove itemId) c = cart_RemoveItem D itemId c"
| "cart_apply D (OpAdjust itemId q) c =
    (case cart_AdjustQuantity D itemId q c of Inl _ \<Rightarrow> c | Inr c' \<Rightarrow> c')"
| "cart_apply D (OpAdd i) c =
    cart_Calculate D (c\<lparr>crt_Data := (crt_Data c)\<lparr>cd_Items := cd_Items (crt_Data c) @ [i]\<rparr>\<rparr>)"

lemma cart_apply_ok: "cart_ok D c \<Longrightarrow> cart_ok D (cart_apply D op c)"
  by (cases op) (simp_all add: cart_RemoveItem_def cart_AdjustQuantity_def cart_Calculate_ok
      split: option.split)

section \<open>Properties\<close>

definition empty_cart :: cart where
  "empty_cart = \<lparr> crt_OrgId = ''o'', crt_Id = ''c'',
     crt_Data = \<lparr> cd_Currency = ''USD'', cd_Total = 0, cd_SubTotal = 0, cd_DiscountTotal = 0,
       cd_ShippingTotal = 0, cd_TaxTotal = 0, cd_Items = [] \<rparr>,
     crt_Status = [], crt_Total = 0, crt_Metadata = Map.empty, crt_CreatedAt = 0, crt_UpdatedAt = 0 \<rparr>"

text \<open>C4: From a consistent cart every sequence of additions, removals and quantity
  changes (failing ones included) leaves a consistent cart, and recalculating it
  again changes nothing.\<close>

theorem cart_history_consistent:
  assumes "cart_ok D c"
  shows "cart_ok D (fold (cart_apply D) ops c) \<and>
    cart_Calculate D (fold (cart_apply D) ops c) = fold (cart_apply D) ops c"
proof -
  have "cart_ok D (fold (cart_apply D) ops c)"
    using assms by (induction ops arbitrary: c) (simp_all add: cart_apply_ok)
  then show ?thesis by (simp add: cart_Calculate_fix)
qed

definition sample_cart_line :: "string \<Rightarrow> cart_line_item" where
  "sample_cart_line lid = \<lparr> cli_Id = lid, cli_ProductId = ''p'', cli_Price = PriceToCartItemPrice sample_price, cli_Description = ''n'',
     cli_Quantity = 2, cli_UnitPrice = 500, cli_UnitCount = 1, cli_TaxTotal = 7, cli_SubTotal = 0, cli_DiscountTotal = 0,
     cli_ShippingTotal = 0, cli_Total = 0 \<rparr>"

theorem cart_history_consistent_witness:
  "let c = fold (cart_apply rat_ops)
      [OpAdd (sample_cart_line ''a''), OpAdd (sample_cart_line ''b''), OpAdjust ''b'' 3, OpRemove ''a'', OpAdjust ''z'' 1] empty_cart in
    cart_ok rat_ops c \<and> length (cd_Items (crt_Data c)) = 1 \<and> crt_Total c = 1500 \<and> cd_TaxTotal (crt_Data c) = 7"
proof -
  let ?ops = "[OpAdd (sample_cart_line ''a''), OpAdd (sample_cart_line ''b''), OpAdjust ''b'' 3, OpRemove ''a'', OpAdjust ''z'' 1]"
  have "length (cd_Items (crt_Data (fold (cart_apply rat_ops) ?ops empty_cart))) = 1 \<and>
      crt_Total (fold (cart_apply rat_ops) ?ops empty_cart) = 1500 \<and>
      cd_TaxTotal (crt_Data (fold (cart_apply rat_ops) ?ops empty_cart)) = 7" by code_simp
  with cart_history_consistent[of rat_ops empty_cart ?ops] show ?thesis
    by (simp only: Let_def) (simp add: cart_ok_def empty_cart_def sum64_def)
qed

text \<open>AdjustQuantity fails exactly when no line has the id, and otherwise sets the
  quantity of the first such line and of no other before it recalculates.\<close>

theorem AdjustQuantity_result:
  "case cart_AdjustQuantity D itemId q c of
     Inl e \<Rightarrow> e = ErrItemNotFound \<and> itemId \<notin> cli_Id ` set (cd_Items (crt_Data c))
   | Inr c' \<Rightarrow> \<exists>pre i post. cd_Items (crt_Data c) = pre @ i # post \<and> cli_Id i = itemId \<and>
       itemId \<notin> cli_Id ` set pre \<and>
       cd_Items (crt_Data c') =
         map (item_Calculate D) pre @ item_Calculate D (i\<lparr>cli_Quantity := q\<rparr>) # map (item_Calculate D) post"
proof (cases "set_quantity itemId q (cd_Items (crt_Data c))")
  case None
  moreover have "itemId \<notin> cli_Id ` set (cd_Items (crt_Data c))"
    using None by (metis set_quantity_None)
  ultimately show ?thesis by (simp add: cart_AdjustQuantity_def)
next
  case (Some items)
  then obtain pre i post where s: "cd_Items (crt_Data c) = pre @ i # post" "cli_Id i = itemId"
    "itemId \<notin> cli_Id ` set pre" "items = pre @ i\<lparr>cli_Quantity := q\<rparr> # post"
    using set_quantity_Some by blast
  have "cart_AdjustQuantity D itemId q c =
      Inr (cart_Calculate D (c\<lparr>crt_Data := (crt_Data c)\<lparr>cd_Items := items\<rparr>\<rparr>))"
    using Some by (simp add: cart_AdjustQuantity_def)
  moreover have "cd_Items (crt_Data (cart_Calculate D (c\<lparr>crt_Data := (crt_Data c)\<lparr>cd_Items := items\<rparr>\<rparr>))) =
      map (item_Calculate D) pre @ item_Calculate D (i\<lparr>cli_Quantity := q\<rparr>) # map (item_Calculate D) post"
    by (simp add: cart_Calculate_eq Let_def s(4))
  ultimately show ?thesis using s(1-3)
    by (simp del: append_eq_append_conv) (intro exI[of _ pre] exI[of _ i] exI[of _ post], simp)
qed

end
