(* ===== verification/Go_Time.thy ===== *)
theory Go_Time
  imports Go_Int
begin

text \<open>
  The part of Go's time package the core computes with: time stamps as
  nanoseconds since the zero time, durations as int64, the Gregorian calendar
  (Date, AddDate, Day, Clock) in UTC.  A date is found as the standard library
  does it, by cutting 400-, 100-, 4- and 1-year cycles off the day number; the
  lemmas show that this inverts the day count, and that adding months moves a
  time stamp by at least 28 days per month.
\<close>

section \<open>Durations\<close>

definition Nanosecond :: int where "Nanosecond = 1"
definition Second :: int where "Second = 1000000000"
definition Minute :: int where "Minute = 60 * Second"
definition Hour :: int where "Hour = 60 * Minute"
definition Day :: int where "Day = 24 * Hour"

lemmas duration_defs = Nanosecond_def Second_def Minute_def Hour_def Day_def

text \<open>t.Sub(u) saturates at the bounds of int64.\<close>

definition time_Sub :: "time \<Rightarrow> time \<Rightarrow> duration" where
  "time_Sub t u = max (- (2 ^ 63)) (min (2 ^ 63 - 1) (t - u))"

definition time_Add :: "time \<Rightarrow> duration \<Rightarrow> time" where
  "time_Add t d = t + d"

definition IsZero :: "time \<Rightarrow> bool" where
  "IsZero t \<longleftrightarrow> t = 0"

lemma time_Sub_exact [go_int]: "in64 (t - u) \<Longrightarrow> time_Sub t u = t - u"
  by (simp add: time_Sub_def in64_def)

section \<open>The calendar\<close>

definition is_leap :: "int \<Rightarrow> bool" where
  "is_leap y \<longleftrightarrow> y mod 4 = 0 \<and> (y mod 100 \<noteq> 0 \<or> y mod 400 = 0)"

text \<open>Days from 1 January of year 1 to 1 January of year y.\<close>

definition days_before_year :: "int \<Rightarrow> int" where
  "days_before_year y = (let p = y - 1 in 365 * p + p div 4 - p div 100 + p div 400)"

fun days_before_month :: "bool \<Rightarrow> nat \<Rightarrow> int" where
  "days_before_month leap m = [0, 31, 59, 90, 120, 151, 181, 212, 243, 273, 304, 334] ! m
     + (if leap \<and> 2 \<le> m then 1 else 0)"

text \<open>The month with index M counts months from January of year 0; month_start is its first day.\<close>

definition month_start :: "int \<Rightarrow> int" where
  "month_start M = (let y = M div 12 in
     days_before_year y + days_before_month (is_leap y) (nat (M mod 12)))"

text \<open>time.Date in UTC: out-of-range months, days and times are normalised by carrying over.\<close>

definition go_Date :: "int \<Rightarrow> int \<Rightarrow> int \<Rightarrow> int \<Rightarrow> int \<Rightarrow> int \<Rightarrow> int \<Rightarrow> time" where
  "go_Date year month day hour mi sec nsec =
     (month_start (12 * year + (month - 1)) + (day - 1)) * Day + hour * Hour + mi * Minute
       + sec * Second + nsec"

text \<open>Year and day of the year (from 0) of a day number.\<close>

definition year_yday :: "int \<Rightarrow> int \<times> int" where
  "year_yday n =
    (let n400 = n div 146097; d = n mod 146097;
         n100 = min 3 (d div 36524); d1 = d - 36524 * n100;
         n4 = d1 div 1461; d2 = d1 mod 1461;
         n1 = min 3 (d2 div 365)
     in (400 * n400 + 100 * n100 + 4 * n4 + n1 + 1, d2 - 365 * n1))"

fun find_month :: "bool \<Rightarrow> int \<Rightarrow> nat \<Rightarrow> nat" where
  "find_month leap yday 0 = 0"
| "find_month leap yday (Suc m) =
    (if days_before_month leap (Suc m) \<le> yday then Suc m else find_month leap yday m)"

definition time_Date :: "time \<Rightarrow> int \<times> int \<times> int" where
  "time_Date t =
    (let (y, yday) = year_yday (t div Day); m = find_month (is_leap y) yday 11
     in (y, int m + 1, yday - days_before_month (is_leap y) m + 1))"

definition time_Day :: "time \<Rightarrow> int" where
  "time_Day t = snd (snd (time_Date t))"

definition time_Clock :: "time \<Rightarrow> int \<times> int \<times> int" where
  "time_Clock t = (t mod Day div Hour, t mod Hour div Minute, t mod Minute div Second)"

definition time_Nanosecond :: "time \<Rightarrow> int" where
  "time_Nanosecond t = t mod Second"

definition AddDate :: "time \<Rightarrow> int \<Rightarrow> int \<Rightarrow> int \<Rightarrow> time" where
  "AddDate t years months days =
    (let (y, m, d) = time_Date t; (hh, mi, ss) = time_Clock t
     in go_Date (y + years) (m + months) (d + days) hh mi ss (time_Nanosecond t))"

section \<open>Lemmas\<close>

lemma div_bounds:
  fixes n k :: int
  assumes "0 < k"
  shows "k * (n div k) \<le> n" "n < k * (n div k) + k"
  using mult_div_mod_eq[of k n] pos_mod_sign[OF assms, of n] pos_mod_bound[OF assms, of n] by linarith+

text \<open>Cutting at most 3 cycles of length k off a number of at most 3 k + m days.\<close>

lemma min3_div:
  fixes n k :: int
  assumes "0 < k" "0 \<le> n" "n < 3 * k + m" "b = min 3 (n div k)"
  shows "0 \<le> b" "b \<le> 3" "0 \<le> n - k * b" "b < 3 \<Longrightarrow> n - k * b < k" "b = 3 \<Longrightarrow> n - k * b < m"
proof -
  have q: "0 \<le> n div k" using assms by (simp add: pos_imp_zdiv_nonneg_iff)
  show "0 \<le> b" "b \<le> 3" using q assms(4) by auto
  have "k * b \<le> k * (n div k)" using assms(1,4) by (intro mult_left_mono) auto
  then show "0 \<le> n - k * b" using div_bounds(1)[OF assms(1), of n] by linarith
  show "n - k * b < k" if "b < 3"
  proof -
    have "b = n div k" using that assms(4) by linarith
    then have "k * b = k * (n div k)" by simp
    then show ?thesis using div_bounds(2)[OF assms(1), of n] by linarith
  qed
  show "n - k * b < m" if "b = 3" using that assms(3) by simp
qed

lemma days_before_year_cycles:
  assumes "0 \<le> b" "b \<le> 3" "0 \<le> c" "c \<le> 24" "0 \<le> e" "e \<le> 3"
  shows "days_before_year (400 * a + 100 * b + 4 * c + e + 1) = 146097 * a + 36524 * b + 1461 * c + 365 * e"
proof -
  let ?p = "400 * a + 100 * b + 4 * c + e"
  have d4: "?p div 4 = 100 * a + 25 * b + c" by (rule int_div_pos_eq[of _ _ _ e]) (use assms in simp_all)
  have d100: "?p div 100 = 4 * a + b" by (rule int_div_pos_eq[of _ _ _ "4 * c + e"]) (use assms in simp_all)
  have d400: "?p div 400 = a" by (rule int_div_pos_eq[of _ _ _ "100 * b + 4 * c + e"]) (use assms in simp_all)
  have "days_before_year (?p + 1) = 365 * ?p + (100 * a + 25 * b + c) - (4 * a + b) + a"
    by (simp only: days_before_year_def Let_def add_diff_cancel_right' d4 d100 d400)
  then show ?thesis by simp
qed

lemma last_of_cycle:
  fixes x k q y :: int
  assumes "0 \<le> x" "x < k" "y = (x + 1) + k * q"
  shows "y mod k = 0 \<longleftrightarrow> x = k - 1"
proof -
  have "y mod k = (x + 1) mod k" unfolding assms(3) by (rule mod_mult_self2)
  moreover have "(x + 1) mod k = (if x + 1 < k then x + 1 else 0)"
  proof (cases "x + 1 < k")
    case False
    then have "x + 1 = k" using assms(2) by simp
    then show ?thesis by simp
  qed (use assms in simp)
  ultimately show ?thesis using assms(1,2) by auto
qed

lemma is_leap_cycles:
  assumes "0 \<le> b" "b \<le> 3" "0 \<le> c" "c \<le> 24" "0 \<le> e" "e \<le> 3"
  shows "is_leap (400 * a + 100 * b + 4 * c + e + 1) \<longleftrightarrow> e = 3 \<and> (c \<noteq> 24 \<or> b = 3)"
proof -
  let ?y = "400 * a + 100 * b + 4 * c + e + 1"
  have "?y mod 4 = 0 \<longleftrightarrow> e = 4 - 1"
    by (rule last_of_cycle[of _ _ _ "100 * a + 25 * b + c"]) (use assms in simp_all)
  moreover have "?y mod 100 = 0 \<longleftrightarrow> 4 * c + e = 100 - 1"
    by (rule last_of_cycle[of _ _ _ "4 * a + b"]) (use assms in simp_all)
  moreover have "?y mod 400 = 0 \<longleftrightarrow> 100 * b + 4 * c + e = 400 - 1"
    by (rule last_of_cycle[of _ _ _ a]) (use assms in simp_all)
  moreover have "4 * c + e = 100 - 1 \<longleftrightarrow> c = 24 \<and> e = 3"
    "100 * b + 4 * c + e = 400 - 1 \<longleftrightarrow> b = 3 \<and> c = 24 \<and> e = 3" using assms by linarith+
  ultimately show ?thesis unfolding is_leap_def by auto
qed

lemma zdiv_le_24: "(x::int) \<le> 36524 \<Longrightarrow> x div 1461 \<le> 24"
  using zdiv_mono1[of x 36524 1461] by simp

lemma year_yday:
  assumes "year_yday n = (y, yd)"
  shows "n = days_before_year y + yd" "0 \<le> yd" "yd < 365 + (if is_leap y then 1 else 0)"
proof -
  define a where "a = n div 146097"
  define d where "d = n mod 146097"
  define b where "b = min 3 (d div 36524)"
  define d1 where "d1 = d - 36524 * b"
  define c where "c = d1 div 1461"
  define d2 where "d2 = d1 mod 1461"
  define e where "e = min 3 (d2 div 365)"
  have "year_yday n = (400 * a + 100 * b + 4 * c + e + 1, d2 - 365 * e)"
    by (simp only: year_yday_def Let_def flip: a_def d_def b_def d1_def c_def d2_def e_def)
  then have y: "y = 400 * a + 100 * b + 4 * c + e + 1" and yd: "yd = d2 - 365 * e"
    using assms by simp_all
  have n: "n = 146097 * a + d" "0 \<le> d" "d < 146097" by (simp_all add: a_def d_def)
  have d3: "d < 3 * 36524 + 36525" using n(3) by simp
  have p: "(0::int) < 36524" "(0::int) < 365" by simp_all
  note m1 = min3_div[OF p(1) n(2) d3 b_def, folded d1_def]
  have b: "0 \<le> b" "b \<le> 3" "0 \<le> d1" "b < 3 \<Longrightarrow> d1 < 36524" by (fact m1)+
  have d1: "d1 \<le> 36524"
  proof (cases "b < 3")
    case True
    then show ?thesis using b(4) by simp
  next
    case False
    then have "b = 3" using b(2) by simp
    then show ?thesis using m1(5) by simp
  qed
  have c: "d1 = 1461 * c + d2" "0 \<le> d2" "d2 \<le> 1460"
    by (simp_all add: c_def d2_def)
  have c': "0 \<le> c" "c \<le> 24"
    using b(3) d1 by (simp_all add: c_def pos_imp_zdiv_nonneg_iff zdiv_le_24)
  have d3: "d2 < 3 * 365 + 366" using c(3) by simp
  note m2 = min3_div[OF p(2) c(2) d3 e_def]
  have e: "0 \<le> e" "e \<le> 3" "0 \<le> d2 - 365 * e" "e < 3 \<Longrightarrow> d2 - 365 * e < 365"
    by (fact m2)+
  note cyc = days_before_year_cycles[OF b(1,2) c' e(1,2), of a] is_leap_cycles[OF b(1,2) c' e(1,2), of a]
  show "n = days_before_year y + yd" using n(1) c(1) by (simp add: y cyc(1) yd d1_def)
  show "0 \<le> yd" using e(3) by (simp add: yd)
  show "yd < 365 + (if is_leap y then 1 else 0)"
  proof (cases "e < 3")
    case True
    then show ?thesis using e(4) by (auto simp: yd)
  next
    case False
    then have e3: "e = 3" using e(2) by simp
    show ?thesis
    proof (cases "c = 24 \<and> b < 3")
      case True
      then have "d2 < 1460" using b(4) c(1) by simp
      then show ?thesis using e3 by (simp add: yd)
    next
      case False
      then have "is_leap y" unfolding y cyc(2) using e3 b(2) by auto
      then show ?thesis using c(3) e3 by (simp add: yd)
    qed
  qed
qed

lemma div_pred:
  fixes y k :: int
  assumes "0 < k"
  shows "y div k = (y - 1) div k + (if y mod k = 0 then 1 else 0)"
proof -
  have y: "y = k * (y div k) + y mod k" "0 \<le> y mod k" "y mod k < k" using assms by simp_all
  have k: "k * (y div k - 1) = k * (y div k) - k" by (simp add: algebra_simps)
  have "(y - 1) div k = (if y mod k = 0 then y div k - 1 else y div k)"
  proof (cases "y mod k = 0")
    case True
    have "(y - 1) div k = y div k - 1"
      by (rule int_div_pos_eq[of _ _ _ "k - 1"]) (use y True k assms in linarith)+
    then show ?thesis using True by simp
  next
    case False
    have "(y - 1) div k = y div k"
      by (rule int_div_pos_eq[of _ _ _ "y mod k - 1"]) (use y False in linarith)+
    then show ?thesis using False by simp
  qed
  then show ?thesis by simp
qed

lemma mod_0_trans:
  fixes y a b :: int
  assumes "y mod b = 0" "b mod a = 0"
  shows "y mod a = 0"
  using assms by (metis dvd_eq_mod_eq_0 dvd_trans)

lemma leap_arith:
  fixes y :: int
  assumes "y4 = q4 + (if P4 then 1 else 0)" "y100 = q100 + (if P100 then 1 else 0)"
    "y400 = q400 + (if P400 then 1 else 0)" "P400 \<Longrightarrow> P100" "P100 \<Longrightarrow> P4"
  shows "365 * y + y4 - y100 + y400 =
    365 * (y - 1) + q4 - q100 + q400 + 365 + (if P4 \<and> (\<not> P100 \<or> P400) then 1 else 0)"
  unfolding assms(1-3) using assms(4,5) by (cases P4; cases P100; cases P400) simp_all

lemma days_before_year_Suc:
  "days_before_year (y + 1) = days_before_year y + 365 + (if is_leap y then 1 else 0)"
proof -
  have m: "y mod 400 = 0 \<Longrightarrow> y mod 100 = 0" "y mod 100 = 0 \<Longrightarrow> y mod 4 = 0"
    by (rule mod_0_trans, assumption, simp)+
  have k: "(0::int) < 4" "(0::int) < 100" "(0::int) < 400" by simp_all
  show ?thesis
    unfolding days_before_year_def Let_def add_diff_cancel_right' is_leap_def
    by (rule leap_arith[OF div_pred[OF k(1)] div_pred[OF k(2)] div_pred[OF k(3)] m])
qed

lemma month_cases:
  fixes m :: nat
  assumes "m < 12"
  shows "m \<in> {0, 1, 2, 3, 4, 5, 6, 7, 8, 9, 10, 11}"
  using assms by (simp add: numeral_eq_Suc less_Suc_eq)

definition days_in_month :: "bool \<Rightarrow> nat \<Rightarrow> int" where
  "days_in_month leap m = [31, 28, 31, 30, 31, 30, 31, 31, 30, 31, 30, 31] ! m + (if leap \<and> m = 1 then 1 else 0)"

lemma days_in_month_bounds:
  "m < 12 \<Longrightarrow> 28 \<le> days_in_month leap m \<and> days_in_month leap m \<le> 31"
  using month_cases[of m] by (auto simp: days_in_month_def)

lemma month_start_Suc:
  "month_start (M + 1) = month_start M + days_in_month (is_leap (M div 12)) (nat (M mod 12))"
proof (cases "M mod 12 = 11")
  case True
  then have M: "M + 1 = 12 * (M div 12 + 1) + 0" using mult_div_mod_eq[of 12 M] by simp
  have d: "(M + 1) div 12 = M div 12 + 1" by (rule int_div_pos_eq[OF M]) simp_all
  have r: "(M + 1) mod 12 = 0" by (rule int_mod_pos_eq[OF M]) simp_all
  show ?thesis using True d r
    by (simp add: month_start_def Let_def days_before_year_Suc days_in_month_def)
next
  case False
  then have lt: "M mod 12 + 1 < 12" using pos_mod_bound[of 12 M] by simp
  have M: "M + 1 = 12 * (M div 12) + (M mod 12 + 1)" by simp
  have d: "(M + 1) div 12 = M div 12" "(M + 1) mod 12 = M mod 12 + 1"
    by (rule int_div_pos_eq[OF M] int_mod_pos_eq[OF M]; use lt in simp)+
  define m where "m = nat (M mod 12)"
  have "0 \<le> M mod 12" "M mod 12 < 12" by simp_all
  then have m: "nat (M mod 12) = m" "nat (M mod 12 + 1) = Suc m" "m < 11" using False unfolding m_def by linarith+
  have "days_before_month l (Suc m) = days_before_month l m + days_in_month l m" for l
    using m(3) month_cases[of m] by (auto simp: days_in_month_def)
  then show ?thesis by (simp only: month_start_def Let_def d m)
qed

lemma month_start_le: "month_start M + 28 * int k \<le> month_start (M + int k)"
proof (induction k)
  case (Suc k)
  have "nat ((M + int k) mod 12) < 12" by simp
  then have "28 \<le> days_in_month (is_leap ((M + int k) div 12)) (nat ((M + int k) mod 12))"
    using days_in_month_bounds by blast
  moreover have "M + int (Suc k) = (M + int k) + 1" by simp
  ultimately show ?case using Suc.IH month_start_Suc[of "M + int k"] by (simp only:) simp
qed simp

lemma month_start_ge: "month_start (M + int k) \<le> month_start M + 31 * int k"
proof (induction k)
  case (Suc k)
  have "nat ((M + int k) mod 12) < 12" by simp
  then have "days_in_month (is_leap ((M + int k) div 12)) (nat ((M + int k) mod 12)) \<le> 31"
    using days_in_month_bounds by blast
  moreover have "M + int (Suc k) = (M + int k) + 1" by simp
  ultimately show ?case using Suc.IH month_start_Suc[of "M + int k"] by (simp only:) simp
qed simp

lemma find_month_le: "find_month leap yd k \<le> k"
  by (induction k) auto

lemma find_month_props:
  "0 \<le> yd \<Longrightarrow> days_before_month leap (find_month leap yd k) \<le> yd \<and>
    (find_month leap yd k < k \<longrightarrow> yd < days_before_month leap (Suc (find_month leap yd k)))"
proof (induction k)
  case (Suc k)
  have "find_month leap yd k \<le> k" by (rule find_month_le)
  then show ?case using Suc by (auto simp del: days_before_month.simps simp: less_Suc_eq le_less)
qed simp

declare days_before_month.simps [simp del]

lemma find_month_dim:
  assumes "0 \<le> yd" "yd < 365 + (if leap then 1 else 0)"
  defines "m \<equiv> find_month leap yd 11"
  shows "m < 12" "0 \<le> yd - days_before_month leap m" "yd - days_before_month leap m < days_in_month leap m"
proof -
  have p: "days_before_month leap m \<le> yd" "m < 11 \<Longrightarrow> yd < days_before_month leap (Suc m)" "m \<le> 11"
    using find_month_props[OF assms(1), of leap 11] find_month_le[of leap yd 11] by (simp_all add: m_def)
  show m12: "m < 12" and "0 \<le> yd - days_before_month leap m" using p by simp_all
  show "yd - days_before_month leap m < days_in_month leap m"
  proof (cases "m = 11")
    case True
    then show ?thesis using assms(2) by (simp add: days_in_month_def days_before_month.simps)
  next
    case False
    then have "m < 11" using p(3) by simp
    moreover have "days_before_month leap (Suc m) = days_before_month leap m + days_in_month leap m"
      using \<open>m < 11\<close> month_cases[of m] by (auto simp: days_in_month_def days_before_month.simps)
    ultimately show ?thesis using p(2) by linarith
  qed
qed

text \<open>The date of a time stamp: a valid day of a month, from which the day number comes back.\<close>

lemma time_Date_props:
  assumes "time_Date t = (y, m, d)"
  shows "1 \<le> m" "m \<le> 12" "1 \<le> d" "d \<le> days_in_month (is_leap y) (nat (m - 1))"
    "t div Day = month_start (12 * y + (m - 1)) + (d - 1)"
proof -
  obtain y' yd where yy: "year_yday (t div Day) = (y', yd)" by fastforce
  define k where "k = find_month (is_leap y') yd 11"
  have d: "y = y'" "m = int k + 1" "d = yd - days_before_month (is_leap y') k + 1"
    using assms by (auto simp: time_Date_def yy Let_def k_def)
  note n = year_yday[OF yy]
  note f = find_month_dim[OF n(2,3), folded k_def]
  show "1 \<le> m" "m \<le> 12" "1 \<le> d" using d f by simp_all
  show "d \<le> days_in_month (is_leap y) (nat (m - 1))" using d f(3) by simp
  have "(12 * y + int k) div 12 = y" by (rule int_div_pos_eq[of _ _ _ "int k"]) (use f(1) in simp_all)
  moreover have "(12 * y + int k) mod 12 = int k" by (rule int_mod_pos_eq[of _ _ y]) (use f(1) in simp_all)
  ultimately have "month_start (12 * y + int k) = days_before_year y + days_before_month (is_leap y) k"
    by (simp add: month_start_def Let_def)
  then show "t div Day = month_start (12 * y + (m - 1)) + (d - 1)" using n(1) d by simp
qed

lemma month_start_mono_iff: "M < M' \<Longrightarrow> month_start (M + 1) \<le> month_start M'"
  using month_start_le[of "M + 1" "nat (M' - M - 1)"] by simp

lemma month_unique:
  assumes "month_start M + a = month_start M' + a'" "0 \<le> a" "0 \<le> a'"
    "a < days_in_month (is_leap (M div 12)) (nat (M mod 12))"
    "a' < days_in_month (is_leap (M' div 12)) (nat (M' mod 12))"
  shows "M = M' \<and> a = a'"
proof -
  have "\<not> M < M'" "\<not> M' < M"
    using month_start_mono_iff[of M M'] month_start_mono_iff[of M' M]
      month_start_Suc[of M] month_start_Suc[of M'] assms by linarith+
  then have "M = M'" by simp
  then show ?thesis using assms(1) by simp
qed

lemma month_index:
  fixes m y :: int
  shows "1 \<le> m \<Longrightarrow> m \<le> 12 \<Longrightarrow> (12 * y + (m - 1)) div 12 = y \<and> (12 * y + (m - 1)) mod 12 = m - 1"
  using int_div_pos_eq[of "12 * y + (m - 1)" 12 y "m - 1"] int_mod_pos_eq[of "12 * y + (m - 1)" 12 y "m - 1"]
  by simp

lemma time_Date_unique:
  assumes "t div Day = month_start (12 * y + (m - 1)) + (d - 1)" "1 \<le> m" "m \<le> 12"
    "1 \<le> d" "d \<le> days_in_month (is_leap y) (nat (m - 1))"
  shows "time_Date t = (y, m, d)"
proof -
  obtain y' m' d' where t: "time_Date t = (y', m', d')" by (metis prod_cases3)
  note p = time_Date_props[OF t]
  have "12 * y + (m - 1) = 12 * y' + (m' - 1) \<and> d - 1 = d' - 1"
    by (rule month_unique) (use assms p month_index[of m y] month_index[of m' y'] in simp_all)
  moreover from this have "(12 * y + (m - 1)) div 12 = (12 * y' + (m' - 1)) div 12" by (simp only:)
  then have "y = y'" using month_index[OF assms(2,3), of y] month_index[OF p(1,2), of y'] by (simp only:)
  ultimately show ?thesis using t by simp
qed

text \<open>Clock and nanoseconds give back the time of day.\<close>

lemma clock_sum:
  assumes "time_Clock t = (hh, mi, ss)"
  shows "hh * Hour + mi * Minute + ss * Second + time_Nanosecond t = t mod Day"
proof -
  have "t mod Hour = t mod Day mod Hour" "t mod Minute = t mod Hour mod Minute" "t mod Second = t mod Minute mod Second"
    by (simp_all add: duration_defs mod_mod_cancel)
  then show ?thesis using assms unfolding time_Clock_def time_Nanosecond_def
    by (metis div_mult_mod_eq add.assoc Pair_inject)
qed

lemma AddDate_eq:
  assumes "time_Date t = (y, m, d)"
  shows "AddDate t ys ms ds = (month_start (12 * y + (m - 1) + 12 * ys + ms) + (d - 1) + ds) * Day + t mod Day"
proof -
  obtain hh mi ss where c: "time_Clock t = (hh, mi, ss)" by (metis prod_cases3)
  have "12 * (y + ys) + (m + ms - 1) = 12 * y + (m - 1) + 12 * ys + ms"
    "d + ds - 1 = (d - 1) + ds" by (simp_all add: algebra_simps)
  then show ?thesis using clock_sum[OF c]
    by (simp only: AddDate_def assms c Let_def prod.case go_Date_def add.assoc)
qed

lemma AddDate_days: "AddDate t 0 0 n = t + n * Day"
proof -
  obtain y m d where t: "time_Date t = (y, m, d)" by (metis prod_cases3)
  have "AddDate t 0 0 n = (t div Day + n) * Day + t mod Day"
    using AddDate_eq[OF t, of 0 0 n] time_Date_props(5)[OF t] by simp
  also have "\<dots> = (t div Day * Day + t mod Day) + n * Day" by (simp only: distrib_right distrib_left ac_simps)
  finally show ?thesis by (simp only: div_mult_mod_eq)
qed

lemma AddDate_years: "AddDate t k 0 0 = AddDate t 0 (12 * k) 0"
proof -
  obtain y m d where t: "time_Date t = (y, m, d)" by (metis prod_cases3)
  show ?thesis by (simp add: AddDate_eq[OF t])
qed

lemma AddDate_months:
  assumes "0 \<le> k"
  shows "t + 28 * k * Day \<le> AddDate t 0 k 0" "AddDate t 0 k 0 \<le> t + 31 * k * Day"
proof -
  obtain y m d where t: "time_Date t = (y, m, d)" by (metis prod_cases3)
  define M where "M = 12 * y + (m - 1)"
  have a: "AddDate t 0 k 0 = (month_start (M + k) + (d - 1)) * Day + t mod Day"
    using AddDate_eq[OF t, of 0 k 0] by (simp add: M_def)
  have b: "t = (month_start M + (d - 1)) * Day + t mod Day"
    using time_Date_props(5)[OF t] div_mult_mod_eq[of t Day] by (simp add: M_def)
  have "month_start M + 28 * k \<le> month_start (M + k)" "month_start (M + k) \<le> month_start M + 31 * k"
    using month_start_le[of M "nat k"] month_start_ge[of M "nat k"] assms by simp_all
  then have "(month_start M + 28 * k + (d - 1)) * Day \<le> (month_start (M + k) + (d - 1)) * Day"
    "(month_start (M + k) + (d - 1)) * Day \<le> (month_start M + 31 * k + (d - 1)) * Day"
    by (simp_all add: duration_defs)
  then show "t + 28 * k * Day \<le> AddDate t 0 k 0" "AddDate t 0 k 0 \<le> t + 31 * k * Day"
    unfolding a using b by (simp_all add: distrib_right)
qed

lemma Day_pos: "0 < Day"
  by (simp add: duration_defs)

lemma AddDate_months_div: "AddDate t 0 k 0 div Day = month_start (12 * y + (m - 1) + k) + (d - 1)"
  if "time_Date t = (y, m, d)"
proof -
  have "0 \<le> t mod Day" "t mod Day < Day" using Day_pos by simp_all
  then show ?thesis using Day_pos by (simp add: AddDate_eq[OF that])
qed

text \<open>A day of at most 28 exists in every month, so adding months keeps it.\<close>

lemma AddDate_months_day:
  assumes "time_Date t = (y, m, d)" "d \<le> 28"
  shows "time_Date (AddDate t 0 k 0) = ((12 * y + (m - 1) + k) div 12, (12 * y + (m - 1) + k) mod 12 + 1, d)"
proof -
  let ?M = "12 * y + (m - 1) + k"
  have "nat (?M mod 12) < 12" by simp
  then have "28 \<le> days_in_month (is_leap (?M div 12)) (nat (?M mod 12))" using days_in_month_bounds by blast
  then show ?thesis using AddDate_months_div[OF assms(1), of k] time_Date_props[OF assms(1)] assms(2)
    by (intro time_Date_unique) simp_all
qed

end
