(* ===== verification/Payments.thy ===== *)
theory Payments
  imports Prelude
begin

text \<open>
  Payments and charge results: src/internal/core/domain/payment.go and
  payment_types.go, and the charge status of src/internal/core/port/payment.go.
  A gateway is identified by a string, as in the source.  A nil metadata map and
  an empty one are the same partial function here.
\<close>

type_synonym gateway = string

datatype payment_status =
    PaymentStatusPending | PaymentStatusFailed | PaymentStatusSucceeded | PaymentStatusRefunded
  | PaymentStatusPartialRefund | PaymentStatusCancelled | PaymentStatusExpired
  | PaymentStatusFraudulent | PaymentStatusOther string

record payment =
  pay_OrgId :: string
  pay_Id :: string
  pay_Psp :: gateway
  pay_PspId :: string
  pay_Reference :: string
  pay_OrderId :: string
  pay_SubscriptionId :: string
  pay_InvoiceId :: string
  pay_Status :: payment_status
  pay_Recurring :: bool
  pay_Currency :: string
  pay_Amount :: int
  pay_PspFee :: int
  pay_PlatformFee :: int
  pay_NetAmount :: int
  pay_Metadata :: metadata
  pay_CompletedAt :: time
  pay_CreatedAt :: time
  pay_UpdatedAt :: time

definition payment_SetMetadata :: "payment \<Rightarrow> metadata \<Rightarrow> payment" where
  "payment_SetMetadata p m = p\<lparr>pay_Metadata := pay_Metadata p ++ m\<rparr>"

record charge_result =
  chg_Psp :: gateway
  chg_Amount :: int
  chg_Status :: payment_status
  chg_ErrorReason :: string
  chg_ErrorCode :: string
  chg_Currency :: string
  chg_PspId :: string
  chg_Reference :: string
  chg_ProcessedAt :: time
  chg_RawData :: string

datatype charge_payment_status =
    ChargePaymentStatusSuccess | ChargePaymentStatusPending | ChargePaymentStatusError
  | ChargePaymentStatusGatewayError | ChargePaymentStatusOther string

record charge_payment_response =
  cpr_Status :: charge_payment_status
  cpr_Retryable :: bool
  cpr_Psp :: gateway
  cpr_PspId :: string
  cpr_Reference :: string
  cpr_Currency :: string
  cpr_AmountCharged :: int
  cpr_PaymentType :: string
  cpr_ErrorReason :: string
  cpr_ErrorCode :: string
  cpr_PspResponse :: string

section \<open>Refunds (refund.go)\<close>

record refund =
  rfd_OrgId :: string
  rfd_Id :: string
  rfd_PspRefundId :: string
  rfd_PaymentId :: string
  rfd_Amount :: int
  rfd_Currency :: string
  rfd_Reason :: string
  rfd_RefundedAt :: time
  rfd_CreatedAt :: time
  rfd_UpdatedAt :: time

end
