(* ===== verification/Subscriptions.thy ===== *)
theory Subscriptions
  imports Pricing Go_Time Payments
begin

text \<open>
  The subscription aggregate: src/internal/core/domain/subscription.go and
  subscription_recovery.go.  Every call of time.Now is an argument; the process
  runs in UTC.  The lemmas show when the next billing date lies after its base,
  that a billing day of at most 28 never drifts, that a proration credit stays
  within the price, and what the retry policy schedules.
\<close>

section \<open>Data\<close>

datatype subscription_status =
    SubscriptionStatusTrial | SubscriptionStatusActive | SubscriptionStatusPastDue
  | SubscriptionStatusNonRenewing | SubscriptionStatusPaused | SubscriptionStatusUnpaid
  | SubscriptionStatusCancelled | SubscriptionStatusPending | SubscriptionStatusExpired
  | SubscriptionStatusCompleted | SubscriptionStatusError | SubscriptionStatusOther string

record subscription =
  sub_OrgId :: string
  sub_Id :: string
  sub_PspId :: gateway
  sub_OrderId :: string
  sub_CustomerId :: string
  sub_Status :: subscription_status
  sub_PaymentMethodId :: string
  sub_StartDate :: time
  sub_EndDate :: time
  sub_BillingInterval :: billing_interval
  sub_BillingIntervalQty :: int
  sub_Cycles :: int
  sub_BillingAnchor :: int
  sub_TrialInterval :: billing_interval
  sub_TrialIntervalQty :: int
  sub_TrialEndsAt :: time
  sub_CancelAt :: time
  sub_EndsAt :: time
  sub_LastCharge :: time
  sub_RenewsAt :: time
  sub_CurrentPeriodStart :: time
  sub_CurrentPeriodEnd :: time
  sub_Retries :: int
  sub_NextRetryAt :: time
  sub_Currency :: string
  sub_Metadata :: metadata
  sub_CyclesProcessed :: int
  sub_TotalRevenue :: int
  sub_CancelledAt :: time
  sub_CreatedAt :: time
  sub_UpdatedAt :: time

record proration_details =
  prd_CreditAmount :: int
  prd_DaysCredited :: int
  prd_CurrentPeriodStart :: time
  prd_CurrentPeriodEnd :: time
  prd_OldBillingAnchor :: int
  prd_NewBillingAnchor :: int
  prd_NewPeriodStart :: time
  prd_NewPeriodEnd :: time

datatype retry_interval =
  RetryIntervalMinute | RetryIntervalHour | RetryIntervalDay | RetryIntervalWeek | RetryIntervalOther string

datatype failure_action =
  FailureActionCancel | FailureActionMarkUnpaid | FailureActionLeavePastDue | FailureActionOther string

record retry_policy =
  rtp_RetryAttempts :: int
  rtp_RetryInterval :: retry_interval
  rtp_RetryPeriod :: int
  rtp_FailureAction :: failure_action

section \<open>Dates\<close>

text \<open>
  The switch over the interval that five functions of the file repeat; None is
  an interval that no case handles.  The string "hour" has no constant.
\<close>

definition interval_step :: "billing_interval \<Rightarrow> int \<Rightarrow> time \<Rightarrow> time option" where
  "interval_step interval qty base =
    (case interval of
       BillingIntervalMinute \<Rightarrow> Some (time_Add base (mul64 Minute qty))
     | BillingIntervalDay \<Rightarrow> Some (AddDate base 0 0 qty)
     | BillingIntervalWeek \<Rightarrow> Some (AddDate base 0 0 (mul64 qty 7))
     | BillingIntervalMonth \<Rightarrow> Some (AddDate base 0 qty 0)
     | BillingIntervalYear \<Rightarrow> Some (AddDate base qty 0 0)
     | BillingIntervalOther s \<Rightarrow> if s = ''hour'' then Some (time_Add base (mul64 Hour qty)) else None
     | _ \<Rightarrow> None)"

definition AddBillingInterval :: "subscription \<Rightarrow> time \<Rightarrow> time" where
  "AddBillingInterval s base =
    (case interval_step (sub_BillingInterval s) (sub_BillingIntervalQty s) base of
       None \<Rightarrow> 0 | Some t \<Rightarrow> t)"

definition CalculateNextBillingDate :: "subscription \<Rightarrow> time" where
  "CalculateNextBillingDate s =
    (if sub_BillingInterval s = BillingIntervalOther [] \<or> sub_BillingIntervalQty s \<le> 0 then 0
     else if IsZero (sub_LastCharge s) \<and> sub_CyclesProcessed s = 0 then sub_StartDate s
     else
       let base = (if IsZero (sub_CurrentPeriodEnd s) then sub_StartDate s else sub_CurrentPeriodEnd s)
       in case interval_step (sub_BillingInterval s) (sub_BillingIntervalQty s) base of
            None \<Rightarrow> 0 | Some t \<Rightarrow> t)"

definition calculateNextDate :: "billing_interval \<Rightarrow> int \<Rightarrow> time \<Rightarrow> time" where
  "calculateNextDate interval qty startDate =
    (case interval_step interval qty startDate of None \<Rightarrow> startDate | Some t \<Rightarrow> t)"

definition calculateBillingAnchor :: "int \<Rightarrow> int \<Rightarrow> int \<Rightarrow> time \<Rightarrow> time" where
  "calculateBillingAnchor anchor year month referenceTime =
    (let daysInMonth = time_Day (go_Date year (month + 1) 0 0 0 0 0);
         billingDay = min anchor daysInMonth;
         (hour, mi, sec) = time_Clock referenceTime;
         nsec = time_Nanosecond referenceTime
     in go_Date year month billingDay hour mi sec nsec)"

section \<open>Queries\<close>

definition IsRunning :: "subscription \<Rightarrow> bool" where
  "IsRunning s \<longleftrightarrow> sub_Status s = SubscriptionStatusActive
     \<or> sub_Status s = SubscriptionStatusTrial \<or> sub_Status s = SubscriptionStatusPastDue"

definition GetNextChargeDate :: "subscription \<Rightarrow> time" where
  "GetNextChargeDate s =
    (if sub_Status s = SubscriptionStatusPastDue then sub_NextRetryAt s
     else if sub_Status s = SubscriptionStatusActive then sub_RenewsAt s
     else if sub_RenewsAt s < sub_NextRetryAt s then sub_RenewsAt s
     else sub_NextRetryAt s)"

definition IsDueForBilling :: "subscription \<Rightarrow> time \<Rightarrow> bool" where
  "IsDueForBilling s now =
    (case sub_Status s of
       SubscriptionStatusActive \<Rightarrow> \<not> IsZero (sub_RenewsAt s) \<and> \<not> now < sub_RenewsAt s
     | SubscriptionStatusPastDue \<Rightarrow> \<not> IsZero (sub_NextRetryAt s) \<and> \<not> now < sub_NextRetryAt s
     | SubscriptionStatusTrial \<Rightarrow> \<not> IsZero (sub_TrialEndsAt s) \<and> \<not> now < sub_TrialEndsAt s
     | _ \<Rightarrow> False)"

section \<open>Proration\<close>

text \<open>
  int(d.Hours()/24): Hours is a float64 in the source; the quotient is kept
  exact here, so it is the whole days of the duration, toward zero.
\<close>

definition whole_days :: "duration \<Rightarrow> int" where
  "whole_days d = quot64 d Day"

definition CalculateProrationDetails ::
    "subscription \<Rightarrow> string \<Rightarrow> time \<Rightarrow> int \<Rightarrow> int \<Rightarrow> time \<Rightarrow> time \<Rightarrow> int \<Rightarrow> proration_details" where
  "CalculateProrationDetails s prorationMode referenceDate oldAnchor newAnchor newPeriodStart newPeriodEnd unitPriceMinor =
    (let details = \<lparr> prd_CreditAmount = 0, prd_DaysCredited = 0,
           prd_CurrentPeriodStart = sub_CurrentPeriodStart s, prd_CurrentPeriodEnd = sub_CurrentPeriodEnd s,
           prd_OldBillingAnchor = oldAnchor, prd_NewBillingAnchor = newAnchor,
           prd_NewPeriodStart = newPeriodStart, prd_NewPeriodEnd = newPeriodEnd \<rparr>
     in if prorationMode = ''none'' then details
        else if prorationMode = ''credit_unused'' then
          let totalDays = whole_days (time_Sub (sub_CurrentPeriodEnd s) (sub_CurrentPeriodStart s))
          in if totalDays \<le> 0 then details
             else
               let daysRemaining = whole_days (time_Sub (sub_CurrentPeriodEnd s) referenceDate)
               in if daysRemaining \<le> 0 then details
                  else details\<lparr>prd_CreditAmount := quot64 (mul64 unitPriceMinor daysRemaining) totalDays,
                               prd_DaysCredited := daysRemaining\<rparr>
        else details)"

definition UpdateBillingAnchor ::
    "subscription \<Rightarrow> int \<Rightarrow> string \<Rightarrow> int \<Rightarrow> time \<Rightarrow> time \<Rightarrow> subscription \<times> proration_details" where
  "UpdateBillingAnchor s anchor prorationMode unitPriceMinor now now' =
    (let (year, month, _) = time_Date now;
         referenceTime = sub_CurrentPeriodStart s;
         first = calculateBillingAnchor anchor year month referenceTime;
         nextBilling = (if first < now then
             (if month = 12 then calculateBillingAnchor anchor (year + 1) 1 referenceTime
              else calculateBillingAnchor anchor year (month + 1) referenceTime)
           else first);
         oldBillingAnchor = sub_BillingAnchor s;
         s1 = s\<lparr>sub_BillingAnchor := anchor\<rparr>;
         newPeriodStart = nextBilling;
         newPeriodEnd = AddBillingInterval s1 newPeriodStart;
         details = CalculateProrationDetails s1 prorationMode now oldBillingAnchor anchor
                     newPeriodStart newPeriodEnd unitPriceMinor
     in (s1\<lparr>sub_CurrentPeriodStart := newPeriodStart, sub_CurrentPeriodEnd := newPeriodEnd,
            sub_RenewsAt := newPeriodEnd, sub_UpdatedAt := now'\<rparr>, details))"

section \<open>Lifecycle\<close>

definition subscription_SetMetadata :: "subscription \<Rightarrow> metadata \<Rightarrow> subscription" where
  "subscription_SetMetadata s m = s\<lparr>sub_Metadata := sub_Metadata s ++ m\<rparr>"

definition SetActivationDates :: "subscription \<Rightarrow> time \<Rightarrow> subscription" where
  "SetActivationDates s startDate =
    (let trialEndsAt =
           (if sub_TrialInterval s \<noteq> BillingIntervalNone \<and> sub_TrialInterval s \<noteq> BillingIntervalOther [] then
              (case interval_step (sub_TrialInterval s) (sub_TrialIntervalQty s) startDate of
                 None \<Rightarrow> 0 | Some t \<Rightarrow> t)
            else 0);
         endsAt = (if 0 < sub_Cycles s then
             calculateNextDate (sub_BillingInterval s) (mul64 (sub_Cycles s) (sub_BillingIntervalQty s)) startDate
           else 0);
         s1 = s\<lparr>sub_StartDate := startDate, sub_TrialEndsAt := trialEndsAt, sub_EndsAt := endsAt\<rparr>;
         renewsAt = CalculateNextBillingDate s1
     in s1\<lparr>sub_RenewsAt := renewsAt, sub_CurrentPeriodStart := startDate, sub_CurrentPeriodEnd := renewsAt,
           sub_BillingAnchor := time_Day startDate\<rparr>)"

definition SetActive :: "subscription \<Rightarrow> payment \<Rightarrow> time \<Rightarrow> subscription" where
  "SetActive s p now =
    (let s1 = (SetActivationDates s now)\<lparr>sub_Status := SubscriptionStatusActive\<rparr>
     in if pay_OrgId p \<noteq> [] \<and> 0 < pay_Amount p then
          let s2 = s1\<lparr>sub_LastCharge := pay_CompletedAt p, sub_TotalRevenue := pay_Amount p,
                      sub_CyclesProcessed := add64 (sub_CyclesProcessed s1) 1\<rparr>;
              renewsAt = CalculateNextBillingDate s2
          in s2\<lparr>sub_RenewsAt := renewsAt, sub_CurrentPeriodStart := sub_StartDate s2,
                sub_CurrentPeriodEnd := renewsAt\<rparr>
        else s1)"

definition SetCancelled :: "subscription \<Rightarrow> time \<Rightarrow> subscription" where
  "SetCancelled s now = s\<lparr>sub_Status := SubscriptionStatusCancelled, sub_CancelledAt := now,
     sub_RenewsAt := 0, sub_NextRetryAt := 0\<rparr>"

text \<open>The first line that is not metered, else the first line, is the plan; callers pass at least one line.\<close>

fun plan_line :: "'d price list \<Rightarrow> 'd price option" where
  "plan_line [] = None"
| "plan_line (p # ps) = (if \<not> IsMetered p then Some p else plan_line ps)"

definition NewSubscriptionFromLines ::
    "string \<Rightarrow> string \<Rightarrow> string \<Rightarrow> 'd price list \<Rightarrow> string \<Rightarrow> time \<Rightarrow> subscription" where
  "NewSubscriptionFromLines orgId orderId customerId prices newId now =
    (let plan = (case plan_line prices of None \<Rightarrow> hd prices | Some p \<Rightarrow> p);
         (interval, qty) = SubscriptionCadence plan
     in \<lparr> sub_OrgId = orgId, sub_Id = newId, sub_PspId = [], sub_OrderId = orderId,
          sub_CustomerId = customerId, sub_Status = SubscriptionStatusPending, sub_PaymentMethodId = [],
          sub_StartDate = 0, sub_EndDate = 0, sub_BillingInterval = interval,
          sub_BillingIntervalQty = qty, sub_Cycles = prc_Cycles plan, sub_BillingAnchor = 0,
          sub_TrialInterval = prc_TrialInterval plan, sub_TrialIntervalQty = prc_TrialIntervalQty plan,
          sub_TrialEndsAt = 0, sub_CancelAt = 0, sub_EndsAt = 0, sub_LastCharge = 0, sub_RenewsAt = 0,
          sub_CurrentPeriodStart = 0, sub_CurrentPeriodEnd = 0, sub_Retries = 0, sub_NextRetryAt = 0,
          sub_Currency = prc_Currency plan, sub_Metadata = Map.empty, sub_CyclesProcessed = 0,
          sub_TotalRevenue = 0, sub_CancelledAt = 0, sub_CreatedAt = now, sub_UpdatedAt = now \<rparr>)"

section \<open>The retry policy\<close>

definition retry_duration :: "retry_interval \<Rightarrow> duration" where
  "retry_duration i =
    (case i of RetryIntervalMinute \<Rightarrow> Minute | RetryIntervalHour \<Rightarrow> Hour
     | RetryIntervalDay \<Rightarrow> 24 * Hour | RetryIntervalWeek \<Rightarrow> 7 * 24 * Hour
     | RetryIntervalOther _ \<Rightarrow> 24 * Hour)"

definition GetNextCharge :: "retry_policy \<Rightarrow> subscription \<Rightarrow> time" where
  "GetNextCharge r s =
    (if rtp_RetryAttempts r \<le> sub_Retries s then 0
     else
       let base = sub_RenewsAt s;
           period = quot64 (mul64 (rtp_RetryPeriod r) (retry_duration (rtp_RetryInterval r)))
                      (sub64 (rtp_RetryAttempts r) (sub_Retries s))
       in time_Add base period)"

section \<open>Lemmas\<close>

definition handled_interval :: "billing_interval \<Rightarrow> bool" where
  "handled_interval i \<longleftrightarrow> i \<in> {BillingIntervalMinute, BillingIntervalDay, BillingIntervalWeek,
     BillingIntervalMonth, BillingIntervalYear, BillingIntervalOther ''hour''}"

text \<open>Up to a million intervals, the duration of minutes and hours fits in an int64.\<close>

lemma interval_step_later:
  assumes "handled_interval i" "0 < qty" "qty \<le> 1000000"
  shows "\<exists>t. interval_step i qty base = Some t \<and> base + qty * Minute \<le> t"
proof -
  have m: "mul64 Minute qty = Minute * qty" "mul64 Hour qty = Hour * qty" "mul64 qty 7 = qty * 7"
    using assms(2,3) by (auto intro!: mul64_exact simp: in64_def duration_defs)
  have months: "base + 28 * k * Day \<le> AddDate base 0 k 0" if "0 < k" for k
    using AddDate_months(1)[of k base] that by simp
  show ?thesis
    using assms(1,2) months[of qty] months[of "12 * qty"]
    by (auto simp: handled_interval_def interval_step_def m m[unfolded duration_defs, simplified]
        time_Add_def AddDate_days AddDate_years duration_defs)
qed

lemma CalculateNextBillingDate_advanced:
  assumes "handled_interval (sub_BillingInterval s)" "0 < sub_BillingIntervalQty s"
    and "\<not> (IsZero (sub_LastCharge s) \<and> sub_CyclesProcessed s = 0)" "\<not> IsZero (sub_CurrentPeriodEnd s)"
  shows "CalculateNextBillingDate s = AddBillingInterval s (sub_CurrentPeriodEnd s)"
  using assms by (auto simp: CalculateNextBillingDate_def AddBillingInterval_def handled_interval_def)

lemma AddBillingInterval_later:
  assumes "handled_interval (sub_BillingInterval s)" "0 < sub_BillingIntervalQty s"
    "sub_BillingIntervalQty s \<le> 1000000"
  shows "base + sub_BillingIntervalQty s * Minute \<le> AddBillingInterval s base"
  using interval_step_later[OF assms, of base] by (auto simp: AddBillingInterval_def)

lemma monthly_day:
  assumes "sub_BillingInterval s = BillingIntervalMonth" "time_Day base \<le> 28"
  shows "time_Day ((AddBillingInterval s ^^ n) base) = time_Day base"
proof (induction n)
  case (Suc n)
  let ?t = "(AddBillingInterval s ^^ n) base"
  obtain y m d where t: "time_Date ?t = (y, m, d)" by (metis prod_cases3)
  have d: "d \<le> 28" using Suc assms(2) t by (simp add: time_Day_def)
  have "AddBillingInterval s ?t = AddDate ?t 0 (sub_BillingIntervalQty s) 0"
    using assms(1) by (simp add: AddBillingInterval_def interval_step_def)
  then have "time_Day (AddBillingInterval s ?t) = d"
    using AddDate_months_day[OF t d] by (simp add: time_Day_def)
  then show ?case using Suc t by (simp add: time_Day_def)
qed simp

lemma whole_days_exact:
  assumes "0 \<le> t - u" "t - u < 2 ^ 63"
  shows "whole_days (time_Sub t u) = (t - u) div Day"
  using assms Day_pos by (simp add: whole_days_def time_Sub_exact quot64_exact in64_def)

lemma credit_le:
  fixes p r n :: int
  assumes "0 \<le> p" "0 < r" "r \<le> n" "p * n < 2 ^ 63"
  shows "0 \<le> quot64 (mul64 p r) n" "quot64 (mul64 p r) n \<le> p"
proof -
  have n: "0 < n" using assms by simp
  have le: "p * r \<le> p * n" using assms by (intro mult_left_mono) auto
  have pr: "0 \<le> p * r" "p * r < 2 ^ 63" using le assms by simp_all
  then have q: "quot64 (mul64 p r) n = p * r div n" using n by (simp add: mul64_exact quot64_exact in64_def)
  show "0 \<le> quot64 (mul64 p r) n" using pr n by (simp add: q pos_imp_zdiv_nonneg_iff)
  show "quot64 (mul64 p r) n \<le> p" using zdiv_mono1[OF le n] n by (simp add: q)
qed

lemma retry_duration_bounds: "Minute \<le> retry_duration i" "retry_duration i \<le> 7 * 24 * Hour"
  by (simp_all add: retry_duration_def duration_defs split: retry_interval.split)

lemma GetNextCharge_eq:
  assumes "sub_Retries s < rtp_RetryAttempts r" "0 \<le> rtp_RetryPeriod r" "rtp_RetryPeriod r \<le> 10000"
    and "in64 (rtp_RetryAttempts r - sub_Retries s)"
  shows "GetNextCharge r s = sub_RenewsAt s +
    rtp_RetryPeriod r * retry_duration (rtp_RetryInterval r) div (rtp_RetryAttempts r - sub_Retries s)"
proof -
  let ?x = "rtp_RetryPeriod r * retry_duration (rtp_RetryInterval r)"
  have "0 \<le> ?x" using assms(2) retry_duration_bounds(1)[of "rtp_RetryInterval r"]
    by (intro mult_nonneg_nonneg) (simp_all add: duration_defs)
  moreover have "?x \<le> 10000 * (7 * 24 * Hour)"
    using assms(2,3) retry_duration_bounds[of "rtp_RetryInterval r"] by (intro mult_mono) (simp_all add: duration_defs)
  ultimately have x: "0 \<le> ?x" "?x < 2 ^ 63" by (simp_all add: duration_defs)
  then show ?thesis using assms(1,4)
    by (simp add: GetNextCharge_def Let_def time_Add_def mul64_exact sub64_exact quot64_exact in64_def)
qed

section \<open>Sample data for the witnesses\<close>

definition sample_subscription :: subscription where
  "sample_subscription = \<lparr> sub_OrgId = ''o'', sub_Id = ''s'', sub_PspId = ''memory'', sub_OrderId = ''r'',
     sub_CustomerId = ''u'', sub_Status = SubscriptionStatusActive, sub_PaymentMethodId = ''pm'',
     sub_StartDate = 100 * Day, sub_EndDate = 0, sub_BillingInterval = BillingIntervalMonth,
     sub_BillingIntervalQty = 1, sub_Cycles = 0, sub_BillingAnchor = 11,
     sub_TrialInterval = BillingIntervalNone, sub_TrialIntervalQty = 0, sub_TrialEndsAt = 0,
     sub_CancelAt = 0, sub_EndsAt = 0, sub_LastCharge = 100 * Day, sub_RenewsAt = 130 * Day,
     sub_CurrentPeriodStart = 100 * Day, sub_CurrentPeriodEnd = 130 * Day, sub_Retries = 0,
     sub_NextRetryAt = 0, sub_Currency = ''USD'', sub_Metadata = Map.empty, sub_CyclesProcessed = 1,
     sub_TotalRevenue = 0, sub_CancelledAt = 0, sub_CreatedAt = 0, sub_UpdatedAt = 0 \<rparr>"

section \<open>Properties\<close>

text \<open>Once a period is running, the next billing date lies after the end of the
  current period, by at least a minute per interval unit, for every interval the code
  handles and up to a million units.\<close>

theorem next_billing_date_later:
  assumes "handled_interval (sub_BillingInterval s)"
    and "0 < sub_BillingIntervalQty s" and "sub_BillingIntervalQty s \<le> 1000000"
    and "\<not> (IsZero (sub_LastCharge s) \<and> sub_CyclesProcessed s = 0)" and "\<not> IsZero (sub_CurrentPeriodEnd s)"
  shows "sub_CurrentPeriodEnd s + sub_BillingIntervalQty s * Minute \<le> CalculateNextBillingDate s"
  using CalculateNextBillingDate_advanced[OF assms(1,2,4,5)] AddBillingInterval_later[OF assms(1-3)] by simp

theorem next_billing_date_later_witness:
  "130 * Day + 1 * Minute \<le> CalculateNextBillingDate sample_subscription"
  using next_billing_date_later[of sample_subscription]
  by (simp add: sample_subscription_def handled_interval_def IsZero_def duration_defs)

text \<open>A monthly subscription whose period starts on a day of at most 28 renews on
  that day of the month for ever, whatever the number of months per interval.\<close>

theorem monthly_anchor_stable:
  assumes "sub_BillingInterval s = BillingIntervalMonth" and "time_Day base \<le> 28"
  shows "time_Day ((AddBillingInterval s ^^ n) base) = time_Day base"
  by (rule monthly_day[OF assms])

theorem monthly_anchor_stable_witness:
  "time_Day ((AddBillingInterval sample_subscription ^^ 7) (100 * Day)) = time_Day (100 * Day)"
  by (rule monthly_anchor_stable) (simp add: sample_subscription_def, code_simp)

text \<open>A monthly period that starts on 31 January 2025 ends on 3 March, not on the
  last day of February, and the next one starts there: the billing day drifts.\<close>

theorem monthly_anchor_drift:
  "map (\<lambda>n. time_Date ((AddBillingInterval sample_subscription ^^ n) (go_Date 2025 1 31 0 0 0 0))) [0, 1, 2]
   = [(2025, 1, 31), (2025, 3, 3), (2025, 4, 3)]"
proof -
  let ?b = "go_Date 2025 1 31 0 0 0 0"
  have step: "AddBillingInterval sample_subscription t = AddDate t 0 1 0" for t
    by (simp add: AddBillingInterval_def interval_step_def sample_subscription_def)
  have m: "month_start (24300 + 1) = month_start 24300 + 31" "month_start (24301 + 1) = month_start 24301 + 28"
    by (simp_all only: month_start_Suc) (simp_all add: days_in_month_def is_leap_def)
  have d0: "time_Date ?b = (2025, 1, 31)"
    by (rule time_Date_unique) (simp_all add: go_Date_def days_in_month_def Day_pos less_imp_neq[symmetric])
  have d1: "time_Date (AddDate ?b 0 1 0) = (2025, 3, 3)"
    by (rule time_Date_unique) (use AddDate_months_div[OF d0, of 1] m in \<open>simp_all add: days_in_month_def\<close>)
  have d2: "time_Date (AddDate (AddDate ?b 0 1 0) 0 1 0) = (2025, 4, 3)"
    using AddDate_months_day[OF d1, of 1] by simp
  show ?thesis using d0 d1 d2 by (simp add: step numeral_2_eq_2)
qed

text \<open>With the reference instant inside the current period and no overflow, the
  credit for unused days is between zero and the price, and zero days are credited
  when less than a day is left.\<close>

theorem proration_credit_bounds:
  assumes "sub_CurrentPeriodStart s \<le> ref" and "ref \<le> sub_CurrentPeriodEnd s"
    and "sub_CurrentPeriodEnd s - sub_CurrentPeriodStart s < 2 ^ 63" and "0 \<le> price"
    and "price * ((sub_CurrentPeriodEnd s - sub_CurrentPeriodStart s) div Day) < 2 ^ 63"
  shows "0 \<le> prd_CreditAmount (CalculateProrationDetails s mode ref a b ns ne price) \<and>
    prd_CreditAmount (CalculateProrationDetails s mode ref a b ns ne price) \<le> price \<and>
    (sub_CurrentPeriodEnd s - ref < Day \<longrightarrow>
       prd_CreditAmount (CalculateProrationDetails s mode ref a b ns ne price) = 0)"
proof -
  let ?tot = "(sub_CurrentPeriodEnd s - sub_CurrentPeriodStart s) div Day"
  let ?rem = "(sub_CurrentPeriodEnd s - ref) div Day"
  have w: "whole_days (time_Sub (sub_CurrentPeriodEnd s) (sub_CurrentPeriodStart s)) = ?tot"
    "whole_days (time_Sub (sub_CurrentPeriodEnd s) ref) = ?rem"
    using assms(1-3) by (auto intro!: whole_days_exact)
  have le: "?rem \<le> ?tot" using assms(1) Day_pos by (intro zdiv_mono1) simp_all
  have z: "?rem \<le> 0" if "sub_CurrentPeriodEnd s - ref < Day"
    using that assms(2) by (simp add: div_pos_pos_trivial)
  note c = credit_le[OF assms(4) _ le assms(5)]
  show ?thesis
    using c z by (simp add: CalculateProrationDetails_def Let_def w assms(4) not_le)
qed

theorem proration_credit_bounds_witness:
  "prd_CreditAmount (CalculateProrationDetails sample_subscription ''credit_unused'' (110 * Day) 11 1 0 0 3000) \<le> 3000
   \<and> prd_CreditAmount (CalculateProrationDetails sample_subscription ''credit_unused'' (110 * Day) 11 1 0 0 3000) = 2000"
proof
  show "prd_CreditAmount (CalculateProrationDetails sample_subscription ''credit_unused'' (110 * Day) 11 1 0 0 3000) \<le> 3000"
    using proration_credit_bounds[of sample_subscription "110 * Day" 3000]
    by (simp add: sample_subscription_def duration_defs)
  show "prd_CreditAmount (CalculateProrationDetails sample_subscription ''credit_unused'' (110 * Day) 11 1 0 0 3000) = 2000"
    by code_simp
qed

text \<open>The retry policy gives no further date exactly when its attempts are used up
  (for a subscription with a renewal date); otherwise the date lies between the renewal
  date and the end of the retry period, and a later attempt is scheduled no earlier.\<close>

theorem retry_schedule:
  assumes "0 < sub_RenewsAt s" and "0 \<le> sub_Retries s" and "in64 (rtp_RetryAttempts r)"
    and "0 \<le> rtp_RetryPeriod r" and "rtp_RetryPeriod r \<le> 10000"
  shows "(GetNextCharge r s = 0 \<longleftrightarrow> rtp_RetryAttempts r \<le> sub_Retries s) \<and>
    (sub_Retries s < rtp_RetryAttempts r \<longrightarrow>
       sub_RenewsAt s \<le> GetNextCharge r s \<and>
       GetNextCharge r s \<le> sub_RenewsAt s + rtp_RetryPeriod r * retry_duration (rtp_RetryInterval r)) \<and>
    (sub_Retries s + 1 < rtp_RetryAttempts r \<longrightarrow>
       GetNextCharge r s \<le> GetNextCharge r (s\<lparr>sub_Retries := sub_Retries s + 1\<rparr>))"
proof -
  let ?x = "rtp_RetryPeriod r * retry_duration (rtp_RetryInterval r)"
  have x: "0 \<le> ?x" using assms(4) retry_duration_bounds(1)[of "rtp_RetryInterval r"]
    by (intro mult_nonneg_nonneg) (simp_all add: duration_defs)
  have in': "in64 (rtp_RetryAttempts r - sub_Retries s)" if "sub_Retries s < rtp_RetryAttempts r"
    using that assms(2,3) by (simp add: in64_def)
  have eq: "GetNextCharge r s = sub_RenewsAt s + ?x div (rtp_RetryAttempts r - sub_Retries s)"
    if "sub_Retries s < rtp_RetryAttempts r"
    using GetNextCharge_eq[OF that assms(4,5) in'[OF that]] .
  have bounds: "0 \<le> ?x div (rtp_RetryAttempts r - sub_Retries s)"
    "?x div (rtp_RetryAttempts r - sub_Retries s) \<le> ?x" if "sub_Retries s < rtp_RetryAttempts r"
    using x that zdiv_mono2[of ?x 1 "rtp_RetryAttempts r - sub_Retries s"]
    by (simp_all add: pos_imp_zdiv_nonneg_iff)
  have mono: "GetNextCharge r s \<le> GetNextCharge r (s\<lparr>sub_Retries := sub_Retries s + 1\<rparr>)"
    if l: "sub_Retries s + 1 < rtp_RetryAttempts r"
  proof -
    have "GetNextCharge r (s\<lparr>sub_Retries := sub_Retries s + 1\<rparr>) =
        sub_RenewsAt s + ?x div (rtp_RetryAttempts r - (sub_Retries s + 1))"
      using GetNextCharge_eq[of "s\<lparr>sub_Retries := sub_Retries s + 1\<rparr>" r] l assms(2-5) by (simp add: in64_def)
    moreover have "?x div (rtp_RetryAttempts r - sub_Retries s) \<le> ?x div (rtp_RetryAttempts r - (sub_Retries s + 1))"
      using l x by (intro zdiv_mono2) simp_all
    ultimately show ?thesis using eq l by simp
  qed
  have zero: "GetNextCharge r s = 0" if "rtp_RetryAttempts r \<le> sub_Retries s"
    using that by (simp add: GetNextCharge_def)
  show ?thesis using zero mono eq bounds assms(1) by (cases "sub_Retries s < rtp_RetryAttempts r") auto
qed

theorem retry_schedule_witness:
  "GetNextCharge \<lparr> rtp_RetryAttempts = 3, rtp_RetryInterval = RetryIntervalMinute, rtp_RetryPeriod = 4,
      rtp_FailureAction = FailureActionCancel \<rparr> sample_subscription \<noteq> 0"
  using retry_schedule[of sample_subscription "\<lparr> rtp_RetryAttempts = 3, rtp_RetryInterval = RetryIntervalMinute,
      rtp_RetryPeriod = 4, rtp_FailureAction = FailureActionCancel \<rparr>"]
  by (simp add: sample_subscription_def in64_def duration_defs)

text \<open>A subscription built from lines whose plan is metered never bills less often
  than about monthly, and one whose plan is not metered keeps the plan's own cadence.\<close>

theorem lines_cadence:
  assumes "prices \<noteq> []"
  shows "let s = NewSubscriptionFromLines orgId orderId customerId prices newId now in
    (list_all IsMetered prices \<longrightarrow>
       approxBillingDays (sub_BillingInterval s) (sub_BillingIntervalQty s) \<le> 31) \<and>
    (\<forall>p pre post. prices = pre @ p # post \<and> list_all IsMetered pre \<and> \<not> IsMetered p \<longrightarrow>
       (sub_BillingInterval s, sub_BillingIntervalQty s) = (prc_BillingInterval p, prc_BillingIntervalQty p) \<and>
       sub_Cycles s = prc_Cycles p)"
proof -
  have none: "plan_line ps = None" if "list_all IsMetered ps" for ps :: "'a price list"
    using that by (induction ps) auto
  have some: "plan_line (pre @ p # post) = Some p" if "list_all IsMetered pre" "\<not> IsMetered p"
    for pre post and p :: "'a price"
    using that by (induction pre) auto
  have "approxBillingDays BillingIntervalMonth 1 \<le> 31" by (simp add: approxBillingDays_def)
  moreover have "IsMetered (hd prices)" if "list_all IsMetered prices" using assms that by (cases prices) auto
  ultimately show ?thesis
    by (auto simp: NewSubscriptionFromLines_def SubscriptionCadence_def Let_def none some not_less)
qed

theorem lines_cadence_witness:
  "sub_BillingInterval (NewSubscriptionFromLines ''o'' ''r'' ''u'' [sample_price] ''s'' 0) = BillingIntervalMonth
   \<and> approxBillingDays (sub_BillingInterval (NewSubscriptionFromLines ''o'' ''r'' ''u'' [sample_price] ''s'' 0))
      (sub_BillingIntervalQty (NewSubscriptionFromLines ''o'' ''r'' ''u'' [sample_price] ''s'' 0)) \<le> 31"
  using lines_cadence[of "[sample_price]" "''o''" "''r''" "''u''" "''s''" 0]
  by (simp add: Let_def IsMetered_def sample_price_def NewSubscriptionFromLines_def SubscriptionCadence_def approxBillingDays_def)

end
