(* ===== verification/Discounts.thy ===== *)
theory Discounts
  imports Decimal_Lib
begin

text \<open>
  Coupons, redeemed discounts and the pure discount engine:
  src/internal/core/domain/coupon.go, coupon_code.go, coupon_reservation.go,
  discount.go and discount_apply.go.  The first group of definitions is the
  data with its constructors and validation, the second the engine.  The lemmas
  show that the largest-remainder split of a discount sums to the discount and
  never takes more than a line's running net, and that this carries over to
  every sequence of discounts.
\<close>

section \<open>Coupons\<close>

datatype discount_type = DiscountTypePercentage | DiscountTypeFixed | DiscountTypeOther string

datatype coupon_duration =
  DurationOnce | DurationRepeating | DurationForever | DurationOther string

record 'd coupon =
  cpn_OrgId :: string
  cpn_Id :: string
  cpn_Name :: string
  cpn_Active :: bool
  cpn_Metadata :: metadata
  cpn_DiscountType :: discount_type
  cpn_PercentOff :: 'd
  cpn_AmountOff :: int
  cpn_Currency :: string
  cpn_Duration :: coupon_duration
  cpn_DurationInCycles :: int
  cpn_RedeemBy :: time
  cpn_AppliesToProducts :: "string list"
  cpn_MaxRedemptions :: int
  cpn_OncePerCustomer :: bool
  cpn_CreatedAt :: time
  cpn_UpdatedAt :: time

record 'd new_coupon_input =
  nci_OrgId :: string
  nci_Name :: string
  nci_DiscountType :: discount_type
  nci_PercentOff :: 'd
  nci_AmountOff :: int
  nci_Currency :: string
  nci_Duration :: coupon_duration
  nci_DurationInCycles :: int
  nci_RedeemBy :: time
  nci_AppliesToProducts :: "string list"
  nci_MaxRedemptions :: int
  nci_OncePerCustomer :: bool
  nci_Metadata :: metadata

text \<open>validate returns the error of the first rule that is broken, if any.\<close>

definition coupon_validate_amount :: "'d decimal_ops \<Rightarrow> 'd coupon \<Rightarrow> app_error option" where
  "coupon_validate_amount D c =
    (case cpn_DiscountType c of
       DiscountTypePercentage \<Rightarrow>
         if cpn_AmountOff c \<noteq> 0 \<or> cpn_Currency c \<noteq> [] then
           Some (NewCustomError BadRequestError ''percentage coupon must not set amount_off/currency'' None)
         else if d_le D (cpn_PercentOff c) (d_zero D) \<or> d_gt D (cpn_PercentOff c) (d_of_int D 100) then
           Some (NewCustomError BadRequestError ''percent_off must be in (0,100]'' None)
         else None
     | DiscountTypeFixed \<Rightarrow>
         if \<not> d_is_zero D (cpn_PercentOff c) then
           Some (NewCustomError BadRequestError ''fixed coupon must not set percent_off'' None)
         else if cpn_AmountOff c \<le> 0 then
           Some (NewCustomError BadRequestError ''amount_off must be > 0'' None)
         else if length (cpn_Currency c) \<noteq> 3 then
           Some (NewCustomError BadRequestError ''fixed coupon requires a 3-letter currency'' None)
         else None
     | DiscountTypeOther _ \<Rightarrow>
         Some (NewCustomError BadRequestError ''discount_type must be percentage or fixed'' None))"

definition coupon_validate_duration :: "'d coupon \<Rightarrow> app_error option" where
  "coupon_validate_duration c =
    (case cpn_Duration c of
       DurationRepeating \<Rightarrow>
         if cpn_DurationInCycles c < 1 then
           Some (NewCustomError BadRequestError ''repeating coupon requires duration_in_cycles >= 1'' None)
         else None
     | DurationOther _ \<Rightarrow>
         Some (NewCustomError BadRequestError ''duration must be once, repeating or forever'' None)
     | _ \<Rightarrow>
         if cpn_DurationInCycles c \<noteq> 0 then
           Some (NewCustomError BadRequestError ''duration_in_cycles only valid for repeating'' None)
         else None)"

definition coupon_validate :: "'d decimal_ops \<Rightarrow> 'd coupon \<Rightarrow> app_error option" where
  "coupon_validate D c =
    (if cpn_OrgId c = [] \<or> cpn_Name c = [] then
       Some (NewCustomError BadRequestError ''coupon requires org and name'' None)
     else case coupon_validate_amount D c of
       Some e \<Rightarrow> Some e
     | None \<Rightarrow>
        (case coupon_validate_duration c of
           Some e \<Rightarrow> Some e
         | None \<Rightarrow>
             if cpn_MaxRedemptions c < 0 then
               Some (NewCustomError BadRequestError ''max_redemptions must be >= 0'' None)
             else None))"

text \<open>The id is the value ids.Generate returns; it is an input of the model.\<close>

definition NewCoupon :: "'d decimal_ops \<Rightarrow> string \<Rightarrow> 'd new_coupon_input \<Rightarrow> 'd coupon res" where
  "NewCoupon D newId inp =
    (let c = \<lparr> cpn_OrgId = nci_OrgId inp, cpn_Id = newId, cpn_Name = nci_Name inp,
               cpn_Active = True, cpn_Metadata = nci_Metadata inp,
               cpn_DiscountType = nci_DiscountType inp, cpn_PercentOff = nci_PercentOff inp,
               cpn_AmountOff = nci_AmountOff inp, cpn_Currency = nci_Currency inp,
               cpn_Duration = nci_Duration inp, cpn_DurationInCycles = nci_DurationInCycles inp,
               cpn_RedeemBy = nci_RedeemBy inp,
               cpn_AppliesToProducts = nci_AppliesToProducts inp,
               cpn_MaxRedemptions = nci_MaxRedemptions inp,
               cpn_OncePerCustomer = nci_OncePerCustomer inp,
               cpn_CreatedAt = 0, cpn_UpdatedAt = 0 \<rparr>
     in case coupon_validate D c of Some e \<Rightarrow> Inl e | None \<Rightarrow> Inr c)"

definition coupon_Rename :: "'d coupon \<Rightarrow> string \<Rightarrow> 'd coupon" where
  "coupon_Rename c name = c\<lparr>cpn_Name := name\<rparr>"

definition coupon_SetActive :: "'d coupon \<Rightarrow> bool \<Rightarrow> 'd coupon" where
  "coupon_SetActive c active = c\<lparr>cpn_Active := active\<rparr>"

definition coupon_SetMetadata :: "'d coupon \<Rightarrow> metadata \<Rightarrow> 'd coupon" where
  "coupon_SetMetadata c m = c\<lparr>cpn_Metadata := m\<rparr>"

definition appliesTo :: "'d coupon \<Rightarrow> string \<Rightarrow> bool" where
  "appliesTo c productId =
    (if cpn_AppliesToProducts c = [] then True
     else list_ex (\<lambda>p. p = productId) (cpn_AppliesToProducts c))"

section \<open>Coupon codes\<close>

record restrictions =
  rst_FirstTimeTransaction :: bool
  rst_MinimumAmount :: int
  rst_MinimumAmountCurrency :: string

record coupon_code =
  ccd_OrgId :: string
  ccd_Id :: string
  ccd_CouponId :: string
  ccd_Code :: string
  ccd_Active :: bool
  ccd_Metadata :: metadata
  ccd_CustomerId :: string
  ccd_ExpiresAt :: time
  ccd_MaxRedemptions :: int
  ccd_Restrictions :: restrictions
  ccd_TimesRedeemed :: int
  ccd_CreatedAt :: time
  ccd_UpdatedAt :: time

record new_coupon_code_input =
  ncc_OrgId :: string
  ncc_CouponId :: string
  ncc_Code :: string
  ncc_CustomerId :: string
  ncc_ExpiresAt :: time
  ncc_MaxRedemptions :: int
  ncc_Restrictions :: restrictions
  ncc_Metadata :: metadata

text \<open>
  strings.TrimSpace and strings.ToUpper on ASCII strings: white space is the
  set of ASCII space characters, and only the letters a to z change.
\<close>

definition is_space :: "char \<Rightarrow> bool" where
  "is_space c \<longleftrightarrow> (of_char c :: nat) \<in> {9, 10, 11, 12, 13, 32}"

definition TrimSpace :: "string \<Rightarrow> string" where
  "TrimSpace s = rev (dropWhile is_space (rev (dropWhile is_space s)))"

definition upper_char :: "char \<Rightarrow> char" where
  "upper_char c = (let n = of_char c :: nat in if 97 \<le> n \<and> n \<le> 122 then char_of (n - 32) else c)"

definition ToUpper :: "string \<Rightarrow> string" where
  "ToUpper s = map upper_char s"

definition NewCouponCode :: "string \<Rightarrow> new_coupon_code_input \<Rightarrow> coupon_code res" where
  "NewCouponCode newId inp =
    (if ncc_OrgId inp = [] \<or> ncc_CouponId inp = [] \<or> TrimSpace (ncc_Code inp) = [] then
       Inl (NewCustomError BadRequestError ''coupon code requires org, coupon and code'' None)
     else if ncc_MaxRedemptions inp < 0 then
       Inl (NewCustomError BadRequestError ''max_redemptions must be >= 0'' None)
     else if rst_MinimumAmount (ncc_Restrictions inp) < 0 then
       Inl (NewCustomError BadRequestError ''minimum_amount must be >= 0'' None)
     else if 0 < rst_MinimumAmount (ncc_Restrictions inp)
             \<and> length (rst_MinimumAmountCurrency (ncc_Restrictions inp)) \<noteq> 3 then
       Inl (NewCustomError BadRequestError ''minimum_amount requires a 3-letter currency'' None)
     else Inr \<lparr> ccd_OrgId = ncc_OrgId inp, ccd_Id = newId, ccd_CouponId = ncc_CouponId inp,
                ccd_Code = ToUpper (TrimSpace (ncc_Code inp)), ccd_Active = True,
                ccd_Metadata = ncc_Metadata inp, ccd_CustomerId = ncc_CustomerId inp,
                ccd_ExpiresAt = ncc_ExpiresAt inp, ccd_MaxRedemptions = ncc_MaxRedemptions inp,
                ccd_Restrictions = ncc_Restrictions inp, ccd_TimesRedeemed = 0,
                ccd_CreatedAt = 0, ccd_UpdatedAt = 0 \<rparr>)"

section \<open>Reservations\<close>

record coupon_reservation =
  crs_OrgId :: string
  crs_Id :: string
  crs_CouponId :: string
  crs_CouponCodeId :: string
  crs_CustomerId :: string
  crs_CheckoutSessionId :: string
  crs_OrderId :: string
  crs_ExpiresAt :: time
  crs_CreatedAt :: time

record new_reservation_input =
  nri_OrgId :: string
  nri_CouponId :: string
  nri_CouponCodeId :: string
  nri_CustomerId :: string
  nri_CheckoutSessionId :: string
  nri_OrderId :: string
  nri_ExpiresAt :: time

definition NewCouponReservation ::
    "string \<Rightarrow> time \<Rightarrow> new_reservation_input \<Rightarrow> coupon_reservation res" where
  "NewCouponReservation newId now inp =
    (if nri_OrgId inp = [] \<or> nri_CouponId inp = [] then
       Inl (NewCustomError ValidationError ''reservation requires org and coupon'' None)
     else if nri_OrderId inp = [] \<and> nri_CheckoutSessionId inp = [] then
       Inl (NewCustomError ValidationError ''reservation requires a holder (order or checkout session)'' None)
     else if nri_ExpiresAt inp = 0 then
       Inl (NewCustomError ValidationError ''reservation requires expires_at'' None)
     else Inr \<lparr> crs_OrgId = nri_OrgId inp, crs_Id = newId, crs_CouponId = nri_CouponId inp,
                crs_CouponCodeId = nri_CouponCodeId inp, crs_CustomerId = nri_CustomerId inp,
                crs_CheckoutSessionId = nri_CheckoutSessionId inp, crs_OrderId = nri_OrderId inp,
                crs_ExpiresAt = nri_ExpiresAt inp, crs_CreatedAt = now \<rparr>)"

definition IsLive :: "coupon_reservation \<Rightarrow> time \<Rightarrow> bool" where
  "IsLive r now \<longleftrightarrow> now < crs_ExpiresAt r"

section \<open>Discounts\<close>

datatype discount_status =
  DiscountStatusActive | DiscountStatusCompleted | DiscountStatusCancelled | DiscountStatusOther string

record discount =
  dsc_OrgId :: string
  dsc_Id :: string
  dsc_CouponId :: string
  dsc_CouponCodeId :: string
  dsc_CustomerId :: string
  dsc_OrderId :: string
  dsc_SubscriptionId :: string
  dsc_StartCycle :: int
  dsc_Status :: discount_status
  dsc_RedeemedAt :: time
  dsc_EndedAt :: time
  dsc_Metadata :: metadata
  dsc_CreatedAt :: time
  dsc_UpdatedAt :: time

record new_discount_input =
  ndi_OrgId :: string
  ndi_CouponId :: string
  ndi_CouponCodeId :: string
  ndi_CustomerId :: string
  ndi_SubscriptionId :: string
  ndi_OrderId :: string
  ndi_StartCycle :: int
  ndi_RedeemedAt :: time
  ndi_Metadata :: metadata

definition NewDiscount :: "string \<Rightarrow> time \<Rightarrow> new_discount_input \<Rightarrow> discount res" where
  "NewDiscount newId now inp =
    (if ndi_OrgId inp = [] \<or> ndi_CouponId inp = [] \<or> ndi_CustomerId inp = [] \<or> ndi_OrderId inp = [] then
       Inl (NewCustomError BadRequestError ''discount requires org, coupon, customer and order'' None)
     else if ndi_StartCycle inp < 0 then
       Inl (NewCustomError BadRequestError ''start_cycle must be >= 0'' None)
     else
       let redeemedAt = (if ndi_RedeemedAt inp = 0 then now else ndi_RedeemedAt inp)
       in Inr \<lparr> dsc_OrgId = ndi_OrgId inp, dsc_Id = newId, dsc_CouponId = ndi_CouponId inp,
                dsc_CouponCodeId = ndi_CouponCodeId inp, dsc_CustomerId = ndi_CustomerId inp,
                dsc_OrderId = ndi_OrderId inp, dsc_SubscriptionId = ndi_SubscriptionId inp,
                dsc_StartCycle = ndi_StartCycle inp, dsc_Status = DiscountStatusActive,
                dsc_RedeemedAt = redeemedAt, dsc_EndedAt = 0, dsc_Metadata = ndi_Metadata inp,
                dsc_CreatedAt = 0, dsc_UpdatedAt = 0 \<rparr>)"

section \<open>The discount engine\<close>

record discountable_line =
  dl_LineId :: string
  dl_ProductId :: string
  dl_Total :: int

record 'd applied_discount =
  ad_Discount :: discount
  ad_Coupon :: "'d coupon"

definition InWindow :: "'d applied_discount \<Rightarrow> int \<Rightarrow> bool" where
  "InWindow a cycle =
    (let start = dsc_StartCycle (ad_Discount a) in
     case cpn_Duration (ad_Coupon a) of
       DurationForever \<Rightarrow> start \<le> cycle
     | DurationOnce \<Rightarrow> cycle = start
     | DurationRepeating \<Rightarrow>
         start \<le> cycle \<and> cycle < add64 start (cpn_DurationInCycles (ad_Coupon a))
     | DurationOther _ \<Rightarrow> False)"

text \<open>
  allocateProportional: the first loop records each line's share and its
  remainder, the second hands the left-over units to the largest remainders,
  first come first served among equals (the sort is stable).
\<close>

definition alloc_step ::
    "int \<Rightarrow> int \<Rightarrow> (string \<rightharpoonup> int) \<Rightarrow> string
      \<Rightarrow> (string \<rightharpoonup> int) \<times> int \<times> (string \<times> int) list
      \<Rightarrow> (string \<rightharpoonup> int) \<times> int \<times> (string \<times> int) list" where
  "alloc_step tot sm net lid st =
    (case st of (out, allocated, rems) \<Rightarrow>
       let num = mul64 (mget net lid) tot;
           share = quot64 num sm
       in (out(lid \<mapsto> share), add64 allocated share, rems @ [(lid, rem64 num sm)]))"

fun alloc_bump :: "int \<Rightarrow> (string \<times> int) list \<Rightarrow> (string \<rightharpoonup> int) \<Rightarrow> (string \<rightharpoonup> int)" where
  "alloc_bump leftover [] out = out"
| "alloc_bump leftover ((lid, r) # rems) out =
    (if 0 < leftover then alloc_bump (leftover - 1) rems (out(lid \<mapsto> add64 (mget out lid) 1)) else out)"

definition allocateProportional ::
    "int \<Rightarrow> string list \<Rightarrow> (string \<rightharpoonup> int) \<Rightarrow> (string \<rightharpoonup> int)" where
  "allocateProportional tot lineIds net =
    (let sm = sum64 (map (mget net) lineIds) in
     if sm \<le> 0 then Map.empty
     else
       let (out, allocated, rems) = fold (alloc_step tot sm net) lineIds (Map.empty, 0, []);
           leftover = sub64 tot allocated
       in alloc_bump leftover (sort_key (\<lambda>r. - snd r) rems) out)"

definition discount_raw :: "'d decimal_ops \<Rightarrow> 'd coupon \<Rightarrow> int \<Rightarrow> int" where
  "discount_raw D c base =
    (case cpn_DiscountType c of
       DiscountTypePercentage \<Rightarrow>
         d_int_part D (d_round D (d_div D (d_mul D (d_of_int D base) (cpn_PercentOff c)) (d_of_int D 100)))
     | DiscountTypeFixed \<Rightarrow> if base < cpn_AmountOff c then base else cpn_AmountOff c
     | DiscountTypeOther _ \<Rightarrow> 0)"

text \<open>
  One iteration of the loop over the sorted discounts.  The range over the
  allocation visits each of its keys once, so its order does not matter.
\<close>

definition apply_one ::
    "'d decimal_ops \<Rightarrow> discountable_line list \<Rightarrow> int \<Rightarrow> string \<Rightarrow> 'd applied_discount
      \<Rightarrow> (string \<rightharpoonup> int) \<times> (string \<rightharpoonup> int) \<Rightarrow> (string \<rightharpoonup> int) \<times> (string \<rightharpoonup> int)" where
  "apply_one D lines cycle currency a st =
    (case st of (net, result) \<Rightarrow>
       if \<not> InWindow a cycle then (net, result)
       else let c = ad_Coupon a in
         if cpn_DiscountType c = DiscountTypeFixed \<and> cpn_Currency c \<noteq> currency then (net, result)
         else
           let matched = map dl_LineId (filter (\<lambda>l. appliesTo c (dl_ProductId l)) lines);
               base = sum64 (map (mget net) matched)
           in if base \<le> 0 then (net, result)
              else let raw = discount_raw D c base in
                if raw \<le> 0 then (net, result)
                else let alloc = allocateProportional raw matched net in
                  ((\<lambda>lid. case alloc lid of None \<Rightarrow> net lid | Some amt \<Rightarrow> Some (sub64 (mget net lid) amt)),
                   (\<lambda>lid. case alloc lid of None \<Rightarrow> result lid | Some amt \<Rightarrow> Some (add64 (mget result lid) amt))))"

definition ApplyDiscounts ::
    "'d decimal_ops \<Rightarrow> discountable_line list \<Rightarrow> 'd applied_discount list \<Rightarrow> int \<Rightarrow> string
      \<Rightarrow> (string \<rightharpoonup> int)" where
  "ApplyDiscounts D lines applied cycle currency =
    (let net = fold (\<lambda>l m. m(dl_LineId l \<mapsto> dl_Total l)) lines Map.empty;
         result = fold (\<lambda>l m. m(dl_LineId l \<mapsto> 0)) lines Map.empty;
         sorted = sort_key (\<lambda>a. dsc_RedeemedAt (ad_Discount a)) applied
     in snd (fold (apply_one D lines cycle currency) sorted (net, result)))"

section \<open>Lemmas: the largest-remainder split\<close>

lemma alloc_fold:
  assumes "0 < sm" and "0 \<le> a"
    and "\<And>lid. lid \<in> set ids \<Longrightarrow> 0 \<le> mget net lid * tot \<and> mget net lid * tot < 2 ^ 63"
    and "a + (\<Sum>lid\<leftarrow>ids. mget net lid * tot div sm) < 2 ^ 63"
  shows "fold (alloc_step tot sm net) ids (out, a, rems) =
    (fold (\<lambda>lid m. m(lid \<mapsto> mget net lid * tot div sm)) ids out,
     a + (\<Sum>lid\<leftarrow>ids. mget net lid * tot div sm),
     rems @ map (\<lambda>lid. (lid, mget net lid * tot mod sm)) ids)"
  using assms
proof (induction ids arbitrary: out a rems)
  case (Cons lid ids)
  let ?s = "\<lambda>lid. mget net lid * tot div sm"
  have n: "0 \<le> mget net lid * tot" "mget net lid * tot < 2 ^ 63" using Cons.prems(3)[of lid] by simp_all
  have pos: "0 \<le> ?s j" if "j \<in> set (lid # ids)" for j
    using Cons.prems(3)[OF that] \<open>0 < sm\<close> by (simp add: pos_imp_zdiv_nonneg_iff)
  have rest: "0 \<le> (\<Sum>lid\<leftarrow>ids. ?s lid)" using pos by (intro sum_list_nonneg_map) simp
  have a': "0 \<le> a + ?s lid" "a + ?s lid < 2 ^ 63" using Cons.prems(2,4) rest pos[of lid] by simp_all
  have step: "alloc_step tot sm net lid (out, a, rems) =
      (out(lid \<mapsto> ?s lid), a + ?s lid, rems @ [(lid, mget net lid * tot mod sm)])"
    using n a' \<open>0 < sm\<close>
    by (simp add: alloc_step_def Let_def mul64_exact quot64_exact rem64_exact add64_exact in64_between)
  have "fold (alloc_step tot sm net) (lid # ids) (out, a, rems) =
      fold (alloc_step tot sm net) ids (out(lid \<mapsto> ?s lid), a + ?s lid, rems @ [(lid, mget net lid * tot mod sm)])"
    by (simp add: step)
  also have "\<dots> = (fold (\<lambda>lid m. m(lid \<mapsto> ?s lid)) ids (out(lid \<mapsto> ?s lid)),
      (a + ?s lid) + (\<Sum>lid\<leftarrow>ids. ?s lid),
      (rems @ [(lid, mget net lid * tot mod sm)]) @ map (\<lambda>lid. (lid, mget net lid * tot mod sm)) ids)"
    using a' Cons.prems by (intro Cons.IH) (simp_all add: add.assoc)
  finally show ?case by (simp add: add.assoc del: fun_upd_apply)
qed simp

lemma alloc_bump_char:
  assumes "distinct (map fst rems)"
  shows "alloc_bump n rems out =
    (\<lambda>k. if k \<in> set (map fst (take (nat n) rems)) then Some (add64 (mget out k) 1) else out k)"
  using assms
proof (induction n rems out rule: alloc_bump.induct)
  case (2 n lid r rems out)
  show ?case
  proof (cases "0 < n")
    case True
    then obtain m where m: "nat n = Suc m" "nat (n - 1) = m"
      by (metis Suc_nat_eq_nat_zadd1 diff_add_cancel nat_diff_distrib' zle_diff1_eq add.commute)
    have out: "lid \<notin> set (map fst (take m rems))"
      using 2(2) by (auto dest: in_set_takeD)
    have "alloc_bump n ((lid, r) # rems) out = alloc_bump (n - 1) rems (out(lid \<mapsto> add64 (mget out lid) 1))"
      using True by (simp del: fun_upd_apply)
    also have "\<dots> = (\<lambda>k. if k \<in> set (map fst (take m rems))
        then Some (add64 (mget (out(lid \<mapsto> add64 (mget out lid) 1)) k) 1)
        else (out(lid \<mapsto> add64 (mget out lid) 1)) k)"
      using 2 True m(2) by (simp del: fun_upd_apply mget_upd)
    finally show ?thesis using out m(1) by (simp add: fun_eq_iff)
  qed (simp add: fun_eq_iff)
qed (simp add: fun_eq_iff)

text \<open>The left-over units go to lines with a positive remainder only.\<close>

lemma take_sorted_positive:
  fixes ys :: "int list"
  assumes "sorted_wrt (\<ge>) ys" and "\<And>y. y \<in> set ys \<Longrightarrow> 0 \<le> y \<and> y < sm"
    and "sm * (n - 1) < sum_list ys" and "0 < sm"
  shows "(\<forall>y\<in>set (take (nat n) ys). 0 < y) \<and> nat n \<le> length ys"
  using assms
proof (induction ys arbitrary: n)
  case Nil
  then have "sm * (n - 1) < sm * 0" by simp
  then have "n - 1 < 0" using \<open>0 < sm\<close> by (simp only: mult_less_cancel_left_pos)
  then show ?case by simp
next
  case (Cons y ys)
  show ?case
  proof (cases "0 < n")
    case True
    have "0 \<le> sm * (n - 1)" using True Cons.prems(4) by simp
    then have pos: "0 < y + sum_list ys" using Cons.prems(3) by simp
    have "0 < y"
    proof (rule ccontr)
      assume "\<not> 0 < y"
      then have "\<forall>z\<in>set (y # ys). z = 0" using Cons.prems(1,2) by fastforce
      then have "\<forall>z\<in>set ys. z \<le> 0" "y \<le> 0" by auto
      then have "sum_list ys \<le> 0" by (intro sum_list_nonpos) simp
      then show False using pos \<open>y \<le> 0\<close> by linarith
    qed
    have "y < sm" using Cons.prems(2)[of y] by simp
    have "sm * (n - 1) = sm * (n - 1 - 1) + sm" by (simp add: algebra_simps)
    then have "sm * (n - 1 - 1) < sum_list ys" using \<open>y < sm\<close> Cons.prems(3) by simp
    then have IH: "(\<forall>z\<in>set (take (nat (n - 1)) ys). 0 < z) \<and> nat (n - 1) \<le> length ys"
      using Cons.prems by (intro Cons.IH) auto
    have "nat n = Suc (nat (n - 1))" using True by simp
    then show ?thesis using IH \<open>0 < y\<close> by simp
  qed simp
qed

definition alloc_ok :: "int \<Rightarrow> string list \<Rightarrow> (string \<rightharpoonup> int) \<Rightarrow> bool" where
  "alloc_ok tot ids net \<longleftrightarrow>
     (let sm = (\<Sum>i\<leftarrow>ids. mget net i) in
      distinct ids \<and> (\<forall>i\<in>set ids. 0 \<le> mget net i) \<and> 0 < sm \<and> sm < 2 ^ 63 \<and>
      0 \<le> tot \<and> tot \<le> sm \<and> sm * tot < 2 ^ 63)"

lemma share_le:
  fixes a tot sm :: int
  assumes "0 \<le> a" "0 \<le> tot" "tot \<le> sm" "0 < sm"
  shows "0 \<le> a * tot div sm" "a * tot div sm \<le> a"
    "0 < a * tot mod sm \<Longrightarrow> a * tot div sm < a"
proof -
  have le: "a * tot \<le> a * sm" using assms by (simp add: mult_left_mono)
  show "0 \<le> a * tot div sm" using assms by (simp add: pos_imp_zdiv_nonneg_iff)
  show "a * tot div sm \<le> a" using zdiv_mono1[OF le, of sm] assms by simp
  assume "0 < a * tot mod sm"
  then have "sm * (a * tot div sm) < sm * a"
    using le mult_div_mod_eq[of sm "a * tot"] mult.commute[of sm a] by linarith
  then show "a * tot div sm < a" using assms(4) by simp
qed

definition alloc_rems :: "int \<Rightarrow> int \<Rightarrow> (string \<rightharpoonup> int) \<Rightarrow> string list \<Rightarrow> (string \<times> int) list" where
  "alloc_rems tot sm net ids = sort_key (\<lambda>r. - snd r) (map (\<lambda>i. (i, mget net i * tot mod sm)) ids)"

lemma alloc_leftover:
  assumes sm: "sm = (\<Sum>i\<leftarrow>ids. mget net i)" "0 < sm"
    and lo: "lo = tot - (\<Sum>i\<leftarrow>ids. mget net i * tot div sm)"
    and bs: "bs = map fst (take (nat lo) (alloc_rems tot sm net ids))" and ids: "distinct ids"
  shows "0 \<le> lo" "distinct bs" "int (length bs) = lo"
    "set bs \<subseteq> {i \<in> set ids. 0 < mget net i * tot mod sm}"
proof -
  let ?rem = "\<lambda>i. mget net i * tot mod sm" and ?srt = "alloc_rems tot sm net ids"
  have "sm * (\<Sum>i\<leftarrow>ids. mget net i * tot div sm) + (\<Sum>i\<leftarrow>ids. ?rem i) = (\<Sum>i\<leftarrow>ids. mget net i * tot)"
    by (induction ids) (simp_all add: algebra_simps)
  moreover have "(\<Sum>i\<leftarrow>ids. mget net i * tot) = sm * tot" by (simp only: sum_list_const_mult_map sm(1))
  ultimately have lo': "sm * lo = (\<Sum>i\<leftarrow>ids. ?rem i)"
    unfolding lo right_diff_distrib by linarith
  have "0 \<le> (\<Sum>i\<leftarrow>ids. ?rem i)" using sm(2) by (intro sum_list_nonneg_map) simp
  then show lo0: "0 \<le> lo" using lo' sm(2) by (metis zero_le_mult_iff not_less)
  have srt: "set ?srt = (\<lambda>i. (i, ?rem i)) ` set ids" "distinct (map fst ?srt)"
    using ids by (simp_all add: alloc_rems_def comp_def)
  have rem_sum: "(\<Sum>r\<leftarrow>?srt. snd r) = (\<Sum>i\<leftarrow>ids. ?rem i)" by (simp add: alloc_rems_def comp_def)
  have "sorted (map (\<lambda>r. - snd r) ?srt)" by (simp add: alloc_rems_def)
  then have desc: "sorted_wrt (\<ge>) (map snd ?srt)" by (simp add: sorted_wrt_map)
  have key: "(\<forall>y\<in>set (take (nat lo) (map snd ?srt)). 0 < y) \<and> nat lo \<le> length (map snd ?srt)"
  proof (rule take_sorted_positive[OF desc _ _ sm(2)])
    show "sm * (lo - 1) < (\<Sum>r\<leftarrow>?srt. snd r)" using rem_sum lo' sm(2) by (simp add: algebra_simps)
    show "0 \<le> y \<and> y < sm" if "y \<in> set (map snd ?srt)" for y using that srt(1) sm(2) by auto
  qed
  show "distinct bs" using srt(2) by (simp add: bs distinct_take flip: take_map)
  show "int (length bs) = lo" using key lo0 by (simp add: bs)
  show "set bs \<subseteq> {i \<in> set ids. 0 < ?rem i}"
  proof
    fix i assume "i \<in> set bs"
    then obtain y where y: "(i, y) \<in> set (take (nat lo) ?srt)" by (auto simp: bs)
    then have "y \<in> set (take (nat lo) (map snd ?srt))" by (force simp: take_map)
    then have "0 < y" using key by blast
    moreover have "(i, y) \<in> set ?srt" by (rule in_set_takeD[OF y])
    ultimately show "i \<in> {i \<in> set ids. 0 < ?rem i}" using srt(1) by auto
  qed
qed

text \<open>What the split computes, without the machine arithmetic.\<close>

lemma alloc_char:
  assumes "alloc_ok tot ids net"
    and sm: "sm = (\<Sum>i\<leftarrow>ids. mget net i)"
    and bs: "bs = map fst (take (nat (tot - (\<Sum>i\<leftarrow>ids. mget net i * tot div sm))) (alloc_rems tot sm net ids))"
  shows "allocateProportional tot ids net =
    (\<lambda>k. if k \<in> set ids then Some (mget net k * tot div sm + (if k \<in> set bs then 1 else 0)) else None)"
proof -
  let ?share = "\<lambda>i. mget net i * tot div sm"
  have ok: "distinct ids" "\<And>i. i \<in> set ids \<Longrightarrow> 0 \<le> mget net i" "0 < sm" "sm < 2 ^ 63"
    "0 \<le> tot" "tot \<le> sm" "sm * tot < 2 ^ 63"
    using assms by (auto simp: alloc_ok_def Let_def)
  have le: "mget net i \<le> sm" if "i \<in> set ids" for i
    unfolding sm using that ok(2) by (intro member_le_sum_map) auto
  have num: "0 \<le> mget net i * tot \<and> mget net i * tot < 2 ^ 63" if "i \<in> set ids" for i
    using ok le[OF that] that mult_right_mono[of "mget net i" sm tot] by simp
  note sh = share_le[OF ok(2) ok(5,6,3)]
  define lo where "lo = tot - (\<Sum>i\<leftarrow>ids. ?share i)"
  have bs': "bs = map fst (take (nat lo) (alloc_rems tot sm net ids))" by (simp add: bs lo_def)
  note left = alloc_leftover[OF sm ok(3) lo_def bs' ok(1)]
  have shares0: "0 \<le> (\<Sum>i\<leftarrow>ids. ?share i)" using sh by (intro sum_list_nonneg_map) auto
  have sum64: "sum64 (map (mget net) ids) = sm" using ok unfolding sm by (intro sum64_exact) auto
  have fold: "fold (alloc_step tot sm net) ids (Map.empty, 0, []) =
      (fold (\<lambda>i m. m(i \<mapsto> ?share i)) ids Map.empty, (\<Sum>i\<leftarrow>ids. ?share i),
       map (\<lambda>i. (i, mget net i * tot mod sm)) ids)"
    using alloc_fold[of sm 0 ids net tot Map.empty "[]"] ok num left(1) by (simp add: lo_def)
  have sub: "sub64 tot (\<Sum>i\<leftarrow>ids. ?share i) = lo"
    using left(1) shares0 ok(4,6) by (simp add: lo_def sub64_exact in64_def)
  have "distinct (map fst (alloc_rems tot sm net ids))" using ok(1) by (simp add: alloc_rems_def comp_def)
  note bump = alloc_bump_char[OF this, of lo]
  have bump1: "add64 (?share k) 1 = ?share k + 1" if "k \<in> set bs" for k
  proof -
    have "k \<in> set ids" "?share k < mget net k" using that left(4) sh(3) by auto
    then show ?thesis using sh(1) le[of k] ok(4) by (intro add64_exact in64_between) auto
  qed
  have "allocateProportional tot ids net =
      (\<lambda>k. if k \<in> set bs then Some (add64 (mget (fold (\<lambda>i m. m(i \<mapsto> ?share i)) ids Map.empty) k) 1)
           else fold (\<lambda>i m. m(i \<mapsto> ?share i)) ids Map.empty k)"
    using ok(3) by (simp add: allocateProportional_def sum64 fold sub bump bs' flip: alloc_rems_def)
  then show ?thesis using left(4) bump1 by (auto simp: fold_upd_const mget_def fun_eq_iff)
qed

section \<open>Lemmas: what a valid coupon takes off\<close>

context decimal
begin

lemma valid_percent:
  assumes "coupon_validate D c = None" "cpn_DiscountType c = DiscountTypePercentage"
  shows "0 < v (cpn_PercentOff c)" "v (cpn_PercentOff c) \<le> 100"
  using assms by (auto simp: coupon_validate_def coupon_validate_amount_def in64_def not_le
      split: if_splits)

lemma percent_raw:
  assumes p: "0 \<le> v p" "v p \<le> 100" and base: "0 \<le> base" "base < 2 ^ 63"
  defines "q \<equiv> div16 (of_int base * v p) 100"
  shows "d_int_part D (d_round D (d_div D (d_mul D (d_of_int D base) p) (d_of_int D 100))) = round_half_away q"
    and "0 \<le> round_half_away q" and "round_half_away q \<le> base"
proof -
  have "of_int base * v p \<le> of_int base * 100" using p base by (intro mult_left_mono) simp_all
  then have hi: "q \<le> of_int base" unfolding q_def by (intro div16_le) simp
  have lo: "of_int 0 \<le> q" unfolding q_def using p base by (intro div16_ge) simp
  show r: "round_half_away q \<le> base" "0 \<le> round_half_away q"
    using round_half_away_le[OF hi] round_half_away_ge[OF lo] by simp_all
  have "v (d_div D (d_mul D (d_of_int D base) p) (d_of_int D 100)) = q"
    using base by (simp add: q_def in64_def)
  then show "d_int_part D (d_round D (d_div D (d_mul D (d_of_int D base) p) (d_of_int D 100))) = round_half_away q"
    using r base by (subst round_int_part) (simp_all add: in64_def)
qed

lemma raw_bounds:
  assumes "coupon_validate D c = None" "0 < base" "base < 2 ^ 63"
  shows "0 \<le> discount_raw D c base" "discount_raw D c base \<le> base"
proof -
  show "0 \<le> discount_raw D c base"
    using assms percent_raw[of "cpn_PercentOff c" base] valid_percent[of c]
    by (auto simp: discount_raw_def coupon_validate_def coupon_validate_amount_def
        split: discount_type.splits if_splits)
  show "discount_raw D c base \<le> base"
    using assms percent_raw[of "cpn_PercentOff c" base] valid_percent[of c]
    by (auto simp: discount_raw_def coupon_validate_def coupon_validate_amount_def
        split: discount_type.splits if_splits)
qed

end

section \<open>Lemmas: the loop over the discounts\<close>

definition lines_ok :: "discountable_line list \<Rightarrow> bool" where
  "lines_ok lines \<longleftrightarrow>
     (let s = (\<Sum>l\<leftarrow>lines. dl_Total l) in
      distinct (map dl_LineId lines) \<and> (\<forall>l\<in>set lines. 0 \<le> dl_Total l) \<and> s * s < 2 ^ 63)"

text \<open>Every line's total is split into its running net and what was taken off.\<close>

definition disc_inv :: "discountable_line list \<Rightarrow> (string \<rightharpoonup> int) \<times> (string \<rightharpoonup> int) \<Rightarrow> bool" where
  "disc_inv lines st \<longleftrightarrow>
     dom (fst st) = dl_LineId ` set lines \<and> dom (snd st) = dl_LineId ` set lines \<and>
     (\<forall>l\<in>set lines. 0 \<le> mget (fst st) (dl_LineId l) \<and> 0 \<le> mget (snd st) (dl_LineId l) \<and>
        mget (fst st) (dl_LineId l) + mget (snd st) (dl_LineId l) = dl_Total l)"

definition matched_ids :: "'d coupon \<Rightarrow> discountable_line list \<Rightarrow> string list" where
  "matched_ids c lines = map dl_LineId (filter (\<lambda>l. appliesTo c (dl_ProductId l)) lines)"

lemma square_less:
  fixes s :: int
  assumes "0 \<le> s" "s * s < 2 ^ 63"
  shows "s < 2 ^ 63"
proof (rule ccontr)
  assume "\<not> s < 2 ^ 63"
  then have "2 ^ 63 * 2 ^ 63 \<le> s * s" by (intro mult_mono) simp_all
  with assms(2) show False by simp
qed

lemma disc_base:
  assumes ok: "lines_ok lines" and inv: "disc_inv lines (net, res)"
    and b_def: "b = (\<Sum>i\<leftarrow>matched_ids c lines. mget net i)"
  shows "distinct (matched_ids c lines)" "set (matched_ids c lines) \<subseteq> dl_LineId ` set lines"
    "\<And>i. i \<in> set (matched_ids c lines) \<Longrightarrow> 0 \<le> mget net i"
    "0 \<le> b" "b * b < 2 ^ 63" "b < 2 ^ 63" "sum64 (map (mget net) (matched_ids c lines)) = b"
proof -
  let ?s = "\<Sum>l\<leftarrow>lines. dl_Total l"
  have nn: "0 \<le> mget net (dl_LineId l) \<and> mget net (dl_LineId l) \<le> dl_Total l" if "l \<in> set lines" for l
    using inv that by (fastforce simp: disc_inv_def)
  show d: "distinct (matched_ids c lines)"
    using ok by (auto simp: lines_ok_def matched_ids_def Let_def distinct_map intro: inj_on_subset)
  show "set (matched_ids c lines) \<subseteq> dl_LineId ` set lines" by (auto simp: matched_ids_def)
  show m: "0 \<le> mget net i" if "i \<in> set (matched_ids c lines)" for i
    using that nn by (auto simp: matched_ids_def)
  show b0: "0 \<le> b" unfolding b_def using m by (rule sum_list_nonneg_map)
  have "b = (\<Sum>l\<leftarrow>filter (\<lambda>l. appliesTo c (dl_ProductId l)) lines. mget net (dl_LineId l))"
    by (simp add: b_def matched_ids_def comp_def)
  also have "\<dots> \<le> (\<Sum>l\<leftarrow>lines. mget net (dl_LineId l))" using nn by (intro sum_filter_le) auto
  also have "\<dots> \<le> ?s" using nn by (intro sum_list_cong_le) auto
  finally have bs: "b \<le> ?s" .
  have "b * b \<le> ?s * ?s" using b0 bs by (intro mult_mono) auto
  also have "?s * ?s < 2 ^ 63" using ok by (simp add: lines_ok_def Let_def)
  finally show bb: "b * b < 2 ^ 63" .
  show b1: "b < 2 ^ 63" using b0 bb by (rule square_less)
  show "sum64 (map (mget net) (matched_ids c lines)) = b"
    using m b1 unfolding b_def by (intro sum64_exact) auto
qed

lemma lines_sum_less: "lines_ok lines \<Longrightarrow> (\<Sum>l\<leftarrow>lines. dl_Total l) < 2 ^ 63"
  by (rule square_less[OF sum_list_nonneg_map]) (simp_all add: lines_ok_def Let_def)

text \<open>The value of a split: between 0 and the running net of each line, in total the discount.\<close>

lemma alloc_facts:
  assumes ok: "alloc_ok tot ids net"
  shows "dom (allocateProportional tot ids net) = set ids"
    and "i \<in> set ids \<Longrightarrow> 0 \<le> mget (allocateProportional tot ids net) i
           \<and> mget (allocateProportional tot ids net) i \<le> mget net i"
    and "(\<Sum>i\<leftarrow>ids. mget (allocateProportional tot ids net) i) = tot"
proof -
  define sm where "sm = (\<Sum>i\<leftarrow>ids. mget net i)"
  define lo where "lo = tot - (\<Sum>i\<leftarrow>ids. mget net i * tot div sm)"
  define bs where "bs = map fst (take (nat lo) (alloc_rems tot sm net ids))"
  have as: "distinct ids" "\<And>i. i \<in> set ids \<Longrightarrow> 0 \<le> mget net i" "0 < sm" "0 \<le> tot" "tot \<le> sm"
    using ok by (auto simp: alloc_ok_def Let_def sm_def)
  note left = alloc_leftover[OF sm_def as(3) lo_def bs_def as(1)]
  note ch = alloc_char[OF ok sm_def bs_def[unfolded lo_def]]
  show "dom (allocateProportional tot ids net) = set ids" by (auto simp: ch split: if_splits)
  show "0 \<le> mget (allocateProportional tot ids net) i
        \<and> mget (allocateProportional tot ids net) i \<le> mget net i" if "i \<in> set ids"
    using share_le[OF as(2)[OF that] as(4,5,3)] that left(4) by (auto simp: ch mget_def)
  have "(\<Sum>i\<leftarrow>ids. mget (allocateProportional tot ids net) i)
      = (\<Sum>i\<leftarrow>ids. mget net i * tot div sm + (if i \<in> set bs then 1 else 0))"
    by (intro arg_cong[where f = sum_list] map_cong refl) (simp add: ch mget_def)
  also have "\<dots> = (\<Sum>i\<leftarrow>ids. mget net i * tot div sm) + int (length (filter (\<lambda>i. i \<in> set bs) ids))"
    by (rule sum_list_bump)
  also have "length (filter (\<lambda>i. i \<in> set bs) ids) = length bs"
  proof -
    have "set (filter (\<lambda>i. i \<in> set bs) ids) = set bs" using left(4) by auto
    then show ?thesis using as(1) left(2) by (metis distinct_card distinct_filter)
  qed
  finally show "(\<Sum>i\<leftarrow>ids. mget (allocateProportional tot ids net) i) = tot"
    using left(3) by (simp add: lo_def)
qed

definition take_off :: "(string \<rightharpoonup> int) \<Rightarrow> (string \<rightharpoonup> int) \<times> (string \<rightharpoonup> int)
    \<Rightarrow> (string \<rightharpoonup> int) \<times> (string \<rightharpoonup> int)" where
  "take_off alloc st =
    ((\<lambda>k. case alloc k of None \<Rightarrow> fst st k | Some amt \<Rightarrow> Some (sub64 (mget (fst st) k) amt)),
     (\<lambda>k. case alloc k of None \<Rightarrow> snd st k | Some amt \<Rightarrow> Some (add64 (mget (snd st) k) amt)))"

definition coupon_eligible :: "'d applied_discount \<Rightarrow> int \<Rightarrow> string \<Rightarrow> bool" where
  "coupon_eligible a cycle currency \<longleftrightarrow> InWindow a cycle \<and>
     \<not> (cpn_DiscountType (ad_Coupon a) = DiscountTypeFixed \<and> cpn_Currency (ad_Coupon a) \<noteq> currency)"

lemma apply_one_eq:
  assumes "lines_ok lines" "disc_inv lines (net, res)"
    and ids: "ids = matched_ids (ad_Coupon a) lines" and b: "b = (\<Sum>i\<leftarrow>ids. mget net i)"
    and raw: "raw = discount_raw D (ad_Coupon a) b"
  shows "apply_one D lines cycle currency a (net, res) =
    (if coupon_eligible a cycle currency \<and> 0 < b \<and> 0 < raw
     then take_off (allocateProportional raw ids net) (net, res) else (net, res))"
proof -
  have "sum64 (map (mget net) ids) = b"
    using disc_base(7)[OF assms(1,2) b[unfolded ids]] by (simp add: ids)
  then have s: "sum64 (map (mget net) (map dl_LineId (filter (\<lambda>l. appliesTo (ad_Coupon a) (dl_ProductId l)) lines))) = b"
    by (simp add: ids matched_ids_def)
  show ?thesis
    unfolding apply_one_def coupon_eligible_def Let_def prod.case s take_off_def raw fst_conv snd_conv
    by (auto simp: ids matched_ids_def not_le)
qed

lemma take_off_inv:
  assumes ok: "lines_ok lines" and inv: "disc_inv lines (net, res)"
    and alloc: "alloc_ok raw ids net" and ids: "set ids \<subseteq> dl_LineId ` set lines"
  shows "disc_inv lines (take_off (allocateProportional raw ids net) (net, res))"
proof -
  let ?al = "allocateProportional raw ids net"
  note f = alloc_facts[OF alloc]
  have one: "0 \<le> mget (fst (take_off ?al (net, res))) k \<and> 0 \<le> mget (snd (take_off ?al (net, res))) k \<and>
      mget (fst (take_off ?al (net, res))) k + mget (snd (take_off ?al (net, res))) k = dl_Total l"
    if l: "l \<in> set lines" and k: "k = dl_LineId l" for k l
  proof -
    have n: "0 \<le> mget net k" "0 \<le> mget res k" "mget net k + mget res k = dl_Total l"
      using inv l k by (auto simp: disc_inv_def)
    have tot: "\<And>l. l \<in> set lines \<Longrightarrow> 0 \<le> dl_Total l" using ok by (simp add: lines_ok_def Let_def)
    have "dl_Total l \<le> (\<Sum>l\<leftarrow>lines. dl_Total l)" by (rule member_le_sum_map[OF l tot])
    then have t: "dl_Total l < 2 ^ 63" using lines_sum_less[OF ok] by linarith
    show ?thesis
    proof (cases "?al k")
      case None
      then show ?thesis using n by (simp add: take_off_def mget_def)
    next
      case (Some amt)
      then have "k \<in> set ids" using f(1) by blast
      then have a: "0 \<le> amt" "amt \<le> mget net k" using f(2)[of k] Some by (auto simp: mget_def)
      then have "sub64 (mget net k) amt = mget net k - amt" "add64 (mget res k) amt = mget res k + amt"
        using n t by (auto intro!: sub64_exact add64_exact in64_between)
      then show ?thesis using Some a n by (simp add: take_off_def mget_def)
    qed
  qed
  have "dom (fst (take_off ?al (net, res))) = dom net \<union> dom ?al"
    "dom (snd (take_off ?al (net, res))) = dom res \<union> dom ?al"
    by (auto simp: take_off_def split: option.splits)
  then show ?thesis using one inv ids f(1) by (auto simp: disc_inv_def)
qed

lemma disc_inv_init:
  assumes "lines_ok lines"
  shows "disc_inv lines (fold (\<lambda>l m. m(dl_LineId l \<mapsto> dl_Total l)) lines Map.empty,
    fold (\<lambda>l m. m(dl_LineId l \<mapsto> 0)) lines Map.empty)"
proof -
  have d: "distinct (map dl_LineId lines)" using assms by (simp add: lines_ok_def Let_def)
  have dom: "dom (fold (\<lambda>l m. m(dl_LineId l \<mapsto> f l)) lines Map.empty) = dl_LineId ` set lines"
    for f :: "discountable_line \<Rightarrow> int"
    using fold_upd_keyed[OF d, of _ f Map.empty] by (fastforce simp: dom_def)
  have val: "mget (fold (\<lambda>l m. m(dl_LineId l \<mapsto> f l)) lines Map.empty) (dl_LineId l) = f l"
    if "l \<in> set lines" for l and f :: "discountable_line \<Rightarrow> int"
    using fold_upd_keyed(1)[OF d that, of f Map.empty] by (simp only: mget_def option.case)
  have pos: "\<And>l. l \<in> set lines \<Longrightarrow> 0 \<le> dl_Total l" using assms by (simp add: lines_ok_def Let_def)
  show ?thesis unfolding disc_inv_def fst_conv snd_conv dom by (simp add: val pos)
qed

context decimal
begin

lemma apply_one_inv:
  assumes ok: "lines_ok lines" and inv: "disc_inv lines st"
    and valid: "coupon_validate D (ad_Coupon a) = None"
  shows "disc_inv lines (apply_one D lines cycle currency a st)"
proof -
  obtain net res where st: "st = (net, res)" by (cases st)
  define ids where "ids = matched_ids (ad_Coupon a) lines"
  define b where "b = (\<Sum>i\<leftarrow>ids. mget net i)"
  define raw where "raw = discount_raw D (ad_Coupon a) b"
  note base = disc_base[OF ok inv[unfolded st] b_def[unfolded ids_def], folded ids_def]
  show ?thesis
  proof (cases "0 < b \<and> 0 < raw")
    case True
    then have r: "0 \<le> raw" "raw \<le> b" using raw_bounds[OF valid, of b] base(6) by (auto simp: raw_def)
    then have "b * raw \<le> b * b" using base(4) by (intro mult_left_mono) auto
    then have "b * raw < 2 ^ 63" using base(5) by linarith
    then have "alloc_ok raw ids net"
      using True r base(1,3,6) unfolding alloc_ok_def Let_def b_def[symmetric] by blast
    then show ?thesis
      using take_off_inv[OF ok inv[unfolded st] _ base(2)] inv
      by (simp add: st apply_one_eq[OF ok inv[unfolded st] ids_def b_def raw_def])
  next
    case False
    then show ?thesis using inv
      by (auto simp: st apply_one_eq[OF ok inv[unfolded st] ids_def b_def raw_def])
  qed
qed

lemma fold_apply_one_inv:
  assumes "lines_ok lines" "disc_inv lines st" "\<And>a. a \<in> set as \<Longrightarrow> coupon_validate D (ad_Coupon a) = None"
  shows "disc_inv lines (fold (apply_one D lines cycle currency) as st)"
  using assms by (induction as arbitrary: st) (simp_all add: apply_one_inv)

lemma ApplyDiscounts_inv:
  assumes "lines_ok lines" "\<And>a. a \<in> set as \<Longrightarrow> coupon_validate D (ad_Coupon a) = None"
  shows "\<exists>net. disc_inv lines (net, ApplyDiscounts D lines as cycle currency)"
proof -
  let ?net = "fold (\<lambda>l m. m(dl_LineId l \<mapsto> dl_Total l)) lines Map.empty"
  let ?res = "fold (\<lambda>l m. m(dl_LineId l \<mapsto> 0)) lines Map.empty"
  let ?st = "fold (apply_one D lines cycle currency) (sort_key (\<lambda>a. dsc_RedeemedAt (ad_Discount a)) as) (?net, ?res)"
  have "disc_inv lines ?st"
    using assms(2) by (intro fold_apply_one_inv[OF assms(1) disc_inv_init[OF assms(1)]]) simp
  then have "disc_inv lines (fst ?st, snd ?st)" by simp
  then show ?thesis unfolding ApplyDiscounts_def Let_def by (rule exI[where x = "fst ?st"])
qed

end

lemma sort_key_perm:
  fixes k :: "'a \<Rightarrow> 'k::linorder"
  assumes "mset xs = mset ys" "inj_on k (set xs)"
  shows "sort_key k xs = sort_key k ys"
proof (rule properties_for_sort_key)
  show "mset (sort_key k ys) = mset xs" using assms(1) by simp
  show "sorted (map k (sort_key k ys))" by simp
  fix x assume "x \<in> set (sort_key k ys)"
  then have x: "x \<in> set xs" "x \<in> set ys" using mset_eq_setD[OF assms(1)] by auto
  have f: "filter (\<lambda>y. k x = k y) zs = replicate (count (mset zs) x) x" if "set zs = set xs" for zs
  proof -
    have "filter (\<lambda>y. k x = k y) zs = filter (\<lambda>y. x = y) zs"
      using x(1) assms(2) that by (intro filter_cong) (auto simp: inj_on_def)
    then show ?thesis by (simp add: replicate_count_mset_eq_filter_eq)
  qed
  show "filter (\<lambda>y. k x = k y) (sort_key k ys) = filter (\<lambda>y. k x = k y) xs"
    using f[of xs] f[of "sort_key k ys"] mset_eq_setD[OF assms(1)] assms(1) by simp
qed

section \<open>Sample data for the witnesses\<close>

definition sample_coupon :: "rat coupon" where
  "sample_coupon = \<lparr> cpn_OrgId = ''o'', cpn_Id = ''c'', cpn_Name = ''n'', cpn_Active = True,
     cpn_Metadata = Map.empty, cpn_DiscountType = DiscountTypePercentage, cpn_PercentOff = 50,
     cpn_AmountOff = 0, cpn_Currency = [], cpn_Duration = DurationForever, cpn_DurationInCycles = 0,
     cpn_RedeemBy = 0, cpn_AppliesToProducts = [], cpn_MaxRedemptions = 0,
     cpn_OncePerCustomer = False, cpn_CreatedAt = 0, cpn_UpdatedAt = 0 \<rparr>"

definition sample_discount :: discount where
  "sample_discount = \<lparr> dsc_OrgId = ''o'', dsc_Id = ''d'', dsc_CouponId = ''c'', dsc_CouponCodeId = [],
     dsc_CustomerId = ''u'', dsc_OrderId = ''r'', dsc_SubscriptionId = [], dsc_StartCycle = 0,
     dsc_Status = DiscountStatusActive, dsc_RedeemedAt = 5, dsc_EndedAt = 0, dsc_Metadata = Map.empty,
     dsc_CreatedAt = 0, dsc_UpdatedAt = 0 \<rparr>"

definition sample_lines :: "discountable_line list" where
  "sample_lines = [\<lparr> dl_LineId = ''a'', dl_ProductId = ''p'', dl_Total = 5 \<rparr>,
                   \<lparr> dl_LineId = ''b'', dl_ProductId = ''q'', dl_Total = 8 \<rparr>]"

definition sample_applied :: "rat applied_discount" where
  "sample_applied = \<lparr> ad_Discount = sample_discount, ad_Coupon = sample_coupon \<rparr>"

section \<open>Properties\<close>

text \<open>C1: ApplyDiscounts records an amount for exactly the given lines, and that amount is
  never negative and never more than the line's total, whatever the sequence of
  discounts, as long as every coupon passes its validation and the square of the
  sum of the totals fits in an int64.\<close>

theorem ApplyDiscounts_bounds:
  assumes "decimal_laws D v" and "lines_ok lines"
    and "\<forall>a\<in>set as. coupon_validate D (ad_Coupon a) = None" and "l \<in> set lines"
  shows "dom (ApplyDiscounts D lines as cycle currency) = dl_LineId ` set lines \<and>
    0 \<le> mget (ApplyDiscounts D lines as cycle currency) (dl_LineId l) \<and>
    mget (ApplyDiscounts D lines as cycle currency) (dl_LineId l) \<le> dl_Total l"
proof -
  obtain net where "disc_inv lines (net, ApplyDiscounts D lines as cycle currency)"
    using decimal.ApplyDiscounts_inv[OF decimal.intro[OF assms(1)] assms(2), of as] assms(3) by blast
  then show ?thesis using assms(4) by (fastforce simp: disc_inv_def)
qed

lemma sample_valid: "coupon_validate rat_ops sample_coupon = None"
  by code_simp

lemma sample_lines_ok: "lines_ok sample_lines"
  by code_simp

theorem ApplyDiscounts_bounds_witness:
  "mget (ApplyDiscounts rat_ops sample_lines [sample_applied] 3 ''USD'') ''a'' \<le> 5"
  using ApplyDiscounts_bounds[OF rat_laws sample_lines_ok, of "[sample_applied]" "hd sample_lines" 3 "''USD''"]
    sample_valid by (simp add: sample_applied_def sample_lines_def)

text \<open>C2: The largest-remainder split gives amounts that sum to the discount exactly,
  each between 0 and the running net of its line (totals without overflow).\<close>

theorem allocateProportional_exact:
  assumes "alloc_ok tot ids net"
  shows "(\<Sum>i\<leftarrow>ids. mget (allocateProportional tot ids net) i) = tot \<and>
    list_all (\<lambda>i. 0 \<le> mget (allocateProportional tot ids net) i
        \<and> mget (allocateProportional tot ids net) i \<le> mget net i) ids"
  using alloc_facts[OF assms] by (simp add: list_all_iff)

theorem allocateProportional_exact_witness:
  "(\<Sum>i\<leftarrow>[''a'', ''b'', ''c'']. mget (allocateProportional 10
      [''a'', ''b'', ''c''] [''a'' \<mapsto> 7, ''b'' \<mapsto> 7, ''c'' \<mapsto> 7]) i) = 10"
  using allocateProportional_exact[of 10 "[''a'', ''b'', ''c'']" "[''a'' \<mapsto> 7, ''b'' \<mapsto> 7, ''c'' \<mapsto> 7]"]
  by (simp add: alloc_ok_def)

text \<open>The discount engine does not depend on the order in which the discounts are
  passed, when no two of them were redeemed at the same instant.\<close>

theorem ApplyDiscounts_order_independent:
  assumes "mset as = mset bs" and "inj_on (\<lambda>a. dsc_RedeemedAt (ad_Discount a)) (set as)"
  shows "ApplyDiscounts D lines as cycle currency = ApplyDiscounts D lines bs cycle currency"
  using sort_key_perm[OF assms] by (simp add: ApplyDiscounts_def)

theorem ApplyDiscounts_order_independent_witness:
  "ApplyDiscounts rat_ops sample_lines
     [sample_applied, sample_applied\<lparr>ad_Discount := sample_discount\<lparr>dsc_RedeemedAt := 2\<rparr>\<rparr>] 3 ''USD'' =
   ApplyDiscounts rat_ops sample_lines
     [sample_applied\<lparr>ad_Discount := sample_discount\<lparr>dsc_RedeemedAt := 2\<rparr>\<rparr>, sample_applied] 3 ''USD''"
  by (rule ApplyDiscounts_order_independent)
    (simp_all add: sample_applied_def sample_discount_def inj_on_def)

text \<open>A percentage coupon takes off the nearest whole amount to its share of the
  base, up to the 16 digits of the division, and a 100 percent coupon takes all of it.\<close>

theorem discount_raw_percentage:
  assumes "decimal_laws D v" and "coupon_validate D c = None"
    and "cpn_DiscountType c = DiscountTypePercentage" and "0 < base" and "base < 2 ^ 63"
  shows "\<bar>of_int (discount_raw D c base) - of_int base * v (cpn_PercentOff c) / 100\<bar> \<le> 1 / 2 + 1 / (2 * 10 ^ 16)
    \<and> (v (cpn_PercentOff c) = 100 \<longrightarrow> discount_raw D c base = base)"
proof -
  note dec = decimal.intro[OF assms(1)]
  let ?p = "v (cpn_PercentOff c)" and ?q = "div16 (of_int base * v (cpn_PercentOff c)) 100"
  have raw: "discount_raw D c base = round_half_away ?q"
    using decimal.percent_raw(1)[OF dec, of "cpn_PercentOff c" base]
      decimal.valid_percent[OF dec assms(2,3)] assms(3-5)
    by (simp add: discount_raw_def)
  have "\<bar>?q - of_int base * ?p / 100\<bar> \<le> 1 / (2 * 10 ^ 16)" by (rule div16_near)
  moreover have "\<bar>of_int (round_half_away ?q) - ?q\<bar> \<le> 1 / 2" by (rule round_half_away_near)
  ultimately have "\<bar>of_int (discount_raw D c base) - of_int base * ?p / 100\<bar> \<le> 1 / 2 + 1 / (2 * 10 ^ 16)"
    unfolding raw by linarith
  moreover have "discount_raw D c base = base" if "?p = 100"
  proof -
    have "?q = of_int base" unfolding that using div16_le[of _ 100 base] div16_ge[of base _ 100]
      by (intro antisym) simp_all
    then show ?thesis by (simp add: raw)
  qed
  ultimately show ?thesis by blast
qed

theorem discount_raw_percentage_witness:
  "\<bar>of_int (discount_raw rat_ops sample_coupon 13) - 13 * 50 / (100::rat)\<bar> \<le> 1 / 2 + 1 / (2 * 10 ^ 16)"
  using discount_raw_percentage[OF rat_laws sample_valid, of 13]
  by (simp add: sample_coupon_def)

text \<open>The split multiplies a line's net by the discount in int64, so a large enough
  line wraps: a full discount on one line of 40 million (in units of a hundred)
  gives that line a negative discount.\<close>

theorem ApplyDiscounts_overflow:
  "mget (ApplyDiscounts rat_ops [\<lparr> dl_LineId = ''a'', dl_ProductId = ''p'', dl_Total = 4000000000 \<rparr>]
     [sample_applied\<lparr>ad_Coupon := sample_coupon\<lparr>cpn_PercentOff := 100\<rparr>\<rparr>] 0 ''USD'') ''a'' = - 611686017"
  by code_simp

end
