(* ===== verification/Invoices.thy ===== *)
theory Invoices
  imports Subscriptions Discounts
begin

text \<open>
  The invoice aggregate: src/internal/core/domain/invoice.go, invoice_build.go,
  invoice_line_item.go and invoice_settings.go.  The lemmas show that a settled,
  written-off or void invoice never changes its status again, that the totals
  follow from the lines, that a discounted invoice charges neither less than
  nothing nor more than its subtotal, and that references are unique.
\<close>

section \<open>Data\<close>

datatype invoice_status =
    InvoiceStatusDraft | InvoiceStatusOpen | InvoiceStatusPaid | InvoiceStatusUncollectible
  | InvoiceStatusVoid | InvoiceStatusOther string

datatype invoice_line_kind = InvoiceLineKindBase | InvoiceLineKindUsage | InvoiceLineKindOther string

record 'd invoice_line_item =
  ili_OrgId :: string
  ili_Id :: string
  ili_InvoiceId :: string
  ili_PriceId :: string
  ili_Kind :: invoice_line_kind
  ili_Description :: string
  ili_Quantity :: 'd
  ili_UnitAmount :: 'd
  ili_Total :: int
  ili_DiscountTotal :: int
  ili_Metadata :: metadata
  ili_CreatedAt :: time
  ili_UpdatedAt :: time

record 'd invoice =
  inv_OrgId :: string
  inv_Id :: string
  inv_Number :: int
  inv_Reference :: string
  inv_SubscriptionId :: string
  inv_CustomerId :: string
  inv_OrderId :: string
  inv_Status :: invoice_status
  inv_Currency :: string
  inv_Subtotal :: int
  inv_DiscountTotal :: int
  inv_Total :: int
  inv_LineItems :: "'d invoice_line_item list"
  inv_Cycle :: int
  inv_PeriodStart :: time
  inv_PeriodEnd :: time
  inv_Metadata :: metadata
  inv_CreatedAt :: time
  inv_UpdatedAt :: time

section \<open>Status transitions\<close>

definition transition_to :: "invoice_status \<Rightarrow> 'd invoice \<Rightarrow> 'd invoice res" where
  "transition_to target ivc =
    (case inv_Status ivc of
       InvoiceStatusDraft \<Rightarrow> Inr (ivc\<lparr>inv_Status := target\<rparr>)
     | InvoiceStatusOpen \<Rightarrow> Inr (ivc\<lparr>inv_Status := target\<rparr>)
     | _ \<Rightarrow> Inl ErrInvalidInvoiceTransition)"

definition invoice_MarkOpen :: "'d invoice \<Rightarrow> 'd invoice res" where
  "invoice_MarkOpen ivc = transition_to InvoiceStatusOpen ivc"

definition invoice_MarkPaid :: "'d invoice \<Rightarrow> 'd invoice res" where
  "invoice_MarkPaid ivc = transition_to InvoiceStatusPaid ivc"

definition invoice_MarkUncollectible :: "'d invoice \<Rightarrow> 'd invoice res" where
  "invoice_MarkUncollectible ivc = transition_to InvoiceStatusUncollectible ivc"

definition invoice_Void :: "'d invoice \<Rightarrow> 'd invoice res" where
  "invoice_Void ivc = transition_to InvoiceStatusVoid ivc"

section \<open>Building\<close>

definition recalculate :: "'d invoice \<Rightarrow> 'd invoice" where
  "recalculate ivc =
    (let subtotal = sum64 (map ili_Total (inv_LineItems ivc));
         discount = sum64 (map ili_DiscountTotal (inv_LineItems ivc))
     in ivc\<lparr>inv_Subtotal := subtotal, inv_DiscountTotal := discount,
            inv_Total := sub64 subtotal discount\<rparr>)"

definition AddLine :: "'d invoice \<Rightarrow> 'd invoice_line_item \<Rightarrow> 'd invoice" where
  "AddLine ivc l = recalculate (ivc\<lparr>inv_LineItems := inv_LineItems ivc @ [l]\<rparr>)"

definition ApplyDiscountTotals :: "'d invoice \<Rightarrow> (string \<rightharpoonup> int) \<Rightarrow> 'd invoice" where
  "ApplyDiscountTotals ivc perLine =
    recalculate (ivc\<lparr>inv_LineItems := map (\<lambda>l. case perLine (ili_Id l) of
        Some d \<Rightarrow> l\<lparr>ili_DiscountTotal := d\<rparr> | None \<Rightarrow> l) (inv_LineItems ivc)\<rparr>)"

definition NewInvoice :: "subscription \<Rightarrow> time \<Rightarrow> time \<Rightarrow> string \<Rightarrow> time \<Rightarrow> 'd invoice" where
  "NewInvoice sub periodStart periodEnd newId now =
    \<lparr> inv_OrgId = sub_OrgId sub, inv_Id = newId, inv_Number = 0, inv_Reference = [],
      inv_SubscriptionId = sub_Id sub, inv_CustomerId = sub_CustomerId sub, inv_OrderId = sub_OrderId sub,
      inv_Status = InvoiceStatusDraft, inv_Currency = sub_Currency sub, inv_Subtotal = 0,
      inv_DiscountTotal = 0, inv_Total = 0, inv_LineItems = [], inv_Cycle = sub_CyclesProcessed sub,
      inv_PeriodStart = periodStart, inv_PeriodEnd = periodEnd, inv_Metadata = Map.empty,
      inv_CreatedAt = now, inv_UpdatedAt = now \<rparr>"

definition new_line :: "string \<Rightarrow> string \<Rightarrow> 'd price \<Rightarrow> invoice_line_kind \<Rightarrow> 'd \<Rightarrow> int \<times> 'd \<Rightarrow> string \<Rightarrow> time
    \<Rightarrow> 'd invoice_line_item" where
  "new_line orgId invoiceId p kind quantity amount newId now =
    \<lparr> ili_OrgId = orgId, ili_Id = newId, ili_InvoiceId = invoiceId, ili_PriceId = prc_Id p,
      ili_Kind = kind, ili_Description = prc_Label p, ili_Quantity = quantity,
      ili_UnitAmount = snd amount, ili_Total = fst amount, ili_DiscountTotal = 0,
      ili_Metadata = Map.empty, ili_CreatedAt = now, ili_UpdatedAt = now \<rparr>"

definition BaseLineFromPrice ::
    "'d decimal_ops \<Rightarrow> string \<Rightarrow> string \<Rightarrow> 'd price \<Rightarrow> 'd \<Rightarrow> string \<Rightarrow> time \<Rightarrow> 'd invoice_line_item" where
  "BaseLineFromPrice D orgId invoiceId p quantity newId now =
    new_line orgId invoiceId p InvoiceLineKindBase quantity (priceFixed D p quantity) newId now"

definition UsageLineFromPrice ::
    "'d decimal_ops \<Rightarrow> string \<Rightarrow> string \<Rightarrow> 'd price \<Rightarrow> 'd \<Rightarrow> string \<Rightarrow> time \<Rightarrow> 'd invoice_line_item" where
  "UsageLineFromPrice D orgId invoiceId p units newId now =
    new_line orgId invoiceId p InvoiceLineKindUsage units (PriceUsage D p units) newId now"

definition UsageLineFromPriceGrouped ::
    "'d decimal_ops \<Rightarrow> string \<Rightarrow> string \<Rightarrow> 'd price \<Rightarrow> string \<Rightarrow> string \<Rightarrow> 'd \<Rightarrow> string \<Rightarrow> time
      \<Rightarrow> 'd invoice_line_item" where
  "UsageLineFromPriceGrouped D orgId invoiceId p groupKey groupValue units newId now =
    (UsageLineFromPrice D orgId invoiceId p units newId now)
      \<lparr>ili_Metadata := [groupKey \<mapsto> groupValue],
       ili_Description := prc_Label p @ '' ('' @ groupKey @ ''='' @ groupValue @ '')''\<rparr>"

definition BuildInvoiceForPeriod ::
    "'d decimal_ops \<Rightarrow> subscription \<Rightarrow> 'd price \<Rightarrow> 'd \<Rightarrow> time \<Rightarrow> time \<Rightarrow> string \<Rightarrow> string \<Rightarrow> time \<Rightarrow> 'd invoice" where
  "BuildInvoiceForPeriod D sub p quantity periodStart periodEnd invId lineId now =
    (let ivc = NewInvoice sub periodStart periodEnd invId now
     in AddLine ivc (BaseLineFromPrice D (sub_OrgId sub) (inv_Id ivc) p quantity lineId now))"

section \<open>Settings and references\<close>

record invoice_settings =
  ist_Prefix :: string
  ist_Padding :: int

definition DefaultInvoiceSettings :: invoice_settings where
  "DefaultInvoiceSettings = \<lparr> ist_Prefix = ''INV-'', ist_Padding = 6 \<rparr>"

text \<open>
  The JSON decoder is a parameter: it returns the settings with the fields of
  the document overwritten, or None when the document does not parse.
\<close>

definition ParseInvoiceSettings ::
    "(string \<Rightarrow> invoice_settings \<Rightarrow> invoice_settings option) \<Rightarrow> string \<Rightarrow> invoice_settings \<times> bool" where
  "ParseInvoiceSettings unmarshal raw =
    (if raw = [] then (DefaultInvoiceSettings, True)
     else case unmarshal raw DefaultInvoiceSettings of
       None \<Rightarrow> (DefaultInvoiceSettings, False)
     | Some out \<Rightarrow>
         let out1 = (if ist_Prefix out = [] then out\<lparr>ist_Prefix := ''INV-''\<rparr> else out);
             out2 = (if ist_Padding out1 \<le> 0 then out1\<lparr>ist_Padding := 6\<rparr> else out1)
         in (out2, True))"

definition digit_char :: "nat \<Rightarrow> char" where
  "digit_char n = char_of (48 + n)"

fun show_nat :: "nat \<Rightarrow> string" where
  "show_nat n = (if n < 10 then [digit_char n] else show_nat (n div 10) @ [digit_char (n mod 10)])"

declare show_nat.simps [simp del]

text \<open>The verb for a zero-padded decimal: the width counts the sign; a negative width pads on the right.\<close>

definition sprintf_0d :: "int \<Rightarrow> int \<Rightarrow> string" where
  "sprintf_0d width number =
    (let sign = (if number < 0 then ''-'' else []); ds = show_nat (nat \<bar>number\<bar>);
         fill = nat (\<bar>width\<bar>) - (length sign + length ds)
     in if width < 0 then sign @ ds @ replicate fill CHR '' ''
        else sign @ replicate fill CHR ''0'' @ ds)"

definition FormatReference :: "invoice_settings \<Rightarrow> int \<Rightarrow> string" where
  "FormatReference s number = ist_Prefix s @ sprintf_0d (ist_Padding s) number"

section \<open>Lemmas\<close>

lemma transition_to_Inr:
  "transition_to st ivc = Inr ivc' \<Longrightarrow> inv_Status ivc \<in> {InvoiceStatusDraft, InvoiceStatusOpen} \<and>
    ivc' = ivc\<lparr>inv_Status := st\<rparr>"
  by (auto simp: transition_to_def split: invoice_status.splits)

lemma transition_to_Inl:
  "transition_to st ivc = Inl e \<longleftrightarrow>
    inv_Status ivc \<notin> {InvoiceStatusDraft, InvoiceStatusOpen} \<and> e = ErrInvalidInvoiceTransition"
  by (auto simp: transition_to_def split: invoice_status.splits)

text \<open>The transitions of one invoice as a step relation, with its runs.\<close>

inductive invoice_step :: "'d invoice \<Rightarrow> 'd invoice \<Rightarrow> bool" where
  open_step: "invoice_MarkOpen i = Inr i' \<Longrightarrow> invoice_step i i'"
| paid_step: "invoice_MarkPaid i = Inr i' \<Longrightarrow> invoice_step i i'"
| uncollectible_step: "invoice_MarkUncollectible i = Inr i' \<Longrightarrow> invoice_step i i'"
| void_step: "invoice_Void i = Inr i' \<Longrightarrow> invoice_step i i'"

inductive_cases invoice_stepE: "invoice_step i i'"
inductive_simps invoice_step_iff: "invoice_step i i'"

lemmas mark_defs = invoice_MarkOpen_def invoice_MarkPaid_def invoice_MarkUncollectible_def invoice_Void_def

definition invoice_terminal :: "'d invoice \<Rightarrow> bool" where
  "invoice_terminal i \<longleftrightarrow>
     inv_Status i \<in> {InvoiceStatusPaid, InvoiceStatusUncollectible, InvoiceStatusVoid}"

lemma invoice_step_from: "invoice_step i i' \<Longrightarrow>
    inv_Status i \<in> {InvoiceStatusDraft, InvoiceStatusOpen} \<and>
    (\<exists>st \<in> {InvoiceStatusOpen, InvoiceStatusPaid, InvoiceStatusUncollectible, InvoiceStatusVoid}.
       i' = i\<lparr>inv_Status := st\<rparr>)"
  by (erule invoice_stepE) (auto simp: mark_defs dest: transition_to_Inr)

lemma terminal_no_step: "invoice_terminal i \<Longrightarrow> \<not> invoice_step i i'"
  using invoice_step_from[of i i'] by (auto simp: invoice_terminal_def)

lemma invoice_run:
  assumes "invoice_step\<^sup>*\<^sup>* i i'"
  shows "(invoice_terminal i \<longrightarrow> i' = i) \<and> (\<exists>st. i' = i\<lparr>inv_Status := st\<rparr>)"
  using assms
proof (induction rule: converse_rtranclp_induct)
  case base
  show ?case by (simp, rule exI[of _ "inv_Status i'"], simp)
next
  case (step i j)
  then obtain st st' where "j = i\<lparr>inv_Status := st\<rparr>" "i' = j\<lparr>inv_Status := st'\<rparr>"
    using invoice_step_from by blast
  then have "\<exists>st. i' = i\<lparr>inv_Status := st\<rparr>" by (intro exI[of _ st']) simp
  then show ?case using terminal_no_step[of i j] step.hyps(1) by blast
qed

definition invoice_totals_ok :: "'d invoice \<Rightarrow> bool" where
  "invoice_totals_ok i \<longleftrightarrow> recalculate i = i"

lemma recalculate_simps [simp]:
  "inv_LineItems (recalculate i) = inv_LineItems i"
  "inv_Subtotal (recalculate i) = sum64 (map ili_Total (inv_LineItems i))"
  "inv_DiscountTotal (recalculate i) = sum64 (map ili_DiscountTotal (inv_LineItems i))"
  "inv_Total (recalculate i) = sub64 (sum64 (map ili_Total (inv_LineItems i))) (sum64 (map ili_DiscountTotal (inv_LineItems i)))"
  "recalculate (recalculate i) = recalculate i"
  by (simp_all add: recalculate_def Let_def)

lemma totals_ok [simp]: "invoice_totals_ok (AddLine i l)" "invoice_totals_ok (ApplyDiscountTotals i m)"
  by (simp_all add: invoice_totals_ok_def AddLine_def ApplyDiscountTotals_def)

text \<open>Reading a decimal back, so that references can be told apart.\<close>

definition read_digits :: "string \<Rightarrow> nat" where
  "read_digits s = fold (\<lambda>c a. 10 * a + (of_char c - 48)) s 0"

lemma read_digits_snoc: "read_digits (s @ [c]) = 10 * read_digits s + (of_char c - 48)"
  by (simp add: read_digits_def)

lemma digit_value: "n < 10 \<Longrightarrow> of_char (digit_char n) - 48 = n"
  by (simp add: digit_char_def of_char_of)

lemma read_show_nat: "read_digits (show_nat n) = n"
proof (induction n rule: show_nat.induct)
  case (1 n)
  show ?case
  proof (cases "n < 10")
    case True
    then show ?thesis by (simp add: show_nat.simps read_digits_def digit_value)
  next
    case False
    then show ?thesis using 1 by (subst show_nat.simps) (simp add: read_digits_snoc digit_value)
  qed
qed

lemma read_zeros: "read_digits (replicate k CHR ''0'' @ s) = read_digits s"
  by (induction k) (simp_all add: read_digits_def)

lemma read_sprintf: "0 \<le> w \<Longrightarrow> 0 \<le> n \<Longrightarrow> read_digits (sprintf_0d w n) = nat n"
  by (simp add: sprintf_0d_def Let_def read_zeros read_show_nat)

text \<open>The invoice after ApplyDiscountTotals with what ApplyDiscounts returned for its lines.\<close>

definition line_view :: "(string \<rightharpoonup> string) \<Rightarrow> 'd invoice_line_item \<Rightarrow> discountable_line" where
  "line_view productByPrice l =
    \<lparr> dl_LineId = ili_Id l, dl_ProductId = sget productByPrice (ili_PriceId l), dl_Total = ili_Total l \<rparr>"

definition discount_invoice ::
    "'d decimal_ops \<Rightarrow> 'd invoice \<Rightarrow> (string \<rightharpoonup> string) \<Rightarrow> 'd applied_discount list \<Rightarrow> int \<Rightarrow> string \<Rightarrow> 'd invoice" where
  "discount_invoice D ivc productByPrice applied cycle currency =
    ApplyDiscountTotals ivc
      (ApplyDiscounts D (map (line_view productByPrice) (inv_LineItems ivc)) applied cycle currency)"

lemma discount_invoice_totals:
  assumes D: "decimal D v" and ok: "lines_ok (map (line_view pbp) (inv_LineItems ivc))"
    and valid: "\<forall>a\<in>set as. coupon_validate D (ad_Coupon a) = None"
    and out_def: "out = discount_invoice D ivc pbp as cycle currency"
  shows "0 \<le> inv_Total out" "inv_Total out \<le> inv_Subtotal out"
    "inv_Subtotal out = (\<Sum>l\<leftarrow>inv_LineItems ivc. ili_Total l)"
    "inv_Total out = inv_Subtotal out - inv_DiscountTotal out"
proof -
  let ?lines = "map (line_view pbp) (inv_LineItems ivc)" and ?ls = "inv_LineItems ivc"
  let ?m = "ApplyDiscounts D ?lines as cycle currency"
  obtain net where net: "disc_inv ?lines (net, ?m)"
    using decimal.ApplyDiscounts_inv[OF D ok, of as] valid by blast
  have d: "\<exists>x. ?m (ili_Id l) = Some x \<and> 0 \<le> x \<and> x \<le> ili_Total l" if "l \<in> set ?ls" for l
  proof -
    have "ili_Id l \<in> dom ?m" using net that by (simp add: disc_inv_def line_view_def image_image)
    then obtain x where x: "?m (ili_Id l) = Some x" by blast
    have "line_view pbp l \<in> set ?lines" using that by simp
    then have "0 \<le> mget ?m (ili_Id l)" "mget ?m (ili_Id l) \<le> ili_Total l"
      using net unfolding disc_inv_def by (fastforce simp: line_view_def)+
    then show ?thesis using x by (simp add: mget_def)
  qed
  define new where "new = map (\<lambda>l. case ?m (ili_Id l) of Some d \<Rightarrow> l\<lparr>ili_DiscountTotal := d\<rparr> | None \<Rightarrow> l) ?ls"
  have tot: "map ili_Total new = map ili_Total ?ls"
    by (simp add: new_def comp_def split: option.split cong: map_cong)
  have disc: "map ili_DiscountTotal new = map (\<lambda>l. the (?m (ili_Id l))) ?ls"
    using d by (fastforce simp: new_def split: option.split)
  have sums: "(\<Sum>l\<leftarrow>?ls. the (?m (ili_Id l))) \<le> (\<Sum>l\<leftarrow>?ls. ili_Total l)"
    using d by (intro sum_list_cong_le) fastforce
  have nn: "0 \<le> (\<Sum>l\<leftarrow>?ls. the (?m (ili_Id l)))" using d by (intro sum_list_nonneg_map) fastforce
  have pos: "\<And>l. l \<in> set ?ls \<Longrightarrow> 0 \<le> ili_Total l" using d by fastforce
  have lt: "(\<Sum>l\<leftarrow>?ls. ili_Total l) < 2 ^ 63"
    using lines_sum_less[OF ok] by (simp add: comp_def line_view_def)
  have t: "sum64 (map ili_Total new) = (\<Sum>l\<leftarrow>?ls. ili_Total l)"
    unfolding tot using pos lt by (intro sum64_exact) auto
  have s: "sum64 (map ili_DiscountTotal new) = (\<Sum>l\<leftarrow>?ls. the (?m (ili_Id l)))"
    unfolding disc using d sums lt by (intro sum64_exact) fastforce+
  have out: "inv_Total out = sub64 (sum64 (map ili_Total new)) (sum64 (map ili_DiscountTotal new))"
    "inv_Subtotal out = sum64 (map ili_Total new)" "inv_DiscountTotal out = sum64 (map ili_DiscountTotal new)"
    by (simp_all add: out_def discount_invoice_def ApplyDiscountTotals_def new_def)
  have sub: "sub64 (sum64 (map ili_Total new)) (sum64 (map ili_DiscountTotal new)) =
      (\<Sum>l\<leftarrow>?ls. ili_Total l) - (\<Sum>l\<leftarrow>?ls. the (?m (ili_Id l)))"
    unfolding t s using sums nn lt by (intro sub64_exact) (simp add: in64_def)
  show "0 \<le> inv_Total out" "inv_Total out \<le> inv_Subtotal out"
    "inv_Subtotal out = (\<Sum>l\<leftarrow>?ls. ili_Total l)" "inv_Total out = inv_Subtotal out - inv_DiscountTotal out"
    using sums nn by (simp_all add: out sub, simp_all add: t s)
qed

section \<open>Properties\<close>

definition sample_line :: "string \<Rightarrow> int \<Rightarrow> rat invoice_line_item" where
  "sample_line lid amount = new_line ''o'' ''i'' sample_price InvoiceLineKindBase 1 (amount, 1) lid 0"

definition sample_invoice :: "rat invoice" where
  "sample_invoice = AddLine (AddLine (NewInvoice sample_subscription 0 0 ''i'' 0) (sample_line ''a'' 5)) (sample_line ''b'' 8)"

text \<open>The status of an invoice is a state machine in which paid, uncollectible and
  void are final: no sequence of transitions leaves them, a transition is refused with
  the transition error exactly there (or in an unknown status), and no transition
  changes anything but the status.\<close>

theorem invoice_terminal_absorbing:
  "(invoice_terminal i \<and> invoice_step\<^sup>*\<^sup>* i i' \<longrightarrow> i' = i) \<and>
   (invoice_step\<^sup>*\<^sup>* i i' \<longrightarrow> (\<exists>st. i' = i\<lparr>inv_Status := st\<rparr>)) \<and>
   (\<forall>f \<in> {invoice_MarkOpen, invoice_MarkPaid, invoice_MarkUncollectible, invoice_Void}.
      f i = Inl ErrInvalidInvoiceTransition \<longleftrightarrow> inv_Status i \<notin> {InvoiceStatusDraft, InvoiceStatusOpen})"
  using invoice_run[of i i'] by (auto simp: mark_defs transition_to_Inl)

theorem invoice_terminal_absorbing_witness:
  "\<not> (\<exists>i'. i' \<noteq> sample_invoice\<lparr>inv_Status := InvoiceStatusPaid\<rparr> \<and>
      invoice_step\<^sup>*\<^sup>* (sample_invoice\<lparr>inv_Status := InvoiceStatusPaid\<rparr>) i')"
  using invoice_terminal_absorbing[of "sample_invoice\<lparr>inv_Status := InvoiceStatusPaid\<rparr>"]
  by (auto simp: invoice_terminal_def)

text \<open>After discounts from valid coupons the invoice charges at least zero and at most
  its subtotal, which is the sum of the line totals, and the total is the subtotal minus
  the discount (line totals non-negative with the square of their sum within an int64).\<close>

theorem discounted_invoice_total:
  assumes "decimal_laws D v" and "lines_ok (map (line_view pbp) (inv_LineItems ivc))"
    and "\<forall>a\<in>set as. coupon_validate D (ad_Coupon a) = None"
  shows "0 \<le> inv_Total (discount_invoice D ivc pbp as cycle currency) \<and>
    inv_Total (discount_invoice D ivc pbp as cycle currency)
      \<le> inv_Subtotal (discount_invoice D ivc pbp as cycle currency) \<and>
    inv_Subtotal (discount_invoice D ivc pbp as cycle currency) = (\<Sum>l\<leftarrow>inv_LineItems ivc. ili_Total l) \<and>
    inv_Total (discount_invoice D ivc pbp as cycle currency) =
      inv_Subtotal (discount_invoice D ivc pbp as cycle currency)
        - inv_DiscountTotal (discount_invoice D ivc pbp as cycle currency)"
  using discount_invoice_totals[OF decimal.intro[OF assms(1)] assms(2,3) refl] by blast

theorem discounted_invoice_total_witness:
  "inv_Subtotal (discount_invoice rat_ops sample_invoice Map.empty [sample_applied] 3 ''USD'') = 13"
proof -
  have items: "inv_LineItems sample_invoice = [sample_line ''a'' 5, sample_line ''b'' 8]"
    by (simp add: sample_invoice_def AddLine_def NewInvoice_def)
  have "lines_ok (map (line_view Map.empty) (inv_LineItems sample_invoice))"
    by (simp add: items lines_ok_def line_view_def sample_line_def new_line_def)
  moreover have "\<forall>a\<in>set [sample_applied]. coupon_validate rat_ops (ad_Coupon a) = None"
    by (simp add: sample_applied_def sample_valid)
  ultimately have "inv_Subtotal (discount_invoice rat_ops sample_invoice Map.empty [sample_applied] 3 ''USD'') =
      (\<Sum>l\<leftarrow>inv_LineItems sample_invoice. ili_Total l)"
    using discounted_invoice_total[OF rat_laws] by blast
  then show ?thesis by (simp add: items sample_line_def new_line_def)
qed

text \<open>With a padding that is not negative, two different invoice numbers of an
  organisation never have the same reference.\<close>

theorem reference_unique:
  assumes "0 \<le> ist_Padding s" and "0 \<le> m" and "0 \<le> n" and "FormatReference s m = FormatReference s n"
  shows "m = n"
proof -
  have "sprintf_0d (ist_Padding s) m = sprintf_0d (ist_Padding s) n"
    using assms(4) by (simp add: FormatReference_def)
  then have "nat m = nat n" using read_sprintf[OF assms(1)] assms(2,3) by metis
  then show ?thesis using assms(2,3) by simp
qed

theorem reference_unique_witness:
  "FormatReference DefaultInvoiceSettings 42 \<noteq> FormatReference DefaultInvoiceSettings 43
   \<and> FormatReference DefaultInvoiceSettings 42 = ''INV-000042''"
proof
  show "FormatReference DefaultInvoiceSettings 42 \<noteq> FormatReference DefaultInvoiceSettings 43"
    using reference_unique[of DefaultInvoiceSettings 42 43] by (auto simp: DefaultInvoiceSettings_def)
  show "FormatReference DefaultInvoiceSettings 42 = ''INV-000042''" by code_simp
qed

end
