(* ===== verification/Accounts.thy ===== *)
theory Accounts
  imports Payments
begin

text \<open>
  Customers, saved payment methods, orders with their items, settings and meters:
  the plain aggregates of src/internal/core/domain (customer.go, payment_method.go,
  payment_method_types.go, order.go, order_item.go, setting.go, meter.go,
  meter_types.go) which the services load and store.  References between
  aggregates are ids.  A value of type any is kept as its encoded text.
\<close>

section \<open>Customers and payment methods\<close>

record address =
  adr_FirstName :: string
  adr_LastName :: string
  adr_Email :: string
  adr_Phone :: string
  adr_Line1 :: string
  adr_Line2 :: string
  adr_City :: string
  adr_State :: string
  adr_PostalCode :: string
  adr_Country :: string

definition address_IsEmpty :: "address \<Rightarrow> bool" where
  "address_IsEmpty a \<longleftrightarrow>
     adr_FirstName a = [] \<and> adr_LastName a = [] \<and> adr_Email a = [] \<and> adr_Phone a = [] \<and>
     adr_Line1 a = [] \<and> adr_Line2 a = [] \<and> adr_City a = [] \<and> adr_State a = [] \<and>
     adr_PostalCode a = [] \<and> adr_Country a = []"

record customer =
  cus_OrgId :: string
  cus_Id :: string
  cus_ExternalId :: string
  cus_FirstName :: string
  cus_LastName :: string
  cus_Email :: string
  cus_Phone :: string
  cus_DefaultPaymentMethodId :: string
  cus_BillingAddress :: address
  cus_Metadata :: metadata
  cus_CreatedAt :: time
  cus_UpdatedAt :: time

datatype payment_method_status =
  PaymentMethodStatusActive | PaymentMethodStatusExpired | PaymentMethodStatusOther string

record payment_method =
  pmd_OrgId :: string
  pmd_Id :: string
  pmd_Status :: payment_method_status
  pmd_Psp :: string
  pmd_Name :: string
  pmd_CustomerId :: string
  pmd_BillingAddress :: address
  pmd_Type :: string
  pmd_Token :: string
  pmd_Details :: string
  pmd_Metadata :: metadata
  pmd_ExpireAt :: time
  pmd_CreatedAt :: time
  pmd_UpdatedAt :: time

section \<open>Orders\<close>

datatype order_status =
    OrderStatusPending | OrderStatusCompleted | OrderStatusExpired | OrderStatusCancelled
  | OrderStatusOther string

record order =
  ord_OrgId :: string
  ord_Id :: string
  ord_CustomerId :: string
  ord_Reference :: string
  ord_Status :: order_status
  ord_SessionId :: string
  ord_CartId :: string
  ord_Currency :: string
  ord_Total :: int
  ord_Metadata :: metadata
  ord_PaymentSession :: "string option"
  ord_UpfrontInvoice :: bool
  ord_CreatedAt :: time
  ord_UpdatedAt :: time

definition order_SetMetadata :: "order \<Rightarrow> metadata \<Rightarrow> order" where
  "order_SetMetadata o1 m = o1\<lparr>ord_Metadata := ord_Metadata o1 ++ m\<rparr>"

record order_item =
  itm_OrgId :: string
  itm_Id :: string
  itm_OrderId :: string
  itm_ProductId :: string
  itm_VariantId :: string
  itm_PriceId :: string
  itm_SubscriptionId :: string
  itm_Description :: string
  itm_Quantity :: int
  itm_TaxTotal :: int
  itm_DiscountTotal :: int
  itm_Subtotal :: int
  itm_Total :: int
  itm_Metadata :: metadata
  itm_CreatedAt :: time
  itm_UpdatedAt :: time

section \<open>Settings\<close>

record setting =
  set_OrgId :: string
  set_ParentId :: string
  set_Id :: string
  set_Type :: string
  set_Value :: string
  set_CreatedAt :: time
  set_UpdatedAt :: time

section \<open>Sessions and products (session.go, product.go)\<close>

record session =
  ses_OrgId :: string
  ses_Id :: string
  ses_CartId :: string
  ses_CreatedAt :: time
  ses_UpdatedAt :: time

datatype product_status = ProductStatusActive | ProductStatusArchived | ProductStatusOther string

record product =
  pdt_OrgId :: string
  pdt_Id :: string
  pdt_Name :: string
  pdt_Description :: string
  pdt_Status :: product_status
  pdt_ArchivedAt :: "time option"
  pdt_Metadata :: metadata
  pdt_CreatedAt :: time
  pdt_UpdatedAt :: time

definition IsArchived :: "product \<Rightarrow> bool" where
  "IsArchived p \<longleftrightarrow> pdt_Status p = ProductStatusArchived"

section \<open>Meters\<close>

datatype aggregation_type =
    AggregationCount | AggregationSum | AggregationMax | AggregationLatest
  | AggregationWeightedSum | AggregationUniqueCount | AggregationOther string

record metric_filter =
  mfl_Field :: string
  mfl_Values :: "string list"

record billable_metric =
  met_OrgId :: string
  met_Id :: string
  met_Code :: string
  met_Name :: string
  met_Aggregation :: aggregation_type
  met_FieldName :: string
  met_CarryOver :: bool
  met_RoundingMode :: string
  met_RoundingScale :: int
  met_Filters :: "metric_filter list"
  met_GroupBy :: "string list"
  met_Metadata :: metadata
  met_CreatedAt :: time
  met_UpdatedAt :: time

text \<open>A field that is not declared gives nil, which reads as the empty list.\<close>

definition FilterValues :: "billable_metric \<Rightarrow> string \<Rightarrow> string list" where
  "FilterValues m field =
    (case find (\<lambda>f. mfl_Field f = field) (met_Filters m) of
       None \<Rightarrow> [] | Some f \<Rightarrow> mfl_Values f)"

section \<open>Variants, organisations and webhook subscriptions (variant.go, org.go, webhook_subscription.go)\<close>

record variant =
  var_OrgId :: string
  var_Id :: string
  var_ProductId :: string
  var_Name :: string
  var_Description :: string
  var_Metadata :: "string \<rightharpoonup> string"
  var_CreatedAt :: time
  var_UpdatedAt :: time

datatype org_status =
    OrgStatusTrial | OrgStatusActive | OrgStatusDemo | OrgStatusInactive | OrgStatusDeleted | OrgStatusOther string

record org =
  org_Id :: string
  org_Name :: string
  org_Country :: string
  org_Timezone :: string
  org_Status :: org_status
  org_Metadata :: "string \<rightharpoonup> string"
  org_CreatedAt :: time
  org_UpdatedAt :: time

record webhook_subscription =
  whs_OrgID :: string
  whs_Id :: string
  whs_Events :: "string list"
  whs_URL :: string
  whs_Secret :: string
  whs_CreatedAt :: time
  whs_UpdatedAt :: time

section \<open>Keys, cohorts, metadata and gateways (api_key.go, customer.go, metadata_store.go, psp.go)\<close>

record api_key =
  apk_OrgId :: string
  apk_Id :: string
  apk_Name :: string
  apk_KeyHash :: string
  apk_CreatedAt :: time
  apk_UpdatedAt :: time

record cohort =
  coh_OrgId :: string
  coh_Id :: string
  coh_Name :: string
  coh_Type :: string
  coh_Metadata :: metadata
  coh_CreatedAt :: time
  coh_UpdatedAt :: time

record customer_cohort =
  ccm_OrgId :: string
  ccm_CustomerId :: string
  ccm_CohortId :: string
  ccm_CohortValue :: string
  ccm_JoinedAt :: time
  ccm_CreatedAt :: time
  ccm_UpdatedAt :: time

record metadata_store =
  mds_OrgId :: string
  mds_ParentId :: string
  mds_ParentType :: string
  mds_Key :: string
  mds_Value :: string
  mds_Namespace :: string
  mds_CreatedAt :: time
  mds_UpdatedAt :: time

record psp_config =
  psp_OrgId :: string
  psp_Id :: string
  psp_PspId :: string
  psp_Name :: string
  psp_Active :: bool
  psp_Config :: metadata
  psp_EncryptedCredentials :: string
  psp_CreatedAt :: time
  psp_UpdatedAt :: time

end
