(* ===== verification/Dunning.thy ===== *)
theory Dunning
  imports Subscriptions
begin

text \<open>
  The dunning aggregates and the retry policy: src/internal/core/domain/dunning.go,
  dunning_config.go and dunning_input.go.  Values of type any are kept as text; the
  JSON blob that holds a policy is a value that either decodes to a policy or does
  not (encoding and decoding are the standard library's, and what was encoded from a
  policy decodes to it).
\<close>

section \<open>Policy\<close>

record retries_config =
  rcf_Enabled :: bool
  rcf_MaxAttempts :: int
  rcf_Intervals :: "string list"
  rcf_FailureTypes :: "string list"

record escalation_rules =
  esc_SuspendAfterAttempt :: int
  esc_FinalNoticeAttempt :: int
  esc_CancelAfterAttempt :: int

record channel_config =
  chn_Enabled :: bool
  chn_Templates :: metadata
  chn_StartAfterAttempt :: int

record token_settings =
  tks_DefaultMaxUses :: int
  tks_DefaultExpiryHours :: int

record dunning_config =
  dcf_ImmediateRetries :: retries_config
  dcf_ProgressiveRetries :: retries_config
  dcf_EscalationRules :: escalation_rules
  dcf_Channels :: "string \<rightharpoonup> channel_config"
  dcf_TokenSettings :: token_settings

definition DefaultDunningConfig :: dunning_config where
  "DefaultDunningConfig =
    \<lparr> dcf_ImmediateRetries = \<lparr> rcf_Enabled = True, rcf_MaxAttempts = 3,
        rcf_Intervals = [''2m'', ''10m'', ''30m''],
        rcf_FailureTypes = [''api_timeout'', ''gateway_error'', ''processing_error'', ''rate_limit'',
                            ''network_error''] \<rparr>,
      dcf_ProgressiveRetries = \<lparr> rcf_Enabled = True, rcf_MaxAttempts = 5,
        rcf_Intervals = [''3d'', ''4d'', ''7d'', ''14d'', ''30d''],
        rcf_FailureTypes = [''card_declined'', ''insufficient_funds'', ''expired_card'', ''do_not_honor'',
                            ''generic_decline''] \<rparr>,
      dcf_EscalationRules = \<lparr> esc_SuspendAfterAttempt = 3, esc_FinalNoticeAttempt = 4,
        esc_CancelAfterAttempt = 5 \<rparr>,
      dcf_Channels =
        [''email'' \<mapsto> \<lparr> chn_Enabled = True,
            chn_Templates = [''attempt_1'' \<mapsto> ''dunning_gentle_reminder'',
                             ''attempt_2'' \<mapsto> ''dunning_payment_failed'',
                             ''attempt_3'' \<mapsto> ''dunning_urgent_notice'',
                             ''attempt_4'' \<mapsto> ''dunning_final_notice''],
            chn_StartAfterAttempt = 0 \<rparr>,
         ''sms'' \<mapsto> \<lparr> chn_Enabled = True,
            chn_Templates = [''attempt_3'' \<mapsto> ''dunning_sms_urgent'', ''attempt_4'' \<mapsto> ''dunning_sms_final''],
            chn_StartAfterAttempt = 3 \<rparr>],
      dcf_TokenSettings = \<lparr> tks_DefaultMaxUses = 5, tks_DefaultExpiryHours = 72 \<rparr> \<rparr>"

datatype config_blob = NoConfig | ConfigOf dunning_config | Undecodable string

definition configToMap :: "dunning_config \<Rightarrow> config_blob" where
  "configToMap c = ConfigOf c"

text \<open>An empty JSON object decodes to the zero policy.\<close>

definition zero_retries :: retries_config where
  "zero_retries = \<lparr> rcf_Enabled = False, rcf_MaxAttempts = 0, rcf_Intervals = [], rcf_FailureTypes = [] \<rparr>"

definition zero_config :: dunning_config where
  "zero_config = \<lparr> dcf_ImmediateRetries = zero_retries, dcf_ProgressiveRetries = zero_retries,
     dcf_EscalationRules = \<lparr> esc_SuspendAfterAttempt = 0, esc_FinalNoticeAttempt = 0, esc_CancelAfterAttempt = 0 \<rparr>,
     dcf_Channels = Map.empty, dcf_TokenSettings = \<lparr> tks_DefaultMaxUses = 0, tks_DefaultExpiryHours = 0 \<rparr> \<rparr>"

definition configFromMap :: "config_blob \<Rightarrow> dunning_config res" where
  "configFromMap b = (case b of
     NoConfig \<Rightarrow> Inr zero_config
   | ConfigOf c \<Rightarrow> Inr c
   | Undecodable e \<Rightarrow> Inl (WrapError ''unmarshal config'' (InfraError e)))"

section \<open>Aggregates\<close>

datatype dunning_status =
    DunningStatusActive | DunningStatusPaused | DunningStatusRecovered | DunningStatusFailed
  | DunningStatusCancelled | DunningStatusExpired | DunningStatusOther string

datatype dunning_attempt_type =
    DunningAttemptTypeImmediate | DunningAttemptTypeProgressive | DunningAttemptTypeManual
  | DunningAttemptTypeTriggered | DunningAttemptTypeOther string

datatype communication_status =
    CommunicationStatusPending | CommunicationStatusSent | CommunicationStatusDelivered
  | CommunicationStatusFailed | CommunicationStatusBounced | CommunicationStatusOther string

datatype token_status =
    TokenStatusActive | TokenStatusExpired | TokenStatusRevoked | TokenStatusMaxUsesReached
  | TokenStatusOther string

datatype dunning_config_scope =
    DunningConfigScopeOrganization | DunningConfigScopeCustomerSegment
  | DunningConfigScopeSubscriptionTier | DunningConfigScopeCustomer | DunningConfigScopeAbTest
  | DunningConfigScopeOther string

datatype config_status =
    ConfigStatusActive | ConfigStatusInactive | ConfigStatusArchived | ConfigStatusOther string

record dunning_campaign =
  cmp_OrgId :: string
  cmp_Id :: string
  cmp_SubscriptionId :: string
  cmp_CustomerId :: string
  cmp_WorkflowId :: string
  cmp_WorkflowRunId :: string
  cmp_ParentWorkflowId :: string
  cmp_Status :: dunning_status
  cmp_FailedAmount :: int
  cmp_Currency :: string
  cmp_InitialFailureReason :: string
  cmp_TotalAttempts :: int
  cmp_ImmediateAttempts :: int
  cmp_ProgressiveAttempts :: int
  cmp_StartedAt :: time
  cmp_LastAttemptAt :: time
  cmp_NextAttemptAt :: time
  cmp_CompletedAt :: time
  cmp_RecoveryMethod :: string
  cmp_RecoveredAmount :: int
  cmp_RecoveredAt :: time
  cmp_FinalFailureReason :: string
  cmp_ConfigSnapshot :: config_blob
  cmp_Metadata :: metadata
  cmp_CreatedAt :: time
  cmp_UpdatedAt :: time

record dunning_attempt =
  att_OrgId :: string
  att_Id :: string
  att_DunningCampaignId :: string
  att_SubscriptionId :: string
  att_AttemptNumber :: int
  att_AttemptType :: dunning_attempt_type
  att_Amount :: int
  att_Currency :: string
  att_PaymentMethodId :: string
  att_Status :: payment_status
  att_FailureReason :: string
  att_FailureCode :: string
  att_ProcessorResponse :: string
  att_ProcessingTimeMs :: int
  att_AttemptedAt :: time
  att_CompletedAt :: time
  att_TriggeredBy :: string
  att_Metadata :: metadata
  att_CreatedAt :: time

text \<open>The map stored beside a token.\<close>

record token_data =
  tkd_ExpiresAt :: string
  tkd_MaxUses :: int
  tkd_AllowedActions :: "string \<rightharpoonup> bool"

record payment_update_token =
  tok_OrgId :: string
  tok_TokenId :: string
  tok_SubscriptionId :: string
  tok_CustomerId :: string
  tok_DunningCampaignId :: string
  tok_TokenData :: token_data
  tok_Signature :: string
  tok_ExpiresAt :: time
  tok_MaxUses :: int
  tok_UsedCount :: int
  tok_Status :: token_status
  tok_AllowedActions :: "string \<rightharpoonup> bool"
  tok_AdminGenerated :: bool
  tok_AdminUserId :: string
  tok_AdminReason :: string
  tok_AdminNotes :: string
  tok_CreatedBy :: string
  tok_CreatedAt :: time
  tok_LastUsedAt :: time
  tok_LastUsedIp :: string

record dunning_configuration =
  dcn_OrgId :: string
  dcn_Id :: string
  dcn_Name :: string
  dcn_Description :: string
  dcn_Priority :: int
  dcn_AppliesTo :: dunning_config_scope
  dcn_TargetRules :: metadata
  dcn_Config :: config_blob
  dcn_Status :: config_status
  dcn_IsAbTest :: bool
  dcn_AbTestPercentage :: rat
  dcn_CreatedBy :: string
  dcn_CreatedAt :: time
  dcn_UpdatedAt :: time

record dunning_attempt_context =
  dac_AttemptNumber :: int
  dac_WasSubscriptionSuspended :: bool

end
