(* ===== verification/Usage_Intervals.thy ===== *)
theory Usage_Intervals
  imports Decimal_Lib Go_Time "HOL-Library.List_Lexorder" "HOL-Library.Char_ord" "HOL-Library.Product_Lexorder"
begin

text \<open>
  Usage events and the readings of a carry-over meter:
  src/internal/core/domain/meter_event.go and usage_interval.go.  Events are
  replayed into intervals of activity; the readings count the intervals that
  stand at the end, at the peak, at any time, or weigh them by time.  The
  lemmas show that at each instant an identity is covered by one interval if its
  last operation was an addition and by none otherwise, and that the sweep over
  interval ends finds the maximum over all instants.

  Strings are ordered byte by byte as in Go.  The source sorts the result with
  the unstable sort.Slice; intervals that agree on identity and start are in
  insertion order here.
\<close>

section \<open>Data\<close>

record 'd meter_event =
  mev_OrgId :: string
  mev_Id :: string
  mev_CustomerId :: string
  mev_ExternalCustomerId :: string
  mev_MetricCode :: string
  mev_SubscriptionId :: string
  mev_ExternalId :: string
  mev_Metadata :: metadata
  mev_Value :: 'd
  mev_Timestamp :: time
  mev_CreatedAt :: time

definition UsageOperationKey :: string where "UsageOperationKey = ''operation''"
definition UsageOperationAdd :: string where "UsageOperationAdd = ''add''"
definition UsageOperationRemove :: string where "UsageOperationRemove = ''remove''"

record usage_interval =
  ivl_Identity :: string
  ivl_From :: time
  ivl_To :: time

section \<open>Replaying events\<close>

definition HasOperations :: "'d meter_event list \<Rightarrow> bool" where
  "HasOperations events = list_ex (\<lambda>e. sget (mev_Metadata e) UsageOperationKey \<noteq> []) events"

definition sortedByTimestamp :: "'d meter_event list \<Rightarrow> 'd meter_event list" where
  "sortedByTimestamp events = sort_key mev_Timestamp events"

text \<open>The map of open identities, in insertion order; the source ranges over it at the
  end and sorts what it collects.\<close>

definition replay_step ::
    "string \<Rightarrow> 'd meter_event \<Rightarrow> (string \<times> time) list \<times> usage_interval list
      \<Rightarrow> (string \<times> time) list \<times> usage_interval list" where
  "replay_step fieldName e st =
    (case st of (opn, out) \<Rightarrow>
       let ident = sget (mev_Metadata e) fieldName; op = sget (mev_Metadata e) UsageOperationKey in
       if ident = [] then (opn, out)
       else if op = UsageOperationAdd then
         (case map_of opn ident of None \<Rightarrow> (opn @ [(ident, mev_Timestamp e)], out) | Some _ \<Rightarrow> (opn, out))
       else if op = UsageOperationRemove then
         (case map_of opn ident of
            Some from \<Rightarrow> (filter (\<lambda>p. fst p \<noteq> ident) opn,
              out @ [\<lparr> ivl_Identity = ident, ivl_From = from, ivl_To = mev_Timestamp e \<rparr>])
          | None \<Rightarrow> (opn, out))
       else (opn, out))"

definition ReconstructIntervals :: "'d meter_event list \<Rightarrow> string \<Rightarrow> usage_interval list" where
  "ReconstructIntervals events fieldName =
    (let (opn, out) = fold (replay_step fieldName) (sortedByTimestamp events) ([], [])
     in sort_key (\<lambda>iv. (ivl_Identity iv, ivl_From iv))
          (out @ map (\<lambda>(ident, from). \<lparr> ivl_Identity = ident, ivl_From = from, ivl_To = 0 \<rparr>) opn))"

section \<open>Readings over intervals\<close>

definition overlaps :: "usage_interval \<Rightarrow> time \<Rightarrow> time \<Rightarrow> bool" where
  "overlaps iv from to \<longleftrightarrow> ivl_From iv < to \<and> (IsZero (ivl_To iv) \<or> from < ivl_To iv)"

definition CountStandingAtEnd :: "usage_interval list \<Rightarrow> time \<Rightarrow> int" where
  "CountStandingAtEnd ivs to =
    int (length (filter (\<lambda>iv. ivl_From iv < to \<and> (IsZero (ivl_To iv) \<or> \<not> ivl_To iv < to)) ivs))"

definition clip_start :: "usage_interval \<Rightarrow> time \<Rightarrow> time" where
  "clip_start iv from = (if ivl_From iv < from then from else ivl_From iv)"

definition clip_end :: "usage_interval \<Rightarrow> time \<Rightarrow> time" where
  "clip_end iv to = (if IsZero (ivl_To iv) \<or> to < ivl_To iv then to else ivl_To iv)"

definition interval_edges :: "usage_interval list \<Rightarrow> time \<Rightarrow> time \<Rightarrow> (time \<times> int) list" where
  "interval_edges ivs from to =
    concat (map (\<lambda>iv. [(clip_start iv from, 1), (clip_end iv to, -1)]) (filter (\<lambda>iv. overlaps iv from to) ivs))"

definition sweep_step :: "time \<times> int \<Rightarrow> int \<times> int \<Rightarrow> int \<times> int" where
  "sweep_step e st = (case st of (depth, peak) \<Rightarrow>
     let d = add64 depth (snd e) in (d, if peak < d then d else peak))"

definition CountPeakConcurrent :: "usage_interval list \<Rightarrow> time \<Rightarrow> time \<Rightarrow> int" where
  "CountPeakConcurrent ivs from to =
    snd (fold sweep_step (sort_key (\<lambda>e. e) (interval_edges ivs from to)) (0, 0))"

definition CountDistinctActive :: "usage_interval list \<Rightarrow> time \<Rightarrow> time \<Rightarrow> int" where
  "CountDistinctActive ivs from to =
    int (length (remdups (map ivl_Identity (filter (\<lambda>iv. overlaps iv from to) ivs))))"

definition timeFraction :: "'d decimal_ops \<Rightarrow> duration \<Rightarrow> duration \<Rightarrow> 'd" where
  "timeFraction D d period = d_div D (d_of_int D d) (d_of_int D period)"

definition weight_span :: "usage_interval \<Rightarrow> time \<Rightarrow> time \<Rightarrow> bool \<Rightarrow> bool \<Rightarrow> duration" where
  "weight_span iv from to prorateOnIncrease creditOnDecrease =
    (let start = (if prorateOnIncrease \<and> from < ivl_From iv then ivl_From iv else from);
         fin = (if creditOnDecrease \<and> \<not> IsZero (ivl_To iv) \<and> ivl_To iv < to then ivl_To iv else to)
     in time_Sub fin start)"

definition WeightIntervals ::
    "'d decimal_ops \<Rightarrow> usage_interval list \<Rightarrow> time \<Rightarrow> time \<Rightarrow> bool \<Rightarrow> bool \<Rightarrow> 'd" where
  "WeightIntervals D ivs from to prorateOnIncrease creditOnDecrease =
    (let period = time_Sub to from in
     if period \<le> 0 then d_zero D
     else fold (\<lambda>iv tot.
            if \<not> overlaps iv from to then tot
            else let d = weight_span iv from to prorateOnIncrease creditOnDecrease in
              if 0 < d then d_add D tot (timeFraction D d period) else tot)
          ivs (d_zero D))"

section \<open>Readings over level reports\<close>

definition LastReportedLevel :: "'d decimal_ops \<Rightarrow> 'd meter_event list \<Rightarrow> 'd" where
  "LastReportedLevel D events =
    (let sorted = sortedByTimestamp events in
     if sorted = [] then d_zero D else mev_Value (last sorted))"

definition peak_step ::
    "'d decimal_ops \<Rightarrow> time \<Rightarrow> time \<Rightarrow> 'd meter_event \<Rightarrow> 'd \<times> 'd \<Rightarrow> 'd \<times> 'd" where
  "peak_step D from to e st = (case st of (peak, standing) \<Rightarrow>
     if to < mev_Timestamp e \<or> mev_Timestamp e = to then (peak, standing)
     else if from < mev_Timestamp e then (if d_gt D (mev_Value e) peak then mev_Value e else peak, standing)
     else (peak, mev_Value e))"

definition PeakReportedLevel :: "'d decimal_ops \<Rightarrow> 'd meter_event list \<Rightarrow> time \<Rightarrow> time \<Rightarrow> 'd" where
  "PeakReportedLevel D events from to =
    (let (peak, standing) = fold (peak_step D from to) (sortedByTimestamp events) (d_zero D, d_zero D)
     in if d_gt D standing peak then standing else peak)"

definition level_step ::
    "'d decimal_ops \<Rightarrow> time \<Rightarrow> time \<Rightarrow> duration \<Rightarrow> 'd meter_event \<Rightarrow> 'd \<times> time \<times> 'd \<Rightarrow> 'd \<times> time \<times> 'd" where
  "level_step D from to period e st = (case st of (level, cursor, tot) \<Rightarrow>
     if \<not> from < mev_Timestamp e then (mev_Value e, cursor, tot)
     else if mev_Timestamp e < to then
       (mev_Value e, mev_Timestamp e,
        d_add D tot (d_mul D level (timeFraction D (time_Sub (mev_Timestamp e) cursor) period)))
     else (level, cursor, tot))"

definition WeightReportedLevels :: "'d decimal_ops \<Rightarrow> 'd meter_event list \<Rightarrow> time \<Rightarrow> time \<Rightarrow> 'd" where
  "WeightReportedLevels D events from to =
    (let period = time_Sub to from in
     if period \<le> 0 then d_zero D
     else let (level, cursor, tot) =
            fold (level_step D from to period) (sortedByTimestamp events) (d_zero D, from, d_zero D)
       in d_add D tot (d_mul D level (timeFraction D (time_Sub to cursor) period)))"

section \<open>Lemmas: the replay\<close>

definition covers :: "usage_interval \<Rightarrow> string \<Rightarrow> time \<Rightarrow> bool" where
  "covers iv ident t \<longleftrightarrow> ivl_Identity iv = ident \<and> ivl_From iv \<le> t \<and> (IsZero (ivl_To iv) \<or> t < ivl_To iv)"

text \<open>The reference: the last known operation of the identity up to the instant.\<close>

definition ops_until :: "string \<Rightarrow> 'd meter_event list \<Rightarrow> string \<Rightarrow> time \<Rightarrow> string list" where
  "ops_until fieldName es ident t =
    map (\<lambda>e. sget (mev_Metadata e) UsageOperationKey)
      (filter (\<lambda>e. sget (mev_Metadata e) fieldName = ident \<and> mev_Timestamp e \<le> t \<and>
          sget (mev_Metadata e) UsageOperationKey \<in> {UsageOperationAdd, UsageOperationRemove}) es)"

definition standing :: "string \<Rightarrow> 'd meter_event list \<Rightarrow> string \<Rightarrow> time \<Rightarrow> bool" where
  "standing fieldName es ident t \<longleftrightarrow>
     (let ops = ops_until fieldName es ident t in ops \<noteq> [] \<and> last ops = UsageOperationAdd)"

definition open_ivls :: "(string \<times> time) list \<Rightarrow> usage_interval list" where
  "open_ivls opn = map (\<lambda>(ident, from). \<lparr> ivl_Identity = ident, ivl_From = from, ivl_To = 0 \<rparr>) opn"

definition cover_count :: "usage_interval list \<Rightarrow> string \<Rightarrow> time \<Rightarrow> nat" where
  "cover_count ivs ident t = length (filter (\<lambda>iv. covers iv ident t) ivs)"

lemma cover_count_append [simp]: "cover_count (xs @ ys) i t = cover_count xs i t + cover_count ys i t"
  by (simp add: cover_count_def)

lemma cover_count_Nil [simp]: "cover_count [] i t = 0"
  by (simp add: cover_count_def)

lemma cover_count_single: "cover_count [iv] i t = (if covers iv i t then 1 else 0)"
  by (simp add: cover_count_def)

lemma cover_count_open:
  "distinct (map fst opn) \<Longrightarrow> cover_count (open_ivls opn) i t =
    (case map_of opn i of None \<Rightarrow> 0 | Some f \<Rightarrow> if f \<le> t then 1 else 0)"
proof (induction opn)
  case (Cons p opn)
  have split: "cover_count (open_ivls (p # opn)) i t =
      (if fst p = i \<and> snd p \<le> t then 1 else 0) + cover_count (open_ivls opn) i t"
    by (simp add: cover_count_def open_ivls_def covers_def IsZero_def split: prod.split)
  show ?case
  proof (cases "fst p = i")
    case True
    then have "map_of opn i = None" using Cons.prems by (auto simp: map_of_eq_None_iff)
    then show ?thesis using Cons True split by (cases p) simp
  next
    case False
    then show ?thesis using Cons split by (cases p) simp
  qed
qed (simp add: open_ivls_def)

lemma map_of_filter_ne: "map_of (filter (\<lambda>p. fst p \<noteq> k) xs) i = (if i = k then None else map_of xs i)"
  by (induction xs) auto

definition replay_inv ::
    "string \<Rightarrow> 'd meter_event list \<Rightarrow> time \<Rightarrow> (string \<times> time) list \<times> usage_interval list \<Rightarrow> bool" where
  "replay_inv fieldName P T st \<longleftrightarrow>
     distinct (map fst (fst st)) \<and> (\<forall>p\<in>set (fst st). snd p \<le> T) \<and>
     (\<forall>iv\<in>set (snd st). ivl_To iv \<noteq> 0 \<and> ivl_From iv \<le> ivl_To iv \<and> ivl_To iv \<le> T) \<and>
     (\<forall>i t. i \<noteq> [] \<longrightarrow> cover_count (snd st @ open_ivls (fst st)) i t = (if standing fieldName P i t then 1 else 0))"

lemma replay_invI:
  assumes "distinct (map fst opn)" "\<forall>p\<in>set opn. snd p \<le> T"
    "\<forall>iv\<in>set out. ivl_To iv \<noteq> 0 \<and> ivl_From iv \<le> ivl_To iv \<and> ivl_To iv \<le> T"
    "\<And>i t. i \<noteq> [] \<Longrightarrow> cover_count out i t + cover_count (open_ivls opn) i t = (if standing f P i t then 1 else 0)"
  shows "replay_inv f P T (opn, out)"
  using assms by (simp add: replay_inv_def)

lemma cover_count_past:
  assumes "\<forall>iv\<in>set out. ivl_To iv \<noteq> 0 \<and> ivl_From iv \<le> ivl_To iv \<and> ivl_To iv \<le> T" "T \<le> t"
  shows "cover_count out i t = 0"
  using assms by (fastforce simp: cover_count_def covers_def IsZero_def filter_empty_conv)

lemma standing_snoc:
  "standing f (P @ [e]) i t =
    (if sget (mev_Metadata e) f = i \<and> mev_Timestamp e \<le> t \<and>
        sget (mev_Metadata e) UsageOperationKey \<in> {UsageOperationAdd, UsageOperationRemove}
     then sget (mev_Metadata e) UsageOperationKey = UsageOperationAdd else standing f P i t)"
  by (auto simp: standing_def ops_until_def Let_def)

lemma op_names: "UsageOperationAdd \<noteq> UsageOperationRemove"
  by (simp add: UsageOperationAdd_def UsageOperationRemove_def)

text \<open>Whether an identity is open is whether it is standing from then on.\<close>

lemma replay_inv_open:
  assumes inv: "replay_inv f P T (opn, out)" and i: "i \<noteq> []" and t: "T \<le> t"
  shows "standing f P i t \<longleftrightarrow> map_of opn i \<noteq> None"
proof -
  have "cover_count out i t = 0" using inv t by (intro cover_count_past[of out T]) (simp_all add: replay_inv_def)
  moreover have "cover_count (out @ open_ivls opn) i t = (if standing f P i t then 1 else 0)"
    using inv i by (auto simp only: replay_inv_def fst_conv snd_conv)
  ultimately have "cover_count (open_ivls opn) i t = (if standing f P i t then 1 else 0)" by simp
  moreover have "distinct (map fst opn)" "\<forall>p\<in>set opn. snd p \<le> T" using inv by (simp_all add: replay_inv_def)
  moreover from this(2) have "\<forall>g. map_of opn i = Some g \<longrightarrow> g \<le> t" using t by (fastforce dest: map_of_SomeD)
  ultimately show ?thesis by (auto simp: cover_count_open split: option.splits if_splits)
qed

lemma replay_add:
  assumes inv: "replay_inv f P T (opn, out)" and T: "T \<le> mev_Timestamp e"
    and ident: "sget (mev_Metadata e) f = ident" "ident \<noteq> []"
    and op: "sget (mev_Metadata e) UsageOperationKey = UsageOperationAdd"
  shows "replay_inv f (P @ [e]) (mev_Timestamp e)
    (case map_of opn ident of None \<Rightarrow> opn @ [(ident, mev_Timestamp e)] | Some _ \<Rightarrow> opn, out)"
proof -
  let ?ts = "mev_Timestamp e"
  have base: "distinct (map fst opn)" "\<forall>p\<in>set opn. snd p \<le> ?ts"
    "\<forall>iv\<in>set out. ivl_To iv \<noteq> 0 \<and> ivl_From iv \<le> ivl_To iv \<and> ivl_To iv \<le> ?ts"
    "\<And>i t. i \<noteq> [] \<Longrightarrow> cover_count out i t + cover_count (open_ivls opn) i t = (if standing f P i t then 1 else 0)"
    using inv T by (auto simp: replay_inv_def)
  note snoc = standing_snoc[of f P e, unfolded ident(1) op, simplified]
  show ?thesis
  proof (cases "map_of opn ident")
    case None
    have d: "distinct (map fst (opn @ [(ident, ?ts)]))"
      using base(1) None by (auto simp: map_of_eq_None_iff)
    have "cover_count out i t + cover_count (open_ivls (opn @ [(ident, ?ts)])) i t =
        (if standing f (P @ [e]) i t then 1 else 0)" if "i \<noteq> []" for i t
    proof -
      have n: "cover_count (open_ivls (opn @ [(ident, ?ts)])) i t =
          cover_count (open_ivls opn) i t + (if i = ident \<and> ?ts \<le> t then 1 else 0)"
        by (auto simp: open_ivls_def cover_count_single covers_def IsZero_def)
      have "\<not> standing f P i t" if "i = ident" "?ts \<le> t"
        using replay_inv_open[OF inv, of i t] that \<open>i \<noteq> []\<close> T None by simp
      then show ?thesis using base(4)[OF that, of t] by (auto simp: n snoc)
    qed
    then have "replay_inv f (P @ [e]) ?ts (opn @ [(ident, ?ts)], out)"
      using base d by (intro replay_invI) auto
    then show ?thesis using None by simp
  next
    case (Some g)
    have "standing f (P @ [e]) i t = standing f P i t" if "i \<noteq> []" for i t
      using replay_inv_open[OF inv that, of t] Some T by (auto simp: snoc)
    then have "replay_inv f (P @ [e]) ?ts (opn, out)" using base by (intro replay_invI) auto
    then show ?thesis using Some by simp
  qed
qed

lemma replay_remove:
  assumes inv: "replay_inv f P T (opn, out)" and T: "T \<le> mev_Timestamp e" "0 < mev_Timestamp e"
    and ident: "sget (mev_Metadata e) f = ident" "ident \<noteq> []"
    and op: "sget (mev_Metadata e) UsageOperationKey = UsageOperationRemove"
  shows "replay_inv f (P @ [e]) (mev_Timestamp e)
    (case map_of opn ident of
       Some from \<Rightarrow> (filter (\<lambda>p. fst p \<noteq> ident) opn,
         out @ [\<lparr> ivl_Identity = ident, ivl_From = from, ivl_To = mev_Timestamp e \<rparr>])
     | None \<Rightarrow> (opn, out))"
proof -
  let ?ts = "mev_Timestamp e"
  have base: "distinct (map fst opn)" "\<forall>p\<in>set opn. snd p \<le> ?ts"
    "\<forall>iv\<in>set out. ivl_To iv \<noteq> 0 \<and> ivl_From iv \<le> ivl_To iv \<and> ivl_To iv \<le> ?ts"
    "\<And>i t. i \<noteq> [] \<Longrightarrow> cover_count out i t + cover_count (open_ivls opn) i t = (if standing f P i t then 1 else 0)"
    using inv T by (auto simp: replay_inv_def)
  note snoc = standing_snoc[of f P e, unfolded ident(1) op, simplified op_names[symmetric], simplified]
  show ?thesis
  proof (cases "map_of opn ident")
    case None
    have "standing f (P @ [e]) i t = standing f P i t" if "i \<noteq> []" for i t
      using replay_inv_open[OF inv that, of t] None T op_names by (auto simp: standing_snoc ident op)
    then have "replay_inv f (P @ [e]) ?ts (opn, out)" using base by (intro replay_invI) auto
    then show ?thesis using None by simp
  next
    case (Some g)
    let ?opn = "filter (\<lambda>p. fst p \<noteq> ident) opn" and ?iv = "\<lparr> ivl_Identity = ident, ivl_From = g, ivl_To = ?ts \<rparr>"
    have d: "distinct (map fst ?opn)" using base(1) by (rule distinct_map_filter)
    have g: "g \<le> ?ts" using base(2) map_of_SomeD[OF Some] by auto
    have "cover_count out i t + cover_count [?iv] i t + cover_count (open_ivls ?opn) i t =
        (if standing f (P @ [e]) i t then 1 else 0)" if i: "i \<noteq> []" for i t
    proof (cases "i = ident")
      case True
      have "cover_count (open_ivls opn) i t = (if g \<le> t then 1 else 0)"
        using Some True by (simp add: cover_count_open[OF base(1)])
      moreover have "cover_count (open_ivls ?opn) i t = 0"
        using True by (simp add: cover_count_open[OF d] map_of_filter_ne)
      moreover have "cover_count out i t = 0" if "?ts \<le> t" by (rule cover_count_past[OF base(3) that])
      ultimately show ?thesis using base(4)[OF i, of t] True T g op_names
        by (auto simp: standing_snoc ident op cover_count_single covers_def IsZero_def split: if_splits)
    next
      case False
      then have "cover_count (open_ivls ?opn) i t = cover_count (open_ivls opn) i t"
        by (simp add: cover_count_open[OF d] cover_count_open[OF base(1)] map_of_filter_ne)
      then show ?thesis using False base(4)[OF i, of t]
        by (simp add: standing_snoc ident cover_count_single covers_def)
    qed
    then have "replay_inv f (P @ [e]) ?ts (?opn, out @ [?iv])"
      using base(2,3) d T g by (intro replay_invI) auto
    then show ?thesis using Some by simp
  qed
qed

lemma replay_step_inv:
  assumes inv: "replay_inv f P T st" and T: "T \<le> mev_Timestamp e" "0 < mev_Timestamp e"
  shows "replay_inv f (P @ [e]) (mev_Timestamp e) (replay_step f e st)"
proof -
  obtain opn out where st: "st = (opn, out)" by (cases st)
  let ?ident = "sget (mev_Metadata e) f" and ?op = "sget (mev_Metadata e) UsageOperationKey"
  consider "?ident \<noteq> []" "?op = UsageOperationAdd" | "?ident \<noteq> []" "?op = UsageOperationRemove"
    | "?ident = [] \<or> ?op \<notin> {UsageOperationAdd, UsageOperationRemove}" by auto
  then show ?thesis
  proof cases
    case 1
    have "replay_step f e st = (case map_of opn ?ident of None \<Rightarrow> opn @ [(?ident, mev_Timestamp e)] | Some _ \<Rightarrow> opn, out)"
      using 1 by (simp add: replay_step_def st Let_def split: option.split)
    then show ?thesis using replay_add[OF inv[unfolded st] T(1) refl 1] by (simp only:)
  next
    case 2
    have "replay_step f e st = (case map_of opn ?ident of
       Some from \<Rightarrow> (filter (\<lambda>p. fst p \<noteq> ?ident) opn,
         out @ [\<lparr> ivl_Identity = ?ident, ivl_From = from, ivl_To = mev_Timestamp e \<rparr>])
     | None \<Rightarrow> (opn, out))"
      using 2 op_names by (simp add: replay_step_def st Let_def split: option.split)
    then show ?thesis using replay_remove[OF inv[unfolded st] T refl 2] by (simp only:)
  next
    case 3
    then have "replay_step f e st = (opn, out)" by (auto simp: replay_step_def st Let_def)
    moreover have "standing f (P @ [e]) i t = standing f P i t" if "i \<noteq> []" for i t
      using 3 that by (auto simp: standing_snoc)
    then have "replay_inv f (P @ [e]) (mev_Timestamp e) (opn, out)"
      using inv[unfolded st] T(1) by (intro replay_invI) (auto simp: replay_inv_def)
    ultimately show ?thesis by simp
  qed
qed

lemma replay_fold_inv:
  assumes "replay_inv f P T st" "sorted (map mev_Timestamp es)"
    "\<And>e. e \<in> set es \<Longrightarrow> T \<le> mev_Timestamp e \<and> 0 < mev_Timestamp e"
  shows "\<exists>T'. replay_inv f (P @ es) T' (fold (replay_step f) es st)"
  using assms
proof (induction es arbitrary: P T st)
  case (Cons e es)
  have "replay_inv f (P @ [e]) (mev_Timestamp e) (replay_step f e st)"
    using Cons.prems(3)[of e] by (intro replay_step_inv[OF Cons.prems(1)]) simp_all
  moreover have "\<And>e'. e' \<in> set es \<Longrightarrow> mev_Timestamp e \<le> mev_Timestamp e' \<and> 0 < mev_Timestamp e'"
    using Cons.prems(2,3) by auto
  ultimately show ?case using Cons.IH[of "P @ [e]"] Cons.prems(2) by simp
qed auto

lemma cover_count_sort: "cover_count (sort_key k ivs) i t = cover_count ivs i t"
proof -
  have "cover_count xs i t = size (filter_mset (\<lambda>iv. covers iv i t) (mset xs))" for xs
    by (simp add: cover_count_def flip: size_mset)
  then show ?thesis by simp
qed

lemma ReconstructIntervals_cover:
  assumes "\<And>e. e \<in> set events \<Longrightarrow> 0 < mev_Timestamp e"
  shows "i \<noteq> [] \<Longrightarrow> cover_count (ReconstructIntervals events f) i t =
      (if standing f (sortedByTimestamp events) i t then 1 else 0)"
    and "\<forall>iv\<in>set (ReconstructIntervals events f). ivl_To iv \<noteq> 0 \<longrightarrow> ivl_From iv \<le> ivl_To iv"
proof -
  obtain opn out where r: "fold (replay_step f) (sortedByTimestamp events) ([], []) = (opn, out)" by fastforce
  have "replay_inv f [] 0 ([], [])"
    by (rule replay_invI) (simp_all add: open_ivls_def standing_def ops_until_def)
  then obtain T where inv: "replay_inv f (sortedByTimestamp events) T (opn, out)"
    using replay_fold_inv[of f "[]" 0 "([], [])" "sortedByTimestamp events"] assms r
    by (fastforce simp: sortedByTimestamp_def)
  have R: "ReconstructIntervals events f = sort_key (\<lambda>iv. (ivl_Identity iv, ivl_From iv)) (out @ open_ivls opn)"
    by (simp add: ReconstructIntervals_def r open_ivls_def)
  show "i \<noteq> [] \<Longrightarrow> cover_count (ReconstructIntervals events f) i t =
      (if standing f (sortedByTimestamp events) i t then 1 else 0)"
    using inv by (simp add: R cover_count_sort replay_inv_def)
  show "\<forall>iv\<in>set (ReconstructIntervals events f). ivl_To iv \<noteq> 0 \<longrightarrow> ivl_From iv \<le> ivl_To iv"
    using inv by (auto simp: R replay_inv_def open_ivls_def)
qed

section \<open>Lemmas: the sweep\<close>

definition depth_at :: "(time \<times> int) list \<Rightarrow> time \<Rightarrow> int" where
  "depth_at es t = (\<Sum>e\<leftarrow>filter (\<lambda>e. fst e \<le> t) es. snd e)"

lemma depth_at_sort: "depth_at (sort_key k es) t = depth_at es t"
proof -
  have "mset (map snd (filter (\<lambda>e. fst e \<le> t) (sort_key k es))) = mset (map snd (filter (\<lambda>e. fst e \<le> t) es))"
    by (simp only: mset_map mset_filter mset_sort)
  then show ?thesis unfolding depth_at_def by (metis sum_mset_sum_list)
qed

lemma sweep_fold:
  assumes "\<And>e. e \<in> set es \<Longrightarrow> \<bar>snd e\<bar> \<le> 1" "\<bar>d\<bar> + int (length es) < 2 ^ 63"
  shows "p \<le> snd (fold sweep_step es (d, p)) \<and>
    (\<forall>k. 0 < k \<longrightarrow> k \<le> length es \<longrightarrow> d + (\<Sum>e\<leftarrow>take k es. snd e) \<le> snd (fold sweep_step es (d, p))) \<and>
    (snd (fold sweep_step es (d, p)) = p \<or>
      (\<exists>k. k \<le> length es \<and> snd (fold sweep_step es (d, p)) = d + (\<Sum>e\<leftarrow>take k es. snd e)))"
  using assms
proof (induction es arbitrary: d p)
  case (Cons e es)
  let ?d = "d + snd e" and ?p = "if p < d + snd e then d + snd e else p"
  have e: "\<bar>snd e\<bar> \<le> 1" using Cons.prems(1) by simp
  have "in64 ?d" using e Cons.prems(2) by (auto simp: in64_def)
  then have step: "fold sweep_step (e # es) (d, p) = fold sweep_step es (?d, ?p)"
    by (simp add: sweep_step_def Let_def add64_exact)
  have prem: "\<And>x. x \<in> set es \<Longrightarrow> \<bar>snd x\<bar> \<le> 1" using Cons.prems(1) by simp
  have len: "\<bar>?d\<bar> + int (length es) < 2 ^ 63" using e Cons.prems(2) by simp
  note all = Cons.IH[OF prem len, of ?p]
  have IH: "?p \<le> snd (fold sweep_step es (?d, ?p))"
    "\<And>k. 0 < k \<Longrightarrow> k \<le> length es \<Longrightarrow> ?d + (\<Sum>e\<leftarrow>take k es. snd e) \<le> snd (fold sweep_step es (?d, ?p))"
    "snd (fold sweep_step es (?d, ?p)) = ?p \<or>
      (\<exists>k. k \<le> length es \<and> snd (fold sweep_step es (?d, ?p)) = ?d + (\<Sum>e\<leftarrow>take k es. snd e))"
    using all by blast+
  have lower: "d + (\<Sum>x\<leftarrow>take k (e # es). snd x) \<le> snd (fold sweep_step es (?d, ?p))"
    if k: "0 < k" "k \<le> length (e # es)" for k
  proof -
    obtain k' where k': "k = Suc k'" using k(1) by (cases k) auto
    show ?thesis
    proof (cases "k' = 0")
      case True
      have "?d \<le> ?p" by simp
      then show ?thesis using IH(1) True by (simp add: k')
    next
      case False
      then show ?thesis using IH(2)[of k'] k(2) by (simp add: k' add.assoc)
    qed
  qed
  have upper: "snd (fold sweep_step es (?d, ?p)) = p \<or>
      (\<exists>k. k \<le> length (e # es) \<and> snd (fold sweep_step es (?d, ?p)) = d + (\<Sum>x\<leftarrow>take k (e # es). snd x))"
  proof (cases "snd (fold sweep_step es (?d, ?p)) = ?p")
    case True
    have "?p = p \<or> ?p = d + (\<Sum>x\<leftarrow>take 1 (e # es). snd x)" by simp
    then show ?thesis using True by (metis length_Cons le_add1 plus_1_eq_Suc)
  next
    case False
    then obtain k where "k \<le> length es"
      "snd (fold sweep_step es (?d, ?p)) = ?d + (\<Sum>e\<leftarrow>take k es. snd e)" using IH(3) by blast
    then show ?thesis by (intro disjI2 exI[of _ "Suc k"]) (simp add: add.assoc)
  qed
  have "p \<le> ?p" by simp
  then have "p \<le> snd (fold sweep_step es (?d, ?p))" using IH(1) by linarith
  then show ?case unfolding step using lower upper by blast
qed auto

text \<open>A prefix of the sorted edges never exceeds the depth at some start.\<close>

lemma prefix_le_depth:
  assumes "sorted es" "\<And>e. e \<in> set es \<Longrightarrow> snd e = 1 \<or> snd e = -1" "k \<le> length es"
  shows "(\<Sum>e\<leftarrow>take k es. snd e) \<le> 0 \<or>
    (\<exists>t. (t, 1) \<in> set es \<and> (\<Sum>e\<leftarrow>take k es. snd e) \<le> depth_at es t)"
  using assms(3)
proof (induction k)
  case (Suc k)
  let ?e = "es ! k" and ?S = "\<lambda>k. \<Sum>e\<leftarrow>take k es. snd e"
  have S: "?S (Suc k) = ?S k + snd ?e" using Suc.prems by (simp add: take_Suc_conv_app_nth)
  have mem: "?e \<in> set es" using Suc.prems by simp
  show ?case
  proof (cases "snd ?e = -1")
    case True
    then show ?thesis using Suc S by fastforce
  next
    case False
    then have one: "snd ?e = 1" using assms(2)[OF mem] by simp
    have split: "es = take (Suc k) es @ drop (Suc k) es" by simp
    have le: "fst x \<le> fst ?e" if "x \<in> set (take (Suc k) es)" for x
    proof -
      obtain j where "j \<le> k" "x = es ! j" using \<open>x \<in> set (take (Suc k) es)\<close> by (auto simp: in_set_conv_nth less_Suc_eq_le)
      then have "x \<le> ?e" using assms(1) Suc.prems by (auto intro!: sorted_nth_mono)
      then show ?thesis by (auto simp: less_eq_prod_def)
    qed
    have pos: "0 \<le> snd x" if x: "x \<in> set (drop (Suc k) es)" "fst x \<le> fst ?e" for x
    proof -
      obtain i where i: "i < length (drop (Suc k) es)" "x = drop (Suc k) es ! i"
        using x(1) by (metis in_set_conv_nth)
      then have "x = es ! (Suc k + i)" "Suc k + i < length es" by simp_all
      then have "?e \<le> x" using sorted_nth_mono[OF assms(1), of k "Suc k + i"] by simp
      then show ?thesis using x(2) one by (auto simp: less_eq_prod_def)
    qed
    have "depth_at es (fst ?e) = (\<Sum>e\<leftarrow>filter (\<lambda>e. fst e \<le> fst ?e) (take (Suc k) es @ drop (Suc k) es). snd e)"
      by (simp add: depth_at_def)
    also have "\<dots> = ?S (Suc k) + (\<Sum>e\<leftarrow>filter (\<lambda>e. fst e \<le> fst ?e) (drop (Suc k) es). snd e)"
      using le by (simp only: filter_append map_append sum_list_append) (simp add: filter_id_conv[THEN iffD2])
    finally have "?S (Suc k) \<le> depth_at es (fst ?e)"
      using pos sum_list_nonneg_map[of "filter (\<lambda>e. fst e \<le> fst ?e) (drop (Suc k) es)" snd] by auto
    moreover have "(fst ?e, 1) \<in> set es" using mem one by (metis prod.collapse)
    ultimately show ?thesis by blast
  qed
qed simp

lemma depth_is_prefix:
  fixes es :: "(time \<times> int) list"
  assumes "sorted es"
  shows "\<exists>k \<le> length es. depth_at es t = (\<Sum>e\<leftarrow>take k es. snd e)"
proof -
  have "sorted (map fst es)" using assms by (auto simp: sorted_iff_nth_mono less_eq_prod_def le_less)
  then have "filter (\<lambda>e. fst e \<le> t) es = takeWhile (\<lambda>e. fst e \<le> t) es"
  proof (induction es)
    case (Cons e es)
    show ?case
    proof (cases "fst e \<le> t")
      case False
      then have "filter (\<lambda>e. fst e \<le> t) es = []" using Cons.prems by (auto simp: filter_empty_conv)
      then show ?thesis using False by simp
    qed (use Cons in simp)
  qed simp
  then show ?thesis unfolding depth_at_def
    by (metis takeWhile_eq_take length_takeWhile_le)
qed

definition active_at :: "usage_interval list \<Rightarrow> time \<Rightarrow> int" where
  "active_at ivs t =
    int (length (filter (\<lambda>iv. ivl_From iv \<le> t \<and> (IsZero (ivl_To iv) \<or> t < ivl_To iv)) ivs))"

lemma interval_edges_Cons:
  "interval_edges (iv # ivs) from to =
    (if overlaps iv from to then [(clip_start iv from, 1), (clip_end iv to, -1)] else []) @ interval_edges ivs from to"
  by (simp add: interval_edges_def)

lemma depth_at_append: "depth_at (xs @ ys) t = depth_at xs t + depth_at ys t"
  by (simp add: depth_at_def)

text \<open>The depth after all edges up to an instant of the period is the number of intervals active there.\<close>

lemma depth_at_edges:
  assumes "from \<le> t" "t < to" "\<forall>iv\<in>set ivs. ivl_To iv \<noteq> 0 \<longrightarrow> ivl_From iv \<le> ivl_To iv"
  shows "depth_at (interval_edges ivs from to) t = active_at ivs t"
  using assms(3)
proof (induction ivs)
  case (Cons iv ivs)
  have "depth_at (if overlaps iv from to then [(clip_start iv from, 1), (clip_end iv to, -1)] else []) t =
      (if ivl_From iv \<le> t \<and> (IsZero (ivl_To iv) \<or> t < ivl_To iv) then 1 else 0)"
    using assms(1,2) Cons.prems
    by (auto simp: depth_at_def overlaps_def clip_start_def clip_end_def IsZero_def)
  then show ?case using Cons by (simp add: interval_edges_Cons depth_at_append active_at_def)
qed (simp add: interval_edges_def depth_at_def active_at_def)

lemma interval_edges_props:
  "e \<in> set (interval_edges ivs from to) \<Longrightarrow> snd e = 1 \<or> snd e = -1"
  "(t, 1) \<in> set (interval_edges ivs from to) \<Longrightarrow> from < to \<Longrightarrow> from \<le> t \<and> t < to"
  "length (interval_edges ivs from to) \<le> 2 * length ivs"
  by (auto simp: interval_edges_def overlaps_def clip_start_def sum_list_triv length_concat comp_def
      split: if_splits) (induction ivs; simp)

lemma peak_is_max:
  assumes period: "from < to" and wf: "\<forall>iv\<in>set ivs. ivl_To iv \<noteq> 0 \<longrightarrow> ivl_From iv \<le> ivl_To iv"
    and len: "int (length ivs) < 2 ^ 62"
  shows "(\<forall>t. from \<le> t \<and> t < to \<longrightarrow> active_at ivs t \<le> CountPeakConcurrent ivs from to) \<and>
    (CountPeakConcurrent ivs from to = 0 \<or>
      (\<exists>t. from \<le> t \<and> t < to \<and> active_at ivs t = CountPeakConcurrent ivs from to))"
proof -
  let ?es = "sort_key (\<lambda>e. e) (interval_edges ivs from to)"
  have srt: "sorted ?es" using sorted_sort_key[of "\<lambda>e. e" "interval_edges ivs from to"] by simp
  have e1: "snd e = 1 \<or> snd e = -1" if "e \<in> set ?es" for e using that interval_edges_props(1) by auto
  have unit: "\<And>e. e \<in> set ?es \<Longrightarrow> \<bar>snd e\<bar> \<le> 1" using e1 by fastforce
  have lens: "\<bar>0 :: int\<bar> + int (length ?es) < 2 ^ 63" using len interval_edges_props(3)[of ivs "from" to] by simp
  have depth: "depth_at ?es t = active_at ivs t" if "from \<le> t" "t < to" for t
    using depth_at_edges[OF that wf] by (simp add: depth_at_sort)
  have peak: "CountPeakConcurrent ivs from to = snd (fold sweep_step ?es (0, 0))"
    by (simp add: CountPeakConcurrent_def)
  note sw = sweep_fold[OF unit lens, where p = 0, folded peak]
  have upper: "active_at ivs t \<le> CountPeakConcurrent ivs from to" if t: "from \<le> t" "t < to" for t
  proof -
    obtain k where k: "k \<le> length ?es" "depth_at ?es t = (\<Sum>e\<leftarrow>take k ?es. snd e)"
      using depth_is_prefix[OF srt] by blast
    show ?thesis
    proof (cases "k = 0")
      case True
      then show ?thesis using sw depth[OF t] k(2) by simp
    next
      case False
      then have "0 + (\<Sum>e\<leftarrow>take k ?es. snd e) \<le> CountPeakConcurrent ivs from to" using sw k(1) by blast
      then show ?thesis using depth[OF t] k(2) by simp
    qed
  qed
  have "CountPeakConcurrent ivs from to = 0 \<or>
      (\<exists>t. from \<le> t \<and> t < to \<and> active_at ivs t = CountPeakConcurrent ivs from to)"
  proof (cases "CountPeakConcurrent ivs from to \<le> 0")
    case True
    then show ?thesis using sw by simp
  next
    case False
    then obtain k where k: "k \<le> length ?es" "CountPeakConcurrent ivs from to = (\<Sum>e\<leftarrow>take k ?es. snd e)"
      using sw by auto
    then obtain t where t: "(t, 1) \<in> set ?es" "CountPeakConcurrent ivs from to \<le> depth_at ?es t"
      using prefix_le_depth[OF srt e1 k(1)] False by auto
    then have "from \<le> t" "t < to" using interval_edges_props(2)[OF _ period] by auto
    then show ?thesis using t(2) depth upper by (metis order_antisym)
  qed
  then show ?thesis using upper by blast
qed

section \<open>Lemmas: the time-weighted reading\<close>

lemma weight_span_bounds:
  assumes "overlaps iv from to" "from < to" "to - from < 2 ^ 63"
  shows "weight_span iv from to pr cr \<le> to - from"
    "weight_span iv from to False False = to - from"
  using assms
  by (auto simp: weight_span_def overlaps_def Let_def IsZero_def time_Sub_def)

context decimal
begin

lemma timeFraction_unit:
  assumes "0 < d" "d \<le> p" "p < 2 ^ 63"
  shows "0 \<le> v (timeFraction D d p)" "v (timeFraction D d p) \<le> 1"
    and "d = p \<Longrightarrow> v (timeFraction D d p) = 1"
proof -
  have in64: "in64 d" "in64 p" using assms by (auto simp: in64_def)
  have f: "v (timeFraction D d p) = div16 (of_int d) (of_int p)"
    using assms in64 by (simp add: timeFraction_def)
  show lo: "0 \<le> v (timeFraction D d p)" using div16_ge[of 0 "of_int d" "of_int p"] assms by (simp add: f)
  show hi: "v (timeFraction D d p) \<le> 1" using div16_le[of "of_int d" "of_int p" 1] assms by (simp add: f)
  show "v (timeFraction D d p) = 1" if "d = p"
    using div16_ge[of 1 "of_int d" "of_int p"] hi f assms that by simp
qed

lemma weight_fold:
  assumes "from < to" "to - from < 2 ^ 63"
  shows "v tot \<le> v (fold (\<lambda>iv tot. if \<not> overlaps iv from to then tot
            else let d = weight_span iv from to pr cr in
              if 0 < d then d_add D tot (timeFraction D d (to - from)) else tot) ivs tot) \<and>
    v (fold (\<lambda>iv tot. if \<not> overlaps iv from to then tot
            else let d = weight_span iv from to pr cr in
              if 0 < d then d_add D tot (timeFraction D d (to - from)) else tot) ivs tot)
      \<le> v tot + of_nat (length (filter (\<lambda>iv. overlaps iv from to) ivs)) \<and>
    (\<not> pr \<and> \<not> cr \<longrightarrow> v (fold (\<lambda>iv tot. if \<not> overlaps iv from to then tot
            else let d = weight_span iv from to pr cr in
              if 0 < d then d_add D tot (timeFraction D d (to - from)) else tot) ivs tot)
      = v tot + of_nat (length (filter (\<lambda>iv. overlaps iv from to) ivs)))"
proof (induction ivs arbitrary: tot)
  case (Cons iv ivs)
  let ?f = "\<lambda>iv tot. if \<not> overlaps iv from to then tot
            else let d = weight_span iv from to pr cr in
              if 0 < d then d_add D tot (timeFraction D d (to - from)) else tot"
  have one: "v tot \<le> v (?f iv tot) \<and> v (?f iv tot) \<le> v tot + (if overlaps iv from to then 1 else 0) \<and>
      (\<not> pr \<and> \<not> cr \<longrightarrow> v (?f iv tot) = v tot + (if overlaps iv from to then 1 else 0))"
  proof (cases "overlaps iv from to")
    case True
    have "weight_span iv from to pr cr \<le> to - from" "weight_span iv from to False False = to - from"
      using weight_span_bounds[OF True assms] by simp_all
    then show ?thesis
      using True assms timeFraction_unit[of "weight_span iv from to pr cr" "to - from"]
      by (auto simp: Let_def)
  qed simp
  show ?case using Cons.IH[of "?f iv tot"] one by auto
qed simp

lemma WeightIntervals_bounds:
  assumes "from < to" "to - from < 2 ^ 63"
  shows "0 \<le> v (WeightIntervals D ivs from to pr cr)"
    "v (WeightIntervals D ivs from to pr cr) \<le> of_nat (length (filter (\<lambda>iv. overlaps iv from to) ivs))"
    "v (WeightIntervals D ivs from to False False) = of_nat (length (filter (\<lambda>iv. overlaps iv from to) ivs))"
proof -
  have p: "time_Sub to from = to - from" using assms by (simp add: time_Sub_exact in64_def)
  show "0 \<le> v (WeightIntervals D ivs from to pr cr)"
    "v (WeightIntervals D ivs from to pr cr) \<le> of_nat (length (filter (\<lambda>iv. overlaps iv from to) ivs))"
    using weight_fold[OF assms, where tot = "d_zero D" and pr = pr and cr = cr and ivs = ivs] assms(1)
    by (simp_all add: WeightIntervals_def p)
  show "v (WeightIntervals D ivs from to False False) = of_nat (length (filter (\<lambda>iv. overlaps iv from to) ivs))"
    using weight_fold[OF assms, where tot = "d_zero D" and pr = False and cr = False and ivs = ivs] assms(1)
    by (simp add: WeightIntervals_def p)
qed

end

section \<open>Sample data for the witnesses\<close>

definition sample_event :: "string \<Rightarrow> string \<Rightarrow> time \<Rightarrow> rat meter_event" where
  "sample_event ident op t = \<lparr> mev_OrgId = ''o'', mev_Id = ''e'', mev_CustomerId = ''u'',
     mev_ExternalCustomerId = [], mev_MetricCode = ''seats'', mev_SubscriptionId = [], mev_ExternalId = [],
     mev_Metadata = [''seat'' \<mapsto> ident, ''operation'' \<mapsto> op], mev_Value = 0, mev_Timestamp = t,
     mev_CreatedAt = t \<rparr>"

definition sample_ivls :: "usage_interval list" where
  "sample_ivls = [\<lparr> ivl_Identity = ''a'', ivl_From = 1, ivl_To = 5 \<rparr>,
                  \<lparr> ivl_Identity = ''b'', ivl_From = 3, ivl_To = 0 \<rparr>]"

section \<open>Properties\<close>

text \<open>C5: Replaying add and remove events, in whatever order they arrive, gives intervals
  in which at every instant a (non-empty) identity is covered exactly once if its last
  operation up to that instant (in time order) was an addition, and not at all otherwise.\<close>

theorem intervals_match_operations:
  assumes "\<forall>e\<in>set events. 0 < mev_Timestamp e" and "ident \<noteq> []"
  shows "cover_count (ReconstructIntervals events fieldName) ident t =
    (if standing fieldName (sortedByTimestamp events) ident t then 1 else 0)"
  using ReconstructIntervals_cover(1)[of events ident fieldName t] assms by simp

theorem intervals_match_operations_witness:
  "cover_count (ReconstructIntervals [sample_event ''x'' ''remove'' 9, sample_event ''x'' ''add'' 4] ''seat'') ''x'' 6
   = (if standing ''seat'' (sortedByTimestamp [sample_event ''x'' ''remove'' 9, sample_event ''x'' ''add'' 4]) ''x'' 6
      then 1 else 0)"
  by (rule intervals_match_operations) (simp_all add: sample_event_def)

text \<open>C6: For intervals that end no earlier than they start, the sweep over their ends
  gives the largest number of intervals active at one instant of a period: no instant
  of the period has more, and if it is not zero, some instant has that many.\<close>

theorem peak_is_maximum:
  assumes "from < to" and "\<forall>iv\<in>set ivs. ivl_To iv \<noteq> 0 \<longrightarrow> ivl_From iv \<le> ivl_To iv"
    and "int (length ivs) < 2 ^ 62"
  shows "(\<forall>t. from \<le> t \<and> t < to \<longrightarrow> active_at ivs t \<le> CountPeakConcurrent ivs from to) \<and>
    (CountPeakConcurrent ivs from to = 0 \<or>
      (\<exists>t. from \<le> t \<and> t < to \<and> active_at ivs t = CountPeakConcurrent ivs from to))"
  by (rule peak_is_max[OF assms])

theorem peak_is_maximum_witness:
  "2 \<le> CountPeakConcurrent sample_ivls 0 10"
proof -
  have "active_at sample_ivls 4 \<le> CountPeakConcurrent sample_ivls 0 10"
    using peak_is_maximum[of 0 10 sample_ivls] by (simp add: sample_ivls_def)
  then show ?thesis by (simp add: active_at_def sample_ivls_def IsZero_def)
qed

text \<open>The time-weighted reading lies between zero and the number of intervals that
  touch the period, whatever the proration switches, and is that number exactly when
  both switches are off.\<close>

theorem weighted_reading_bounds:
  assumes "decimal_laws D v" and "from < to" and "to - from < 2 ^ 63"
  shows "0 \<le> v (WeightIntervals D ivs from to pr cr) \<and>
    v (WeightIntervals D ivs from to pr cr) \<le> of_nat (length (filter (\<lambda>iv. overlaps iv from to) ivs)) \<and>
    v (WeightIntervals D ivs from to False False) = of_nat (length (filter (\<lambda>iv. overlaps iv from to) ivs))"
  using decimal.WeightIntervals_bounds[OF decimal.intro[OF assms(1)] assms(2,3)] by blast

theorem weighted_reading_bounds_witness:
  "WeightIntervals rat_ops sample_ivls 0 10 True True \<le> 2"
  using weighted_reading_bounds[OF rat_laws, of 0 10 sample_ivls True True]
  by (simp add: sample_ivls_def overlaps_def IsZero_def)

end
