(* ===== verification/Store.thy ===== *)
theory Store
  imports Invoices Accounts Dunning Usage_Intervals Cart
begin

text \<open>
  The state the services run on and the language their models are written in.
  The database is a record of tables (lists of rows).  A service is a function from
  the world to a result and a world: it may read the clock, draw an identifier, run
  statements against the database, call the payment gateway and open transactions.
  Every statement may fail (the driver's error is an input), a failed statement
  inside a transaction aborts it, and a transaction that does not commit restores
  the database: src/internal/adapter/db/postgrespgx/tx.go.  Publishing an event
  writes a row of the outbox table (src/internal/lib/pubsub/outbox.go), so it
  commits with the transaction it is called in.
\<close>

section \<open>Messages and calls to the outside\<close>

record dunning_subscription_event =
  dse_OrgId :: string
  dse_CampaignId :: string
  dse_SubscriptionId :: string
  dse_CustomerId :: string
  dse_OldStatus :: subscription_status
  dse_NewStatus :: subscription_status

text \<open>What is published, before it is encoded.\<close>

datatype 'd message =
    MsgSubscription subscription
  | MsgChargeSuccess subscription payment
  | MsgChargeFailed subscription charge_result
  | MsgPayment payment
  | MsgOrder order
  | MsgCustomer customer
  | MsgPaymentMethod payment_method
  | MsgMetric billable_metric
  | MsgMeterEvent "'d meter_event"
  | MsgCampaign dunning_campaign
  | MsgAttempt dunning_attempt string bool bool
  | MsgDunningSubscription dunning_subscription_event
  | MsgCommunication string string string int communication_status
  | MsgToken payment_update_token
  | MsgConfiguration dunning_configuration
  | MsgProduct product
  | MsgVariant variant
  | MsgPrice "'d price"
  | MsgWebhook webhook_subscription
  | MsgOrg org
  | MsgSession session

record 'd outbox_event =
  obx_Id :: int
  obx_EventId :: string
  obx_OrgId :: string
  obx_Topic :: string
  obx_Payload :: "'d message"
  obx_Attempts :: int
  obx_NextAttemptAt :: "time option"
  obx_LastError :: string
  obx_PublishedAt :: "time option"
  obx_CreatedAt :: time

record charge_input =
  chi_OrgId :: string
  chi_OrderId :: string
  chi_SubscriptionId :: string
  chi_Amount :: int
  chi_Currency :: string
  chi_PspId :: gateway
  chi_Method :: payment_method
  chi_Customer :: customer

text \<open>The rows that guard deliveries and requests against repetition.\<close>

record idempotency_key =
  idk_Id :: string
  idk_ExpiresAt :: time

datatype request_state = Request_pending | Request_completed

record idempotency_request =
  idr_Key :: string
  idr_RequestHash :: string
  idr_State :: request_state
  idr_Token :: string
  idr_Code :: "int option"
  idr_Headers :: string
  idr_Body :: string
  idr_ExpiresAt :: time

section \<open>The database and the world\<close>

record 'd db =
  t_subscriptions :: "subscription list"
  t_payments :: "payment list"
  t_invoices :: "'d invoice list"
  t_invoice_lines :: "'d invoice_line_item list"
  t_invoice_counters :: "string \<rightharpoonup> int"
  t_coupons :: "'d coupon list"
  t_coupon_codes :: "coupon_code list"
  t_discounts :: "discount list"
  t_reservations :: "coupon_reservation list"
  t_orders :: "order list"
  t_order_items :: "order_item list"
  t_sessions :: "session list"
  t_carts :: "cart list"
  t_products :: "product list"
  t_customers :: "customer list"
  t_payment_methods :: "payment_method list"
  t_prices :: "'d price list"
  t_metrics :: "billable_metric list"
  t_meter_events :: "'d meter_event list"
  t_settings :: "setting list"
  t_campaigns :: "dunning_campaign list"
  t_attempts :: "dunning_attempt list"
  t_tokens :: "payment_update_token list"
  t_configurations :: "dunning_configuration list"
  t_variants :: "variant list"
  t_refunds :: "refund list"
  t_orgs :: "org list"
  t_webhooks :: "webhook_subscription list"
  t_idempotency_keys :: "idempotency_key list"
  t_idempotency_requests :: "idempotency_request list"
  t_api_keys :: "api_key list"
  t_cohorts :: "cohort list"
  t_customer_cohorts :: "customer_cohort list"
  t_metadata :: "metadata_store list"
  t_gateways :: "psp_config list"
  t_outbox :: "'d outbox_event list"

text \<open>
  The clock, the identifiers, the statement failures, the gateway and the message
  broker are sequences indexed by how often they were used; w_seq is the sequence of the outbox key,
  which a rollback does not reset; w_charges records every charge sent out and
  w_sent every message the broker accepted.
\<close>

record 'd world =
  w_db :: "'d db"
  w_tx :: bool
  w_aborted :: bool
  w_clock :: "nat \<Rightarrow> time"
  w_ticks :: nat
  w_random :: "nat \<Rightarrow> string"
  w_drawn :: nat
  w_fault :: "nat \<Rightarrow> string option"
  w_stmts :: nat
  w_seq :: int
  w_factory :: "nat \<Rightarrow> string \<Rightarrow> gateway \<Rightarrow> string option"
  w_gateway :: "nat \<Rightarrow> charge_input \<Rightarrow> charge_payment_response"
  w_charges :: "charge_input list"
  w_calls :: nat
  w_broker :: "nat \<Rightarrow> string option"
  w_posts :: nat
  w_sent :: "'d outbox_event list"

type_synonym ('d, 'a) svc = "'d world \<Rightarrow> 'a res \<times> 'd world"

section \<open>Composition\<close>

definition retS :: "'a \<Rightarrow> ('d, 'a) svc" where
  "retS x = (\<lambda>w. (Inr x, w))"

definition failS :: "app_error \<Rightarrow> ('d, 'a) svc" where
  "failS e = (\<lambda>w. (Inl e, w))"

text \<open>Run, and return the error if there is one.\<close>

definition bindS :: "('d, 'a) svc \<Rightarrow> ('a \<Rightarrow> ('d, 'b) svc) \<Rightarrow> ('d, 'b) svc" where
  "bindS m f = (\<lambda>w. case m w of (Inl e, w') \<Rightarrow> (Inl e, w') | (Inr x, w') \<Rightarrow> f x w')"

text \<open>Run, and look at the result and the error.\<close>

definition tryS :: "('d, 'a) svc \<Rightarrow> ('a res \<Rightarrow> 'd world \<Rightarrow> 'r) \<Rightarrow> 'd world \<Rightarrow> 'r" where
  "tryS m f = (\<lambda>w. case m w of (r, w') \<Rightarrow> f r w')"

text \<open>Return the error with another one around it.\<close>

definition mapErrS :: "(app_error \<Rightarrow> app_error) \<Rightarrow> ('d, 'a) svc \<Rightarrow> ('d, 'a) svc" where
  "mapErrS g m = (\<lambda>w. case m w of (Inl e, w') \<Rightarrow> (Inl (g e), w') | (Inr x, w') \<Rightarrow> (Inr x, w'))"

definition liftS :: "'a res \<Rightarrow> ('d, 'a) svc" where
  "liftS r = (\<lambda>w. (r, w))"

text \<open>A call whose result and error are dropped.\<close>

definition ignoreS :: "('d, 'a) svc \<Rightarrow> ('d, unit) svc" where
  "ignoreS m = (\<lambda>w. (Inr (), snd (m w)))"

text \<open>A loop over a list that stops at the first error and threads a value.\<close>

fun foldS :: "('b \<Rightarrow> 'a \<Rightarrow> ('d, 'b) svc) \<Rightarrow> 'b \<Rightarrow> 'a list \<Rightarrow> ('d, 'b) svc" where
  "foldS f b [] = retS b"
| "foldS f b (x # xs) = bindS (f b x) (\<lambda>b'. foldS f b' xs)"

definition mapS :: "('a \<Rightarrow> ('d, 'b) svc) \<Rightarrow> 'a list \<Rightarrow> ('d, 'b list) svc" where
  "mapS f xs = foldS (\<lambda>acc x. bindS (f x) (\<lambda>y. retS (acc @ [y]))) [] xs"

section \<open>Clock and identifiers\<close>

definition nowS :: "('d, time) svc" where
  "nowS = (\<lambda>w. (Inr (w_clock w (w_ticks w)), w\<lparr>w_ticks := Suc (w_ticks w)\<rparr>))"

text \<open>ids.Generate: the prefix of the resource and a fresh KSUID.\<close>

definition id_prefix :: "string \<Rightarrow> string" where
  "id_prefix resource =
    (if resource = ''user'' then ''usr'' else if resource = ''order'' then ''ord''
     else if resource = ''order_item'' then ''item'' else if resource = ''org'' then ''org''
     else if resource = ''customer'' then ''cus'' else if resource = ''cartitem'' then ''ci''
     else if resource = ''payment_method'' then ''pm''
     else if resource = ''dunning_campaign'' then ''dcam''
     else if resource = ''dunning_attempt'' then ''datt''
     else if resource = ''dunning_communication'' then ''dcom''
     else if resource = ''dunning_configuration'' then ''dcfg''
     else if resource = ''payment_update_token'' then ''tok''
     else if resource = ''coupon'' then ''coup'' else resource)"

definition Generate :: "string \<Rightarrow> ('d, string) svc" where
  "Generate resource = (\<lambda>w. (Inr (id_prefix resource @ ''_'' @ w_random w (w_drawn w)),
                              w\<lparr>w_drawn := Suc (w_drawn w)\<rparr>))"

section \<open>Statements and transactions\<close>

text \<open>
  A statement fails with the driver's error, with the error of an aborted
  transaction, or because a constraint rejects it; inside a transaction each of
  these leaves the transaction aborted.
\<close>

definition stmt :: "('d db \<Rightarrow> ('a \<times> 'd db) option) \<Rightarrow> ('d, 'a) svc" where
  "stmt f w =
    (let w1 = w\<lparr>w_stmts := Suc (w_stmts w)\<rparr> in
     if w_aborted w then (Inl (InfraError ''current transaction is aborted''), w1)
     else case w_fault w (w_stmts w) of
       Some e \<Rightarrow> (Inl (InfraError e), w1\<lparr>w_aborted := w_tx w\<rparr>)
     | None \<Rightarrow> (case f (w_db w) of
         None \<Rightarrow> (Inl (InfraError ''constraint violation''), w1\<lparr>w_aborted := w_tx w\<rparr>)
       | Some (x, db) \<Rightarrow> (Inr x, w1\<lparr>w_db := db\<rparr>)))"

definition sel :: "('d db \<Rightarrow> 'a) \<Rightarrow> ('d, 'a) svc" where
  "sel f = stmt (\<lambda>db. Some (f db, db))"

definition exec :: "('d db \<Rightarrow> 'd db option) \<Rightarrow> ('d, unit) svc" where
  "exec f = stmt (\<lambda>db. map_option (Pair ()) (f db))"

text \<open>translateErr: a query for one row that finds none gives the wrapped sentinel.\<close>

definition translateErr :: "'a option \<Rightarrow> ('d, 'a) svc" where
  "translateErr r = (case r of None \<Rightarrow> failS (WrapError ''no rows in result set'' ErrNotFound) | Some x \<Rightarrow> retS x)"

definition selOne :: "('d db \<Rightarrow> 'a option) \<Rightarrow> ('d, 'a) svc" where
  "selOne f = bindS (sel f) translateErr"

text \<open>
  Begin opens a transaction or a savepoint and commit closes it; both are
  statements.  The error type of the body is a parameter, since some bodies hand
  out a value together with their error.
\<close>

definition RunInTxE :: "(app_error \<Rightarrow> 'e) \<Rightarrow> ('d world \<Rightarrow> ('e + 'a) \<times> 'd world) \<Rightarrow> 'd world \<Rightarrow> ('e + 'a) \<times> 'd world" where
  "RunInTxE g m w =
    (case sel (\<lambda>_. ()) w of
       (Inl e, w1) \<Rightarrow> (Inl (g e), w1)
     | (Inr _, w1) \<Rightarrow>
        (case m (w1\<lparr>w_tx := True\<rparr>) of
           (Inl e, w2) \<Rightarrow> (Inl e, w2\<lparr>w_db := w_db w1, w_tx := w_tx w1, w_aborted := w_aborted w1\<rparr>)
         | (Inr x, w2) \<Rightarrow>
            (case sel (\<lambda>_. ()) w2 of
               (Inl e, w3) \<Rightarrow> (Inl (g e), w3\<lparr>w_db := w_db w1, w_tx := w_tx w1, w_aborted := w_aborted w1\<rparr>)
             | (Inr _, w3) \<Rightarrow> (Inr x, w3\<lparr>w_tx := w_tx w1\<rparr>))))"

definition RunInTx :: "('d, 'a) svc \<Rightarrow> ('d, 'a) svc" where
  "RunInTx m = RunInTxE (\<lambda>e. e) m"

section \<open>The outbox and the gateway\<close>

text \<open>Outbox.Publish; encoding a message never fails for the types published.\<close>

definition outbox_Create :: "'d outbox_event \<Rightarrow> ('d, unit) svc" where
  "outbox_Create ev w =
    exec (\<lambda>db. Some (db\<lparr>t_outbox := t_outbox db @ [ev\<lparr>obx_Id := w_seq w\<rparr>]\<rparr>)) (w\<lparr>w_seq := w_seq w + 1\<rparr>)"

definition Publish :: "string \<Rightarrow> string \<Rightarrow> 'd message \<Rightarrow> ('d, unit) svc" where
  "Publish orgId topic message =
    bindS nowS (\<lambda>createdAt.
    bindS (Generate ''evt'') (\<lambda>eid.
    outbox_Create \<lparr> obx_Id = 0, obx_EventId = eid, obx_OrgId = orgId, obx_Topic = topic,
      obx_Payload = message, obx_Attempts = 0, obx_NextAttemptAt = None, obx_LastError = [],
      obx_PublishedAt = None, obx_CreatedAt = createdAt \<rparr>))"

text \<open>
  The gateway factory reads the organisation's configuration and builds the adapter
  (or fails); the adapter's answer to a charge is an input.
\<close>

definition NewGateway :: "string \<Rightarrow> gateway \<Rightarrow> ('d, gateway) svc" where
  "NewGateway orgId psp w =
    (let w1 = w\<lparr>w_calls := Suc (w_calls w)\<rparr> in
     case w_factory w (w_calls w) orgId psp of
       Some e \<Rightarrow> (Inl (InfraError e), w1)
     | None \<Rightarrow> (Inr psp, w1))"

definition ChargePayment :: "charge_input \<Rightarrow> ('d, charge_payment_response) svc" where
  "ChargePayment inp w =
    (Inr (w_gateway w (w_calls w) inp),
     w\<lparr>w_calls := Suc (w_calls w), w_charges := w_charges w @ [inp]\<rparr>)"

section \<open>Rules for successful runs\<close>

lemma retS_apply [simp]: "retS x w = (Inr x, w)"
  by (simp add: retS_def)

lemma failS_apply [simp]: "failS e w = (Inl e, w)"
  by (simp add: failS_def)

lemma liftS_apply [simp]: "liftS r w = (r, w)"
  by (simp add: liftS_def)

lemma liftS_simps [simp]: "liftS (Inr x) = retS x" "liftS (Inl e) = failS e"
  by (simp_all add: liftS_def retS_def failS_def)

lemma bindS_simps [simp]: "bindS (retS x) f = f x" "bindS (failS e) f = failS e"
  by (simp_all add: bindS_def fun_eq_iff)

lemma bindS_Inr: "bindS m f w = (Inr y, w2) \<longleftrightarrow> (\<exists>x w1. m w = (Inr x, w1) \<and> f x w1 = (Inr y, w2))"
  by (auto simp: bindS_def split: prod.splits sum.splits)

lemma bindS_InrE:
  assumes "bindS m f w = (Inr y, w2)"
  obtains x w1 where "m w = (Inr x, w1)" and "f x w1 = (Inr y, w2)"
  using assms by (auto simp: bindS_Inr)

lemma bindS_ok: "m w = (Inr x, w1) \<Longrightarrow> bindS m f w = f x w1"
  by (simp add: bindS_def)

lemma bindS_err: "m w = (Inl e, w1) \<Longrightarrow> bindS m f w = (Inl e, w1)"
  by (simp add: bindS_def)

lemma bindS_assoc: "bindS (bindS m f) g = bindS m (\<lambda>x. bindS (f x) g)"
  by (auto simp: bindS_def fun_eq_iff split: prod.splits sum.splits)

lemma mapErrS_Inr: "mapErrS g m w = (Inr x, w1) \<longleftrightarrow> m w = (Inr x, w1)"
  by (auto simp: mapErrS_def split: prod.splits sum.splits)

lemma nowS_apply [simp]: "nowS w = (Inr (w_clock w (w_ticks w)), w\<lparr>w_ticks := Suc (w_ticks w)\<rparr>)"
  by (simp add: nowS_def)

lemma Generate_apply [simp]:
  "Generate p w = (Inr (id_prefix p @ ''_'' @ w_random w (w_drawn w)), w\<lparr>w_drawn := Suc (w_drawn w)\<rparr>)"
  by (simp add: Generate_def)

definition stmt_ok :: "'d world \<Rightarrow> bool" where
  "stmt_ok w \<longleftrightarrow> \<not> w_aborted w \<and> w_fault w (w_stmts w) = None"

lemma stmt_Inr: "stmt f w = (Inr x, w1) \<longleftrightarrow>
    stmt_ok w \<and> (\<exists>d. f (w_db w) = Some (x, d) \<and> w1 = w\<lparr>w_stmts := Suc (w_stmts w), w_db := d\<rparr>)"
  by (auto simp: stmt_def stmt_ok_def Let_def split: option.splits)

lemma sel_Inr: "sel f w = (Inr x, w1) \<longleftrightarrow>
    stmt_ok w \<and> x = f (w_db w) \<and> w1 = w\<lparr>w_stmts := Suc (w_stmts w)\<rparr>"
  by (auto simp: sel_def stmt_Inr)

lemma exec_Inr: "exec f w = (Inr u, w1) \<longleftrightarrow>
    stmt_ok w \<and> (\<exists>d. f (w_db w) = Some d \<and> w1 = w\<lparr>w_stmts := Suc (w_stmts w), w_db := d\<rparr>)"
  by (cases u) (auto simp: exec_def stmt_Inr)

lemma translateErr_Inr: "translateErr r w = (Inr x, w1) \<longleftrightarrow> r = Some x \<and> w1 = w"
  by (auto simp: translateErr_def split: option.splits)

lemma selOne_Inr: "selOne f w = (Inr x, w1) \<longleftrightarrow>
    stmt_ok w \<and> f (w_db w) = Some x \<and> w1 = w\<lparr>w_stmts := Suc (w_stmts w)\<rparr>"
  by (auto simp: selOne_def bindS_Inr sel_Inr translateErr_Inr)

lemma selOne_not_found:
  assumes "selOne f w = (Inl e, w1)"
  shows "w_db w1 = w_db w"
  using assms
  by (auto simp: selOne_def bindS_def sel_def stmt_def translateErr_def Let_def
        split: prod.splits sum.splits option.splits if_splits)

lemmas ok_simps = bindS_Inr mapErrS_Inr sel_Inr exec_Inr selOne_Inr translateErr_Inr

lemma stmt_err_db: "stmt f w = (Inl e, w1) \<Longrightarrow> w_db w1 = w_db w"
  by (auto simp: stmt_def Let_def split: option.splits if_splits prod.splits)

lemma sel_db [simp]: "w_db (snd (sel f w)) = w_db w"
  by (auto simp: sel_def stmt_def Let_def split: option.splits)

lemma sel_dbD: "sel f w = (r, w1) \<Longrightarrow> w_db w1 = w_db w"
  by (metis sel_db snd_conv)

lemma selOne_db [simp]: "w_db (snd (selOne f w)) = w_db w"
  by (auto simp: selOne_def sel_def stmt_def bindS_def translateErr_def Let_def split: option.splits)

section \<open>Transactions are atomic\<close>

text \<open>
  What a transaction manager promises: a run that reports an error leaves the
  database as it was, and a run that succeeds is the body's run.  Its clients get
  the atomicity of their sequences from the contract alone.
\<close>

locale transactional =
  fixes run :: "('d, 'a) svc \<Rightarrow> ('d, 'a) svc"
  assumes rolled_back: "run m w = (Inl e, w1) \<Longrightarrow> w_db w1 = w_db w"
    and committed: "run m w = (Inr x, w1) \<Longrightarrow>
      \<exists>w0 w2. w_db w0 = w_db w \<and> m w0 = (Inr x, w2) \<and> w_db w1 = w_db w2"
begin

lemma atomic: "w_db (snd (run m w)) = w_db w \<or>
    (\<exists>w0 x w2. w_db w0 = w_db w \<and> m w0 = (Inr x, w2) \<and> w_db (snd (run m w)) = w_db w2)"
proof (cases "run m w")
  case (Pair r w1)
  show ?thesis
  proof (cases r)
    case (Inl e)
    then show ?thesis using Pair rolled_back by fastforce
  next
    case (Inr x)
    then show ?thesis using Pair committed[of m w x w1] by auto
  qed
qed

lemma no_event_without_commit:
  assumes "run m w = (Inl e, w1)"
  shows "t_outbox (w_db w1) = t_outbox (w_db w)"
  using rolled_back[OF assms] by simp

end

lemma RunInTxE_Inr:
  assumes "RunInTxE g m w = (Inr x, w1)"
  shows "\<exists>w2. stmt_ok w \<and> m (w\<lparr>w_stmts := Suc (w_stmts w), w_tx := True\<rparr>) = (Inr x, w2) \<and> stmt_ok w2 \<and>
    w1 = w2\<lparr>w_stmts := Suc (w_stmts w2), w_tx := w_tx w\<rparr>"
  using assms unfolding RunInTxE_def
  by (auto simp: sel_Inr split: prod.splits sum.splits)

lemma RunInTxE_Inl: "RunInTxE g m w = (Inl e, w1) \<Longrightarrow> w_db w1 = w_db w"
  unfolding RunInTxE_def
  by (auto split: prod.splits sum.splits dest: sel_dbD)

lemmas RunInTx_Inr = RunInTxE_Inr[where g = "\<lambda>e. e", folded RunInTx_def]
lemmas RunInTx_Inl = RunInTxE_Inl[where g = "\<lambda>e. e", folded RunInTx_def]

interpretation tx: transactional RunInTx
proof (unfold_locales, goal_cases)
  case (1 m w e w1)
  then show ?case by (rule RunInTx_Inl)
next
  case (2 m w x w1)
  from RunInTx_Inr[OF this] obtain w2 where "m (w\<lparr>w_stmts := Suc (w_stmts w), w_tx := True\<rparr>) = (Inr x, w2)"
      "w1 = w2\<lparr>w_stmts := Suc (w_stmts w2), w_tx := w_tx w\<rparr>"
    by blast
  then show ?case by (intro exI[of _ "w\<lparr>w_stmts := Suc (w_stmts w), w_tx := True\<rparr>"] exI[of _ w2]) simp
qed

section \<open>Relations that every step of a service respects\<close>

definition obeys :: "('d db \<Rightarrow> 'd db \<Rightarrow> bool) \<Rightarrow> ('d world \<Rightarrow> 'r \<times> 'd world) \<Rightarrow> bool" where
  "obeys R m \<longleftrightarrow> (\<forall>w. R (w_db w) (w_db (snd (m w))))"

lemma obeysD: "obeys R m \<Longrightarrow> m w = (r, w1) \<Longrightarrow> R (w_db w) (w_db w1)"
  unfolding obeys_def by (metis snd_conv)

lemma obeysI: "(\<And>w r w1. m w = (r, w1) \<Longrightarrow> R (w_db w) (w_db w1)) \<Longrightarrow> obeys R m"
  unfolding obeys_def by (metis surjective_pairing)

named_theorems obey

text \<open>The values a step can return.\<close>

definition yields :: "('d, 'a) svc \<Rightarrow> 'a \<Rightarrow> bool" where
  "yields m x \<longleftrightarrow> (\<exists>w w1. m w = (Inr x, w1))"

lemma yields_bind: "yields (bindS m f) y \<Longrightarrow> \<exists>x. yields m x \<and> yields (f x) y"
  by (auto simp: yields_def bindS_Inr)

lemma yields_selOne: "yields (selOne f) x \<Longrightarrow> \<exists>db. f db = Some x"
  by (auto simp: yields_def selOne_Inr)

lemma yields_ret [simp]: "yields (retS x) y \<longleftrightarrow> y = x"
  by (auto simp: yields_def)

lemma yields_lift: "yields (liftS r) y \<longleftrightarrow> r = Inr y"
  by (auto simp: yields_def)

lemma yields_mapErr: "yields (mapErrS g m) x \<longleftrightarrow> yields m x"
  by (simp add: yields_def mapErrS_Inr)

section \<open>Loops\<close>

lemma foldS_snoc: "foldS f b (xs @ [x]) = bindS (foldS f b xs) (\<lambda>b1. f b1 x)"
  by (induction xs arbitrary: b) (simp_all add: bindS_assoc, simp add: bindS_def retS_def fun_eq_iff split: prod.splits sum.splits)

lemma bind_Pair: "bindS (Pair (Inr x)) f = f x"
  by (simp add: bindS_def)

lemma mapS_Cons: "mapS f (x # xs) = bindS (f x) (\<lambda>y. bindS (mapS f xs) (\<lambda>ys. retS (y # ys)))"
proof -
  have acc: "foldS (\<lambda>acc x. bindS (f x) (\<lambda>y. retS (acc @ [y]))) a xs =
      bindS (foldS (\<lambda>acc x. bindS (f x) (\<lambda>y. retS (acc @ [y]))) [] xs) (\<lambda>ys. retS (a @ ys))" for a
  proof (induction xs rule: rev_induct)
    case (snoc x xs)
    then show ?case by (simp add: foldS_snoc bindS_assoc bind_Pair)
  qed (simp add: bind_Pair)
  show ?thesis by (simp add: mapS_def bindS_assoc bind_Pair) (simp add: acc[of "[_]", simplified] bind_Pair)
qed

lemma mapS_Nil: "mapS f [] = retS []"
  by (simp add: mapS_def)

lemma mapS_all2:
  assumes "mapS f xs w = (Inr ys, w1)" and "\<And>x w y w1. x \<in> set xs \<Longrightarrow> f x w = (Inr y, w1) \<Longrightarrow> P x y"
  shows "list_all2 P xs ys"
  using assms by (induction xs arbitrary: w ys) (fastforce simp: mapS_Nil mapS_Cons bindS_Inr)+

section \<open>Step relations\<close>

text \<open>
  A reflexive and transitive relation that every statement of a service respects
  holds between the database before and after it, however the run ends.
\<close>

locale step_relation =
  fixes R :: "'d db \<Rightarrow> 'd db \<Rightarrow> bool"
  assumes refl: "R a a" and trans: "R a b \<Longrightarrow> R b c \<Longrightarrow> R a c"
begin

lemma obeys_unchanged: "(\<And>w. w_db (snd (m w)) = w_db w) \<Longrightarrow> obeys R m"
  by (simp add: obeys_def refl)

lemma obeys_ret [intro, simp]: "obeys R (retS x)"
  by (simp add: obeys_def refl)

lemma obeys_fail [intro, simp]: "obeys R (failS e)"
  by (simp add: obeys_def refl)

lemma obeys_lift [intro, simp]: "obeys R (liftS r)"
  by (simp add: obeys_def refl)

lemma obeys_Pair [intro, simp]: "obeys R (Pair r)"
  by (simp add: obeys_def refl)

lemma obeys_now [intro, simp]: "obeys R nowS"
  by (simp add: obeys_def refl)

lemma obeys_Generate [intro, simp]: "obeys R (Generate p)"
  by (simp add: obeys_def refl)

lemma obeys_sel [intro, simp]: "obeys R (sel f)"
  by (simp add: obeys_def refl)

lemma obeys_selOne [intro, simp]: "obeys R (selOne f)"
  by (simp add: obeys_def refl)

lemma obeys_translate [intro, simp]: "obeys R (translateErr r)"
  by (cases r) (simp_all add: translateErr_def)

lemma obeys_gateway [intro, simp]: "obeys R (NewGateway a b)"
  by (simp add: obeys_def refl NewGateway_def Let_def split: option.split)

lemma obeys_charge [intro, simp]: "obeys R (ChargePayment c)"
  by (simp add: obeys_def refl ChargePayment_def)

lemma obeys_stmt: "(\<And>d x d1. f d = Some (x, d1) \<Longrightarrow> R d d1) \<Longrightarrow> obeys R (stmt f)"
  by (auto simp: obeys_def refl stmt_def Let_def split: option.splits)

lemma obeys_exec: "(\<And>d d1. f d = Some d1 \<Longrightarrow> R d d1) \<Longrightarrow> obeys R (exec f)"
  unfolding exec_def by (rule obeys_stmt) auto

lemma obeys_tryS:
  assumes "obeys R m" and "\<And>r. obeys R (f r)"
  shows "obeys R (tryS m f)"
proof (rule obeysI)
  fix w r w1
  assume run: "tryS m f w = (r, w1)"
  obtain r0 w0 where m: "m w = (r0, w0)" by (cases "m w")
  then have "f r0 w0 = (r, w1)" using run by (simp add: tryS_def)
  then show "R (w_db w) (w_db w1)"
    using trans[OF obeysD[OF assms(1) m] obeysD[OF assms(2)]] by blast
qed

lemma obeys_bind:
  assumes "obeys R m" and "\<And>x. yields m x \<Longrightarrow> obeys R (f x)"
  shows "obeys R (bindS m f)"
proof (rule obeysI)
  fix w r w1
  assume run: "bindS m f w = (r, w1)"
  obtain r0 w0 where m: "m w = (r0, w0)" by (cases "m w")
  show "R (w_db w) (w_db w1)"
  proof (cases r0)
    case (Inl e)
    then show ?thesis using run obeysD[OF assms(1) m] by (simp add: bindS_def m)
  next
    case (Inr x)
    then have "yields m x" and "f x w0 = (r, w1)" using m run by (auto simp: bindS_def yields_def)
    then show ?thesis using trans[OF obeysD[OF assms(1) m] obeysD[OF assms(2)]] by blast
  qed
qed

lemma obeys_mapErr: "obeys R m \<Longrightarrow> obeys R (mapErrS g m)"
  unfolding obeys_def mapErrS_def by (auto split: prod.splits sum.splits) (metis snd_conv)+

lemma obeys_ignore: "obeys R m \<Longrightarrow> obeys R (ignoreS m)"
  by (simp add: obeys_def ignoreS_def)

lemma obeys_fold: "(\<And>b x. x \<in> set xs \<Longrightarrow> obeys R (f b x)) \<Longrightarrow> obeys R (foldS f b xs)"
  by (induction xs arbitrary: b) (auto intro: obeys_bind)

lemma obeys_map: "(\<And>x. x \<in> set xs \<Longrightarrow> obeys R (f x)) \<Longrightarrow> obeys R (mapS f xs)"
  unfolding mapS_def by (intro obeys_fold obeys_bind) auto

lemma obeys_txE:
  assumes "obeys R m"
  shows "obeys R (RunInTxE g m)"
proof (rule obeysI)
  fix w r w1
  assume run: "RunInTxE g m w = (r, w1)"
  show "R (w_db w) (w_db w1)"
  proof (cases r)
    case (Inl e)
    then show ?thesis using RunInTxE_Inl run refl by metis
  next
    case (Inr x)
    have "RunInTxE g m w = (Inr x, w1)" using run Inr by simp
    from RunInTxE_Inr[OF this] obtain w2
      where m: "m (w\<lparr>w_stmts := Suc (w_stmts w), w_tx := True\<rparr>) = (Inr x, w2)"
        and w1: "w1 = w2\<lparr>w_stmts := Suc (w_stmts w2), w_tx := w_tx w\<rparr>"
      by (elim exE conjE)
    from obeysD[OF assms m] show ?thesis by (simp add: w1)
  qed
qed

lemma obeys_tx: "obeys R m \<Longrightarrow> obeys R (RunInTx m)"
  unfolding RunInTx_def by (rule obeys_txE)

lemmas obeys_intros = obeys_bind obeys_tryS obeys_mapErr obeys_ignore obeys_fold obeys_map obeys_tx obeys_txE

end

section \<open>Steps that only read\<close>

text \<open>A read moves the clock and the statement counter, and may abort the transaction.\<close>

definition quiet :: "'d world \<Rightarrow> 'd world \<Rightarrow> bool" where
  "quiet w w1 \<longleftrightarrow> (\<exists>s t b. w1 = w\<lparr>w_stmts := s, w_ticks := t, w_aborted := b\<rparr> \<and> w_ticks w \<le> t)"

definition reads :: "('d world \<Rightarrow> 'r \<times> 'd world) \<Rightarrow> bool" where
  "reads m \<longleftrightarrow> (\<forall>w. quiet w (snd (m w)))"

named_theorems reading

lemma quiet_refl [simp]: "quiet w w"
  unfolding quiet_def by (intro exI[of _ "w_stmts w"] exI[of _ "w_ticks w"] exI[of _ "w_aborted w"]) simp

lemma quiet_trans: "quiet a b \<Longrightarrow> quiet b c \<Longrightarrow> quiet a c"
proof -
  assume "quiet a b" and "quiet b c"
  then obtain s t x s' t' x' where b: "b = a\<lparr>w_stmts := s, w_ticks := t, w_aborted := x\<rparr>" "w_ticks a \<le> t"
    and c: "c = b\<lparr>w_stmts := s', w_ticks := t', w_aborted := x'\<rparr>" "w_ticks b \<le> t'"
    unfolding quiet_def by (elim exE conjE)
  have "c = a\<lparr>w_stmts := s', w_ticks := t', w_aborted := x'\<rparr>" and "w_ticks a \<le> t'" using b c by simp_all
  then show "quiet a c" unfolding quiet_def by blast
qed

lemma quietD: "quiet w w1 \<Longrightarrow> w_db w1 = w_db w \<and> w_clock w1 = w_clock w \<and> w_random w1 = w_random w \<and>
    w_drawn w1 = w_drawn w \<and> w_tx w1 = w_tx w \<and> w_seq w1 = w_seq w \<and> w_charges w1 = w_charges w \<and>
    w_ticks w \<le> w_ticks w1 \<and> w_fault w1 = w_fault w \<and> w_gateway w1 = w_gateway w \<and> w_calls w1 = w_calls w \<and>
    w_broker w1 = w_broker w \<and> w_sent w1 = w_sent w \<and> w_posts w1 = w_posts w"
  by (auto simp: quiet_def)

lemma readsD: "reads m \<Longrightarrow> m w = (r, w1) \<Longrightarrow> quiet w w1"
  unfolding reads_def by (metis snd_conv)

lemma readsI: "(\<And>w r w1. m w = (r, w1) \<Longrightarrow> quiet w w1) \<Longrightarrow> reads m"
  unfolding reads_def by (metis surjective_pairing)

lemma quiet_field: "quiet w (w\<lparr>w_stmts := s\<rparr>)" "quiet w (w\<lparr>w_stmts := s, w_aborted := b\<rparr>)"
    "quiet w (w\<lparr>w_ticks := Suc (w_ticks w)\<rparr>)"
  unfolding quiet_def
  by (rule exI[of _ s], rule exI[of _ "w_ticks w"], rule exI[of _ "w_aborted w"], simp)
    (rule exI[of _ s], rule exI[of _ "w_ticks w"], rule exI[of _ b], simp,
     rule exI[of _ "w_stmts w"], rule exI[of _ "Suc (w_ticks w)"], rule exI[of _ "w_aborted w"], simp)

lemma reads_ret [simp, reading]: "reads (retS x)" "reads (failS e)" "reads (liftS r)" "reads nowS"
  by (simp_all add: reads_def quiet_field)

lemma reads_Pair [simp, reading]: "reads (Pair r)"
  by (simp add: reads_def)

lemma reads_sel [simp, reading]: "reads (sel f)"
  by (simp add: reads_def sel_def stmt_def Let_def quiet_field split: option.split)

lemma reads_bind [reading]:
  assumes "reads m" and "\<And>x. reads (f x)"
  shows "reads (bindS m f)"
proof (rule readsI)
  fix w r w1
  assume run: "bindS m f w = (r, w1)"
  obtain r0 w0 where m: "m w = (r0, w0)" by (cases "m w")
  note q = readsD[OF assms(1) m]
  show "quiet w w1"
    using run q quiet_trans[OF q] readsD[OF assms(2)] by (cases r0) (auto simp: bindS_def m)
qed

lemma reads_tryS [reading]:
  assumes "reads m" and "\<And>r. reads (f r)"
  shows "reads (tryS m f)"
proof (rule readsI)
  fix w r w1
  assume run: "tryS m f w = (r, w1)"
  obtain r0 w0 where m: "m w = (r0, w0)" by (cases "m w")
  show "quiet w w1"
    using run quiet_trans[OF readsD[OF assms(1) m]] readsD[OF assms(2)] by (auto simp: tryS_def m)
qed

lemma reads_selOne [simp, reading]: "reads (selOne f)"
  unfolding selOne_def by (rule reads_bind) (auto simp: translateErr_def split: option.split)

lemma reads_fold [reading]: "(\<And>b x. reads (f b x)) \<Longrightarrow> reads (foldS f b xs)"
  by (induction xs arbitrary: b) (auto intro!: reads_bind)

lemma reads_mapErr [reading]: "reads m \<Longrightarrow> reads (mapErrS g m)"
  by (rule readsI) (auto simp: mapErrS_def dest: readsD split: prod.splits sum.splits)

context step_relation begin

lemma obeys_reads: "reads m \<Longrightarrow> obeys R m"
  by (rule obeysI) (auto dest!: readsD quietD simp: refl)

end

section \<open>What a service leaves alone\<close>

text \<open>A part of the database that no step of a service writes.\<close>

definition same_on :: "('d db \<Rightarrow> 'x) \<Rightarrow> 'd db \<Rightarrow> 'd db \<Rightarrow> bool" where
  "same_on f a b \<longleftrightarrow> f b = f a"

interpretation keep: step_relation "same_on f" for f
  by unfold_locales (simp_all add: same_on_def)

lemma keeps: "obeys (same_on f) m \<Longrightarrow> m w = (r, w1) \<Longrightarrow> f (w_db w1) = f (w_db w)"
  by (drule (1) obeysD) (simp add: same_on_def)

lemma keep_exec: "(\<And>d d1. g d = Some d1 \<Longrightarrow> f d1 = f d) \<Longrightarrow> obeys (same_on f) (exec g)"
  by (rule keep.obeys_exec) (simp add: same_on_def)

lemma keep_outbox:
  assumes "\<And>d o1. f (d\<lparr>t_outbox := o1\<rparr>) = f d"
  shows "obeys (same_on f) (outbox_Create ev)"
proof (rule obeysI)
  fix w r w1
  assume "outbox_Create ev w = (r, w1)"
  then have "exec (\<lambda>db. Some (db\<lparr>t_outbox := t_outbox db @ [ev\<lparr>obx_Id := w_seq w\<rparr>]\<rparr>)) (w\<lparr>w_seq := w_seq w + 1\<rparr>) = (r, w1)"
    by (simp add: outbox_Create_def)
  moreover have "obeys (same_on f) (exec (\<lambda>db. Some (db\<lparr>t_outbox := t_outbox db @ [ev\<lparr>obx_Id := w_seq w\<rparr>]\<rparr>)))"
    by (rule keep_exec) (use assms in auto)
  ultimately show "same_on f (w_db w) (w_db w1)" using obeysD by fastforce
qed

lemma keep_Publish: "(\<And>d o1. f (d\<lparr>t_outbox := o1\<rparr>) = f d) \<Longrightarrow> obeys (same_on f) (Publish org t m)"
  unfolding Publish_def by (intro keep.obeys_bind keep_outbox) simp_all

text \<open>A step that reports an error has changed nothing.\<close>

definition all_or_nothing :: "('d, 'a) svc \<Rightarrow> bool" where
  "all_or_nothing m \<longleftrightarrow> (\<forall>w e w1. m w = (Inl e, w1) \<longrightarrow> w_db w1 = w_db w)"

named_theorems atomic

lemma all_or_nothingD: "all_or_nothing m \<Longrightarrow> m w = (Inl e, w1) \<Longrightarrow> w_db w1 = w_db w"
  by (simp add: all_or_nothing_def)

lemma atomic_tx [atomic]: "all_or_nothing (RunInTx m)"
  by (simp add: all_or_nothing_def RunInTx_Inl)

lemma atomic_keeps: "obeys (same_on (\<lambda>d. d)) m \<Longrightarrow> all_or_nothing m"
  unfolding all_or_nothing_def using keeps[of "\<lambda>d. d" m] by blast

lemma atomic_ret [simp, atomic]: "all_or_nothing (retS x)" "all_or_nothing (failS e)" "all_or_nothing (liftS r)"
  by (auto simp: all_or_nothing_def retS_def failS_def liftS_def)

lemma atomic_bind:
  assumes "obeys (same_on (\<lambda>d. d)) m" and "\<And>x. all_or_nothing (f x)"
  shows "all_or_nothing (bindS m f)"
  unfolding all_or_nothing_def
proof (intro allI impI)
  fix w e w1
  assume run: "bindS m f w = (Inl e, w1)"
  obtain r w0 where m: "m w = (r, w0)" by (cases "m w")
  have "w_db w0 = w_db w" using keeps[OF assms(1) m] .
  then show "w_db w1 = w_db w"
    using run all_or_nothingD[OF assms(2)] by (cases r) (auto simp: bindS_def m)
qed

lemma atomic_try:
  assumes "obeys (same_on (\<lambda>d. d)) m" and "\<And>x. all_or_nothing (f x)"
  shows "all_or_nothing (tryS m f)"
  unfolding all_or_nothing_def
proof (intro allI impI)
  fix w e w1
  assume run: "tryS m f w = (Inl e, w1)"
  obtain r w0 where m: "m w = (r, w0)" by (cases "m w")
  show "w_db w1 = w_db w"
    using run keeps[OF assms(1) m] all_or_nothingD[OF assms(2)] by (auto simp: tryS_def m)
qed

lemma atomic_then_ret: "all_or_nothing m \<Longrightarrow> all_or_nothing (bindS m (\<lambda>x. retS (g x)))"
  by (auto simp: all_or_nothing_def bindS_def split: prod.splits sum.splits)

section \<open>Worlds for examples\<close>

definition empty_db :: "'d db" where
  "empty_db = \<lparr> t_subscriptions = [], t_payments = [], t_invoices = [], t_invoice_lines = [],
     t_invoice_counters = Map.empty, t_coupons = [], t_coupon_codes = [], t_discounts = [],
     t_reservations = [], t_orders = [], t_order_items = [],
     t_sessions = [], t_carts = [], t_products = [], t_customers = [], t_payment_methods = [],
     t_prices = [], t_metrics = [], t_meter_events = [], t_settings = [], t_campaigns = [],
     t_attempts = [], t_tokens = [], t_configurations = [],
     t_variants = [], t_refunds = [], t_orgs = [], t_webhooks = [], t_idempotency_keys = [], t_idempotency_requests = [],
     t_api_keys = [], t_cohorts = [], t_customer_cohorts = [], t_metadata = [], t_gateways = [], t_outbox = [] \<rparr>"

definition approve :: "charge_input \<Rightarrow> charge_payment_response" where
  "approve c = \<lparr> cpr_Status = ChargePaymentStatusSuccess, cpr_Retryable = False, cpr_Psp = chi_PspId c,
     cpr_PspId = ''psp'', cpr_Reference = ''ref'', cpr_Currency = chi_Currency c,
     cpr_AmountCharged = chi_Amount c, cpr_PaymentType = ''card'', cpr_ErrorReason = [], cpr_ErrorCode = [],
     cpr_PspResponse = [] \<rparr>"

text \<open>No statement fails, identifiers are distinct, and every charge is approved.\<close>

definition world_of :: "'d db \<Rightarrow> (nat \<Rightarrow> time) \<Rightarrow> 'd world" where
  "world_of db clock = \<lparr> w_db = db, w_tx = False, w_aborted = False, w_clock = clock, w_ticks = 0,
     w_random = (\<lambda>n. replicate n CHR ''k''), w_drawn = 0, w_fault = (\<lambda>_. None), w_stmts = 0, w_seq = 1,
     w_factory = (\<lambda>_ _ _. None), w_gateway = (\<lambda>_. approve), w_charges = [], w_calls = 0,
     w_broker = (\<lambda>_. None), w_posts = 0, w_sent = [] \<rparr>"

end
