(* ===== verification/Repositories.thy ===== *)
theory Repositories
  imports Store
begin

text \<open>
  The repositories of src/internal/adapter/db/postgrespgx as statements on the
  tables: every INSERT checks the primary key and the unique indexes of
  schemas/app/migrations, every UPDATE keeps the columns its SET list leaves out,
  and single-row queries translate a missing row into the sentinel error.  A column
  that is NULL where the domain has the empty string never equals a search value.
  Foreign keys are not checked: a violation is a failure of the statement, which
  the model allows at any statement.  A listing without ORDER BY gives the rows in
  table order.
\<close>

section \<open>Tables\<close>

definition find_row :: "('r \<Rightarrow> 'k) \<Rightarrow> 'k \<Rightarrow> 'r list \<Rightarrow> 'r option" where
  "find_row key k rows = find (\<lambda>r. key r = k) rows"

definition insert_row :: "('r \<Rightarrow> 'r \<Rightarrow> bool) \<Rightarrow> 'r \<Rightarrow> 'r list \<Rightarrow> 'r list option" where
  "insert_row clash r rows = (if list_ex (clash r) rows then None else Some (rows @ [r]))"

definition update_row :: "('r \<Rightarrow> 'k) \<Rightarrow> ('r \<Rightarrow> 'r \<Rightarrow> 'r) \<Rightarrow> 'r \<Rightarrow> 'r list \<Rightarrow> 'r list" where
  "update_row key merge r rows = map (\<lambda>old. if key old = key r then merge old r else old) rows"

text \<open>A nullable column compared with a value.\<close>

definition col_eq :: "string \<Rightarrow> string \<Rightarrow> bool" where
  "col_eq c v \<longleftrightarrow> c \<noteq> [] \<and> c = v"

section \<open>Subscriptions (subscription_repo.go)\<close>

definition sub_key :: "subscription \<Rightarrow> string \<times> string" where
  "sub_key s = (sub_OrgId s, sub_Id s)"

definition SubscriptionRepo_FindById :: "string \<Rightarrow> string \<Rightarrow> ('d, subscription) svc" where
  "SubscriptionRepo_FindById orgId sid = selOne (\<lambda>db. find_row sub_key (orgId, sid) (t_subscriptions db))"

definition SubscriptionRepo_FindByIdForUpdate :: "string \<Rightarrow> string \<Rightarrow> ('d, subscription) svc" where
  "SubscriptionRepo_FindByIdForUpdate orgId sid =
    selOne (\<lambda>db. find_row sub_key (orgId, sid) (t_subscriptions db))"

definition SubscriptionRepo_Create :: "subscription \<Rightarrow> ('d, subscription) svc" where
  "SubscriptionRepo_Create entity =
    bindS (exec (\<lambda>db. map_option (\<lambda>rs. db\<lparr>t_subscriptions := rs\<rparr>)
                  (insert_row (\<lambda>a b. sub_key a = sub_key b) entity (t_subscriptions db)))) (\<lambda>_.
    SubscriptionRepo_FindById (sub_OrgId entity) (sub_Id entity))"

text \<open>The creation time is not among the columns written.\<close>

definition sub_merge :: "subscription \<Rightarrow> subscription \<Rightarrow> subscription" where
  "sub_merge old s = s\<lparr>sub_CreatedAt := sub_CreatedAt old\<rparr>"

definition SubscriptionRepo_Update :: "subscription \<Rightarrow> ('d, subscription) svc" where
  "SubscriptionRepo_Update entity =
    bindS (exec (\<lambda>db. Some (db\<lparr>t_subscriptions := update_row sub_key sub_merge entity (t_subscriptions db)\<rparr>))) (\<lambda>_.
    SubscriptionRepo_FindById (sub_OrgId entity) (sub_Id entity))"

definition SubscriptionRepo_FindByOrderId :: "string \<Rightarrow> string \<Rightarrow> ('d, subscription list) svc" where
  "SubscriptionRepo_FindByOrderId orgId orderId =
    sel (\<lambda>db. filter (\<lambda>s. sub_OrgId s = orgId \<and> sub_OrderId s = orderId) (t_subscriptions db))"

definition due_row :: "time \<Rightarrow> subscription \<Rightarrow> bool" where
  "due_row now s \<longleftrightarrow>
     (sub_Status s = SubscriptionStatusActive \<and> sub_RenewsAt s \<noteq> 0 \<and> sub_RenewsAt s \<le> now) \<or>
     (sub_Status s = SubscriptionStatusPastDue \<and> sub_NextRetryAt s \<noteq> 0 \<and> sub_NextRetryAt s \<le> now) \<or>
     (sub_Status s = SubscriptionStatusTrial \<and> sub_TrialEndsAt s \<noteq> 0 \<and> sub_TrialEndsAt s \<le> now)"

definition SubscriptionRepo_FindDueForBilling :: "string \<Rightarrow> time \<Rightarrow> ('d, subscription list) svc" where
  "SubscriptionRepo_FindDueForBilling orgId now =
    sel (\<lambda>db. filter (\<lambda>s. sub_OrgId s = orgId \<and> due_row now s) (t_subscriptions db))"

definition SubscriptionRepo_FindUpcomingRenewals :: "string \<Rightarrow> time \<Rightarrow> duration \<Rightarrow> ('d, subscription list) svc" where
  "SubscriptionRepo_FindUpcomingRenewals orgId now window =
    sel (\<lambda>db. filter (\<lambda>s. sub_OrgId s = orgId \<and> sub_Status s = SubscriptionStatusActive \<and>
        sub_RenewsAt s \<noteq> 0 \<and> now < sub_RenewsAt s \<and> sub_RenewsAt s \<le> time_Add now window) (t_subscriptions db))"

text \<open>Subscriptions that own a line whose price is metered by the meter, earliest first.\<close>

definition owns_metered_line :: "'d db \<Rightarrow> string \<Rightarrow> subscription \<Rightarrow> bool" where
  "owns_metered_line db metricId s \<longleftrightarrow>
     list_ex (\<lambda>i. itm_OrgId i = sub_OrgId s \<and> col_eq (itm_SubscriptionId i) (sub_Id s) \<and>
        list_ex (\<lambda>p. prc_OrgId p = itm_OrgId i \<and> prc_Id p = itm_PriceId i \<and>
           col_eq (prc_BillableMetricId p) metricId) (t_prices db)) (t_order_items db)"

definition SubscriptionRepo_FindActiveMeteredForMeter ::
    "string \<Rightarrow> string \<Rightarrow> string \<Rightarrow> ('d, subscription list) svc" where
  "SubscriptionRepo_FindActiveMeteredForMeter orgId customerId metricId =
    sel (\<lambda>db. sort_key sub_StartDate (sort_key sub_CreatedAt
      (filter (\<lambda>s. sub_OrgId s = orgId \<and> sub_CustomerId s = customerId \<and> owns_metered_line db metricId s \<and>
          (sub_Status s = SubscriptionStatusActive \<or> sub_Status s = SubscriptionStatusTrial
           \<or> sub_Status s = SubscriptionStatusPastDue)) (t_subscriptions db))))"

section \<open>Payments (payment_repo.go, prior_payment_checker.go)\<close>

definition pay_key :: "payment \<Rightarrow> string \<times> string" where
  "pay_key p = (pay_OrgId p, pay_Id p)"

definition PaymentRepo_FindById :: "string \<Rightarrow> string \<Rightarrow> ('d, payment) svc" where
  "PaymentRepo_FindById orgId pid = selOne (\<lambda>db. find_row pay_key (orgId, pid) (t_payments db))"

definition PaymentRepo_Create :: "payment \<Rightarrow> ('d, payment) svc" where
  "PaymentRepo_Create entity =
    bindS (exec (\<lambda>db. map_option (\<lambda>rs. db\<lparr>t_payments := rs\<rparr>)
                  (insert_row (\<lambda>a b. pay_key a = pay_key b) entity (t_payments db)))) (\<lambda>_.
    PaymentRepo_FindById (pay_OrgId entity) (pay_Id entity))"

definition pay_merge :: "payment \<Rightarrow> payment \<Rightarrow> payment" where
  "pay_merge old p = p\<lparr>pay_CreatedAt := pay_CreatedAt old\<rparr>"

definition PaymentRepo_Update :: "payment \<Rightarrow> ('d, payment) svc" where
  "PaymentRepo_Update entity =
    bindS (exec (\<lambda>db. Some (db\<lparr>t_payments := update_row pay_key pay_merge entity (t_payments db)\<rparr>))) (\<lambda>_.
    PaymentRepo_FindById (pay_OrgId entity) (pay_Id entity))"

definition HasPriorSuccessfulPayment :: "string \<Rightarrow> string \<Rightarrow> ('d, bool) svc" where
  "HasPriorSuccessfulPayment orgId customerId =
    sel (\<lambda>db. list_ex (\<lambda>p. pay_OrgId p = orgId \<and> pay_Status p = PaymentStatusSucceeded \<and>
        (list_ex (\<lambda>o1. ord_OrgId o1 = orgId \<and> ord_CustomerId o1 = customerId \<and> ord_Id o1 = pay_OrderId p) (t_orders db) \<or>
         list_ex (\<lambda>s. sub_OrgId s = orgId \<and> sub_CustomerId s = customerId \<and> col_eq (pay_SubscriptionId p) (sub_Id s))
           (t_subscriptions db))) (t_payments db))"

section \<open>Invoices (invoice_repo.go)\<close>

definition inv_key :: "'d invoice \<Rightarrow> string \<times> string" where
  "inv_key i = (inv_OrgId i, inv_Id i)"

text \<open>The primary key, one invoice per subscription and cycle, one per positive number.\<close>

definition inv_clash :: "'d invoice \<Rightarrow> 'd invoice \<Rightarrow> bool" where
  "inv_clash a b \<longleftrightarrow> inv_OrgId a = inv_OrgId b \<and>
     (inv_Id a = inv_Id b \<or>
      col_eq (inv_SubscriptionId a) (inv_SubscriptionId b) \<and> inv_Cycle a = inv_Cycle b \<or>
      0 < inv_Number a \<and> inv_Number a = inv_Number b)"

definition invoice_lines :: "'d db \<Rightarrow> string \<Rightarrow> string \<Rightarrow> 'd invoice_line_item list" where
  "invoice_lines db orgId invoiceId =
    sort_key ili_CreatedAt (sort_key ili_Id
      (filter (\<lambda>l. ili_OrgId l = orgId \<and> ili_InvoiceId l = invoiceId) (t_invoice_lines db)))"

definition hydrate :: "'d db \<Rightarrow> 'd invoice \<Rightarrow> 'd invoice" where
  "hydrate db ivc = ivc\<lparr>inv_LineItems := invoice_lines db (inv_OrgId ivc) (inv_Id ivc)\<rparr>"

definition with_lines :: "'d invoice \<Rightarrow> ('d, 'd invoice) svc" where
  "with_lines ivc = bindS (sel (\<lambda>db. invoice_lines db (inv_OrgId ivc) (inv_Id ivc))) (\<lambda>ls.
     retS (ivc\<lparr>inv_LineItems := ls\<rparr>))"

definition InvoiceRepo_FindById :: "string \<Rightarrow> string \<Rightarrow> ('d, 'd invoice) svc" where
  "InvoiceRepo_FindById orgId iid =
    bindS (selOne (\<lambda>db. find_row inv_key (orgId, iid) (t_invoices db))) with_lines"

definition InvoiceRepo_FindBySubscriptionCycle :: "string \<Rightarrow> string \<Rightarrow> int \<Rightarrow> ('d, 'd invoice) svc" where
  "InvoiceRepo_FindBySubscriptionCycle orgId subscriptionId cycle =
    bindS (selOne (\<lambda>db. find (\<lambda>i. inv_OrgId i = orgId \<and> col_eq (inv_SubscriptionId i) subscriptionId \<and>
                                  inv_Cycle i = cycle) (t_invoices db))) with_lines"

definition InvoiceRepo_FindOrderInvoice :: "string \<Rightarrow> string \<Rightarrow> ('d, 'd invoice) svc" where
  "InvoiceRepo_FindOrderInvoice orgId orderId =
    bindS (selOne (\<lambda>db. List.find (\<lambda>_. True) (sort_key inv_CreatedAt
             (filter (\<lambda>i. inv_OrgId i = orgId \<and> col_eq (inv_OrderId i) orderId \<and> inv_Cycle i = 0)
                     (t_invoices db))))) with_lines"

text \<open>
  The constraints on amounts: no negative discount on an invoice, none on a line and
  none above the line's total.
\<close>

definition insert_invoice :: "'d invoice \<Rightarrow> 'd db \<Rightarrow> 'd db option" where
  "insert_invoice ivc db =
    (if inv_DiscountTotal ivc < 0 then None
     else map_option (\<lambda>rs. db\<lparr>t_invoices := rs\<rparr>)
            (insert_row inv_clash (ivc\<lparr>inv_LineItems := []\<rparr>) (t_invoices db)))"

definition insert_line :: "'d invoice_line_item \<Rightarrow> 'd db \<Rightarrow> 'd db option" where
  "insert_line l db =
    (if ili_DiscountTotal l < 0 \<or> ili_Total l < ili_DiscountTotal l then None
     else map_option (\<lambda>rs. db\<lparr>t_invoice_lines := rs\<rparr>)
            (insert_row (\<lambda>a b. ili_OrgId a = ili_OrgId b \<and> ili_Id a = ili_Id b) l (t_invoice_lines db)))"

definition InvoiceRepo_Create :: "'d invoice \<Rightarrow> ('d, 'd invoice) svc" where
  "InvoiceRepo_Create entity =
    bindS (RunInTx (bindS (exec (insert_invoice entity)) (\<lambda>_.
             foldS (\<lambda>_ l. exec (insert_line l)) () (inv_LineItems entity)))) (\<lambda>_.
    InvoiceRepo_FindById (inv_OrgId entity) (inv_Id entity))"

definition InvoiceRepo_NextInvoiceNumber :: "string \<Rightarrow> ('d, int) svc" where
  "InvoiceRepo_NextInvoiceNumber orgId =
    stmt (\<lambda>db. let v = (case t_invoice_counters db orgId of None \<Rightarrow> 1 | Some v \<Rightarrow> v + 1) in
      if v < 2 ^ 63 then Some (v, db\<lparr>t_invoice_counters := (t_invoice_counters db)(orgId \<mapsto> v)\<rparr>) else None)"

definition InvoiceRepo_SetInvoiceCounter :: "string \<Rightarrow> int \<Rightarrow> ('d, unit) svc" where
  "InvoiceRepo_SetInvoiceCounter orgId v =
    exec (\<lambda>db. if v < 0 then None
               else Some (db\<lparr>t_invoice_counters := (t_invoice_counters db)(orgId \<mapsto> v)\<rparr>))"

definition inv_merge :: "'d invoice \<Rightarrow> 'd invoice \<Rightarrow> 'd invoice" where
  "inv_merge old ivc = ivc\<lparr>inv_LineItems := [], inv_CreatedAt := inv_CreatedAt old\<rparr>"

definition InvoiceRepo_Update :: "'d invoice \<Rightarrow> ('d, 'd invoice) svc" where
  "InvoiceRepo_Update entity =
    bindS (exec (\<lambda>db. Some (db\<lparr>t_invoices := update_row inv_key inv_merge entity (t_invoices db)\<rparr>))) (\<lambda>_.
    InvoiceRepo_FindById (inv_OrgId entity) (inv_Id entity))"

section \<open>Coupons (coupon_repo.go, coupon_code_repo.go)\<close>

definition cpn_key :: "'d coupon \<Rightarrow> string \<times> string" where
  "cpn_key c = (cpn_OrgId c, cpn_Id c)"

definition CouponRepo_FindById :: "string \<Rightarrow> string \<Rightarrow> ('d, 'd coupon) svc" where
  "CouponRepo_FindById orgId cid = selOne (\<lambda>db. find_row cpn_key (orgId, cid) (t_coupons db))"

definition CouponRepo_Create :: "'d coupon \<Rightarrow> ('d, 'd coupon) svc" where
  "CouponRepo_Create c =
    bindS (exec (\<lambda>db. map_option (\<lambda>rs. db\<lparr>t_coupons := rs\<rparr>)
                  (insert_row (\<lambda>a b. cpn_key a = cpn_key b) c (t_coupons db)))) (\<lambda>_.
    CouponRepo_FindById (cpn_OrgId c) (cpn_Id c))"

text \<open>Only the name, the switch and the metadata change; now() is the database's clock.\<close>

definition CouponRepo_UpdateMutable ::
    "string \<Rightarrow> string \<Rightarrow> string \<Rightarrow> bool \<Rightarrow> metadata \<Rightarrow> ('d, 'd coupon) svc" where
  "CouponRepo_UpdateMutable orgId cid name active meta =
    bindS nowS (\<lambda>t.
    bindS (exec (\<lambda>db. Some (db\<lparr>t_coupons := map (\<lambda>c. if cpn_key c = (orgId, cid)
        then c\<lparr>cpn_Name := name, cpn_Active := active, cpn_Metadata := meta, cpn_UpdatedAt := t\<rparr> else c)
        (t_coupons db)\<rparr>))) (\<lambda>_.
    CouponRepo_FindById orgId cid))"

definition CouponRepo_DeleteIfUnreferenced :: "string \<Rightarrow> string \<Rightarrow> ('d, unit) svc" where
  "CouponRepo_DeleteIfUnreferenced orgId cid =
    bindS (sel (\<lambda>db. filter (\<lambda>d. dsc_OrgId d = orgId \<and> dsc_CouponId d = cid) (t_discounts db))) (\<lambda>ds.
    if ds \<noteq> [] then failS (NewCustomError BadRequestError ''coupon has discounts and cannot be deleted'' None)
    else exec (\<lambda>db.
      if list_ex (\<lambda>d. dsc_OrgId d = orgId \<and> dsc_CouponId d = cid) (t_discounts db) then None
      else Some (db\<lparr>t_coupons := filter (\<lambda>c. cpn_key c \<noteq> (orgId, cid)) (t_coupons db),
        t_coupon_codes := filter (\<lambda>c. \<not> (ccd_OrgId c = orgId \<and> ccd_CouponId c = cid)) (t_coupon_codes db),
        t_reservations := filter (\<lambda>r. \<not> (crs_OrgId r = orgId \<and> crs_CouponId r = cid)) (t_reservations db)\<rparr>)))"

definition ccd_key :: "coupon_code \<Rightarrow> string \<times> string" where
  "ccd_key c = (ccd_OrgId c, ccd_Id c)"

definition CouponCodeRepo_FindById :: "string \<Rightarrow> string \<Rightarrow> ('d, coupon_code) svc" where
  "CouponCodeRepo_FindById orgId cid = selOne (\<lambda>db. find_row ccd_key (orgId, cid) (t_coupon_codes db))"

definition CouponCodeRepo_Create :: "coupon_code \<Rightarrow> ('d, coupon_code) svc" where
  "CouponCodeRepo_Create c =
    bindS (exec (\<lambda>db. map_option (\<lambda>rs. db\<lparr>t_coupon_codes := rs\<rparr>)
      (insert_row (\<lambda>a b. ccd_OrgId a = ccd_OrgId b \<and> (ccd_Id a = ccd_Id b \<or> ccd_Code a = ccd_Code b))
        c (t_coupon_codes db)))) (\<lambda>_.
    CouponCodeRepo_FindById (ccd_OrgId c) (ccd_Id c))"

definition CouponCodeRepo_UpdateMutable :: "string \<Rightarrow> string \<Rightarrow> bool \<Rightarrow> metadata \<Rightarrow> ('d, coupon_code) svc" where
  "CouponCodeRepo_UpdateMutable orgId cid active meta =
    bindS nowS (\<lambda>t.
    bindS (exec (\<lambda>db. Some (db\<lparr>t_coupon_codes := map (\<lambda>c. if ccd_key c = (orgId, cid)
        then c\<lparr>ccd_Active := active, ccd_Metadata := meta, ccd_UpdatedAt := t\<rparr> else c) (t_coupon_codes db)\<rparr>))) (\<lambda>_.
    CouponCodeRepo_FindById orgId cid))"

definition CouponCodeRepo_IncrementRedeemed :: "string \<Rightarrow> string \<Rightarrow> ('d, unit) svc" where
  "CouponCodeRepo_IncrementRedeemed orgId cid =
    exec (\<lambda>db. Some (db\<lparr>t_coupon_codes := map (\<lambda>c. if ccd_key c = (orgId, cid)
        then c\<lparr>ccd_TimesRedeemed := ccd_TimesRedeemed c + 1\<rparr> else c) (t_coupon_codes db)\<rparr>))"

definition CouponCodeRepo_FindByCode :: "string \<Rightarrow> string \<Rightarrow> ('d, coupon_code) svc" where
  "CouponCodeRepo_FindByCode orgId code =
    selOne (\<lambda>db. find (\<lambda>c. ccd_OrgId c = orgId \<and> ToUpper (ccd_Code c) = ToUpper code) (t_coupon_codes db))"

definition CouponCodeRepo_FindByCouponId :: "string \<Rightarrow> string \<Rightarrow> ('d, coupon_code list) svc" where
  "CouponCodeRepo_FindByCouponId orgId couponId =
    sel (\<lambda>db. sort_key (\<lambda>c. - ccd_CreatedAt c)
      (filter (\<lambda>c. ccd_OrgId c = orgId \<and> ccd_CouponId c = couponId) (t_coupon_codes db)))"

section \<open>Discounts and reservations (discount_repo.go, coupon_reservation_repo.go)\<close>

definition dsc_key :: "discount \<Rightarrow> string \<times> string" where
  "dsc_key d = (dsc_OrgId d, dsc_Id d)"

definition dsc_clash :: "discount \<Rightarrow> discount \<Rightarrow> bool" where
  "dsc_clash a b \<longleftrightarrow> dsc_OrgId a = dsc_OrgId b \<and>
     (dsc_Id a = dsc_Id b \<or> dsc_CouponId a = dsc_CouponId b \<and> col_eq (dsc_SubscriptionId a) (dsc_SubscriptionId b))"

definition DiscountRepo_FindById :: "string \<Rightarrow> string \<Rightarrow> ('d, discount) svc" where
  "DiscountRepo_FindById orgId did = selOne (\<lambda>db. find_row dsc_key (orgId, did) (t_discounts db))"

definition DiscountRepo_Create :: "discount \<Rightarrow> ('d, discount) svc" where
  "DiscountRepo_Create d =
    bindS (exec (\<lambda>db. map_option (\<lambda>rs. db\<lparr>t_discounts := rs\<rparr>) (insert_row dsc_clash d (t_discounts db)))) (\<lambda>_.
    DiscountRepo_FindById (dsc_OrgId d) (dsc_Id d))"

definition DiscountRepo_ActiveForSubscription :: "string \<Rightarrow> string \<Rightarrow> ('d, discount list) svc" where
  "DiscountRepo_ActiveForSubscription orgId subscriptionId =
    sel (\<lambda>db. filter (\<lambda>d. dsc_OrgId d = orgId \<and> dsc_Status d = DiscountStatusActive \<and>
        col_eq (dsc_SubscriptionId d) subscriptionId) (t_discounts db))"

definition DiscountRepo_ActiveForOrder :: "string \<Rightarrow> string \<Rightarrow> ('d, discount list) svc" where
  "DiscountRepo_ActiveForOrder orgId orderId =
    sel (\<lambda>db. filter (\<lambda>d. dsc_OrgId d = orgId \<and> dsc_Status d = DiscountStatusActive \<and>
        col_eq (dsc_OrderId d) orderId \<and> dsc_SubscriptionId d = []) (t_discounts db))"

definition DiscountRepo_CountByCoupon :: "string \<Rightarrow> string \<Rightarrow> ('d, int) svc" where
  "DiscountRepo_CountByCoupon orgId couponId =
    sel (\<lambda>db. int (length (filter (\<lambda>d. dsc_OrgId d = orgId \<and> dsc_CouponId d = couponId) (t_discounts db))))"

definition DiscountRepo_CountByCouponAndCustomer :: "string \<Rightarrow> string \<Rightarrow> string \<Rightarrow> ('d, int) svc" where
  "DiscountRepo_CountByCouponAndCustomer orgId couponId customerId =
    sel (\<lambda>db. int (length (filter (\<lambda>d. dsc_OrgId d = orgId \<and> dsc_CouponId d = couponId \<and>
        dsc_CustomerId d = customerId) (t_discounts db))))"

definition crs_clash :: "coupon_reservation \<Rightarrow> coupon_reservation \<Rightarrow> bool" where
  "crs_clash a b \<longleftrightarrow> crs_OrgId a = crs_OrgId b \<and>
     (crs_Id a = crs_Id b \<or>
      crs_CouponId a = crs_CouponId b \<and> col_eq (crs_OrderId a) (crs_OrderId b) \<or>
      crs_CouponId a = crs_CouponId b \<and> col_eq (crs_CheckoutSessionId a) (crs_CheckoutSessionId b))"

definition ReservationRepo_Create :: "coupon_reservation \<Rightarrow> ('d, coupon_reservation) svc" where
  "ReservationRepo_Create r =
    bindS (exec (\<lambda>db. map_option (\<lambda>rs. db\<lparr>t_reservations := rs\<rparr>) (insert_row crs_clash r (t_reservations db)))) (\<lambda>_.
    selOne (\<lambda>db. find_row (\<lambda>r. (crs_OrgId r, crs_Id r)) (crs_OrgId r, crs_Id r) (t_reservations db)))"

definition ReservationRepo_FindByOrder :: "string \<Rightarrow> string \<Rightarrow> ('d, coupon_reservation list) svc" where
  "ReservationRepo_FindByOrder orgId orderId =
    sel (\<lambda>db. filter (\<lambda>r. crs_OrgId r = orgId \<and> col_eq (crs_OrderId r) orderId) (t_reservations db))"

definition ReservationRepo_DeleteByOrder :: "string \<Rightarrow> string \<Rightarrow> ('d, unit) svc" where
  "ReservationRepo_DeleteByOrder orgId orderId =
    exec (\<lambda>db. Some (db\<lparr>t_reservations :=
      filter (\<lambda>r. \<not> (crs_OrgId r = orgId \<and> col_eq (crs_OrderId r) orderId)) (t_reservations db)\<rparr>))"

definition ReservationRepo_CountLiveByCoupon :: "string \<Rightarrow> string \<Rightarrow> time \<Rightarrow> ('d, int) svc" where
  "ReservationRepo_CountLiveByCoupon orgId couponId now =
    sel (\<lambda>db. int (length (filter (\<lambda>r. crs_OrgId r = orgId \<and> crs_CouponId r = couponId \<and> IsLive r now)
                             (t_reservations db))))"

definition ReservationRepo_CountLiveByCode :: "string \<Rightarrow> string \<Rightarrow> time \<Rightarrow> ('d, int) svc" where
  "ReservationRepo_CountLiveByCode orgId codeId now =
    sel (\<lambda>db. int (length (filter (\<lambda>r. crs_OrgId r = orgId \<and> col_eq (crs_CouponCodeId r) codeId \<and> IsLive r now)
                             (t_reservations db))))"

definition ReservationRepo_ExistsLiveForCustomer :: "string \<Rightarrow> string \<Rightarrow> string \<Rightarrow> time \<Rightarrow> ('d, bool) svc" where
  "ReservationRepo_ExistsLiveForCustomer orgId couponId customerId now =
    sel (\<lambda>db. list_ex (\<lambda>r. crs_OrgId r = orgId \<and> crs_CouponId r = couponId \<and>
        col_eq (crs_CustomerId r) customerId \<and> IsLive r now) (t_reservations db))"

definition ReservationRepo_DeleteExpired :: "time \<Rightarrow> ('d, int) svc" where
  "ReservationRepo_DeleteExpired now =
    stmt (\<lambda>db. Some (int (length (filter (\<lambda>r. crs_ExpiresAt r \<le> now) (t_reservations db))),
      db\<lparr>t_reservations := filter (\<lambda>r. \<not> crs_ExpiresAt r \<le> now) (t_reservations db)\<rparr>))"

section \<open>Orders, customers, prices, settings and meters\<close>

definition ord_key :: "order \<Rightarrow> string \<times> string" where
  "ord_key o1 = (ord_OrgId o1, ord_Id o1)"

definition OrderRepo_FindById :: "string \<Rightarrow> string \<Rightarrow> ('d, order) svc" where
  "OrderRepo_FindById orgId oid = selOne (\<lambda>db. find_row ord_key (orgId, oid) (t_orders db))"

definition OrderRepo_Create :: "order \<Rightarrow> ('d, order) svc" where
  "OrderRepo_Create entity =
    bindS (exec (\<lambda>db. map_option (\<lambda>rs. db\<lparr>t_orders := rs\<rparr>)
                  (insert_row (\<lambda>a b. ord_key a = ord_key b) entity (t_orders db)))) (\<lambda>_.
    OrderRepo_FindById (ord_OrgId entity) (ord_Id entity))"

text \<open>The payment session belongs to SetPaymentSession; the general update keeps it.\<close>

definition ord_merge :: "order \<Rightarrow> order \<Rightarrow> order" where
  "ord_merge old o1 = o1\<lparr>ord_PaymentSession := ord_PaymentSession old, ord_CreatedAt := ord_CreatedAt old\<rparr>"

definition OrderRepo_Update :: "order \<Rightarrow> ('d, order) svc" where
  "OrderRepo_Update entity =
    bindS (exec (\<lambda>db. Some (db\<lparr>t_orders := update_row ord_key ord_merge entity (t_orders db)\<rparr>))) (\<lambda>_.
    OrderRepo_FindById (ord_OrgId entity) (ord_Id entity))"

definition OrderRepo_SetPaymentSession :: "string \<Rightarrow> string \<Rightarrow> string \<Rightarrow> ('d, unit) svc" where
  "OrderRepo_SetPaymentSession orgId oid session =
    bindS nowS (\<lambda>t. exec (\<lambda>db. Some (db\<lparr>t_orders := map (\<lambda>o1. if ord_key o1 = (orgId, oid)
      then o1\<lparr>ord_PaymentSession := Some session, ord_UpdatedAt := t\<rparr> else o1) (t_orders db)\<rparr>)))"

definition itm_key :: "order_item \<Rightarrow> string \<times> string" where
  "itm_key i = (itm_OrgId i, itm_Id i)"

definition OrderRepo_FindOrderItemById :: "string \<Rightarrow> string \<Rightarrow> ('d, order_item) svc" where
  "OrderRepo_FindOrderItemById orgId iid = selOne (\<lambda>db. find_row itm_key (orgId, iid) (t_order_items db))"

definition OrderRepo_CreateOrderItem :: "order_item \<Rightarrow> ('d, order_item) svc" where
  "OrderRepo_CreateOrderItem entity =
    bindS (exec (\<lambda>db. map_option (\<lambda>rs. db\<lparr>t_order_items := rs\<rparr>)
                  (insert_row (\<lambda>a b. itm_key a = itm_key b) entity (t_order_items db)))) (\<lambda>_.
    OrderRepo_FindOrderItemById (itm_OrgId entity) (itm_Id entity))"

definition itm_merge :: "order_item \<Rightarrow> order_item \<Rightarrow> order_item" where
  "itm_merge old i = i\<lparr>itm_CreatedAt := itm_CreatedAt old\<rparr>"

definition OrderRepo_UpdateOrderItem :: "order_item \<Rightarrow> ('d, order_item) svc" where
  "OrderRepo_UpdateOrderItem entity =
    bindS (exec (\<lambda>db. Some (db\<lparr>t_order_items := update_row itm_key itm_merge entity (t_order_items db)\<rparr>))) (\<lambda>_.
    OrderRepo_FindOrderItemById (itm_OrgId entity) (itm_Id entity))"

definition OrderRepo_FindOrderItemsByOrderId :: "string \<Rightarrow> string \<Rightarrow> ('d, order_item list) svc" where
  "OrderRepo_FindOrderItemsByOrderId orgId orderId =
    sel (\<lambda>db. filter (\<lambda>i. itm_OrgId i = orgId \<and> itm_OrderId i = orderId) (t_order_items db))"

definition OrderRepo_FindOrderItemsBySubscriptionId :: "string \<Rightarrow> string \<Rightarrow> ('d, order_item list) svc" where
  "OrderRepo_FindOrderItemsBySubscriptionId orgId subscriptionId =
    sel (\<lambda>db. filter (\<lambda>i. itm_OrgId i = orgId \<and> col_eq (itm_SubscriptionId i) subscriptionId) (t_order_items db))"

definition CustomerRepo_FindById :: "string \<Rightarrow> string \<Rightarrow> ('d, customer) svc" where
  "CustomerRepo_FindById orgId cid =
    selOne (\<lambda>db. find_row (\<lambda>c. (cus_OrgId c, cus_Id c)) (orgId, cid) (t_customers db))"

definition CustomerRepo_FindByExternalId :: "string \<Rightarrow> string \<Rightarrow> ('d, customer) svc" where
  "CustomerRepo_FindByExternalId orgId externalId =
    selOne (\<lambda>db. find (\<lambda>c. cus_OrgId c = orgId \<and> col_eq (cus_ExternalId c) externalId) (t_customers db))"

definition CustomerRepo_FindPaymentMethodById :: "string \<Rightarrow> string \<Rightarrow> ('d, payment_method) svc" where
  "CustomerRepo_FindPaymentMethodById orgId pid =
    selOne (\<lambda>db. find_row (\<lambda>p. (pmd_OrgId p, pmd_Id p)) (orgId, pid) (t_payment_methods db))"

definition PriceRepo_FindById :: "string \<Rightarrow> string \<Rightarrow> ('d, 'd price) svc" where
  "PriceRepo_FindById orgId pid =
    selOne (\<lambda>db. find_row (\<lambda>p. (prc_OrgId p, prc_Id p)) (orgId, pid) (t_prices db))"

definition set_key :: "setting \<Rightarrow> string \<times> string \<times> string" where
  "set_key s = (set_OrgId s, set_ParentId s, set_Id s)"

definition SettingRepo_FindById :: "string \<Rightarrow> string \<Rightarrow> string \<Rightarrow> ('d, setting) svc" where
  "SettingRepo_FindById orgId parentId sid =
    selOne (\<lambda>db. find_row set_key (orgId, parentId, sid) (t_settings db))"

text \<open>On conflict the value, its type and the time of the change are written, not the creation time.\<close>

definition SettingRepo_Upsert :: "setting \<Rightarrow> ('d, setting) svc" where
  "SettingRepo_Upsert entity =
    bindS (exec (\<lambda>db. Some (db\<lparr>t_settings :=
      (if set_key entity \<in> set_key ` set (t_settings db)
       then map (\<lambda>r. if set_key r = set_key entity
              then r\<lparr>set_Value := set_Value entity, set_Type := set_Type entity, set_UpdatedAt := set_UpdatedAt entity\<rparr> else r)
              (t_settings db)
       else t_settings db @ [entity])\<rparr>))) (\<lambda>_.
    SettingRepo_FindById (set_OrgId entity) (set_ParentId entity) (set_Id entity))"

definition MeterRepo_FindByCode :: "string \<Rightarrow> string \<Rightarrow> ('d, billable_metric) svc" where
  "MeterRepo_FindByCode orgId code =
    selOne (\<lambda>db. find (\<lambda>m. met_OrgId m = orgId \<and> met_Code m = code) (t_metrics db))"

definition MeterRepo_FindById :: "string \<Rightarrow> string \<Rightarrow> ('d, billable_metric) svc" where
  "MeterRepo_FindById orgId mid =
    selOne (\<lambda>db. find_row (\<lambda>m. (met_OrgId m, met_Id m)) (orgId, mid) (t_metrics db))"

definition MeterRepo_Create :: "billable_metric \<Rightarrow> ('d, billable_metric) svc" where
  "MeterRepo_Create m =
    bindS (exec (\<lambda>db. map_option (\<lambda>rs. db\<lparr>t_metrics := rs\<rparr>)
      (insert_row (\<lambda>a b. met_OrgId a = met_OrgId b \<and> (met_Id a = met_Id b \<or> met_Code a = met_Code b))
        m (t_metrics db)))) (\<lambda>_.
    MeterRepo_FindByCode (met_OrgId m) (met_Code m))"

section \<open>Dunning (dunning_repo.go)\<close>

definition cmp_key :: "dunning_campaign \<Rightarrow> string \<times> string" where
  "cmp_key c = (cmp_OrgId c, cmp_Id c)"

definition DunningRepo_FindCampaignById :: "string \<Rightarrow> string \<Rightarrow> ('d, dunning_campaign) svc" where
  "DunningRepo_FindCampaignById orgId cid = selOne (\<lambda>db. find_row cmp_key (orgId, cid) (t_campaigns db))"

definition DunningRepo_CreateCampaign :: "dunning_campaign \<Rightarrow> ('d, dunning_campaign) svc" where
  "DunningRepo_CreateCampaign c =
    bindS (exec (\<lambda>db. map_option (\<lambda>rs. db\<lparr>t_campaigns := rs\<rparr>)
                  (insert_row (\<lambda>a b. cmp_key a = cmp_key b) c (t_campaigns db)))) (\<lambda>_.
    DunningRepo_FindCampaignById (cmp_OrgId c) (cmp_Id c))"

definition cmp_merge :: "dunning_campaign \<Rightarrow> dunning_campaign \<Rightarrow> dunning_campaign" where
  "cmp_merge old c = c\<lparr>cmp_CreatedAt := cmp_CreatedAt old\<rparr>"

definition DunningRepo_UpdateCampaign :: "dunning_campaign \<Rightarrow> ('d, dunning_campaign) svc" where
  "DunningRepo_UpdateCampaign c =
    bindS (exec (\<lambda>db. Some (db\<lparr>t_campaigns := update_row cmp_key cmp_merge c (t_campaigns db)\<rparr>))) (\<lambda>_.
    DunningRepo_FindCampaignById (cmp_OrgId c) (cmp_Id c))"

definition DunningRepo_CreateAttempt :: "dunning_attempt \<Rightarrow> ('d, dunning_attempt) svc" where
  "DunningRepo_CreateAttempt a =
    bindS (exec (\<lambda>db. map_option (\<lambda>rs. db\<lparr>t_attempts := rs\<rparr>)
      (insert_row (\<lambda>x y. att_OrgId x = att_OrgId y \<and> att_Id x = att_Id y) a (t_attempts db)))) (\<lambda>_.
    selOne (\<lambda>db. find_row (\<lambda>x. (att_OrgId x, att_Id x)) (att_OrgId a, att_Id a) (t_attempts db)))"

definition tok_key :: "payment_update_token \<Rightarrow> string \<times> string" where
  "tok_key t = (tok_OrgId t, tok_TokenId t)"

definition DunningRepo_FindTokenById :: "string \<Rightarrow> string \<Rightarrow> ('d, payment_update_token) svc" where
  "DunningRepo_FindTokenById orgId tid = selOne (\<lambda>db. find_row tok_key (orgId, tid) (t_tokens db))"

definition DunningRepo_CreateToken :: "payment_update_token \<Rightarrow> ('d, payment_update_token) svc" where
  "DunningRepo_CreateToken t =
    bindS (exec (\<lambda>db. map_option (\<lambda>rs. db\<lparr>t_tokens := rs\<rparr>)
                  (insert_row (\<lambda>a b. tok_key a = tok_key b) t (t_tokens db)))) (\<lambda>_.
    DunningRepo_FindTokenById (tok_OrgId t) (tok_TokenId t))"

definition tok_merge :: "payment_update_token \<Rightarrow> payment_update_token \<Rightarrow> payment_update_token" where
  "tok_merge old t = t\<lparr>tok_CreatedAt := tok_CreatedAt old\<rparr>"

definition DunningRepo_UpdateToken :: "payment_update_token \<Rightarrow> ('d, payment_update_token) svc" where
  "DunningRepo_UpdateToken t =
    bindS (exec (\<lambda>db. Some (db\<lparr>t_tokens := update_row tok_key tok_merge t (t_tokens db)\<rparr>))) (\<lambda>_.
    DunningRepo_FindTokenById (tok_OrgId t) (tok_TokenId t))"

definition DunningRepo_FindConfigurationsByPriority :: "string \<Rightarrow> ('d, dunning_configuration list) svc" where
  "DunningRepo_FindConfigurationsByPriority orgId =
    sel (\<lambda>db. sort_key (\<lambda>c. - dcn_Priority c)
      (filter (\<lambda>c. dcn_OrgId c = orgId \<and> dcn_Status c = ConfigStatusActive) (t_configurations db)))"

section \<open>Laws of tables\<close>

lemma find_row_key: "find_row key k rows = Some r \<Longrightarrow> key r = k \<and> r \<in> set rows"
  by (auto simp: find_row_def find_Some_iff in_set_conv_nth)

lemma find_row_None: "find_row key k rows = None \<longleftrightarrow> k \<notin> key ` set rows"
  by (auto simp: find_row_def find_None_iff)

lemma find_row_append: "find_row key k (xs @ ys) = (case find_row key k xs of None \<Rightarrow> find_row key k ys | Some r \<Rightarrow> Some r)"
  by (induction xs) (simp_all add: find_row_def)

lemma find_row_update:
  assumes "\<And>old. key old = key r \<Longrightarrow> key (merge old r) = key r"
  shows "find_row key k (update_row key merge r rows) =
    (if k = key r then map_option (\<lambda>old. merge old r) (find_row key k rows) else find_row key k rows)"
  using assms by (induction rows) (auto simp: find_row_def update_row_def)

lemma find_row_insert:
  assumes "insert_row clash r rows = Some rs" and "\<And>b. key r = key b \<Longrightarrow> clash r b"
  shows "find_row key k rs = (if k = key r then Some r else find_row key k rows)"
proof -
  have rs: "rs = rows @ [r]" and no: "\<And>b. b \<in> set rows \<Longrightarrow> key b \<noteq> key r"
    using assms by (fastforce simp: insert_row_def list_ex_iff split: if_splits)+
  have "find_row key (key r) rows = None" using no by (fastforce simp: find_row_None)
  then show ?thesis unfolding rs find_row_append by (auto simp: find_row_def split: option.split)
qed

lemma filter_update_row:
  assumes "\<And>old. key old = key r \<Longrightarrow> \<not> P old \<and> \<not> P (merge old r)"
  shows "filter P (update_row key merge r rows) = filter P rows"
  using assms by (induction rows) (auto simp: update_row_def)

lemma filter_insert_row: "insert_row clash r rows = Some rs \<Longrightarrow> \<not> P r \<Longrightarrow> filter P rs = filter P rows"
  by (auto simp: insert_row_def split: if_splits)

lemma filter_map_other:
  assumes "\<And>x. x \<in> set xs \<Longrightarrow> P x \<Longrightarrow> f x = x" and "\<And>x. x \<in> set xs \<Longrightarrow> P (f x) = P x"
  shows "filter P (map f xs) = filter P xs"
  using assms by (induction xs) auto

section \<open>The contract of a repository\<close>

text \<open>
  Loading a row does not change the database and gives the row of the key; storing
  a row changes the row of its key and no other, and returns what is stored from
  then on.  The services' read-modify-write steps rest on this contract alone.
\<close>

locale repository =
  fixes key :: "'r \<Rightarrow> 'k" and rows :: "'d db \<Rightarrow> 'k \<Rightarrow> 'r option"
    and load :: "'k \<Rightarrow> ('d, 'r) svc" and store :: "'r \<Rightarrow> ('d, 'r) svc" and merge :: "'r \<Rightarrow> 'r \<Rightarrow> 'r"
  assumes load_ok: "load k w = (Inr r, w1) \<Longrightarrow> w_db w1 = w_db w \<and> rows (w_db w) k = Some r \<and> key r = k"
    and store_ok: "store r w = (Inr r1, w1) \<Longrightarrow>
      (\<exists>old. rows (w_db w) (key r) = Some old \<and> r1 = merge old r) \<and>
      rows (w_db w1) (key r) = Some r1 \<and> (\<forall>k. k \<noteq> key r \<longrightarrow> rows (w_db w1) k = rows (w_db w) k)"
begin

lemma read_modify_write:
  assumes "bindS (load k) (\<lambda>r. store (f r)) w = (Inr r1, w1)" and "\<And>r. key r = k \<Longrightarrow> key (f r) = k"
  shows "\<exists>old. rows (w_db w) k = Some old \<and> r1 = merge old (f old) \<and> rows (w_db w1) k = Some r1 \<and>
    (\<forall>j. j \<noteq> k \<longrightarrow> rows (w_db w1) j = rows (w_db w) j)"
proof -
  obtain r w0 where l: "load k w = (Inr r, w0)" and s: "store (f r) w0 = (Inr r1, w1)"
    using assms(1) by (auto simp: bindS_Inr)
  note l' = load_ok[OF l]
  then have k: "key (f r) = k" using assms(2) by blast
  show ?thesis using store_ok[OF s] l' unfolding k by auto
qed

lemma load_after_store:
  assumes "store r w = (Inr r1, w1)" and "load (key r) w1 = (Inr r2, w2)"
  shows "r2 = r1"
  using store_ok[OF assms(1)] load_ok[OF assms(2)] by auto

end

lemma update_row_law:
  assumes upd: "bindS (exec (\<lambda>db. Some (put (update_row key merge r (get db)) db))) (\<lambda>_. selOne (\<lambda>db. find_row key (key r) (get db))) w
      = (Inr r1, w1)"
    and lens: "\<And>rs db. get (put rs db) = rs"
    and keys: "\<And>old. key old = key r \<Longrightarrow> key (merge old r) = key r"
  shows "(\<exists>old. find_row key (key r) (get (w_db w)) = Some old \<and> r1 = merge old r) \<and>
    find_row key (key r) (get (w_db w1)) = Some r1 \<and>
    (\<forall>k. k \<noteq> key r \<longrightarrow> find_row key k (get (w_db w1)) = find_row key k (get (w_db w)))"
  using upd by (auto simp: ok_simps lens find_row_update[of key r merge, OF keys])

interpretation subs: repository sub_key "\<lambda>db k. find_row sub_key k (t_subscriptions db)"
  "\<lambda>k. SubscriptionRepo_FindById (fst k) (snd k)" SubscriptionRepo_Update sub_merge
proof (unfold_locales, goal_cases)
  case (1 k w r w1)
  then show ?case by (auto simp: SubscriptionRepo_FindById_def ok_simps dest: find_row_key)
next
  case (2 r w r1 w1)
  show ?case
  proof (rule update_row_law[where get = t_subscriptions and put = "\<lambda>rs db. db\<lparr>t_subscriptions := rs\<rparr>"])
    show "bindS (exec (\<lambda>db. Some (db\<lparr>t_subscriptions := update_row sub_key sub_merge r (t_subscriptions db)\<rparr>)))
        (\<lambda>_. selOne (\<lambda>db. find_row sub_key (sub_key r) (t_subscriptions db))) w = (Inr r1, w1)"
      using 2 by (simp add: SubscriptionRepo_Update_def SubscriptionRepo_FindById_def sub_key_def[of r])
  qed (simp_all add: sub_key_def sub_merge_def)
qed

interpretation camps: repository cmp_key "\<lambda>db k. find_row cmp_key k (t_campaigns db)"
  "\<lambda>k. DunningRepo_FindCampaignById (fst k) (snd k)" DunningRepo_UpdateCampaign cmp_merge
proof (unfold_locales, goal_cases)
  case (1 k w r w1)
  then show ?case by (auto simp: DunningRepo_FindCampaignById_def ok_simps dest: find_row_key)
next
  case (2 r w r1 w1)
  show ?case
  proof (rule update_row_law[where get = t_campaigns and put = "\<lambda>rs db. db\<lparr>t_campaigns := rs\<rparr>"])
    show "bindS (exec (\<lambda>db. Some (db\<lparr>t_campaigns := update_row cmp_key cmp_merge r (t_campaigns db)\<rparr>)))
        (\<lambda>_. selOne (\<lambda>db. find_row cmp_key (cmp_key r) (t_campaigns db))) w = (Inr r1, w1)"
      using 2 by (simp add: DunningRepo_UpdateCampaign_def DunningRepo_FindCampaignById_def cmp_key_def[of r])
  qed (simp_all add: cmp_key_def cmp_merge_def)
qed

interpretation toks: repository tok_key "\<lambda>db k. find_row tok_key k (t_tokens db)"
  "\<lambda>k. DunningRepo_FindTokenById (fst k) (snd k)" DunningRepo_UpdateToken tok_merge
proof (unfold_locales, goal_cases)
  case (1 k w r w1)
  then show ?case by (auto simp: DunningRepo_FindTokenById_def ok_simps dest: find_row_key)
next
  case (2 r w r1 w1)
  show ?case
  proof (rule update_row_law[where get = t_tokens and put = "\<lambda>rs db. db\<lparr>t_tokens := rs\<rparr>"])
    show "bindS (exec (\<lambda>db. Some (db\<lparr>t_tokens := update_row tok_key tok_merge r (t_tokens db)\<rparr>)))
        (\<lambda>_. selOne (\<lambda>db. find_row tok_key (tok_key r) (t_tokens db))) w = (Inr r1, w1)"
      using 2 by (simp add: DunningRepo_UpdateToken_def DunningRepo_FindTokenById_def tok_key_def[of r])
  qed (simp_all add: tok_key_def tok_merge_def)
qed

text \<open>An invoice is its row with the lines of the line table.\<close>

definition invoice_at :: "'d db \<Rightarrow> string \<times> string \<Rightarrow> 'd invoice option" where
  "invoice_at db k = map_option (hydrate db) (find_row inv_key k (t_invoices db))"

lemma with_lines_Inr: "with_lines ivc w = (Inr r, w1) \<longleftrightarrow>
    stmt_ok w \<and> r = hydrate (w_db w) ivc \<and> w1 = w\<lparr>w_stmts := Suc (w_stmts w)\<rparr>"
  by (auto simp: with_lines_def ok_simps hydrate_def)

lemma invoice_load_ok:
  assumes "InvoiceRepo_FindById orgId iid w = (Inr r, w1)"
  shows "w_db w1 = w_db w" and "invoice_at (w_db w) (orgId, iid) = Some r" and "inv_key r = (orgId, iid)"
proof -
  obtain r0 where f: "find_row inv_key (orgId, iid) (t_invoices (w_db w)) = Some r0" and r: "r = hydrate (w_db w) r0"
    and w1: "w_db w1 = w_db w"
    using assms by (auto simp: InvoiceRepo_FindById_def ok_simps with_lines_Inr)
  show "w_db w1 = w_db w" by (rule w1)
  show "invoice_at (w_db w) (orgId, iid) = Some r" using f r by (simp add: invoice_at_def)
  show "inv_key r = (orgId, iid)" using find_row_key[OF f] r by (simp add: inv_key_def hydrate_def)
qed

definition inv_stored :: "'d invoice \<Rightarrow> 'd invoice \<Rightarrow> 'd invoice" where
  "inv_stored old ivc = ivc\<lparr>inv_LineItems := inv_LineItems old, inv_CreatedAt := inv_CreatedAt old\<rparr>"

interpretation invs: repository inv_key invoice_at
  "\<lambda>k. InvoiceRepo_FindById (fst k) (snd k)" InvoiceRepo_Update inv_stored
proof (unfold_locales, goal_cases)
  case (1 k w r w1)
  then show ?case using invoice_load_ok[of "fst k" "snd k" w r w1] by simp
next
  case (2 r w r1 w1)
  obtain w2 where e: "exec (\<lambda>db. Some (db\<lparr>t_invoices := update_row inv_key inv_merge r (t_invoices db)\<rparr>)) w = (Inr (), w2)"
    and l: "InvoiceRepo_FindById (inv_OrgId r) (inv_Id r) w2 = (Inr r1, w1)"
    using 2 by (auto simp: InvoiceRepo_Update_def bindS_Inr)
  have db: "w_db w2 = (w_db w)\<lparr>t_invoices := update_row inv_key inv_merge r (t_invoices (w_db w))\<rparr>"
    using e by (auto simp: ok_simps)
  have f: "find_row inv_key k (t_invoices (w_db w2)) =
      (if k = inv_key r then map_option (\<lambda>old. inv_merge old r) (find_row inv_key k (t_invoices (w_db w)))
       else find_row inv_key k (t_invoices (w_db w)))" for k
    unfolding db by (simp add: find_row_update[of inv_key r inv_merge] inv_key_def inv_merge_def)
  have h: "hydrate (w_db w2) x = hydrate (w_db w) x" for x
    unfolding db by (simp add: hydrate_def invoice_lines_def)
  note l' = invoice_load_ok[OF l, folded inv_key_def[of r]]
  show ?case
  proof (intro conjI allI impI)
    obtain old where old: "find_row inv_key (inv_key r) (t_invoices (w_db w)) = Some old"
      and r1: "r1 = hydrate (w_db w) (inv_merge old r)"
      using l'(2) f[of "inv_key r"] by (auto simp: invoice_at_def h)
    have "inv_OrgId old = inv_OrgId r" "inv_Id old = inv_Id r"
      using find_row_key[OF old] by (simp_all add: inv_key_def)
    then show "\<exists>old. invoice_at (w_db w) (inv_key r) = Some old \<and> r1 = inv_stored old r"
      using old r1 by (intro exI[of _ "hydrate (w_db w) old"])
        (simp add: invoice_at_def inv_stored_def inv_merge_def hydrate_def)
    show "invoice_at (w_db w1) (inv_key r) = Some r1" using l' by simp
    show "invoice_at (w_db w1) k = invoice_at (w_db w) k" if "k \<noteq> inv_key r" for k
      using f[of k] that h l'(1) unfolding invoice_at_def by (metis (mono_tags, lifting) option.map_cong0)
  qed
qed

end
