(* ===== verification/Tenancy.thy ===== *)
theory Tenancy
  imports Repositories
begin

text \<open>
  Tenant isolation: every table but the two that guard against repetition carries the
  organisation, and a step taken for one
  organisation leaves the rows of every other one alone.  The relation is an
  instance of the step relations of Store, so each service inherits it from the
  statements it runs.
\<close>

definition tenant_view :: "string \<Rightarrow> 'd db \<Rightarrow> 'd db" where
  "tenant_view o1 db =
    \<lparr> t_subscriptions = filter (\<lambda>r. sub_OrgId r = o1) (t_subscriptions db),
      t_payments = filter (\<lambda>r. pay_OrgId r = o1) (t_payments db),
      t_invoices = filter (\<lambda>r. inv_OrgId r = o1) (t_invoices db),
      t_invoice_lines = filter (\<lambda>r. ili_OrgId r = o1) (t_invoice_lines db),
      t_invoice_counters = (\<lambda>k. if k = o1 then t_invoice_counters db k else None),
      t_coupons = filter (\<lambda>r. cpn_OrgId r = o1) (t_coupons db),
      t_coupon_codes = filter (\<lambda>r. ccd_OrgId r = o1) (t_coupon_codes db),
      t_discounts = filter (\<lambda>r. dsc_OrgId r = o1) (t_discounts db),
      t_reservations = filter (\<lambda>r. crs_OrgId r = o1) (t_reservations db),
      t_orders = filter (\<lambda>r. ord_OrgId r = o1) (t_orders db),
      t_order_items = filter (\<lambda>r. itm_OrgId r = o1) (t_order_items db),
      t_sessions = filter (\<lambda>r. ses_OrgId r = o1) (t_sessions db),
      t_carts = filter (\<lambda>r. crt_OrgId r = o1) (t_carts db),
      t_products = filter (\<lambda>r. pdt_OrgId r = o1) (t_products db),
      t_customers = filter (\<lambda>r. cus_OrgId r = o1) (t_customers db),
      t_payment_methods = filter (\<lambda>r. pmd_OrgId r = o1) (t_payment_methods db),
      t_prices = filter (\<lambda>r. prc_OrgId r = o1) (t_prices db),
      t_metrics = filter (\<lambda>r. met_OrgId r = o1) (t_metrics db),
      t_meter_events = filter (\<lambda>r. mev_OrgId r = o1) (t_meter_events db),
      t_settings = filter (\<lambda>r. set_OrgId r = o1) (t_settings db),
      t_campaigns = filter (\<lambda>r. cmp_OrgId r = o1) (t_campaigns db),
      t_attempts = filter (\<lambda>r. att_OrgId r = o1) (t_attempts db),
      t_tokens = filter (\<lambda>r. tok_OrgId r = o1) (t_tokens db),
      t_configurations = filter (\<lambda>r. dcn_OrgId r = o1) (t_configurations db),
      t_variants = filter (\<lambda>r. var_OrgId r = o1) (t_variants db),
      t_refunds = filter (\<lambda>r. rfd_OrgId r = o1) (t_refunds db),
      t_orgs = filter (\<lambda>r. org_Id r = o1) (t_orgs db),
      t_webhooks = filter (\<lambda>r. whs_OrgID r = o1) (t_webhooks db),
      t_idempotency_keys = [], t_idempotency_requests = [],
      t_api_keys = filter (\<lambda>r. apk_OrgId r = o1) (t_api_keys db),
      t_cohorts = filter (\<lambda>r. coh_OrgId r = o1) (t_cohorts db),
      t_customer_cohorts = filter (\<lambda>r. ccm_OrgId r = o1) (t_customer_cohorts db),
      t_metadata = filter (\<lambda>r. mds_OrgId r = o1) (t_metadata db),
      t_gateways = filter (\<lambda>r. psp_OrgId r = o1) (t_gateways db),
      t_outbox = filter (\<lambda>r. obx_OrgId r = o1) (t_outbox db) \<rparr>"

definition isolates :: "string \<Rightarrow> 'd db \<Rightarrow> 'd db \<Rightarrow> bool" where
  "isolates org a b \<longleftrightarrow> (\<forall>o1. o1 \<noteq> org \<longrightarrow> tenant_view o1 a = tenant_view o1 b)"

interpretation iso: step_relation "isolates org" for org
  by unfold_locales (auto simp: isolates_def)

lemma isolatesI: "(\<And>o1. o1 \<noteq> org \<Longrightarrow> tenant_view o1 a = tenant_view o1 b) \<Longrightarrow> isolates org a b"
  by (simp add: isolates_def)

lemmas tenant = isolates_def tenant_view_def

section \<open>The writing operations of the repositories\<close>

lemma iso_subs_update [obey]: "sub_OrgId s = org \<Longrightarrow> obeys (isolates org) (SubscriptionRepo_Update s)"
  unfolding SubscriptionRepo_Update_def SubscriptionRepo_FindById_def
  by (intro iso.obeys_bind iso.obeys_exec iso.obeys_selOne)
    (auto simp: tenant sub_key_def sub_merge_def intro!: filter_update_row[symmetric])

lemma iso_subs_create [obey]: "sub_OrgId s = org \<Longrightarrow> obeys (isolates org) (SubscriptionRepo_Create s)"
  unfolding SubscriptionRepo_Create_def SubscriptionRepo_FindById_def
  by (intro iso.obeys_bind iso.obeys_exec iso.obeys_selOne)
    (auto simp: tenant filter_insert_row)

lemma iso_pay_create [obey]: "pay_OrgId s = org \<Longrightarrow> obeys (isolates org) (PaymentRepo_Create s)"
  unfolding PaymentRepo_Create_def PaymentRepo_FindById_def
  by (intro iso.obeys_bind iso.obeys_exec iso.obeys_selOne)
    (auto simp: tenant filter_insert_row)

lemma iso_invoice_find [obey]: "obeys (isolates org) (InvoiceRepo_FindById a b)"
  "obeys (isolates org) (InvoiceRepo_FindBySubscriptionCycle a b n)"
  "obeys (isolates org) (InvoiceRepo_FindOrderInvoice a b)"
  unfolding InvoiceRepo_FindById_def InvoiceRepo_FindBySubscriptionCycle_def InvoiceRepo_FindOrderInvoice_def with_lines_def
  by (intro iso.obeys_bind; simp)+

lemma iso_invoice_update [obey]: "inv_OrgId i = org \<Longrightarrow> obeys (isolates org) (InvoiceRepo_Update i)"
  unfolding InvoiceRepo_Update_def
  by (intro iso.obeys_bind iso.obeys_exec obey)
    (auto simp: tenant inv_key_def inv_merge_def intro!: filter_update_row[symmetric])

lemma iso_invoice_create [obey]:
  assumes "inv_OrgId i = org" and "\<And>l. l \<in> set (inv_LineItems i) \<Longrightarrow> ili_OrgId l = org"
  shows "obeys (isolates org) (InvoiceRepo_Create i)"
  unfolding InvoiceRepo_Create_def
  by (intro iso.obeys_intros iso.obeys_exec obey)
    (use assms in \<open>auto simp: tenant insert_invoice_def insert_line_def filter_insert_row split: if_splits\<close>)

lemma iso_invoice_counter [obey]: "obeys (isolates org) (InvoiceRepo_NextInvoiceNumber org)"
  "obeys (isolates org) (InvoiceRepo_SetInvoiceCounter org v)"
  unfolding InvoiceRepo_NextInvoiceNumber_def InvoiceRepo_SetInvoiceCounter_def
  by (auto intro!: iso.obeys_stmt iso.obeys_exec simp: tenant Let_def fun_eq_iff split: if_splits option.splits)

lemma iso_coupon_update [obey]: "obeys (isolates org) (CouponRepo_UpdateMutable org b n a m)"
  "obeys (isolates org) (CouponCodeRepo_UpdateMutable org b a m)"
  "obeys (isolates org) (CouponCodeRepo_IncrementRedeemed org b)"
  unfolding CouponRepo_UpdateMutable_def CouponRepo_FindById_def CouponCodeRepo_UpdateMutable_def
    CouponCodeRepo_FindById_def CouponCodeRepo_IncrementRedeemed_def
  by (intro iso.obeys_intros iso.obeys_exec iso.obeys_now iso.obeys_selOne;
      auto simp: tenant cpn_key_def ccd_key_def intro!: filter_map_other[symmetric])+

lemma iso_coupon_create [obey]: "cpn_OrgId c = org \<Longrightarrow> obeys (isolates org) (CouponRepo_Create c)"
  "ccd_OrgId d = org \<Longrightarrow> obeys (isolates org) (CouponCodeRepo_Create d)"
  unfolding CouponRepo_Create_def CouponRepo_FindById_def CouponCodeRepo_Create_def CouponCodeRepo_FindById_def
  by (intro iso.obeys_bind iso.obeys_exec iso.obeys_selOne; auto simp: tenant filter_insert_row)+

lemma iso_discount_create [obey]: "dsc_OrgId d = org \<Longrightarrow> obeys (isolates org) (DiscountRepo_Create d)"
  unfolding DiscountRepo_Create_def DiscountRepo_FindById_def
  by (intro iso.obeys_bind iso.obeys_exec iso.obeys_selOne) (auto simp: tenant filter_insert_row)

lemma iso_reservation [obey]: "crs_OrgId r = org \<Longrightarrow> obeys (isolates org) (ReservationRepo_Create r)"
  unfolding ReservationRepo_Create_def
  by (intro iso.obeys_bind iso.obeys_exec iso.obeys_selOne) (auto simp: tenant filter_insert_row)

lemma iso_reservation_delete [obey]: "obeys (isolates org) (ReservationRepo_DeleteByOrder org b)"
  unfolding ReservationRepo_DeleteByOrder_def
  by (intro iso.obeys_exec) (auto simp: tenant filter_filter intro!: filter_cong)

lemma iso_item_update [obey]: "itm_OrgId i = org \<Longrightarrow> obeys (isolates org) (OrderRepo_UpdateOrderItem i)"
  unfolding OrderRepo_UpdateOrderItem_def OrderRepo_FindOrderItemById_def
  by (intro iso.obeys_bind iso.obeys_exec iso.obeys_selOne)
    (auto simp: tenant itm_key_def itm_merge_def intro!: filter_update_row[symmetric])

lemma iso_order_update [obey]: "ord_OrgId i = org \<Longrightarrow> obeys (isolates org) (OrderRepo_Update i)"
  unfolding OrderRepo_Update_def OrderRepo_FindById_def
  by (intro iso.obeys_bind iso.obeys_exec iso.obeys_selOne)
    (auto simp: tenant ord_key_def ord_merge_def intro!: filter_update_row[symmetric])

lemma iso_campaign [obey]: "cmp_OrgId c = org \<Longrightarrow> obeys (isolates org) (DunningRepo_CreateCampaign c)"
  "cmp_OrgId c = org \<Longrightarrow> obeys (isolates org) (DunningRepo_UpdateCampaign c)"
  unfolding DunningRepo_CreateCampaign_def DunningRepo_UpdateCampaign_def DunningRepo_FindCampaignById_def
  by (intro iso.obeys_bind iso.obeys_exec iso.obeys_selOne; auto simp: tenant filter_insert_row cmp_key_def cmp_merge_def
      intro!: filter_update_row[symmetric])+

lemma iso_attempt [obey]: "att_OrgId c = org \<Longrightarrow> obeys (isolates org) (DunningRepo_CreateAttempt c)"
  unfolding DunningRepo_CreateAttempt_def
  by (intro iso.obeys_bind iso.obeys_exec iso.obeys_selOne; auto simp: tenant filter_insert_row)+

lemma iso_token [obey]: "tok_OrgId c = org \<Longrightarrow> obeys (isolates org) (DunningRepo_CreateToken c)"
  "tok_OrgId c = org \<Longrightarrow> obeys (isolates org) (DunningRepo_UpdateToken c)"
  unfolding DunningRepo_CreateToken_def DunningRepo_UpdateToken_def DunningRepo_FindTokenById_def
  by (intro iso.obeys_bind iso.obeys_exec iso.obeys_selOne; auto simp: tenant filter_insert_row tok_key_def tok_merge_def
      intro!: filter_update_row[symmetric])+

lemma iso_metric [obey]: "met_OrgId c = org \<Longrightarrow> obeys (isolates org) (MeterRepo_Create c)"
  unfolding MeterRepo_Create_def MeterRepo_FindByCode_def
  by (intro iso.obeys_bind iso.obeys_exec iso.obeys_selOne; auto simp: tenant filter_insert_row)+

lemma iso_outbox_Create [obey]:
  assumes "obx_OrgId ev = org"
  shows "obeys (isolates org) (outbox_Create ev)"
proof (rule obeysI)
  fix w r w1
  assume "outbox_Create ev w = (r, w1)"
  then have "exec (\<lambda>db. Some (db\<lparr>t_outbox := t_outbox db @ [ev\<lparr>obx_Id := w_seq w\<rparr>]\<rparr>)) (w\<lparr>w_seq := w_seq w + 1\<rparr>) = (r, w1)"
    by (simp add: outbox_Create_def)
  moreover have "obeys (isolates org) (exec (\<lambda>db. Some (db\<lparr>t_outbox := t_outbox db @ [ev\<lparr>obx_Id := w_seq w\<rparr>]\<rparr>)))"
    using assms by (intro iso.obeys_exec) (auto simp: tenant)
  ultimately show "isolates org (w_db w) (w_db w1)" using obeysD by fastforce
qed

lemma iso_Publish [obey]: "obeys (isolates org) (Publish org t m)"
  unfolding Publish_def by (intro iso.obeys_bind obey) simp_all

section \<open>Rows read for one organisation\<close>

lemma found_sub: "yields (SubscriptionRepo_FindById o1 i) s \<Longrightarrow> sub_OrgId s = o1 \<and> sub_Id s = i"
  "yields (SubscriptionRepo_FindByIdForUpdate o1 i) s \<Longrightarrow> sub_OrgId s = o1 \<and> sub_Id s = i"
  by (auto simp: SubscriptionRepo_FindById_def SubscriptionRepo_FindByIdForUpdate_def sub_key_def
      dest!: yields_selOne find_row_key)

lemma found_campaign: "yields (DunningRepo_FindCampaignById o1 i) c \<Longrightarrow> cmp_OrgId c = o1 \<and> cmp_Id c = i"
  by (auto simp: DunningRepo_FindCampaignById_def cmp_key_def dest!: yields_selOne find_row_key)

lemma found_token: "yields (DunningRepo_FindTokenById o1 i) c \<Longrightarrow> tok_OrgId c = o1 \<and> tok_TokenId c = i"
  by (auto simp: DunningRepo_FindTokenById_def tok_key_def dest!: yields_selOne find_row_key)

lemma found_invoice: "yields (InvoiceRepo_FindById o1 i) c \<Longrightarrow> inv_OrgId c = o1 \<and> inv_Id c = i"
  unfolding yields_def by (auto dest: invoice_load_ok(3) simp: inv_key_def)

lemmas found = found_sub found_campaign found_token found_invoice

end
