(* ===== verification/Usage_Service.thy ===== *)
theory Usage_Service
  imports Tenancy Usage_Intervals
begin

text \<open>
  Meters and usage: src/internal/core/service/meter.go and usage.go with their inputs in
  src/internal/core/port, and the event store of
  src/internal/adapter/db/postgrespgx/event_store.go.  Parsing a decimal and rounding one
  to a scale are operations of the decimal package, hence parameters (metering_ops).
  The value column keeps nine decimal places; values are assumed to fit it.  Where SQL
  leaves an order open (groups, events of one instant) the rows come in table order.

  The lemmas show what a stored meter satisfies, that a resent event is stored once, and
  that the slices billed by the charges of one meter never overlap.
\<close>

section \<open>The event store\<close>

datatype ingest_status = IngestRecorded | IngestDuplicate | IngestAccepted | IngestRejected

record ingest_result =
  ing_Id :: string
  ing_Status :: ingest_status
  ing_Error :: "app_error option"

record usage_query =
  uq_OrgId :: string
  uq_MetricCode :: string
  uq_FieldName :: string
  uq_From :: time
  uq_To :: time
  uq_CustomerId :: string
  uq_ExternalCustomerId :: string
  uq_SubscriptionId :: string
  uq_IncludeUnattributed :: bool
  uq_FilterField :: string
  uq_FilterValue :: string
  uq_FilterExclude :: "string list"
  uq_ProrateOnIncrease :: bool
  uq_CreditOnDecrease :: bool

record 'd grouped_usage =
  gru_Key :: string
  gru_Value :: string
  gru_Quantity :: 'd

text \<open>The primary key, and the index on external ids, which ignores absent ones.\<close>

definition mev_clash :: "'d meter_event \<Rightarrow> 'd meter_event \<Rightarrow> bool" where
  "mev_clash a b \<longleftrightarrow> mev_OrgId a = mev_OrgId b \<and>
     (mev_Id a = mev_Id b \<or> col_eq (mev_ExternalId a) (mev_ExternalId b))"

definition Ingest :: "'d meter_event \<Rightarrow> ('d, ingest_result) svc" where
  "Ingest e = stmt (\<lambda>db.
     case insert_row mev_clash e (t_meter_events db) of
       None \<Rightarrow> Some (\<lparr> ing_Id = mev_Id e, ing_Status = IngestDuplicate, ing_Error = None \<rparr>, db)
     | Some rs \<Rightarrow> Some (\<lparr> ing_Id = mev_Id e, ing_Status = IngestRecorded, ing_Error = None \<rparr>,
                        db\<lparr>t_meter_events := rs\<rparr>))"

text \<open>One INSERT; rows that collide with the table or with an earlier one are dropped.\<close>

definition IngestBatch :: "'d meter_event list \<Rightarrow> ('d, ingest_result list) svc" where
  "IngestBatch events =
    (if events = [] then retS []
     else stmt (\<lambda>db. Some (
       map (\<lambda>e. \<lparr> ing_Id = mev_Id e, ing_Status = IngestRecorded, ing_Error = None \<rparr>) events,
       db\<lparr>t_meter_events := fold (\<lambda>e rs. case insert_row mev_clash e rs of None \<Rightarrow> rs | Some rs' \<Rightarrow> rs')
            events (t_meter_events db)\<rparr>)))"

definition customer_clause :: "usage_query \<Rightarrow> 'd meter_event \<Rightarrow> bool" where
  "customer_clause q e =
    (if uq_CustomerId q \<noteq> [] \<and> uq_ExternalCustomerId q \<noteq> [] then
       col_eq (mev_CustomerId e) (uq_CustomerId q) \<or> col_eq (mev_ExternalCustomerId e) (uq_ExternalCustomerId q)
     else if uq_CustomerId q \<noteq> [] then col_eq (mev_CustomerId e) (uq_CustomerId q)
     else if uq_ExternalCustomerId q \<noteq> [] then col_eq (mev_ExternalCustomerId e) (uq_ExternalCustomerId q)
     else True)"

definition subscription_clause :: "usage_query \<Rightarrow> 'd meter_event \<Rightarrow> bool" where
  "subscription_clause q e =
    (uq_SubscriptionId q \<noteq> [] \<longrightarrow>
       col_eq (mev_SubscriptionId e) (uq_SubscriptionId q) \<or>
       uq_IncludeUnattributed q \<and> mev_SubscriptionId e = [])"

definition filter_clause :: "usage_query \<Rightarrow> 'd meter_event \<Rightarrow> bool" where
  "filter_clause q e =
    (if uq_FilterField q = [] then True
     else if uq_FilterExclude q \<noteq> [] then
       (case mev_Metadata e (uq_FilterField q) of None \<Rightarrow> True | Some v \<Rightarrow> v \<notin> set (uq_FilterExclude q))
     else if uq_FilterValue q \<noteq> [] then mev_Metadata e (uq_FilterField q) = Some (uq_FilterValue q)
     else True)"

definition whereClause :: "usage_query \<Rightarrow> 'd meter_event \<Rightarrow> bool" where
  "whereClause q e \<longleftrightarrow>
     mev_OrgId e = uq_OrgId q \<and> mev_MetricCode e = uq_MetricCode q \<and>
     uq_From q \<le> mev_Timestamp e \<and> mev_Timestamp e < uq_To q \<and>
     customer_clause q e \<and> subscription_clause q e \<and> filter_clause q e"

definition rows_of :: "usage_query \<Rightarrow> 'd db \<Rightarrow> 'd meter_event list" where
  "rows_of q db = filter (whereClause q) (t_meter_events db)"

text \<open>COUNT(DISTINCT) over the values that are present.\<close>

definition distinct_values :: "string \<Rightarrow> 'd meter_event list \<Rightarrow> int" where
  "distinct_values field es = int (length (remdups (List.map_filter (\<lambda>e. mev_Metadata e field) es)))"

definition sum_values :: "'d decimal_ops \<Rightarrow> 'd meter_event list \<Rightarrow> 'd" where
  "sum_values D es = fold (\<lambda>e a. d_add D a (mev_Value e)) es (d_zero D)"

definition max_value :: "'d decimal_ops \<Rightarrow> 'd meter_event list \<Rightarrow> 'd" where
  "max_value D es = (case es of [] \<Rightarrow> d_zero D
     | e # r \<Rightarrow> fold (\<lambda>e a. if d_gt D (mev_Value e) a then mev_Value e else a) r (mev_Value e))"

definition EventStore_Count :: "usage_query \<Rightarrow> ('d, int) svc" where
  "EventStore_Count q = sel (\<lambda>db. int (length (rows_of q db)))"

definition EventStore_UniqueCount :: "usage_query \<Rightarrow> ('d, int) svc" where
  "EventStore_UniqueCount q = sel (\<lambda>db. distinct_values (uq_FieldName q) (rows_of q db))"

definition EventStore_Sum :: "'d decimal_ops \<Rightarrow> usage_query \<Rightarrow> ('d, 'd) svc" where
  "EventStore_Sum D q = sel (\<lambda>db. sum_values D (rows_of q db))"

definition EventStore_Max :: "'d decimal_ops \<Rightarrow> usage_query \<Rightarrow> ('d, 'd) svc" where
  "EventStore_Max D q = sel (\<lambda>db. max_value D (rows_of q db))"

definition EventStore_Latest :: "'d decimal_ops \<Rightarrow> usage_query \<Rightarrow> ('d, 'd) svc" where
  "EventStore_Latest D q = sel (\<lambda>db. LastReportedLevel D (rows_of q db))"

definition EventStore_ListHistory :: "usage_query \<Rightarrow> ('d, 'd meter_event list) svc" where
  "EventStore_ListHistory q = sel (\<lambda>db. sort_key mev_Timestamp (rows_of q db))"

definition groupedAggExpr ::
    "'d decimal_ops \<Rightarrow> aggregation_type \<Rightarrow> string \<Rightarrow> ('d meter_event list \<Rightarrow> 'd) res" where
  "groupedAggExpr D agg fieldName = (case agg of
       AggregationCount \<Rightarrow> Inr (\<lambda>es. d_of_int D (int (length es)))
     | AggregationSum \<Rightarrow> Inr (sum_values D)
     | AggregationMax \<Rightarrow> Inr (max_value D)
     | AggregationUniqueCount \<Rightarrow> Inr (\<lambda>es. d_of_int D (distinct_values fieldName es))
     | _ \<Rightarrow> Inl (InfraError ''grouped aggregation not supported''))"

text \<open>An absent key and an empty value are different groups with the same printed value.\<close>

definition AggregateGrouped ::
    "'d decimal_ops \<Rightarrow> usage_query \<Rightarrow> aggregation_type \<Rightarrow> string \<Rightarrow> ('d, 'd grouped_usage list) svc" where
  "AggregateGrouped D q agg groupKey =
    bindS (liftS (groupedAggExpr D agg (uq_FieldName q))) (\<lambda>expr.
    sel (\<lambda>db. let es = rows_of q db in
      map (\<lambda>g. \<lparr> gru_Key = groupKey, gru_Value = (case g of None \<Rightarrow> [] | Some v \<Rightarrow> v),
                 gru_Quantity = expr (filter (\<lambda>e. mev_Metadata e groupKey = g) es) \<rparr>)
          (remdups (map (\<lambda>e. mev_Metadata e groupKey) es))))"

section \<open>Meters\<close>

record create_meter_input =
  cmi_OrgId :: string
  cmi_Code :: string
  cmi_Name :: string
  cmi_Aggregation :: aggregation_type
  cmi_FieldName :: string
  cmi_CarryOver :: bool
  cmi_RoundingMode :: string
  cmi_RoundingScale :: int
  cmi_Filters :: "metric_filter list"
  cmi_GroupBy :: "string list"
  cmi_Metadata :: metadata

definition ToMetric :: "create_meter_input \<Rightarrow> ('d, billable_metric) svc" where
  "ToMetric inp = bindS nowS (\<lambda>now. bindS (Generate ''met'') (\<lambda>mid. retS
     \<lparr> met_OrgId = cmi_OrgId inp, met_Id = mid, met_Code = cmi_Code inp, met_Name = cmi_Name inp,
       met_Aggregation = cmi_Aggregation inp, met_FieldName = cmi_FieldName inp,
       met_CarryOver = cmi_CarryOver inp, met_RoundingMode = cmi_RoundingMode inp,
       met_RoundingScale = cmi_RoundingScale inp, met_Filters = cmi_Filters inp,
       met_GroupBy = cmi_GroupBy inp, met_Metadata = cmi_Metadata inp,
       met_CreatedAt = now, met_UpdatedAt = now \<rparr>))"

definition validAggregations :: "aggregation_type \<Rightarrow> bool" where
  "validAggregations a = (case a of AggregationOther _ \<Rightarrow> False | _ \<Rightarrow> True)"

definition validRoundingModes :: "string list" where
  "validRoundingModes = [[], ''round'', ''ceil'', ''floor'']"

definition validateCarryOver :: "create_meter_input \<Rightarrow> unit res" where
  "validateCarryOver inp =
    (if \<not> cmi_CarryOver inp then
       (if cmi_Aggregation inp = AggregationWeightedSum
        then fail BadRequestError ''weighted_sum requires carry_over: true'' else ok ())
     else if cmi_Aggregation inp \<notin> {AggregationLatest, AggregationMax, AggregationUniqueCount, AggregationWeightedSum}
     then fail BadRequestError ''aggregation is not supported for carry-over meters''
     else if cmi_Filters inp \<noteq> [] then fail BadRequestError ''filters are not supported on carry-over meters''
     else if cmi_GroupBy inp \<noteq> [] then fail BadRequestError ''group_by is not supported on carry-over meters''
     else ok ())"

fun check_values :: "string list \<Rightarrow> string list \<Rightarrow> unit res" where
  "check_values seenVal [] = ok ()"
| "check_values seenVal (v # vs) =
    (if v = [] then fail BadRequestError ''filter has an empty value''
     else if v \<in> set seenVal then fail BadRequestError ''filter has a duplicate value''
     else check_values (v # seenVal) vs)"

fun check_filters :: "string list \<Rightarrow> metric_filter list \<Rightarrow> unit res" where
  "check_filters seenField [] = ok ()"
| "check_filters seenField (f # fs) =
    (if mfl_Field f = [] then fail BadRequestError ''filter field is required''
     else if mfl_Field f \<in> set seenField then fail BadRequestError ''duplicate filter field''
     else if mfl_Values f = [] then fail BadRequestError ''filter needs at least one value''
     else bind_res (check_values [] (mfl_Values f)) (\<lambda>_. check_filters (mfl_Field f # seenField) fs))"

fun check_group_keys :: "string list \<Rightarrow> string list \<Rightarrow> unit res" where
  "check_group_keys seenKey [] = ok ()"
| "check_group_keys seenKey (k # ks) =
    (if k = [] then fail BadRequestError ''group_by key is required''
     else if k \<in> set seenKey then fail BadRequestError ''duplicate group_by key''
     else check_group_keys (k # seenKey) ks)"

definition validateFiltersAndGroups :: "metric_filter list \<Rightarrow> string list \<Rightarrow> unit res" where
  "validateFiltersAndGroups filters groupBy =
    bind_res (check_filters [] filters) (\<lambda>_.
      if 1 < length groupBy then fail BadRequestError ''at most one group_by dimension is supported''
      else check_group_keys [] groupBy)"

definition MeterService_Create :: "create_meter_input \<Rightarrow> ('d, billable_metric) svc" where
  "MeterService_Create inp =
    (if cmi_Code inp = [] then failS (NewCustomError BadRequestError ''code is required'' None)
     else if \<not> validAggregations (cmi_Aggregation inp)
     then failS (NewCustomError BadRequestError ''unknown aggregation type'' None)
     else if cmi_Aggregation inp \<noteq> AggregationCount \<and> cmi_FieldName inp = []
     then failS (NewCustomError BadRequestError ''field_name is required for this aggregation'' None)
     else if cmi_RoundingMode inp \<notin> set validRoundingModes
     then failS (NewCustomError BadRequestError ''rounding_mode must be one of round, ceil, floor'' None)
     else bindS (liftS (validateFiltersAndGroups (cmi_Filters inp) (cmi_GroupBy inp))) (\<lambda>_.
          bindS (liftS (validateCarryOver inp)) (\<lambda>_.
          bindS (bindS (ToMetric inp) MeterRepo_Create) (\<lambda>metric.
          bindS (ignoreS (Publish (cmi_OrgId inp) ''meter.created'' (MsgMetric metric))) (\<lambda>_.
          retS metric)))))"

section \<open>Recording events\<close>

record record_event_input =
  rei_OrgId :: string
  rei_MetricCode :: string
  rei_CustomerId :: string
  rei_ExternalCustomerId :: string
  rei_SubscriptionId :: string
  rei_ExternalId :: string
  rei_Timestamp :: time
  rei_Metadata :: metadata

text \<open>The operations on decimals that metering needs beside the arithmetic.\<close>

record 'd metering_ops =
  mo_dec :: "'d decimal_ops"
  mo_parse :: "string \<Rightarrow> 'd option"
  mo_round_ceil :: "'d \<Rightarrow> int \<Rightarrow> 'd"
  mo_round_floor :: "'d \<Rightarrow> int \<Rightarrow> 'd"
  mo_round :: "'d \<Rightarrow> int \<Rightarrow> 'd"

type_synonym meter_cache = "string \<rightharpoonup> billable_metric"

definition cached_metric :: "record_event_input \<Rightarrow> meter_cache \<Rightarrow> ('d, billable_metric \<times> meter_cache) svc" where
  "cached_metric inp meterCache = (case meterCache (rei_MetricCode inp) of
       Some m \<Rightarrow> retS (m, meterCache)
     | None \<Rightarrow> bindS (mapErrS (\<lambda>e. NewCustomError BadRequestError ''unknown metric code'' (Some e))
                       (MeterRepo_FindByCode (rei_OrgId inp) (rei_MetricCode inp))) (\<lambda>m.
                retS (m, meterCache(rei_MetricCode inp \<mapsto> m))))"

text \<open>The customer of the event: the internal id it is stored with.\<close>

definition event_customer :: "record_event_input \<Rightarrow> ('d, string) svc" where
  "event_customer inp =
    (if rei_CustomerId inp = [] \<and> rei_ExternalCustomerId inp = []
     then failS (NewCustomError BadRequestError ''customer_id or external_customer_id is required'' None)
     else if rei_CustomerId inp \<noteq> [] then
       bindS (mapErrS (\<lambda>e. if is_not_found e then NewCustomError NotFoundError ''customer not found'' (Some e) else e)
               (CustomerRepo_FindById (rei_OrgId inp) (rei_CustomerId inp))) (\<lambda>_. retS (rei_CustomerId inp))
     else tryS (CustomerRepo_FindByExternalId (rei_OrgId inp) (rei_ExternalCustomerId inp)) (\<lambda>r. case r of
            Inr cust \<Rightarrow> retS (cus_Id cust)
          | Inl e \<Rightarrow> if is_not_found e then retS [] else failS e))"

definition containsSubscription :: "subscription list \<Rightarrow> string \<Rightarrow> bool" where
  "containsSubscription subs subId = list_ex (\<lambda>s. sub_Id s = subId) subs"

definition event_attribution :: "record_event_input \<Rightarrow> billable_metric \<Rightarrow> string \<Rightarrow> ('d, unit) svc" where
  "event_attribution inp metric customerId =
    (if rei_SubscriptionId inp = [] then retS ()
     else if customerId = [] then failS (NewCustomError BadRequestError ''subscription_id requires a known customer'' None)
     else bindS (SubscriptionRepo_FindActiveMeteredForMeter (rei_OrgId inp) customerId (met_Id metric)) (\<lambda>metered.
       if containsSubscription metered (rei_SubscriptionId inp) then retS ()
       else failS (NewCustomError BadRequestError ''subscription does not carry a metered price for this metric'' None)))"

definition parse_field :: "'d metering_ops \<Rightarrow> string option \<Rightarrow> string \<Rightarrow> 'd res" where
  "parse_field M raw missing = (case raw of
       None \<Rightarrow> fail BadRequestError missing
     | Some s \<Rightarrow> (case mo_parse M s of
         None \<Rightarrow> Inl (NewCustomError BadRequestError ''metric field is not numeric'' (Some (InfraError ''can't convert to decimal'')))
       | Some v \<Rightarrow> ok v))"

definition event_value :: "'d metering_ops \<Rightarrow> metadata \<Rightarrow> billable_metric \<Rightarrow> 'd res" where
  "event_value M meta metric =
    (if met_CarryOver metric then
       (case meta UsageOperationKey of
          Some op \<Rightarrow>
            (if op \<noteq> UsageOperationAdd \<and> op \<noteq> UsageOperationRemove
             then fail BadRequestError ''metadata.operation must be add or remove''
             else if sget meta (met_FieldName metric) = []
             then fail BadRequestError ''metadata is missing the identity field''
             else ok (d_zero (mo_dec M)))
        | None \<Rightarrow> parse_field M (meta (met_FieldName metric))
            ''metadata needs either an operation with the identity field, or a numeric level'')
     else if met_Aggregation metric \<noteq> AggregationCount \<and> met_Aggregation metric \<noteq> AggregationUniqueCount
     then parse_field M (meta (met_FieldName metric)) ''metadata is missing the metric field''
     else ok (d_zero (mo_dec M)))"

definition check_event :: "'d metering_ops \<Rightarrow> record_event_input \<Rightarrow> billable_metric \<Rightarrow> ('d, 'd meter_event) svc" where
  "check_event M inp metric =
    bindS (event_customer inp) (\<lambda>customerId.
    bindS (event_attribution inp metric customerId) (\<lambda>_.
    bindS (liftS (event_value M (rei_Metadata inp) metric)) (\<lambda>value.
    bindS (if rei_Timestamp inp = 0 then nowS else retS (rei_Timestamp inp)) (\<lambda>ts.
    bindS (Generate ''mev'') (\<lambda>eid.
    bindS nowS (\<lambda>created.
    retS \<lparr> mev_OrgId = rei_OrgId inp, mev_Id = eid, mev_CustomerId = customerId,
           mev_ExternalCustomerId = rei_ExternalCustomerId inp, mev_MetricCode = rei_MetricCode inp,
           mev_SubscriptionId = rei_SubscriptionId inp, mev_ExternalId = rei_ExternalId inp,
           mev_Metadata = rei_Metadata inp, mev_Value = value, mev_Timestamp = ts,
           mev_CreatedAt = created \<rparr>))))))"

text \<open>The cache is written as soon as the meter is found, whatever follows.\<close>

definition buildEvent ::
    "'d metering_ops \<Rightarrow> record_event_input \<Rightarrow> meter_cache \<Rightarrow> 'd world
      \<Rightarrow> ('d meter_event res \<times> meter_cache) \<times> 'd world" where
  "buildEvent M inp meterCache =
    tryS (cached_metric inp meterCache) (\<lambda>r w. case r of
      Inl e \<Rightarrow> ((Inl e, meterCache), w)
    | Inr (metric, meterCache') \<Rightarrow> (case check_event M inp metric w of (r', w') \<Rightarrow> ((r', meterCache'), w')))"

definition ingest_and_publish :: "record_event_input \<Rightarrow> 'd meter_event \<Rightarrow> ('d, ingest_result) svc" where
  "ingest_and_publish inp event =
    bindS (mapErrS (WrapError ''ingest usage event'') (Ingest event)) (\<lambda>res.
    bindS (ignoreS (Publish (rei_OrgId inp) ''usage.recorded'' (MsgMeterEvent event))) (\<lambda>_.
    retS res))"

definition RecordEvent :: "'d metering_ops \<Rightarrow> record_event_input \<Rightarrow> ('d, ingest_result) svc" where
  "RecordEvent M inp w =
    (case buildEvent M inp Map.empty w of
       ((Inl e, _), w1) \<Rightarrow> (Inl e, w1)
     | ((Inr event, _), w1) \<Rightarrow> ingest_and_publish inp event w1)"

definition record_step ::
    "'d metering_ops \<Rightarrow> ingest_result list \<times> meter_cache \<Rightarrow> record_event_input
      \<Rightarrow> ('d, ingest_result list \<times> meter_cache) svc" where
  "record_step M acc inp w =
    (case buildEvent M inp (snd acc) w of
       ((Inl e, meterCache), w1) \<Rightarrow>
         (Inr (fst acc @ [\<lparr> ing_Id = [], ing_Status = IngestRejected, ing_Error = Some e \<rparr>], meterCache), w1)
     | ((Inr event, meterCache), w1) \<Rightarrow>
         bindS (ingest_and_publish inp event) (\<lambda>res. retS (fst acc @ [res], meterCache)) w1)"

definition RecordEvents :: "'d metering_ops \<Rightarrow> record_event_input list \<Rightarrow> ('d, ingest_result list) svc" where
  "RecordEvents M inputs =
    bindS (foldS (record_step M) ([], Map.empty) inputs) (\<lambda>acc. retS (fst acc))"

section \<open>Aggregation\<close>

definition applyRounding :: "'d metering_ops \<Rightarrow> billable_metric \<Rightarrow> 'd \<Rightarrow> 'd" where
  "applyRounding M metric units =
    (if met_RoundingMode metric = ''ceil'' then mo_round_ceil M units (met_RoundingScale metric)
     else if met_RoundingMode metric = ''floor'' then mo_round_floor M units (met_RoundingScale metric)
     else if met_RoundingMode metric = ''round'' then mo_round M units (met_RoundingScale metric)
     else units)"

definition carry_over_intervals ::
    "'d decimal_ops \<Rightarrow> aggregation_type \<Rightarrow> usage_query \<Rightarrow> usage_interval list \<Rightarrow> 'd res" where
  "carry_over_intervals D agg q ivs = (case agg of
       AggregationLatest \<Rightarrow> ok (d_of_int D (CountStandingAtEnd ivs (uq_To q)))
     | AggregationMax \<Rightarrow> ok (d_of_int D (CountPeakConcurrent ivs (uq_From q) (uq_To q)))
     | AggregationUniqueCount \<Rightarrow> ok (d_of_int D (CountDistinctActive ivs (uq_From q) (uq_To q)))
     | AggregationWeightedSum \<Rightarrow> ok (WeightIntervals D ivs (uq_From q) (uq_To q) (uq_ProrateOnIncrease q) (uq_CreditOnDecrease q))
     | _ \<Rightarrow> Inl (InfraError ''aggregation not supported for carry-over meters''))"

definition carry_over_levels ::
    "'d decimal_ops \<Rightarrow> aggregation_type \<Rightarrow> usage_query \<Rightarrow> 'd meter_event list \<Rightarrow> 'd res" where
  "carry_over_levels D agg q events = (case agg of
       AggregationLatest \<Rightarrow> ok (LastReportedLevel D events)
     | AggregationMax \<Rightarrow> ok (PeakReportedLevel D events (uq_From q) (uq_To q))
     | AggregationUniqueCount \<Rightarrow> ok (d_zero D)
     | AggregationWeightedSum \<Rightarrow> ok (WeightReportedLevels D events (uq_From q) (uq_To q))
     | _ \<Rightarrow> Inl (InfraError ''aggregation not supported for carry-over meters''))"

definition aggregateCarryOver :: "'d decimal_ops \<Rightarrow> billable_metric \<Rightarrow> usage_query \<Rightarrow> ('d, 'd) svc" where
  "aggregateCarryOver D metric q =
    bindS (EventStore_ListHistory (q\<lparr>uq_From := 0\<rparr>)) (\<lambda>events.
    liftS (if HasOperations events
           then carry_over_intervals D (met_Aggregation metric) q (ReconstructIntervals events (met_FieldName metric))
           else carry_over_levels D (met_Aggregation metric) q events))"

definition aggregate_flow :: "'d decimal_ops \<Rightarrow> aggregation_type \<Rightarrow> usage_query \<Rightarrow> ('d, 'd) svc" where
  "aggregate_flow D agg q = (case agg of
       AggregationCount \<Rightarrow> bindS (EventStore_Count q) (\<lambda>n. retS (d_of_int D n))
     | AggregationUniqueCount \<Rightarrow> bindS (EventStore_UniqueCount q) (\<lambda>n. retS (d_of_int D n))
     | AggregationSum \<Rightarrow> EventStore_Sum D q
     | AggregationMax \<Rightarrow> EventStore_Max D q
     | AggregationLatest \<Rightarrow> EventStore_Latest D q
     | AggregationWeightedSum \<Rightarrow> failS (InfraError ''weighted_sum requires a carry-over meter'')
     | AggregationOther _ \<Rightarrow> failS (InfraError ''unknown aggregation type''))"

definition AggregateForPeriod :: "'d metering_ops \<Rightarrow> billable_metric \<Rightarrow> usage_query \<Rightarrow> ('d, 'd) svc" where
  "AggregateForPeriod M metric q0 =
    (let q = q0\<lparr>uq_FieldName := met_FieldName metric, uq_MetricCode := met_Code metric\<rparr> in
     bindS (if met_CarryOver metric then aggregateCarryOver (mo_dec M) metric q
            else aggregate_flow (mo_dec M) (met_Aggregation metric) q) (\<lambda>units.
     retS (applyRounding M metric units)))"

definition applyPriceFilter :: "billable_metric \<Rightarrow> 'd price \<Rightarrow> usage_query \<Rightarrow> usage_query" where
  "applyPriceFilter metric price q =
    (if prc_FilterField price = [] then q
     else if IsDefaultFilter price
     then q\<lparr>uq_FilterField := prc_FilterField price, uq_FilterExclude := FilterValues metric (prc_FilterField price)\<rparr>
     else q\<lparr>uq_FilterField := prc_FilterField price, uq_FilterValue := prc_FilterValue price\<rparr>)"

definition scoped_query ::
    "subscription \<Rightarrow> 'd price \<Rightarrow> time \<Rightarrow> time \<Rightarrow> string \<Rightarrow> subscription list \<Rightarrow> usage_query" where
  "scoped_query s price from to externalId metered =
    \<lparr> uq_OrgId = sub_OrgId s, uq_MetricCode = [], uq_FieldName = [], uq_From = from, uq_To = to,
      uq_CustomerId = sub_CustomerId s, uq_ExternalCustomerId = externalId, uq_SubscriptionId = sub_Id s,
      uq_IncludeUnattributed = (case metered of [] \<Rightarrow> False | m # _ \<Rightarrow> sub_Id m = sub_Id s),
      uq_FilterField = [], uq_FilterValue = [], uq_FilterExclude = [],
      uq_ProrateOnIncrease = prc_ProrateOnIncrease price, uq_CreditOnDecrease = prc_CreditOnDecrease price \<rparr>"

definition usageQueryFor ::
    "subscription \<Rightarrow> 'd price \<Rightarrow> time \<Rightarrow> time \<Rightarrow> ('d, billable_metric \<times> usage_query) svc" where
  "usageQueryFor s price from to =
    bindS (MeterRepo_FindById (sub_OrgId s) (prc_BillableMetricId price)) (\<lambda>metric.
    bindS (tryS (CustomerRepo_FindById (sub_OrgId s) (sub_CustomerId s)) (\<lambda>r. case r of
             Inr cust \<Rightarrow> retS (cus_ExternalId cust)
           | Inl e \<Rightarrow> if is_not_found e then retS [] else failS e)) (\<lambda>externalId.
    bindS (SubscriptionRepo_FindActiveMeteredForMeter (sub_OrgId s) (sub_CustomerId s) (met_Id metric)) (\<lambda>metered.
    retS (metric, applyPriceFilter metric price (scoped_query s price from to externalId metered)))))"

definition UsageForSubscription ::
    "'d metering_ops \<Rightarrow> subscription \<Rightarrow> 'd price \<Rightarrow> time \<Rightarrow> time \<Rightarrow> ('d, 'd) svc" where
  "UsageForSubscription M s price from to =
    bindS (usageQueryFor s price from to) (\<lambda>mq. AggregateForPeriod M (fst mq) (snd mq))"

record 'd metered_usage =
  mu_Units :: 'd
  mu_Grouped :: "'d grouped_usage list option"

definition MeteredUsageForSubscription ::
    "'d metering_ops \<Rightarrow> subscription \<Rightarrow> 'd price \<Rightarrow> time \<Rightarrow> time \<Rightarrow> ('d, 'd metered_usage) svc" where
  "MeteredUsageForSubscription M s price from to =
    bindS (usageQueryFor s price from to) (\<lambda>mq.
    let metric = fst mq; q = snd mq in
    case met_GroupBy metric of
      [] \<Rightarrow> bindS (AggregateForPeriod M metric q) (\<lambda>units. retS \<lparr> mu_Units = units, mu_Grouped = None \<rparr>)
    | [groupKey] \<Rightarrow>
        bindS (AggregateGrouped (mo_dec M) (q\<lparr>uq_FieldName := met_FieldName metric, uq_MetricCode := met_Code metric\<rparr>)
                 (met_Aggregation metric) groupKey) (\<lambda>groups.
        retS \<lparr> mu_Units = d_zero (mo_dec M),
               mu_Grouped = Some (map (\<lambda>g. g\<lparr>gru_Quantity := applyRounding M metric (gru_Quantity g)\<rparr>) groups) \<rparr>)
    | _ \<Rightarrow> failS (InfraError ''multi-dimension grouping not implemented''))"

record 'd meter_usage =
  mus_MetricCode :: string
  mus_Aggregation :: aggregation_type
  mus_Quantity :: 'd

record 'd subscription_usage =
  sus_SubscriptionId :: string
  sus_CurrentPeriodStart :: time
  sus_CurrentPeriodEnd :: time
  sus_Meters :: "'d meter_usage list"

definition CurrentPeriodUsage :: "'d metering_ops \<Rightarrow> string \<Rightarrow> string \<Rightarrow> ('d, 'd subscription_usage) svc" where
  "CurrentPeriodUsage M orgId subscriptionId =
    bindS (SubscriptionRepo_FindById orgId subscriptionId) (\<lambda>s.
    let out = \<lparr> sus_SubscriptionId = sub_Id s, sus_CurrentPeriodStart = sub_CurrentPeriodStart s,
                sus_CurrentPeriodEnd = sub_CurrentPeriodEnd s, sus_Meters = [] \<rparr> in
    if sub_CurrentPeriodStart s = 0 then retS out
    else bindS (OrderRepo_FindOrderItemsBySubscriptionId orgId (sub_Id s)) (\<lambda>items.
      foldS (\<lambda>acc it.
        bindS (PriceRepo_FindById orgId (itm_PriceId it)) (\<lambda>price.
        if \<not> IsMetered price then retS acc
        else bindS (UsageForSubscription M s price (sub_CurrentPeriodStart s) (sub_CurrentPeriodEnd s)) (\<lambda>units.
             bindS (MeterRepo_FindById orgId (prc_BillableMetricId price)) (\<lambda>metric.
             retS (acc\<lparr>sus_Meters := sus_Meters acc @ [\<lparr> mus_MetricCode = met_Code metric,
                     mus_Aggregation = met_Aggregation metric, mus_Quantity = units \<rparr>]\<rparr>))))) out items))"

section \<open>What a stored meter satisfies\<close>

definition filter_ok :: "metric_filter \<Rightarrow> bool" where
  "filter_ok f \<longleftrightarrow> mfl_Field f \<noteq> [] \<and> mfl_Values f \<noteq> [] \<and> distinct (mfl_Values f) \<and> [] \<notin> set (mfl_Values f)"

definition metric_ok :: "billable_metric \<Rightarrow> bool" where
  "metric_ok m \<longleftrightarrow> met_Code m \<noteq> [] \<and> validAggregations (met_Aggregation m) \<and>
     (met_Aggregation m \<noteq> AggregationCount \<longrightarrow> met_FieldName m \<noteq> []) \<and>
     met_RoundingMode m \<in> set validRoundingModes \<and>
     distinct (map mfl_Field (met_Filters m)) \<and> (\<forall>f\<in>set (met_Filters m). filter_ok f) \<and>
     length (met_GroupBy m) \<le> 1 \<and> [] \<notin> set (met_GroupBy m) \<and>
     (if met_CarryOver m
      then met_Aggregation m \<in> {AggregationLatest, AggregationMax, AggregationUniqueCount, AggregationWeightedSum} \<and>
           met_Filters m = [] \<and> met_GroupBy m = []
      else met_Aggregation m \<noteq> AggregationWeightedSum)"

lemma check_values_ok: "check_values seen vs = Inr () \<longleftrightarrow> distinct vs \<and> [] \<notin> set vs \<and> set vs \<inter> set seen = {}"
  by (induction seen vs rule: check_values.induct) auto

lemma check_group_keys_ok: "check_group_keys seen ks = Inr () \<longleftrightarrow> distinct ks \<and> [] \<notin> set ks \<and> set ks \<inter> set seen = {}"
  by (induction seen ks rule: check_group_keys.induct) auto

lemma bind_unit_ok: "bind_res r f = Inr y \<longleftrightarrow> (\<exists>x. r = Inr x \<and> f x = Inr y)"
  by (cases r) simp_all

lemma check_filters_ok: "check_filters seen fs = Inr () \<longleftrightarrow>
    distinct (map mfl_Field fs) \<and> (\<forall>f\<in>set fs. filter_ok f) \<and> mfl_Field ` set fs \<inter> set seen = {}"
  by (induction seen fs rule: check_filters.induct) (auto simp: bind_unit_ok check_values_ok filter_ok_def)

lemma validateFiltersAndGroups_ok: "validateFiltersAndGroups fs gs = Inr () \<longleftrightarrow>
    distinct (map mfl_Field fs) \<and> (\<forall>f\<in>set fs. filter_ok f) \<and> length gs \<le> 1 \<and> [] \<notin> set gs"
proof -
  have "length gs \<le> 1 \<Longrightarrow> distinct gs" by (cases gs) auto
  then show ?thesis
    by (auto simp: validateFiltersAndGroups_def bind_unit_ok check_filters_ok check_group_keys_ok)
qed

lemma validateCarryOver_ok: "validateCarryOver inp = Inr () \<longleftrightarrow>
    (if cmi_CarryOver inp
     then cmi_Aggregation inp \<in> {AggregationLatest, AggregationMax, AggregationUniqueCount, AggregationWeightedSum} \<and>
          cmi_Filters inp = [] \<and> cmi_GroupBy inp = []
     else cmi_Aggregation inp \<noteq> AggregationWeightedSum)"
  by (simp add: validateCarryOver_def)

lemma find_metric_append: "(\<forall>b\<in>set xs. \<not> P b) \<Longrightarrow> P m \<Longrightarrow> find P (xs @ [m]) = Some m"
  by (induction xs) auto

lemma MeterRepo_Create_ok: "MeterRepo_Create m w = (Inr x, w1) \<Longrightarrow>
    t_metrics (w_db w1) = t_metrics (w_db w) @ [m] \<and> x = m \<and>
    (\<forall>b\<in>set (t_metrics (w_db w)). met_OrgId b = met_OrgId m \<longrightarrow> met_Code b \<noteq> met_Code m)"
proof -
  let ?P = "\<lambda>b. met_OrgId b = met_OrgId m \<and> met_Code b = met_Code m"
  assume run: "MeterRepo_Create m w = (Inr x, w1)"
  then have t: "t_metrics (w_db w1) = t_metrics (w_db w) @ [m]" and f: "find ?P (t_metrics (w_db w1)) = Some x"
    and fresh: "\<forall>b\<in>set (t_metrics (w_db w)). \<not> ?P b"
    by (auto simp: MeterRepo_Create_def MeterRepo_FindByCode_def ok_simps insert_row_def list_ex_iff split: if_splits)
  from find_metric_append[OF fresh] have "find ?P (t_metrics (w_db w1)) = Some m" by (simp add: t)
  then show ?thesis using t f fresh by auto
qed

lemma ignoreS_Inr: "ignoreS m w = (Inr u, w1) \<longleftrightarrow> (\<exists>r. m w = (r, w1))"
  by (cases u) (auto simp: ignoreS_def, metis surj_pair prod.sel(2))

definition metric_of :: "create_meter_input \<Rightarrow> string \<Rightarrow> time \<Rightarrow> billable_metric" where
  "metric_of inp mid now = \<lparr> met_OrgId = cmi_OrgId inp, met_Id = mid, met_Code = cmi_Code inp, met_Name = cmi_Name inp,
       met_Aggregation = cmi_Aggregation inp, met_FieldName = cmi_FieldName inp,
       met_CarryOver = cmi_CarryOver inp, met_RoundingMode = cmi_RoundingMode inp,
       met_RoundingScale = cmi_RoundingScale inp, met_Filters = cmi_Filters inp,
       met_GroupBy = cmi_GroupBy inp, met_Metadata = cmi_Metadata inp,
       met_CreatedAt = now, met_UpdatedAt = now \<rparr>"

lemma metric_of_ok: "metric_ok (metric_of inp mid now) \<longleftrightarrow>
    cmi_Code inp \<noteq> [] \<and> validAggregations (cmi_Aggregation inp) \<and>
    (cmi_Aggregation inp \<noteq> AggregationCount \<longrightarrow> cmi_FieldName inp \<noteq> []) \<and>
    cmi_RoundingMode inp \<in> set validRoundingModes \<and>
    validateFiltersAndGroups (cmi_Filters inp) (cmi_GroupBy inp) = Inr () \<and> validateCarryOver inp = Inr ()"
  unfolding metric_ok_def metric_of_def validateFiltersAndGroups_ok validateCarryOver_ok by (simp add: conj_assoc)

lemma ToMetric_ok: "ToMetric inp w = (Inr m, w1) \<Longrightarrow> w_db w1 = w_db w \<and> (\<exists>mid now. m = metric_of inp mid now)"
  by (auto simp: ToMetric_def bindS_Inr metric_of_def)

lemma MeterService_Create_ok:
  assumes "MeterService_Create inp w = (Inr m, w1)"
  shows "\<exists>mid now. m = metric_of inp mid now \<and> metric_ok m \<and> t_metrics (w_db w1) = t_metrics (w_db w) @ [m] \<and>
    (\<forall>b\<in>set (t_metrics (w_db w)). met_OrgId b = met_OrgId m \<longrightarrow> met_Code b \<noteq> met_Code m)"
proof -
  let ?K = "bindS (bindS (ToMetric inp) MeterRepo_Create) (\<lambda>metric.
       bindS (ignoreS (Publish (cmi_OrgId inp) ''meter.created'' (MsgMetric metric))) (\<lambda>_. retS metric))"
  have checks: "cmi_Code inp \<noteq> []" "validAggregations (cmi_Aggregation inp)"
      "cmi_Aggregation inp \<noteq> AggregationCount \<longrightarrow> cmi_FieldName inp \<noteq> []" "cmi_RoundingMode inp \<in> set validRoundingModes"
      "validateFiltersAndGroups (cmi_Filters inp) (cmi_GroupBy inp) = Inr ()" "validateCarryOver inp = Inr ()"
    and K: "?K w = (Inr m, w1)"
    using assms unfolding MeterService_Create_def
    by (auto simp: bindS_Inr[where m = "liftS r" for r] simp del: liftS_simps split: if_split_asm)
  from K obtain w2 w3 mm where met: "ToMetric inp w = (Inr mm, w2)" and create: "MeterRepo_Create mm w2 = (Inr m, w3)"
    and pub: "ignoreS (Publish (cmi_OrgId inp) ''meter.created'' (MsgMetric m)) w3 = (Inr (), w1)"
    by (elim bindS_InrE) auto
  from ToMetric_ok[OF met] obtain mid now where db2: "w_db w2 = w_db w" and mm: "mm = metric_of inp mid now" by blast
  have c: "m = mm" "t_metrics (w_db w3) = t_metrics (w_db w) @ [mm]"
      "\<forall>b\<in>set (t_metrics (w_db w)). met_OrgId b = met_OrgId mm \<longrightarrow> met_Code b \<noteq> met_Code mm"
    using MeterRepo_Create_ok[OF create] by (simp_all add: db2)
  have "t_metrics (w_db w1) = t_metrics (w_db w3)"
    by (rule keeps[OF keep.obeys_ignore[OF keep_Publish] pub]) simp
  moreover have "metric_ok mm" using checks unfolding mm metric_of_ok by blast
  ultimately show ?thesis using c mm by auto
qed

lemma metric_ok_values: "metric_ok m \<Longrightarrow> distinct (FilterValues m f) \<and> [] \<notin> set (FilterValues m f)"
proof (cases "find (\<lambda>x. mfl_Field x = f) (met_Filters m)")
  case (Some x)
  assume "metric_ok m"
  moreover have "x \<in> set (met_Filters m)" using Some by (auto simp: find_Some_iff)
  ultimately show ?thesis using Some by (auto simp: FilterValues_def metric_ok_def filter_ok_def)
qed (simp add: FilterValues_def)

section \<open>Reading a stored meter\<close>

lemma sel_run: "stmt_ok w \<Longrightarrow> sel f w = (Inr (f (w_db w)), w\<lparr>w_stmts := Suc (w_stmts w)\<rparr>)"
  by (simp add: sel_Inr)

lemmas event_store = EventStore_Count_def EventStore_UniqueCount_def EventStore_Sum_def EventStore_Max_def
  EventStore_Latest_def EventStore_ListHistory_def

lemma aggregate_flow_total:
  assumes "validAggregations agg" and "agg \<noteq> AggregationWeightedSum" and "stmt_ok w"
  shows "\<exists>x. aggregate_flow D agg q w = (Inr x, w\<lparr>w_stmts := Suc (w_stmts w)\<rparr>)"
  using assms by (cases agg) (simp_all add: aggregate_flow_def validAggregations_def event_store bindS_Inr sel_run bindS_ok)

lemma aggregateCarryOver_total:
  assumes "met_Aggregation m \<in> {AggregationLatest, AggregationMax, AggregationUniqueCount, AggregationWeightedSum}" and "stmt_ok w"
  shows "\<exists>x. aggregateCarryOver D m q w = (Inr x, w\<lparr>w_stmts := Suc (w_stmts w)\<rparr>)"
  using assms
  by (auto simp: aggregateCarryOver_def event_store sel_run bindS_ok carry_over_intervals_def carry_over_levels_def)

lemma AggregateForPeriod_total:
  assumes "metric_ok m" and "stmt_ok w"
  shows "\<exists>x. AggregateForPeriod M m q w = (Inr x, w\<lparr>w_stmts := Suc (w_stmts w)\<rparr>)"
proof (cases "met_CarryOver m")
  case True
  then have agg: "met_Aggregation m \<in> {AggregationLatest, AggregationMax, AggregationUniqueCount, AggregationWeightedSum}"
    using assms(1) by (simp add: metric_ok_def)
  let ?q = "q\<lparr>uq_FieldName := met_FieldName m, uq_MetricCode := met_Code m\<rparr>"
  from aggregateCarryOver_total[OF agg assms(2)]
  obtain x where "aggregateCarryOver (mo_dec M) m ?q w = (Inr x, w\<lparr>w_stmts := Suc (w_stmts w)\<rparr>)" ..
  then show ?thesis using True by (simp add: AggregateForPeriod_def Let_def bindS_ok)
next
  case False
  then have "validAggregations (met_Aggregation m)" "met_Aggregation m \<noteq> AggregationWeightedSum"
    using assms(1) by (simp_all add: metric_ok_def)
  from aggregate_flow_total[OF this assms(2), of "mo_dec M" "q\<lparr>uq_FieldName := met_FieldName m, uq_MetricCode := met_Code m\<rparr>"]
  obtain x where "aggregate_flow (mo_dec M) (met_Aggregation m) (q\<lparr>uq_FieldName := met_FieldName m, uq_MetricCode := met_Code m\<rparr>) w
      = (Inr x, w\<lparr>w_stmts := Suc (w_stmts w)\<rparr>)" ..
  then show ?thesis using False by (simp add: AggregateForPeriod_def Let_def bindS_ok)
qed

lemma refused_filters:
  assumes "validateFiltersAndGroups fs gs \<noteq> Inr ()"
  shows "\<exists>msg. validateFiltersAndGroups fs gs = fail BadRequestError msg"
proof -
  have a: "check_values seen vs = Inr () \<or> (\<exists>msg. check_values seen vs = fail BadRequestError msg)" for seen vs
    by (induction seen vs rule: check_values.induct) auto
  have b: "check_filters seen vs = Inr () \<or> (\<exists>msg. check_filters seen vs = fail BadRequestError msg)" for seen vs
  proof (induction seen vs rule: check_filters.induct)
    case (2 seen f fs)
    then show ?case using a[of "[]" "mfl_Values f"] by auto
  qed simp
  have c: "check_group_keys seen vs = Inr () \<or> (\<exists>msg. check_group_keys seen vs = fail BadRequestError msg)" for seen vs
    by (induction seen vs rule: check_group_keys.induct) auto
  show ?thesis
    using assms b[of "[]" fs] c[of "[]" gs] by (auto simp: validateFiltersAndGroups_def)
qed

section \<open>Recording leaves at most one event per external id\<close>

lemma keep_checks:
  "obeys (same_on f) (cached_metric inp c)" "obeys (same_on f) (check_event M inp metric)"
proof -
  show "obeys (same_on f) (cached_metric inp c)"
    by (auto simp: cached_metric_def MeterRepo_FindByCode_def intro!: keep.obeys_intros split: option.split)
  have "obeys (same_on f) (event_customer inp)"
    unfolding event_customer_def CustomerRepo_FindById_def CustomerRepo_FindByExternalId_def
    by (auto intro!: keep.obeys_intros split: sum.split)
  moreover have "obeys (same_on f) (event_attribution inp metric cid)" for cid
    unfolding event_attribution_def SubscriptionRepo_FindActiveMeteredForMeter_def by (auto intro!: keep.obeys_bind)
  ultimately show "obeys (same_on f) (check_event M inp metric)"
    unfolding check_event_def by (intro keep.obeys_bind) auto
qed

lemma keep_buildEvent: "obeys (same_on f) (buildEvent M inp c)"
proof -
  have run: "f (w_db w1) = f (w_db w)" if "check_event M inp m w = (r, w1)" for m w r w1
    by (rule keeps[OF keep_checks(2) that])
  show ?thesis
    unfolding buildEvent_def
    by (intro keep.obeys_tryS keep_checks)
      (auto simp: obeys_def same_on_def split: sum.split prod.split dest: run)
qed

lemma buildEvent_ok:
  assumes "buildEvent M inp c w = ((Inr e, c'), w1)"
  shows "w_db w1 = w_db w \<and> mev_OrgId e = rei_OrgId inp \<and> mev_ExternalId e = rei_ExternalId inp"
proof -
  from assms obtain m w0 where "check_event M inp m w0 = (Inr e, w1)"
    by (auto simp: buildEvent_def tryS_def split: prod.splits sum.splits)
  then have "mev_OrgId e = rei_OrgId inp \<and> mev_ExternalId e = rei_ExternalId inp"
    unfolding check_event_def by (elim bindS_InrE) auto
  then show ?thesis using keeps[OF keep_buildEvent[of "\<lambda>d. d"] assms] by simp
qed

lemma ingest_and_publish_ok:
  assumes "ingest_and_publish inp e w = (Inr r, w1)"
  shows "if list_ex (mev_clash e) (t_meter_events (w_db w))
    then ing_Status r = IngestDuplicate \<and> t_meter_events (w_db w1) = t_meter_events (w_db w)
    else ing_Status r = IngestRecorded \<and> t_meter_events (w_db w1) = t_meter_events (w_db w) @ [e]"
proof -
  from assms obtain w2 where ing: "Ingest e w = (Inr r, w2)"
    and pub: "ignoreS (Publish (rei_OrgId inp) ''usage.recorded'' (MsgMeterEvent e)) w2 = (Inr (), w1)"
    unfolding ingest_and_publish_def by (elim bindS_InrE) (auto simp: mapErrS_Inr)
  have "t_meter_events (w_db w1) = t_meter_events (w_db w2)"
    by (rule keeps[OF keep.obeys_ignore[OF keep_Publish] pub]) simp
  with ing show ?thesis by (auto simp: Ingest_def stmt_Inr insert_row_def split: if_splits)
qed

lemma RecordEvent_ok:
  assumes "RecordEvent M inp w = (Inr r, w1)"
  shows "\<exists>e. mev_OrgId e = rei_OrgId inp \<and> mev_ExternalId e = rei_ExternalId inp \<and>
    (if list_ex (mev_clash e) (t_meter_events (w_db w))
     then ing_Status r = IngestDuplicate \<and> t_meter_events (w_db w1) = t_meter_events (w_db w)
     else ing_Status r = IngestRecorded \<and> t_meter_events (w_db w1) = t_meter_events (w_db w) @ [e])"
proof -
  from assms obtain e c w2 where b: "buildEvent M inp Map.empty w = ((Inr e, c), w2)"
    and i: "ingest_and_publish inp e w2 = (Inr r, w1)"
    by (auto simp: RecordEvent_def split: prod.splits sum.splits)
  from buildEvent_ok[OF b] ingest_and_publish_ok[OF i] show ?thesis by (intro exI[of _ e]) auto
qed

text \<open>The number of rows written is the number of events reported as recorded.\<close>

definition recorded :: "ingest_result list \<Rightarrow> nat" where
  "recorded rs = length (filter (\<lambda>r. ing_Status r = IngestRecorded) rs)"

lemma record_step_ok:
  assumes "record_step M acc inp w = (Inr acc1, w1)"
  shows "\<exists>r. fst acc1 = fst acc @ [r] \<and>
    length (t_meter_events (w_db w1)) = length (t_meter_events (w_db w)) + recorded [r]"
proof -
  obtain x c w2 where fields: "buildEvent M inp (snd acc) w = ((x, c), w2)" by (metis prod.exhaust_sel)
  show ?thesis
  proof (cases x)
    case (Inl e)
    with fields assms have "w1 = w2"
        and "fst acc1 = fst acc @ [\<lparr> ing_Id = [], ing_Status = IngestRejected, ing_Error = Some e \<rparr>]"
      by (auto simp: record_step_def)
    then show ?thesis
      using keeps[OF keep_buildEvent[of "\<lambda>d. d"] fields] by (intro exI) (auto simp: recorded_def)
  next
    case (Inr ev)
    with fields assms obtain r where "ingest_and_publish inp ev w2 = (Inr r, w1)" and "acc1 = (fst acc @ [r], c)"
      by (auto simp: record_step_def bindS_Inr)
    then show ?thesis
      using ingest_and_publish_ok keeps[OF keep_buildEvent[of "\<lambda>d. d"] fields]
      by (fastforce simp: recorded_def split: if_splits)
  qed
qed

lemma foldS_simps: "foldS f b [] = retS b" "foldS f b (x # xs) = bindS (f b x) (\<lambda>b1. foldS f b1 xs)"
  by simp_all

lemma record_fold_ok:
  assumes "foldS (record_step M) acc inputs w = (Inr acc1, w1)"
  shows "length (fst acc1) = length (fst acc) + length inputs \<and>
    length (t_meter_events (w_db w1)) + recorded (fst acc) = length (t_meter_events (w_db w)) + recorded (fst acc1)"
  using assms
proof (induction inputs arbitrary: acc w)
  case (Cons inp inputs)
  from Cons.prems obtain acc2 w2 where "record_step M acc inp w = (Inr acc2, w2)"
    and r: "foldS (record_step M) acc2 inputs w2 = (Inr acc1, w1)" by (auto simp: bindS_Inr)
  from record_step_ok[OF this(1)] Cons.IH[OF r] show ?case by (auto simp: recorded_def)
qed simp

section \<open>The charges of a meter cover its events once\<close>

definition metered_of :: "'d db \<Rightarrow> string \<Rightarrow> string \<Rightarrow> string \<Rightarrow> subscription list" where
  "metered_of db orgId customerId metricId =
    sort_key sub_StartDate (sort_key sub_CreatedAt
      (filter (\<lambda>s. sub_OrgId s = orgId \<and> sub_CustomerId s = customerId \<and> owns_metered_line db metricId s \<and>
          (sub_Status s = SubscriptionStatusActive \<or> sub_Status s = SubscriptionStatusTrial
           \<or> sub_Status s = SubscriptionStatusPastDue)) (t_subscriptions db)))"

lemma usageQueryFor_ok:
  assumes "usageQueryFor s price from to w = (Inr (m, q), w1)"
  shows "\<exists>ext. q = applyPriceFilter m price
    (scoped_query s price from to ext (metered_of (w_db w) (sub_OrgId s) (sub_CustomerId s) (met_Id m)))"
proof -
  from assms obtain w2 w3 ext where a: "MeterRepo_FindById (sub_OrgId s) (prc_BillableMetricId price) w = (Inr m, w2)"
    and b: "tryS (CustomerRepo_FindById (sub_OrgId s) (sub_CustomerId s)) (\<lambda>r. case r of
             Inr cust \<Rightarrow> retS (cus_ExternalId cust)
           | Inl e \<Rightarrow> if is_not_found e then retS [] else failS e) w2 = (Inr ext, w3)"
    and c: "(\<exists>ms. SubscriptionRepo_FindActiveMeteredForMeter (sub_OrgId s) (sub_CustomerId s) (met_Id m) w3 = (Inr ms, w1) \<and>
        q = applyPriceFilter m price (scoped_query s price from to ext ms))"
    unfolding usageQueryFor_def by (elim bindS_InrE) auto
  have "obeys (same_on (\<lambda>d. d)) (tryS (CustomerRepo_FindById (sub_OrgId s) (sub_CustomerId s)) (\<lambda>r. case r of
             Inr cust \<Rightarrow> retS (cus_ExternalId cust)
           | Inl e \<Rightarrow> if is_not_found e then retS [] else failS e))"
    by (auto simp: CustomerRepo_FindById_def intro!: keep.obeys_tryS split: sum.split)
  from keeps[OF this b] have "w_db w3 = w_db w2" .
  moreover have "w_db w2 = w_db w" using a by (auto simp: MeterRepo_FindById_def selOne_Inr)
  ultimately show ?thesis
    using c by (auto simp: SubscriptionRepo_FindActiveMeteredForMeter_def metered_of_def bindS_Inr sel_Inr)
qed

definition slices :: "billable_metric \<Rightarrow> string \<Rightarrow> 'd price list \<Rightarrow> bool" where
  "slices m field ps \<longleftrightarrow> field \<noteq> [] \<and> (\<forall>p\<in>set ps. prc_FilterField p = field) \<and>
     distinct (map prc_FilterValue ps) \<and> set (map prc_FilterValue ps) = insert [] (set (FilterValues m field))"

lemma slice_clause:
  assumes "slices m field ps" and "p \<in> set ps" and "[] \<notin> set (FilterValues m field)"
  shows "filter_clause (applyPriceFilter m p (scoped_query s p from to ext ms)) e \<longleftrightarrow>
    prc_FilterValue p = (case mev_Metadata e field of
       None \<Rightarrow> [] | Some v \<Rightarrow> if v \<in> set (FilterValues m field) then v else [])"
  using assms
  by (auto simp: slices_def applyPriceFilter_def scoped_query_def filter_clause_def IsDefaultFilter_def split: option.split)

lemma filter_one:
  assumes "distinct (map f xs)" and "v \<in> f ` set xs"
  shows "length (filter (\<lambda>x. f x = v) xs) = 1"
  using assms by (induction xs) (auto simp: filter_empty_conv image_iff)

lemma filter_product:
  "length (filter (\<lambda>(a, b). P a \<and> Q b) (List.product xs ys)) = length (filter P xs) * length (filter Q ys)"
  by (induction xs) (auto simp: filter_map comp_def)

lemma applyPriceFilter_fields [simp]:
  "uq_OrgId (applyPriceFilter m p q) = uq_OrgId q" "uq_From (applyPriceFilter m p q) = uq_From q"
  "uq_To (applyPriceFilter m p q) = uq_To q" "uq_CustomerId (applyPriceFilter m p q) = uq_CustomerId q"
  "uq_ExternalCustomerId (applyPriceFilter m p q) = uq_ExternalCustomerId q"
  "uq_SubscriptionId (applyPriceFilter m p q) = uq_SubscriptionId q"
  "uq_IncludeUnattributed (applyPriceFilter m p q) = uq_IncludeUnattributed q"
  by (simp_all add: applyPriceFilter_def)

lemma scoped_query_fields [simp]:
  "uq_OrgId (scoped_query s p from to ext ms) = sub_OrgId s" "uq_From (scoped_query s p from to ext ms) = from"
  "uq_To (scoped_query s p from to ext ms) = to"
  by (simp_all add: scoped_query_def)

lemma whereClause_code: "whereClause (q\<lparr>uq_MetricCode := c\<rparr>) e \<longleftrightarrow>
    mev_OrgId e = uq_OrgId q \<and> mev_MetricCode e = c \<and> uq_From q \<le> mev_Timestamp e \<and> mev_Timestamp e < uq_To q \<and>
    customer_clause q e \<and> subscription_clause q e \<and> filter_clause q e"
  by (simp add: whereClause_def customer_clause_def subscription_clause_def filter_clause_def split: option.split)

lemma metered_of_props: "s \<in> set (metered_of db o1 c m) \<Longrightarrow> sub_OrgId s = o1 \<and> sub_CustomerId s = c \<and> s \<in> set (t_subscriptions db)"
  by (simp add: metered_of_def)

lemma metered_of_distinct:
  assumes "distinct (map sub_key (t_subscriptions db))"
  shows "distinct (map sub_Id (metered_of db o1 c m))"
proof -
  have "distinct (map sub_Id (filter (\<lambda>s. sub_OrgId s = o1 \<and> P s) xs))" if "distinct (map sub_key xs)" for P xs
    using that by (auto simp: distinct_map inj_on_def sub_key_def)
  then show ?thesis using assms unfolding metered_of_def by simp
qed

text \<open>Of the subscriptions the list names, the one an event counts for.\<close>

lemma subscription_slice:
  assumes "distinct (map sub_Id subs)" and "s \<in> set subs" and "sub_Id s \<noteq> []"
    and "mev_SubscriptionId e = [] \<or> mev_SubscriptionId e \<in> sub_Id ` set subs"
  shows "subscription_clause (applyPriceFilter m p (scoped_query s p from to ext subs)) e \<longleftrightarrow>
    sub_Id s = (if mev_SubscriptionId e = [] then sub_Id (hd subs) else mev_SubscriptionId e)"
proof (cases subs)
  case (Cons a as)
  then show ?thesis using assms by (auto simp: subscription_clause_def col_eq_def scoped_query_def)
qed (use assms in simp)

section \<open>Samples\<close>

definition sample_metric :: "string list \<Rightarrow> string list \<Rightarrow> aggregation_type \<Rightarrow> billable_metric" where
  "sample_metric values groups agg = \<lparr> met_OrgId = ''o'', met_Id = ''m'', met_Code = ''code'', met_Name = [],
     met_Aggregation = agg, met_FieldName = ''n'', met_CarryOver = False, met_RoundingMode = [],
     met_RoundingScale = 0, met_Filters = [\<lparr> mfl_Field = ''f'', mfl_Values = values \<rparr>], met_GroupBy = groups,
     met_Metadata = Map.empty, met_CreatedAt = 0, met_UpdatedAt = 0 \<rparr>"

definition metered_sub :: subscription where
  "metered_sub = sample_subscription\<lparr>sub_OrgId := ''o'', sub_Id := ''s'', sub_CustomerId := ''c'',
     sub_Status := SubscriptionStatusActive\<rparr>"

definition metered_price :: "string \<Rightarrow> string \<Rightarrow> rat price" where
  "metered_price pid v = sample_price\<lparr>prc_OrgId := ''o'', prc_Id := pid, prc_BillableMetricId := ''m'',
     prc_FilterField := ''f'', prc_FilterValue := v\<rparr>"

definition sample_item :: "string \<Rightarrow> order_item" where
  "sample_item pid = \<lparr> itm_OrgId = ''o'', itm_Id = ''i'', itm_OrderId = ''or'', itm_ProductId = ''p'', itm_VariantId = ''v'',
     itm_PriceId = pid, itm_SubscriptionId = ''s'', itm_Description = [], itm_Quantity = 1, itm_TaxTotal = 0,
     itm_DiscountTotal = 0, itm_Subtotal = 0, itm_Total = 0, itm_Metadata = Map.empty, itm_CreatedAt = 0,
     itm_UpdatedAt = 0 \<rparr>"

definition usage_db :: "billable_metric \<Rightarrow> rat db" where
  "usage_db m = empty_db\<lparr>t_subscriptions := [metered_sub], t_metrics := [m],
     t_prices := [metered_price ''pa'' ''a'', metered_price ''pd'' []], t_order_items := [sample_item ''pa'']\<rparr>"

definition usage_world :: "billable_metric \<Rightarrow> rat world" where
  "usage_world m = world_of (usage_db m) (\<lambda>n. int n + 5)"

lemmas usage_sample = sample_metric_def metered_sub_def metered_price_def sample_item_def usage_db_def usage_world_def
  world_of_def empty_db_def sample_subscription_def sample_price_def

text \<open>C8: Charges that slice a meter by the values of a field, together with the default
  charge, over all subscriptions of the customer that meter it: a usage event of the
  customer within the period falls into the query of exactly one subscription and charge,
  whether or not it is attributed and whether or not the field is present.\<close>

theorem usage_billed_once:
  fixes ps :: "'d price list" and w :: "'d world"
  assumes "\<And>s p. s \<in> set subs \<Longrightarrow> p \<in> set ps \<Longrightarrow> \<exists>w1. usageQueryFor s p start stop w = (Inr (m, q s p), w1)"
    and "subs = metered_of (w_db w) orgId customerId (met_Id m)" and "subs \<noteq> []"
    and "slices m field ps" and "metric_ok m"
    and "distinct (map sub_key (t_subscriptions (w_db w)))" and "[] \<notin> sub_Id ` set subs"
    and "mev_OrgId e = orgId" and "mev_MetricCode e = met_Code m" and "mev_CustomerId e = customerId" and "customerId \<noteq> []"
    and "start \<le> mev_Timestamp e" and "mev_Timestamp e < stop"
    and "mev_SubscriptionId e = [] \<or> mev_SubscriptionId e \<in> sub_Id ` set subs"
  shows "length (filter (\<lambda>(s, p). whereClause ((q s p)\<lparr>uq_MetricCode := met_Code m\<rparr>) e) (List.product subs ps)) = 1"
proof -
  let ?v = "case mev_Metadata e field of None \<Rightarrow> [] | Some v \<Rightarrow> if v \<in> set (FilterValues m field) then v else []"
  let ?i = "if mev_SubscriptionId e = [] then sub_Id (hd subs) else mev_SubscriptionId e"
  have vals: "[] \<notin> set (FilterValues m field)" using metric_ok_values[OF assms(5)] by blast
  have ids: "distinct (map sub_Id subs)" using metered_of_distinct[OF assms(6)] by (simp add: assms(2))
  have clause: "whereClause ((q s p)\<lparr>uq_MetricCode := met_Code m\<rparr>) e \<longleftrightarrow> sub_Id s = ?i \<and> prc_FilterValue p = ?v"
    if "s \<in> set subs" and "p \<in> set ps" for s p
  proof -
    have s: "sub_OrgId s = orgId" "sub_CustomerId s = customerId"
      using that(1) metered_of_props unfolding assms(2) by fastforce+
    have id: "sub_Id s \<noteq> []" using that(1) assms(7) by force
    from assms(1)[OF that] obtain ext where q: "q s p = applyPriceFilter m p (scoped_query s p start stop ext subs)"
      using usageQueryFor_ok by (metis assms(2) s(1,2))
    have "customer_clause (q s p) e" using assms(10,11) s by (simp add: q customer_clause_def scoped_query_def col_eq_def)
    then show ?thesis
      using assms(8,9,12,13) s
      unfolding q whereClause_code slice_clause[OF assms(4) that(2) vals] subscription_slice[OF ids that(1) id assms(14)]
      by simp
  qed
  have "filter (\<lambda>(s, p). whereClause ((q s p)\<lparr>uq_MetricCode := met_Code m\<rparr>) e) (List.product subs ps)
      = filter (\<lambda>(s, p). sub_Id s = ?i \<and> prc_FilterValue p = ?v) (List.product subs ps)"
    by (rule filter_cong) (auto simp: clause)
  moreover have "?i \<in> sub_Id ` set subs" using assms(3,14) by (cases subs) auto
  moreover have "?v \<in> prc_FilterValue ` set ps" using assms(4) by (auto simp: slices_def split: option.split)
  ultimately show ?thesis
    using filter_one[OF ids] filter_one[of prc_FilterValue ps] assms(4) by (simp add: filter_product slices_def)
qed

theorem usage_billed_once_witness:
  "let q = (\<lambda>s p. snd (projr (fst (usageQueryFor s p 0 10 (usage_world (sample_metric [''a''] [] AggregationCount)))))) in
   length (filter (\<lambda>(s, p). whereClause ((q s p)\<lparr>uq_MetricCode := ''code''\<rparr>)
       \<lparr> mev_OrgId = ''o'', mev_Id = ''e'', mev_CustomerId = ''c'', mev_ExternalCustomerId = [], mev_MetricCode = ''code'',
         mev_SubscriptionId = [], mev_ExternalId = [], mev_Metadata = [''f'' \<mapsto> ''a''], mev_Value = (0 :: rat),
         mev_Timestamp = 7, mev_CreatedAt = 7 \<rparr>)
     (List.product [metered_sub] [metered_price ''pa'' ''a'', metered_price ''pd'' []])) = 1"
proof -
  define m where "m = sample_metric [''a''] [] AggregationCount"
  define q where "q = (\<lambda>s p. snd (projr (fst (usageQueryFor s p 0 10 (usage_world m)))))"
  have run: "\<exists>w1. usageQueryFor metered_sub (metered_price pid v) 0 10 (usage_world m) = (Inr (m, q metered_sub (metered_price pid v)), w1)" for pid v
    by (simp add: q_def usageQueryFor_def MeterRepo_FindById_def CustomerRepo_FindById_def
        SubscriptionRepo_FindActiveMeteredForMeter_def selOne_def sel_def stmt_def bindS_def tryS_def translateErr_def
        find_row_def failS_def retS_def m_def usage_sample)
  have f: "slices m ''f'' [metered_price ''pa'' ''a'', metered_price ''pd'' []]"
    by (auto simp: slices_def m_def usage_sample FilterValues_def)
  have "metric_ok m"
    by (simp add: metric_ok_def m_def sample_metric_def validAggregations_def validRoundingModes_def filter_ok_def)
  note ok = this
  have subs: "metered_of (w_db (usage_world m)) ''o'' ''c'' (met_Id m) = [metered_sub]"
    by (simp add: metered_of_def usage_sample m_def owns_metered_line_def col_eq_def)
  let ?e = "\<lparr> mev_OrgId = ''o'', mev_Id = ''e'', mev_CustomerId = ''c'', mev_ExternalCustomerId = [], mev_MetricCode = ''code'',
         mev_SubscriptionId = [], mev_ExternalId = [], mev_Metadata = [''f'' \<mapsto> ''a''], mev_Value = (0 :: rat),
         mev_Timestamp = 7, mev_CreatedAt = 7 \<rparr>"
  have code: "met_Code m = ''code''" by (simp add: m_def sample_metric_def)
  have "length (filter (\<lambda>(s, p). whereClause ((q s p)\<lparr>uq_MetricCode := met_Code m\<rparr>) ?e)
      (List.product [metered_sub] [metered_price ''pa'' ''a'', metered_price ''pd'' []])) = 1"
  proof (rule usage_billed_once[where w = "usage_world m" and orgId = "''o''" and customerId = "''c''" and field = "''f''"
      and start = 0 and stop = 10, OF _ subs[symmetric] _ f ok])
    show "\<exists>w1. usageQueryFor s p 0 10 (usage_world m) = (Inr (m, q s p), w1)"
      if "s \<in> set [metered_sub]" "p \<in> set [metered_price ''pa'' ''a'', metered_price ''pd'' []]" for s p
      using that run by auto
    show "distinct (map sub_key (t_subscriptions (w_db (usage_world m))))" by (simp add: usage_world_def world_of_def usage_db_def)
  qed (simp_all add: code metered_sub_def)
  then show ?thesis unfolding Let_def q_def m_def code[unfolded m_def] .
qed

text \<open>A meter that is created satisfies every rule the readings rely on, is stored once
  and has a code no other meter of the organisation has; an input that breaks a rule is
  refused before anything is read or written.\<close>

theorem meter_created_valid:
  "(MeterService_Create inp w = (Inr m, w1) \<longrightarrow>
      metric_ok m \<and> met_Code m = cmi_Code inp \<and> t_metrics (w_db w1) = t_metrics (w_db w) @ [m] \<and>
      (\<forall>b\<in>set (t_metrics (w_db w)). met_OrgId b = met_OrgId m \<longrightarrow> met_Code b \<noteq> met_Code m)) \<and>
   (\<not> metric_ok (metric_of inp mid now) \<longrightarrow> (\<exists>msg. MeterService_Create inp w = (fail BadRequestError msg, w)))"
proof (intro conjI impI)
  assume "MeterService_Create inp w = (Inr m, w1)"
  from MeterService_Create_ok[OF this]
  show "metric_ok m" "met_Code m = cmi_Code inp" "t_metrics (w_db w1) = t_metrics (w_db w) @ [m]"
      "\<forall>b\<in>set (t_metrics (w_db w)). met_OrgId b = met_OrgId m \<longrightarrow> met_Code b \<noteq> met_Code m"
    by (auto simp: metric_of_def)
next
  assume bad: "\<not> metric_ok (metric_of inp mid now)"
  have vf: "\<exists>msg. validateFiltersAndGroups fs gs = fail BadRequestError msg" if "validateFiltersAndGroups fs gs \<noteq> Inr ()" for fs gs
    using that by (rule refused_filters)
  have vc: "validateCarryOver inp = Inr () \<or> (\<exists>msg. validateCarryOver inp = fail BadRequestError msg)"
    unfolding validateCarryOver_def by (cases "cmi_CarryOver inp") simp_all
  show "\<exists>msg. MeterService_Create inp w = (fail BadRequestError msg, w)"
    using bad vf[of "cmi_Filters inp" "cmi_GroupBy inp"] vc
    unfolding metric_of_ok MeterService_Create_def NewCustomError_def
    by (cases "validateFiltersAndGroups (cmi_Filters inp) (cmi_GroupBy inp) = Inr ()") auto
qed

theorem meter_created_valid_witness:
  "fst (MeterService_Create \<lparr> cmi_OrgId = ''o'', cmi_Code = ''c'', cmi_Name = [], cmi_Aggregation = AggregationWeightedSum,
      cmi_FieldName = ''f'', cmi_CarryOver = False, cmi_RoundingMode = [], cmi_RoundingScale = 0, cmi_Filters = [],
      cmi_GroupBy = [], cmi_Metadata = Map.empty \<rparr> (world_of (empty_db :: rat db) (\<lambda>n. 1))) \<in> range (fail BadRequestError)"
proof -
  let ?i = "\<lparr> cmi_OrgId = ''o'', cmi_Code = ''c'', cmi_Name = [], cmi_Aggregation = AggregationWeightedSum,
      cmi_FieldName = ''f'', cmi_CarryOver = False, cmi_RoundingMode = [], cmi_RoundingScale = 0, cmi_Filters = [],
      cmi_GroupBy = [], cmi_Metadata = Map.empty \<rparr>"
  have "\<not> metric_ok (metric_of ?i [] 0)" by (simp add: metric_ok_def metric_of_def)
  then show ?thesis
    using meter_created_valid[of ?i "world_of (empty_db :: rat db) (\<lambda>n. 1)" _ _ "[]" 0] by fastforce
qed

text \<open>C9: Sending a usage event again under its external id stores nothing: after a first
  recording, and whatever else is recorded in between, a second one for the same organisation
  and external id that returns reports a duplicate and leaves the events as they are.\<close>

theorem record_event_once:
  assumes "RecordEvent M inp w = (Inr r1, w1)" and "ing_Status r1 = IngestRecorded" and "rei_ExternalId inp \<noteq> []"
    and "set (t_meter_events (w_db w1)) \<subseteq> set (t_meter_events (w_db w2))"
    and "rei_OrgId again = rei_OrgId inp" and "rei_ExternalId again = rei_ExternalId inp"
    and "RecordEvent M again w2 = (Inr r2, w3)"
  shows "ing_Status r2 = IngestDuplicate \<and> t_meter_events (w_db w3) = t_meter_events (w_db w2)"
proof -
  from RecordEvent_ok[OF assms(1)] assms(2) obtain e where "mev_OrgId e = rei_OrgId inp" "mev_ExternalId e = rei_ExternalId inp"
    and "e \<in> set (t_meter_events (w_db w1))" by (auto split: if_splits)
  then have "list_ex (mev_clash e2) (t_meter_events (w_db w2))"
    if "mev_OrgId e2 = rei_OrgId again" "mev_ExternalId e2 = rei_ExternalId again" for e2
    using assms(3-6) that by (auto simp: list_ex_iff mev_clash_def col_eq_def intro!: bexI[of _ e])
  with RecordEvent_ok[OF assms(7)] show ?thesis by auto
qed

definition rat_metering :: "rat metering_ops" where
  "rat_metering = \<lparr> mo_dec = rat_ops, mo_parse = (\<lambda>_. None), mo_round_ceil = (\<lambda>a _. a), mo_round_floor = (\<lambda>a _. a),
     mo_round = (\<lambda>a _. a) \<rparr>"

definition sample_record :: "string \<Rightarrow> record_event_input" where
  "sample_record ext = \<lparr> rei_OrgId = ''o'', rei_MetricCode = ''code'', rei_CustomerId = [], rei_ExternalCustomerId = ''x'',
     rei_SubscriptionId = [], rei_ExternalId = ext, rei_Timestamp = 3, rei_Metadata = Map.empty \<rparr>"

theorem record_event_once_witness:
  "\<exists>w1 w2. snd (RecordEvent rat_metering (sample_record ''k'') (usage_world (sample_metric [''a''] [] AggregationCount))) = w1 \<and>
     snd (RecordEvent rat_metering (sample_record ''k'') w1) = w2 \<and>
     t_meter_events (w_db w1) \<noteq> [] \<and> t_meter_events (w_db w2) = t_meter_events (w_db w1)"
proof -
  define w where "w = usage_world (sample_metric [''a''] [] AggregationCount)"
  define w1 where "w1 = snd (RecordEvent rat_metering (sample_record ''k'') w)"
  have "\<not> isl (fst (RecordEvent rat_metering (sample_record ''k'') w))"
    and st: "ing_Status (projr (fst (RecordEvent rat_metering (sample_record ''k'') w))) = IngestRecorded"
    and ne: "t_meter_events (w_db w1) \<noteq> []"
    and "\<not> isl (fst (RecordEvent rat_metering (sample_record ''k'') w1))"
    unfolding w1_def w_def by code_simp+
  then obtain r1 r2 where "RecordEvent rat_metering (sample_record ''k'') w = (Inr r1, w1)" "ing_Status r1 = IngestRecorded"
      "RecordEvent rat_metering (sample_record ''k'') w1 = (Inr r2, snd (RecordEvent rat_metering (sample_record ''k'') w1))"
    by (metis w1_def prod.collapse sum.collapse(2))
  from record_event_once[OF this(1,2) _ _ _ _ this(3)] ne show ?thesis
    unfolding w_def[symmetric] w1_def[symmetric] by (simp add: sample_record_def)
qed

text \<open>A batch answers for every input in order, and the events added are exactly those
  it reports as recorded: rejected and duplicate inputs store nothing and do not stop
  the batch.\<close>

theorem record_events_aligned:
  assumes "RecordEvents M inputs w = (Inr rs, w1)"
  shows "length rs = length inputs \<and>
    length (t_meter_events (w_db w1)) = length (t_meter_events (w_db w)) + recorded rs"
proof -
  from assms obtain acc where "foldS (record_step M) ([], Map.empty) inputs w = (Inr acc, w1)" and "rs = fst acc"
    by (auto simp: RecordEvents_def bindS_Inr)
  with record_fold_ok[OF this(1)] show ?thesis by (simp add: recorded_def)
qed

theorem record_events_aligned_witness:
  "\<exists>rs w1. RecordEvents rat_metering [sample_record ''k'', (sample_record ''j'')\<lparr>rei_MetricCode := ''?''\<rparr>, sample_record ''k'']
      (usage_world (sample_metric [''a''] [] AggregationCount)) = (Inr rs, w1) \<and>
    length rs = 3 \<and> length (t_meter_events (w_db w1)) = recorded rs"
proof -
  define run where "run = RecordEvents rat_metering [sample_record ''k'', (sample_record ''j'')\<lparr>rei_MetricCode := ''?''\<rparr>, sample_record ''k'']
      (usage_world (sample_metric [''a''] [] AggregationCount))"
  have "\<not> isl (fst run)" unfolding run_def by code_simp
  then obtain rs w1 where r: "run = (Inr rs, w1)" by (cases run; cases "fst run") auto
  from record_events_aligned[OF r[unfolded run_def]] show ?thesis
    using r unfolding run_def by (simp add: usage_sample)
qed

text \<open>A stored meter can always be read: the aggregation of a period is one statement
  and returns a quantity unless that statement fails.\<close>

theorem meter_reading_total:
  assumes "MeterService_Create inp w0 = (Inr m, w1)" and "stmt_ok w"
  shows "\<exists>x. AggregateForPeriod M m q w = (Inr x, w\<lparr>w_stmts := Suc (w_stmts w)\<rparr>)"
  using AggregateForPeriod_total MeterService_Create_ok[OF assms(1)] assms(2) by blast

definition sample_meter_input :: "aggregation_type \<Rightarrow> string list \<Rightarrow> create_meter_input" where
  "sample_meter_input agg groups = \<lparr> cmi_OrgId = ''o'', cmi_Code = ''c'', cmi_Name = [], cmi_Aggregation = agg,
      cmi_FieldName = ''f'', cmi_CarryOver = False, cmi_RoundingMode = [], cmi_RoundingScale = 0, cmi_Filters = [],
      cmi_GroupBy = groups, cmi_Metadata = Map.empty \<rparr>"

theorem meter_reading_total_witness:
  "\<exists>m. fst (MeterService_Create (sample_meter_input AggregationLatest []) (world_of (empty_db :: rat db) (\<lambda>n. 1))) = Inr m \<and>
     (\<forall>q. \<exists>x. fst (AggregateForPeriod rat_metering m q (world_of empty_db (\<lambda>n. 1))) = Inr x)"
proof -
  define run where "run = MeterService_Create (sample_meter_input AggregationLatest []) (world_of (empty_db :: rat db) (\<lambda>n. 1))"
  have "\<not> isl (fst run)" unfolding run_def by code_simp
  then obtain m w1 where r: "run = (Inr m, w1)" by (cases run; cases "fst run") auto
  have ok: "stmt_ok (world_of (empty_db :: rat db) (\<lambda>n. 1))" by (simp add: stmt_ok_def world_of_def)
  have "\<exists>x. fst (AggregateForPeriod rat_metering m q (world_of empty_db (\<lambda>n. 1))) = Inr x" for q
    using meter_reading_total[OF r[unfolded run_def] ok, of rat_metering q] by fastforce
  then show ?thesis using r unfolding run_def by fastforce
qed

text \<open>A meter of the latest value with a group dimension is accepted, and no period of
  a charge on it can ever be read: the store has no grouped reading of that kind.\<close>

theorem grouped_latest_unreadable:
  assumes "MeterService_Create inp w0 = (Inr m, w1)" and "cmi_Aggregation inp = AggregationLatest"
    and "cmi_GroupBy inp = [g]" and "prc_BillableMetricId price = met_Id m" and "sub_OrgId s = met_OrgId m"
    and "find_row (\<lambda>m. (met_OrgId m, met_Id m)) (met_OrgId m, met_Id m) (t_metrics (w_db w)) = Some m"
  shows "isl (fst (MeteredUsageForSubscription M s price from to w))"
proof (rule ccontr)
  have m: "met_Aggregation m = AggregationLatest" "met_GroupBy m = [g]"
    using MeterService_Create_ok[OF assms(1)] assms(2,3) by (auto simp: metric_of_def)
  assume "\<not> isl (fst (MeteredUsageForSubscription M s price from to w))"
  then obtain u w2 where "MeteredUsageForSubscription M s price from to w = (Inr u, w2)"
    by (metis prod.collapse sum.collapse(2))
  then obtain m1 q w3 where q: "usageQueryFor s price from to w = (Inr (m1, q), w3)"
    and r: "\<forall>k. met_GroupBy m1 = [k] \<longrightarrow>
       (\<exists>gs w4. AggregateGrouped (mo_dec M) (q\<lparr>uq_FieldName := met_FieldName m1, uq_MetricCode := met_Code m1\<rparr>)
          (met_Aggregation m1) k w3 = (Inr gs, w4))"
    unfolding MeteredUsageForSubscription_def Let_def
    by (elim bindS_InrE) (auto simp: bindS_Inr split: list.splits)
  have "m1 = m" using q assms(4-6) by (auto simp: usageQueryFor_def MeterRepo_FindById_def ok_simps)
  then show False using r m by (auto simp: AggregateGrouped_def groupedAggExpr_def bindS_Inr)
qed

theorem grouped_latest_unreadable_witness:
  "let w1 = snd (MeterService_Create (sample_meter_input AggregationLatest [''g'']) (world_of (empty_db :: rat db) (\<lambda>n. 1)))
   in length (t_metrics (w_db w1)) = 1 \<and>
      isl (fst (MeteredUsageForSubscription rat_metering metered_sub
        (sample_price\<lparr>prc_BillableMetricId := met_Id (hd (t_metrics (w_db w1)))\<rparr>) 0 10 w1))"
proof -
  define run where "run = MeterService_Create (sample_meter_input AggregationLatest [''g'']) (world_of (empty_db :: rat db) (\<lambda>n. 1))"
  have "\<not> isl (fst run)" unfolding run_def by code_simp
  then obtain m w1 where r: "run = (Inr m, w1)" by (cases run; cases "fst run") auto
  note k = MeterService_Create_ok[OF r[unfolded run_def]]
  have t: "t_metrics (w_db w1) = [m]" and "met_OrgId m = ''o''"
    using k by (auto simp: metric_of_def world_of_def empty_db_def sample_meter_input_def)
  then show ?thesis
    using grouped_latest_unreadable[OF r[unfolded run_def], of "''g''" "sample_price\<lparr>prc_BillableMetricId := met_Id m\<rparr>"
        metered_sub w1 rat_metering 0 10] r
    unfolding run_def
    by (simp add: sample_meter_input_def find_row_def metered_sub_def)
qed

end
