(* ===== verification/Coupon_Service.thy ===== *)
theory Coupon_Service
  imports Tenancy
begin

text \<open>
  The coupon service, src/internal/core/service/coupon.go: the gate with its caps,
  the preview, the direct redemption, and the reservation that an order holds until
  it is consumed into a discount or released.  Every operation is one function of
  the world; time.Now is read where the code reads it.
\<close>

section \<open>Inputs\<close>

record redeem_input =
  rdi_OrgId :: string
  rdi_Code :: string
  rdi_CouponId :: string
  rdi_CustomerId :: string
  rdi_SubscriptionId :: string
  rdi_OrderId :: string
  rdi_StartCycle :: int
  rdi_Amount :: int
  rdi_Currency :: string

record reserve_input =
  rsi_OrgId :: string
  rsi_Code :: string
  rsi_CouponId :: string
  rsi_CustomerId :: string
  rsi_OrderId :: string
  rsi_Currency :: string
  rsi_Amount :: int
  rsi_HoldTTL :: duration

record consume_input =
  cni_OrgId :: string
  cni_OrderId :: string
  cni_SubscriptionId :: string
  cni_StartCycle :: int

section \<open>Catalogue\<close>

definition CouponService_Create :: "'d decimal_ops \<Rightarrow> 'd new_coupon_input \<Rightarrow> ('d, 'd coupon) svc" where
  "CouponService_Create D inp =
    bindS (Generate ''coupon'') (\<lambda>cid.
    bindS (liftS (NewCoupon D cid inp)) CouponRepo_Create)"

definition CouponService_Update ::
    "string \<Rightarrow> string \<Rightarrow> string \<Rightarrow> bool \<Rightarrow> metadata \<Rightarrow> ('d, 'd coupon) svc" where
  "CouponService_Update orgId cid name active meta = CouponRepo_UpdateMutable orgId cid name active meta"

definition CouponService_Delete :: "string \<Rightarrow> string \<Rightarrow> ('d, unit) svc" where
  "CouponService_Delete orgId cid = CouponRepo_DeleteIfUnreferenced orgId cid"

definition CouponService_CreateCode :: "string \<Rightarrow> string \<Rightarrow> new_coupon_code_input \<Rightarrow> ('d, coupon_code) svc" where
  "CouponService_CreateCode orgId couponId inp =
    bindS (mapErrS (\<lambda>e. NewCustomError NotFoundError ''coupon not found'' (Some e))
             (CouponRepo_FindById orgId couponId)) (\<lambda>_.
    bindS (Generate ''ccode'') (\<lambda>cid.
    bindS (liftS (NewCouponCode cid (inp\<lparr>ncc_OrgId := orgId, ncc_CouponId := couponId\<rparr>))) CouponCodeRepo_Create))"

definition CouponService_UpdateCode :: "string \<Rightarrow> string \<Rightarrow> bool \<Rightarrow> metadata \<Rightarrow> ('d, coupon_code) svc" where
  "CouponService_UpdateCode orgId cid active meta = CouponCodeRepo_UpdateMutable orgId cid active meta"

section \<open>The gate\<close>

record 'd gate_result =
  gr_coupon :: "'d coupon option"
  gr_code :: "coupon_code option"
  gr_reason :: string

definition refused :: "string \<Rightarrow> 'd gate_result" where
  "refused reason = \<lparr> gr_coupon = None, gr_code = None, gr_reason = reason \<rparr>"

text \<open>
  The checks on the code, in the order of the source; None is a code that passes
  them.  time.Now is read only where the code reads it.
\<close>

definition gate_code_expired :: "coupon_code \<Rightarrow> ('d, string option) svc" where
  "gate_code_expired cc =
    (if ccd_ExpiresAt cc = 0 then retS None
     else bindS nowS (\<lambda>now. retS (if ccd_ExpiresAt cc < now then Some ''code_expired'' else None)))"

definition gate_code_cap :: "string \<Rightarrow> coupon_code \<Rightarrow> ('d, string option) svc" where
  "gate_code_cap orgId cc =
    (if 0 < ccd_MaxRedemptions cc then
       bindS nowS (\<lambda>now.
       bindS (ReservationRepo_CountLiveByCode orgId (ccd_Id cc) now) (\<lambda>held.
       retS (if ccd_MaxRedemptions cc \<le> ccd_TimesRedeemed cc + held then Some ''code_cap_reached'' else None)))
     else retS None)"

definition gate_code_restrictions ::
    "string \<Rightarrow> coupon_code \<Rightarrow> string \<Rightarrow> string \<Rightarrow> int \<Rightarrow> ('d, string option) svc" where
  "gate_code_restrictions orgId cc customerId currency amount =
    bindS (if rst_FirstTimeTransaction (ccd_Restrictions cc) then HasPriorSuccessfulPayment orgId customerId
           else retS False) (\<lambda>prior.
    if prior then retS (Some ''not_first_time'')
    else if 0 < rst_MinimumAmount (ccd_Restrictions cc) \<and>
            (currency \<noteq> rst_MinimumAmountCurrency (ccd_Restrictions cc) \<or>
             amount < rst_MinimumAmount (ccd_Restrictions cc))
    then retS (Some ''below_minimum'')
    else retS None)"

definition gate_code :: "string \<Rightarrow> coupon_code \<Rightarrow> string \<Rightarrow> string \<Rightarrow> int \<Rightarrow> ('d, string option) svc" where
  "gate_code orgId cc customerId currency amount =
    (if \<not> ccd_Active cc then retS (Some ''inactive'')
     else bindS (gate_code_expired cc) (\<lambda>r. if r \<noteq> None then retS r
     else bindS (gate_code_cap orgId cc) (\<lambda>r. if r \<noteq> None then retS r
     else if ccd_CustomerId cc \<noteq> [] \<and> ccd_CustomerId cc \<noteq> customerId then retS (Some ''wrong_customer'')
     else gate_code_restrictions orgId cc customerId currency amount)))"

definition gate_coupon_cap :: "string \<Rightarrow> 'd coupon \<Rightarrow> ('d, string option) svc" where
  "gate_coupon_cap orgId coupon =
    (if 0 < cpn_MaxRedemptions coupon then
       bindS (DiscountRepo_CountByCoupon orgId (cpn_Id coupon)) (\<lambda>n.
       bindS nowS (\<lambda>now.
       bindS (ReservationRepo_CountLiveByCoupon orgId (cpn_Id coupon) now) (\<lambda>held.
       retS (if cpn_MaxRedemptions coupon \<le> n + held then Some ''cap_reached'' else None))))
     else retS None)"

definition gate_coupon_once :: "string \<Rightarrow> 'd coupon \<Rightarrow> string \<Rightarrow> ('d, string option) svc" where
  "gate_coupon_once orgId coupon customerId =
    (if cpn_OncePerCustomer coupon then
       bindS (DiscountRepo_CountByCouponAndCustomer orgId (cpn_Id coupon) customerId) (\<lambda>n.
       bindS (if n = 0 then
                bindS nowS (\<lambda>now.
                bindS (ReservationRepo_ExistsLiveForCustomer orgId (cpn_Id coupon) customerId now) (\<lambda>held.
                retS (if held then 1 else n)))
              else retS n) (\<lambda>n.
       retS (if 0 < n then Some ''already_used'' else None)))
     else retS None)"

definition gate_coupon :: "string \<Rightarrow> 'd coupon \<Rightarrow> string \<Rightarrow> string \<Rightarrow> ('d, string option) svc" where
  "gate_coupon orgId coupon customerId currency =
    (if \<not> cpn_Active coupon then retS (Some ''coupon_inactive'')
     else bindS (if cpn_RedeemBy coupon = 0 then retS False
                 else bindS nowS (\<lambda>now. retS (cpn_RedeemBy coupon < now))) (\<lambda>late.
     if late then retS (Some ''expired'')
     else bindS (gate_coupon_cap orgId coupon) (\<lambda>r. if r \<noteq> None then retS r
     else bindS (gate_coupon_once orgId coupon customerId) (\<lambda>r. if r \<noteq> None then retS r
     else if cpn_DiscountType coupon = DiscountTypeFixed \<and> cpn_Currency coupon \<noteq> currency
     then retS (Some ''currency_mismatch'')
     else retS None))))"

text \<open>A row that is missing is the refusal code_not_found; another error is returned.\<close>

definition gate_by_coupon ::
    "string \<Rightarrow> coupon_code option \<Rightarrow> string \<Rightarrow> string \<Rightarrow> string \<Rightarrow> ('d, 'd gate_result) svc" where
  "gate_by_coupon orgId cc couponId customerId currency =
    tryS (CouponRepo_FindById orgId couponId) (\<lambda>r. case r of
      Inl e \<Rightarrow> if is_not_found e then retS (refused ''code_not_found'') else failS e
    | Inr coupon \<Rightarrow> bindS (gate_coupon orgId coupon customerId currency) (\<lambda>reason.
        case reason of Some s \<Rightarrow> retS (refused s)
        | None \<Rightarrow> retS \<lparr> gr_coupon = Some coupon, gr_code = cc, gr_reason = [] \<rparr>))"

definition gate :: "string \<Rightarrow> string \<Rightarrow> string \<Rightarrow> string \<Rightarrow> string \<Rightarrow> int \<Rightarrow> ('d, 'd gate_result) svc" where
  "gate orgId code couponId customerId currency amount =
    (if code \<noteq> [] then
       tryS (CouponCodeRepo_FindByCode orgId (ToUpper (TrimSpace code))) (\<lambda>r. case r of
         Inl e \<Rightarrow> if is_not_found e then retS (refused ''code_not_found'') else failS e
       | Inr cc \<Rightarrow> bindS (gate_code orgId cc customerId currency amount) (\<lambda>reason.
           case reason of Some s \<Rightarrow> retS (refused s)
           | None \<Rightarrow> gate_by_coupon orgId (Some cc) (ccd_CouponId cc) customerId currency))
     else gate_by_coupon orgId None couponId customerId currency)"

section \<open>Preview\<close>

definition subtotal :: "discountable_line list \<Rightarrow> int" where
  "subtotal ls = sum64 (map dl_Total ls)"

record discount_preview =
  dpv_Valid :: bool
  dpv_Reason :: string
  dpv_DiscountTotal :: int
  dpv_PerLine :: "string \<rightharpoonup> int"

definition zero_discount :: discount where
  "zero_discount = \<lparr> dsc_OrgId = [], dsc_Id = [], dsc_CouponId = [], dsc_CouponCodeId = [], dsc_CustomerId = [],
     dsc_OrderId = [], dsc_SubscriptionId = [], dsc_StartCycle = 0, dsc_Status = DiscountStatusOther [],
     dsc_RedeemedAt = 0, dsc_EndedAt = 0, dsc_Metadata = Map.empty, dsc_CreatedAt = 0, dsc_UpdatedAt = 0 \<rparr>"

text \<open>The sum ranges over the map's entries, one per distinct line id.\<close>

definition CouponService_Validate ::
    "'d decimal_ops \<Rightarrow> string \<Rightarrow> string \<Rightarrow> string \<Rightarrow> string \<Rightarrow> discountable_line list \<Rightarrow> ('d, discount_preview) svc" where
  "CouponService_Validate D orgId code customerId currency ls =
    bindS (gate orgId code [] customerId currency (subtotal ls)) (\<lambda>g.
    if gr_reason g \<noteq> [] then
      retS \<lparr> dpv_Valid = False, dpv_Reason = gr_reason g, dpv_DiscountTotal = 0, dpv_PerLine = Map.empty \<rparr>
    else case gr_coupon g of
      None \<Rightarrow> failS (InfraError ''unreachable'')
    | Some coupon \<Rightarrow>
        bindS nowS (\<lambda>now.
        let perLine = ApplyDiscounts D ls [\<lparr> ad_Discount = zero_discount\<lparr>dsc_RedeemedAt := now\<rparr>, ad_Coupon = coupon \<rparr>] 0 currency
        in retS \<lparr> dpv_Valid = True, dpv_Reason = [],
                  dpv_DiscountTotal = sum64 (map (mget perLine) (remdups (map dl_LineId ls))),
                  dpv_PerLine = perLine \<rparr>))"

section \<open>Redemption\<close>

definition CouponService_Redeem :: "redeem_input \<Rightarrow> ('d, discount) svc" where
  "CouponService_Redeem inp = RunInTx (
    bindS (gate (rdi_OrgId inp) (rdi_Code inp) (rdi_CouponId inp) (rdi_CustomerId inp) (rdi_Currency inp) (rdi_Amount inp)) (\<lambda>g.
    if gr_reason g \<noteq> [] then failS (NewCustomError BadRequestError (''coupon refused: '' @ gr_reason g) None)
    else case gr_coupon g of
      None \<Rightarrow> failS (InfraError ''unreachable'')
    | Some coupon \<Rightarrow>
        bindS (Generate ''disc'') (\<lambda>did.
        bindS nowS (\<lambda>now.
        bindS (liftS (NewDiscount did now
          \<lparr> ndi_OrgId = rdi_OrgId inp, ndi_CouponId = cpn_Id coupon,
            ndi_CouponCodeId = (case gr_code g of None \<Rightarrow> [] | Some cc \<Rightarrow> ccd_Id cc),
            ndi_CustomerId = rdi_CustomerId inp, ndi_SubscriptionId = rdi_SubscriptionId inp,
            ndi_OrderId = rdi_OrderId inp, ndi_StartCycle = rdi_StartCycle inp, ndi_RedeemedAt = 0,
            ndi_Metadata = Map.empty \<rparr>)) (\<lambda>d.
        bindS (DiscountRepo_Create d) (\<lambda>created.
        bindS (case gr_code g of None \<Rightarrow> retS ()
               | Some cc \<Rightarrow> CouponCodeRepo_IncrementRedeemed (rdi_OrgId inp) (ccd_Id cc)) (\<lambda>_.
        retS created)))))))"

section \<open>Reservation, consumption and release\<close>

definition refusalStatus :: "string \<Rightarrow> error_type" where
  "refusalStatus reason =
    (if reason = ''cap_reached'' \<or> reason = ''code_cap_reached'' \<or> reason = ''already_used''
     then ConflictError else ValidationError)"

text \<open>The row locks order concurrent runs; each run is one step here.\<close>

definition lock_or_refuse :: "('d, 'a) svc \<Rightarrow> ('d, 'a) svc" where
  "lock_or_refuse m = mapErrS (\<lambda>e. if is_not_found e
      then NewCustomError ValidationError ''coupon refused: code_not_found'' None else e) m"

definition CouponService_Reserve :: "reserve_input \<Rightarrow> ('d, coupon_reservation) svc" where
  "CouponService_Reserve inp =
    (let ttl = (if rsi_HoldTTL inp = 0 then mul64 30 Minute else rsi_HoldTTL inp) in
     RunInTx (
       bindS (if rsi_Code inp \<noteq> [] then
                bindS (lock_or_refuse (CouponCodeRepo_FindByCode (rsi_OrgId inp) (rsi_Code inp))) (\<lambda>cc.
                retS (ccd_CouponId cc))
              else retS (rsi_CouponId inp)) (\<lambda>couponId.
       bindS (lock_or_refuse (CouponRepo_FindById (rsi_OrgId inp) couponId)) (\<lambda>_.
       bindS (gate (rsi_OrgId inp) (rsi_Code inp) (rsi_CouponId inp) (rsi_CustomerId inp) (rsi_Currency inp) (rsi_Amount inp)) (\<lambda>g.
       if gr_reason g \<noteq> [] then
         failS (NewCustomError (refusalStatus (gr_reason g)) (''coupon refused: '' @ gr_reason g) None)
       else case gr_coupon g of
         None \<Rightarrow> failS (InfraError ''unreachable'')
       | Some coupon \<Rightarrow>
           bindS nowS (\<lambda>now.
           bindS (Generate ''cres'') (\<lambda>rid.
           bindS nowS (\<lambda>created.
           bindS (liftS (NewCouponReservation rid created
             \<lparr> nri_OrgId = rsi_OrgId inp, nri_CouponId = cpn_Id coupon,
               nri_CouponCodeId = (case gr_code g of None \<Rightarrow> [] | Some cc \<Rightarrow> ccd_Id cc),
               nri_CustomerId = rsi_CustomerId inp, nri_CheckoutSessionId = [], nri_OrderId = rsi_OrderId inp,
               nri_ExpiresAt = time_Add now ttl \<rparr>)) ReservationRepo_Create))))))))"

text \<open>isConflict: a CustomError of type conflict somewhere in the chain.\<close>

definition isConflict :: "app_error \<Rightarrow> bool" where
  "isConflict e = (case as_custom e of Some (ty, _) \<Rightarrow> ty = ConflictError | None \<Rightarrow> False)"

definition CouponService_Consume :: "consume_input \<Rightarrow> ('d, discount option) svc" where
  "CouponService_Consume inp = RunInTx (
    bindS (ReservationRepo_FindByOrder (cni_OrgId inp) (cni_OrderId inp)) (\<lambda>rs.
    case rs of
      [] \<Rightarrow> retS None
    | r # _ \<Rightarrow>
        bindS (Generate ''disc'') (\<lambda>did.
        bindS nowS (\<lambda>now.
        bindS (liftS (NewDiscount did now
          \<lparr> ndi_OrgId = cni_OrgId inp, ndi_CouponId = crs_CouponId r, ndi_CouponCodeId = crs_CouponCodeId r,
            ndi_CustomerId = crs_CustomerId r, ndi_SubscriptionId = cni_SubscriptionId inp,
            ndi_OrderId = cni_OrderId inp, ndi_StartCycle = cni_StartCycle inp, ndi_RedeemedAt = 0,
            ndi_Metadata = Map.empty \<rparr>)) (\<lambda>d.
        tryS (DiscountRepo_Create d) (\<lambda>res. case res of
          Inl e \<Rightarrow> if isConflict e
                   then bindS (ReservationRepo_DeleteByOrder (cni_OrgId inp) (cni_OrderId inp)) (\<lambda>_. retS None)
                   else failS e
        | Inr created \<Rightarrow>
            bindS (if crs_CouponCodeId r \<noteq> [] then CouponCodeRepo_IncrementRedeemed (cni_OrgId inp) (crs_CouponCodeId r)
                   else retS ()) (\<lambda>_.
            bindS (ReservationRepo_DeleteByOrder (cni_OrgId inp) (cni_OrderId inp)) (\<lambda>_.
            retS (Some created)))))))))"

definition CouponService_Release :: "string \<Rightarrow> string \<Rightarrow> ('d, unit) svc" where
  "CouponService_Release orgId orderId = ReservationRepo_DeleteByOrder orgId orderId"

section \<open>The gate reads, and what it has seen when it passes\<close>

definition redemptions :: "'d db \<Rightarrow> string \<Rightarrow> string \<Rightarrow> int" where
  "redemptions db orgId couponId =
    int (length (filter (\<lambda>d. dsc_OrgId d = orgId \<and> dsc_CouponId d = couponId) (t_discounts db)))"

definition live_holds :: "'d db \<Rightarrow> string \<Rightarrow> string \<Rightarrow> time \<Rightarrow> int" where
  "live_holds db orgId couponId now =
    int (length (filter (\<lambda>r. crs_OrgId r = orgId \<and> crs_CouponId r = couponId \<and> IsLive r now) (t_reservations db)))"

lemmas gate_parts = gate_code_expired_def gate_code_cap_def gate_code_restrictions_def gate_coupon_cap_def
  gate_coupon_once_def HasPriorSuccessfulPayment_def ReservationRepo_CountLiveByCode_def
  ReservationRepo_CountLiveByCoupon_def ReservationRepo_ExistsLiveForCustomer_def
  DiscountRepo_CountByCoupon_def DiscountRepo_CountByCouponAndCustomer_def

lemma reads_gate_code [reading]: "reads (gate_code o1 cc cu cy a)"
  unfolding gate_code_def gate_parts by (auto intro!: reading simp: Let_def)

lemma reads_gate_coupon [reading]: "reads (gate_coupon o1 c cu cy)"
  unfolding gate_coupon_def gate_parts by (auto intro!: reading simp: Let_def)

lemma reads_gate [reading]: "reads (gate o1 code cid cu cy a)"
  unfolding gate_def gate_by_coupon_def CouponRepo_FindById_def CouponCodeRepo_FindByCode_def
  by (auto intro!: reading split: sum.split option.split)

lemma gate_code_reason: "gate_code o1 cc cu cy a w = (Inr r, w1) \<Longrightarrow> r \<noteq> Some []"
  by (auto simp: gate_code_def gate_parts ok_simps split: if_splits)

lemma gate_coupon_reason: "gate_coupon o1 c cu cy w = (Inr r, w1) \<Longrightarrow> r \<noteq> Some []"
  by (auto simp: gate_coupon_def gate_parts ok_simps split: if_splits)

lemma gate_coupon_ok:
  assumes "gate_coupon o1 c cu cy w = (Inr None, w1)"
  shows "cpn_Active c" and "0 < cpn_MaxRedemptions c \<Longrightarrow>
    \<exists>n \<ge> w_ticks w. redemptions (w_db w) o1 (cpn_Id c) + live_holds (w_db w) o1 (cpn_Id c) (w_clock w n) < cpn_MaxRedemptions c"
proof -
  show "cpn_Active c" using assms by (simp add: gate_coupon_def split: if_splits)
  let ?late = "if cpn_RedeemBy c = 0 then retS False else bindS nowS (\<lambda>now. retS (cpn_RedeemBy c < now))"
  have "cpn_Active c" using assms by (simp add: gate_coupon_def split: if_splits)
  then obtain b w0 where late: "?late w = (Inr b, w0)"
    and rest: "(if b then retS (Some ''expired'')
     else bindS (gate_coupon_cap o1 c) (\<lambda>r. if r \<noteq> None then retS r
     else bindS (gate_coupon_once o1 c cu) (\<lambda>r. if r \<noteq> None then retS r
     else if cpn_DiscountType c = DiscountTypeFixed \<and> cpn_Currency c \<noteq> cy
     then retS (Some ''currency_mismatch'') else retS None))) w0 = (Inr None, w1)"
    using assms by (auto simp: gate_coupon_def elim!: bindS_InrE[where m = ?late])
  have q: "quiet w w0" by (rule readsD[where m = ?late, OF _ late]) (auto intro!: reading)
  obtain r w2 where cap': "gate_coupon_cap o1 c w0 = (Inr r, w2)"
    using rest by (cases b) (auto elim!: bindS_InrE[where m = "gate_coupon_cap o1 c"])
  then have cap: "gate_coupon_cap o1 c w0 = (Inr None, w2)"
    using rest by (cases b; cases r) (simp_all add: bindS_def)
  assume "0 < cpn_MaxRedemptions c"
  then have "redemptions (w_db w0) o1 (cpn_Id c) + live_holds (w_db w0) o1 (cpn_Id c) (w_clock w0 (w_ticks w0)) < cpn_MaxRedemptions c"
    using cap by (auto simp: gate_coupon_cap_def ReservationRepo_CountLiveByCoupon_def DiscountRepo_CountByCoupon_def
        ok_simps redemptions_def live_holds_def split: if_splits)
  then show "\<exists>n \<ge> w_ticks w. redemptions (w_db w) o1 (cpn_Id c) + live_holds (w_db w) o1 (cpn_Id c) (w_clock w n) < cpn_MaxRedemptions c"
    using quietD[OF q] by (intro exI[of _ "w_ticks w0"]) auto
qed

lemma gate_by_coupon_ok:
  assumes "gate_by_coupon o1 cc cid cu cy w = (Inr g, w1)" and "gr_reason g = []"
  shows "\<exists>c w0. gr_coupon g = Some c \<and> gr_code g = cc \<and> quiet w w0 \<and>
    find_row cpn_key (o1, cid) (t_coupons (w_db w)) = Some c \<and> gate_coupon o1 c cu cy w0 = (Inr None, w1)"
proof -
  obtain r w0 where f: "CouponRepo_FindById o1 cid w = (r, w0)" by (cases "CouponRepo_FindById o1 cid w")
  obtain c where r: "r = Inr c"
    using assms f by (cases r) (auto simp: gate_by_coupon_def tryS_def refused_def split: if_splits)
  obtain reason w2 where gc: "gate_coupon o1 c cu cy w0 = (Inr reason, w2)"
    and k: "(case reason of Some s \<Rightarrow> retS (refused s)
        | None \<Rightarrow> retS \<lparr> gr_coupon = Some c, gr_code = cc, gr_reason = [] \<rparr>) w2 = (Inr g, w1)"
    using assms(1) by (auto simp: gate_by_coupon_def tryS_def f r elim!: bindS_InrE)
  have "reason = None" using gate_coupon_reason[OF gc] k assms(2) by (auto simp: refused_def split: option.splits)
  then have "g = \<lparr> gr_coupon = Some c, gr_code = cc, gr_reason = [] \<rparr>" and "gate_coupon o1 c cu cy w0 = (Inr None, w1)"
    using gc k by auto
  moreover have "quiet w w0" using f readsD[OF reads_selOne] unfolding CouponRepo_FindById_def by blast
  moreover have "find_row cpn_key (o1, cid) (t_coupons (w_db w)) = Some c"
    using f r by (auto simp: CouponRepo_FindById_def selOne_Inr)
  ultimately show ?thesis by auto
qed

text \<open>A gate that passes has seen free capacity at one of the instants it read.\<close>

lemma gate_ok:
  assumes "gate o1 code cid cu cy a w = (Inr g, w1)" and "gr_reason g = []"
  shows "\<exists>c. gr_coupon g = Some c \<and> cpn_OrgId c = o1 \<and> find_row cpn_key (o1, cpn_Id c) (t_coupons (w_db w)) = Some c \<and>
    (0 < cpn_MaxRedemptions c \<longrightarrow>
      (\<exists>n \<ge> w_ticks w. redemptions (w_db w) o1 (cpn_Id c) + live_holds (w_db w) o1 (cpn_Id c) (w_clock w n)
        < cpn_MaxRedemptions c))"
proof -
  obtain cc cid' w2 where q2: "quiet w w2" and part: "gate_by_coupon o1 cc cid' cu cy w2 = (Inr g, w1)"
  proof (cases "code = []")
    case True
    then show thesis using assms(1) that[of w None cid] by (simp add: gate_def)
  next
    case False
    obtain r w0 where f: "CouponCodeRepo_FindByCode o1 (ToUpper (TrimSpace code)) w = (r, w0)"
      by (cases "CouponCodeRepo_FindByCode o1 (ToUpper (TrimSpace code)) w")
    have q0: "quiet w w0" using f readsD[OF reads_selOne] unfolding CouponCodeRepo_FindByCode_def by blast
    obtain cc where r: "r = Inr cc"
      using assms False f by (cases r) (auto simp: gate_def tryS_def refused_def split: if_splits)
    obtain reason w3 where gc: "gate_code o1 cc cu cy a w0 = (Inr reason, w3)"
      and k: "(case reason of Some s \<Rightarrow> retS (refused s)
          | None \<Rightarrow> gate_by_coupon o1 (Some cc) (ccd_CouponId cc) cu cy) w3 = (Inr g, w1)"
      using assms(1) False by (auto simp: gate_def tryS_def f r elim!: bindS_InrE)
    have "reason = None"
      using gate_code_reason[OF gc] k assms(2) by (cases reason) (auto simp: refused_def)
    with k show thesis
      using that[of w3 "Some cc" "ccd_CouponId cc"] quiet_trans[OF q0 readsD[OF reads_gate_code gc]] by simp
  qed
  obtain c w3 where c: "gr_coupon g = Some c" "quiet w2 w3" "find_row cpn_key (o1, cid') (t_coupons (w_db w2)) = Some c"
    "gate_coupon o1 c cu cy w3 = (Inr None, w1)"
    using gate_by_coupon_ok[OF part assms(2)] by blast
  have q: "quiet w w3" using quiet_trans[OF q2 c(2)] .
  have k: "cpn_key c = (o1, cid')" using find_row_key[OF c(3)] by simp
  show ?thesis
    using c(1) c(3) k quietD[OF q2] quietD[OF q] gate_coupon_ok(2)[OF c(4)]
    by (intro exI[of _ c]) (auto simp: cpn_key_def intro: order_trans)
qed

section \<open>What a redemption and a reservation write\<close>

lemma DiscountRepo_Create_ok:
  assumes "DiscountRepo_Create d w = (Inr d', w1)"
  shows "d' = d" and "w_db w1 = (w_db w)\<lparr>t_discounts := t_discounts (w_db w) @ [d]\<rparr>"
    and "w_clock w1 = w_clock w" and "\<not> list_ex (dsc_clash d) (t_discounts (w_db w))"
proof -
  obtain rs w0 where ins: "insert_row dsc_clash d (t_discounts (w_db w)) = Some rs"
    and f: "find_row dsc_key (dsc_OrgId d, dsc_Id d) rs = Some d'"
    and db: "w_db w1 = (w_db w)\<lparr>t_discounts := rs\<rparr>" and cl: "w_clock w1 = w_clock w"
    using assms by (auto simp: DiscountRepo_Create_def DiscountRepo_FindById_def ok_simps)
  have "find_row dsc_key (dsc_key d) rs = Some d"
    using find_row_insert[OF ins, of dsc_key] by (auto simp: dsc_clash_def dsc_key_def)
  then show "d' = d" using f by (simp add: dsc_key_def)
  show "w_db w1 = (w_db w)\<lparr>t_discounts := t_discounts (w_db w) @ [d]\<rparr>" "\<not> list_ex (dsc_clash d) (t_discounts (w_db w))"
    using ins db by (auto simp: insert_row_def split: if_splits)
  show "w_clock w1 = w_clock w" by (rule cl)
qed

lemma ReservationRepo_Create_ok:
  assumes "ReservationRepo_Create r w = (Inr r', w1)"
  shows "r' = r" and "w_db w1 = (w_db w)\<lparr>t_reservations := t_reservations (w_db w) @ [r]\<rparr>"
    and "w_clock w1 = w_clock w"
proof -
  obtain rs where ins: "insert_row crs_clash r (t_reservations (w_db w)) = Some rs"
    and f: "find_row (\<lambda>r. (crs_OrgId r, crs_Id r)) (crs_OrgId r, crs_Id r) rs = Some r'"
    and db: "w_db w1 = (w_db w)\<lparr>t_reservations := rs\<rparr>" and cl: "w_clock w1 = w_clock w"
    using assms by (auto simp: ReservationRepo_Create_def ok_simps)
  show "r' = r" using f find_row_insert[OF ins, of "\<lambda>r. (crs_OrgId r, crs_Id r)"] by (auto simp: crs_clash_def)
  show "w_db w1 = (w_db w)\<lparr>t_reservations := t_reservations (w_db w) @ [r]\<rparr>"
    using ins db by (auto simp: insert_row_def split: if_splits)
  show "w_clock w1 = w_clock w" by (rule cl)
qed

lemma DiscountRepo_Create_okD: "DiscountRepo_Create d w = (Inr d', w1) \<Longrightarrow>
    d' = d \<and> w_db w1 = (w_db w)\<lparr>t_discounts := t_discounts (w_db w) @ [d]\<rparr>"
  using DiscountRepo_Create_ok by blast

lemma ReservationRepo_Create_okD: "ReservationRepo_Create d w = (Inr d', w1) \<Longrightarrow>
    d' = d \<and> w_db w1 = (w_db w)\<lparr>t_reservations := t_reservations (w_db w) @ [d]\<rparr>"
  using ReservationRepo_Create_ok by blast

lemma Redeem_ok:
  assumes "CouponService_Redeem inp w = (Inr d, w1)"
  shows "\<exists>c. find_row cpn_key (rdi_OrgId inp, dsc_CouponId d) (t_coupons (w_db w)) = Some c \<and>
    t_discounts (w_db w1) = t_discounts (w_db w) @ [d] \<and> t_reservations (w_db w1) = t_reservations (w_db w) \<and>
    (0 < cpn_MaxRedemptions c \<longrightarrow> (\<exists>n \<ge> w_ticks w.
       redemptions (w_db w) (rdi_OrgId inp) (cpn_Id c) + live_holds (w_db w) (rdi_OrgId inp) (cpn_Id c) (w_clock w n)
         < cpn_MaxRedemptions c))"
proof -
  let ?o = "rdi_OrgId inp" and ?w = "w\<lparr>w_stmts := Suc (w_stmts w), w_tx := True\<rparr>"
  from RunInTx_Inr[OF assms[unfolded CouponService_Redeem_def]] obtain g w2 w3
    where g: "gate ?o (rdi_Code inp) (rdi_CouponId inp) (rdi_CustomerId inp) (rdi_Currency inp) (rdi_Amount inp) ?w = (Inr g, w2)"
      and rest: "(if gr_reason g \<noteq> [] then failS (NewCustomError BadRequestError (''coupon refused: '' @ gr_reason g) None)
        else case gr_coupon g of None \<Rightarrow> failS (InfraError ''unreachable'') | Some coupon \<Rightarrow>
        bindS (Generate ''disc'') (\<lambda>did. bindS nowS (\<lambda>now.
        bindS (liftS (NewDiscount did now
          \<lparr> ndi_OrgId = rdi_OrgId inp, ndi_CouponId = cpn_Id coupon,
            ndi_CouponCodeId = (case gr_code g of None \<Rightarrow> [] | Some cc \<Rightarrow> ccd_Id cc),
            ndi_CustomerId = rdi_CustomerId inp, ndi_SubscriptionId = rdi_SubscriptionId inp,
            ndi_OrderId = rdi_OrderId inp, ndi_StartCycle = rdi_StartCycle inp, ndi_RedeemedAt = 0,
            ndi_Metadata = Map.empty \<rparr>)) (\<lambda>d.
        bindS (DiscountRepo_Create d) (\<lambda>created.
        bindS (case gr_code g of None \<Rightarrow> retS () | Some cc \<Rightarrow> CouponCodeRepo_IncrementRedeemed (rdi_OrgId inp) (ccd_Id cc)) (\<lambda>_.
        retS created)))))) w2 = (Inr d, w3)"
      and w1: "w_db w1 = w_db w3"
    by (elim exE conjE bindS_InrE) auto
  have ok: "gr_reason g = []" using rest by (simp split: if_splits)
  obtain c where c: "gr_coupon g = Some c" using rest ok by (cases "gr_coupon g") auto
  have new: "t_discounts (w_db w3) = t_discounts (w_db w2) @ [d]" "t_reservations (w_db w3) = t_reservations (w_db w2)"
    "dsc_CouponId d = cpn_Id c"
    using rest by (auto simp: ok c bindS_Inr NewDiscount_def Let_def CouponCodeRepo_IncrementRedeemed_def exec_Inr
        dest!: DiscountRepo_Create_okD split: if_splits option.splits)
  have db2: "w_db w2 = w_db w" using quietD[OF readsD[OF reads_gate g]] by simp
  show ?thesis
    using gate_ok[OF g ok] c new w1 db2 by (intro exI[of _ c]) simp
qed

lemma Reserve_ok:
  assumes "CouponService_Reserve inp w = (Inr r, w1)"
  shows "\<exists>c. find_row cpn_key (rsi_OrgId inp, crs_CouponId r) (t_coupons (w_db w)) = Some c \<and>
    t_discounts (w_db w1) = t_discounts (w_db w) \<and> t_reservations (w_db w1) = t_reservations (w_db w) @ [r] \<and>
    (0 < cpn_MaxRedemptions c \<longrightarrow> (\<exists>n \<ge> w_ticks w.
       redemptions (w_db w) (rsi_OrgId inp) (cpn_Id c) + live_holds (w_db w) (rsi_OrgId inp) (cpn_Id c) (w_clock w n)
         < cpn_MaxRedemptions c))"
proof -
  let ?o = "rsi_OrgId inp" and ?w = "w\<lparr>w_stmts := Suc (w_stmts w), w_tx := True\<rparr>"
  let ?lock = "if rsi_Code inp \<noteq> [] then
                bindS (lock_or_refuse (CouponCodeRepo_FindByCode (rsi_OrgId inp) (rsi_Code inp))) (\<lambda>cc.
                retS (ccd_CouponId cc)) else retS (rsi_CouponId inp)"
  from RunInTx_Inr[OF assms[unfolded CouponService_Reserve_def Let_def]] obtain cid c0 w4 w5 g w2 w3
    where l: "?lock ?w = (Inr cid, w4)" and l2: "lock_or_refuse (CouponRepo_FindById ?o cid) w4 = (Inr c0, w5)"
      and g: "gate ?o (rsi_Code inp) (rsi_CouponId inp) (rsi_CustomerId inp) (rsi_Currency inp) (rsi_Amount inp) w5 = (Inr g, w2)"
      and rest: "(if gr_reason g \<noteq> [] then
         failS (NewCustomError (refusalStatus (gr_reason g)) (''coupon refused: '' @ gr_reason g) None)
       else case gr_coupon g of None \<Rightarrow> failS (InfraError ''unreachable'')
       | Some coupon \<Rightarrow> bindS nowS (\<lambda>now. bindS (Generate ''cres'') (\<lambda>rid. bindS nowS (\<lambda>created.
           bindS (liftS (NewCouponReservation rid created
             \<lparr> nri_OrgId = rsi_OrgId inp, nri_CouponId = cpn_Id coupon,
               nri_CouponCodeId = (case gr_code g of None \<Rightarrow> [] | Some cc \<Rightarrow> ccd_Id cc),
               nri_CustomerId = rsi_CustomerId inp, nri_CheckoutSessionId = [], nri_OrderId = rsi_OrderId inp,
               nri_ExpiresAt = time_Add now (if rsi_HoldTTL inp = 0 then mul64 30 Minute else rsi_HoldTTL inp) \<rparr>))
            ReservationRepo_Create)))) w2 = (Inr r, w3)"
      and w1: "w_db w1 = w_db w3"
    by (elim exE conjE bindS_InrE) auto
  have ok: "gr_reason g = []" using rest by (simp split: if_splits)
  obtain c where c: "gr_coupon g = Some c" using rest ok by (cases "gr_coupon g") auto
  have new: "t_discounts (w_db w3) = t_discounts (w_db w2)" "t_reservations (w_db w3) = t_reservations (w_db w2) @ [r]"
    "crs_CouponId r = cpn_Id c"
    using rest by (auto simp: ok c bindS_Inr NewCouponReservation_def Let_def
        dest!: ReservationRepo_Create_okD split: if_splits option.splits)
  have "reads ?lock" unfolding lock_or_refuse_def CouponCodeRepo_FindByCode_def by (auto intro!: reading)
  from readsD[where m = ?lock, OF this l] have q4: "quiet ?w w4" .
  have "reads (lock_or_refuse (CouponRepo_FindById ?o cid))"
    unfolding lock_or_refuse_def CouponRepo_FindById_def by (auto intro!: reading)
  from quiet_trans[OF q4 readsD[OF this l2]] have q5: "quiet ?w w5" .
  have db2: "w_db w2 = w_db w" using quietD[OF quiet_trans[OF q5 readsD[OF reads_gate g]]] by simp
  have q: "w_db w5 = w_db w" "w_clock w5 = w_clock w" "w_ticks w \<le> w_ticks w5" using quietD[OF q5] by simp_all
  show ?thesis
    using gate_ok[OF g ok] c new w1 db2 q by (intro exI[of _ c]) (auto intro: order_trans)
qed

section \<open>Consumption\<close>

definition order_holds :: "'d db \<Rightarrow> string \<Rightarrow> string \<Rightarrow> coupon_reservation list" where
  "order_holds db orgId orderId =
    filter (\<lambda>r. crs_OrgId r = orgId \<and> col_eq (crs_OrderId r) orderId) (t_reservations db)"

lemma Create_err_no_conflict: "DiscountRepo_Create d w = (Inl e, w1) \<Longrightarrow> \<not> isConflict e"
  by (auto simp: DiscountRepo_Create_def DiscountRepo_FindById_def bindS_def exec_def stmt_def selOne_def sel_def
      translateErr_def isConflict_def Let_def split: prod.splits sum.splits option.splits if_splits)

lemma Consume_ok:
  assumes "CouponService_Consume inp w = (Inr x, w1)"
  shows "case x of None \<Rightarrow> w_db w1 = w_db w \<and> order_holds (w_db w) (cni_OrgId inp) (cni_OrderId inp) = []
    | Some d \<Rightarrow> (\<exists>r rs. order_holds (w_db w) (cni_OrgId inp) (cni_OrderId inp) = r # rs \<and>
        dsc_CouponId d = crs_CouponId r \<and> dsc_CustomerId d = crs_CustomerId r \<and>
        dsc_SubscriptionId d = cni_SubscriptionId inp \<and> dsc_OrderId d = cni_OrderId inp \<and>
        dsc_OrgId d = cni_OrgId inp \<and> \<not> list_ex (dsc_clash d) (t_discounts (w_db w)) \<and>
        w_db w1 = (w_db w)\<lparr>t_discounts := t_discounts (w_db w) @ [d],
          t_coupon_codes := (if crs_CouponCodeId r = [] then t_coupon_codes (w_db w)
            else map (\<lambda>c. if ccd_key c = (cni_OrgId inp, crs_CouponCodeId r)
                 then c\<lparr>ccd_TimesRedeemed := ccd_TimesRedeemed c + 1\<rparr> else c) (t_coupon_codes (w_db w))),
          t_reservations := filter (\<lambda>r. \<not> (crs_OrgId r = cni_OrgId inp \<and> col_eq (crs_OrderId r) (cni_OrderId inp)))
            (t_reservations (w_db w))\<rparr>)"
proof -
  let ?w = "w\<lparr>w_stmts := Suc (w_stmts w), w_tx := True\<rparr>"
  let ?holds = "order_holds (w_db w) (cni_OrgId inp) (cni_OrderId inp)"
  from RunInTx_Inr[OF assms[unfolded CouponService_Consume_def]] obtain rs w2 w3
    where f: "ReservationRepo_FindByOrder (cni_OrgId inp) (cni_OrderId inp) ?w = (Inr rs, w2)"
      and rest: "(case rs of [] \<Rightarrow> retS None | r # _ \<Rightarrow>
        bindS (Generate ''disc'') (\<lambda>did. bindS nowS (\<lambda>now.
        bindS (liftS (NewDiscount did now
          \<lparr> ndi_OrgId = cni_OrgId inp, ndi_CouponId = crs_CouponId r, ndi_CouponCodeId = crs_CouponCodeId r,
            ndi_CustomerId = crs_CustomerId r, ndi_SubscriptionId = cni_SubscriptionId inp,
            ndi_OrderId = cni_OrderId inp, ndi_StartCycle = cni_StartCycle inp, ndi_RedeemedAt = 0,
            ndi_Metadata = Map.empty \<rparr>)) (\<lambda>d.
        tryS (DiscountRepo_Create d) (\<lambda>res. case res of
          Inl e \<Rightarrow> if isConflict e
                   then bindS (ReservationRepo_DeleteByOrder (cni_OrgId inp) (cni_OrderId inp)) (\<lambda>_. retS None)
                   else failS e
        | Inr created \<Rightarrow>
            bindS (if crs_CouponCodeId r \<noteq> [] then CouponCodeRepo_IncrementRedeemed (cni_OrgId inp) (crs_CouponCodeId r)
                   else retS ()) (\<lambda>_.
            bindS (ReservationRepo_DeleteByOrder (cni_OrgId inp) (cni_OrderId inp)) (\<lambda>_.
            retS (Some created)))))))) w2 = (Inr x, w3)"
      and w1: "w_db w1 = w_db w3"
    by (elim exE conjE bindS_InrE) auto
  have rs: "rs = ?holds" and db2: "w_db w2 = w_db w"
    using f by (auto simp: ReservationRepo_FindByOrder_def sel_Inr order_holds_def)
  show ?thesis
  proof (cases rs)
    case Nil
    then show ?thesis using rest rs db2 w1 by simp
  next
    case (Cons r rs')
    let ?K = "\<lambda>res. case res of
          Inl e \<Rightarrow> if isConflict e
                   then bindS (ReservationRepo_DeleteByOrder (cni_OrgId inp) (cni_OrderId inp)) (\<lambda>_. retS None)
                   else failS e
        | Inr created \<Rightarrow>
            bindS (if crs_CouponCodeId r \<noteq> [] then CouponCodeRepo_IncrementRedeemed (cni_OrgId inp) (crs_CouponCodeId r)
                   else retS ()) (\<lambda>_.
            bindS (ReservationRepo_DeleteByOrder (cni_OrgId inp) (cni_OrderId inp)) (\<lambda>_.
            retS (Some created)))"
    let ?N = "\<lambda>did now. NewDiscount did now
          \<lparr> ndi_OrgId = cni_OrgId inp, ndi_CouponId = crs_CouponId r, ndi_CouponCodeId = crs_CouponCodeId r,
            ndi_CustomerId = crs_CustomerId r, ndi_SubscriptionId = cni_SubscriptionId inp,
            ndi_OrderId = cni_OrderId inp, ndi_StartCycle = cni_StartCycle inp, ndi_RedeemedAt = 0,
            ndi_Metadata = Map.empty \<rparr>"
    have "bindS (Generate ''disc'') (\<lambda>did. bindS nowS (\<lambda>now. bindS (liftS (?N did now)) (\<lambda>d.
        tryS (DiscountRepo_Create d) ?K))) w2 = (Inr x, w3)"
      using rest Cons by simp
    then obtain did wa now wb d w4 where g: "Generate ''disc'' w2 = (Inr did, wa)" "nowS wa = (Inr now, wb)"
        "liftS (?N did now) wb = (Inr d, w4)" and t: "tryS (DiscountRepo_Create d) ?K w4 = (Inr x, w3)"
      by (elim bindS_InrE) (rule that)
    have nd: "?N did now = Inr d" and w4: "w_db w4 = w_db w2" using g by auto
    have d: "dsc_CouponId d = crs_CouponId r" "dsc_CustomerId d = crs_CustomerId r"
        "dsc_SubscriptionId d = cni_SubscriptionId inp" "dsc_OrderId d = cni_OrderId inp" "dsc_OrgId d = cni_OrgId inp"
      using nd by (auto simp: NewDiscount_def Let_def split: if_splits)
    obtain res w5 where cr: "DiscountRepo_Create d w4 = (res, w5)" by (cases "DiscountRepo_Create d w4")
    then have k: "?K res w5 = (Inr x, w3)" using t by (simp add: tryS_def)
    show ?thesis
    proof (cases res)
      case (Inl e)
      then show ?thesis using k Create_err_no_conflict[of d w4 e w5] cr by simp
    next
      case (Inr created)
      note cr' = DiscountRepo_Create_ok[OF cr[unfolded Inr]]
      have upd: "x = Some d \<and> w_db w3 = (w_db w2)\<lparr>t_discounts := t_discounts (w_db w2) @ [d],
          t_coupon_codes := (if crs_CouponCodeId r = [] then t_coupon_codes (w_db w2)
            else map (\<lambda>c. if ccd_key c = (cni_OrgId inp, crs_CouponCodeId r)
                 then c\<lparr>ccd_TimesRedeemed := ccd_TimesRedeemed c + 1\<rparr> else c) (t_coupon_codes (w_db w2))),
          t_reservations := filter (\<lambda>r. \<not> (crs_OrgId r = cni_OrgId inp \<and> col_eq (crs_OrderId r) (cni_OrderId inp)))
            (t_reservations (w_db w2))\<rparr>"
        using k by (auto simp: Inr bindS_Inr exec_Inr CouponCodeRepo_IncrementRedeemed_def
            ReservationRepo_DeleteByOrder_def cr'(1,2) w4 split: if_splits)
      have x: "x = Some d" using upd by blast
      show ?thesis unfolding x option.case
        by (intro exI[of _ r] exI[of _ rs'] conjI) (use upd d cr'(4) w4 w1 db2 rs Cons in simp_all)
    qed
  qed
qed

section \<open>Properties\<close>

definition one_time_coupon :: "rat coupon" where
  "one_time_coupon = sample_coupon\<lparr>cpn_MaxRedemptions := 1\<rparr>"

definition coupon_world :: "(nat \<Rightarrow> time) \<Rightarrow> rat world" where
  "coupon_world clock = world_of (empty_db\<lparr>t_coupons := [one_time_coupon]\<rparr>) clock"

definition sample_redeem :: redeem_input where
  "sample_redeem = \<lparr> rdi_OrgId = ''o'', rdi_Code = [], rdi_CouponId = ''c'', rdi_CustomerId = ''u'',
     rdi_SubscriptionId = [], rdi_OrderId = ''1'', rdi_StartCycle = 0, rdi_Amount = 0, rdi_Currency = ''USD'' \<rparr>"

definition sample_reserve :: "string \<Rightarrow> reserve_input" where
  "sample_reserve oid = \<lparr> rsi_OrgId = ''o'', rsi_Code = [], rsi_CouponId = ''c'', rsi_CustomerId = ''u'',
     rsi_OrderId = oid, rsi_Currency = ''USD'', rsi_Amount = 0, rsi_HoldTTL = 10 \<rparr>"

definition sample_consume :: "string \<Rightarrow> consume_input" where
  "sample_consume oid = \<lparr> cni_OrgId = ''o'', cni_OrderId = oid, cni_SubscriptionId = ''s'' @ oid, cni_StartCycle = 0 \<rparr>"

text \<open>C7: A redemption or a reservation that goes through leaves the coupon's redemptions
  and the holds alive at an instant of the run within its maximum, and writes exactly
  one discount or one hold.\<close>

theorem coupon_cap_respected:
  "(CouponService_Redeem inp w = (Inr d, w1) \<longrightarrow>
     t_discounts (w_db w1) = t_discounts (w_db w) @ [d] \<and>
     (\<exists>c n. find_row cpn_key (rdi_OrgId inp, dsc_CouponId d) (t_coupons (w_db w)) = Some c \<and> w_ticks w \<le> n \<and>
       (0 < cpn_MaxRedemptions c \<longrightarrow> redemptions (w_db w1) (rdi_OrgId inp) (cpn_Id c)
          + live_holds (w_db w1) (rdi_OrgId inp) (cpn_Id c) (w_clock w n) \<le> cpn_MaxRedemptions c))) \<and>
   (CouponService_Reserve rinp w = (Inr r, w2) \<longrightarrow>
     t_reservations (w_db w2) = t_reservations (w_db w) @ [r] \<and>
     (\<exists>c n. find_row cpn_key (rsi_OrgId rinp, crs_CouponId r) (t_coupons (w_db w)) = Some c \<and> w_ticks w \<le> n \<and>
       (0 < cpn_MaxRedemptions c \<longrightarrow> redemptions (w_db w2) (rsi_OrgId rinp) (cpn_Id c)
          + live_holds (w_db w2) (rsi_OrgId rinp) (cpn_Id c) (w_clock w n) \<le> cpn_MaxRedemptions c)))"
proof (intro conjI impI)
  assume run: "CouponService_Redeem inp w = (Inr d, w1)"
  note k = Redeem_ok[OF run]
  then show "t_discounts (w_db w1) = t_discounts (w_db w) @ [d]" by blast
  from k obtain c n where c: "find_row cpn_key (rdi_OrgId inp, dsc_CouponId d) (t_coupons (w_db w)) = Some c"
    and w: "t_discounts (w_db w1) = t_discounts (w_db w) @ [d]" "t_reservations (w_db w1) = t_reservations (w_db w)"
    and n: "w_ticks w \<le> n" "0 < cpn_MaxRedemptions c \<longrightarrow> redemptions (w_db w) (rdi_OrgId inp) (cpn_Id c)
        + live_holds (w_db w) (rdi_OrgId inp) (cpn_Id c) (w_clock w n) < cpn_MaxRedemptions c"
    by blast
  show "\<exists>c n. find_row cpn_key (rdi_OrgId inp, dsc_CouponId d) (t_coupons (w_db w)) = Some c \<and> w_ticks w \<le> n \<and>
       (0 < cpn_MaxRedemptions c \<longrightarrow> redemptions (w_db w1) (rdi_OrgId inp) (cpn_Id c)
          + live_holds (w_db w1) (rdi_OrgId inp) (cpn_Id c) (w_clock w n) \<le> cpn_MaxRedemptions c)"
    using c n by (intro exI[of _ c] exI[of _ n]) (auto simp: redemptions_def live_holds_def w)
next
  assume run: "CouponService_Reserve rinp w = (Inr r, w2)"
  note k = Reserve_ok[OF run]
  then show "t_reservations (w_db w2) = t_reservations (w_db w) @ [r]" by blast
  from k obtain c n where c: "find_row cpn_key (rsi_OrgId rinp, crs_CouponId r) (t_coupons (w_db w)) = Some c"
    and w: "t_discounts (w_db w2) = t_discounts (w_db w)" "t_reservations (w_db w2) = t_reservations (w_db w) @ [r]"
    and n: "w_ticks w \<le> n" "0 < cpn_MaxRedemptions c \<longrightarrow> redemptions (w_db w) (rsi_OrgId rinp) (cpn_Id c)
        + live_holds (w_db w) (rsi_OrgId rinp) (cpn_Id c) (w_clock w n) < cpn_MaxRedemptions c"
    by blast
  show "\<exists>c n. find_row cpn_key (rsi_OrgId rinp, crs_CouponId r) (t_coupons (w_db w)) = Some c \<and> w_ticks w \<le> n \<and>
       (0 < cpn_MaxRedemptions c \<longrightarrow> redemptions (w_db w2) (rsi_OrgId rinp) (cpn_Id c)
          + live_holds (w_db w2) (rsi_OrgId rinp) (cpn_Id c) (w_clock w n) \<le> cpn_MaxRedemptions c)"
    using c n by (intro exI[of _ c] exI[of _ n]) (auto simp: redemptions_def live_holds_def w)
qed

theorem coupon_cap_respected_witness:
  "\<exists>d w1. CouponService_Redeem sample_redeem (coupon_world (\<lambda>_. 1)) = (Inr d, w1) \<and>
    length (t_discounts (w_db w1)) = 1"
proof -
  have "\<not> isl (fst (CouponService_Redeem sample_redeem (coupon_world (\<lambda>_. 1))))" by code_simp
  then obtain d w1 where run: "CouponService_Redeem sample_redeem (coupon_world (\<lambda>_. 1)) = (Inr d, w1)"
    by (cases "CouponService_Redeem sample_redeem (coupon_world (\<lambda>_. 1))"; cases "fst (CouponService_Redeem sample_redeem (coupon_world (\<lambda>_. 1)))") auto
  moreover have "t_discounts (w_db w1) = t_discounts (w_db (coupon_world (\<lambda>_. 1))) @ [d]"
    using coupon_cap_respected[of sample_redeem "coupon_world (\<lambda>_. 1)" d w1] run by blast
  ultimately show ?thesis by (simp add: coupon_world_def world_of_def empty_db_def)
qed

text \<open>Consuming an order's hold is one atomic step: on success the first hold of the
  order becomes one active discount for its coupon and customer, the code's counter
  goes up by one and the order holds nothing any more; an order without a hold, or one
  consumed before, changes nothing; an error changes nothing.\<close>

theorem consume_effect:
  "(CouponService_Consume inp w = (Inl e, w1) \<longrightarrow> w_db w1 = w_db w) \<and>
   (CouponService_Consume inp w = (Inr x, w1) \<longrightarrow>
     order_holds (w_db w1) (cni_OrgId inp) (cni_OrderId inp) = [] \<and>
     (x = None \<longleftrightarrow> order_holds (w_db w) (cni_OrgId inp) (cni_OrderId inp) = []) \<and>
     (x = None \<longrightarrow> w_db w1 = w_db w) \<and>
     (\<forall>d. x = Some d \<longrightarrow> t_discounts (w_db w1) = t_discounts (w_db w) @ [d] \<and>
        dsc_CouponId d = crs_CouponId (hd (order_holds (w_db w) (cni_OrgId inp) (cni_OrderId inp))) \<and>
        dsc_CustomerId d = crs_CustomerId (hd (order_holds (w_db w) (cni_OrgId inp) (cni_OrderId inp))) \<and>
        dsc_SubscriptionId d = cni_SubscriptionId inp) \<and>
     (CouponService_Consume inp w1 = (Inr y, w2) \<longrightarrow> y = None \<and> w_db w2 = w_db w1))"
proof (intro conjI impI allI)
  assume "CouponService_Consume inp w = (Inl e, w1)"
  then show "w_db w1 = w_db w" unfolding CouponService_Consume_def by (rule tx.rolled_back)
next
  assume run: "CouponService_Consume inp w = (Inr x, w1)"
  note k = Consume_ok[OF run]
  show h: "order_holds (w_db w1) (cni_OrgId inp) (cni_OrderId inp) = []"
    using k by (auto simp: order_holds_def filter_empty_conv split: option.splits)
  show "x = None \<longleftrightarrow> order_holds (w_db w) (cni_OrgId inp) (cni_OrderId inp) = []"
    using k by (auto split: option.splits)
  show "w_db w1 = w_db w" if "x = None" using k that by simp
  show "t_discounts (w_db w1) = t_discounts (w_db w) @ [d]"
    "dsc_CouponId d = crs_CouponId (hd (order_holds (w_db w) (cni_OrgId inp) (cni_OrderId inp)))"
    "dsc_CustomerId d = crs_CustomerId (hd (order_holds (w_db w) (cni_OrgId inp) (cni_OrderId inp)))"
    "dsc_SubscriptionId d = cni_SubscriptionId inp" if "x = Some d" for d
    using k that by auto
  assume run2: "CouponService_Consume inp w1 = (Inr y, w2)"
  show "y = None" "w_db w2 = w_db w1" using Consume_ok[OF run2] h by (auto split: option.splits)
qed

theorem consume_effect_witness:
  "\<exists>d w1. CouponService_Consume (sample_consume ''1'')
      (snd (CouponService_Reserve (sample_reserve ''1'') (coupon_world (\<lambda>_. 1)))) = (Inr (Some d), w1) \<and>
    dsc_SubscriptionId d = ''s1''"
proof -
  let ?run = "CouponService_Consume (sample_consume ''1'')
      (snd (CouponService_Reserve (sample_reserve ''1'') (coupon_world (\<lambda>_. 1))))"
  have "case fst ?run of Inr (Some _) \<Rightarrow> True | _ \<Rightarrow> False" by code_simp
  then obtain d w1 where run: "?run = (Inr (Some d), w1)"
    by (cases ?run; cases "fst ?run") (auto split: option.splits)
  then have "dsc_SubscriptionId d = cni_SubscriptionId (sample_consume ''1'')"
    using consume_effect[of "sample_consume ''1''" _ _ w1 "Some d"] by blast
  then show ?thesis using run by (auto simp: sample_consume_def)
qed

text \<open>If the subscription already has a discount of the held coupon, consuming the hold
  always fails and never clears it: the store reports the duplicate as a driver error,
  which the test for a conflict does not recognise.\<close>

theorem consume_duplicate_fails:
  assumes "order_holds (w_db w) (cni_OrgId inp) (cni_OrderId inp) = r # rs"
    and "d0 \<in> set (t_discounts (w_db w))" and "dsc_OrgId d0 = cni_OrgId inp" and "dsc_CouponId d0 = crs_CouponId r"
    and "dsc_SubscriptionId d0 = cni_SubscriptionId inp" and "cni_SubscriptionId inp \<noteq> []"
  shows "isl (fst (CouponService_Consume inp w)) \<and> w_db (snd (CouponService_Consume inp w)) = w_db w"
proof -
  obtain res w1 where run: "CouponService_Consume inp w = (res, w1)" by (cases "CouponService_Consume inp w")
  show ?thesis
  proof (cases res)
    case (Inl e)
    then show ?thesis using run tx.rolled_back[of _ w e w1] unfolding CouponService_Consume_def by simp
  next
    case (Inr x)
    note k = Consume_ok[OF run[unfolded Inr]]
    then obtain d where "x = Some d" using assms(1) by (cases x) auto
    then have "\<not> dsc_clash d d0" "dsc_CouponId d = crs_CouponId r" "dsc_SubscriptionId d = cni_SubscriptionId inp"
      using k assms(1,2) by (auto simp: list_ex_iff)
    then show ?thesis using assms(3-6) k \<open>x = Some d\<close> by (auto simp: dsc_clash_def col_eq_def)
  qed
qed

theorem consume_duplicate_fails_witness:
  "\<exists>w :: rat world. order_holds (w_db w) ''o'' ''1'' \<noteq> [] \<and> isl (fst (CouponService_Consume (sample_consume ''1'') w))"
proof -
  define d0 where "d0 = sample_discount\<lparr>dsc_SubscriptionId := ''s1''\<rparr>"
  define r0 where "r0 = \<lparr> crs_OrgId = ''o'', crs_Id = ''r'', crs_CouponId = ''c'', crs_CouponCodeId = [],
    crs_CustomerId = ''u'', crs_CheckoutSessionId = [], crs_OrderId = ''1'', crs_ExpiresAt = 9, crs_CreatedAt = 1 \<rparr>"
  define w :: "rat world" where "w = world_of (empty_db\<lparr>t_discounts := [d0], t_reservations := [r0]\<rparr>) (\<lambda>_. 1)"
  have "order_holds (w_db w) ''o'' ''1'' = [r0]"
    by (simp add: w_def world_of_def order_holds_def r0_def col_eq_def)
  then show ?thesis
    using consume_duplicate_fails[of w "sample_consume ''1''" r0 "[]" d0]
    by (intro exI[of _ w]) (simp add: sample_consume_def w_def world_of_def d0_def sample_discount_def r0_def)
qed

text \<open>A hold that expired still converts: with a coupon for one redemption, two orders
  reserve one after the other (the first hold having expired) and both consume, so the
  coupon is redeemed twice.\<close>

theorem expired_hold_exceeds_cap:
  "let clock = (\<lambda>n. if n < 3 then 1 else 1000);
       w1 = snd (CouponService_Reserve (sample_reserve ''1'') (coupon_world clock));
       w2 = snd (CouponService_Reserve (sample_reserve ''2'') w1);
       w3 = snd (CouponService_Consume (sample_consume ''2'') w2);
       w4 = snd (CouponService_Consume (sample_consume ''1'') w3)
   in cpn_MaxRedemptions one_time_coupon = 1 \<and> redemptions (w_db w4) ''o'' ''c'' = 2"
  by code_simp

end
