(* ===== verification/Invoice_Service.thy ===== *)
theory Invoice_Service
  imports Usage_Service Coupon_Service
begin

text \<open>
  The invoice service: src/internal/core/service/invoice.go, with the settings of
  src/internal/core/service/invoice_settings.go.  It builds the invoice of a billing
  period or of an order, discounts it, numbers and stores it in one transaction, and
  moves it through its states.  The lemmas show that a cycle has one invoice however
  often it is built, that a failed build changes nothing (so no number is lost), and
  that the first cycle of an order's only subscription is the order's invoice.

  The decoders of stored JSON documents are parameters (billing_env).
\<close>

section \<open>Parameters and settings\<close>

record 'd billing_env =
  env_metering :: "'d metering_ops"
  env_invoice_settings :: "string \<Rightarrow> invoice_settings \<Rightarrow> invoice_settings option"
  env_marshal_settings :: "invoice_settings \<Rightarrow> string"
  env_retry_policy :: "string \<Rightarrow> retry_policy option"

abbreviation env_dec :: "'d billing_env \<Rightarrow> 'd decimal_ops" where
  "env_dec E \<equiv> mo_dec (env_metering E)"

definition ResolveInvoiceSettings :: "'d billing_env \<Rightarrow> string \<Rightarrow> ('d, invoice_settings) svc" where
  "ResolveInvoiceSettings E orgId =
    tryS (SettingRepo_FindById orgId ''billing'' ''invoice'') (\<lambda>r. case r of
      Inl _ \<Rightarrow> retS DefaultInvoiceSettings
    | Inr setting \<Rightarrow> (case ParseInvoiceSettings (env_invoice_settings E) (set_Value setting) of
        (cfg, parsed) \<Rightarrow> retS (if parsed then cfg else DefaultInvoiceSettings)))"

definition reference :: "'d billing_env \<Rightarrow> string \<Rightarrow> int \<Rightarrow> ('d, string) svc" where
  "reference E orgId number =
    tryS (ResolveInvoiceSettings E orgId) (\<lambda>r. case r of
      Inl _ \<Rightarrow> retS (FormatReference DefaultInvoiceSettings number)
    | Inr cfg \<Rightarrow> retS (FormatReference cfg number))"

definition SetInvoiceSettings :: "'d billing_env \<Rightarrow> string \<Rightarrow> invoice_settings \<Rightarrow> ('d, unit) svc" where
  "SetInvoiceSettings E orgId cfg =
    bindS nowS (\<lambda>now.
    bindS (SettingRepo_Upsert \<lparr> set_OrgId = orgId, set_ParentId = ''billing'', set_Id = ''invoice'', set_Type = ''json'',
             set_Value = env_marshal_settings E cfg, set_CreatedAt = now, set_UpdatedAt = now \<rparr>) (\<lambda>_.
    retS ()))"

definition InvoiceService_NextInvoiceNumber :: "string \<Rightarrow> ('d, int) svc" where
  "InvoiceService_NextInvoiceNumber orgId = InvoiceRepo_NextInvoiceNumber orgId"

definition InvoiceService_SetInvoiceCounter :: "string \<Rightarrow> int \<Rightarrow> ('d, unit) svc" where
  "InvoiceService_SetInvoiceCounter orgId v = InvoiceRepo_SetInvoiceCounter orgId v"

section \<open>Lines\<close>

text \<open>A new line draws the time and an identifier.\<close>

definition add_line :: "(string \<Rightarrow> time \<Rightarrow> 'd invoice_line_item) \<Rightarrow> 'd invoice \<Rightarrow> ('d, 'd invoice) svc" where
  "add_line mk ivc = bindS nowS (\<lambda>now. bindS (Generate ''ili'') (\<lambda>lid. retS (AddLine ivc (mk lid now))))"

definition add_usage :: "'d billing_env \<Rightarrow> 'd price \<Rightarrow> 'd metered_usage \<Rightarrow> 'd invoice \<Rightarrow> ('d, 'd invoice) svc" where
  "add_usage E price usage ivc = (case mu_Grouped usage of
      Some groups \<Rightarrow> foldS (\<lambda>i g. add_line (UsageLineFromPriceGrouped (env_dec E) (inv_OrgId i) (inv_Id i) price
                        (gru_Key g) (gru_Value g) (gru_Quantity g)) i) ivc groups
    | None \<Rightarrow> add_line (UsageLineFromPrice (env_dec E) (inv_OrgId ivc) (inv_Id ivc) price (mu_Units usage)) ivc)"

definition add_base :: "'d billing_env \<Rightarrow> 'd price \<Rightarrow> order_item \<Rightarrow> 'd invoice \<Rightarrow> ('d, 'd invoice) svc" where
  "add_base E price it ivc =
    (let qty = (if itm_Quantity it \<le> 0 then 1 else itm_Quantity it) in
     add_line (BaseLineFromPrice (env_dec E) (inv_OrgId ivc) (inv_Id ivc) price (d_of_int (env_dec E) qty)) ivc)"

definition period_line :: "'d billing_env \<Rightarrow> subscription \<Rightarrow> 'd invoice \<Rightarrow> order_item \<Rightarrow> ('d, 'd invoice) svc" where
  "period_line E sub ivc it =
    bindS (PriceRepo_FindById (sub_OrgId sub) (itm_PriceId it)) (\<lambda>price.
    if IsMetered price then
      bindS (MeteredUsageForSubscription (env_metering E) sub price (sub_CurrentPeriodStart sub) (sub_CurrentPeriodEnd sub)) (\<lambda>usage.
      add_usage E price usage ivc)
    else if sub_Status sub \<noteq> SubscriptionStatusTrial then add_base E price it ivc
    else retS ivc)"

definition addItemLine ::
    "'d billing_env \<Rightarrow> 'd price \<Rightarrow> order_item \<Rightarrow> subscription option \<Rightarrow> time \<Rightarrow> time \<Rightarrow> 'd invoice \<Rightarrow> ('d, 'd invoice) svc" where
  "addItemLine E price it sub periodStart periodEnd ivc =
    (if IsMetered price then
       (case sub of
          Some s \<Rightarrow> bindS (MeteredUsageForSubscription (env_metering E) s price periodStart periodEnd) (\<lambda>usage.
                    add_usage E price usage ivc)
        | None \<Rightarrow> add_line (UsageLineFromPrice (env_dec E) (inv_OrgId ivc) (inv_Id ivc) price (d_zero (env_dec E))) ivc)
     else add_base E price it ivc)"

definition product_by_price :: "order_item list \<Rightarrow> string \<rightharpoonup> string" where
  "product_by_price items = fold (\<lambda>it m. m(itm_PriceId it \<mapsto> itm_ProductId it)) items Map.empty"

section \<open>Discounts\<close>

definition with_coupon :: "string \<Rightarrow> discount \<Rightarrow> ('d, 'd applied_discount) svc" where
  "with_coupon orgId d = bindS (CouponRepo_FindById orgId (dsc_CouponId d)) (\<lambda>c. retS \<lparr> ad_Discount = d, ad_Coupon = c \<rparr>)"

definition applyDiscounts :: "'d billing_env \<Rightarrow> subscription \<Rightarrow> (string \<rightharpoonup> string) \<Rightarrow> 'd invoice \<Rightarrow> ('d, 'd invoice) svc" where
  "applyDiscounts E sub productByPrice ivc =
    bindS (DiscountRepo_ActiveForSubscription (sub_OrgId sub) (sub_Id sub)) (\<lambda>ds.
    if ds = [] then retS ivc
    else bindS (mapS (with_coupon (sub_OrgId sub)) ds) (\<lambda>applied.
      retS (discount_invoice (env_dec E) ivc productByPrice applied (sub_CyclesProcessed sub) (sub_Currency sub))))"

definition applyOrderDiscounts :: "'d billing_env \<Rightarrow> order \<Rightarrow> (string \<rightharpoonup> string) \<Rightarrow> 'd invoice \<Rightarrow> ('d, 'd invoice) svc" where
  "applyOrderDiscounts E ord productByPrice ivc =
    bindS (DiscountRepo_ActiveForOrder (ord_OrgId ord) (ord_Id ord)) (\<lambda>ds.
    bindS (if ds \<noteq> [] then mapS (with_coupon (ord_OrgId ord)) ds
           else bindS (ReservationRepo_FindByOrder (ord_OrgId ord) (ord_Id ord)) (\<lambda>rs. case rs of
             [] \<Rightarrow> retS []
           | r # _ \<Rightarrow>
               bindS (CouponRepo_FindById (ord_OrgId ord) (crs_CouponId r)) (\<lambda>c.
               bindS nowS (\<lambda>now.
               retS [\<lparr> ad_Discount = zero_discount\<lparr>dsc_OrgId := ord_OrgId ord, dsc_CouponId := crs_CouponId r,
                        dsc_CustomerId := crs_CustomerId r, dsc_OrderId := ord_Id ord, dsc_StartCycle := 0,
                        dsc_Status := DiscountStatusActive, dsc_RedeemedAt := now\<rparr>, ad_Coupon = c \<rparr>])))) (\<lambda>applied.
    if applied = [] then retS ivc
    else retS (discount_invoice (env_dec E) ivc productByPrice applied 0 (ord_Currency ord))))"

section \<open>Building\<close>

text \<open>The transaction that numbers and stores an invoice, shared by both builders.\<close>

definition number_and_create :: "'d billing_env \<Rightarrow> string \<Rightarrow> 'd invoice \<Rightarrow> ('d, 'd invoice) svc" where
  "number_and_create E orgId ivc = RunInTx (
    bindS (InvoiceRepo_NextInvoiceNumber orgId) (\<lambda>number.
    bindS (reference E orgId number) (\<lambda>ref.
    InvoiceRepo_Create (ivc\<lparr>inv_Number := number, inv_Reference := ref\<rparr>))))"

definition build_period :: "'d billing_env \<Rightarrow> subscription \<Rightarrow> ('d, 'd invoice) svc" where
  "build_period E sub =
    bindS (OrderRepo_FindOrderItemsBySubscriptionId (sub_OrgId sub) (sub_Id sub)) (\<lambda>items.
    bindS nowS (\<lambda>now.
    bindS (Generate ''inv'') (\<lambda>iid.
    bindS (foldS (period_line E sub)
             (NewInvoice sub (sub_CurrentPeriodStart sub) (sub_CurrentPeriodEnd sub) iid now) items) (\<lambda>ivc.
    bindS (applyDiscounts E sub (product_by_price items) ivc) (\<lambda>ivc.
    number_and_create E (sub_OrgId sub) ivc)))))"

definition BuildForBillingPeriod :: "'d billing_env \<Rightarrow> subscription \<Rightarrow> ('d, 'd invoice) svc" where
  "BuildForBillingPeriod E sub =
    tryS (InvoiceRepo_FindBySubscriptionCycle (sub_OrgId sub) (sub_Id sub) (sub_CyclesProcessed sub)) (\<lambda>r. case r of
      Inr existing \<Rightarrow> retS existing
    | Inl e \<Rightarrow> if is_not_found e then build_period E sub else failS e)"

definition order_invoice :: "order \<Rightarrow> subscription option \<Rightarrow> string \<Rightarrow> time \<Rightarrow> 'd invoice" where
  "order_invoice ord sub iid now =
    (let (periodStart, periodEnd) = (case sub of
           Some s \<Rightarrow> (sub_CurrentPeriodStart s, sub_CurrentPeriodEnd s)
         | None \<Rightarrow> if ord_UpdatedAt ord = 0 then (now, now) else (ord_UpdatedAt ord, ord_UpdatedAt ord))
     in \<lparr> inv_OrgId = ord_OrgId ord, inv_Id = iid, inv_Number = 0, inv_Reference = [],
          inv_SubscriptionId = (case sub of Some s \<Rightarrow> sub_Id s | None \<Rightarrow> []), inv_CustomerId = ord_CustomerId ord,
          inv_OrderId = ord_Id ord, inv_Status = InvoiceStatusDraft, inv_Currency = ord_Currency ord,
          inv_Subtotal = 0, inv_DiscountTotal = 0, inv_Total = 0, inv_LineItems = [], inv_Cycle = 0,
          inv_PeriodStart = periodStart, inv_PeriodEnd = periodEnd, inv_Metadata = Map.empty,
          inv_CreatedAt = now, inv_UpdatedAt = now \<rparr>)"

definition order_line :: "'d billing_env \<Rightarrow> order \<Rightarrow> subscription option \<Rightarrow> 'd invoice \<Rightarrow> order_item \<Rightarrow> ('d, 'd invoice) svc" where
  "order_line E ord sub ivc it =
    bindS (PriceRepo_FindById (ord_OrgId ord) (itm_PriceId it)) (\<lambda>price.
    addItemLine E price it sub (inv_PeriodStart ivc) (inv_PeriodEnd ivc) ivc)"

definition build_order :: "'d billing_env \<Rightarrow> order \<Rightarrow> ('d, 'd invoice) svc" where
  "build_order E ord =
    bindS (OrderRepo_FindOrderItemsByOrderId (ord_OrgId ord) (ord_Id ord)) (\<lambda>items.
    if items = [] then failS ErrNotFound
    else bindS (SubscriptionRepo_FindByOrderId (ord_OrgId ord) (ord_Id ord)) (\<lambda>subs.
      let sub = (case subs of [s] \<Rightarrow> Some s | _ \<Rightarrow> None) in
      bindS nowS (\<lambda>now.
      bindS (Generate ''inv'') (\<lambda>iid.
      bindS (foldS (order_line E ord sub) (order_invoice ord sub iid now) items) (\<lambda>ivc.
      bindS (applyOrderDiscounts E ord (product_by_price items) ivc) (\<lambda>ivc.
      number_and_create E (ord_OrgId ord) ivc))))))"

definition BuildForOrder :: "'d billing_env \<Rightarrow> order \<Rightarrow> ('d, 'd invoice) svc" where
  "BuildForOrder E ord =
    tryS (InvoiceRepo_FindOrderInvoice (ord_OrgId ord) (ord_Id ord)) (\<lambda>r. case r of
      Inr existing \<Rightarrow> retS existing
    | Inl e \<Rightarrow> if is_not_found e then build_order E ord else failS e)"

section \<open>Transitions\<close>

definition invoice_transition :: "string \<Rightarrow> string \<Rightarrow> ('d invoice \<Rightarrow> 'd invoice res) \<Rightarrow> ('d, 'd invoice) svc" where
  "invoice_transition orgId invoiceId apply =
    bindS (InvoiceRepo_FindById orgId invoiceId) (\<lambda>ivc.
    bindS (liftS (apply ivc)) (\<lambda>ivc.
    bindS nowS (\<lambda>now.
    InvoiceRepo_Update (ivc\<lparr>inv_UpdatedAt := now\<rparr>))))"

definition InvoiceService_MarkOpen :: "string \<Rightarrow> string \<Rightarrow> ('d, 'd invoice) svc" where
  "InvoiceService_MarkOpen orgId invoiceId = invoice_transition orgId invoiceId invoice_MarkOpen"

definition InvoiceService_MarkSettled :: "string \<Rightarrow> string \<Rightarrow> ('d, 'd invoice) svc" where
  "InvoiceService_MarkSettled orgId invoiceId = invoice_transition orgId invoiceId invoice_MarkPaid"

definition InvoiceService_MarkUncollectible :: "string \<Rightarrow> string \<Rightarrow> ('d, 'd invoice) svc" where
  "InvoiceService_MarkUncollectible orgId invoiceId = invoice_transition orgId invoiceId invoice_MarkUncollectible"

definition InvoiceService_Void :: "string \<Rightarrow> string \<Rightarrow> ('d, 'd invoice) svc" where
  "InvoiceService_Void orgId invoiceId = invoice_transition orgId invoiceId invoice_Void"

definition SettleOrderInvoice :: "string \<Rightarrow> string \<Rightarrow> ('d, unit) svc" where
  "SettleOrderInvoice orgId invoiceId =
    (if invoiceId = [] then retS ()
     else bindS (mapErrS (WrapError ''open order invoice'') (InvoiceService_MarkOpen orgId invoiceId)) (\<lambda>_ :: 'd invoice.
          bindS (mapErrS (WrapError ''settle order invoice'') (InvoiceService_MarkSettled orgId invoiceId)) (\<lambda>_ :: 'd invoice.
          retS ())))"

definition FindCurrentCycle :: "string \<Rightarrow> string \<Rightarrow> int \<Rightarrow> ('d, 'd invoice) svc" where
  "FindCurrentCycle orgId subscriptionId cycle = InvoiceRepo_FindBySubscriptionCycle orgId subscriptionId cycle"

section \<open>What a build leaves in the database\<close>

text \<open>The part of an invoice that adding and discounting lines does not touch.\<close>

definition header :: "'d invoice \<Rightarrow> 'd invoice" where
  "header i = i\<lparr>inv_LineItems := [], inv_Subtotal := 0, inv_DiscountTotal := 0, inv_Total := 0,
     inv_Number := 0, inv_Reference := []\<rparr>"

lemma recalculate_header [simp]: "header (recalculate i) = header i"
  by (simp add: header_def recalculate_def Let_def)

lemma header_lines [simp]: "header (AddLine i l) = header i" "header (ApplyDiscountTotals i m) = header i"
    "header (discount_invoice D i pbp as c cur) = header i" "header (i\<lparr>inv_Number := n, inv_Reference := r\<rparr>) = header i"
    "header (i\<lparr>inv_LineItems := ls\<rparr>) = header i"
proof -
  show "header (AddLine i l) = header i" "header (ApplyDiscountTotals i m) = header i"
    unfolding AddLine_def ApplyDiscountTotals_def recalculate_header by (simp_all add: header_def)
  then show "header (discount_invoice D i pbp as c cur) = header i"
    unfolding discount_invoice_def ApplyDiscountTotals_def recalculate_header by (simp add: header_def)
qed (simp_all add: header_def)

lemma header_fields: "header i = header j \<Longrightarrow> inv_OrgId i = inv_OrgId j \<and> inv_Id i = inv_Id j \<and>
    inv_SubscriptionId i = inv_SubscriptionId j \<and> inv_OrderId i = inv_OrderId j \<and> inv_Cycle i = inv_Cycle j \<and>
    inv_Status i = inv_Status j \<and> inv_CustomerId i = inv_CustomerId j \<and> inv_CreatedAt i = inv_CreatedAt j"
  by (cases i; cases j) (simp add: header_def)

text \<open>An invoice under construction: its header, and totals that follow from its lines.\<close>

definition drafted :: "'d invoice \<Rightarrow> 'd invoice \<Rightarrow> bool" where
  "drafted h i \<longleftrightarrow> header i = header h \<and> invoice_totals_ok i"

lemma drafted_lines: "drafted h i \<Longrightarrow> drafted h (AddLine i l)" "drafted h i \<Longrightarrow> drafted h (discount_invoice D i pbp as c cur)"
  by (simp_all add: drafted_def discount_invoice_def)

lemma foldS_inv:
  assumes "foldS f b xs w = (Inr b1, w1)" and "P b"
    and "\<And>b x w b1 w1. f b x w = (Inr b1, w1) \<Longrightarrow> P b \<Longrightarrow> P b1"
  shows "P b1"
  using assms(1,2)
proof (induction xs arbitrary: b w)
  case (Cons x xs)
  from Cons.prems(1) obtain b2 w2 where "f b x w = (Inr b2, w2)" and r: "foldS f b2 xs w2 = (Inr b1, w1)"
    by (auto simp: bindS_Inr)
  with assms(3) Cons.prems(2) have "P b2" by blast
  with r show ?case by (rule Cons.IH)
qed simp

lemma add_line_ok: "add_line mk i w = (Inr j, w1) \<Longrightarrow> drafted h i \<Longrightarrow> drafted h j"
  by (auto simp: add_line_def bindS_Inr drafted_lines)

lemma add_usage_ok: "add_usage E p u i w = (Inr j, w1) \<Longrightarrow> drafted h i \<Longrightarrow> drafted h j"
  unfolding add_usage_def
  by (auto split: option.splits intro: add_line_ok foldS_inv[where P = "drafted h"])

lemma add_base_ok: "add_base E p it i w = (Inr j, w1) \<Longrightarrow> drafted h i \<Longrightarrow> drafted h j"
  unfolding add_base_def Let_def by (rule add_line_ok)

lemma period_line_ok:
  assumes "period_line E s i it w = (Inr j, w1)" and "drafted h i"
  shows "drafted h j"
  using assms unfolding period_line_def
  by (elim bindS_InrE) (auto split: if_splits elim!: bindS_InrE dest: add_usage_ok add_base_ok)

lemma addItemLine_ok:
  assumes "addItemLine E p it s from to i w = (Inr j, w1)" and "drafted h i"
  shows "drafted h j"
  using assms(1) unfolding addItemLine_def
  by (auto split: if_splits option.splits elim!: bindS_InrE
      intro: add_usage_ok[OF _ assms(2)] add_base_ok[OF _ assms(2)] add_line_ok[OF _ assms(2)])

lemma order_line_ok:
  assumes "order_line E ord s i it w = (Inr j, w1)" and "drafted h i"
  shows "drafted h j"
  using assms(1) unfolding order_line_def by (elim bindS_InrE) (rule addItemLine_ok[OF _ assms(2)])

lemma applyDiscounts_ok:
  assumes "applyDiscounts E s m i w = (Inr j, w1)" and "drafted h i"
  shows "drafted h j"
  using assms drafted_lines(2)[OF assms(2)] unfolding applyDiscounts_def
  by (auto elim!: bindS_InrE split: if_splits)

lemma applyOrderDiscounts_ok:
  assumes "applyOrderDiscounts E ord m i w = (Inr j, w1)" and "drafted h i"
  shows "drafted h j"
  using assms drafted_lines(2)[OF assms(2)] unfolding applyOrderDiscounts_def
  by (elim bindS_InrE) (auto split: if_splits)

text \<open>The reading steps leave the database alone.\<close>

lemma keep_reading:
  "obeys (same_on f) (MeteredUsageForSubscription M s price from to)" "obeys (same_on f) (add_line mk i)"
  "obeys (same_on f) (add_usage E p u i)" "obeys (same_on f) (add_base E p it i)"
proof -
  have q: "obeys (same_on f) (usageQueryFor s price from to)"
    unfolding usageQueryFor_def MeterRepo_FindById_def CustomerRepo_FindById_def SubscriptionRepo_FindActiveMeteredForMeter_def
    by (auto intro!: keep.obeys_bind keep.obeys_tryS split: sum.split)
  have fl: "obeys (same_on f) (aggregate_flow D agg q)" for D agg q
    unfolding aggregate_flow_def event_store by (auto intro!: keep.obeys_bind split: aggregation_type.split)
  have co: "obeys (same_on f) (aggregateCarryOver D m q)" for D m q
    unfolding aggregateCarryOver_def event_store by (auto intro!: keep.obeys_bind)
  have a: "obeys (same_on f) (AggregateForPeriod M m q)" for m q
    unfolding AggregateForPeriod_def Let_def using fl co by (auto intro!: keep.obeys_bind)
  have g: "obeys (same_on f) (AggregateGrouped D q agg k)" for D q agg k
    unfolding AggregateGrouped_def by (auto intro!: keep.obeys_bind)
  show "obeys (same_on f) (MeteredUsageForSubscription M s price from to)"
    unfolding MeteredUsageForSubscription_def Let_def
    using q a g by (auto intro!: keep.obeys_bind split: list.split)
  show al: "obeys (same_on f) (add_line mk i)" for mk i
    unfolding add_line_def by (auto intro!: keep.obeys_bind)
  show "obeys (same_on f) (add_usage E p u i)"
    unfolding add_usage_def by (auto intro!: keep.obeys_fold al split: option.split)
  show "obeys (same_on f) (add_base E p it i)"
    unfolding add_base_def Let_def by (rule al)
qed

lemma keep_lines:
  "obeys (same_on f) (period_line E s i it)" "obeys (same_on f) (order_line E ord so i it)"
  "obeys (same_on f) (applyDiscounts E s m i)" "obeys (same_on f) (applyOrderDiscounts E ord m i)"
proof -
  show "obeys (same_on f) (period_line E s i it)"
    unfolding period_line_def PriceRepo_FindById_def by (auto intro!: keep.obeys_bind keep_reading)
  show "obeys (same_on f) (order_line E ord so i it)"
    unfolding order_line_def addItemLine_def PriceRepo_FindById_def
    by (auto intro!: keep.obeys_bind keep_reading split: option.split)
  have wc: "obeys (same_on f) (mapS (with_coupon o1) ds)" for o1 and ds
    unfolding with_coupon_def CouponRepo_FindById_def by (auto intro!: keep.obeys_map keep.obeys_bind)
  show "obeys (same_on f) (applyDiscounts E s m i)"
    unfolding applyDiscounts_def DiscountRepo_ActiveForSubscription_def by (auto intro!: keep.obeys_bind wc)
  show "obeys (same_on f) (applyOrderDiscounts E ord m i)"
    unfolding applyOrderDiscounts_def DiscountRepo_ActiveForOrder_def ReservationRepo_FindByOrder_def CouponRepo_FindById_def
    by (auto intro!: keep.obeys_bind wc split: list.split)
qed

lemma keep_reference: "obeys (same_on f) (reference E o1 n)"
  unfolding reference_def ResolveInvoiceSettings_def SettingRepo_FindById_def
  by (auto intro!: keep.obeys_tryS split: sum.split prod.split)

section \<open>Storing an invoice\<close>

lemma insert_lines_ok:
  assumes "foldS (\<lambda>_ l. exec (insert_line l)) () ls w = (Inr u, w1)"
  shows "w_db w1 = (w_db w)\<lparr>t_invoice_lines := t_invoice_lines (w_db w) @ ls\<rparr>"
  using assms
proof (induction ls arbitrary: w)
  case (Cons l ls)
  from Cons.prems obtain w2 where "exec (insert_line l) w = (Inr (), w2)"
    and r: "foldS (\<lambda>_ l. exec (insert_line l)) () ls w2 = (Inr u, w1)" by (auto simp: bindS_Inr)
  then have "w_db w2 = (w_db w)\<lparr>t_invoice_lines := t_invoice_lines (w_db w) @ [l]\<rparr>"
    by (auto simp: exec_Inr insert_line_def insert_row_def split: if_splits)
  with Cons.IH[OF r] show ?case by simp
qed simp

lemma InvoiceRepo_Create_ok:
  assumes "InvoiceRepo_Create i w = (Inr j, w1)"
  shows "w_db w1 = (w_db w)\<lparr>t_invoices := t_invoices (w_db w) @ [i\<lparr>inv_LineItems := []\<rparr>],
      t_invoice_lines := t_invoice_lines (w_db w) @ inv_LineItems i\<rparr> \<and>
    (\<forall>b\<in>set (t_invoices (w_db w)). \<not> inv_clash i b) \<and> j = hydrate (w_db w1) (i\<lparr>inv_LineItems := []\<rparr>)"
proof -
  from assms obtain w2 where tx: "RunInTx (bindS (exec (insert_invoice i)) (\<lambda>_.
        foldS (\<lambda>_ l. exec (insert_line l)) () (inv_LineItems i))) w = (Inr (), w2)"
    and find: "InvoiceRepo_FindById (inv_OrgId i) (inv_Id i) w2 = (Inr j, w1)"
    unfolding InvoiceRepo_Create_def by (elim bindS_InrE) auto
  from RunInTx_Inr[OF tx] obtain w3 where
      b: "bindS (exec (insert_invoice i)) (\<lambda>_. foldS (\<lambda>_ l. exec (insert_line l)) () (inv_LineItems i))
          (w\<lparr>w_stmts := Suc (w_stmts w), w_tx := True\<rparr>) = (Inr (), w3)"
    and w2: "w_db w2 = w_db w3" by auto
  from b obtain w4 where "exec (insert_invoice i) (w\<lparr>w_stmts := Suc (w_stmts w), w_tx := True\<rparr>) = (Inr (), w4)"
    and ls: "foldS (\<lambda>_ l. exec (insert_line l)) () (inv_LineItems i) w4 = (Inr (), w3)"
    by (elim bindS_InrE) auto
  then have w4: "w_db w4 = (w_db w)\<lparr>t_invoices := t_invoices (w_db w) @ [i\<lparr>inv_LineItems := []\<rparr>]\<rparr>"
    and "\<forall>b\<in>set (t_invoices (w_db w)). \<not> inv_clash (i\<lparr>inv_LineItems := []\<rparr>) b"
    by (auto simp: exec_Inr insert_invoice_def insert_row_def list_ex_iff split: if_splits)
  then have fresh: "\<forall>b\<in>set (t_invoices (w_db w)). \<not> inv_clash i b" by (simp add: inv_clash_def)
  have db: "w_db w2 = (w_db w)\<lparr>t_invoices := t_invoices (w_db w) @ [i\<lparr>inv_LineItems := []\<rparr>],
      t_invoice_lines := t_invoice_lines (w_db w) @ inv_LineItems i\<rparr>"
    using insert_lines_ok[OF ls] w2 w4 by simp
  have "find_row inv_key (inv_OrgId i, inv_Id i) (t_invoices (w_db w)) = None"
    using fresh unfolding find_row_None by (fastforce simp: inv_key_def inv_clash_def)
  then have "find_row inv_key (inv_OrgId i, inv_Id i) (t_invoices (w_db w2)) = Some (i\<lparr>inv_LineItems := []\<rparr>)"
    unfolding db by (simp add: find_row_append) (simp add: find_row_def inv_key_def)
  then show ?thesis using invoice_load_ok[OF find] db fresh by (auto simp: invoice_at_def)
qed

definition next_number :: "'d db \<Rightarrow> string \<Rightarrow> int" where
  "next_number db orgId = (case t_invoice_counters db orgId of None \<Rightarrow> 1 | Some v \<Rightarrow> v + 1)"

text \<open>The database after an invoice was numbered and stored.\<close>

definition stored :: "'d db \<Rightarrow> string \<Rightarrow> 'd invoice \<Rightarrow> 'd db" where
  "stored db orgId i = db\<lparr>t_invoice_counters := (t_invoice_counters db)(orgId \<mapsto> inv_Number i),
     t_invoices := t_invoices db @ [i\<lparr>inv_LineItems := []\<rparr>], t_invoice_lines := t_invoice_lines db @ inv_LineItems i\<rparr>"

lemma number_and_create_ok:
  assumes "number_and_create E o1 i w = (Inr j, w1)"
  shows "\<exists>ref. let i1 = i\<lparr>inv_Number := next_number (w_db w) o1, inv_Reference := ref\<rparr> in
    w_db w1 = stored (w_db w) o1 i1 \<and> (\<forall>b\<in>set (t_invoices (w_db w)). \<not> inv_clash i1 b) \<and>
    j = hydrate (w_db w1) (i1\<lparr>inv_LineItems := []\<rparr>)"
proof -
  from RunInTx_Inr[OF assms[unfolded number_and_create_def]] obtain w2 where
      b: "bindS (InvoiceRepo_NextInvoiceNumber o1) (\<lambda>number. bindS (reference E o1 number) (\<lambda>ref.
            InvoiceRepo_Create (i\<lparr>inv_Number := number, inv_Reference := ref\<rparr>)))
          (w\<lparr>w_stmts := Suc (w_stmts w), w_tx := True\<rparr>) = (Inr j, w2)"
    and w1: "w_db w1 = w_db w2" by auto
  from b obtain n w3 ref w4 where n: "InvoiceRepo_NextInvoiceNumber o1 (w\<lparr>w_stmts := Suc (w_stmts w), w_tx := True\<rparr>) = (Inr n, w3)"
    and r: "reference E o1 n w3 = (Inr ref, w4)"
    and c: "InvoiceRepo_Create (i\<lparr>inv_Number := n, inv_Reference := ref\<rparr>) w4 = (Inr j, w2)"
    by (elim bindS_InrE) auto
  have n': "n = next_number (w_db w) o1" "w_db w3 = (w_db w)\<lparr>t_invoice_counters := (t_invoice_counters (w_db w))(o1 \<mapsto> n)\<rparr>"
    using n by (auto simp: InvoiceRepo_NextInvoiceNumber_def stmt_Inr next_number_def Let_def split: if_splits option.splits)
  have w4: "w_db w4 = w_db w3" using keeps[OF keep_reference[of "\<lambda>d. d"] r] .
  show ?thesis
    using InvoiceRepo_Create_ok[OF c] unfolding w4 n'(2) w1
    by (intro exI[of _ ref]) (simp add: Let_def stored_def n'(1)[symmetric])
qed

section \<open>Reading and rebuilding a cycle\<close>

definition cycle_invoice :: "'d db \<Rightarrow> string \<Rightarrow> string \<Rightarrow> int \<Rightarrow> 'd invoice option" where
  "cycle_invoice db orgId subscriptionId cycle = map_option (hydrate db)
     (find (\<lambda>i. inv_OrgId i = orgId \<and> col_eq (inv_SubscriptionId i) subscriptionId \<and> inv_Cycle i = cycle) (t_invoices db))"

lemma is_not_found_simps [simp]: "\<not> is_not_found (InfraError s)" by simp

lemma with_lines_err: "with_lines i w = (Inl e, w1) \<Longrightarrow> \<not> is_not_found e"
  by (auto simp: with_lines_def bindS_def sel_def stmt_def Let_def split: prod.splits sum.splits option.splits if_splits)

lemma selOne_missing: "selOne f w = (Inl e, w1) \<Longrightarrow> is_not_found e \<Longrightarrow> f (w_db w) = None"
  by (auto simp: selOne_def bindS_def sel_def stmt_def translateErr_def Let_def
      split: prod.splits sum.splits option.splits if_splits)

lemma cycle_read:
  assumes "InvoiceRepo_FindBySubscriptionCycle o1 sid c w = (r, w1)"
  shows "w_db w1 = w_db w \<and> (\<forall>i. r = Inr i \<longrightarrow> cycle_invoice (w_db w) o1 sid c = Some i) \<and>
    (\<forall>e. r = Inl e \<longrightarrow> is_not_found e \<longrightarrow> cycle_invoice (w_db w) o1 sid c = None)"
proof -
  let ?f = "\<lambda>db. find (\<lambda>i. inv_OrgId i = o1 \<and> col_eq (inv_SubscriptionId i) sid \<and> inv_Cycle i = c) (t_invoices db)"
  have k: "obeys (same_on (\<lambda>d. d)) (InvoiceRepo_FindBySubscriptionCycle o1 sid c)"
    unfolding InvoiceRepo_FindBySubscriptionCycle_def with_lines_def by (auto intro!: keep.obeys_bind)
  show ?thesis
  proof (intro conjI allI impI)
    show "w_db w1 = w_db w" by (rule keeps[OF k assms])
    show "cycle_invoice (w_db w) o1 sid c = Some i" if "r = Inr i" for i
      using assms that
      by (auto simp: InvoiceRepo_FindBySubscriptionCycle_def with_lines_def ok_simps cycle_invoice_def hydrate_def)
    show "cycle_invoice (w_db w) o1 sid c = None" if "r = Inl e" "is_not_found e" for e
    proof -
      from assms[unfolded that(1) InvoiceRepo_FindBySubscriptionCycle_def]
      have "selOne ?f w = (Inl e, w1) \<or> (\<exists>x w2. with_lines x w2 = (Inl e, w1))"
        by (auto simp: bindS_def split: prod.splits sum.splits)
      then have "?f (w_db w) = None" using selOne_missing[OF _ that(2)] with_lines_err that(2) by blast
      then show ?thesis by (simp add: cycle_invoice_def)
    qed
  qed
qed

text \<open>How the invoice of a period is built: from its skeleton, numbered and stored.\<close>

lemma build_period_ok:
  assumes "build_period E s w = (Inr j, w1)"
  shows "\<exists>i iid now. drafted (NewInvoice s (sub_CurrentPeriodStart s) (sub_CurrentPeriodEnd s) iid now) i \<and>
    inv_Number i = next_number (w_db w) (sub_OrgId s) \<and> w_db w1 = stored (w_db w) (sub_OrgId s) i \<and>
    (\<forall>b\<in>set (t_invoices (w_db w)). \<not> inv_clash i b) \<and> j = hydrate (w_db w1) (i\<lparr>inv_LineItems := []\<rparr>)"
proof -
  let ?h = "\<lambda>iid now. NewInvoice s (sub_CurrentPeriodStart s) (sub_CurrentPeriodEnd s) iid now"
  from assms obtain items w2 iid now i0 w3 i1 w4 where
      items: "OrderRepo_FindOrderItemsBySubscriptionId (sub_OrgId s) (sub_Id s) w = (Inr items, w2)"
    and f: "foldS (period_line E s) (?h iid now) items (w2\<lparr>w_ticks := Suc (w_ticks w2), w_drawn := Suc (w_drawn w2)\<rparr>) = (Inr i0, w3)"
    and d: "applyDiscounts E s (product_by_price items) i0 w3 = (Inr i1, w4)"
    and c: "number_and_create E (sub_OrgId s) i1 w4 = (Inr j, w1)"
    unfolding build_period_def by (elim bindS_InrE) simp
  have "w_db w2 = w_db w" using items by (auto simp: OrderRepo_FindOrderItemsBySubscriptionId_def ok_simps)
  moreover have "w_db w3 = w_db w2"
    using keeps[OF keep.obeys_fold[OF keep_lines(1)[of "\<lambda>d. d"]] f] by simp
  moreover have "w_db w4 = w_db w3" using keeps[OF keep_lines(3)[of "\<lambda>d. d"] d] .
  ultimately have db: "w_db w4 = w_db w" by simp
  have "drafted (?h iid now) (?h iid now)"
    by (simp add: drafted_def invoice_totals_ok_def recalculate_def NewInvoice_def sum64_def sub64_def in64_def)
  then have "drafted (?h iid now) i0" using foldS_inv[OF f, of "drafted (?h iid now)"] period_line_ok by blast
  then have dr: "drafted (?h iid now) i1" by (rule applyDiscounts_ok[OF d])
  from number_and_create_ok[OF c] obtain ref where
    n: "w_db w1 = stored (w_db w) (sub_OrgId s) (i1\<lparr>inv_Number := next_number (w_db w) (sub_OrgId s), inv_Reference := ref\<rparr>)"
      "\<forall>b\<in>set (t_invoices (w_db w)). \<not> inv_clash (i1\<lparr>inv_Number := next_number (w_db w) (sub_OrgId s), inv_Reference := ref\<rparr>) b"
      "j = hydrate (w_db w1) (i1\<lparr>inv_Number := next_number (w_db w) (sub_OrgId s), inv_Reference := ref, inv_LineItems := []\<rparr>)"
    unfolding Let_def db by auto
  have "drafted (?h iid now) (i1\<lparr>inv_Number := next_number (w_db w) (sub_OrgId s), inv_Reference := ref\<rparr>)"
    using dr by (cases i1) (simp add: drafted_def invoice_totals_ok_def recalculate_def header_def Let_def)
  with n show ?thesis
    by (intro exI[of _ "i1\<lparr>inv_Number := next_number (w_db w) (sub_OrgId s), inv_Reference := ref\<rparr>"] exI conjI) auto
qed

lemma atomic_build: "all_or_nothing (build_period E s)" "all_or_nothing (BuildForBillingPeriod E s)"
proof -
  have r: "obeys (same_on (\<lambda>d. d)) (OrderRepo_FindOrderItemsBySubscriptionId a b)" for a b
    by (simp add: OrderRepo_FindOrderItemsBySubscriptionId_def)
  have f: "obeys (same_on (\<lambda>d. d)) (foldS (period_line E s) i items)" for i items
    by (rule keep.obeys_fold) (rule keep_lines)
  show b: "all_or_nothing (build_period E s)"
    unfolding build_period_def number_and_create_def
    by (intro atomic_bind r f keep_lines atomic_tx) simp_all
  have "obeys (same_on (\<lambda>d. d)) (InvoiceRepo_FindBySubscriptionCycle a b c)" for a b c
    unfolding InvoiceRepo_FindBySubscriptionCycle_def with_lines_def by (auto intro!: keep.obeys_bind)
  then show "all_or_nothing (BuildForBillingPeriod E s)"
    unfolding BuildForBillingPeriod_def by (intro atomic_try) (auto simp: b split: sum.split)
qed

lemma hydrate_eq: "inv_LineItems i = [] \<Longrightarrow> hydrate db i = hydrate db j \<Longrightarrow> inv_LineItems j = [] \<Longrightarrow> i = j"
  by (cases i; cases j) (simp add: hydrate_def)

lemma BuildForBillingPeriod_cases:
  assumes "BuildForBillingPeriod E s w = (r, w1)"
  shows "(\<exists>i. r = Inr i \<and> cycle_invoice (w_db w) (sub_OrgId s) (sub_Id s) (sub_CyclesProcessed s) = Some i \<and> w_db w1 = w_db w) \<or>
    (\<exists>e. r = Inl e \<and> w_db w1 = w_db w) \<or>
    (\<exists>i w2. r = Inr i \<and> w_db w2 = w_db w \<and> build_period E s w2 = (Inr i, w1) \<and>
       cycle_invoice (w_db w) (sub_OrgId s) (sub_Id s) (sub_CyclesProcessed s) = None)"
proof -
  obtain r0 w0 where f: "InvoiceRepo_FindBySubscriptionCycle (sub_OrgId s) (sub_Id s) (sub_CyclesProcessed s) w = (r0, w0)"
    by (metis surj_pair)
  note k = cycle_read[OF f]
  show ?thesis
  proof (cases r0)
    case (Inr i)
    then show ?thesis using k f assms by (auto simp: BuildForBillingPeriod_def tryS_def)
  next
    case (Inl e)
    show ?thesis
    proof (cases "is_not_found e")
      case True
      then have b: "build_period E s w0 = (r, w1)" using assms f Inl by (simp add: BuildForBillingPeriod_def tryS_def)
      show ?thesis
      proof (cases r)
        case (Inr i)
        then show ?thesis using b k Inl True by blast
      next
        case Inl1: (Inl e1)
        then show ?thesis using all_or_nothingD[OF atomic_build(1) b[unfolded Inl1]] k by simp
      qed
    next
      case False
      then show ?thesis using assms f Inl k by (auto simp: BuildForBillingPeriod_def tryS_def)
    qed
  qed
qed

lemma col_eq_header: "header i = header j \<Longrightarrow> col_eq (inv_SubscriptionId i) x = col_eq (inv_SubscriptionId j) x"
  by (drule header_fields) simp

text \<open>After a build the cycle has exactly the invoice returned.\<close>

lemma cycle_after_store:
  assumes "w_db w1 = stored db o1 i" and "\<forall>b\<in>set (t_invoices db). \<not> inv_clash i b"
    and "inv_OrgId i = o1" and "inv_SubscriptionId i = sid" and "sid \<noteq> []"
  shows "cycle_invoice (w_db w1) o1 sid (inv_Cycle i) = Some (hydrate (w_db w1) (i\<lparr>inv_LineItems := []\<rparr>))"
proof -
  have "find (\<lambda>i'. inv_OrgId i' = o1 \<and> col_eq (inv_SubscriptionId i') sid \<and> inv_Cycle i' = inv_Cycle i)
      (t_invoices db @ [i\<lparr>inv_LineItems := []\<rparr>]) = Some (i\<lparr>inv_LineItems := []\<rparr>)"
    by (rule find_metric_append) (use assms in \<open>auto simp: inv_clash_def col_eq_def\<close>)
  then show ?thesis using assms(1) by (simp add: cycle_invoice_def stored_def)
qed

lemma BuildForBillingPeriod_ok:
  assumes "BuildForBillingPeriod E s w = (Inr i, w1)" and "sub_Id s \<noteq> []"
  shows "cycle_invoice (w_db w1) (sub_OrgId s) (sub_Id s) (sub_CyclesProcessed s) = Some i"
  using BuildForBillingPeriod_cases[OF assms(1)]
proof (elim disjE exE conjE)
  fix j w2
  assume ij: "Inr i = Inr j" and db: "w_db w2 = w_db w" and b: "build_period E s w2 = (Inr j, w1)"
  from build_period_ok[OF b] obtain x iid now where
    d: "drafted (NewInvoice s (sub_CurrentPeriodStart s) (sub_CurrentPeriodEnd s) iid now) x"
    and x: "w_db w1 = stored (w_db w2) (sub_OrgId s) x" "\<forall>b\<in>set (t_invoices (w_db w2)). \<not> inv_clash x b"
      "j = hydrate (w_db w1) (x\<lparr>inv_LineItems := []\<rparr>)" by blast
  have h: "inv_OrgId x = sub_OrgId s" "inv_SubscriptionId x = sub_Id s" "inv_Cycle x = sub_CyclesProcessed s"
    using d header_fields unfolding drafted_def by (fastforce simp: NewInvoice_def)+
  show ?thesis using cycle_after_store[OF x(1,2) h(1,2) assms(2)] ij x(3) by (simp add: h(3))
qed auto

section \<open>The invoice of an order\<close>

definition order_subscriptions :: "'d db \<Rightarrow> order \<Rightarrow> subscription list" where
  "order_subscriptions db ord = filter (\<lambda>s. sub_OrgId s = ord_OrgId ord \<and> sub_OrderId s = ord_Id ord) (t_subscriptions db)"

definition order_invoices :: "'d db \<Rightarrow> order \<Rightarrow> 'd invoice list" where
  "order_invoices db ord = sort_key inv_CreatedAt
     (filter (\<lambda>i. inv_OrgId i = ord_OrgId ord \<and> col_eq (inv_OrderId i) (ord_Id ord) \<and> inv_Cycle i = 0) (t_invoices db))"

lemma sort_key_Nil: "sort_key f xs = [] \<longleftrightarrow> xs = []"
  using length_sort[of f xs] by (cases "sort_key f xs") auto

lemma find_True: "List.find (\<lambda>_. True) xs = (case xs of [] \<Rightarrow> None | x # _ \<Rightarrow> Some x)"
  by (cases xs) simp_all

lemma order_read:
  assumes "InvoiceRepo_FindOrderInvoice (ord_OrgId ord) (ord_Id ord) w = (r, w1)"
  shows "w_db w1 = w_db w \<and>
    (\<forall>i. r = Inr i \<longrightarrow> (\<exists>x xs. order_invoices (w_db w) ord = x # xs \<and> i = hydrate (w_db w) x)) \<and>
    (\<forall>e. r = Inl e \<longrightarrow> is_not_found e \<longrightarrow> order_invoices (w_db w) ord = [])"
proof -
  have k: "obeys (same_on (\<lambda>d. d)) (InvoiceRepo_FindOrderInvoice (ord_OrgId ord) (ord_Id ord))"
    unfolding InvoiceRepo_FindOrderInvoice_def with_lines_def by (auto intro!: keep.obeys_bind)
  show ?thesis
  proof (intro conjI allI impI)
    show "w_db w1 = w_db w" by (rule keeps[OF k assms])
    show "\<exists>x xs. order_invoices (w_db w) ord = x # xs \<and> i = hydrate (w_db w) x" if "r = Inr i" for i
      using assms that
      by (auto simp: InvoiceRepo_FindOrderInvoice_def with_lines_def ok_simps hydrate_def order_invoices_def find_True
          split: list.splits)
    show "order_invoices (w_db w) ord = []" if "r = Inl e" "is_not_found e" for e
    proof -
      from assms[unfolded that(1) InvoiceRepo_FindOrderInvoice_def]
      consider "selOne (\<lambda>db. List.find (\<lambda>_. True) (sort_key inv_CreatedAt
             (filter (\<lambda>i. inv_OrgId i = ord_OrgId ord \<and> col_eq (inv_OrderId i) (ord_Id ord) \<and> inv_Cycle i = 0)
                     (t_invoices db)))) w = (Inl e, w1)"
        | i w2 where "with_lines i w2 = (Inl e, w1)"
        by (auto simp: bindS_def split: prod.splits sum.splits)
      then show ?thesis
        using that(2) selOne_missing with_lines_err
        by cases (fastforce simp: order_invoices_def find_True split: list.splits)+
    qed
  qed
qed

lemma build_order_ok:
  assumes "build_order E ord w = (Inr j, w1)"
  shows "\<exists>i iid now. drafted (order_invoice ord (case order_subscriptions (w_db w) ord of [s] \<Rightarrow> Some s | _ \<Rightarrow> None) iid now) i \<and>
    w_db w1 = stored (w_db w) (ord_OrgId ord) i \<and>
    (\<forall>b\<in>set (t_invoices (w_db w)). \<not> inv_clash i b) \<and> j = hydrate (w_db w1) (i\<lparr>inv_LineItems := []\<rparr>) \<and> iid \<noteq> []"
proof -
  let ?sub = "\<lambda>subs. case subs of [s] \<Rightarrow> Some s | _ \<Rightarrow> None"
  from assms obtain items w2 subs w3 iid now i0 w4 i1 w5 where
      items: "OrderRepo_FindOrderItemsByOrderId (ord_OrgId ord) (ord_Id ord) w = (Inr items, w2)"
    and subs: "SubscriptionRepo_FindByOrderId (ord_OrgId ord) (ord_Id ord) w2 = (Inr subs, w3)"
    and f: "foldS (order_line E ord (?sub subs)) (order_invoice ord (?sub subs) iid now) items
        (w3\<lparr>w_ticks := Suc (w_ticks w3), w_drawn := Suc (w_drawn w3)\<rparr>) = (Inr i0, w4)"
    and d: "applyOrderDiscounts E ord (product_by_price items) i0 w4 = (Inr i1, w5)"
    and c: "number_and_create E (ord_OrgId ord) i1 w5 = (Inr j, w1)" and ne: "iid \<noteq> []"
    unfolding build_order_def Let_def by (elim bindS_InrE) (simp split: if_splits; elim bindS_InrE; fastforce)
  have w2: "w_db w2 = w_db w" using items by (auto simp: OrderRepo_FindOrderItemsByOrderId_def ok_simps)
  have s: "w_db w3 = w_db w2" "subs = order_subscriptions (w_db w2) ord"
    using subs by (auto simp: SubscriptionRepo_FindByOrderId_def ok_simps order_subscriptions_def)
  let ?h = "order_invoice ord (?sub subs) iid now"
  have "w_db w4 = w_db w3"
    using keeps[OF keep.obeys_fold[OF keep_lines(2)[of "\<lambda>d. d"]] f] by simp
  moreover have "w_db w5 = w_db w4" using keeps[OF keep_lines(4)[of "\<lambda>d. d"] d] .
  ultimately have db: "w_db w5 = w_db w" using w2 s by simp
  have "drafted ?h ?h"
    by (simp add: drafted_def invoice_totals_ok_def recalculate_def order_invoice_def sum64_def sub64_def in64_def Let_def
        split: option.split)
  then have "drafted ?h i0" using foldS_inv[OF f, of "drafted ?h"] order_line_ok by blast
  then have dr: "drafted ?h i1" by (rule applyOrderDiscounts_ok[OF d])
  from number_and_create_ok[OF c] obtain ref where
    n: "w_db w1 = stored (w_db w) (ord_OrgId ord) (i1\<lparr>inv_Number := next_number (w_db w) (ord_OrgId ord), inv_Reference := ref\<rparr>)"
      "\<forall>b\<in>set (t_invoices (w_db w)). \<not> inv_clash (i1\<lparr>inv_Number := next_number (w_db w) (ord_OrgId ord), inv_Reference := ref\<rparr>) b"
      "j = hydrate (w_db w1) (i1\<lparr>inv_Number := next_number (w_db w) (ord_OrgId ord), inv_Reference := ref, inv_LineItems := []\<rparr>)"
    unfolding Let_def db by auto
  have "drafted ?h (i1\<lparr>inv_Number := next_number (w_db w) (ord_OrgId ord), inv_Reference := ref\<rparr>)"
    using dr by (cases i1) (simp add: drafted_def invoice_totals_ok_def recalculate_def header_def Let_def)
  with n show ?thesis
    using w2 s ne
    by (intro exI[of _ "i1\<lparr>inv_Number := next_number (w_db w) (ord_OrgId ord), inv_Reference := ref\<rparr>"] exI conjI) auto
qed

text \<open>C10: A billing cycle has one invoice however often it is built: a second build, right
  after the first, returns the same invoice and changes nothing.  A build that fails
  changes nothing, and one that stores an invoice takes exactly the organisation's next
  number for it.\<close>

theorem build_cycle_once:
  assumes "sub_Id s \<noteq> []"
  shows "(BuildForBillingPeriod E s w = (Inl e, w1) \<longrightarrow> w_db w1 = w_db w) \<and>
    (BuildForBillingPeriod E s w = (Inr i, w1) \<longrightarrow>
       inv_SubscriptionId i = sub_Id s \<and> inv_Cycle i = sub_CyclesProcessed s \<and>
       (w_db w1 = w_db w \<or>
        t_invoice_counters (w_db w1) (sub_OrgId s) = Some (next_number (w_db w) (sub_OrgId s)) \<and>
        inv_Number i = next_number (w_db w) (sub_OrgId s) \<and> inv_Status i = InvoiceStatusDraft \<and>
        length (t_invoices (w_db w1)) = Suc (length (t_invoices (w_db w)))) \<and>
       (BuildForBillingPeriod E s w1 = (Inr j, w2) \<longrightarrow> j = i \<and> w_db w2 = w_db w1))"
proof (intro conjI impI)
  show "w_db w1 = w_db w" if "BuildForBillingPeriod E s w = (Inl e, w1)"
    using BuildForBillingPeriod_cases[OF that] by auto
next
  assume b: "BuildForBillingPeriod E s w = (Inr i, w1)"
  note c = BuildForBillingPeriod_ok[OF b assms]
  then show "inv_SubscriptionId i = sub_Id s" "inv_Cycle i = sub_CyclesProcessed s"
    by (auto simp: cycle_invoice_def hydrate_def find_Some_iff col_eq_def)
  show "w_db w1 = w_db w \<or>
      t_invoice_counters (w_db w1) (sub_OrgId s) = Some (next_number (w_db w) (sub_OrgId s)) \<and>
      inv_Number i = next_number (w_db w) (sub_OrgId s) \<and> inv_Status i = InvoiceStatusDraft \<and>
      length (t_invoices (w_db w1)) = Suc (length (t_invoices (w_db w)))"
    using BuildForBillingPeriod_cases[OF b]
  proof (elim disjE exE conjE)
    fix k w0
    assume ij: "Inr i = Inr k" and db: "w_db w0 = w_db w" and bp: "build_period E s w0 = (Inr k, w1)"
    from build_period_ok[OF bp] obtain x iid now where
      d: "drafted (NewInvoice s (sub_CurrentPeriodStart s) (sub_CurrentPeriodEnd s) iid now) x"
      and x: "inv_Number x = next_number (w_db w0) (sub_OrgId s)" "w_db w1 = stored (w_db w0) (sub_OrgId s) x"
        "k = hydrate (w_db w1) (x\<lparr>inv_LineItems := []\<rparr>)" by blast
    have "inv_Status x = InvoiceStatusDraft" using d header_fields unfolding drafted_def by (fastforce simp: NewInvoice_def)
    then show ?thesis using ij x db by (simp add: stored_def hydrate_def)
  qed auto
  show "j = i" "w_db w2 = w_db w1" if "BuildForBillingPeriod E s w1 = (Inr j, w2)"
    using BuildForBillingPeriod_cases[OF that] c by auto
qed

definition sample_env :: "rat billing_env" where
  "sample_env = \<lparr> env_metering = rat_metering, env_invoice_settings = (\<lambda>_ b. Some (b\<lparr>ist_Prefix := ''A-''\<rparr>)),
     env_marshal_settings = (\<lambda>_. ''{}''), env_retry_policy = (\<lambda>_. None) \<rparr>"

definition fixed_price :: "rat price" where
  "fixed_price = sample_price\<lparr>prc_OrgId := ''o'', prc_Id := ''pf'', prc_Scheme := Fixed, prc_UnitCount := 1, prc_BillableMetricId := []\<rparr>"

definition billing_world :: "subscription \<Rightarrow> rat world" where
  "billing_world s = world_of (empty_db\<lparr>t_subscriptions := [s], t_prices := [fixed_price], t_order_items := [sample_item ''pf'']\<rparr>)
     (\<lambda>n. int n + 5)"

theorem build_cycle_once_witness:
  "\<exists>i w1. BuildForBillingPeriod sample_env metered_sub (billing_world metered_sub) = (Inr i, w1) \<and>
     inv_SubscriptionId i = ''s'' \<and> inv_Cycle i = 1"
proof -
  have "\<not> isl (fst (BuildForBillingPeriod sample_env metered_sub (billing_world metered_sub)))" by code_simp
  then obtain i w1 where r: "BuildForBillingPeriod sample_env metered_sub (billing_world metered_sub) = (Inr i, w1)"
    by (metis isl_def old.sum.exhaust prod.exhaust_sel)
  have s: "sub_Id metered_sub = ''s''" "sub_CyclesProcessed metered_sub = 1"
    by (simp_all add: metered_sub_def sample_subscription_def)
  then have "sub_Id metered_sub \<noteq> []" by simp
  from build_cycle_once[OF this] r s show ?thesis by metis
qed


text \<open>The first invoice of an order with one subscription is that subscription's invoice
  for its first cycle: the billing run finds it instead of building a second one, and
  building for the order again finds it as well.\<close>

theorem order_is_first_cycle:
  assumes "BuildForOrder E ord w = (Inr i, w1)" and "order_invoices (w_db w) ord = []"
    and "order_subscriptions (w_db w) ord = [s]" and "sub_Id s \<noteq> []" and "ord_Id ord \<noteq> []" and "sub_CyclesProcessed s = 0"
  shows "(BuildForBillingPeriod E s w1 = (Inr j, w2) \<longrightarrow> j = i \<and> w_db w2 = w_db w1) \<and>
    (BuildForOrder E ord w1 = (Inr k, w3) \<longrightarrow> k = i \<and> w_db w3 = w_db w1)"
proof -
  obtain r0 w0 where f: "InvoiceRepo_FindOrderInvoice (ord_OrgId ord) (ord_Id ord) w = (r0, w0)" by (metis surj_pair)
  note k = order_read[OF f]
  from assms(1,2) f k obtain e where "r0 = Inl e" "is_not_found e"
    by (cases r0) (auto simp: BuildForOrder_def tryS_def split: if_splits)
  then have "build_order E ord w0 = (Inr i, w1)" using assms(1) f by (simp add: BuildForOrder_def tryS_def)
  from build_order_ok[OF this] k assms(3) obtain x iid now where
    d: "drafted (order_invoice ord (Some s) iid now) x"
    and x: "w_db w1 = stored (w_db w) (ord_OrgId ord) x" "\<forall>b\<in>set (t_invoices (w_db w)). \<not> inv_clash x b"
      "i = hydrate (w_db w1) (x\<lparr>inv_LineItems := []\<rparr>)" by auto
  have h: "inv_OrgId x = ord_OrgId ord" "inv_SubscriptionId x = sub_Id s" "inv_Cycle x = 0" "inv_OrderId x = ord_Id ord"
    using d header_fields unfolding drafted_def by (fastforce simp: order_invoice_def)+
  have o1: "sub_OrgId s = ord_OrgId ord"
    using assms(3) by (metis (mono_tags, lifting) list.set_intros(1) mem_Collect_eq order_subscriptions_def set_filter)
  have c: "cycle_invoice (w_db w1) (sub_OrgId s) (sub_Id s) (sub_CyclesProcessed s) = Some i"
    using cycle_after_store[OF x(1,2) h(1,2) assms(4)] x(3) o1 assms(6) by (simp add: h(3))
  have "order_invoices (w_db w1) ord = [x\<lparr>inv_LineItems := []\<rparr>]"
  proof -
    have "filter (\<lambda>i. inv_OrgId i = ord_OrgId ord \<and> col_eq (inv_OrderId i) (ord_Id ord) \<and> inv_Cycle i = 0) (t_invoices (w_db w)) = []"
      using assms(2) unfolding order_invoices_def sort_key_Nil .
    then show ?thesis using h assms(5) by (simp add: order_invoices_def x(1) stored_def col_eq_def)
  qed
  note oi = this
  show ?thesis
  proof (intro conjI impI)
    show "j = i" "w_db w2 = w_db w1" if "BuildForBillingPeriod E s w1 = (Inr j, w2)"
      using BuildForBillingPeriod_cases[OF that] c by auto
    assume b: "BuildForOrder E ord w1 = (Inr k, w3)"
    obtain r4 w4 where f4: "InvoiceRepo_FindOrderInvoice (ord_OrgId ord) (ord_Id ord) w1 = (r4, w4)" by (metis surj_pair)
    from order_read[OF f4] oi x(3) b f4 have "k = i \<and> w_db w3 = w_db w1"
      by (cases r4) (auto simp: BuildForOrder_def tryS_def split: if_splits)
    then show "k = i" "w_db w3 = w_db w1" by simp_all
  qed
qed

definition sample_order :: order where
  "sample_order = \<lparr> ord_OrgId = ''o'', ord_Id = ''or'', ord_CustomerId = ''c'', ord_Reference = [],
     ord_Status = OrderStatusPending, ord_SessionId = [], ord_CartId = [], ord_Currency = ''USD'', ord_Total = 500,
     ord_Metadata = Map.empty, ord_PaymentSession = None, ord_UpfrontInvoice = False, ord_CreatedAt = 1, ord_UpdatedAt = 1 \<rparr>"

definition first_sub :: "subscription_status \<Rightarrow> subscription" where
  "first_sub st = metered_sub\<lparr>sub_OrderId := ''or'', sub_CyclesProcessed := 0, sub_Status := st\<rparr>"

definition built :: "('d, 'd invoice) svc \<Rightarrow> 'd world \<Rightarrow> int option" where
  "built m w = (case m w of (Inr i, _) \<Rightarrow> Some (inv_Total i) | _ \<Rightarrow> None)"

lemma builtE:
  assumes "built m w = Some t"
  obtains i w1 where "m w = (Inr i, w1)" and "inv_Total i = t"
  using assms by (auto simp: built_def split: prod.splits sum.splits)

theorem order_is_first_cycle_witness:
  "\<exists>i w1. BuildForOrder sample_env sample_order (billing_world (first_sub SubscriptionStatusActive)) = (Inr i, w1) \<and>
     inv_Total i = 500 \<and>
     (\<forall>j w2. BuildForBillingPeriod sample_env (first_sub SubscriptionStatusActive) w1 = (Inr j, w2) \<longrightarrow> j = i)"
proof -
  let ?s = "first_sub SubscriptionStatusActive"
  have "built (BuildForOrder sample_env sample_order) (billing_world ?s) = Some 500" by code_simp
  then obtain i w1 where r: "BuildForOrder sample_env sample_order (billing_world ?s) = (Inr i, w1)" and t: "inv_Total i = 500"
    by (rule builtE)
  have w: "order_invoices (w_db (billing_world ?s)) sample_order = []" "order_subscriptions (w_db (billing_world ?s)) sample_order = [?s]"
    "sub_Id ?s \<noteq> []" "ord_Id sample_order \<noteq> []" "sub_CyclesProcessed ?s = 0"
    by (simp_all add: order_invoices_def order_subscriptions_def billing_world_def world_of_def empty_db_def sample_order_def
        first_sub_def metered_sub_def sample_subscription_def)
  from order_is_first_cycle[OF r w] r t show ?thesis by blast
qed

text \<open>A subscription in its trial is not charged its flat fee by the billing run, yet
  building the invoice of its order charges it.\<close>

theorem trial_order_charged:
  "built (BuildForBillingPeriod sample_env (first_sub SubscriptionStatusTrial)) (billing_world (first_sub SubscriptionStatusTrial)) = Some 0 \<and>
   built (BuildForOrder sample_env sample_order) (billing_world (first_sub SubscriptionStatusTrial)) = Some 500"
proof (intro conjI)
  show "built (BuildForBillingPeriod sample_env (first_sub SubscriptionStatusTrial)) (billing_world (first_sub SubscriptionStatusTrial)) = Some 0"
    by code_simp
  show "built (BuildForOrder sample_env sample_order) (billing_world (first_sub SubscriptionStatusTrial)) = Some 500"
    by code_simp
qed

section \<open>Settings\<close>

lemma find_map_key:
  assumes "\<And>r. key (f r) = key r"
  shows "find_row key k (map (\<lambda>r. if key r = k then f r else r) rows) = map_option f (find_row key k rows)"
  using assms by (induction rows) (auto simp: find_row_def)

text \<open>Settings that were stored are the ones used: resolving them returns what was set (with
  an empty prefix or a padding that is not positive replaced by the default), and the
  reference of an invoice is rendered with them.\<close>

theorem settings_roundtrip:
  assumes "SetInvoiceSettings E orgId cfg w = (Inr (), w1)" and "stmt_ok w1"
    and "env_marshal_settings E cfg \<noteq> []"
    and "env_invoice_settings E (env_marshal_settings E cfg) DefaultInvoiceSettings = Some cfg"
  shows "let cfg1 = \<lparr> ist_Prefix = (if ist_Prefix cfg = [] then ''INV-'' else ist_Prefix cfg),
                     ist_Padding = (if ist_Padding cfg \<le> 0 then 6 else ist_Padding cfg) \<rparr> in
    fst (ResolveInvoiceSettings E orgId w1) = Inr cfg1 \<and> fst (reference E orgId number w1) = Inr (FormatReference cfg1 number)"
proof -
  let ?k = "(orgId, ''billing'', ''invoice'')"
  let ?cfg = "\<lparr> ist_Prefix = (if ist_Prefix cfg = [] then ''INV-'' else ist_Prefix cfg),
                ist_Padding = (if ist_Padding cfg \<le> 0 then 6 else ist_Padding cfg) \<rparr>"
  have up: "\<exists>r. find_row set_key (set_key e) (if set_key e \<in> set_key ` set rows
       then map (\<lambda>r. if set_key r = set_key e
              then r\<lparr>set_Value := set_Value e, set_Type := set_Type e, set_UpdatedAt := set_UpdatedAt e\<rparr> else r) rows
       else rows @ [e]) = Some r \<and> set_Value r = set_Value e" for e rows
  proof (cases "set_key e \<in> set_key ` set rows")
    case True
    then obtain r where "find_row set_key (set_key e) rows = Some r" using find_row_None[of set_key "set_key e" rows] by fastforce
    moreover have "set_key (r\<lparr>set_Value := v, set_Type := t, set_UpdatedAt := u\<rparr>) = set_key r" for r v t u
      by (simp add: set_key_def)
    ultimately show ?thesis using True by (simp add: find_map_key)
  next
    case False
    then have "find_row set_key (set_key e) rows = None" by (simp add: find_row_None)
    then show ?thesis using False by (simp add: find_row_append) (simp add: find_row_def)
  qed
  define e where "e = (\<lambda>t. \<lparr> set_OrgId = orgId, set_ParentId = ''billing'', set_Id = ''invoice'', set_Type = ''json'',
             set_Value = env_marshal_settings E cfg, set_CreatedAt = t, set_UpdatedAt = t \<rparr>)"
  have k: "set_key (e t) = ?k" and v: "set_Value (e t) = env_marshal_settings E cfg" for t by (simp_all add: e_def set_key_def)
  from assms(1) obtain t x w2 where "SettingRepo_Upsert (e t) w2 = (Inr x, w1)"
    unfolding SetInvoiceSettings_def e_def by (elim bindS_InrE) auto
  then have "t_settings (w_db w1) = (if set_key (e t) \<in> set_key ` set (t_settings (w_db w2))
       then map (\<lambda>r. if set_key r = set_key (e t)
              then r\<lparr>set_Value := set_Value (e t), set_Type := set_Type (e t), set_UpdatedAt := set_UpdatedAt (e t)\<rparr> else r)
              (t_settings (w_db w2))
       else t_settings (w_db w2) @ [e t])"
    unfolding SettingRepo_Upsert_def SettingRepo_FindById_def by (elim bindS_InrE) (simp only: ok_simps, force)
  with up[of "e t" "t_settings (w_db w2)"] obtain r where r: "find_row set_key ?k (t_settings (w_db w1)) = Some r"
    "set_Value r = env_marshal_settings E cfg" unfolding k v by auto
  have "SettingRepo_FindById orgId ''billing'' ''invoice'' w1 = (Inr r, w1\<lparr>w_stmts := Suc (w_stmts w1)\<rparr>)"
    using assms(2) r(1) by (simp add: SettingRepo_FindById_def selOne_def sel_run bindS_def translateErr_def)
  then have "ResolveInvoiceSettings E orgId w1 = (Inr ?cfg, w1\<lparr>w_stmts := Suc (w_stmts w1)\<rparr>)"
    using assms(3,4) r(2) by (cases cfg) (simp add: ResolveInvoiceSettings_def tryS_def ParseInvoiceSettings_def Let_def)
  then show ?thesis by (simp add: reference_def tryS_def Let_def)
qed

theorem settings_roundtrip_witness:
  "\<exists>w1. SetInvoiceSettings sample_env ''o'' \<lparr> ist_Prefix = ''A-'', ist_Padding = 6 \<rparr> (billing_world metered_sub) = (Inr (), w1) \<and>
    fst (reference sample_env ''o'' 7 w1) = Inr ''A-000007''"
proof -
  let ?m = "SetInvoiceSettings sample_env ''o'' \<lparr> ist_Prefix = ''A-'', ist_Padding = 6 \<rparr>"
  have "\<not> isl (fst (?m (billing_world metered_sub))) \<and> stmt_ok (snd (?m (billing_world metered_sub)))" by code_simp
  then obtain w1 where r: "?m (billing_world metered_sub) = (Inr (), w1)" and o: "stmt_ok w1"
    by (cases "?m (billing_world metered_sub)"; cases "fst (?m (billing_world metered_sub))") auto
  have "FormatReference \<lparr> ist_Prefix = ''A-'', ist_Padding = 6 \<rparr> 7 = ''A-000007''" by code_simp
  with settings_roundtrip[OF r o, of 7] r show ?thesis
    by (simp add: sample_env_def DefaultInvoiceSettings_def)
qed

end
