(* ===== verification/Effects.thy ===== *)
theory Effects
  imports Repositories
begin

text \<open>
  What a successful call of a repository or of the outbox does to the database, as an
  equation between the databases before and after it.  The service proofs chain these
  equations (the collection effects) and read the tables they are about.
\<close>

named_theorems effects

lemma Publish_ok [effects]:
  assumes "Publish orgId topic m w = (Inr u, w1)"
  shows "\<exists>ev. w_db w1 = (w_db w)\<lparr>t_outbox := t_outbox (w_db w) @ [ev]\<rparr> \<and> obx_Topic ev = topic \<and> obx_OrgId ev = orgId \<and>
    obx_Payload ev = m \<and> obx_Attempts ev = 0 \<and> obx_PublishedAt ev = None \<and> obx_NextAttemptAt ev = None"
  using assms by (auto simp: Publish_def outbox_Create_def ok_simps)

lemma SubscriptionRepo_Update_ok [effects]:
  assumes "SubscriptionRepo_Update s w = (Inr s1, w1)"
  shows "w_db w1 = (w_db w)\<lparr>t_subscriptions := update_row sub_key sub_merge s (t_subscriptions (w_db w))\<rparr> \<and>
    (\<exists>old. find_row sub_key (sub_key s) (t_subscriptions (w_db w)) = Some old \<and> s1 = sub_merge old s) \<and>
    find_row sub_key (sub_key s) (t_subscriptions (w_db w1)) = Some s1"
  using subs.store_ok[OF assms] assms by (auto simp: SubscriptionRepo_Update_def SubscriptionRepo_FindById_def ok_simps)

lemma SubscriptionRepo_Create_ok [effects]:
  assumes "SubscriptionRepo_Create s w = (Inr s1, w1)"
  shows "w_db w1 = (w_db w)\<lparr>t_subscriptions := t_subscriptions (w_db w) @ [s]\<rparr> \<and> s1 = s \<and>
    sub_key s \<notin> sub_key ` set (t_subscriptions (w_db w))"
proof -
  obtain rs where i: "insert_row (\<lambda>a b. sub_key a = sub_key b) s (t_subscriptions (w_db w)) = Some rs"
    and f: "find_row sub_key (sub_OrgId s, sub_Id s) rs = Some s1" and d: "w_db w1 = (w_db w)\<lparr>t_subscriptions := rs\<rparr>"
    using assms by (auto simp: SubscriptionRepo_Create_def SubscriptionRepo_FindById_def ok_simps)
  have "s1 = s" using f find_row_insert[OF i, of sub_key] by (simp add: sub_key_def)
  then show ?thesis using i d by (auto simp: insert_row_def list_ex_iff split: if_splits)
qed

lemma SubscriptionRepo_FindById_ok [effects]:
  "SubscriptionRepo_FindById o1 i w = (Inr s, w1) \<Longrightarrow>
    w_db w1 = w_db w \<and> find_row sub_key (o1, i) (t_subscriptions (w_db w)) = Some s \<and> sub_OrgId s = o1 \<and> sub_Id s = i"
  by (auto simp: SubscriptionRepo_FindById_def ok_simps sub_key_def dest: find_row_key)

lemma PaymentRepo_Create_ok [effects]:
  assumes "PaymentRepo_Create p w = (Inr p1, w1)"
  shows "w_db w1 = (w_db w)\<lparr>t_payments := t_payments (w_db w) @ [p]\<rparr> \<and> p1 = p \<and> pay_key p \<notin> pay_key ` set (t_payments (w_db w))"
proof -
  obtain rs where i: "insert_row (\<lambda>a b. pay_key a = pay_key b) p (t_payments (w_db w)) = Some rs"
    and f: "find_row pay_key (pay_OrgId p, pay_Id p) rs = Some p1" and d: "w_db w1 = (w_db w)\<lparr>t_payments := rs\<rparr>"
    using assms by (auto simp: PaymentRepo_Create_def PaymentRepo_FindById_def ok_simps)
  have "p1 = p" using f find_row_insert[OF i, of pay_key] by (simp add: pay_key_def)
  then show ?thesis using i d by (auto simp: insert_row_def list_ex_iff split: if_splits)
qed

lemma InvoiceRepo_Update_ok [effects]:
  assumes "InvoiceRepo_Update i w = (Inr i1, w1)"
  shows "w_db w1 = (w_db w)\<lparr>t_invoices := update_row inv_key inv_merge i (t_invoices (w_db w))\<rparr> \<and>
    (\<exists>old. invoice_at (w_db w) (inv_key i) = Some old \<and> i1 = inv_stored old i) \<and> invoice_at (w_db w1) (inv_key i) = Some i1"
proof -
  obtain w2 where e: "exec (\<lambda>db. Some (db\<lparr>t_invoices := update_row inv_key inv_merge i (t_invoices db)\<rparr>)) w = (Inr (), w2)"
    and l: "InvoiceRepo_FindById (inv_OrgId i) (inv_Id i) w2 = (Inr i1, w1)"
    using assms by (auto simp: InvoiceRepo_Update_def bindS_Inr)
  have "w_db w1 = w_db w2" by (rule invoice_load_ok(1)[OF l])
  then show ?thesis using e invs.store_ok[OF assms] by (auto simp: ok_simps)
qed

lemma invoice_at_cong: "t_invoices db1 = t_invoices db \<Longrightarrow> t_invoice_lines db1 = t_invoice_lines db \<Longrightarrow>
    invoice_at db1 k = invoice_at db k"
proof -
  assume "t_invoices db1 = t_invoices db" "t_invoice_lines db1 = t_invoice_lines db"
  then have "hydrate db1 = hydrate db" by (intro ext) (simp add: hydrate_def invoice_lines_def)
  then show ?thesis using \<open>t_invoices db1 = t_invoices db\<close> by (simp add: invoice_at_def)
qed

text \<open>A loop whose steps each append events for one organisation.\<close>

definition appended :: "'d db \<Rightarrow> 'd db \<Rightarrow> 'd outbox_event list \<Rightarrow> bool" where
  "appended db db1 evs \<longleftrightarrow> db1 = db\<lparr>t_outbox := t_outbox db @ evs\<rparr>"

lemma appended_refl [simp]: "appended db db []"
  by (simp add: appended_def)

lemma appended_trans: "appended a b xs \<Longrightarrow> appended b c ys \<Longrightarrow> appended a c (xs @ ys)"
  by (simp add: appended_def)

lemma Publish_appended: "Publish orgId topic m w = (Inr u, w1) \<Longrightarrow>
    \<exists>ev. appended (w_db w) (w_db w1) [ev] \<and> obx_Topic ev = topic \<and> obx_OrgId ev = orgId \<and> obx_Payload ev = m"
  using Publish_ok unfolding appended_def by blast

section \<open>Steps that send no charge\<close>

text \<open>
  Everything but a call of the gateway leaves the charges sent alone.  No step changes which
  statements fail, and outside of a transaction none leaves one open or aborted.
\<close>

definition steady :: "'d world \<Rightarrow> 'd world \<Rightarrow> bool" where
  "steady w w1 \<longleftrightarrow> w_fault w1 = w_fault w \<and> w_tx w1 = w_tx w \<and> (\<not> w_tx w \<longrightarrow> w_aborted w1 = w_aborted w)"

definition no_charge :: "'d world \<Rightarrow> 'd world \<Rightarrow> bool" where
  "no_charge w w1 \<longleftrightarrow> w_charges w1 = w_charges w \<and> steady w w1"

definition silent :: "('d world \<Rightarrow> 'r \<times> 'd world) \<Rightarrow> bool" where
  "silent m \<longleftrightarrow> (\<forall>w. no_charge w (snd (m w)))"

named_theorems silence

lemma no_charge_refl [simp]: "no_charge w w"
  by (simp add: no_charge_def steady_def)

lemma no_charge_trans: "no_charge w w1 \<Longrightarrow> no_charge w1 w2 \<Longrightarrow> no_charge w w2"
  by (auto simp: no_charge_def steady_def)

lemma silentQ: "silent m \<Longrightarrow> m w = (r, w1) \<Longrightarrow> no_charge w w1"
  unfolding silent_def by (metis snd_conv)

lemma silentD: "silent m \<Longrightarrow> m w = (r, w1) \<Longrightarrow> w_charges w1 = w_charges w"
  by (drule silentQ) (auto simp: no_charge_def)

lemma silentI: "(\<And>w r w1. m w = (r, w1) \<Longrightarrow> no_charge w w1) \<Longrightarrow> silent m"
  unfolding silent_def by (metis surjective_pairing)

lemma silent_basic [simp, silence]: "silent (retS x)" "silent (failS e)" "silent (liftS r)" "silent (Pair q)" "silent nowS"
    "silent (Generate p)" "silent (translateErr t)" "silent (NewGateway a b)"
  by (simp_all add: silent_def no_charge_def steady_def translateErr_def NewGateway_def Let_def split: option.split)

lemma silent_stmt [simp, silence]: "silent (stmt f)"
  by (auto simp: silent_def no_charge_def steady_def stmt_def Let_def split: option.splits)

lemma silent_sql [simp, silence]: "silent (sel g)" "silent (exec h)"
  by (simp_all add: sel_def exec_def)

lemma silent_tryS [silence]: "silent m \<Longrightarrow> (\<And>r. silent (f r)) \<Longrightarrow> silent (tryS m f)"
  by (rule silentI) (auto simp: tryS_def dest!: silentQ intro: no_charge_trans split: prod.splits)

lemma silent_bind [silence]: "silent m \<Longrightarrow> (\<And>x. silent (f x)) \<Longrightarrow> silent (bindS m f)"
  by (rule silentI) (auto simp: bindS_def dest!: silentQ intro: no_charge_trans split: prod.splits sum.splits)

lemma silent_more [silence]: "silent m \<Longrightarrow> silent (mapErrS g m)" "silent m \<Longrightarrow> silent (ignoreS m)"
  by (auto intro!: silentI simp: mapErrS_def ignoreS_def dest: silentQ split: prod.splits sum.splits)
    (metis prod.collapse silentQ)

lemma silent_selOne [simp, silence]: "silent (selOne q)"
  unfolding selOne_def by (rule silent_bind) simp_all

lemma silent_fold [silence]: "(\<And>b x. silent (f b x)) \<Longrightarrow> silent (foldS f b xs)"
  by (induction xs arbitrary: b) (auto intro!: silent_bind)

lemma silent_map [silence]: "(\<And>x. silent (f x)) \<Longrightarrow> silent (mapS f xs)"
  unfolding mapS_def by (intro silence)

lemma silent_tx [silence]:
  assumes "silent m"
  shows "silent (RunInTx m)"
proof (rule silentI)
  fix w r w1
  assume run: "RunInTx m w = (r, w1)"
  obtain r0 w0 where b: "sel (\<lambda>_. ()) w = (r0, w0)" by (metis surj_pair)
  obtain r2 w2 where m: "m (w0\<lparr>w_tx := True\<rparr>) = (r2, w2)" by (metis surj_pair)
  obtain r3 w3 where c: "sel (\<lambda>_. ()) w2 = (r3, w3)" by (metis surj_pair)
  note q = silentQ[OF silent_sql(1) b] silentQ[OF assms m] silentQ[OF silent_sql(1) c]
  have "\<not> w_aborted w0" if "r0 = Inr ()" using b that by (auto simp: sel_Inr stmt_ok_def)
  moreover have "\<not> w_aborted w3" if "r3 = Inr ()" using c that by (auto simp: sel_Inr stmt_ok_def)
  ultimately show "no_charge w w1"
    using run q b m c unfolding RunInTx_def RunInTxE_def
    by (auto simp: no_charge_def steady_def split: sum.splits)
qed

lemma silent_Publish [simp, silence]: "silent (Publish o1 t m)"
proof -
  have "silent (outbox_Create ev)" for ev
    by (rule silentI) (auto simp: outbox_Create_def no_charge_def steady_def dest: silentQ[OF silent_sql(2)])
  then show ?thesis unfolding Publish_def by (intro silence)
qed

lemma silent_invoices [simp, silence]: "silent (InvoiceRepo_FindById a b)" "silent (InvoiceRepo_FindBySubscriptionCycle a b n)"
    "silent (InvoiceRepo_FindOrderInvoice a b)" "silent (InvoiceRepo_NextInvoiceNumber a)"
  by (simp_all add: InvoiceRepo_FindById_def InvoiceRepo_FindBySubscriptionCycle_def InvoiceRepo_FindOrderInvoice_def
      with_lines_def InvoiceRepo_NextInvoiceNumber_def silent_bind)

lemma silent_invoice_writes [simp, silence]: "silent (InvoiceRepo_Create i)" "silent (InvoiceRepo_Update i)"
  unfolding InvoiceRepo_Create_def InvoiceRepo_Update_def by (intro silence; simp)+

text \<open>A charge is not silent, but as steady as the rest.\<close>

definition steadily :: "('d world \<Rightarrow> 'r \<times> 'd world) \<Rightarrow> bool" where
  "steadily m \<longleftrightarrow> (\<forall>w. steady w (snd (m w)))"

lemma steadilyD: "steadily m \<Longrightarrow> m w = (r, w1) \<Longrightarrow> steady w w1"
  unfolding steadily_def by (metis snd_conv)

lemma steadilyI: "(\<And>w r w1. m w = (r, w1) \<Longrightarrow> steady w w1) \<Longrightarrow> steadily m"
  unfolding steadily_def by (metis surjective_pairing)

lemma steady_trans: "steady w w1 \<Longrightarrow> steady w1 w2 \<Longrightarrow> steady w w2"
  by (auto simp: steady_def)

lemma steadily_silent: "silent m \<Longrightarrow> steadily m"
  by (simp add: silent_def steadily_def no_charge_def)

lemma steadily_bind: "steadily m \<Longrightarrow> (\<And>x. steadily (f x)) \<Longrightarrow> steadily (bindS m f)"
  by (rule steadilyI) (auto simp: bindS_def dest!: steadilyD intro: steady_trans split: prod.splits sum.splits)

lemma steadily_charge: "steadily (ChargePayment inp)"
  by (simp add: steadily_def steady_def ChargePayment_def)

section \<open>Running a service on a concrete world\<close>

text \<open>The rest of a sequence is looked at only once its
  first step has a value.\<close>

lemma run_cong: "m = m' \<Longrightarrow> bindS m f = bindS m' f" "m = m' \<Longrightarrow> tryS m h = tryS m' h"
  by simp_all

lemma run_steps: "bindS m f w = (case m w of (r, w') \<Rightarrow> case r of Inl e \<Rightarrow> (Inl e, w') | Inr x \<Rightarrow> f x w')"
    "tryS m h w = (case m w of (r, w') \<Rightarrow> h r w')"
  by (simp_all add: bindS_def tryS_def)

lemmas run_basic = run_steps mapErrS_def Publish_def RunInTx_def RunInTxE_def sel_def exec_def stmt_def selOne_def
  translateErr_def outbox_Create_def Let_def mapS_Nil mapS_Cons

end
