(* ===== verification/Faultless.thy ===== *)
theory Faultless
  imports Effects
begin

text \<open>
  Runs in which no statement fails: what a service returns and what it leaves in the
  database, by one rule per construct from the result backwards.  A branch that only logs
  an error shows nothing in its result, so its effect is proved here.
\<close>

definition calm :: "'d world \<Rightarrow> bool" where
  "calm w \<longleftrightarrow> w_fault w = (\<lambda>_. None) \<and> \<not> w_aborted w \<and> \<not> w_tx w"

definition runs :: "('d world \<Rightarrow> 'r \<times> 'd world) \<Rightarrow> 'd db \<Rightarrow> ('r \<Rightarrow> 'd db \<Rightarrow> bool) \<Rightarrow> bool" where
  "runs m db Q \<longleftrightarrow> (\<forall>w. calm w \<and> w_db w = db \<longrightarrow> calm (snd (m w)) \<and> Q (fst (m w)) (w_db (snd (m w))))"

named_theorems runsI

lemma runsD: "runs m db Q \<Longrightarrow> m w = (r, w1) \<Longrightarrow> calm w \<Longrightarrow> w_db w = db \<Longrightarrow> calm w1 \<and> Q r (w_db w1)"
  unfolding runs_def by (metis fst_conv snd_conv)

lemma runs_def2: "runs m db Q \<longleftrightarrow> (\<forall>w r w1. calm w \<and> w_db w = db \<and> m w = (r, w1) \<longrightarrow> calm w1 \<and> Q r (w_db w1))"
  unfolding runs_def by (metis fst_conv snd_conv surj_pair)

lemma runs_weaken: "runs m db P \<Longrightarrow> (\<And>r d. P r d \<Longrightarrow> Q r d) \<Longrightarrow> runs m db Q"
  unfolding runs_def by blast

lemma runs_both: "runs m db P \<Longrightarrow> runs m db Q \<Longrightarrow> runs m db (\<lambda>r d. P r d \<and> Q r d)"
  unfolding runs_def by blast

lemma runs_ret [runsI]: "Q (Inr x) db \<Longrightarrow> runs (retS x) db Q" "Q (Inl e) db \<Longrightarrow> runs (failS e) db Q"
    "P q db \<Longrightarrow> runs (Pair q) db P" "Q r db \<Longrightarrow> runs (liftS r) db Q"
  by (simp_all add: runs_def)

lemma runs_bind [runsI]:
  assumes "runs m db (\<lambda>r d. case r of Inl e \<Rightarrow> Q (Inl e) d | Inr x \<Rightarrow> runs (f x) d Q)"
  shows "runs (bindS m f) db Q"
  unfolding runs_def2
proof (intro allI impI, elim conjE)
  fix w r w1
  assume w: "calm w" "w_db w = db" and run: "bindS m f w = (r, w1)"
  obtain r0 w0 where m: "m w = (r0, w0)" by (metis surj_pair)
  note s = runsD[OF assms m w]
  show "calm w1 \<and> Q r (w_db w1)"
    using s run runsD[of _ "w_db w0" Q w0] by (cases r0) (auto simp: bindS_def m)
qed

lemma runs_try [runsI]:
  assumes "runs m db (\<lambda>r d. runs (f r) d Q)"
  shows "runs (tryS m f) db Q"
  using assms by (simp add: runs_def tryS_def prod.case_eq_if)

lemma runs_mapErr [runsI]:
  "runs m db (\<lambda>r d. Q (case r of Inl e \<Rightarrow> Inl (g e) | Inr x \<Rightarrow> Inr x) d) \<Longrightarrow> runs (mapErrS g m) db Q"
  by (auto simp: runs_def mapErrS_def prod.case_eq_if split: sum.split)

lemma runs_ignore [runsI]: "runs m db (\<lambda>_. Q (Inr ())) \<Longrightarrow> runs (ignoreS m) db Q"
  by (simp add: runs_def ignoreS_def)

lemma runs_stmt: "calm w \<Longrightarrow> stmt f w = (case f (w_db w) of
    None \<Rightarrow> (Inl (InfraError ''constraint violation''), w\<lparr>w_stmts := Suc (w_stmts w)\<rparr>)
  | Some (x, d) \<Rightarrow> (Inr x, w\<lparr>w_stmts := Suc (w_stmts w), w_db := d\<rparr>))"
  by (simp add: stmt_def calm_def Let_def split: option.split)

lemma runs_sel [runsI]: "Q (Inr (f db)) db \<Longrightarrow> runs (sel f) db Q"
  by (auto simp: runs_def sel_def runs_stmt calm_def)

lemma runs_exec [runsI]:
  "(case f db of None \<Rightarrow> Q (Inl (InfraError ''constraint violation'')) db | Some d \<Rightarrow> Q (Inr ()) d) \<Longrightarrow> runs (exec f) db Q"
  unfolding runs_def exec_def by (auto simp: runs_stmt split: option.splits) (auto simp: calm_def)

lemma runs_selOne [runsI]:
  "(case f db of None \<Rightarrow> Q (Inl (WrapError ''no rows in result set'' ErrNotFound)) db | Some x \<Rightarrow> Q (Inr x) db) \<Longrightarrow> runs (selOne f) db Q"
  unfolding selOne_def by (intro runsI) (auto simp: translateErr_def intro: runsI split: option.splits)

lemma runs_clock [runsI]: "(\<And>t. P (Inr t) db) \<Longrightarrow> runs nowS db P" "(\<And>i. Q (Inr i) db) \<Longrightarrow> runs (Generate p) db Q"
  by (simp_all add: runs_def calm_def)

lemma runs_outside [runsI]: "(\<And>r. P r db) \<Longrightarrow> runs (NewGateway a b) db P" "(\<And>r. Q r db) \<Longrightarrow> runs (ChargePayment c) db Q"
  by (auto simp: runs_def NewGateway_def ChargePayment_def calm_def Let_def split: option.split)

lemma runs_if [runsI]: "(b \<Longrightarrow> runs m db Q) \<Longrightarrow> (\<not> b \<Longrightarrow> runs m1 db Q) \<Longrightarrow> runs (if b then m else m1) db Q"
  by simp

text \<open>Events are appended to the outbox; what they are is not needed here.\<close>

lemma runs_Publish [runsI]: "(\<And>evs. Q (Inr ()) (db\<lparr>t_outbox := evs\<rparr>)) \<Longrightarrow> runs (Publish o1 topic m) db Q"
proof -
  assume q: "\<And>evs. Q (Inr ()) (db\<lparr>t_outbox := evs\<rparr>)"
  have "runs (outbox_Create ev) db Q" for ev
    unfolding runs_def outbox_Create_def using q by (auto simp: exec_def runs_stmt calm_def)
  then show ?thesis unfolding Publish_def by (intro runsI) (simp, intro runsI, simp)
qed

section \<open>Rows\<close>

lemma runs_store:
  assumes upd: "\<And>k. find_row key k (update_row key merge r (get db)) =
      (if k = key r then map_option (\<lambda>old. merge old r) (find_row key k (get db)) else find_row key k (get db))"
    and row: "find_row key (key r) (get db) = Some old" and lens: "\<And>rs db. get (put rs db) = rs"
    and q: "Q (Inr (merge old r)) (put (update_row key merge r (get db)) db)"
  shows "runs (bindS (exec (\<lambda>db. Some (put (update_row key merge r (get db)) db)))
     (\<lambda>_. selOne (\<lambda>db. find_row key (key r) (get db)))) db Q"
  using q row by (intro runsI) (simp, intro runsI, simp add: lens upd)

lemma runs_sub_Find [runsI]:
  "(case find_row sub_key (o1, i) (t_subscriptions db) of None \<Rightarrow> Q (Inl (WrapError ''no rows in result set'' ErrNotFound)) db
    | Some s \<Rightarrow> Q (Inr s) db) \<Longrightarrow> runs (SubscriptionRepo_FindById o1 i) db Q"
  unfolding SubscriptionRepo_FindById_def by (rule runs_selOne)

lemma runs_sub_Update:
  assumes "find_row sub_key (sub_key s) (t_subscriptions db) = Some old"
    and "Q (Inr (sub_merge old s)) (db\<lparr>t_subscriptions := update_row sub_key sub_merge s (t_subscriptions db)\<rparr>)"
  shows "runs (SubscriptionRepo_Update s) db Q"
  unfolding SubscriptionRepo_Update_def SubscriptionRepo_FindById_def sub_key_def[of s, symmetric]
  using assms by (intro runs_store[where get = t_subscriptions and put = "\<lambda>rs db. db\<lparr>t_subscriptions := rs\<rparr>"] find_row_update)
    (auto simp: sub_key_def sub_merge_def)

lemma runs_camp_Find [runsI]:
  "(case find_row cmp_key (o1, i) (t_campaigns db) of None \<Rightarrow> Q (Inl (WrapError ''no rows in result set'' ErrNotFound)) db
    | Some s \<Rightarrow> Q (Inr s) db) \<Longrightarrow> runs (DunningRepo_FindCampaignById o1 i) db Q"
  unfolding DunningRepo_FindCampaignById_def by (rule runs_selOne)

lemma runs_camp_Update:
  assumes "find_row cmp_key (cmp_key c) (t_campaigns db) = Some old"
    and "Q (Inr (cmp_merge old c)) (db\<lparr>t_campaigns := update_row cmp_key cmp_merge c (t_campaigns db)\<rparr>)"
  shows "runs (DunningRepo_UpdateCampaign c) db Q"
  unfolding DunningRepo_UpdateCampaign_def DunningRepo_FindCampaignById_def cmp_key_def[of c, symmetric]
  using assms by (intro runs_store[where get = t_campaigns and put = "\<lambda>rs db. db\<lparr>t_campaigns := rs\<rparr>"] find_row_update)
    (auto simp: cmp_key_def cmp_merge_def)

text \<open>The invoice of a transition: its status moves when the transition allows it.\<close>

lemma runs_invoice_Find:
  "(case invoice_at db (o1, i) of None \<Rightarrow> Q (Inl (WrapError ''no rows in result set'' ErrNotFound)) db | Some ivc \<Rightarrow> Q (Inr ivc) db)
   \<Longrightarrow> runs (InvoiceRepo_FindById o1 i) db Q"
  unfolding InvoiceRepo_FindById_def with_lines_def
  by (intro runsI) (auto simp: invoice_at_def hydrate_def intro!: runsI split: option.splits)

lemma runs_invoice_Update:
  "(\<And>r. Q r (db\<lparr>t_invoices := update_row inv_key inv_merge e (t_invoices db)\<rparr>)) \<Longrightarrow> runs (InvoiceRepo_Update e) db Q"
  unfolding InvoiceRepo_Update_def by (intro runsI) (simp, intro runs_invoice_Find, simp split: option.split)

definition current_invoice :: "subscription \<Rightarrow> 'd db \<Rightarrow> 'd invoice option" where
  "current_invoice s db = find (\<lambda>i. inv_OrgId i = sub_OrgId s \<and> col_eq (inv_SubscriptionId i) (sub_Id s) \<and>
     inv_Cycle i = sub_CyclesProcessed s) (t_invoices db)"

lemma runs_current_invoice:
  "(case current_invoice s db of None \<Rightarrow> Q (Inl (WrapError ''no rows in result set'' ErrNotFound)) db
    | Some i \<Rightarrow> Q (Inr (hydrate db i)) db)
   \<Longrightarrow> runs (InvoiceRepo_FindBySubscriptionCycle (sub_OrgId s) (sub_Id s) (sub_CyclesProcessed s)) db Q"
  unfolding InvoiceRepo_FindBySubscriptionCycle_def with_lines_def
  by (intro runsI) (auto simp: current_invoice_def hydrate_def intro!: runsI split: option.splits)

lemma update_row_keys: "(\<And>old. key old = key r \<Longrightarrow> key (merge old r) = key r) \<Longrightarrow> map key (update_row key merge r rows) = map key rows"
  by (induction rows) (auto simp: update_row_def)

lemma find_updated:
  assumes "find P rows = Some r0" and "distinct (map key rows)" and "key r0 = key r" and "P (merge r0 r)"
  shows "find P (update_row key merge r rows) = Some (merge r0 r)"
  using assms
proof (induction rows)
  case (Cons x xs)
  show ?case
  proof (cases "P x")
    case True
    then show ?thesis using Cons.prems by (simp add: update_row_def)
  next
    case False
    then have "find P xs = Some r0" using Cons.prems by simp
    moreover from this have "r0 \<in> set xs" by (auto simp: find_Some_iff)
    then have "key r \<in> key ` set xs" using Cons.prems(3) by (metis imageI)
    then have "key x \<noteq> key r" using Cons.prems(2) by auto
    ultimately show ?thesis using Cons False by (simp add: update_row_def)
  qed
qed simp

end
