(* ===== verification/Subscription_Service.thy ===== *)
theory Subscription_Service
  imports Invoice_Service Faultless
begin

text \<open>
  The subscription service: src/internal/core/service/subscription.go with its inputs
  (src/internal/core/port/subscription_input.go), the topic of a status
  (src/internal/core/port/topic.go) and two helpers of src/internal/core/service/order.go.
  It moves a subscription through its states, charges a billing cycle, and applies the
  result of a charge.  The lemmas show that applying a result twice counts it once, what
  every outcome leaves in the database and in the outbox, and that the sum of the settled
  invoices is the revenue recorded.

  A transition whose error comes with the subscription it was refused for returns both.
\<close>

section \<open>Inputs and topics\<close>

record create_subscription_input =
  csi_OrgId :: string
  csi_PaymentMethodId :: string
  csi_Activate :: bool
  csi_Amount :: int
  csi_Currency :: string
  csi_BillingInterval :: billing_interval
  csi_BillingIntervalQty :: int
  csi_Cycles :: int
  csi_TrialInterval :: billing_interval
  csi_TrialIntervalQty :: int
  csi_Metadata :: metadata

text \<open>A zero trial interval is the empty string, which differs from the interval none.\<close>

definition ToSubscription :: "create_subscription_input \<Rightarrow> ('d, subscription) svc" where
  "ToSubscription inp =
    bindS nowS (\<lambda>now.
    let startDate = (if csi_TrialInterval inp \<noteq> BillingIntervalNone
                     then calculateNextDate (csi_TrialInterval inp) (csi_TrialIntervalQty inp) now else now);
        trialEndsAt = (if csi_TrialInterval inp \<noteq> BillingIntervalNone then startDate else 0)
    in bindS (Generate ''sub'') (\<lambda>newId.
       bindS nowS (\<lambda>createdAt.
       bindS nowS (\<lambda>updatedAt.
       retS \<lparr> sub_OrgId = csi_OrgId inp, sub_Id = newId, sub_PspId = [], sub_OrderId = [],
          sub_CustomerId = [], sub_Status = SubscriptionStatusPending, sub_PaymentMethodId = [],
          sub_StartDate = startDate, sub_EndDate = 0, sub_BillingInterval = csi_BillingInterval inp,
          sub_BillingIntervalQty = csi_BillingIntervalQty inp, sub_Cycles = 0, sub_BillingAnchor = time_Day startDate,
          sub_TrialInterval = BillingIntervalOther [], sub_TrialIntervalQty = 0,
          sub_TrialEndsAt = trialEndsAt, sub_CancelAt = 0, sub_EndsAt = 0, sub_LastCharge = 0, sub_RenewsAt = 0,
          sub_CurrentPeriodStart = 0, sub_CurrentPeriodEnd = 0, sub_Retries = 0, sub_NextRetryAt = 0,
          sub_Currency = csi_Currency inp, sub_Metadata = Map.empty, sub_CyclesProcessed = 0,
          sub_TotalRevenue = 0, sub_CancelledAt = 0, sub_CreatedAt = createdAt, sub_UpdatedAt = updatedAt \<rparr>))))"

datatype outstanding_invoice_action =
  OutstandingInvoiceUncollectible | OutstandingInvoiceVoid | OutstandingInvoiceKeep | OutstandingInvoiceOther string

datatype resume_behavior =
  ContinueExistingBillingPeriod | StartNewBillingPeriod | ResumeBehaviorOther string

definition GetSubscriptionTopic :: "subscription_status \<Rightarrow> string" where
  "GetSubscriptionTopic status = (case status of
     SubscriptionStatusActive \<Rightarrow> ''subscription.activated''
   | SubscriptionStatusPaused \<Rightarrow> ''subscription.paused''
   | SubscriptionStatusCancelled \<Rightarrow> ''subscription.cancelled''
   | SubscriptionStatusExpired \<Rightarrow> ''subscription.expired''
   | SubscriptionStatusCompleted \<Rightarrow> ''subscription.completed''
   | SubscriptionStatusPastDue \<Rightarrow> ''subscription.past_due''
   | SubscriptionStatusUnpaid \<Rightarrow> ''subscription.unpaid''
   | _ \<Rightarrow> [])"

section \<open>Lines of an order\<close>

type_synonym 'd order_line_price = "order_item \<times> 'd price"

text \<open>One line appended to the group of its cadence; a new cadence goes to the end.\<close>

fun add_to_group :: "'k \<Rightarrow> 'a \<Rightarrow> ('k \<times> 'a list) list \<Rightarrow> ('k \<times> 'a list) list" where
  "add_to_group c l [] = [(c, [l])]"
| "add_to_group c l ((c1, ls) # gs) = (if c1 = c then (c1, ls @ [l]) # gs else (c1, ls) # add_to_group c l gs)"

definition groupIntoSubscriptions :: "'d order_line_price list \<Rightarrow> 'd order_line_price list list" where
  "groupIntoSubscriptions ls =
    map snd (fold (\<lambda>l gs. if IsRecurring (snd l) then add_to_group (SubscriptionCadence (snd l)) l gs else gs) ls [])"

definition fixedBaseAmount :: "'d decimal_ops \<Rightarrow> string \<Rightarrow> string \<Rightarrow> ('d, int) svc" where
  "fixedBaseAmount D orgId subscriptionId =
    bindS (OrderRepo_FindOrderItemsBySubscriptionId orgId subscriptionId) (\<lambda>items.
    foldS (\<lambda>fixedBase it.
      bindS (PriceRepo_FindById orgId (itm_PriceId it)) (\<lambda>p.
      retS (if IsMetered p then fixedBase
            else let q = (if itm_Quantity it \<le> 0 then 1 else itm_Quantity it)
                 in add64 fixedBase (FixedLineAmount D (prc_UnitPrice p) (prc_UnitCount p) q)))) 0 items)"

section \<open>Creation\<close>

definition line_with_price :: "string \<Rightarrow> order_item \<Rightarrow> ('d, 'd order_line_price) svc" where
  "line_with_price orgId it = bindS (PriceRepo_FindById orgId (itm_PriceId it)) (\<lambda>p. retS (it, p))"

definition create_for_group :: "string \<Rightarrow> string \<Rightarrow> order \<Rightarrow> 'd order_line_price list \<Rightarrow> ('d, subscription) svc" where
  "create_for_group orgId orderId ord grp =
    bindS (Generate ''sub'') (\<lambda>newId.
    bindS nowS (\<lambda>now.
    let s = NewSubscriptionFromLines orgId orderId (ord_CustomerId ord) (map snd grp) newId now;
        s = (if ord_Status ord = OrderStatusCompleted then s\<lparr>sub_Status := SubscriptionStatusActive\<rparr> else s)
    in bindS (SubscriptionRepo_Create s) (\<lambda>created.
       bindS (foldS (\<lambda>_ l. bindS (OrderRepo_UpdateOrderItem ((fst l)\<lparr>itm_SubscriptionId := sub_Id created\<rparr>)) (\<lambda>_. retS ())) () grp) (\<lambda>_.
       retS created))))"

definition CreateSubscriptionsForOrder :: "string \<Rightarrow> string \<Rightarrow> ('d, subscription list) svc" where
  "CreateSubscriptionsForOrder orgId orderId =
    bindS (OrderRepo_FindById orgId orderId) (\<lambda>ord.
    bindS (OrderRepo_FindOrderItemsByOrderId orgId orderId) (\<lambda>items.
    bindS (mapS (line_with_price orgId) items) (\<lambda>ls.
    mapS (create_for_group orgId orderId ord) (groupIntoSubscriptions ls))))"

definition SubscriptionService_Create :: "create_subscription_input \<Rightarrow> ('d, subscription) svc" where
  "SubscriptionService_Create inp =
    bindS (ToSubscription inp) (\<lambda>s.
    bindS (SubscriptionRepo_Create s) (\<lambda>s.
    bindS (ignoreS (Publish (sub_OrgId s) ''subscription.created'' (MsgSubscription s))) (\<lambda>_.
    retS s)))"

definition SubscriptionService_Update :: "string \<Rightarrow> string \<Rightarrow> subscription_status \<Rightarrow> ('d, subscription) svc" where
  "SubscriptionService_Update orgId sid status =
    bindS (SubscriptionRepo_FindById orgId sid) (\<lambda>s.
    let s = (if status \<noteq> sub_Status s then s\<lparr>sub_Status := status\<rparr> else s) in
    bindS (SubscriptionRepo_Update s) (\<lambda>newSub.
    bindS (ignoreS (Publish (sub_OrgId s) (GetSubscriptionTopic (sub_Status s)) (MsgSubscription newSub))) (\<lambda>_.
    retS newSub)))"

section \<open>Transitions\<close>

text \<open>The error of a transition, with the subscription handed out beside it if there is one.\<close>

type_synonym 'd transition = "'d world \<Rightarrow> ((subscription option \<times> app_error) + subscription) \<times> 'd world"

definition load_error :: "app_error \<Rightarrow> app_error" where
  "load_error e = (if as_custom e \<noteq> None then e else NewCustomError InternalError [] (Some e))"

definition refuse :: "subscription \<Rightarrow> string \<Rightarrow> app_error option \<Rightarrow> 'd transition" where
  "refuse s msg cause = Pair (Inl (if sub_Id s \<noteq> [] then Some s else None, NewCustomError BadRequestError msg cause))"

definition plain_error :: "('d, subscription) svc \<Rightarrow> 'd transition" where
  "plain_error m = tryS m (\<lambda>r. Pair (case r of Inl e \<Rightarrow> Inl (None, e) | Inr s \<Rightarrow> Inr s))"

definition with_now :: "(time \<Rightarrow> 'd world \<Rightarrow> 'r) \<Rightarrow> 'd world \<Rightarrow> 'r" where
  "with_now f = tryS nowS (\<lambda>r. case r of Inr now \<Rightarrow> f now | Inl _ \<Rightarrow> f 0)"

text \<open>Load for update and transition, in one transaction.\<close>

definition transitionInTx :: "string \<Rightarrow> string \<Rightarrow> (subscription \<Rightarrow> 'd transition) \<Rightarrow> 'd transition" where
  "transitionInTx orgId sid step = RunInTxE (\<lambda>e. (None, e))
     (tryS (SubscriptionRepo_FindByIdForUpdate orgId sid) (\<lambda>r. case r of
        Inl e \<Rightarrow> Pair (Inl (None, load_error e))
      | Inr s \<Rightarrow> step s))"

definition Activate :: "string \<Rightarrow> string \<Rightarrow> ('d, subscription) svc" where
  "Activate orgId sid = RunInTx
    (bindS (SubscriptionRepo_FindByIdForUpdate orgId sid) (\<lambda>s.
     SubscriptionRepo_Update (s\<lparr>sub_Status := SubscriptionStatusActive\<rparr>)))"

definition PauseSubscription :: "string \<Rightarrow> string \<Rightarrow> 'd transition" where
  "PauseSubscription orgId sid = transitionInTx orgId sid (\<lambda>s.
     if sub_Status s = SubscriptionStatusPaused then refuse s ''subscription is paused already'' None
     else plain_error (SubscriptionRepo_Update (s\<lparr>sub_Status := SubscriptionStatusPaused\<rparr>)))"

definition resumed_period :: "subscription \<Rightarrow> time \<Rightarrow> subscription" where
  "resumed_period s now =
    (let nextCharge = time_Add now (20 * Second) in
     s\<lparr>sub_BillingAnchor := time_Day nextCharge, sub_RenewsAt := nextCharge,
       sub_CurrentPeriodStart := nextCharge,
       sub_CurrentPeriodEnd := AddBillingInterval (s\<lparr>sub_BillingAnchor := time_Day nextCharge\<rparr>) nextCharge\<rparr>)"

definition ResumeSubscription :: "string \<Rightarrow> string \<Rightarrow> resume_behavior \<Rightarrow> 'd transition" where
  "ResumeSubscription orgId sid behavior = transitionInTx orgId sid (\<lambda>s.
     if sub_Status s \<noteq> SubscriptionStatusPaused \<and> sub_Status s \<noteq> SubscriptionStatusPastDue
     then refuse s ''subscription is not paused'' None
     else let behaviour = (if behavior = ResumeBehaviorOther [] then ContinueExistingBillingPeriod else behavior) in
       case behaviour of
         ContinueExistingBillingPeriod \<Rightarrow>
           (let nextCharge = CalculateNextBillingDate s in
            with_now (\<lambda>now. if nextCharge < now
              then Pair (Inl (None, NewCustomError BadRequestError ''can't continue existing billing period, start a new period''
                                      (Some (InfraError ''next billing date is in the past''))))
              else plain_error (SubscriptionRepo_Update
                     (s\<lparr>sub_RenewsAt := nextCharge, sub_Status := SubscriptionStatusActive\<rparr>))))
       | StartNewBillingPeriod \<Rightarrow>
           with_now (\<lambda>now. plain_error (SubscriptionRepo_Update
             ((resumed_period s (now))\<lparr>sub_Status := SubscriptionStatusActive\<rparr>)))
       | ResumeBehaviorOther _ \<Rightarrow>
           plain_error (SubscriptionRepo_Update (s\<lparr>sub_Status := SubscriptionStatusActive\<rparr>)))"

definition applyOutstandingInvoiceAction :: "subscription \<Rightarrow> outstanding_invoice_action \<Rightarrow> ('d, unit) svc" where
  "applyOutstandingInvoiceAction s action =
    (if action = OutstandingInvoiceKeep then retS ()
     else tryS (FindCurrentCycle (sub_OrgId s) (sub_Id s) (sub_CyclesProcessed s)) (\<lambda>r. case r of
       Inl _ \<Rightarrow> retS ()
     | Inr (i :: 'd invoice) \<Rightarrow>
         if inv_Status i \<noteq> InvoiceStatusOpen \<and> inv_Status i \<noteq> InvoiceStatusDraft then retS ()
         else if action = OutstandingInvoiceVoid
         then ignoreS (InvoiceService_Void (sub_OrgId s) (inv_Id i) :: ('d, 'd invoice) svc)
         else ignoreS (InvoiceService_MarkUncollectible (sub_OrgId s) (inv_Id i) :: ('d, 'd invoice) svc)))"

definition CancelSubscription :: "string \<Rightarrow> string \<Rightarrow> outstanding_invoice_action \<Rightarrow> 'd transition" where
  "CancelSubscription orgId sid action w =
    (case transitionInTx orgId sid (\<lambda>s.
        if sub_Status s = SubscriptionStatusCancelled then refuse s ''subscription is already cancelled'' None
        else with_now (\<lambda>now. plain_error (SubscriptionRepo_Update
               (s\<lparr>sub_Status := SubscriptionStatusCancelled, sub_CancelAt := sub_RenewsAt s,
                  sub_CancelledAt := now\<rparr>)))) w of
       (Inl e, w1) \<Rightarrow> (Inl e, w1)
     | (Inr s, w1) \<Rightarrow> (case applyOutstandingInvoiceAction s action w1 of (_, w2) \<Rightarrow> (Inr s, w2)))"

definition SubscriptionService_UpdateBillingAnchor ::
    "'d decimal_ops \<Rightarrow> string \<Rightarrow> string \<Rightarrow> int \<Rightarrow> string \<Rightarrow> ('d, proration_details) svc" where
  "SubscriptionService_UpdateBillingAnchor D orgId sid anchor prorationMode =
    bindS (mapErrS load_error (SubscriptionRepo_FindById orgId sid)) (\<lambda>s.
    bindS (fixedBaseAmount D orgId (sub_Id s)) (\<lambda>fixedBase.
    bindS nowS (\<lambda>now.
    bindS nowS (\<lambda>now'.
    let (s, details) = UpdateBillingAnchor s anchor prorationMode fixedBase now now' in
    bindS (RunInTx (
      bindS (SubscriptionRepo_Update s) (\<lambda>s1.
      Publish (sub_OrgId s1) ''subscription.billing_anchor_changed'' (MsgSubscription s1)))) (\<lambda>_.
    retS details)))))"

section \<open>Charging\<close>

definition GetRetryPolicy :: "'d billing_env \<Rightarrow> string \<Rightarrow> ('d, retry_policy) svc" where
  "GetRetryPolicy E orgId =
    (let defaultPolicy = \<lparr> rtp_RetryAttempts = 3, rtp_RetryInterval = RetryIntervalMinute, rtp_RetryPeriod = 4,
                          rtp_FailureAction = FailureActionCancel \<rparr> in
     tryS (SettingRepo_FindById orgId ''subscriptions'' ''retry_policy'') (\<lambda>r. case r of
       Inl _ \<Rightarrow> retS defaultPolicy
     | Inr setting \<Rightarrow> if set_Value setting = [] then retS defaultPolicy
         else (case env_retry_policy E (set_Value setting) of
           None \<Rightarrow> retS defaultPolicy
         | Some policy \<Rightarrow> retS policy)))"

text \<open>The payment both charge handlers record.\<close>

definition charge_payment :: "subscription \<Rightarrow> charge_result \<Rightarrow> 'd invoice \<Rightarrow> ('d, payment) svc" where
  "charge_payment s charge i =
    bindS (Generate ''pmt'') (\<lambda>pid.
    bindS nowS (\<lambda>createdAt.
    bindS nowS (\<lambda>updatedAt.
    retS (payment_SetMetadata
      \<lparr> pay_OrgId = sub_OrgId s, pay_Id = pid, pay_Psp = chg_Psp charge, pay_PspId = chg_PspId charge,
        pay_Reference = chg_Reference charge, pay_OrderId = sub_OrderId s, pay_SubscriptionId = sub_Id s,
        pay_InvoiceId = inv_Id i, pay_Status = chg_Status charge, pay_Recurring = True,
        pay_Currency = chg_Currency charge, pay_Amount = chg_Amount charge, pay_PspFee = 0, pay_PlatformFee = 0,
        pay_NetAmount = inv_Total i, pay_Metadata = Map.empty, pay_CompletedAt = chg_ProcessedAt charge,
        pay_CreatedAt = createdAt, pay_UpdatedAt = updatedAt \<rparr> (sub_Metadata s)))))"

text \<open>The subscription after a successful charge.\<close>

definition charged :: "subscription \<Rightarrow> int \<Rightarrow> time \<Rightarrow> subscription" where
  "charged s amount lastCharge =
    (let s = s\<lparr>sub_CyclesProcessed := add64 (sub_CyclesProcessed s) 1,
               sub_TotalRevenue := add64 (sub_TotalRevenue s) amount,
               sub_LastCharge := lastCharge, sub_Retries := 0, sub_NextRetryAt := 0\<rparr> in
     if sub_Cycles s \<noteq> 0 \<and> sub_Cycles s \<le> sub_CyclesProcessed s
     then s\<lparr>sub_Status := SubscriptionStatusCompleted, sub_EndsAt := lastCharge, sub_RenewsAt := 0,
            sub_CurrentPeriodEnd := 0, sub_CurrentPeriodStart := 0\<rparr>
     else let s = s\<lparr>sub_Status := SubscriptionStatusActive\<rparr>; nextCharge = CalculateNextBillingDate s in
       s\<lparr>sub_RenewsAt := nextCharge, sub_CurrentPeriodStart := sub_CurrentPeriodEnd s,
         sub_CurrentPeriodEnd := nextCharge\<rparr>)"

definition record_success :: "subscription \<Rightarrow> 'd invoice \<Rightarrow> payment \<Rightarrow> ('d, subscription) svc" where
  "record_success s i p =
    bindS (PaymentRepo_Create p) (\<lambda>p.
    bindS (InvoiceService_MarkSettled (sub_OrgId s) (inv_Id i)) (\<lambda>_ :: 'd invoice.
    bindS nowS (\<lambda>lastCharge.
    let s = charged s (inv_Total i) lastCharge in
    bindS (SubscriptionRepo_Update s) (\<lambda>newSub.
    bindS (if sub_Status newSub = SubscriptionStatusExpired
           then Publish (sub_OrgId s) ''subscription.expired'' (MsgSubscription newSub) else retS ()) (\<lambda>_.
    bindS (if sub_Status newSub = SubscriptionStatusCompleted
           then Publish (sub_OrgId s) ''subscription.completed'' (MsgSubscription newSub) else retS ()) (\<lambda>_.
    bindS (Publish (sub_OrgId s) ''subscription.payment.charge.success'' (MsgChargeSuccess s p)) (\<lambda>_.
    retS newSub)))))))"

text \<open>An empty subscription makes both handlers panic, which the model returns as an error.\<close>

definition HandleSubscriptionChargeSuccess ::
    "'d billing_env \<Rightarrow> subscription \<Rightarrow> charge_result \<Rightarrow> ('d, subscription) svc" where
  "HandleSubscriptionChargeSuccess E s charge =
    (if sub_Id s = [] then failS (InfraError ''panic: Subscription is empty'')
     else bindS (SubscriptionRepo_FindById (sub_OrgId s) (sub_Id s)) (\<lambda>current.
       if sub_CyclesProcessed s < sub_CyclesProcessed current then retS current
       else bindS (BuildForBillingPeriod E s) (\<lambda>i.
            bindS (charge_payment s charge i) (\<lambda>p.
            RunInTx (record_success s i p)))))"

definition failed_subscription :: "retry_policy \<Rightarrow> subscription \<Rightarrow> ('d, subscription) svc" where
  "failed_subscription policy s =
    (let nextRetryDate = GetNextCharge policy s in
     if IsZero nextRetryDate then
       (let s = (if rtp_FailureAction policy = FailureActionMarkUnpaid
                 then s\<lparr>sub_Status := SubscriptionStatusUnpaid\<rparr> else s) in
        if rtp_FailureAction policy = FailureActionCancel then bindS nowS (\<lambda>now. retS (SetCancelled s now)) else retS s)
     else retS (s\<lparr>sub_Status := SubscriptionStatusPastDue, sub_NextRetryAt := nextRetryDate,
                  sub_Retries := add64 (sub_Retries s) 1\<rparr>))"

definition record_failure ::
    "retry_policy \<Rightarrow> subscription \<Rightarrow> charge_result \<Rightarrow> 'd invoice \<Rightarrow> payment \<Rightarrow> ('d, subscription) svc" where
  "record_failure policy s charge i p =
    bindS (PaymentRepo_Create p) (\<lambda>p.
    bindS (failed_subscription policy s) (\<lambda>s1.
    bindS (if IsZero (GetNextCharge policy s) \<and>
              (rtp_FailureAction policy = FailureActionMarkUnpaid \<or> rtp_FailureAction policy = FailureActionCancel)
           then bindS (InvoiceService_MarkUncollectible (sub_OrgId s) (inv_Id i)) (\<lambda>_ :: 'd invoice. retS ())
           else retS ()) (\<lambda>_.
    bindS (SubscriptionRepo_Update s1) (\<lambda>newSub.
    bindS (Publish (sub_OrgId s) ''subscription.payment.charge.failed'' (MsgChargeFailed s1 charge)) (\<lambda>_.
    bindS (Publish (sub_OrgId s) ''payment.created'' (MsgPayment p)) (\<lambda>_.
    bindS (case sub_Status newSub of
             SubscriptionStatusCancelled \<Rightarrow> Publish (sub_OrgId s) ''subscription.cancelled'' (MsgSubscription newSub)
           | SubscriptionStatusUnpaid \<Rightarrow> Publish (sub_OrgId s) ''subscription.unpaid'' (MsgSubscription newSub)
           | SubscriptionStatusExpired \<Rightarrow> Publish (sub_OrgId s) ''subscription.expired'' (MsgSubscription newSub)
           | SubscriptionStatusPastDue \<Rightarrow>
               if sub_Retries s1 = 1 then Publish (sub_OrgId s) ''subscription.past_due'' (MsgSubscription newSub) else retS ()
           | _ \<Rightarrow> retS ()) (\<lambda>_.
    retS newSub)))))))"

definition HandleSubscriptionChargeFailure ::
    "'d billing_env \<Rightarrow> subscription \<Rightarrow> charge_result \<Rightarrow> ('d, subscription) svc" where
  "HandleSubscriptionChargeFailure E s charge =
    (if sub_Id s = [] then failS (InfraError ''panic: Subscription is empty'')
     else bindS (SubscriptionRepo_FindById (sub_OrgId s) (sub_Id s)) (\<lambda>current.
       if sub_CyclesProcessed s < sub_CyclesProcessed current \<or> sub_Retries s < sub_Retries current then retS current
       else bindS (BuildForBillingPeriod E s) (\<lambda>i.
            bindS (charge_payment s charge i) (\<lambda>p.
            bindS (GetRetryPolicy E (sub_OrgId s)) (\<lambda>policy.
            RunInTx (record_failure policy s charge i p))))))"

text \<open>The encoded response of the gateway is what the record already holds.\<close>

definition charge_result_of :: "subscription \<Rightarrow> charge_payment_response \<Rightarrow> payment_status \<Rightarrow> time \<Rightarrow> charge_result" where
  "charge_result_of s r status completedAt =
    \<lparr> chg_Psp = cpr_Psp r, chg_Amount = cpr_AmountCharged r, chg_Status = status, chg_ErrorReason = cpr_ErrorReason r,
      chg_ErrorCode = cpr_ErrorCode r, chg_Currency = sub_Currency s, chg_PspId = cpr_PspId r,
      chg_Reference = cpr_Reference r, chg_ProcessedAt = completedAt, chg_RawData = cpr_PspResponse r \<rparr>"

definition charge_result_for :: "subscription \<Rightarrow> charge_payment_response \<Rightarrow> ('d, charge_result) svc" where
  "charge_result_for s r = (case cpr_Status r of
      ChargePaymentStatusGatewayError \<Rightarrow> failS (InfraError (''gateway error: '' @ cpr_ErrorReason r))
    | ChargePaymentStatusSuccess \<Rightarrow> bindS nowS (\<lambda>now. retS (charge_result_of s r PaymentStatusSucceeded now))
    | ChargePaymentStatusPending \<Rightarrow> retS (charge_result_of s r PaymentStatusPending 0)
    | ChargePaymentStatusError \<Rightarrow> retS (charge_result_of s r PaymentStatusFailed 0)
    | ChargePaymentStatusOther _ \<Rightarrow> retS (charge_result_of s r (PaymentStatusOther []) 0))"

definition call_gateway :: "subscription \<Rightarrow> 'd invoice \<Rightarrow> ('d, charge_result) svc" where
  "call_gateway s i =
    bindS (NewGateway (sub_OrgId s) (sub_PspId s)) (\<lambda>gw.
    bindS (CustomerRepo_FindById (sub_OrgId s) (sub_CustomerId s)) (\<lambda>c.
    bindS (CustomerRepo_FindPaymentMethodById (sub_OrgId s) (sub_PaymentMethodId s)) (\<lambda>pm.
    bindS (ChargePayment \<lparr> chi_OrgId = sub_OrgId s, chi_OrderId = sub_OrderId s, chi_SubscriptionId = sub_Id s,
             chi_Amount = inv_Total i, chi_Currency = sub_Currency s, chi_PspId = gw, chi_Method = pm,
             chi_Customer = c \<rparr>) (charge_result_for s))))"

definition ChargeForBillingPeriod :: "'d billing_env \<Rightarrow> subscription \<Rightarrow> ('d, charge_result) svc" where
  "ChargeForBillingPeriod E currentSub =
    bindS (SubscriptionRepo_FindById (sub_OrgId currentSub) (sub_Id currentSub)) (\<lambda>s.
    bindS (BuildForBillingPeriod E s) (\<lambda>i.
    bindS (InvoiceService_MarkOpen (sub_OrgId s) (inv_Id i)) (\<lambda>_ :: 'd invoice.
    call_gateway s i)))"

definition SendRenewalReminder :: "string \<Rightarrow> string \<Rightarrow> ('d, unit) svc" where
  "SendRenewalReminder orgId sid =
    bindS (SubscriptionRepo_FindById orgId sid) (\<lambda>s.
    Publish (sub_OrgId s) ''subscription.renewal_reminder'' (MsgSubscription s))"

definition MarkAsError :: "subscription \<Rightarrow> string \<Rightarrow> ('d, unit) svc" where
  "MarkAsError s cause =
    bindS (SubscriptionRepo_Update (s\<lparr>sub_Status := SubscriptionStatusError,
             sub_Metadata := (sub_Metadata s)(''error'' \<mapsto> cause)\<rparr>)) (\<lambda>_. retS ())"

definition SubscriptionService_GetDetails :: "string \<Rightarrow> string \<Rightarrow> ('d, subscription \<times> customer) svc" where
  "SubscriptionService_GetDetails orgId sid =
    bindS (SubscriptionRepo_FindById orgId sid) (\<lambda>s.
    bindS (CustomerRepo_FindById orgId (sub_CustomerId s)) (\<lambda>c. retS (s, c)))"

section \<open>What the handlers do to the database\<close>

lemma invoice_transition_rows:
  assumes "invoice_transition o1 i (transition_to st) w = (Inr j, w1)"
  shows "\<exists>old t. invoice_at (w_db w) (o1, i) = Some old \<and> inv_Status old \<in> {InvoiceStatusDraft, InvoiceStatusOpen} \<and>
    inv_key old = (o1, i) \<and> j = inv_stored old (old\<lparr>inv_Status := st, inv_UpdatedAt := t\<rparr>) \<and> invoice_at (w_db w1) (o1, i) = Some j \<and>
    w_db w1 = (w_db w)\<lparr>t_invoices := update_row inv_key inv_merge (old\<lparr>inv_Status := st, inv_UpdatedAt := t\<rparr>) (t_invoices (w_db w))\<rparr>"
proof -
  from assms obtain old w2 k t where f: "InvoiceRepo_FindById o1 i w = (Inr old, w2)"
    and k: "transition_to st old = Inr k"
    and u: "InvoiceRepo_Update (k\<lparr>inv_UpdatedAt := t\<rparr>) (w2\<lparr>w_ticks := Suc (w_ticks w2)\<rparr>) = (Inr j, w1)"
    unfolding invoice_transition_def by (elim bindS_InrE) (auto simp: bindS_Inr)
  note old = invoice_load_ok[OF f]
  have k': "k = old\<lparr>inv_Status := st\<rparr>" "inv_Status old \<in> {InvoiceStatusDraft, InvoiceStatusOpen}"
    using transition_to_Inr[OF k] by auto
  have key: "inv_key (k\<lparr>inv_UpdatedAt := t\<rparr>) = (o1, i)" using old(3) by (simp add: k' inv_key_def)
  from InvoiceRepo_Update_ok[OF u] old k'(2) show ?thesis
    unfolding key by (intro exI[of _ old] exI[of _ t] conjI) (auto simp: k')
qed

lemma invoice_transition_ok:
  assumes "invoice_transition o1 i (transition_to st) w = (Inr j, w1)"
  shows "\<exists>old rows. invoice_at (w_db w) (o1, i) = Some old \<and> inv_Status old \<in> {InvoiceStatusDraft, InvoiceStatusOpen} \<and>
    w_db w1 = (w_db w)\<lparr>t_invoices := rows\<rparr> \<and> invoice_at (w_db w1) (o1, i) = Some j \<and>
    inv_Status j = st \<and> inv_Total j = inv_Total old \<and> inv_key j = (o1, i)"
  using invoice_transition_rows[OF assms] by (auto simp: inv_stored_def inv_key_def)

text \<open>The primary key of the invoices.\<close>

definition invoices_distinct :: "'d db \<Rightarrow> bool" where
  "invoices_distinct db \<longleftrightarrow> distinct (map inv_key (t_invoices db))"

lemma distinct_find: "distinct (map key rows) \<Longrightarrow> find P rows = Some r \<Longrightarrow> find_row key (key r) rows = Some r"
proof -
  assume d: "distinct (map key rows)" and f: "find P rows = Some r"
  have r: "r \<in> set rows" using f by (auto simp: find_Some_iff)
  then obtain q where q: "find_row key (key r) rows = Some q" by (cases "find_row key (key r) rows") (auto simp: find_row_None)
  then show ?thesis using find_row_key[OF q] r d by (auto simp: distinct_map dest: inj_onD)
qed

lemma cycle_invoice_cong: "t_invoices a = t_invoices b \<Longrightarrow> t_invoice_lines a = t_invoice_lines b \<Longrightarrow>
    cycle_invoice a o1 sid c = cycle_invoice b o1 sid c"
  by (simp add: cycle_invoice_def hydrate_def[abs_def] invoice_lines_def)

text \<open>The invoice of a cycle is the row of its key, and a transition moves its status only.\<close>

lemma cycle_invoice_at:
  assumes "invoices_distinct db" and "cycle_invoice db o1 sid c = Some i"
  shows "invoice_at db (o1, inv_Id i) = Some i"
proof -
  from assms(2) obtain r where f: "find (\<lambda>i. inv_OrgId i = o1 \<and> col_eq (inv_SubscriptionId i) sid \<and> inv_Cycle i = c) (t_invoices db) = Some r"
    and i: "i = hydrate db r" by (auto simp: cycle_invoice_def)
  have "inv_OrgId r = o1" using f by (auto simp: find_Some_iff)
  then show ?thesis using distinct_find[OF assms(1)[unfolded invoices_distinct_def] f] i by (simp add: invoice_at_def inv_key_def hydrate_def)
qed

lemma transition_distinct:
  assumes "invoice_transition o1 i (transition_to st) w = (Inr j, w1)" and "invoices_distinct (w_db w)"
  shows "invoices_distinct (w_db w1)"
proof -
  have "map inv_key (update_row inv_key inv_merge r rows) = map inv_key rows" for r :: "'a invoice" and rows
    by (rule update_row_keys) (simp add: inv_key_def inv_merge_def)
  then show ?thesis using invoice_transition_rows[OF assms(1)] assms(2) by (auto simp: invoices_distinct_def)
qed

definition same_bill :: "'d invoice \<Rightarrow> invoice_status \<Rightarrow> 'd invoice \<Rightarrow> bool" where
  "same_bill i st j \<longleftrightarrow> inv_Id j = inv_Id i \<and> inv_Total j = inv_Total i \<and> inv_LineItems j = inv_LineItems i \<and> inv_Status j = st"

lemma transition_cycle:
  assumes "invoice_transition o1 (inv_Id i) (transition_to st) w = (Inr j, w1)" and "invoices_distinct (w_db w)"
    and "cycle_invoice (w_db w) o1 sid c = Some i"
  shows "inv_Status i \<in> {InvoiceStatusDraft, InvoiceStatusOpen} \<and>
    (\<exists>j1. cycle_invoice (w_db w1) o1 sid c = Some j1 \<and> same_bill i st j1)"
proof -
  let ?P = "\<lambda>i. inv_OrgId i = o1 \<and> col_eq (inv_SubscriptionId i) sid \<and> inv_Cycle i = c"
  from assms(3) obtain r where f: "find ?P (t_invoices (w_db w)) = Some r" and i: "i = hydrate (w_db w) r" by (auto simp: cycle_invoice_def)
  from invoice_transition_rows[OF assms(1)] obtain old t where old: "invoice_at (w_db w) (o1, inv_Id i) = Some old"
    "inv_Status old \<in> {InvoiceStatusDraft, InvoiceStatusOpen}"
    and db: "w_db w1 = (w_db w)\<lparr>t_invoices := update_row inv_key inv_merge (old\<lparr>inv_Status := st, inv_UpdatedAt := t\<rparr>) (t_invoices (w_db w))\<rparr>" by blast
  have o: "old = i" using old(1) cycle_invoice_at[OF assms(2,3)] by simp
  let ?r = "i\<lparr>inv_Status := st, inv_UpdatedAt := t\<rparr>"
  have "find ?P (update_row inv_key inv_merge ?r (t_invoices (w_db w))) = Some (inv_merge r ?r)"
    by (rule find_updated[OF f assms(2)[unfolded invoices_distinct_def]])
      (use f i in \<open>auto simp: inv_key_def inv_merge_def hydrate_def find_Some_iff\<close>)
  then show ?thesis using old(2) o db i by (auto simp: cycle_invoice_def hydrate_def inv_merge_def same_bill_def invoice_lines_def)
qed

lemmas mark_ok = invoice_transition_ok[of _ _ InvoiceStatusOpen, folded invoice_MarkOpen_def[abs_def]]
  invoice_transition_ok[of _ _ InvoiceStatusPaid, folded invoice_MarkPaid_def[abs_def]]
  invoice_transition_ok[of _ _ InvoiceStatusUncollectible, folded invoice_MarkUncollectible_def[abs_def]]

text \<open>What a charge handler writes once it has the invoice: a payment, the status of the
  invoice, the subscription's row and events; nothing else.\<close>

definition settled_charge ::
    "'d db \<Rightarrow> 'd db \<Rightarrow> string \<Rightarrow> payment \<Rightarrow> subscription \<Rightarrow> 'd outbox_event list \<Rightarrow> bool" where
  "settled_charge db db1 orgId p s1 evs \<longleftrightarrow>
    t_payments db1 = t_payments db @ [p] \<and> t_outbox db1 = t_outbox db @ evs \<and>
    (\<forall>ev \<in> set evs. obx_OrgId ev = orgId) \<and>
    find_row sub_key (sub_key s1) (t_subscriptions db1) = Some s1 \<and>
    (\<exists>old. find_row sub_key (sub_key s1) (t_subscriptions db) = Some old \<and> s1 = sub_merge old s1) \<and>
    (\<forall>k. k \<noteq> sub_key s1 \<longrightarrow> find_row sub_key k (t_subscriptions db1) = find_row sub_key k (t_subscriptions db)) \<and>
    t_coupons db1 = t_coupons db \<and> t_discounts db1 = t_discounts db \<and> t_reservations db1 = t_reservations db \<and>
    t_orders db1 = t_orders db \<and> t_invoice_counters db1 = t_invoice_counters db \<and> t_invoice_lines db1 = t_invoice_lines db"

lemma charged_key [simp]: "sub_key (charged s a t) = sub_key s" "sub_OrgId (charged s a t) = sub_OrgId s"
  "sub_Id (charged s a t) = sub_Id s" "sub_Cycles (charged s a t) = sub_Cycles s"
  "sub_CyclesProcessed (charged s a t) = add64 (sub_CyclesProcessed s) 1"
  "sub_TotalRevenue (charged s a t) = add64 (sub_TotalRevenue s) a"
  "sub_Retries (charged s a t) = 0" "sub_NextRetryAt (charged s a t) = 0" "sub_LastCharge (charged s a t) = t"
  "sub_Status (charged s a t) = (if sub_Cycles s \<noteq> 0 \<and> sub_Cycles s \<le> add64 (sub_CyclesProcessed s) 1
     then SubscriptionStatusCompleted else SubscriptionStatusActive)"
  by (simp_all add: charged_def Let_def sub_key_def)

lemma sub_merge_fields [simp]: "sub_key (sub_merge old s) = sub_key s" "sub_merge old (sub_merge old s) = sub_merge old s"
  "sub_Status (sub_merge old s) = sub_Status s" "sub_Retries (sub_merge old s) = sub_Retries s"
  "sub_CyclesProcessed (sub_merge old s) = sub_CyclesProcessed s" "sub_TotalRevenue (sub_merge old s) = sub_TotalRevenue s"
  "sub_OrgId (sub_merge old s) = sub_OrgId s" "sub_Id (sub_merge old s) = sub_Id s"
  "sub_Cycles (sub_merge old s) = sub_Cycles s" "sub_NextRetryAt (sub_merge old s) = sub_NextRetryAt s"
  by (simp_all add: sub_merge_def sub_key_def)

lemma update_other_rows: "k \<noteq> sub_key s \<Longrightarrow>
    find_row sub_key k (update_row sub_key sub_merge s rows) = find_row sub_key k rows"
  using find_row_update[of sub_key s sub_merge k rows] by simp

lemma record_success_ok:
  assumes "record_success s i p w = (Inr s1, w1)"
  shows "\<exists>t evs old ivc. s1 = sub_merge old (charged s (inv_Total i) t) \<and>
    find_row sub_key (sub_key s) (t_subscriptions (w_db w)) = Some old \<and>
    settled_charge (w_db w) (w_db w1) (sub_OrgId s) p s1 evs \<and>
    map obx_Topic evs = (if sub_Status s1 = SubscriptionStatusCompleted then [''subscription.completed''] else []) @
      [''subscription.payment.charge.success''] \<and>
    obx_Payload (last evs) = MsgChargeSuccess (charged s (inv_Total i) t) p \<and>
    invoice_at (w_db w) (sub_OrgId s, inv_Id i) = Some ivc \<and> inv_Status ivc \<in> {InvoiceStatusDraft, InvoiceStatusOpen} \<and>
    map_option inv_Status (invoice_at (w_db w1) (sub_OrgId s, inv_Id i)) = Some InvoiceStatusPaid"
proof -
  from assms obtain p1 w2 j w3 t w4 w5 w6 w7 where
      a: "PaymentRepo_Create p w = (Inr p1, w2)"
    and b: "InvoiceService_MarkSettled (sub_OrgId s) (inv_Id i) w2 = (Inr (j :: 'a invoice), w3)"
    and c: "SubscriptionRepo_Update (charged s (inv_Total i) t) (w3\<lparr>w_ticks := Suc (w_ticks w3)\<rparr>) = (Inr s1, w4)"
    and d1: "(if sub_Status s1 = SubscriptionStatusExpired
           then Publish (sub_OrgId s) ''subscription.expired'' (MsgSubscription s1) else retS ()) w4 = (Inr (), w5)"
    and d2: "(if sub_Status s1 = SubscriptionStatusCompleted
           then Publish (sub_OrgId s) ''subscription.completed'' (MsgSubscription s1) else retS ()) w5 = (Inr (), w6)"
    and d3: "Publish (sub_OrgId s) ''subscription.payment.charge.success''
           (MsgChargeSuccess (charged s (inv_Total i) t) p1) w6 = (Inr (), w1)"
    unfolding record_success_def Let_def by (elim bindS_InrE) (auto simp: bindS_Inr cong: if_cong)
  note a' = PaymentRepo_Create_ok[OF a]
  from mark_ok(2)[OF b[unfolded InvoiceService_MarkSettled_def]] obtain ivc rows where
    b': "invoice_at (w_db w2) (sub_OrgId s, inv_Id i) = Some ivc" "inv_Status ivc \<in> {InvoiceStatusDraft, InvoiceStatusOpen}"
      "w_db w3 = (w_db w2)\<lparr>t_invoices := rows\<rparr>" "invoice_at (w_db w3) (sub_OrgId s, inv_Id i) = Some j"
      "inv_Status j = InvoiceStatusPaid" by auto
  from SubscriptionRepo_Update_ok[OF c] obtain old where
    c': "w_db w4 = (w_db w3)\<lparr>t_subscriptions := update_row sub_key sub_merge (charged s (inv_Total i) t) (t_subscriptions (w_db w3))\<rparr>"
      "find_row sub_key (sub_key s) (t_subscriptions (w_db w3)) = Some old" "s1 = sub_merge old (charged s (inv_Total i) t)"
      "find_row sub_key (sub_key s) (t_subscriptions (w_db w4)) = Some s1" by auto
  have st: "sub_Status s1 \<noteq> SubscriptionStatusExpired" by (simp add: c'(3))
  then have w5: "w5 = w4" using d1 by simp
  obtain evs2 where e2: "appended (w_db w5) (w_db w6) evs2" "\<forall>ev\<in>set evs2. obx_OrgId ev = sub_OrgId s"
    "map obx_Topic evs2 = (if sub_Status s1 = SubscriptionStatusCompleted then [''subscription.completed''] else [])"
  proof (cases "sub_Status s1 = SubscriptionStatusCompleted")
    case True
    then obtain ev where "appended (w_db w5) (w_db w6) [ev]" "obx_Topic ev = ''subscription.completed''" "obx_OrgId ev = sub_OrgId s"
      using d2 Publish_appended by force
    then show ?thesis using that[of "[ev]"] True by simp
  next
    case False
    then show ?thesis using that[of "[]"] d2 by simp
  qed
  from Publish_appended[OF d3] obtain ev where e3: "appended (w_db w6) (w_db w1) [ev]"
    "obx_Topic ev = ''subscription.payment.charge.success''" "obx_OrgId ev = sub_OrgId s"
    "obx_Payload ev = MsgChargeSuccess (charged s (inv_Total i) t) p1" by auto
  have out: "w_db w1 = (w_db w4)\<lparr>t_outbox := t_outbox (w_db w4) @ evs2 @ [ev]\<rparr>"
    using appended_trans[OF e2(1) e3(1)] by (simp add: w5 appended_def)
  have at: "invoice_at (w_db w1) k = invoice_at (w_db w3) k" "invoice_at (w_db w2) k = invoice_at (w_db w) k" for k
    using a' c' by (auto intro!: invoice_at_cong simp: out)
  have "settled_charge (w_db w) (w_db w1) (sub_OrgId s) p s1 (evs2 @ [ev])"
    using a' b' c' e2 e3 update_other_rows[of _ "charged s (inv_Total i) t"]
    by (auto simp: settled_charge_def out)
  then show ?thesis
    using a' b' c' e2 e3 at by (intro exI[of _ t] exI[of _ "evs2 @ [ev]"] exI[of _ old] exI[of _ ivc] conjI) auto
qed

lemma Publish_events:
  "(if b then Publish o1 tp m else retS ()) w = (Inr u, w1) \<Longrightarrow>
    \<exists>evs. appended (w_db w) (w_db w1) evs \<and> (\<forall>ev\<in>set evs. obx_OrgId ev = o1) \<and> map obx_Topic evs = (if b then [tp] else [])"
  using Publish_appended[of o1 tp m w u w1] by (cases b) fastforce+

text \<open>The row after a failed charge, and the topic of its new status.\<close>

definition exhausted :: "retry_policy \<Rightarrow> subscription \<Rightarrow> bool" where
  "exhausted policy s \<longleftrightarrow> GetNextCharge policy s = 0"

definition gives_up :: "retry_policy \<Rightarrow> bool" where
  "gives_up policy \<longleftrightarrow> rtp_FailureAction policy = FailureActionMarkUnpaid \<or> rtp_FailureAction policy = FailureActionCancel"

definition failed_row :: "retry_policy \<Rightarrow> subscription \<Rightarrow> time \<Rightarrow> subscription" where
  "failed_row policy s t =
    (if \<not> exhausted policy s
     then s\<lparr>sub_Status := SubscriptionStatusPastDue, sub_NextRetryAt := GetNextCharge policy s, sub_Retries := add64 (sub_Retries s) 1\<rparr>
     else if rtp_FailureAction policy = FailureActionMarkUnpaid then s\<lparr>sub_Status := SubscriptionStatusUnpaid\<rparr>
     else if rtp_FailureAction policy = FailureActionCancel then SetCancelled s t else s)"

lemma failed_subscription_ok: "failed_subscription policy s w = (Inr s1, w1) \<Longrightarrow> w_db w1 = w_db w \<and> (\<exists>t. s1 = failed_row policy s t)"
  by (auto simp: failed_subscription_def failed_row_def exhausted_def Let_def bindS_Inr IsZero_def split: if_splits)

lemma failed_row_fields [simp]: "sub_key (failed_row policy s t) = sub_key s" "sub_OrgId (failed_row policy s t) = sub_OrgId s"
  "sub_Id (failed_row policy s t) = sub_Id s" "sub_CyclesProcessed (failed_row policy s t) = sub_CyclesProcessed s"
  "sub_TotalRevenue (failed_row policy s t) = sub_TotalRevenue s" "sub_Cycles (failed_row policy s t) = sub_Cycles s"
  "sub_Retries (failed_row policy s t) = (if exhausted policy s then sub_Retries s else add64 (sub_Retries s) 1)"
  "sub_Status (failed_row policy s t) = (if \<not> exhausted policy s then SubscriptionStatusPastDue
     else if rtp_FailureAction policy = FailureActionMarkUnpaid then SubscriptionStatusUnpaid
     else if rtp_FailureAction policy = FailureActionCancel then SubscriptionStatusCancelled else sub_Status s)"
  by (simp_all add: failed_row_def SetCancelled_def sub_key_def)

definition status_topics :: "subscription \<Rightarrow> string list" where
  "status_topics s = (case sub_Status s of
     SubscriptionStatusCancelled \<Rightarrow> [''subscription.cancelled''] | SubscriptionStatusUnpaid \<Rightarrow> [''subscription.unpaid'']
   | SubscriptionStatusExpired \<Rightarrow> [''subscription.expired'']
   | SubscriptionStatusPastDue \<Rightarrow> if sub_Retries s = 1 then [''subscription.past_due''] else [] | _ \<Rightarrow> [])"

lemma record_failure_ok:
  assumes "record_failure policy s c i p w = (Inr s1, w1)"
  shows "\<exists>t evs old. s1 = sub_merge old (failed_row policy s t) \<and>
    find_row sub_key (sub_key s) (t_subscriptions (w_db w)) = Some old \<and>
    settled_charge (w_db w) (w_db w1) (sub_OrgId s) p s1 evs \<and>
    map obx_Topic evs = [''subscription.payment.charge.failed'', ''payment.created''] @ status_topics s1 \<and>
    (exhausted policy s \<and> gives_up policy \<longrightarrow>
       (\<exists>ivc. invoice_at (w_db w) (sub_OrgId s, inv_Id i) = Some ivc \<and> inv_Status ivc \<in> {InvoiceStatusDraft, InvoiceStatusOpen}) \<and>
       map_option inv_Status (invoice_at (w_db w1) (sub_OrgId s, inv_Id i)) = Some InvoiceStatusUncollectible) \<and>
    (\<not> (exhausted policy s \<and> gives_up policy) \<longrightarrow> t_invoices (w_db w1) = t_invoices (w_db w))"
proof -
  let ?q = "IsZero (GetNextCharge policy s) \<and>
              (rtp_FailureAction policy = FailureActionMarkUnpaid \<or> rtp_FailureAction policy = FailureActionCancel)"
  have q: "?q \<longleftrightarrow> exhausted policy s \<and> gives_up policy" by (simp add: IsZero_def exhausted_def gives_up_def)
  from assms obtain p1 w2 s2 w3 w4 w5 w6 w7 where
      a: "PaymentRepo_Create p w = (Inr p1, w2)"
    and f: "failed_subscription policy s w2 = (Inr s2, w3)"
    and b: "(if ?q then bindS (InvoiceService_MarkUncollectible (sub_OrgId s) (inv_Id i)) (\<lambda>_ :: 'a invoice. retS ())
           else retS ()) w3 = (Inr (), w4)"
    and c: "SubscriptionRepo_Update s2 w4 = (Inr s1, w5)"
    and d1: "Publish (sub_OrgId s) ''subscription.payment.charge.failed'' (MsgChargeFailed s2 c) w5 = (Inr (), w6)"
    and d2: "Publish (sub_OrgId s) ''payment.created'' (MsgPayment p1) w6 = (Inr (), w7)"
    and d3: "(case sub_Status s1 of
             SubscriptionStatusCancelled \<Rightarrow> Publish (sub_OrgId s) ''subscription.cancelled'' (MsgSubscription s1)
           | SubscriptionStatusUnpaid \<Rightarrow> Publish (sub_OrgId s) ''subscription.unpaid'' (MsgSubscription s1)
           | SubscriptionStatusExpired \<Rightarrow> Publish (sub_OrgId s) ''subscription.expired'' (MsgSubscription s1)
           | SubscriptionStatusPastDue \<Rightarrow>
               if sub_Retries s2 = 1 then Publish (sub_OrgId s) ''subscription.past_due'' (MsgSubscription s1) else retS ()
           | _ \<Rightarrow> retS ()) w7 = (Inr (), w1)"
    unfolding record_failure_def by (elim bindS_InrE) (auto simp: bindS_Inr)
  note a' = PaymentRepo_Create_ok[OF a]
  from failed_subscription_ok[OF f] obtain t where f': "w_db w3 = w_db w2" "s2 = failed_row policy s t" by blast
  obtain rows where b': "w_db w4 = (w_db w3)\<lparr>t_invoices := rows\<rparr>"
    "exhausted policy s \<and> gives_up policy \<Longrightarrow>
       (\<exists>ivc. invoice_at (w_db w3) (sub_OrgId s, inv_Id i) = Some ivc \<and> inv_Status ivc \<in> {InvoiceStatusDraft, InvoiceStatusOpen}) \<and>
       map_option inv_Status (invoice_at (w_db w4) (sub_OrgId s, inv_Id i)) = Some InvoiceStatusUncollectible"
    "\<not> (exhausted policy s \<and> gives_up policy) \<Longrightarrow> rows = t_invoices (w_db w3)"
  proof (cases "exhausted policy s \<and> gives_up policy")
    case True
    then obtain j where "InvoiceService_MarkUncollectible (sub_OrgId s) (inv_Id i) w3 = (Inr (j :: 'a invoice), w4)"
      using b unfolding q by (auto simp: bindS_Inr)
    from mark_ok(3)[OF this[unfolded InvoiceService_MarkUncollectible_def]] True show ?thesis
      by (elim exE conjE) (rule that; force)
  next
    case False
    then have "w4 = w3" using b unfolding q by (simp split: if_splits)
    then show ?thesis using that[of "t_invoices (w_db w3)"] False by simp
  qed
  from SubscriptionRepo_Update_ok[OF c] obtain old where
    c': "w_db w5 = (w_db w4)\<lparr>t_subscriptions := update_row sub_key sub_merge (failed_row policy s t) (t_subscriptions (w_db w4))\<rparr>"
      "find_row sub_key (sub_key s) (t_subscriptions (w_db w4)) = Some old" "s1 = sub_merge old (failed_row policy s t)"
      "find_row sub_key (sub_key s) (t_subscriptions (w_db w5)) = Some s1" unfolding f'(2) by auto
  from Publish_appended[OF d1] obtain e1 where e1: "appended (w_db w5) (w_db w6) [e1]" "obx_OrgId e1 = sub_OrgId s"
      "obx_Topic e1 = ''subscription.payment.charge.failed''" by blast
  from Publish_appended[OF d2] obtain e2 where e2: "appended (w_db w6) (w_db w7) [e2]" "obx_OrgId e2 = sub_OrgId s"
      "obx_Topic e2 = ''payment.created''" by blast
  have r: "sub_Retries s2 = sub_Retries s1" by (simp add: c'(3) f'(2))
  obtain e3 where e3: "appended (w_db w7) (w_db w1) e3" "\<forall>ev\<in>set e3. obx_OrgId ev = sub_OrgId s"
    "map obx_Topic e3 = status_topics s1"
    using d3 unfolding r
  proof (cases "sub_Status s1")
    case SubscriptionStatusPastDue
    then show ?thesis
      using d3 that Publish_events[of "sub_Retries s1 = 1" "sub_OrgId s" "''subscription.past_due''" "MsgSubscription s1" w7 "()" w1] r
      by (fastforce simp: status_topics_def)
  qed (fastforce simp: status_topics_def dest: Publish_appended intro: that[of "[]"] that[of "[_]"])+
  have out: "w_db w1 = (w_db w5)\<lparr>t_outbox := t_outbox (w_db w5) @ [e1, e2] @ e3\<rparr>"
    using appended_trans[OF appended_trans[OF e1(1) e2(1)] e3(1)] by (simp add: appended_def)
  have at: "invoice_at (w_db w1) k = invoice_at (w_db w4) k" "invoice_at (w_db w3) k = invoice_at (w_db w) k" for k
    using a' c' f' by (auto intro!: invoice_at_cong simp: out)
  have "settled_charge (w_db w) (w_db w1) (sub_OrgId s) p s1 ([e1, e2] @ e3)"
    using a' b'(1) c' e1 e2 e3 f' update_other_rows[of _ "failed_row policy s t"]
    by (auto simp: settled_charge_def out)
  then show ?thesis
    using a' b' c' e1 e2 e3 f' at by (intro exI[of _ t] exI[of _ "[e1, e2] @ e3"] exI[of _ old] conjI) (auto simp: out)
qed

text \<open>Building an invoice writes only the invoice tables.\<close>

lemma build_effect:
  assumes "BuildForBillingPeriod E s w = (r, w1)"
  shows "w_db w1 = w_db w \<or> (\<exists>x. w_db w1 = stored (w_db w) (sub_OrgId s) x)"
  using BuildForBillingPeriod_cases[OF assms] build_period_ok by fastforce

definition besides_invoices :: "'d db \<Rightarrow> 'd db" where
  "besides_invoices db = db\<lparr>t_invoices := [], t_invoice_lines := [], t_invoice_counters := Map.empty\<rparr>"

lemma besides_fields: "besides_invoices a = besides_invoices b \<Longrightarrow>
    t_subscriptions a = t_subscriptions b \<and> t_payments a = t_payments b \<and> t_outbox a = t_outbox b \<and>
    t_coupons a = t_coupons b \<and> t_discounts a = t_discounts b \<and> t_orders a = t_orders b \<and> t_settings a = t_settings b"
  by (cases a; cases b) (simp add: besides_invoices_def)

lemma build_besides: "BuildForBillingPeriod E s w = (r, w1) \<Longrightarrow> besides_invoices (w_db w1) = besides_invoices (w_db w)"
  by (drule build_effect) (auto simp: besides_invoices_def stored_def)

lemma charge_payment_ok: "charge_payment s c i w = (Inr p, w1) \<Longrightarrow> w_db w1 = w_db w \<and> pay_OrgId p = sub_OrgId s \<and>
    pay_SubscriptionId p = sub_Id s \<and> pay_InvoiceId p = inv_Id i \<and> pay_NetAmount p = inv_Total i \<and>
    pay_Amount p = chg_Amount c \<and> pay_Status p = chg_Status c"
  by (auto simp: charge_payment_def bindS_Inr payment_SetMetadata_def)

text \<open>A handler that returns either skipped, or built the invoice and ran its transaction on it.\<close>

lemma HandleSuccess_cases:
  assumes "HandleSubscriptionChargeSuccess E s c w = (Inr s1, w1)"
  shows "sub_Id s \<noteq> [] \<and> (\<exists>cur. find_row sub_key (sub_key s) (t_subscriptions (w_db w)) = Some cur \<and>
    (sub_CyclesProcessed s < sub_CyclesProcessed cur \<and> s1 = cur \<and> w_db w1 = w_db w \<or>
     sub_CyclesProcessed cur \<le> sub_CyclesProcessed s \<and>
     (\<exists>w2 i w3 p w4 w5. w_db w2 = w_db w \<and> BuildForBillingPeriod E s w2 = (Inr i, w3) \<and> charge_payment s c i w3 = (Inr p, w4) \<and>
       record_success s i p (w4\<lparr>w_stmts := Suc (w_stmts w4), w_tx := True\<rparr>) = (Inr s1, w5) \<and> w_db w1 = w_db w5)))"
proof -
  from assms have "sub_Id s \<noteq> []" by (auto simp: HandleSubscriptionChargeSuccess_def split: if_splits)
  moreover from assms calculation obtain cur w2 where f: "SubscriptionRepo_FindById (sub_OrgId s) (sub_Id s) w = (Inr cur, w2)"
    and r: "(if sub_CyclesProcessed s < sub_CyclesProcessed cur then retS cur
       else bindS (BuildForBillingPeriod E s) (\<lambda>i. bindS (charge_payment s c i) (\<lambda>p. RunInTx (record_success s i p)))) w2 = (Inr s1, w1)"
    by (auto simp: HandleSubscriptionChargeSuccess_def bindS_Inr)
  note f' = SubscriptionRepo_FindById_ok[OF f]
  ultimately show ?thesis
  proof (cases "sub_CyclesProcessed s < sub_CyclesProcessed cur")
    case False
    with r obtain i w3 p w4 where "BuildForBillingPeriod E s w2 = (Inr i, w3)" "charge_payment s c i w3 = (Inr p, w4)"
      and tx: "RunInTx (record_success s i p) w4 = (Inr s1, w1)" by (auto simp: bindS_Inr)
    with RunInTx_Inr[OF tx] False f' \<open>sub_Id s \<noteq> []\<close> show ?thesis
      unfolding sub_key_def[of s] by (intro conjI exI[of _ cur]) (auto simp: not_less)
  qed (use f' r in \<open>auto simp: sub_key_def[of s]\<close>)
qed

lemma GetRetryPolicy_ok: "GetRetryPolicy E o1 w = (r, w1) \<Longrightarrow> w_db w1 = w_db w"
proof -
  have "obeys (same_on (\<lambda>d. d)) (GetRetryPolicy E o1)"
    unfolding GetRetryPolicy_def SettingRepo_FindById_def Let_def
    by (auto intro!: keep.obeys_tryS split: sum.split option.split)
  then show "GetRetryPolicy E o1 w = (r, w1) \<Longrightarrow> w_db w1 = w_db w" by (rule keeps)
qed

lemma HandleFailure_cases:
  assumes "HandleSubscriptionChargeFailure E s c w = (Inr s1, w1)"
  shows "sub_Id s \<noteq> [] \<and> (\<exists>cur. find_row sub_key (sub_key s) (t_subscriptions (w_db w)) = Some cur \<and>
    ((sub_CyclesProcessed s < sub_CyclesProcessed cur \<or> sub_Retries s < sub_Retries cur) \<and> s1 = cur \<and> w_db w1 = w_db w \<or>
     sub_CyclesProcessed cur \<le> sub_CyclesProcessed s \<and> sub_Retries cur \<le> sub_Retries s \<and>
     (\<exists>w2 i w3 p w4 policy w5 w6. w_db w2 = w_db w \<and> no_charge w w2 \<and> BuildForBillingPeriod E s w2 = (Inr i, w3) \<and>
       charge_payment s c i w3 = (Inr p, w4) \<and> GetRetryPolicy E (sub_OrgId s) w4 = (Inr policy, w5) \<and>
       record_failure policy s c i p (w5\<lparr>w_stmts := Suc (w_stmts w5), w_tx := True\<rparr>) = (Inr s1, w6) \<and> w_db w1 = w_db w6)))"
proof -
  from assms have "sub_Id s \<noteq> []" by (auto simp: HandleSubscriptionChargeFailure_def split: if_splits)
  moreover from assms calculation obtain cur w2 where f: "SubscriptionRepo_FindById (sub_OrgId s) (sub_Id s) w = (Inr cur, w2)"
    and r: "(if sub_CyclesProcessed s < sub_CyclesProcessed cur \<or> sub_Retries s < sub_Retries cur then retS cur
       else bindS (BuildForBillingPeriod E s) (\<lambda>i. bindS (charge_payment s c i) (\<lambda>p.
         bindS (GetRetryPolicy E (sub_OrgId s)) (\<lambda>policy. RunInTx (record_failure policy s c i p))))) w2 = (Inr s1, w1)"
    by (auto simp: HandleSubscriptionChargeFailure_def bindS_Inr)
  note f' = SubscriptionRepo_FindById_ok[OF f]
  have q: "no_charge w w2" using f by (intro silentQ[where m = "SubscriptionRepo_FindById (sub_OrgId s) (sub_Id s)"]) (simp_all add: SubscriptionRepo_FindById_def)
  ultimately show ?thesis
  proof (cases "sub_CyclesProcessed s < sub_CyclesProcessed cur \<or> sub_Retries s < sub_Retries cur")
    case False
    with r obtain i w3 p w4 policy w5 where "BuildForBillingPeriod E s w2 = (Inr i, w3)" "charge_payment s c i w3 = (Inr p, w4)"
      "GetRetryPolicy E (sub_OrgId s) w4 = (Inr policy, w5)"
      and tx: "RunInTx (record_failure policy s c i p) w5 = (Inr s1, w1)" by (auto simp: bindS_Inr)
    moreover from RunInTx_Inr[OF tx] obtain w6 where
      "record_failure policy s c i p (w5\<lparr>w_stmts := Suc (w_stmts w5), w_tx := True\<rparr>) = (Inr s1, w6)" "w_db w1 = w_db w6"
      by auto
    ultimately have "\<exists>w2 i w3 p w4 policy w5 w6. w_db w2 = w_db w \<and> no_charge w w2 \<and> BuildForBillingPeriod E s w2 = (Inr i, w3) \<and>
       charge_payment s c i w3 = (Inr p, w4) \<and> GetRetryPolicy E (sub_OrgId s) w4 = (Inr policy, w5) \<and>
       record_failure policy s c i p (w5\<lparr>w_stmts := Suc (w_stmts w5), w_tx := True\<rparr>) = (Inr s1, w6) \<and> w_db w1 = w_db w6"
      using f' q by blast
    with False f' \<open>sub_Id s \<noteq> []\<close> show ?thesis
      unfolding sub_key_def[of s] by (intro conjI exI[of _ cur]) (simp_all add: not_less)
  qed (use f' r in \<open>auto simp: sub_key_def[of s]\<close>)
qed

text \<open>The transaction of a handler, seen from the database the handler started in.\<close>

lemma success_applied:
  assumes "HandleSubscriptionChargeSuccess E s c w = (Inr s1, w1)"
    and "find_row sub_key (sub_key s) (t_subscriptions (w_db w)) = Some cur" and "sub_CyclesProcessed cur \<le> sub_CyclesProcessed s"
  shows "\<exists>db i p t evs. besides_invoices db = besides_invoices (w_db w) \<and>
    cycle_invoice db (sub_OrgId s) (sub_Id s) (sub_CyclesProcessed s) = Some i \<and>
    s1 = sub_merge cur (charged s (inv_Total i) t) \<and> settled_charge db (w_db w1) (sub_OrgId s) p s1 evs \<and>
    pay_SubscriptionId p = sub_Id s \<and> pay_InvoiceId p = inv_Id i \<and> pay_NetAmount p = inv_Total i \<and> pay_Amount p = chg_Amount c \<and>
    map obx_Topic evs = (if sub_Status s1 = SubscriptionStatusCompleted then [''subscription.completed''] else []) @
      [''subscription.payment.charge.success''] \<and>
    map_option inv_Status (invoice_at (w_db w1) (sub_OrgId s, inv_Id i)) = Some InvoiceStatusPaid"
proof -
  from HandleSuccess_cases[OF assms(1)] assms(2,3) obtain w2 i w3 p w4 w5 where
    id: "sub_Id s \<noteq> []" and w2: "w_db w2 = w_db w" and b: "BuildForBillingPeriod E s w2 = (Inr i, w3)"
    and p: "charge_payment s c i w3 = (Inr p, w4)"
    and r: "record_success s i p (w4\<lparr>w_stmts := Suc (w_stmts w4), w_tx := True\<rparr>) = (Inr s1, w5)" and w1: "w_db w1 = w_db w5"
    by auto
  note p' = charge_payment_ok[OF p]
  have bs: "besides_invoices (w_db w3) = besides_invoices (w_db w)" using build_besides[OF b] w2 by simp
  from record_success_ok[OF r] bs besides_fields[OF bs] assms(2) p' BuildForBillingPeriod_ok[OF b id] show ?thesis
    unfolding w1 by (intro exI[of _ "w_db w3"] exI[of _ i] exI[of _ p]) auto
qed

lemma failure_applied:
  assumes "HandleSubscriptionChargeFailure E s c w = (Inr s1, w1)"
    and "find_row sub_key (sub_key s) (t_subscriptions (w_db w)) = Some cur" and "sub_CyclesProcessed cur \<le> sub_CyclesProcessed s"
    and "sub_Retries cur \<le> sub_Retries s"
  shows "\<exists>w4 w5 policy db i p t evs. GetRetryPolicy E (sub_OrgId s) w4 = (Inr policy, w5) \<and> w_db w4 = db \<and>
    besides_invoices db = besides_invoices (w_db w) \<and>
    cycle_invoice db (sub_OrgId s) (sub_Id s) (sub_CyclesProcessed s) = Some i \<and>
    s1 = sub_merge cur (failed_row policy s t) \<and> settled_charge db (w_db w1) (sub_OrgId s) p s1 evs \<and>
    pay_SubscriptionId p = sub_Id s \<and> pay_InvoiceId p = inv_Id i \<and> pay_Amount p = chg_Amount c \<and>
    map obx_Topic evs = [''subscription.payment.charge.failed'', ''payment.created''] @ status_topics s1 \<and>
    (exhausted policy s \<and> gives_up policy \<longrightarrow>
       map_option inv_Status (invoice_at (w_db w1) (sub_OrgId s, inv_Id i)) = Some InvoiceStatusUncollectible) \<and>
    (\<not> (exhausted policy s \<and> gives_up policy) \<longrightarrow> t_invoices (w_db w1) = t_invoices db)"
proof -
  from HandleFailure_cases[OF assms(1)] assms(2-4) obtain w2 i w3 p w4 policy w5 w6 where
    id: "sub_Id s \<noteq> []" and w2: "w_db w2 = w_db w" and b: "BuildForBillingPeriod E s w2 = (Inr i, w3)"
    and p: "charge_payment s c i w3 = (Inr p, w4)" and g: "GetRetryPolicy E (sub_OrgId s) w4 = (Inr policy, w5)"
    and r: "record_failure policy s c i p (w5\<lparr>w_stmts := Suc (w_stmts w5), w_tx := True\<rparr>) = (Inr s1, w6)" and w1: "w_db w1 = w_db w6"
    by auto
  note p' = charge_payment_ok[OF p] and g' = GetRetryPolicy_ok[OF g]
  have bs: "besides_invoices (w_db w3) = besides_invoices (w_db w)" using build_besides[OF b] w2 by simp
  from record_failure_ok[OF r] bs besides_fields[OF bs] assms(2) p' g' g BuildForBillingPeriod_ok[OF b id] show ?thesis
    unfolding w1
    by (intro exI[of _ w4] exI[of _ w5] exI[of _ policy] exI[of _ "w_db w3"] exI[of _ i] exI[of _ p]) auto
qed

section \<open>Charges sent\<close>

lemma silent_usage [simp]: "silent (MeteredUsageForSubscription M s price start stop)"
proof -
  have q: "silent (usageQueryFor s p a b)" for p a b
    unfolding usageQueryFor_def MeterRepo_FindById_def CustomerRepo_FindById_def SubscriptionRepo_FindActiveMeteredForMeter_def
    by (auto intro!: silence split: sum.split)
  have fl: "silent (aggregate_flow D agg q)" for D agg q
    unfolding aggregate_flow_def event_store by (auto intro!: silence split: aggregation_type.split)
  have co: "silent (aggregateCarryOver D m q)" for D m q
    unfolding aggregateCarryOver_def event_store by (auto intro!: silence)
  have a: "silent (AggregateForPeriod M m q)" for m q
    unfolding AggregateForPeriod_def Let_def using fl co by (auto intro!: silence)
  have g: "silent (AggregateGrouped D q agg k)" for D q agg k
    unfolding AggregateGrouped_def by (auto intro!: silence)
  show ?thesis unfolding MeteredUsageForSubscription_def Let_def
    using q a g by (auto intro!: silence split: list.split)
qed

lemma silent_lines [simp]: "silent (add_line mk i)" "silent (add_usage E p u i)" "silent (add_base E p it i)"
  "silent (period_line E s i it)"
proof -
  show al: "silent (add_line mk i)" for mk i
    unfolding add_line_def by (auto intro!: silence)
  show "silent (add_usage E p u i)" for p u i
    unfolding add_usage_def by (auto intro!: silence al split: option.split)
  moreover show "silent (add_base E p it i)" for p it i
    unfolding add_base_def Let_def by (rule al)
  ultimately show "silent (period_line E s i it)"
    unfolding period_line_def PriceRepo_FindById_def by (auto intro!: silence)
qed

lemma silent_build [simp]: "silent (BuildForBillingPeriod E s)"
proof -
  have "silent (applyDiscounts E s m i)" for m i
    unfolding applyDiscounts_def DiscountRepo_ActiveForSubscription_def with_coupon_def CouponRepo_FindById_def
    by (auto intro!: silence)
  moreover have "silent (reference E o1 n)" for o1 n
    unfolding reference_def ResolveInvoiceSettings_def SettingRepo_FindById_def
    by (auto intro!: silence split: sum.split prod.split)
  ultimately show ?thesis
    unfolding BuildForBillingPeriod_def build_period_def number_and_create_def OrderRepo_FindOrderItemsBySubscriptionId_def
    by (auto intro!: silence split: sum.split)
qed

lemma silent_mark [simp]: "silent (InvoiceService_MarkOpen a b :: ('d, 'd invoice) svc)"
  unfolding InvoiceService_MarkOpen_def invoice_transition_def by (auto intro!: silence)

lemma silent_step:
  assumes "bindS m f w = (r, w1)" and "silent m"
  shows "(isl r \<and> w_charges w1 = w_charges w) \<or> (\<exists>x w2. m w = (Inr x, w2) \<and> w_charges w2 = w_charges w \<and> f x w2 = (r, w1))"
proof -
  obtain r0 w0 where m0: "m w = (r0, w0)" by (cases "m w")
  show ?thesis using assms(1) silentD[OF assms(2) m0] by (cases r0) (auto simp: bindS_def m0)
qed

text \<open>How a charge attempt runs: until the gateway is called nothing is sent, and what
  follows the call touches neither the database nor the gateway.\<close>

lemma call_gateway_cases:
  fixes i :: "'d invoice"
  assumes "call_gateway s i w = (r, w1)"
  shows "w_db w1 = w_db w \<and> (isl r \<and> w_charges w1 = w_charges w \<or>
    (\<exists>inp. w_charges w1 = w_charges w @ [inp] \<and> chi_SubscriptionId inp = sub_Id s \<and> chi_Amount inp = inv_Total i))"
proof
  have "obeys (same_on (\<lambda>d. d)) (charge_result_for s q)" for q
    unfolding charge_result_for_def by (auto intro!: keep.obeys_bind split: charge_payment_status.split)
  then have "obeys (same_on (\<lambda>d. d)) (call_gateway s i)"
    unfolding call_gateway_def CustomerRepo_FindById_def CustomerRepo_FindPaymentMethodById_def by (auto intro!: keep.obeys_bind)
  then show "w_db w1 = w_db w" using assms by (rule keeps)
  have sil: "silent (CustomerRepo_FindById a b)" "silent (CustomerRepo_FindPaymentMethodById a b)" "silent (charge_result_for s q)" for a b q
    by (auto simp: CustomerRepo_FindById_def CustomerRepo_FindPaymentMethodById_def charge_result_for_def
        intro!: silence split: charge_payment_status.split)
  show "isl r \<and> w_charges w1 = w_charges w \<or>
    (\<exists>inp. w_charges w1 = w_charges w @ [inp] \<and> chi_SubscriptionId inp = sub_Id s \<and> chi_Amount inp = inv_Total i)"
  proof -
    define k :: "gateway \<Rightarrow> customer \<Rightarrow> payment_method \<Rightarrow> ('d, charge_result) svc" where "k = (\<lambda>gw c pm. bindS (ChargePayment \<lparr> chi_OrgId = sub_OrgId s, chi_OrderId = sub_OrderId s,
        chi_SubscriptionId = sub_Id s, chi_Amount = inv_Total i, chi_Currency = sub_Currency s, chi_PspId = gw,
        chi_Method = pm, chi_Customer = c \<rparr>) (charge_result_for s))"
    have k: "\<exists>inp. w_charges w2 = w_charges w1 @ [inp] \<and> chi_SubscriptionId inp = sub_Id s \<and> chi_Amount inp = inv_Total i"
      if "k gw c pm w1 = (q, w2)" for gw c pm q w1 w2
      using that by (auto simp: k_def bindS_def ChargePayment_def dest!: silentD[OF sil(3)])
    have "call_gateway s i = bindS (NewGateway (sub_OrgId s) (sub_PspId s)) (\<lambda>gw.
        bindS (CustomerRepo_FindById (sub_OrgId s) (sub_CustomerId s)) (\<lambda>c.
        bindS (CustomerRepo_FindPaymentMethodById (sub_OrgId s) (sub_PaymentMethodId s)) (k gw c)))"
      by (simp add: call_gateway_def k_def)
    then show ?thesis
      using assms
      by simp (elim silent_step[THEN disjE] exE conjE; auto simp: sil dest!: k)
  qed
qed

lemma ChargeForBillingPeriod_cases:
  assumes "ChargeForBillingPeriod E s w = (r, w1)"
  shows "(isl r \<and> w_charges w1 = w_charges w) \<or> (\<exists>cur w2 i w3 j w4 inp.
    find_row sub_key (sub_key s) (t_subscriptions (w_db w)) = Some cur \<and> sub_key cur = sub_key s \<and> w_db w2 = w_db w \<and>
    BuildForBillingPeriod E cur w2 = (Inr i, w3) \<and>
    InvoiceService_MarkOpen (sub_OrgId cur) (inv_Id i) w3 = (Inr (j :: 'd invoice), w4) \<and>
    w_db w1 = w_db w4 \<and> w_charges w1 = w_charges w @ [inp] \<and> chi_SubscriptionId inp = sub_Id cur \<and> chi_Amount inp = inv_Total i)"
proof -
  have sil: "silent (SubscriptionRepo_FindById a b)" for a b by (simp add: SubscriptionRepo_FindById_def)
  show ?thesis
    using assms unfolding ChargeForBillingPeriod_def
  proof (elim silent_step[THEN disjE] exE conjE, goal_cases)
    case (7 cur w2 i w3 j w4)
    then show ?case
      using SubscriptionRepo_FindById_ok[OF 7(1)] call_gateway_cases[OF 7(7)] by (auto simp: sub_key_def)
  qed (auto simp: sil)
qed

lemma wrap_succ: "in64 (n + 1) \<Longrightarrow> add64 n 1 = n + 1"
  by (rule add64_exact)

text \<open>A repository read after a write of the same row.\<close>

lemma settled_row: "settled_charge db db1 o1 p s1 evs \<Longrightarrow> find_row sub_key (sub_key s1) (t_subscriptions db1) = Some s1"
  by (simp add: settled_charge_def)

lemma HandleSuccess_row:
  assumes "HandleSubscriptionChargeSuccess E s c w = (Inr s1, w1)" and "in64 (sub_CyclesProcessed s + 1)"
  shows "find_row sub_key (sub_key s) (t_subscriptions (w_db w1)) = Some s1 \<and> sub_CyclesProcessed s < sub_CyclesProcessed s1"
proof -
  from HandleSuccess_cases[OF assms(1)] obtain cur where
    cur: "find_row sub_key (sub_key s) (t_subscriptions (w_db w)) = Some cur"
    and c: "sub_CyclesProcessed s < sub_CyclesProcessed cur \<and> s1 = cur \<and> w_db w1 = w_db w \<or>
      sub_CyclesProcessed cur \<le> sub_CyclesProcessed s" by auto
  show ?thesis
  proof (cases "sub_CyclesProcessed cur \<le> sub_CyclesProcessed s")
    case True
    from success_applied[OF assms(1) cur True] obtain db i p t evs where
      s1: "s1 = sub_merge cur (charged s (inv_Total i) t)" and sc: "settled_charge db (w_db w1) (sub_OrgId s) p s1 evs"
      and "cycle_invoice db (sub_OrgId s) (sub_Id s) (sub_CyclesProcessed s) = Some i" by blast
    have "sub_key s1 = sub_key s" by (simp add: s1)
    then show ?thesis using settled_row[OF sc] wrap_succ[OF assms(2)] by (simp add: s1)
  qed (use c cur in auto)
qed

lemma HandleSuccess_Inl:
  assumes "HandleSubscriptionChargeSuccess E s c w = (Inl e, w1)"
  shows "besides_invoices (w_db w1) = besides_invoices (w_db w)"
proof -
  have f: "obeys (same_on besides_invoices) (SubscriptionRepo_FindById a b)" for a b
    by (simp add: SubscriptionRepo_FindById_def)
  have b: "obeys (same_on besides_invoices) (BuildForBillingPeriod E s)"
    by (rule obeysI) (simp add: same_on_def build_besides)
  have p: "obeys (same_on besides_invoices) (charge_payment s c i)" for i
    unfolding charge_payment_def by (auto intro!: keep.obeys_bind)
  show ?thesis
  proof (rule ccontr)
    assume n: "\<not> ?thesis"
    then obtain cur w2 where l: "SubscriptionRepo_FindById (sub_OrgId s) (sub_Id s) w = (Inr cur, w2)"
      and r: "bindS (BuildForBillingPeriod E s) (\<lambda>i. bindS (charge_payment s c i) (\<lambda>p. RunInTx (record_success s i p))) w2 = (Inl e, w1)"
      using assms
      by (auto simp: HandleSubscriptionChargeSuccess_def bindS_def dest: keeps[OF f] split: if_splits prod.splits sum.splits)
    from r n keeps[OF f l] keeps[OF b] keeps[OF p] RunInTx_Inl show False
      by (fastforce simp: bindS_def split: prod.splits sum.splits)
  qed
qed

section \<open>The invoice of the cycle, before and after\<close>

lemma build_draft:
  assumes "BuildForBillingPeriod E s w = (r, w1)"
  shows "w_db w1 = w_db w \<or> (\<exists>x. w_db w1 = stored (w_db w) (sub_OrgId s) x \<and> inv_OrgId x = sub_OrgId s \<and>
    inv_Status x = InvoiceStatusDraft \<and> inv_SubscriptionId x = sub_Id s \<and> inv_Cycle x = sub_CyclesProcessed s \<and>
    (\<forall>b\<in>set (t_invoices (w_db w)). \<not> inv_clash x b))"
  using BuildForBillingPeriod_cases[OF assms]
proof (elim disjE exE conjE)
  fix j w2
  assume db: "w_db w2 = w_db w" and b: "build_period E s w2 = (Inr j, w1)"
  from build_period_ok[OF b] obtain x iid now where
    d: "drafted (NewInvoice s (sub_CurrentPeriodStart s) (sub_CurrentPeriodEnd s) iid now) x"
    and x: "w_db w1 = stored (w_db w2) (sub_OrgId s) x" "\<forall>b\<in>set (t_invoices (w_db w2)). \<not> inv_clash x b" by blast
  have "inv_OrgId x = sub_OrgId s" "inv_SubscriptionId x = sub_Id s" "inv_Cycle x = sub_CyclesProcessed s" "inv_Status x = InvoiceStatusDraft"
    using d header_fields unfolding drafted_def by (fastforce simp: NewInvoice_def)+
  then show ?thesis using x db by auto
qed simp_all

lemma build_distinct: "BuildForBillingPeriod E s w = (r, w1) \<Longrightarrow> invoices_distinct (w_db w) \<Longrightarrow> invoices_distinct (w_db w1)"
  by (drule build_draft) (auto simp: invoices_distinct_def stored_def inv_key_def inv_clash_def)

text \<open>Recording the result of a charge moves the invoice it was given and no line of it.\<close>

lemma bill_kept:
  assumes "obeys (same_on t_invoices) m" and "obeys (same_on t_invoice_lines) m" and "m w = (r, w1)"
  shows "cycle_invoice (w_db w1) o1 sid c = cycle_invoice (w_db w) o1 sid c \<and> invoices_distinct (w_db w1) = invoices_distinct (w_db w)"
  using keeps[OF assms(1,3)] keeps[OF assms(2,3)] by (simp add: invoices_distinct_def cong: cycle_invoice_cong)

lemma bill_framed: "obeys (same_on t_invoices) (PaymentRepo_Create p)" "obeys (same_on t_invoice_lines) (PaymentRepo_Create p)"
  "obeys (same_on t_invoices) (SubscriptionRepo_Update s)" "obeys (same_on t_invoice_lines) (SubscriptionRepo_Update s)"
  "obeys (same_on t_invoices) (failed_subscription policy s)" "obeys (same_on t_invoice_lines) (failed_subscription policy s)"
  "obeys (same_on t_invoices) (Publish o1 topic x)" "obeys (same_on t_invoice_lines) (Publish o1 topic x)"
  unfolding PaymentRepo_Create_def PaymentRepo_FindById_def SubscriptionRepo_Update_def SubscriptionRepo_FindById_def
    failed_subscription_def Let_def
  by (auto intro!: keep.obeys_intros keep_exec keep_Publish split: option.splits)

lemma record_success_cycle:
  fixes w :: "'d world"
  assumes "record_success s i p w = (Inr s1, w1)" and "invoices_distinct (w_db w)"
    and "cycle_invoice (w_db w) (sub_OrgId s) sid c = Some i"
  shows "inv_Status i \<in> {InvoiceStatusDraft, InvoiceStatusOpen} \<and> invoices_distinct (w_db w1) \<and>
    (\<exists>j. cycle_invoice (w_db w1) (sub_OrgId s) sid c = Some j \<and> same_bill i InvoiceStatusPaid j)"
proof -
  define rest :: "payment \<Rightarrow> ('d, subscription) svc" where "rest p = bindS nowS (\<lambda>lastCharge.
      bindS (SubscriptionRepo_Update (charged s (inv_Total i) lastCharge)) (\<lambda>newSub.
      bindS (if sub_Status newSub = SubscriptionStatusExpired
             then Publish (sub_OrgId (charged s (inv_Total i) lastCharge)) ''subscription.expired'' (MsgSubscription newSub) else retS ()) (\<lambda>_.
      bindS (if sub_Status newSub = SubscriptionStatusCompleted
             then Publish (sub_OrgId (charged s (inv_Total i) lastCharge)) ''subscription.completed'' (MsgSubscription newSub) else retS ()) (\<lambda>_.
      bindS (Publish (sub_OrgId (charged s (inv_Total i) lastCharge)) ''subscription.payment.charge.success'' (MsgChargeSuccess (charged s (inv_Total i) lastCharge) p)) (\<lambda>_.
      retS newSub)))))" for p
  have k: "obeys (same_on t_invoices) (rest q)" "obeys (same_on t_invoice_lines) (rest q)" for q
    unfolding rest_def by (auto intro!: keep.obeys_intros bill_framed)
  from assms(1) obtain p1 w2 j w3 where a: "PaymentRepo_Create p w = (Inr p1, w2)"
    and b: "InvoiceService_MarkSettled (sub_OrgId s) (inv_Id i) w2 = (Inr (j :: 'd invoice), w3)" and c: "rest p1 w3 = (Inr s1, w1)"
    unfolding record_success_def Let_def rest_def[symmetric] by (elim bindS_InrE)
  note a' = bill_kept[OF bill_framed(1,2) a] and c' = bill_kept[OF k c]
  note b' = b[unfolded InvoiceService_MarkSettled_def invoice_MarkPaid_def[abs_def]]
  from transition_cycle[OF b'] transition_distinct[OF b'] a' c' assms(2,3) show ?thesis by auto
qed

lemma record_failure_cycle:
  fixes w :: "'d world"
  assumes "record_failure policy s c i p w = (Inr s1, w1)" and "invoices_distinct (w_db w)"
    and "cycle_invoice (w_db w) (sub_OrgId s) sid n = Some i"
  shows "invoices_distinct (w_db w1) \<and> (if exhausted policy s \<and> gives_up policy
    then inv_Status i \<in> {InvoiceStatusDraft, InvoiceStatusOpen} \<and>
      (\<exists>j. cycle_invoice (w_db w1) (sub_OrgId s) sid n = Some j \<and> same_bill i InvoiceStatusUncollectible j)
    else cycle_invoice (w_db w1) (sub_OrgId s) sid n = Some i)"
proof -
  define rest :: "payment \<Rightarrow> subscription \<Rightarrow> ('d, subscription) svc" where "rest p s1 = bindS (SubscriptionRepo_Update s1) (\<lambda>newSub.
    bindS (Publish (sub_OrgId s) ''subscription.payment.charge.failed'' (MsgChargeFailed s1 c)) (\<lambda>_.
    bindS (Publish (sub_OrgId s) ''payment.created'' (MsgPayment p)) (\<lambda>_.
    bindS (case sub_Status newSub of
             SubscriptionStatusCancelled \<Rightarrow> Publish (sub_OrgId s) ''subscription.cancelled'' (MsgSubscription newSub)
           | SubscriptionStatusUnpaid \<Rightarrow> Publish (sub_OrgId s) ''subscription.unpaid'' (MsgSubscription newSub)
           | SubscriptionStatusExpired \<Rightarrow> Publish (sub_OrgId s) ''subscription.expired'' (MsgSubscription newSub)
           | SubscriptionStatusPastDue \<Rightarrow>
               if sub_Retries s1 = 1 then Publish (sub_OrgId s) ''subscription.past_due'' (MsgSubscription newSub) else retS ()
           | _ \<Rightarrow> retS ()) (\<lambda>_.
    retS newSub))))" for p s1
  have k: "obeys (same_on t_invoices) (rest q x)" "obeys (same_on t_invoice_lines) (rest q x)" for q x
    unfolding rest_def by (auto intro!: keep.obeys_intros bill_framed split: subscription_status.split)
  have e: "IsZero (GetNextCharge policy s) \<and> (rtp_FailureAction policy = FailureActionMarkUnpaid \<or> rtp_FailureAction policy = FailureActionCancel)
      \<longleftrightarrow> exhausted policy s \<and> gives_up policy" by (simp add: IsZero_def exhausted_def gives_up_def)
  from assms(1) obtain p1 w2 s2 w3 w4 where a: "PaymentRepo_Create p w = (Inr p1, w2)" and f: "failed_subscription policy s w2 = (Inr s2, w3)"
    and b: "(if exhausted policy s \<and> gives_up policy
           then bindS (InvoiceService_MarkUncollectible (sub_OrgId s) (inv_Id i)) (\<lambda>_ :: 'd invoice. retS ())
           else retS ()) w3 = (Inr (), w4)" and r: "rest p1 s2 w4 = (Inr s1, w1)"
    unfolding record_failure_def e rest_def[symmetric] by (elim bindS_InrE) auto
  note a' = bill_kept[OF bill_framed(1,2) a] and f' = bill_kept[OF bill_framed(5,6) f] and r' = bill_kept[OF k r]
  show ?thesis
  proof (cases "exhausted policy s \<and> gives_up policy")
    case True
    then obtain j where "InvoiceService_MarkUncollectible (sub_OrgId s) (inv_Id i) w3 = (Inr (j :: 'd invoice), w4)"
      using b by (auto simp: bindS_Inr)
    note m = this[unfolded InvoiceService_MarkUncollectible_def invoice_MarkUncollectible_def[abs_def]]
    from transition_cycle[OF m] transition_distinct[OF m] a' f' r' assms(2,3) True show ?thesis by auto
  next
    case False
    then have "w4 = w3" using b by (simp split: if_splits)
    then show ?thesis using a' f' r' assms(2,3) False by auto
  qed
qed

lemma silent_transition [simp]: "silent (InvoiceService_MarkSettled a b :: ('d, 'd invoice) svc)"
    "silent (InvoiceService_MarkUncollectible a b :: ('d, 'd invoice) svc)"
  unfolding InvoiceService_MarkSettled_def InvoiceService_MarkUncollectible_def invoice_transition_def by (auto intro!: silence)

lemma silent_handlers: "silent (HandleSubscriptionChargeSuccess E s c)" "silent (HandleSubscriptionChargeFailure E s c)"
proof -
  have r: "silent (record_success s i p)" "silent (charge_payment s c i)" "silent (GetRetryPolicy E o1)" for i p o1
    unfolding record_success_def charge_payment_def GetRetryPolicy_def Let_def PaymentRepo_Create_def PaymentRepo_FindById_def
      SubscriptionRepo_Update_def SubscriptionRepo_FindById_def SettingRepo_FindById_def
    by (auto intro!: silence split: sum.split option.split)
  have f: "silent (record_failure policy s c i p)" for policy i p
    unfolding record_failure_def failed_subscription_def Let_def PaymentRepo_Create_def PaymentRepo_FindById_def
      SubscriptionRepo_Update_def SubscriptionRepo_FindById_def
    by (auto intro!: silence split: subscription_status.split)
  show "silent (HandleSubscriptionChargeSuccess E s c)" "silent (HandleSubscriptionChargeFailure E s c)"
    unfolding HandleSubscriptionChargeSuccess_def HandleSubscriptionChargeFailure_def SubscriptionRepo_FindById_def
    using r f by (auto intro!: silence)
qed

section \<open>Properties\<close>


text \<open>C12: The result of a successful charge counts once: when the handler runs again with the
  same snapshot (or a late failure of the same attempt arrives), it returns the stored
  subscription and changes nothing.\<close>

theorem charge_success_once:
  assumes "HandleSubscriptionChargeSuccess E s c w = (Inr s1, w1)" and "in64 (sub_CyclesProcessed s + 1)"
  shows "(HandleSubscriptionChargeSuccess E s c1 w1 = (Inr s2, w2) \<longrightarrow> s2 = s1 \<and> w_db w2 = w_db w1) \<and>
    (HandleSubscriptionChargeFailure E s c1 w1 = (Inr s3, w3) \<longrightarrow> s3 = s1 \<and> w_db w3 = w_db w1)"
proof -
  note row = HandleSuccess_row[OF assms]
  show ?thesis
    using HandleSuccess_cases[of E s c1 w1 s2 w2] HandleFailure_cases[of E s c1 w1 s3 w3] row by auto
qed

text \<open>A run of the success handler that fails may have built the draft of the cycle, and nothing else.\<close>

lemma HandleSuccess_failed:
  assumes "HandleSubscriptionChargeSuccess E s c w = (Inl e, w1)"
  shows "\<exists>new. t_invoices (w_db w1) = t_invoices (w_db w) @ new \<and> length new \<le> 1 \<and>
    (\<forall>i\<in>set new. inv_Status i = InvoiceStatusDraft \<and> inv_SubscriptionId i = sub_Id s \<and> inv_Cycle i = sub_CyclesProcessed s)"
proof -
  let ?S = "\<lambda>a b :: 'a db. \<exists>new. t_invoices b = t_invoices a @ new \<and> length new \<le> 1 \<and>
    (\<forall>i\<in>set new. inv_Status i = InvoiceStatusDraft \<and> inv_SubscriptionId i = sub_Id s \<and> inv_Cycle i = sub_CyclesProcessed s)"
  have same: "?S (w_db w) (w_db w1)" if "w_db w1 = w_db w" using that by simp
  have f: "obeys (same_on (\<lambda>d. d)) (SubscriptionRepo_FindById a b)" for a b by (simp add: SubscriptionRepo_FindById_def)
  have p: "obeys (same_on (\<lambda>d. d)) (charge_payment s c i)" for i
    unfolding charge_payment_def by (auto intro!: keep.obeys_bind)
  have built: "?S (w_db w) (w_db w1)"
    if b: "bindS (BuildForBillingPeriod E s) (\<lambda>i. bindS (charge_payment s c i) (\<lambda>p. RunInTx (record_success s i p))) w2 = (Inl e, w1)"
      and w2: "w_db w2 = w_db w" for w2
  proof -
    obtain r w3 where m: "BuildForBillingPeriod E s w2 = (r, w3)" by (metis surj_pair)
    have "w_db w1 = w_db w3"
      using b m keeps[OF p] RunInTx_Inl by (fastforce simp: bindS_def split: prod.splits sum.splits)
    then show ?thesis using build_draft[OF m] w2 by (auto simp: stored_def)
  qed
  obtain r2 w2 where l: "SubscriptionRepo_FindById (sub_OrgId s) (sub_Id s) w = (r2, w2)" by (metis surj_pair)
  show ?thesis
    using assms l keeps[OF f l] same built[of w2]
    by (auto simp: HandleSubscriptionChargeSuccess_def bindS_def split: if_splits sum.splits)
qed

lemma success_settles:
  assumes "HandleSubscriptionChargeSuccess E s c w = (Inr s1, w1)" and "invoices_distinct (w_db w)"
    and "find_row sub_key (sub_key s) (t_subscriptions (w_db w)) = Some cur" and "sub_CyclesProcessed cur \<le> sub_CyclesProcessed s"
  shows "\<exists>i j p t evs. cycle_invoice (w_db w1) (sub_OrgId s) (sub_Id s) (sub_CyclesProcessed s) = Some j \<and>
    same_bill i InvoiceStatusPaid j \<and> inv_Status i \<in> {InvoiceStatusDraft, InvoiceStatusOpen} \<and>
    (\<forall>i0. cycle_invoice (w_db w) (sub_OrgId s) (sub_Id s) (sub_CyclesProcessed s) = Some i0 \<longrightarrow> i0 = i) \<and>
    t_payments (w_db w1) = t_payments (w_db w) @ [p] \<and> t_outbox (w_db w1) = t_outbox (w_db w) @ evs \<and>
    pay_SubscriptionId p = sub_Id s \<and> pay_InvoiceId p = inv_Id i \<and> pay_NetAmount p = inv_Total i \<and> pay_Amount p = chg_Amount c \<and>
    pay_Status p = chg_Status c \<and> s1 = sub_merge cur (charged s (inv_Total i) t) \<and>
    find_row sub_key (sub_key s) (t_subscriptions (w_db w1)) = Some s1 \<and>
    map obx_Topic evs = (if sub_Status s1 = SubscriptionStatusCompleted then [''subscription.completed''] else []) @
      [''subscription.payment.charge.success'']"
proof -
  from HandleSuccess_cases[OF assms(1)] assms(3,4) obtain w2 i w3 p w4 w5 where
    id: "sub_Id s \<noteq> []" and w2: "w_db w2 = w_db w" and b: "BuildForBillingPeriod E s w2 = (Inr i, w3)"
    and p: "charge_payment s c i w3 = (Inr p, w4)"
    and r: "record_success s i p (w4\<lparr>w_stmts := Suc (w_stmts w4), w_tx := True\<rparr>) = (Inr s1, w5)" and w1: "w_db w1 = w_db w5"
    by auto
  note p' = charge_payment_ok[OF p]
  have bs: "besides_invoices (w_db w3) = besides_invoices (w_db w)" using build_besides[OF b] w2 by simp
  have ci: "cycle_invoice (w_db w4) (sub_OrgId s) (sub_Id s) (sub_CyclesProcessed s) = Some i" "invoices_distinct (w_db w4)"
    using BuildForBillingPeriod_ok[OF b id] build_distinct[OF b] assms(2) w2 p' by simp_all
  have old: "i0 = i" if "cycle_invoice (w_db w) (sub_OrgId s) (sub_Id s) (sub_CyclesProcessed s) = Some i0" for i0
    using BuildForBillingPeriod_cases[OF b] that w2 by auto
  from record_success_cycle[OF r] ci obtain j where j: "inv_Status i \<in> {InvoiceStatusDraft, InvoiceStatusOpen}"
    "cycle_invoice (w_db w5) (sub_OrgId s) (sub_Id s) (sub_CyclesProcessed s) = Some j" "same_bill i InvoiceStatusPaid j" by auto
  from record_success_ok[OF r] obtain t evs row where s1: "s1 = sub_merge row (charged s (inv_Total i) t)"
    and row: "find_row sub_key (sub_key s) (t_subscriptions (w_db w4)) = Some row"
    and sc: "settled_charge (w_db w4) (w_db w5) (sub_OrgId s) p s1 evs"
    and ev: "map obx_Topic evs = (if sub_Status s1 = SubscriptionStatusCompleted then [''subscription.completed''] else []) @
      [''subscription.payment.charge.success'']" by auto
  have "row = cur" using row assms(3) p' besides_fields[OF bs] by simp
  moreover have "find_row sub_key (sub_key s) (t_subscriptions (w_db w1)) = Some s1" using settled_row[OF sc] s1 w1 by simp
  moreover have "t_payments (w_db w1) = t_payments (w_db w) @ [p] \<and> t_outbox (w_db w1) = t_outbox (w_db w) @ evs"
    using sc besides_fields[OF bs] p' w1 by (simp add: settled_charge_def)
  ultimately show ?thesis using j old s1 ev p' w1
    by (intro exI[of _ i] exI[of _ j] exI[of _ p] exI[of _ t] exI[of _ evs] conjI) auto
qed

text \<open>C13: A successful charge that is applied writes exactly one payment, for the stored invoice of
  the cycle and with its total as the net amount, settles that invoice, advances the cycle by
  one and the revenue by the total, and publishes the success.  A run that fails writes no
  payment, event or subscription and settles no invoice: every invoice is as it was, and at
  most the draft of this cycle is new.  (Invoices have distinct keys.)\<close>

theorem charge_success_accounts:
  fixes w :: "'d world"
  assumes "invoices_distinct (w_db w)"
  shows "(HandleSubscriptionChargeSuccess E s c w = (Inl e, w1) \<longrightarrow>
      t_payments (w_db w1) = t_payments (w_db w) \<and> t_subscriptions (w_db w1) = t_subscriptions (w_db w) \<and>
      t_outbox (w_db w1) = t_outbox (w_db w) \<and>
      (\<exists>new. t_invoices (w_db w1) = t_invoices (w_db w) @ new \<and> length new \<le> 1 \<and>
        (\<forall>i\<in>set new. inv_Status i = InvoiceStatusDraft \<and> inv_SubscriptionId i = sub_Id s \<and> inv_Cycle i = sub_CyclesProcessed s))) \<and>
   (HandleSubscriptionChargeSuccess E s c w = (Inr s1, w1) \<longrightarrow>
      find_row sub_key (sub_key s) (t_subscriptions (w_db w)) = Some cur \<longrightarrow>
      sub_CyclesProcessed cur \<le> sub_CyclesProcessed s \<longrightarrow>
      (\<exists>j p evs. t_payments (w_db w1) = t_payments (w_db w) @ [p] \<and> t_outbox (w_db w1) = t_outbox (w_db w) @ evs \<and>
        cycle_invoice (w_db w1) (sub_OrgId s) (sub_Id s) (sub_CyclesProcessed s) = Some j \<and> inv_Status j = InvoiceStatusPaid \<and>
        (\<forall>i. cycle_invoice (w_db w) (sub_OrgId s) (sub_Id s) (sub_CyclesProcessed s) = Some i \<longrightarrow>
           inv_Id j = inv_Id i \<and> inv_Total j = inv_Total i \<and> inv_Status i \<in> {InvoiceStatusDraft, InvoiceStatusOpen}) \<and>
        pay_SubscriptionId p = sub_Id s \<and> pay_InvoiceId p = inv_Id j \<and> pay_NetAmount p = inv_Total j \<and>
        pay_Amount p = chg_Amount c \<and> pay_Status p = chg_Status c \<and>
        find_row sub_key (sub_key s) (t_subscriptions (w_db w1)) = Some s1 \<and>
        sub_CyclesProcessed s1 = add64 (sub_CyclesProcessed s) 1 \<and> sub_Retries s1 = 0 \<and>
        sub_TotalRevenue s1 = add64 (sub_TotalRevenue s) (inv_Total j) \<and>
        (sub_Status s1 = SubscriptionStatusCompleted \<longleftrightarrow> sub_Cycles s \<noteq> 0 \<and> sub_Cycles s \<le> add64 (sub_CyclesProcessed s) 1) \<and>
        map obx_Topic evs = (if sub_Status s1 = SubscriptionStatusCompleted then [''subscription.completed''] else []) @
          [''subscription.payment.charge.success'']))"
proof (intro conjI impI)
  assume run: "HandleSubscriptionChargeSuccess E s c w = (Inl e, w1)"
  from besides_fields[OF HandleSuccess_Inl[OF run]]
  show "t_payments (w_db w1) = t_payments (w_db w)" "t_subscriptions (w_db w1) = t_subscriptions (w_db w)"
    "t_outbox (w_db w1) = t_outbox (w_db w)" by simp_all
  show "\<exists>new. t_invoices (w_db w1) = t_invoices (w_db w) @ new \<and> length new \<le> 1 \<and>
        (\<forall>i\<in>set new. inv_Status i = InvoiceStatusDraft \<and> inv_SubscriptionId i = sub_Id s \<and> inv_Cycle i = sub_CyclesProcessed s)"
    by (rule HandleSuccess_failed[OF run])
next
  assume run: "HandleSubscriptionChargeSuccess E s c w = (Inr s1, w1)"
    and cur: "find_row sub_key (sub_key s) (t_subscriptions (w_db w)) = Some cur" "sub_CyclesProcessed cur \<le> sub_CyclesProcessed s"
  from success_settles[OF run assms cur] obtain i j p t evs where
    x: "cycle_invoice (w_db w1) (sub_OrgId s) (sub_Id s) (sub_CyclesProcessed s) = Some j" "same_bill i InvoiceStatusPaid j"
    "inv_Status i \<in> {InvoiceStatusDraft, InvoiceStatusOpen}"
    "\<forall>i0. cycle_invoice (w_db w) (sub_OrgId s) (sub_Id s) (sub_CyclesProcessed s) = Some i0 \<longrightarrow> i0 = i"
    "t_payments (w_db w1) = t_payments (w_db w) @ [p]" "t_outbox (w_db w1) = t_outbox (w_db w) @ evs"
    "pay_SubscriptionId p = sub_Id s" "pay_InvoiceId p = inv_Id i" "pay_NetAmount p = inv_Total i" "pay_Amount p = chg_Amount c"
    "pay_Status p = chg_Status c" "s1 = sub_merge cur (charged s (inv_Total i) t)"
    "find_row sub_key (sub_key s) (t_subscriptions (w_db w1)) = Some s1"
    "map obx_Topic evs = (if sub_Status s1 = SubscriptionStatusCompleted then [''subscription.completed''] else []) @
      [''subscription.payment.charge.success'']" by blast
  from x(12) have "sub_CyclesProcessed s1 = add64 (sub_CyclesProcessed s) 1 \<and> sub_Retries s1 = 0 \<and>
      sub_TotalRevenue s1 = add64 (sub_TotalRevenue s) (inv_Total i) \<and>
      (sub_Status s1 = SubscriptionStatusCompleted \<longleftrightarrow> sub_Cycles s \<noteq> 0 \<and> sub_Cycles s \<le> add64 (sub_CyclesProcessed s) 1)" by simp
  then show "\<exists>j p evs. t_payments (w_db w1) = t_payments (w_db w) @ [p] \<and> t_outbox (w_db w1) = t_outbox (w_db w) @ evs \<and>
        cycle_invoice (w_db w1) (sub_OrgId s) (sub_Id s) (sub_CyclesProcessed s) = Some j \<and> inv_Status j = InvoiceStatusPaid \<and>
        (\<forall>i. cycle_invoice (w_db w) (sub_OrgId s) (sub_Id s) (sub_CyclesProcessed s) = Some i \<longrightarrow>
           inv_Id j = inv_Id i \<and> inv_Total j = inv_Total i \<and> inv_Status i \<in> {InvoiceStatusDraft, InvoiceStatusOpen}) \<and>
        pay_SubscriptionId p = sub_Id s \<and> pay_InvoiceId p = inv_Id j \<and> pay_NetAmount p = inv_Total j \<and>
        pay_Amount p = chg_Amount c \<and> pay_Status p = chg_Status c \<and>
        find_row sub_key (sub_key s) (t_subscriptions (w_db w1)) = Some s1 \<and>
        sub_CyclesProcessed s1 = add64 (sub_CyclesProcessed s) 1 \<and> sub_Retries s1 = 0 \<and>
        sub_TotalRevenue s1 = add64 (sub_TotalRevenue s) (inv_Total j) \<and>
        (sub_Status s1 = SubscriptionStatusCompleted \<longleftrightarrow> sub_Cycles s \<noteq> 0 \<and> sub_Cycles s \<le> add64 (sub_CyclesProcessed s) 1) \<and>
        map obx_Topic evs = (if sub_Status s1 = SubscriptionStatusCompleted then [''subscription.completed''] else []) @
          [''subscription.payment.charge.success'']"
    using x unfolding same_bill_def by (intro exI[of _ j] exI[of _ p] exI[of _ evs]) auto
qed

text \<open>What the billing handlers promise, as a state machine on the status, the cycle and the
  retries of a subscription, under a retry policy.\<close>

type_synonym billing_view = "subscription_status \<times> int \<times> int"

definition billing_view :: "subscription \<Rightarrow> billing_view" where
  "billing_view s = (sub_Status s, sub_CyclesProcessed s, sub_Retries s)"

definition final_status :: "retry_policy \<Rightarrow> subscription_status \<Rightarrow> subscription_status" where
  "final_status policy st = (if rtp_FailureAction policy = FailureActionMarkUnpaid then SubscriptionStatusUnpaid
     else if rtp_FailureAction policy = FailureActionCancel then SubscriptionStatusCancelled else st)"

inductive billing_step :: "int \<Rightarrow> retry_policy \<Rightarrow> billing_view \<Rightarrow> billing_view \<Rightarrow> bool" for cycles policy where
  paid: "billing_step cycles policy (st, c, r)
    (if cycles \<noteq> 0 \<and> cycles \<le> c + 1 then SubscriptionStatusCompleted else SubscriptionStatusActive, c + 1, 0)"
| retry: "r < rtp_RetryAttempts policy \<Longrightarrow> billing_step cycles policy (st, c, r) (SubscriptionStatusPastDue, c, r + 1)"
| give_up: "rtp_RetryAttempts policy \<le> r \<Longrightarrow> billing_step cycles policy (st, c, r) (final_status policy st, c, r)"

inductive_cases billing_stepE: "billing_step cycles policy (st, c, r) v"

definition policy_ok :: "retry_policy \<Rightarrow> bool" where
  "policy_ok policy \<longleftrightarrow> in64 (rtp_RetryAttempts policy) \<and> 0 \<le> rtp_RetryPeriod policy \<and> rtp_RetryPeriod policy \<le> 10000"

text \<open>The policy in force for an organisation: the one it stored, if that can be decoded, and else the default.\<close>

definition default_retry_policy :: retry_policy where
  "default_retry_policy = \<lparr> rtp_RetryAttempts = 3, rtp_RetryInterval = RetryIntervalMinute, rtp_RetryPeriod = 4,
     rtp_FailureAction = FailureActionCancel \<rparr>"

definition retry_policy_of :: "'d billing_env \<Rightarrow> 'd db \<Rightarrow> string \<Rightarrow> retry_policy" where
  "retry_policy_of E db orgId =
    (case find_row set_key (orgId, ''subscriptions'', ''retry_policy'') (t_settings db) of
       None \<Rightarrow> default_retry_policy
     | Some r \<Rightarrow> (case (if set_Value r = [] then None else env_retry_policy E (set_Value r)) of
         None \<Rightarrow> default_retry_policy | Some policy \<Rightarrow> policy))"

lemma calm_no_charge: "calm w \<Longrightarrow> no_charge w w1 \<Longrightarrow> calm w1"
  by (simp add: calm_def no_charge_def steady_def)

lemma GetRetryPolicy_stored:
  assumes "GetRetryPolicy E o1 w = (Inr policy, w1)"
  shows "policy \<in> {retry_policy_of E (w_db w) o1, default_retry_policy} \<and> (calm w \<longrightarrow> policy = retry_policy_of E (w_db w) o1)"
  using assms
  by (auto simp: GetRetryPolicy_def tryS_def Let_def SettingRepo_FindById_def selOne_def sel_def stmt_def bindS_def translateErr_def
      retry_policy_of_def default_retry_policy_def calm_def split: prod.splits sum.splits if_splits option.splits)

lemma default_policy_ok [simp]: "policy_ok default_retry_policy"
  by (simp add: default_retry_policy_def policy_ok_def in64_def)

lemma settings_kept_failure: "obeys (same_on t_settings) (HandleSubscriptionChargeFailure E s c)"
proof -
  have b: "obeys (same_on t_settings) (BuildForBillingPeriod E s)"
    by (rule obeysI) (simp add: same_on_def besides_fields[OF build_besides])
  have f: "obeys (same_on t_settings) (failed_subscription policy s)" for policy
    unfolding failed_subscription_def Let_def by (auto intro!: keep.obeys_intros)
  have u: "obeys (same_on t_settings) (SubscriptionRepo_Update s1)" "obeys (same_on t_settings) (PaymentRepo_Create p)"
    "obeys (same_on t_settings) (InvoiceService_MarkUncollectible a j :: ('a, 'a invoice) svc)" "obeys (same_on t_settings) (Publish o1 tp m)"
    for s1 p a j o1 tp m
    unfolding SubscriptionRepo_Update_def SubscriptionRepo_FindById_def PaymentRepo_Create_def PaymentRepo_FindById_def
      InvoiceService_MarkUncollectible_def invoice_transition_def InvoiceRepo_Update_def InvoiceRepo_FindById_def with_lines_def
    by (auto intro!: keep.obeys_intros keep_exec keep_Publish split: option.splits)
  have r: "obeys (same_on t_settings) (record_failure policy s c i p)" for policy p and i :: "'a invoice"
    unfolding record_failure_def by (auto intro!: keep.obeys_intros f u split: subscription_status.split)
  have g: "obeys (same_on t_settings) (GetRetryPolicy E o1)" for o1
    by (rule obeysI) (simp add: same_on_def GetRetryPolicy_ok)
  show ?thesis
    unfolding HandleSubscriptionChargeFailure_def SubscriptionRepo_FindById_def charge_payment_def
    by (auto intro!: keep.obeys_intros b r g)
qed

text \<open>What a failure that is applied does to the row, under the policy of the organisation.\<close>

lemma charge_failure_step:
  assumes "HandleSubscriptionChargeFailure E s c w = (Inr s1, w1)"
    and "find_row sub_key (sub_key s) (t_subscriptions (w_db w)) = Some s"
  shows "\<exists>policy t. policy \<in> {retry_policy_of E (w_db w) (sub_OrgId s), default_retry_policy} \<and>
    (calm w \<longrightarrow> policy = retry_policy_of E (w_db w) (sub_OrgId s)) \<and> s1 = sub_merge s (failed_row policy s t) \<and>
    find_row sub_key (sub_key s) (t_subscriptions (w_db w1)) = Some s1 \<and>
    (invoices_distinct (w_db w) \<longrightarrow> invoices_distinct (w_db w1)) \<and>
    (invoices_distinct (w_db w) \<and> exhausted policy s \<and> gives_up policy \<longrightarrow>
      (\<forall>i. cycle_invoice (w_db w) (sub_OrgId s) (sub_Id s) (sub_CyclesProcessed s) = Some i \<longrightarrow> inv_Status i \<in> {InvoiceStatusDraft, InvoiceStatusOpen}) \<and>
      (\<exists>j. cycle_invoice (w_db w1) (sub_OrgId s) (sub_Id s) (sub_CyclesProcessed s) = Some j \<and> inv_Status j = InvoiceStatusUncollectible))"
proof -
  from HandleFailure_cases[OF assms(1)] assms(2) obtain w2 i w3 p w4 policy w5 w6 where
    id: "sub_Id s \<noteq> []" and w2: "w_db w2 = w_db w" "no_charge w w2" and b: "BuildForBillingPeriod E s w2 = (Inr i, w3)"
    and p: "charge_payment s c i w3 = (Inr p, w4)" and g: "GetRetryPolicy E (sub_OrgId s) w4 = (Inr policy, w5)"
    and r: "record_failure policy s c i p (w5\<lparr>w_stmts := Suc (w_stmts w5), w_tx := True\<rparr>) = (Inr s1, w6)" and w1: "w_db w1 = w_db w6"
    by auto
  have cp: "silent (charge_payment s c i)" unfolding charge_payment_def by (auto intro!: silence)
  then have q: "no_charge w w4" using w2(2) silentQ[OF silent_build b] silentQ[OF cp p] no_charge_trans by blast
  have bs: "besides_invoices (w_db w4) = besides_invoices (w_db w)" using build_besides[OF b] w2 charge_payment_ok[OF p] by simp
  have pol: "retry_policy_of E (w_db w4) (sub_OrgId s) = retry_policy_of E (w_db w) (sub_OrgId s)"
    using besides_fields[OF bs] by (simp add: retry_policy_of_def)
  have d: "w_db w5 = w_db w3" using GetRetryPolicy_ok[OF g] charge_payment_ok[OF p] by simp
  have ci: "cycle_invoice (w_db w5) (sub_OrgId s) (sub_Id s) (sub_CyclesProcessed s) = Some i"
    using BuildForBillingPeriod_ok[OF b id] d by simp
  have dist: "invoices_distinct (w_db w) \<Longrightarrow> invoices_distinct (w_db w5)" using build_distinct[OF b] w2 d by simp
  have old: "i0 = i" if "cycle_invoice (w_db w) (sub_OrgId s) (sub_Id s) (sub_CyclesProcessed s) = Some i0" for i0
    using BuildForBillingPeriod_cases[OF b] that w2 by auto
  from record_failure_ok[OF r] obtain t evs old where
    s1: "s1 = sub_merge old (failed_row policy s t)" "find_row sub_key (sub_key s) (t_subscriptions (w_db w5)) = Some old"
    and sc: "settled_charge (w_db w5) (w_db w6) (sub_OrgId s) p s1 evs" by auto
  have "old = s" using s1(2) assms(2) besides_fields[OF bs] GetRetryPolicy_ok[OF g] by simp
  moreover have "find_row sub_key (sub_key s) (t_subscriptions (w_db w1)) = Some s1" using settled_row[OF sc] s1(1) w1 by simp
  moreover have "policy \<in> {retry_policy_of E (w_db w) (sub_OrgId s), default_retry_policy} \<and>
    (calm w \<longrightarrow> policy = retry_policy_of E (w_db w) (sub_OrgId s))"
    using GetRetryPolicy_stored[OF g] calm_no_charge[OF _ q] by (auto simp: pol)
  moreover have "invoices_distinct (w_db w1) \<and> (exhausted policy s \<and> gives_up policy \<longrightarrow>
      inv_Status i \<in> {InvoiceStatusDraft, InvoiceStatusOpen} \<and>
      (\<exists>j. cycle_invoice (w_db w1) (sub_OrgId s) (sub_Id s) (sub_CyclesProcessed s) = Some j \<and> inv_Status j = InvoiceStatusUncollectible))"
    if "invoices_distinct (w_db w)"
    using record_failure_cycle[OF r, of "sub_Id s" "sub_CyclesProcessed s"] dist[OF that] ci w1 by (auto simp: same_bill_def split: if_splits)
  ultimately show ?thesis using old s1(1) by (intro exI[of _ policy] exI[of _ t] conjI) blast+
qed

lemma next_retry:
  assumes "0 < sub_RenewsAt s" and "0 \<le> sub_Retries s" and "policy_ok policy"
  shows "exhausted policy s \<longleftrightarrow> rtp_RetryAttempts policy \<le> sub_Retries s"
    and "sub_Retries s < rtp_RetryAttempts policy \<Longrightarrow> sub_RenewsAt s \<le> GetNextCharge policy s"
proof -
  have l: "sub_RenewsAt s \<le> GetNextCharge policy s" if r: "sub_Retries s < rtp_RetryAttempts policy"
  proof -
    have i: "in64 (rtp_RetryAttempts policy - sub_Retries s)" using r assms(2,3) by (simp add: policy_ok_def in64_def)
    have "0 \<le> rtp_RetryPeriod policy * retry_duration (rtp_RetryInterval policy)"
      using assms(3) retry_duration_bounds(1)[of "rtp_RetryInterval policy"]
      by (intro mult_nonneg_nonneg) (simp_all add: duration_defs policy_ok_def)
    then have "0 \<le> rtp_RetryPeriod policy * retry_duration (rtp_RetryInterval policy) div (rtp_RetryAttempts policy - sub_Retries s)"
      using r by (simp add: pos_imp_zdiv_nonneg_iff)
    then show ?thesis using GetNextCharge_eq[OF r _ _ i] assms(3) by (simp add: policy_ok_def)
  qed
  then show "sub_Retries s < rtp_RetryAttempts policy \<Longrightarrow> sub_RenewsAt s \<le> GetNextCharge policy s" .
  show "exhausted policy s \<longleftrightarrow> rtp_RetryAttempts policy \<le> sub_Retries s"
    using l assms(1) by (cases "sub_Retries s < rtp_RetryAttempts policy") (auto simp: exhausted_def GetNextCharge_def)
qed

lemma failed_view:
  assumes "0 < sub_RenewsAt s" and "0 \<le> sub_Retries s" and "policy_ok policy" and "in64 (sub_Retries s + 1)"
  shows "billing_step cycles policy (billing_view s) (billing_view (failed_row policy s t))"
proof (cases "exhausted policy s")
  case True
  then have "rtp_RetryAttempts policy \<le> sub_Retries s" using next_retry(1)[OF assms(1-3)] by blast
  then show ?thesis
    using billing_step.give_up[of policy "sub_Retries s" cycles "sub_Status s" "sub_CyclesProcessed s"] True
    by (simp add: billing_view_def final_status_def)
next
  case False
  then have "sub_Retries s < rtp_RetryAttempts policy" using next_retry(1)[OF assms(1-3)] by simp
  then show ?thesis using billing_step.retry False wrap_succ[OF assms(4)] by (simp add: billing_view_def)
qed

lemma charged_step:
  assumes "HandleSubscriptionChargeSuccess E s c w = (Inr s1, w1)"
    and "find_row sub_key (sub_key s) (t_subscriptions (w_db w)) = Some s" and "in64 (sub_CyclesProcessed s + 1)"
  shows "sub_CyclesProcessed s1 = sub_CyclesProcessed s + 1 \<and>
    billing_step (sub_Cycles s) policy (billing_view s) (billing_view s1)"
proof -
  from success_applied[OF assms(1,2)] obtain amount t where "s1 = sub_merge s (charged s amount t)" by auto
  then show ?thesis
    using billing_step.paid[of "sub_Cycles s" policy "sub_Status s" "sub_CyclesProcessed s" "sub_Retries s"] wrap_succ[OF assms(3)]
    by (simp add: billing_view_def)
qed

lemma unpaid_step:
  assumes "HandleSubscriptionChargeFailure E s c w = (Inr s1, w1)"
    and "find_row sub_key (sub_key s) (t_subscriptions (w_db w)) = Some s" and "0 < sub_RenewsAt s" and "0 \<le> sub_Retries s"
    and "in64 (sub_Retries s + 1)" and "policy_ok (retry_policy_of E (w_db w) (sub_OrgId s))"
  shows "\<exists>policy \<in> {retry_policy_of E (w_db w) (sub_OrgId s), default_retry_policy}.
    (calm w \<longrightarrow> policy = retry_policy_of E (w_db w) (sub_OrgId s)) \<and> sub_CyclesProcessed s1 = sub_CyclesProcessed s \<and>
    billing_step (sub_Cycles s) policy (billing_view s) (billing_view s1)"
proof -
  from charge_failure_step[OF assms(1,2)] obtain policy t where
    g: "policy \<in> {retry_policy_of E (w_db w) (sub_OrgId s), default_retry_policy}"
      "calm w \<longrightarrow> policy = retry_policy_of E (w_db w) (sub_OrgId s)" and s1: "s1 = sub_merge s (failed_row policy s t)" by blast
  have "policy_ok policy" using g(1) assms(6) by auto
  moreover have "billing_view s1 = billing_view (failed_row policy s t)" "sub_CyclesProcessed s1 = sub_CyclesProcessed s"
    by (simp_all add: s1 billing_view_def)
  ultimately show ?thesis using failed_view[OF assms(3,4) _ assms(5)] g by auto
qed

text \<open>C14: The charge handlers implement the billing state machine under the retry policy the
  organisation has stored (the default one, where it has stored none that can be read): run
  on the stored subscription, a success is the paid step, which advances the cycle; a failure keeps
  the cycle, and is a retry while that policy has attempts left and its final step
  afterwards.  Should the statement that
  reads the policy fail, the default one is used.  (The period of the policy lies between 0 and
  10000 intervals.)\<close>

theorem billing_refines:
  assumes "find_row sub_key (sub_key s) (t_subscriptions (w_db w)) = Some s" and "0 < sub_RenewsAt s" and "0 \<le> sub_Retries s"
    and "in64 (sub_CyclesProcessed s + 1)" and "in64 (sub_Retries s + 1)"
    and "policy = retry_policy_of E (w_db w) (sub_OrgId s)" and "policy_ok policy"
  shows "(HandleSubscriptionChargeSuccess E s c w = (Inr s1, w1) \<longrightarrow>
      sub_CyclesProcessed s1 = sub_CyclesProcessed s + 1 \<and>
      billing_step (sub_Cycles s) policy0 (billing_view s) (billing_view s1)) \<and>
    (HandleSubscriptionChargeFailure E s c w = (Inr s2, w2) \<longrightarrow> calm w \<longrightarrow>
      sub_CyclesProcessed s2 = sub_CyclesProcessed s \<and>
      billing_step (sub_Cycles s) policy (billing_view s) (billing_view s2)) \<and>
    (HandleSubscriptionChargeFailure E s c w = (Inr s2, w2) \<longrightarrow>
      sub_CyclesProcessed s2 = sub_CyclesProcessed s \<and>
      (\<exists>p\<in>{policy, default_retry_policy}. billing_step (sub_Cycles s) p (billing_view s) (billing_view s2)))"
proof -
  have "\<exists>p\<in>{policy, default_retry_policy}. (calm w \<longrightarrow> p = policy) \<and> sub_CyclesProcessed s2 = sub_CyclesProcessed s \<and>
      billing_step (sub_Cycles s) p (billing_view s) (billing_view s2)"
    if "HandleSubscriptionChargeFailure E s c w = (Inr s2, w2)"
    using unpaid_step[OF that assms(1-3,5)] assms(6,7) by simp
  then show ?thesis using charged_step[OF _ assms(1,4)] by blast
qed

text \<open>The state after k failures in a row of the subscription s under a policy of n attempts.\<close>

definition failed_times :: "retry_policy \<Rightarrow> subscription \<Rightarrow> nat \<Rightarrow> nat \<Rightarrow> 'd db \<Rightarrow> subscription \<Rightarrow> bool" where
  "failed_times policy s n k db s1 \<longleftrightarrow>
    find_row sub_key (sub_key s) (t_subscriptions db) = Some s1 \<and> sub_key s1 = sub_key s \<and> sub_CyclesProcessed s1 = sub_CyclesProcessed s \<and>
    sub_Retries s1 = int (min k n) \<and>
    (k \<le> n \<or> \<not> gives_up policy \<longrightarrow> sub_RenewsAt s1 = sub_RenewsAt s \<and>
      (if min k n = 0 then sub_Status s1 = sub_Status s
       else sub_Status s1 = SubscriptionStatusPastDue \<and> sub_RenewsAt s \<le> sub_NextRetryAt s1)) \<and>
    (n < k \<and> gives_up policy \<longrightarrow> k = n + 1 \<and> sub_Status s1 = final_status policy (sub_Status s) \<and>
      (\<exists>j. cycle_invoice db (sub_OrgId s) (sub_Id s) (sub_CyclesProcessed s) = Some j \<and> inv_Status j = InvoiceStatusUncollectible))"

lemma failed_row_renews: "\<not> (exhausted policy s \<and> gives_up policy) \<Longrightarrow> sub_RenewsAt (failed_row policy s t) = sub_RenewsAt s"
    "\<not> exhausted policy s \<Longrightarrow> sub_NextRetryAt (failed_row policy s t) = GetNextCharge policy s"
    "exhausted policy s \<Longrightarrow> \<not> gives_up policy \<Longrightarrow> failed_row policy s t = s"
  by (auto simp: failed_row_def gives_up_def)

lemma failed_once_more:
  assumes "failed_times policy s n k (w_db w) s1" and "HandleSubscriptionChargeFailure E s1 c w = (Inr s2, w2)"
    and "calm w" and "invoices_distinct (w_db w)" and "policy = retry_policy_of E (w_db w) (sub_OrgId s)" and "policy_ok policy"
    and "rtp_RetryAttempts policy = int n" and "0 < sub_RenewsAt s"
  shows "failed_times policy s n (k + 1) (w_db w2) s2"
proof -
  have k1: "sub_OrgId s1 = sub_OrgId s" "sub_Id s1 = sub_Id s" and key: "sub_key s1 = sub_key s"
    and row: "find_row sub_key (sub_key s1) (t_subscriptions (w_db w)) = Some s1"
    and cyc: "sub_CyclesProcessed s1 = sub_CyclesProcessed s" and ret: "sub_Retries s1 = int (min k n)"
    using assms(1) by (auto simp: failed_times_def sub_key_def)
  from charge_failure_step[OF assms(2) row] obtain t where s2: "s2 = sub_merge s1 (failed_row policy s1 t)"
    and row2: "find_row sub_key (sub_key s1) (t_subscriptions (w_db w2)) = Some s2"
    and bill: "exhausted policy s1 \<and> gives_up policy \<longrightarrow>
      (\<forall>i. cycle_invoice (w_db w) (sub_OrgId s) (sub_Id s) (sub_CyclesProcessed s) = Some i \<longrightarrow> inv_Status i \<in> {InvoiceStatusDraft, InvoiceStatusOpen}) \<and>
      (\<exists>j. cycle_invoice (w_db w2) (sub_OrgId s) (sub_Id s) (sub_CyclesProcessed s) = Some j \<and> inv_Status j = InvoiceStatusUncollectible)"
    using assms(3-5) k1 cyc by auto
  have n: "int n < 2 ^ 63" using assms(6,7) by (simp add: policy_ok_def in64_def)
  have live: "k \<le> n \<or> \<not> gives_up policy"
  proof (rule ccontr)
    assume "\<not> ?thesis"
    then obtain j where "gives_up policy" "sub_Retries s1 = int n" "inv_Status j = InvoiceStatusUncollectible"
      "cycle_invoice (w_db w) (sub_OrgId s) (sub_Id s) (sub_CyclesProcessed s) = Some j"
      using assms(1) ret by (auto simp: failed_times_def)
    moreover from this have "exhausted policy s1" using assms(7) by (simp add: exhausted_def GetNextCharge_def)
    ultimately show False using bill assms(4) by auto
  qed
  show ?thesis
  proof (cases "n \<le> k")
    case True
    then have ex: "exhausted policy s1" using ret assms(7) by (simp add: exhausted_def GetNextCharge_def)
    show ?thesis
    proof (cases "gives_up policy")
      case give: True
      then show ?thesis using True live ex bill row2 key cyc ret assms(4)
        by (auto simp: failed_times_def s2 final_status_def gives_up_def)
    next
      case False
      then have "s2 = s1" using failed_row_renews(3)[OF ex] by (simp add: s2 sub_merge_def)
      then show ?thesis using True False assms(1) row2 key by (auto simp: failed_times_def)
    qed
  next
    case False
    have r: "sub_RenewsAt s1 = sub_RenewsAt s" using assms(1) False by (auto simp: failed_times_def)
    have e: "\<not> exhausted policy s1" "sub_RenewsAt s1 \<le> GetNextCharge policy s1"
      using next_retry[of s1 policy] r ret assms(6-8) False by simp_all
    have "add64 (int k) 1 = int k + 1" using n False by (intro wrap_succ) (simp add: in64_def)
    moreover have "sub_RenewsAt (sub_merge s1 x) = sub_RenewsAt x" for x by (simp add: sub_merge_def)
    ultimately show ?thesis using False e r ret row2 key cyc
      by (auto simp: failed_times_def s2 failed_row_renews)
  qed
qed

lemma failed_runs:
  assumes "find_row sub_key (sub_key s) (t_subscriptions (w_db w)) = Some s" and "0 < sub_RenewsAt s" and "sub_Retries s = 0"
    and "calm w" and "invoices_distinct (w_db w)" and "policy = retry_policy_of E (w_db w) (sub_OrgId s)" and "policy_ok policy"
    and "rtp_RetryAttempts policy = int n"
  shows "foldS (HandleSubscriptionChargeFailure E) s cs w = (Inr s1, w1) \<Longrightarrow>
    failed_times policy s n (length cs) (w_db w1) s1 \<and> calm w1 \<and> invoices_distinct (w_db w1) \<and> t_settings (w_db w1) = t_settings (w_db w)"
proof (induction cs arbitrary: s1 w1 rule: rev_induct)
  case Nil
  then show ?case using assms by (simp add: failed_times_def)
next
  case (snoc c cs)
  then obtain s0 w0 where f: "foldS (HandleSubscriptionChargeFailure E) s cs w = (Inr s0, w0)"
    and h: "HandleSubscriptionChargeFailure E s0 c w0 = (Inr s1, w1)" by (auto simp: foldS_snoc bindS_Inr)
  note ih = snoc.IH[OF f]
  then have p: "policy = retry_policy_of E (w_db w0) (sub_OrgId s)" using assms(6) by (simp add: retry_policy_of_def)
  have row: "find_row sub_key (sub_key s0) (t_subscriptions (w_db w0)) = Some s0" using ih by (auto simp: failed_times_def)
  have "calm w1" using ih calm_no_charge silentQ[OF silent_handlers(2) h] by blast
  moreover have "t_settings (w_db w1) = t_settings (w_db w0)" by (rule keeps[OF settings_kept_failure h])
  moreover have "invoices_distinct (w_db w1)" using charge_failure_step[OF h row] ih by blast
  ultimately show ?case using failed_once_more[OF _ h _ _ p assms(7,8,2)] ih by simp
qed

text \<open>C15: Repeated failures of a subscription end as the retry policy of its organisation says.
  Under a policy of n retries, each of the first n failures books a retry, dated no
  earlier than the renewal date, and leaves the subscription past due.  No later failure
  books another retry.  Where the policy marks unpaid or cancels, failure n + 1 does so and makes
  the invoice of the cycle uncollectible, and no failure after it is accepted; where it leaves the
  subscription past due, it stays so.  (No statement fails for another
  reason, and invoices have distinct keys.)\<close>

theorem failures_end:
  assumes "foldS (HandleSubscriptionChargeFailure E) s cs w = (Inr s1, w1)"
    and "find_row sub_key (sub_key s) (t_subscriptions (w_db w)) = Some s" and "0 < sub_RenewsAt s" and "sub_Retries s = 0"
    and "calm w" and "invoices_distinct (w_db w)" and "policy = retry_policy_of E (w_db w) (sub_OrgId s)" and "policy_ok policy"
    and "rtp_RetryAttempts policy = int n"
  shows "find_row sub_key (sub_key s) (t_subscriptions (w_db w1)) = Some s1 \<and> sub_Retries s1 = int (min (length cs) n) \<and>
    (length cs \<le> n \<longrightarrow> cs \<noteq> [] \<longrightarrow> sub_Status s1 = SubscriptionStatusPastDue \<and> sub_RenewsAt s \<le> sub_NextRetryAt s1) \<and>
    (n < length cs \<longrightarrow> rtp_FailureAction policy \<in> {FailureActionMarkUnpaid, FailureActionCancel} \<longrightarrow>
      length cs = n + 1 \<and>
      sub_Status s1 = (if rtp_FailureAction policy = FailureActionCancel then SubscriptionStatusCancelled else SubscriptionStatusUnpaid) \<and>
      (\<exists>j. cycle_invoice (w_db w1) (sub_OrgId s) (sub_Id s) (sub_CyclesProcessed s) = Some j \<and> inv_Status j = InvoiceStatusUncollectible)) \<and>
    (n < length cs \<longrightarrow> rtp_FailureAction policy \<notin> {FailureActionMarkUnpaid, FailureActionCancel} \<longrightarrow>
      sub_Status s1 = (if n = 0 then sub_Status s else SubscriptionStatusPastDue))"
  using failed_runs[OF assms(2-9) assms(1)]
  by (auto simp: failed_times_def gives_up_def final_status_def min_def split: if_splits)

definition firsts :: "'a list \<Rightarrow> 'a list" where
  "firsts xs = rev (remdups (rev xs))"

lemma firsts_simps [simp]: "firsts [] = []" "firsts (xs @ [x]) = (if x \<in> set xs then firsts xs else firsts xs @ [x])"
    "set (firsts xs) = set xs" "distinct (firsts xs)"
  by (simp_all add: firsts_def)

lemma add_to_group_map:
  "distinct cs \<Longrightarrow> add_to_group c l (map (\<lambda>d. (d, g d)) cs) =
    (if c \<in> set cs then map (\<lambda>d. (d, if d = c then g d @ [l] else g d)) cs else map (\<lambda>d. (d, g d)) cs @ [(c, [l])])"
  by (induction cs) auto

lemma grouped:
  "fold (\<lambda>l gs. if P l then add_to_group (k l) l gs else gs) ls [] =
    map (\<lambda>c. (c, filter (\<lambda>l. P l \<and> k l = c) ls)) (firsts (map k (filter P ls)))"
proof (induction ls rule: rev_induct)
  case (snoc l ls)
  show ?case
  proof (cases "P l")
    case True
    let ?cs = "firsts (map k (filter P ls))"
    have none: "filter (\<lambda>x. P x \<and> k x = k l) ls = []" if "k l \<notin> set ?cs"
      using that by (fastforce simp: filter_empty_conv image_iff)
    show ?thesis using snoc True none by (auto simp: add_to_group_map intro!: map_cong)
  qed (simp add: snoc)
qed simp

text \<open>An order becomes one subscription per billing cadence of its recurring lines, in the
  order the cadences first appear; each holds all lines of its cadence in order, and lines
  that do not recur belong to none.\<close>

theorem one_subscription_per_cadence:
  "groupIntoSubscriptions ls =
    map (\<lambda>c. filter (\<lambda>l. IsRecurring (snd l) \<and> SubscriptionCadence (snd l) = c) ls)
      (firsts (map (\<lambda>l. SubscriptionCadence (snd l)) (filter (\<lambda>l. IsRecurring (snd l)) ls)))"
  unfolding groupIntoSubscriptions_def
  by (subst grouped[where P = "\<lambda>l. IsRecurring (snd l)" and k = "\<lambda>l. SubscriptionCadence (snd l)"]) simp

section \<open>Samples\<close>

definition minute_sub :: subscription where
  "minute_sub = metered_sub\<lparr>sub_BillingInterval := BillingIntervalMinute\<rparr>"

definition sample_charge :: charge_result where
  "sample_charge = \<lparr> chg_Psp = ''memory'', chg_Amount = 500, chg_Status = PaymentStatusSucceeded, chg_ErrorReason = [],
     chg_ErrorCode = [], chg_Currency = ''USD'', chg_PspId = ''x'', chg_Reference = ''y'', chg_ProcessedAt = 9, chg_RawData = [] \<rparr>"

lemma minute_sub_fields: "sub_Id minute_sub = ''s''" "sub_CyclesProcessed minute_sub = 1" "sub_Cycles minute_sub = 0"
    "sub_RenewsAt minute_sub = 130 * Day" "sub_Retries minute_sub = 0"
    "find_row sub_key (sub_key minute_sub) (t_subscriptions (w_db (billing_world minute_sub))) = Some minute_sub"
  by (simp_all add: minute_sub_def metered_sub_def sample_subscription_def billing_world_def world_of_def empty_db_def find_row_def)

lemma sample_success: "\<exists>s1 w1. HandleSubscriptionChargeSuccess sample_env minute_sub sample_charge (billing_world minute_sub) = (Inr s1, w1)"
proof -
  have "\<not> isl (fst (HandleSubscriptionChargeSuccess sample_env minute_sub sample_charge (billing_world minute_sub)))" by code_simp
  then show ?thesis by (metis isl_def old.sum.exhaust prod.exhaust_sel)
qed

theorem charge_success_once_witness:
  "\<exists>s1 w1. HandleSubscriptionChargeSuccess sample_env minute_sub sample_charge (billing_world minute_sub) = (Inr s1, w1) \<and>
    (\<forall>s2 w2. HandleSubscriptionChargeSuccess sample_env minute_sub sample_charge w1 = (Inr s2, w2) \<longrightarrow> w_db w2 = w_db w1)"
proof -
  obtain s1 w1 where r: "HandleSubscriptionChargeSuccess sample_env minute_sub sample_charge (billing_world minute_sub) = (Inr s1, w1)"
    using sample_success by blast
  have "in64 (sub_CyclesProcessed minute_sub + 1)" by (simp add: minute_sub_fields in64_def)
  from charge_success_once[OF r this] r show ?thesis by blast
qed

theorem charge_success_accounts_witness:
  "\<exists>s1 w1 p. HandleSubscriptionChargeSuccess sample_env minute_sub sample_charge (billing_world minute_sub) = (Inr s1, w1) \<and>
    sub_CyclesProcessed s1 = 2 \<and> t_payments (w_db w1) = [p] \<and> pay_Amount p = 500"
proof -
  obtain s1 w1 where r: "HandleSubscriptionChargeSuccess sample_env minute_sub sample_charge (billing_world minute_sub) = (Inr s1, w1)"
    using sample_success by blast
  have d: "invoices_distinct (w_db (billing_world minute_sub))"
    by (simp add: invoices_distinct_def billing_world_def world_of_def empty_db_def)
  have none: "t_payments (w_db (billing_world minute_sub)) = []" by (simp add: billing_world_def world_of_def empty_db_def)
  from charge_success_accounts[of "billing_world minute_sub" sample_env minute_sub sample_charge] r d
  obtain p where "t_payments (w_db w1) = t_payments (w_db (billing_world minute_sub)) @ [p]" "pay_Amount p = chg_Amount sample_charge"
    "sub_CyclesProcessed s1 = add64 (sub_CyclesProcessed minute_sub) 1" using minute_sub_fields by force
  then show ?thesis using r none by (auto simp: sample_charge_def minute_sub_fields wrap_succ in64_def)
qed

text \<open>An organisation that stored a policy of one retry, after which its subscriptions are unpaid.\<close>

definition strict_policy :: retry_policy where
  "strict_policy = \<lparr> rtp_RetryAttempts = 1, rtp_RetryInterval = RetryIntervalHour, rtp_RetryPeriod = 2, rtp_FailureAction = FailureActionMarkUnpaid \<rparr>"

definition strict_env :: "rat billing_env" where
  "strict_env = sample_env\<lparr>env_retry_policy := (\<lambda>txt. if txt = ''strict'' then Some strict_policy else None)\<rparr>"

definition strict_world :: "rat world" where
  "strict_world = (billing_world minute_sub)\<lparr>w_db := (w_db (billing_world minute_sub))
     \<lparr>t_settings := [\<lparr> set_OrgId = ''o'', set_ParentId = ''subscriptions'', set_Id = ''retry_policy'', set_Type = ''json'',
        set_Value = ''strict'', set_CreatedAt = 0, set_UpdatedAt = 0 \<rparr>]\<rparr>\<rparr>"

lemma strict_facts: "find_row sub_key (sub_key minute_sub) (t_subscriptions (w_db strict_world)) = Some minute_sub"
    "calm strict_world" "invoices_distinct (w_db strict_world)" "retry_policy_of strict_env (w_db strict_world) (sub_OrgId minute_sub) = strict_policy"
    "policy_ok strict_policy" "rtp_RetryAttempts strict_policy = int 1" "0 < sub_RenewsAt minute_sub"
  using minute_sub_fields
  by (simp_all add: strict_world_def calm_def billing_world_def world_of_def empty_db_def invoices_distinct_def retry_policy_of_def
      find_row_def set_key_def strict_env_def strict_policy_def policy_ok_def in64_def minute_sub_def metered_sub_def sample_subscription_def
      duration_defs)

theorem billing_refines_witness:
  "\<exists>s2 w2. HandleSubscriptionChargeFailure strict_env minute_sub sample_charge strict_world = (Inr s2, w2) \<and>
    billing_step 0 strict_policy (SubscriptionStatusActive, 1, 0) (billing_view s2)"
proof -
  have "\<not> isl (fst (HandleSubscriptionChargeFailure strict_env minute_sub sample_charge strict_world))" by code_simp
  then obtain s2 w2 where r: "HandleSubscriptionChargeFailure strict_env minute_sub sample_charge strict_world = (Inr s2, w2)"
    by (metis isl_def old.sum.exhaust prod.exhaust_sel)
  have "billing_view minute_sub = (SubscriptionStatusActive, 1, 0)"
    by (simp add: billing_view_def minute_sub_def metered_sub_def sample_subscription_def)
  with billing_refines[OF strict_facts(1,7) _ _ _ strict_facts(4)[symmetric] strict_facts(5)] r strict_facts(2)
  show ?thesis by (fastforce simp: minute_sub_fields in64_def)
qed

theorem failures_end_witness:
  "\<exists>s1 w1. foldS (HandleSubscriptionChargeFailure strict_env) minute_sub [sample_charge, sample_charge] strict_world = (Inr s1, w1) \<and>
    sub_Status s1 = SubscriptionStatusUnpaid \<and> sub_Retries s1 = 1"
proof -
  have "\<not> isl (fst (foldS (HandleSubscriptionChargeFailure strict_env) minute_sub [sample_charge, sample_charge] strict_world))" by code_simp
  then obtain s1 w1 where r: "foldS (HandleSubscriptionChargeFailure strict_env) minute_sub [sample_charge, sample_charge] strict_world = (Inr s1, w1)"
    by (metis isl_def old.sum.exhaust prod.exhaust_sel)
  have "sub_Retries minute_sub = 0" "rtp_FailureAction strict_policy = FailureActionMarkUnpaid" by (simp_all add: minute_sub_fields strict_policy_def)
  then show ?thesis
    using failures_end[OF r strict_facts(1,7) _ strict_facts(2,3) strict_facts(4)[symmetric] strict_facts(5,6)] r by simp
qed

section \<open>Findings\<close>

text \<open>A cancellation that arrives while a charge is in flight is lost: the success handler
  writes its snapshot over the cancelled row.\<close>

theorem cancellation_overwritten:
  assumes "HandleSubscriptionChargeSuccess E s c w = (Inr s1, w1)"
    and "find_row sub_key (sub_key s) (t_subscriptions (w_db w)) = Some cur"
    and "sub_Status cur = SubscriptionStatusCancelled" and "sub_CyclesProcessed cur = sub_CyclesProcessed s" and "sub_Cycles s = 0"
  shows "sub_Status s1 = SubscriptionStatusActive \<and> find_row sub_key (sub_key s1) (t_subscriptions (w_db w1)) = Some s1"
  using success_applied[OF assms(1,2)] assms(4,5) settled_row by fastforce

text \<open>Replaying the failure that used up the retries is not skipped: the counter did not move,
  and closing the invoice a second time is an error.\<close>

theorem exhausted_failure_replay:
  "case HandleSubscriptionChargeFailure sample_env (minute_sub\<lparr>sub_Retries := 3\<rparr>) sample_charge
      (billing_world (minute_sub\<lparr>sub_Retries := 3\<rparr>)) of
     (Inr s1, w1) \<Rightarrow> sub_Status s1 = SubscriptionStatusCancelled \<and>
       (case fst (HandleSubscriptionChargeFailure sample_env (minute_sub\<lparr>sub_Retries := 3\<rparr>) sample_charge w1) of
          Inl e \<Rightarrow> e = ErrInvalidInvoiceTransition | Inr _ \<Rightarrow> False)
   | _ \<Rightarrow> False"
  by code_simp

section \<open>A charge attempt\<close>

definition sample_address :: address where
  "sample_address = \<lparr> adr_FirstName = [], adr_LastName = [], adr_Email = [], adr_Phone = [], adr_Line1 = [], adr_Line2 = [],
     adr_City = [], adr_State = [], adr_PostalCode = [], adr_Country = [] \<rparr>"

definition sample_customer :: customer where
  "sample_customer = \<lparr> cus_OrgId = ''o'', cus_Id = ''c'', cus_ExternalId = [], cus_FirstName = [], cus_LastName = [], cus_Email = [],
     cus_Phone = [], cus_DefaultPaymentMethodId = ''pm'', cus_BillingAddress = sample_address, cus_Metadata = Map.empty,
     cus_CreatedAt = 0, cus_UpdatedAt = 0 \<rparr>"

definition sample_method :: payment_method where
  "sample_method = \<lparr> pmd_OrgId = ''o'', pmd_Id = ''pm'', pmd_Status = PaymentMethodStatusActive, pmd_Psp = ''memory'', pmd_Name = [],
     pmd_CustomerId = ''c'', pmd_BillingAddress = sample_address, pmd_Type = ''card'', pmd_Token = ''t'', pmd_Details = [],
     pmd_Metadata = Map.empty, pmd_ExpireAt = 0, pmd_CreatedAt = 0, pmd_UpdatedAt = 0 \<rparr>"

definition charging_world :: "rat world" where
  "charging_world = (billing_world minute_sub)\<lparr>w_db := (w_db (billing_world minute_sub))
     \<lparr>t_customers := [sample_customer], t_payment_methods := [sample_method]\<rparr>\<rparr>"


end
