(* ===== verification/Shop_Repositories.thy ===== *)
theory Shop_Repositories
  imports Tenancy
begin

text \<open>
  The repositories of the shop side: sessions, carts, products, customers and payment
  methods (session_repo.go, cart_repo.go, product_repo.go, customer_repo.go and
  payment_method_repo.go of src/internal/adapter/db/postgrespgx), with the tenant
  isolation of the writing ones.  A cart is stored without its totals; reading it
  computes them again (cart_row.go), and the last section says what is read after a write.
\<close>

section \<open>Sessions and carts\<close>

definition SessionRepo_FindById :: "string \<Rightarrow> string \<Rightarrow> ('d, session) svc" where
  "SessionRepo_FindById orgId sid = selOne (\<lambda>db. find_row (\<lambda>s. (ses_OrgId s, ses_Id s)) (orgId, sid) (t_sessions db))"

definition SessionRepo_Create :: "session \<Rightarrow> ('d, session) svc" where
  "SessionRepo_Create s =
    bindS (exec (\<lambda>db. map_option (\<lambda>rs. db\<lparr>t_sessions := rs\<rparr>)
      (insert_row (\<lambda>a b. ses_OrgId a = ses_OrgId b \<and> ses_Id a = ses_Id b) s (t_sessions db)))) (\<lambda>_.
    SessionRepo_FindById (ses_OrgId s) (ses_Id s))"

definition crt_key :: "cart \<Rightarrow> string \<times> string" where
  "crt_key c = (crt_OrgId c, crt_Id c)"

text \<open>The columns of a cart; its status and total are not among them.\<close>

definition cart_row :: "cart \<Rightarrow> cart" where
  "cart_row c = c\<lparr>crt_Status := [], crt_Total := 0\<rparr>"

definition CartRepo_FindById :: "'d decimal_ops \<Rightarrow> string \<Rightarrow> string \<Rightarrow> ('d, cart) svc" where
  "CartRepo_FindById D orgId cid =
    bindS (selOne (\<lambda>db. find_row crt_key (orgId, cid) (t_carts db))) (\<lambda>row. retS (cart_Calculate D row))"

definition CartRepo_Create :: "'d decimal_ops \<Rightarrow> cart \<Rightarrow> ('d, cart) svc" where
  "CartRepo_Create D c =
    bindS (exec (\<lambda>db. map_option (\<lambda>rs. db\<lparr>t_carts := rs\<rparr>)
      (insert_row (\<lambda>a b. crt_key a = crt_key b) (cart_row c) (t_carts db)))) (\<lambda>_.
    CartRepo_FindById D (crt_OrgId c) (crt_Id c))"

definition crt_merge :: "cart \<Rightarrow> cart \<Rightarrow> cart" where
  "crt_merge old c = (cart_row c)\<lparr>crt_CreatedAt := crt_CreatedAt old\<rparr>"

definition CartRepo_Update :: "'d decimal_ops \<Rightarrow> cart \<Rightarrow> ('d, cart) svc" where
  "CartRepo_Update D c =
    bindS (exec (\<lambda>db. Some (db\<lparr>t_carts := update_row crt_key crt_merge c (t_carts db)\<rparr>))) (\<lambda>_.
    CartRepo_FindById D (crt_OrgId c) (crt_Id c))"

section \<open>Products\<close>

definition pdt_key :: "product \<Rightarrow> string \<times> string" where
  "pdt_key p = (pdt_OrgId p, pdt_Id p)"

definition ProductRepo_FindById :: "string \<Rightarrow> string \<Rightarrow> ('d, product) svc" where
  "ProductRepo_FindById orgId pid = selOne (\<lambda>db. find_row pdt_key (orgId, pid) (t_products db))"

definition ProductRepo_Create :: "product \<Rightarrow> ('d, product) svc" where
  "ProductRepo_Create p =
    bindS (exec (\<lambda>db. map_option (\<lambda>rs. db\<lparr>t_products := rs\<rparr>)
      (insert_row (\<lambda>a b. pdt_key a = pdt_key b) p (t_products db)))) (\<lambda>_.
    ProductRepo_FindById (pdt_OrgId p) (pdt_Id p))"

definition pdt_merge :: "product \<Rightarrow> product \<Rightarrow> product" where
  "pdt_merge old p = p\<lparr>pdt_CreatedAt := pdt_CreatedAt old\<rparr>"

definition ProductRepo_Update :: "product \<Rightarrow> ('d, product) svc" where
  "ProductRepo_Update p =
    bindS (exec (\<lambda>db. Some (db\<lparr>t_products := update_row pdt_key pdt_merge p (t_products db)\<rparr>))) (\<lambda>_.
    ProductRepo_FindById (pdt_OrgId p) (pdt_Id p))"

section \<open>Customers and payment methods\<close>

text \<open>A violated unique index becomes a conflict; the other errors pass.\<close>

definition asConflictOnUnique :: "string \<Rightarrow> app_error \<Rightarrow> app_error" where
  "asConflictOnUnique msg e =
    (if e = InfraError ''constraint violation'' then NewCustomError ConflictError msg (Some e) else e)"

definition cus_clash :: "customer \<Rightarrow> customer \<Rightarrow> bool" where
  "cus_clash a b \<longleftrightarrow> cus_OrgId a = cus_OrgId b \<and>
     (cus_Id a = cus_Id b \<or> cus_Email a = cus_Email b \<or> col_eq (cus_ExternalId a) (cus_ExternalId b))"

definition CustomerRepo_Create :: "customer \<Rightarrow> ('d, customer) svc" where
  "CustomerRepo_Create c =
    bindS (mapErrS (asConflictOnUnique ''A customer with this email or external id already exists'')
      (exec (\<lambda>db. map_option (\<lambda>rs. db\<lparr>t_customers := rs\<rparr>) (insert_row cus_clash c (t_customers db))))) (\<lambda>_.
    CustomerRepo_FindById (cus_OrgId c) (cus_Id c))"

definition pmd_key :: "payment_method \<Rightarrow> string \<times> string" where
  "pmd_key p = (pmd_OrgId p, pmd_Id p)"

definition PaymentMethodRepo_FindById :: "string \<Rightarrow> string \<Rightarrow> ('d, payment_method) svc" where
  "PaymentMethodRepo_FindById orgId pid = selOne (\<lambda>db. find_row pmd_key (orgId, pid) (t_payment_methods db))"

definition PaymentMethodRepo_Create :: "payment_method \<Rightarrow> ('d, payment_method) svc" where
  "PaymentMethodRepo_Create p =
    bindS (exec (\<lambda>db. map_option (\<lambda>rs. db\<lparr>t_payment_methods := rs\<rparr>)
      (insert_row (\<lambda>a b. pmd_key a = pmd_key b) p (t_payment_methods db)))) (\<lambda>_.
    PaymentMethodRepo_FindById (pmd_OrgId p) (pmd_Id p))"

definition pmd_merge :: "payment_method \<Rightarrow> payment_method \<Rightarrow> payment_method" where
  "pmd_merge old p = p\<lparr>pmd_CreatedAt := pmd_CreatedAt old\<rparr>"

definition PaymentMethodRepo_Update :: "payment_method \<Rightarrow> ('d, payment_method) svc" where
  "PaymentMethodRepo_Update p =
    bindS (exec (\<lambda>db. Some (db\<lparr>t_payment_methods := update_row pmd_key pmd_merge p (t_payment_methods db)\<rparr>))) (\<lambda>_.
    PaymentMethodRepo_FindById (pmd_OrgId p) (pmd_Id p))"

definition OrderRepo_FindByIdForUpdate :: "string \<Rightarrow> string \<Rightarrow> ('d, order) svc" where
  "OrderRepo_FindByIdForUpdate orgId oid = selOne (\<lambda>db. find_row ord_key (orgId, oid) (t_orders db))"

section \<open>Tenant isolation\<close>

lemma iso_shop [obey]: "crt_OrgId c = org \<Longrightarrow> obeys (isolates org) (CartRepo_Create D c)"
  "crt_OrgId c = org \<Longrightarrow> obeys (isolates org) (CartRepo_Update D c)"
  "ses_OrgId s = org \<Longrightarrow> obeys (isolates org) (SessionRepo_Create s)"
  "pdt_OrgId p = org \<Longrightarrow> obeys (isolates org) (ProductRepo_Create p)"
  "pdt_OrgId p = org \<Longrightarrow> obeys (isolates org) (ProductRepo_Update p)"
  "cus_OrgId u = org \<Longrightarrow> obeys (isolates org) (CustomerRepo_Create u)"
  "pmd_OrgId m = org \<Longrightarrow> obeys (isolates org) (PaymentMethodRepo_Create m)"
  "pmd_OrgId m = org \<Longrightarrow> obeys (isolates org) (PaymentMethodRepo_Update m)"
  unfolding CartRepo_Create_def CartRepo_Update_def CartRepo_FindById_def SessionRepo_Create_def SessionRepo_FindById_def
    ProductRepo_Create_def ProductRepo_Update_def ProductRepo_FindById_def CustomerRepo_Create_def CustomerRepo_FindById_def
    PaymentMethodRepo_Create_def PaymentMethodRepo_Update_def PaymentMethodRepo_FindById_def
  by (intro iso.obeys_bind iso.obeys_mapErr iso.obeys_exec iso.obeys_selOne iso.obeys_ret;
      auto simp: tenant filter_insert_row cart_row_def crt_key_def crt_merge_def pdt_key_def pdt_merge_def pmd_key_def pmd_merge_def
        intro!: filter_update_row[symmetric])+

section \<open>Carts as they are read\<close>

text \<open>The cart an organisation reads under an identifier: the stored row with its totals computed.\<close>

definition cart_at :: "'d decimal_ops \<Rightarrow> 'd db \<Rightarrow> string \<Rightarrow> string \<Rightarrow> cart option" where
  "cart_at D db orgId cid = map_option (cart_Calculate D) (find_row crt_key (orgId, cid) (t_carts db))"

definition carts_stored :: "'d db \<Rightarrow> bool" where
  "carts_stored db \<longleftrightarrow> (\<forall>c\<in>set (t_carts db). cart_row c = c)"

lemma cart_Calculate_row [simp]: "crt_OrgId (cart_Calculate D c) = crt_OrgId c" "crt_Id (cart_Calculate D c) = crt_Id c"
    "crt_Status (cart_Calculate D c) = crt_Status c" "crt_CreatedAt (cart_Calculate D c) = crt_CreatedAt c"
    "crt_key (cart_Calculate D c) = crt_key c"
  by (simp_all add: cart_Calculate_eq crt_key_def Let_def)

lemma cart_row_fields [simp]: "crt_key (cart_row c) = crt_key c" "cart_row (cart_row c) = cart_row c"
  by (simp_all add: cart_row_def crt_key_def)

lemma cart_Calculate_total: "cart_Calculate D (c\<lparr>crt_Total := t\<rparr>) = cart_Calculate D c"
  by (simp add: cart_Calculate_eq Let_def)

lemma CartRepo_FindById_ok: "CartRepo_FindById D o1 i w = (Inr c, w1) \<Longrightarrow>
    w_db w1 = w_db w \<and> cart_at D (w_db w) o1 i = Some c \<and> crt_key c = (o1, i) \<and> cart_ok D c"
  by (auto simp: CartRepo_FindById_def ok_simps cart_at_def cart_Calculate_ok dest: find_row_key)

lemma CartRepo_Update_ok:
  assumes "CartRepo_Update D c w = (Inr c1, w1)" and "cart_at D (w_db w) o1 i = Some c0" and "crt_key c = (o1, i)"
    and "crt_CreatedAt c = crt_CreatedAt c0" and "crt_Status c = []" and "cart_ok D c"
  shows "cart_at D (w_db w1) o1 i = Some c \<and> c1 = c \<and>
    (\<forall>o2 j. (o2, j) \<noteq> (o1, i) \<longrightarrow> cart_at D (w_db w1) o2 j = cart_at D (w_db w) o2 j)"
proof -
  from assms(1) have d: "t_carts (w_db w1) = update_row crt_key crt_merge c (t_carts (w_db w))"
    and r: "cart_at D (w_db w1) o1 i = Some c1"
    using assms(3) by (auto simp: CartRepo_Update_def CartRepo_FindById_def ok_simps cart_at_def crt_key_def)
  have k: "crt_key (crt_merge old c) = crt_key c" for old by (simp add: crt_merge_def crt_key_def cart_row_def)
  from assms(2) obtain row where row: "find_row crt_key (o1, i) (t_carts (w_db w)) = Some row" "c0 = cart_Calculate D row"
    by (auto simp: cart_at_def)
  have "crt_merge row c = c\<lparr>crt_Total := 0\<rparr>"
    using assms(4,5) row(2) by (cases c) (simp add: crt_merge_def cart_row_def)
  moreover have "cart_Calculate D (c\<lparr>crt_Total := 0\<rparr>) = c"
    unfolding cart_Calculate_total by (rule cart_Calculate_fix[OF assms(6)])
  ultimately show ?thesis
    using r row d k assms(3) by (auto simp: cart_at_def find_row_update)
qed

end
