(* ===== verification/Cart_Service.thy ===== *)
theory Cart_Service
  imports Shop_Repositories
begin

text \<open>
  The cart service: src/internal/core/service/cart.go.  Every operation loads the cart,
  changes it and stores it; the lemmas show that what is stored keeps its totals, and
  that no archived product enters a cart.
\<close>

text \<open>A line for a product at a price, as AddProduct and CreateOrder build it.\<close>

definition cart_line :: "'d decimal_ops \<Rightarrow> product \<Rightarrow> 'd price \<Rightarrow> int \<Rightarrow> string \<Rightarrow> cart_line_item" where
  "cart_line D p price quantity lid =
    (let amount = FixedLineAmount D (prc_UnitPrice price) (prc_UnitCount price) quantity in
     \<lparr> cli_Id = lid, cli_ProductId = pdt_Id p, cli_Price = PriceToCartItemPrice price, cli_Description = pdt_Name p,
       cli_Quantity = quantity, cli_UnitPrice = prc_UnitPrice price, cli_UnitCount = prc_UnitCount price, cli_TaxTotal = 0,
       cli_SubTotal = amount, cli_DiscountTotal = 0, cli_ShippingTotal = 0, cli_Total = amount \<rparr>)"

definition add_line_item :: "cart_line_item \<Rightarrow> cart \<Rightarrow> cart" where
  "add_line_item l c = c\<lparr>crt_Data := (crt_Data c)\<lparr>cd_Items := cd_Items (crt_Data c) @ [l]\<rparr>\<rparr>"

definition GetCart :: "'d decimal_ops \<Rightarrow> string \<Rightarrow> string \<Rightarrow> ('d, cart) svc" where
  "GetCart D orgId cid = CartRepo_FindById D orgId cid"

definition AddProduct :: "'d decimal_ops \<Rightarrow> string \<Rightarrow> string \<Rightarrow> string \<Rightarrow> string \<Rightarrow> int \<Rightarrow> ('d, cart) svc" where
  "AddProduct D orgId cartId productId priceId quantity =
    bindS (CartRepo_FindById D orgId cartId) (\<lambda>c.
    bindS (mapErrS (\<lambda>e. NewCustomError NotFoundError (''Product '' @ productId @ '' not found'') (Some e))
             (ProductRepo_FindById orgId productId)) (\<lambda>p.
    if IsArchived p then failS (NewCustomError ConflictError (''Product '' @ pdt_Id p @ '' is archived and cannot be sold'') None)
    else bindS (mapErrS (\<lambda>e. NewCustomError NotFoundError (''Price '' @ priceId @ '' not found'') (Some e))
                  (PriceRepo_FindById orgId priceId)) (\<lambda>price.
    bindS (Generate ''ci'') (\<lambda>lid.
    let c = cart_Calculate D (add_line_item (cart_line D p price quantity lid) c) in
    bindS (CartRepo_Update D c) (\<lambda>_. retS c)))))"

definition CartService_RemoveItem :: "'d decimal_ops \<Rightarrow> string \<Rightarrow> string \<Rightarrow> string \<Rightarrow> ('d, cart) svc" where
  "CartService_RemoveItem D orgId cartId itemId =
    bindS (CartRepo_FindById D orgId cartId) (\<lambda>c.
    let c = cart_RemoveItem D itemId c in
    bindS (CartRepo_Update D c) (\<lambda>_. retS c))"

text \<open>The product of the input is used as the identifier of the line.\<close>

definition AdjustItem :: "'d decimal_ops \<Rightarrow> string \<Rightarrow> string \<Rightarrow> string \<Rightarrow> int \<Rightarrow> ('d, cart) svc" where
  "AdjustItem D orgId cartId productId quantity =
    bindS (CartRepo_FindById D orgId cartId) (\<lambda>c.
    bindS (liftS (cart_AdjustQuantity D productId quantity c)) (\<lambda>c.
    bindS (CartRepo_Update D c) (\<lambda>_. retS c)))"

section \<open>The service applies cart operations to the stored cart\<close>

lemma cart_ops_ok: "cart_ok D (cart_apply D op c) \<or> cart_apply D op c = c"
  by (cases op) (auto simp: cart_RemoveItem_def cart_AdjustQuantity_def cart_Calculate_ok split: option.split)

lemma cart_ops_kept [simp]: "crt_key (cart_apply D op c) = crt_key c" "crt_Status (cart_apply D op c) = crt_Status c"
    "crt_CreatedAt (cart_apply D op c) = crt_CreatedAt c"
  by (cases op; simp add: cart_RemoveItem_def cart_AdjustQuantity_def crt_key_def split: option.split)+

text \<open>The shape the three writing operations share: the cart that was read, changed and stored.\<close>

lemma cart_store:
  assumes "CartRepo_FindById D o1 i w = (Inr c0, w2)" and "t_carts (w_db w3) = t_carts (w_db w2)"
    and "CartRepo_Update D (cart_apply D op c0) w3 = (Inr c1, w1)" and "carts_stored (w_db w)"
  shows "cart_at D (w_db w) o1 i = Some c0 \<and> cart_at D (w_db w1) o1 i = Some (cart_apply D op c0) \<and>
    (\<forall>o2 j. (o2, j) \<noteq> (o1, i) \<longrightarrow> cart_at D (w_db w1) o2 j = cart_at D (w_db w) o2 j)"
proof -
  note f = CartRepo_FindById_ok[OF assms(1)]
  then have at: "cart_at D (w_db w3) o1 i = Some c0" "\<And>o2 j. cart_at D (w_db w3) o2 j = cart_at D (w_db w) o2 j"
    using assms(2) by (simp_all add: cart_at_def)
  from f obtain row where row: "row \<in> set (t_carts (w_db w))" "c0 = cart_Calculate D row"
    by (auto simp: cart_at_def dest: find_row_key)
  have "crt_Status row = crt_Status (cart_row row)" using assms(4) row(1) by (simp add: carts_stored_def)
  then have "crt_Status c0 = []" using row(2) by (simp add: cart_row_def)
  moreover have "cart_ok D (cart_apply D op c0)" using f by (simp add: cart_apply_ok)
  ultimately show ?thesis using f CartRepo_Update_ok[OF assms(3) at(1)] at(2) by simp
qed

text \<open>C18: The cart service applies the operations of the cart model to the stored cart: what
  an operation returns is the cart that was read with the operation applied to it, it is
  what the next read returns, its totals follow from its lines, and no other cart changes.
  What is added is the line of a stored product that is not archived, at the stored price that was
  named.  (The columns the schema does not have are empty in the stored carts.)\<close>

theorem cart_service_refines:
  assumes "carts_stored (w_db w)"
  shows "(AddProduct D o1 i pid prid q w = (Inr c, w1) \<longrightarrow> (\<exists>c0 p price x. cart_at D (w_db w) o1 i = Some c0 \<and> c = cart_apply D (OpAdd (cart_line D p price q x)) c0 \<and>
       p \<in> set (t_products (w_db w)) \<and> pdt_key p = (o1, pid) \<and> \<not> IsArchived p \<and>
       price \<in> set (t_prices (w_db w)) \<and> (prc_OrgId price, prc_Id price) = (o1, prid))) \<and>
    (CartService_RemoveItem D o1 i lid w = (Inr c, w1) \<longrightarrow> (\<exists>c0. cart_at D (w_db w) o1 i = Some c0 \<and> c = cart_apply D (OpRemove lid) c0)) \<and>
    (AdjustItem D o1 i lid q w = (Inr c, w1) \<longrightarrow> (\<exists>c0. cart_at D (w_db w) o1 i = Some c0 \<and> c = cart_apply D (OpAdjust lid q) c0)) \<and>
    ((Inr c, w1) \<in> {AddProduct D o1 i pid prid q w, CartService_RemoveItem D o1 i lid w, AdjustItem D o1 i lid q w} \<longrightarrow>
       cart_ok D c \<and> cart_at D (w_db w1) o1 i = Some c \<and>
       (\<forall>o2 j. (o2, j) \<noteq> (o1, i) \<longrightarrow> cart_at D (w_db w1) o2 j = cart_at D (w_db w) o2 j))"
proof -
  let ?after = "cart_ok D c \<and> cart_at D (w_db w1) o1 i = Some c \<and>
       (\<forall>o2 j. (o2, j) \<noteq> (o1, i) \<longrightarrow> cart_at D (w_db w1) o2 j = cart_at D (w_db w) o2 j)"
  have add: "(\<exists>c0 p price x. cart_at D (w_db w) o1 i = Some c0 \<and> c = cart_apply D (OpAdd (cart_line D p price q x)) c0 \<and>
       p \<in> set (t_products (w_db w)) \<and> pdt_key p = (o1, pid) \<and> \<not> IsArchived p \<and>
       price \<in> set (t_prices (w_db w)) \<and> (prc_OrgId price, prc_Id price) = (o1, prid)) \<and> ?after"
    if "AddProduct D o1 i pid prid q w = (Inr c, w1)"
  proof -
    from that obtain c0 w2 p w3 price w4 lid c1 where f: "CartRepo_FindById D o1 i w = (Inr c0, w2)"
      and p: "ProductRepo_FindById o1 pid w2 = (Inr p, w3)" "\<not> IsArchived p" and pr: "PriceRepo_FindById o1 prid w3 = (Inr price, w4)"
      and c: "c = cart_apply D (OpAdd (cart_line D p price q lid)) c0"
      and u: "CartRepo_Update D c (w4\<lparr>w_drawn := Suc (w_drawn w4)\<rparr>) = (Inr c1, w1)"
      unfolding AddProduct_def Let_def
      by (auto simp: bindS_Inr mapErrS_Inr add_line_item_def split: if_splits)
    have w5: "w_db w4 = w_db w2" using p(1) pr by (auto simp: ProductRepo_FindById_def PriceRepo_FindById_def ok_simps)
    have "p \<in> set (t_products (w_db w))" "pdt_key p = (o1, pid)"
      using p(1) CartRepo_FindById_ok[OF f] by (auto simp: ProductRepo_FindById_def ok_simps dest: find_row_key)
    moreover have "price \<in> set (t_prices (w_db w))" "(prc_OrgId price, prc_Id price) = (o1, prid)"
      using p(1) pr CartRepo_FindById_ok[OF f] find_row_key[of "\<lambda>p. (prc_OrgId p, prc_Id p)" "(o1, prid)" "t_prices (w_db w)" price]
      by (auto simp: ProductRepo_FindById_def PriceRepo_FindById_def ok_simps)
    ultimately show ?thesis using cart_store[OF f _ u[unfolded c] assms] w5 p(2) CartRepo_FindById_ok[OF f] unfolding c
      by (intro conjI exI[of _ c0] exI[of _ p] exI[of _ price] exI[of _ lid]) (simp_all add: cart_Calculate_ok)
  qed
  have remove: "(\<exists>c0. cart_at D (w_db w) o1 i = Some c0 \<and> c = cart_apply D (OpRemove lid) c0) \<and> ?after"
    if "CartService_RemoveItem D o1 i lid w = (Inr c, w1)"
  proof -
    from that obtain c0 w2 c1 where f: "CartRepo_FindById D o1 i w = (Inr c0, w2)" and c: "c = cart_apply D (OpRemove lid) c0"
      and u: "CartRepo_Update D c w2 = (Inr c1, w1)"
      unfolding CartService_RemoveItem_def Let_def by (auto simp: bindS_Inr)
    with cart_store[OF f refl u[unfolded c] assms] CartRepo_FindById_ok[OF f] cart_apply_ok[of D c0 "OpRemove lid"] show ?thesis by (auto simp: c)
  qed
  have adjust: "(\<exists>c0. cart_at D (w_db w) o1 i = Some c0 \<and> c = cart_apply D (OpAdjust lid q) c0) \<and> ?after"
    if "AdjustItem D o1 i lid q w = (Inr c, w1)"
  proof -
    from that obtain c0 w2 c1 where f: "CartRepo_FindById D o1 i w = (Inr c0, w2)" and c: "c = cart_apply D (OpAdjust lid q) c0"
      and u: "CartRepo_Update D c w2 = (Inr c1, w1)"
      unfolding AdjustItem_def Let_def by (auto simp: bindS_Inr)
    with cart_store[OF f refl u[unfolded c] assms] CartRepo_FindById_ok[OF f] cart_apply_ok[of D c0 "OpAdjust lid q"] show ?thesis by (auto simp: c simp del: cart_apply.simps)
  qed
  show ?thesis using add remove adjust by (intro conjI impI) auto
qed

definition sample_product :: product where
  "sample_product = \<lparr> pdt_OrgId = ''o'', pdt_Id = ''p'', pdt_Name = ''n'', pdt_Description = [], pdt_Status = ProductStatusActive, pdt_ArchivedAt = None,
     pdt_Metadata = Map.empty, pdt_CreatedAt = 0, pdt_UpdatedAt = 0 \<rparr>"

definition shop_world :: "rat world" where
  "shop_world = world_of (empty_db\<lparr>t_carts := [empty_cart], t_products := [sample_product],
     t_prices := [sample_price\<lparr>prc_Id := ''pf'', prc_UnitCount := 1\<rparr>]\<rparr>) (\<lambda>n. int n + 5)"

theorem cart_service_refines_witness:
  "\<exists>c w1. AddProduct rat_ops ''o'' ''c'' ''p'' ''pf'' 2 shop_world = (Inr c, w1) \<and> cart_ok rat_ops c \<and>
     cart_at rat_ops (w_db w1) ''o'' ''c'' = Some c"
proof -
  have "\<not> isl (fst (AddProduct rat_ops ''o'' ''c'' ''p'' ''pf'' 2 shop_world))" by code_simp
  then obtain c w1 where r: "AddProduct rat_ops ''o'' ''c'' ''p'' ''pf'' 2 shop_world = (Inr c, w1)"
    by (metis isl_def old.sum.exhaust prod.exhaust_sel)
  have "carts_stored (w_db shop_world)"
    by (simp add: carts_stored_def shop_world_def world_of_def cart_row_def empty_cart_def)
  from cart_service_refines[OF this, of rat_ops "''o''" "''c''" "''p''" "''pf''" 2 c w1 "''l''"] r
  show ?thesis by (intro exI[of _ c] exI[of _ w1]) simp
qed

end
