(* ===== verification/Order_Service.thy ===== *)
theory Order_Service
  imports Subscription_Service Cart_Service
begin

text \<open>
  The order services: src/internal/core/service/order.go (create an order from a cart,
  start its payment, complete it) and order_workflow.go (complete it from the payment
  provider's webhook), with their inputs (src/internal/core/port/order_input.go,
  src/internal/core/domain/gateway.go).  Completing an order activates its
  subscriptions, consumes its coupon, builds and settles its invoice and records the
  payment, in one transaction; creating one is a sequence of separate statements.

  The encoding of card details and the provider's payment session are parameters; the
  workflow starts after the commit are returned as the list of subscriptions.
\<close>

section \<open>Inputs\<close>

record create_order_customer =
  coc_Id :: string
  coc_Email :: string
  coc_FirstName :: string
  coc_LastName :: string
  coc_Phone :: string

record cart_item_input =
  cit_ProductId :: string
  cit_PriceId :: string
  cit_Quantity :: int

record create_order_input =
  coi_OrgId :: string
  coi_Customer :: create_order_customer
  coi_SessionId :: string
  coi_Currency :: string
  coi_CartItems :: "cart_item_input list"
  coi_PspId :: gateway
  coi_PaymentMethodId :: string
  coi_CouponCode :: string
  coi_UpfrontInvoice :: bool
  coi_Metadata :: metadata

record 'd create_order_result =
  cor_Order :: order
  cor_Invoice :: "'d invoice option"

record complete_order_payment =
  cop_PspId :: string
  cop_CompletedAt :: time
  cop_Reference :: string
  cop_Amount :: int
  cop_Currency :: string
  cop_Metadata :: metadata

record complete_order_method =
  com_Psp :: string
  com_Name :: string
  com_Type :: string
  com_Details :: "string option"
  com_Token :: string
  com_Metadata :: metadata

record complete_order_input =
  cmi_OrgId :: string
  cmi_Id :: string
  cmi_PaymentMethodId :: string
  cmi_PaymentMethod :: complete_order_method
  cmi_Payment :: complete_order_payment
  cmi_Metadata :: metadata

text \<open>What a payment webhook carries, as far as the completion reads it; the details are the
  payment method without its token, encoded.\<close>

record payment_webhook =
  pwh_Psp :: gateway
  pwh_MethodType :: string
  pwh_MethodToken :: string
  pwh_MethodDetails :: string
  pwh_Currency :: string
  pwh_Reference :: string
  pwh_PspId :: string
  pwh_Amount :: int
  pwh_PaidAt :: time

section \<open>Zero values and parsing\<close>

definition zero_order :: order where
  "zero_order = \<lparr> ord_OrgId = [], ord_Id = [], ord_CustomerId = [], ord_Reference = [], ord_Status = OrderStatusOther [],
     ord_SessionId = [], ord_CartId = [], ord_Currency = [], ord_Total = 0, ord_Metadata = Map.empty,
     ord_PaymentSession = None, ord_UpfrontInvoice = False, ord_CreatedAt = 0, ord_UpdatedAt = 0 \<rparr>"

definition zero_payment :: payment where
  "zero_payment = \<lparr> pay_OrgId = [], pay_Id = [], pay_Psp = [], pay_PspId = [], pay_Reference = [], pay_OrderId = [],
     pay_SubscriptionId = [], pay_InvoiceId = [], pay_Status = PaymentStatusOther [], pay_Recurring = False, pay_Currency = [],
     pay_Amount = 0, pay_PspFee = 0, pay_PlatformFee = 0, pay_NetAmount = 0, pay_Metadata = Map.empty, pay_CompletedAt = 0,
     pay_CreatedAt = 0, pay_UpdatedAt = 0 \<rparr>"

definition zero_address :: address where
  "zero_address = \<lparr> adr_FirstName = [], adr_LastName = [], adr_Email = [], adr_Phone = [], adr_Line1 = [], adr_Line2 = [],
     adr_City = [], adr_State = [], adr_PostalCode = [], adr_Country = [] \<rparr>"

definition zero_method :: payment_method where
  "zero_method = \<lparr> pmd_OrgId = [], pmd_Id = [], pmd_Status = PaymentMethodStatusOther [], pmd_Psp = [], pmd_Name = [],
     pmd_CustomerId = [], pmd_BillingAddress = zero_address, pmd_Type = [], pmd_Token = [], pmd_Details = [],
     pmd_Metadata = Map.empty, pmd_ExpireAt = 0, pmd_CreatedAt = 0, pmd_UpdatedAt = 0 \<rparr>"

text \<open>strconv.Atoi with its error dropped: zero for what is not a number, the nearest int64 out of range.\<close>

fun digits_value :: "int \<Rightarrow> string \<Rightarrow> int option" where
  "digits_value acc [] = Some acc"
| "digits_value acc (c # cs) = (if CHR ''0'' \<le> c \<and> c \<le> CHR ''9'' then digits_value (10 * acc + int (of_char c) - 48) cs else None)"

definition Atoi :: "string \<Rightarrow> int" where
  "Atoi s =
    (let (neg, ds) = (case s of c # cs \<Rightarrow> if c = CHR ''-'' then (True, cs) else if c = CHR ''+'' then (False, cs) else (False, s)
                     | [] \<Rightarrow> (False, []))
     in if ds = [] then 0
        else case digits_value 0 ds of None \<Rightarrow> 0
             | Some v \<Rightarrow> if neg then max (- (2 ^ 63)) (- v) else min (2 ^ 63 - 1) v)"

definition ParsePaymentMethodDetails ::
    "(string \<Rightarrow> (string \<times> string) option) \<Rightarrow> string \<Rightarrow> string \<Rightarrow> (string \<times> string) res" where
  "ParsePaymentMethodDetails unmarshal ty details =
    (if ty = ''card'' then (case unmarshal details of None \<Rightarrow> Inl (InfraError ''json'') | Some d \<Rightarrow> Inr d)
     else Inl (NewCustomError BadRequestError ''Invalid payment method type'' None))"

definition GetExpiryDate :: "string \<times> string \<Rightarrow> time" where
  "GetExpiryDate d = (case d of (expiryMonth, expiryYear) \<Rightarrow> go_Date (Atoi expiryYear) (Atoi expiryMonth) 1 0 0 0 0)"

text \<open>The reference layout: year, month, day, hour, minute and second without separators.\<close>

definition order_reference :: "time \<Rightarrow> string" where
  "order_reference t = (case (time_Date t, time_Clock t) of ((y, m, d), (h, mi, s)) \<Rightarrow>
     sprintf_0d 4 y @ sprintf_0d 2 m @ sprintf_0d 2 d @ sprintf_0d 2 h @ sprintf_0d 2 mi @ sprintf_0d 2 s)"

section \<open>CreateOrder\<close>

definition session_cart :: "'d decimal_ops \<Rightarrow> string \<Rightarrow> string \<Rightarrow> ('d, cart) svc" where
  "session_cart D orgId sessionId =
    bindS (mapErrS (\<lambda>_. NewCustomError NotFoundError ''session not found'' None) (SessionRepo_FindById orgId sessionId)) (\<lambda>ses.
    mapErrS (\<lambda>_. NewCustomError NotFoundError ''cart not found'' None) (CartRepo_FindById D orgId (ses_CartId ses)))"

definition input_line :: "'d decimal_ops \<Rightarrow> string \<Rightarrow> cart \<Rightarrow> cart_item_input \<Rightarrow> ('d, cart) svc" where
  "input_line D orgId c it =
    bindS (mapErrS (\<lambda>e. NewCustomError InternalError ''Can't add item to cart'' (Some e)) (ProductRepo_FindById orgId (cit_ProductId it))) (\<lambda>p.
    bindS (mapErrS (\<lambda>e. NewCustomError InternalError ''Can't add item to cart'' (Some e)) (PriceRepo_FindById orgId (cit_PriceId it))) (\<lambda>price.
    bindS (Generate ''ci'') (\<lambda>lid.
    retS (add_line_item (cart_line D p price (cit_Quantity it) lid) c))))"

definition input_cart :: "'d decimal_ops \<Rightarrow> create_order_input \<Rightarrow> ('d, cart) svc" where
  "input_cart D inp =
    bindS (Generate ''cart'') (\<lambda>cid.
    bindS (foldS (input_line D (coi_OrgId inp))
      \<lparr> crt_OrgId = coi_OrgId inp, crt_Id = cid,
        crt_Data = \<lparr> cd_Currency = coi_Currency inp, cd_Total = 0, cd_SubTotal = 0, cd_DiscountTotal = 0, cd_ShippingTotal = 0,
                    cd_TaxTotal = 0, cd_Items = [] \<rparr>,
        crt_Status = [], crt_Total = 0, crt_Metadata = Map.empty, crt_CreatedAt = 0, crt_UpdatedAt = 0 \<rparr> (coi_CartItems inp)) (\<lambda>c.
    let c = cart_Calculate D c in
    bindS (CartRepo_Create D c) (\<lambda>_. retS c)))"

definition check_sellable :: "string \<Rightarrow> cart_line_item \<Rightarrow> ('d, unit) svc" where
  "check_sellable orgId it =
    bindS (mapErrS (\<lambda>e. NewCustomError NotFoundError ''Product not found'' (Some e)) (ProductRepo_FindById orgId (cli_ProductId it))) (\<lambda>p.
    if IsArchived p then failS (NewCustomError ConflictError (''Product '' @ pdt_Id p @ '' is archived and cannot be sold'') None)
    else retS ())"

definition order_customer :: "string \<Rightarrow> create_order_customer \<Rightarrow> ('d, customer) svc" where
  "order_customer orgId c =
    (if coc_Id c \<noteq> []
     then mapErrS (\<lambda>e. NewCustomError NotFoundError ''Customer not found'' (Some e)) (CustomerRepo_FindById orgId (coc_Id c))
     else bindS (Generate ''customer'') (\<lambda>cid.
       CustomerRepo_Create \<lparr> cus_OrgId = orgId, cus_Id = cid, cus_ExternalId = [], cus_FirstName = coc_FirstName c,
         cus_LastName = coc_LastName c, cus_Email = coc_Email c, cus_Phone = coc_Phone c, cus_DefaultPaymentMethodId = [],
         cus_BillingAddress = zero_address, cus_Metadata = Map.empty, cus_CreatedAt = 0, cus_UpdatedAt = 0 \<rparr>))"

definition order_line_item :: "string \<Rightarrow> string \<Rightarrow> cart_line_item \<Rightarrow> ('d, 'd order_line_price) svc" where
  "order_line_item orgId orderId it =
    bindS (Generate ''order_item'') (\<lambda>iid.
    bindS nowS (\<lambda>createdAt.
    bindS nowS (\<lambda>updatedAt.
    bindS (OrderRepo_CreateOrderItem
      \<lparr> itm_OrgId = orgId, itm_Id = iid, itm_OrderId = orderId, itm_ProductId = cli_ProductId it,
        itm_VariantId = cip_VariantId (cli_Price it), itm_PriceId = cip_Id (cli_Price it), itm_SubscriptionId = [],
        itm_Description = cli_Description it, itm_Quantity = cli_Quantity it, itm_TaxTotal = cli_TaxTotal it,
        itm_DiscountTotal = cli_DiscountTotal it, itm_Subtotal = cli_SubTotal it, itm_Total = cli_Total it,
        itm_Metadata = Map.empty, itm_CreatedAt = createdAt, itm_UpdatedAt = updatedAt \<rparr>) (\<lambda>item.
    bindS (PriceRepo_FindById orgId (cip_Id (cli_Price it))) (\<lambda>price. retS (item, price))))))"

definition order_group :: "create_order_input \<Rightarrow> string \<Rightarrow> string \<Rightarrow> 'd order_line_price list \<Rightarrow> ('d, unit) svc" where
  "order_group inp orderId customerId grp =
    bindS (Generate ''sub'') (\<lambda>newId.
    bindS nowS (\<lambda>now.
    bindS (SubscriptionRepo_Create ((NewSubscriptionFromLines (coi_OrgId inp) orderId customerId (map snd grp) newId now)
             \<lparr>sub_PspId := coi_PspId inp, sub_PaymentMethodId := coi_PaymentMethodId inp\<rparr>)) (\<lambda>created.
    bindS (foldS (\<lambda>_ l. bindS (OrderRepo_UpdateOrderItem ((fst l)\<lparr>itm_SubscriptionId := sub_Id created\<rparr>)) (\<lambda>_. retS ())) () grp) (\<lambda>_.
    ignoreS (Publish (coi_OrgId inp) ''subscription.created'' (MsgSubscription created))))))"

definition upfront_invoice :: "'d billing_env \<Rightarrow> create_order_input \<Rightarrow> order \<Rightarrow> ('d, 'd create_order_result) svc" where
  "upfront_invoice E inp newOrder =
    (if \<not> coi_UpfrontInvoice inp then retS \<lparr> cor_Order = newOrder, cor_Invoice = None \<rparr>
     else tryS (BuildForOrder E newOrder) (\<lambda>r. case r of
       Inl e \<Rightarrow> if is_not_found e then retS \<lparr> cor_Order = newOrder, cor_Invoice = None \<rparr> else failS e
     | Inr i \<Rightarrow> bindS (InvoiceService_MarkOpen (ord_OrgId newOrder) (inv_Id i)) (\<lambda>opened.
         retS \<lparr> cor_Order = newOrder, cor_Invoice = Some opened \<rparr>)))"

definition CreateOrder :: "'d billing_env \<Rightarrow> create_order_input \<Rightarrow> ('d, 'd create_order_result) svc" where
  "CreateOrder E inp =
    bindS (Generate ''order'') (\<lambda>orderId.
    bindS (if coi_SessionId inp \<noteq> [] then session_cart (env_dec E) (coi_OrgId inp) (coi_SessionId inp)
           else input_cart (env_dec E) inp) (\<lambda>c.
    let currency = (if coi_SessionId inp \<noteq> [] then cd_Currency (crt_Data c) else coi_Currency inp);
        its = cd_Items (crt_Data c) in
    if its = [] then failS (InfraError ''cart is empty'')
    else bindS (foldS (\<lambda>_ it. check_sellable (coi_OrgId inp) it) () its) (\<lambda>_.
    bindS (order_customer (coi_OrgId inp) (coi_Customer inp)) (\<lambda>cu.
    bindS nowS (\<lambda>refTime.
    bindS nowS (\<lambda>createdAt.
    bindS nowS (\<lambda>updatedAt.
    bindS (OrderRepo_Create
      \<lparr> ord_OrgId = coi_OrgId inp, ord_Id = orderId, ord_CustomerId = cus_Id cu, ord_Reference = order_reference refTime,
        ord_Status = OrderStatusPending, ord_SessionId = coi_SessionId inp, ord_CartId = crt_Id c, ord_Currency = currency,
        ord_Total = crt_Total c, ord_Metadata = coi_Metadata inp, ord_PaymentSession = None,
        ord_UpfrontInvoice = coi_UpfrontInvoice inp, ord_CreatedAt = createdAt, ord_UpdatedAt = updatedAt \<rparr>) (\<lambda>ord.
    bindS (mapS (order_line_item (coi_OrgId inp) orderId) its) (\<lambda>ls.
    bindS (foldS (\<lambda>_ grp. order_group inp orderId (cus_Id cu) grp) () (groupIntoSubscriptions ls)) (\<lambda>_.
    bindS (if coi_CouponCode inp = [] then retS ()
           else bindS (CouponService_Reserve \<lparr> rsi_OrgId = coi_OrgId inp, rsi_Code = coi_CouponCode inp, rsi_CouponId = [],
                    rsi_CustomerId = cus_Id cu, rsi_OrderId = orderId, rsi_Currency = currency, rsi_Amount = ord_Total ord,
                    rsi_HoldTTL = 0 \<rparr>) (\<lambda>_. retS ())) (\<lambda>_.
    tryS (OrderRepo_FindById (coi_OrgId inp) (ord_Id ord)) (\<lambda>r.
    upfront_invoice E inp (case r of Inr o1 \<Rightarrow> o1 | Inl _ \<Rightarrow> zero_order)))))))))))))"

section \<open>InitOrderPayment\<close>

text \<open>The provider's answer to the initialisation is a parameter.  The two reads run
  concurrently in the code; when both fail either error may be the one returned.\<close>

definition InitOrderPayment ::
    "'d decimal_ops \<Rightarrow> (gateway \<Rightarrow> cart \<Rightarrow> order \<Rightarrow> customer \<Rightarrow> string res) \<Rightarrow> string \<Rightarrow> string \<Rightarrow> gateway \<Rightarrow> ('d, string) svc" where
  "InitOrderPayment D InitPayment orgId orderId pspId =
    bindS (mapErrS (\<lambda>e. NewCustomError NotFoundError ''order not found'' (Some e)) (OrderRepo_FindById orgId orderId)) (\<lambda>ord.
    if ord_Status ord \<noteq> OrderStatusPending then failS (NewCustomError ConflictError ''order is not pending'' None)
    else case ord_PaymentSession ord of
      Some ps \<Rightarrow> retS ps
    | None \<Rightarrow>
       bindS (mapErrS (\<lambda>e. NewCustomError NotFoundError ''cart not found'' (Some e)) (CartRepo_FindById D orgId (ord_CartId ord))) (\<lambda>c.
       bindS (mapErrS (\<lambda>e. NewCustomError NotFoundError ''customer not found'' (Some e)) (CustomerRepo_FindById orgId (ord_CustomerId ord))) (\<lambda>cu.
       bindS (NewGateway orgId pspId) (\<lambda>gw.
       bindS (liftS (InitPayment gw c ord cu)) (\<lambda>resp.
       bindS (OrderRepo_SetPaymentSession orgId orderId resp) (\<lambda>_. retS resp))))))"

section \<open>CompleteOrder\<close>

definition complete_method ::
    "(string \<Rightarrow> (string \<times> string) option) \<Rightarrow> complete_order_input \<Rightarrow> order \<Rightarrow> ('d, payment_method) svc" where
  "complete_method unmarshal inp ord =
    bindS (if cmi_PaymentMethodId inp \<noteq> []
           then mapErrS (\<lambda>e. NewCustomError NotFoundError ''Payment method not found'' (Some e))
                  (CustomerRepo_FindPaymentMethodById (ord_OrgId ord) (cmi_PaymentMethodId inp))
           else retS zero_method) (\<lambda>pm.
    let m = cmi_PaymentMethod inp in
    if com_Token m = [] then retS pm
    else bindS (case com_Details m of
             None \<Rightarrow> retS 0
           | Some d \<Rightarrow> mapErrS (\<lambda>e. NewCustomError BadRequestError ''Invalid card details'' (Some e))
                        (bindS (liftS (ParsePaymentMethodDetails unmarshal (com_Type m) d)) (\<lambda>det. retS (GetExpiryDate det)))) (\<lambda>expireAt.
      bindS (Generate ''pm'') (\<lambda>pid.
      bindS nowS (\<lambda>createdAt.
      bindS nowS (\<lambda>updatedAt.
      PaymentMethodRepo_Create
        \<lparr> pmd_OrgId = ord_OrgId ord, pmd_Id = pid, pmd_Status = PaymentMethodStatusActive, pmd_Psp = com_Psp m,
          pmd_Name = com_Name m, pmd_CustomerId = ord_CustomerId ord, pmd_BillingAddress = zero_address,
          pmd_Type = com_Type m, pmd_Token = com_Token m, pmd_Details = (case com_Details m of None \<Rightarrow> [] | Some d \<Rightarrow> d),
          pmd_Metadata = com_Metadata m, pmd_ExpireAt = expireAt, pmd_CreatedAt = createdAt, pmd_UpdatedAt = updatedAt \<rparr>)))))"

definition first_payment :: "complete_order_input \<Rightarrow> subscription list \<Rightarrow> payment" where
  "first_payment inp subs =
    (let p = cmi_Payment inp in
     if 0 < cop_Amount p then zero_payment\<lparr>pay_OrgId := cmi_OrgId inp, pay_Recurring := subs \<noteq> [],
        pay_Status := PaymentStatusSucceeded, pay_Currency := cop_Currency p, pay_Amount := cop_Amount p,
        pay_NetAmount := cop_Amount p, pay_CompletedAt := cop_CompletedAt p\<rparr>
     else zero_payment)"

definition activate_subscription ::
    "complete_order_input \<Rightarrow> payment_method \<Rightarrow> payment \<Rightarrow> subscription \<Rightarrow> ('d, subscription) svc" where
  "activate_subscription inp pm p s =
    (let s = subscription_SetMetadata (s\<lparr>sub_PaymentMethodId := pmd_Id pm\<rparr>) (cmi_Metadata inp) in
     bindS nowS (\<lambda>now. SubscriptionRepo_Update (SetActive s p now)))"

text \<open>The payment of the order, linked to its invoice and, when there is exactly one, its subscription.\<close>

definition order_payment ::
    "complete_order_input \<Rightarrow> order \<Rightarrow> subscription list \<Rightarrow> payment \<Rightarrow> string \<Rightarrow> ('d, payment) svc" where
  "order_payment inp ord activated p invoiceId =
    bindS (Generate ''pmt'') (\<lambda>pid.
    bindS nowS (\<lambda>createdAt.
    bindS nowS (\<lambda>updatedAt.
    let p = p\<lparr>pay_Id := pid, pay_PspId := cop_PspId (cmi_Payment inp), pay_Reference := cop_Reference (cmi_Payment inp),
              pay_Metadata := cop_Metadata (cmi_Payment inp), pay_OrderId := ord_Id ord, pay_InvoiceId := invoiceId,
              pay_CreatedAt := createdAt, pay_UpdatedAt := updatedAt\<rparr>
    in PaymentRepo_Create (case activated of
         [s] \<Rightarrow> p\<lparr>pay_SubscriptionId := sub_Id s, pay_Psp := sub_PspId s\<rparr> | _ \<Rightarrow> p))))"

definition settle_order ::
    "'d billing_env \<Rightarrow> complete_order_input \<Rightarrow> order \<Rightarrow> subscription list \<Rightarrow> payment \<Rightarrow> ('d, unit) svc" where
  "settle_order E inp ord activated p =
    tryS (BuildForOrder E ord) (\<lambda>r. case r of
      Inl e \<Rightarrow> if is_not_found e then retS () else failS e
    | Inr i \<Rightarrow>
       bindS (if 0 < cop_Amount (cmi_Payment inp)
              then bindS (order_payment inp ord activated p (inv_Id i)) (\<lambda>_. SettleOrderInvoice (ord_OrgId ord) (inv_Id i))
              else retS ()) (\<lambda>_.
       Publish (ord_OrgId ord) ''order.completed'' (MsgOrder ord)))"

text \<open>What follows the update of the order: its payment method, its subscriptions, its coupon, its invoice.\<close>

definition complete_steps ::
    "'d billing_env \<Rightarrow> (string \<Rightarrow> (string \<times> string) option) \<Rightarrow> complete_order_input \<Rightarrow> order \<Rightarrow> ('d, subscription list) svc" where
  "complete_steps E unmarshal inp ord =
    bindS (complete_method unmarshal inp ord) (\<lambda>pm.
    tryS (SubscriptionRepo_FindByOrderId (cmi_OrgId inp) (cmi_Id inp)) (\<lambda>r.
    let subs = (case r of Inr ss \<Rightarrow> ss | Inl _ \<Rightarrow> []); p = first_payment inp subs in
    bindS (mapS (activate_subscription inp pm p) subs) (\<lambda>activated.
    bindS (CouponService_Consume \<lparr> cni_OrgId = cmi_OrgId inp, cni_OrderId = ord_Id ord,
             cni_SubscriptionId = (case activated of [] \<Rightarrow> [] | s # _ \<Rightarrow> sub_Id s), cni_StartCycle = 0 \<rparr>) (\<lambda>_.
    bindS (settle_order E inp ord activated p) (\<lambda>_.
    retS activated)))))"

definition complete_order_tx ::
    "'d billing_env \<Rightarrow> (string \<Rightarrow> (string \<times> string) option) \<Rightarrow> complete_order_input \<Rightarrow> ('d, order \<times> subscription list) svc" where
  "complete_order_tx E unmarshal inp =
    bindS (mapErrS (\<lambda>_. InfraError ''order not found'') (OrderRepo_FindById (cmi_OrgId inp) (cmi_Id inp))) (\<lambda>ord.
    if ord_Status ord \<noteq> OrderStatusPending then failS (NewCustomError BadRequestError ''Order is not pending'' None)
    else if cmi_PaymentMethodId inp = [] \<and> com_Token (cmi_PaymentMethod inp) = []
    then failS (NewCustomError BadRequestError ''You need to provide payment method or payment method ID'' None)
    else bindS nowS (\<lambda>now.
    let ord = order_SetMetadata (ord\<lparr>ord_Status := OrderStatusCompleted, ord_UpdatedAt := now\<rparr>) (cmi_Metadata inp) in
    bindS (OrderRepo_Update ord) (\<lambda>_.
    bindS (complete_steps E unmarshal inp ord) (\<lambda>activated.
    retS (ord, activated)))))"

text \<open>The second component lists the subscriptions whose workflow is started after the commit.\<close>

definition CompleteOrder ::
    "'d billing_env \<Rightarrow> (string \<Rightarrow> (string \<times> string) option) \<Rightarrow> complete_order_input \<Rightarrow> ('d, order \<times> subscription list) svc" where
  "CompleteOrder E unmarshal inp = RunInTx (complete_order_tx E unmarshal inp)"

section \<open>CompleteCheckoutSession\<close>

definition checkout_charged :: "payment_webhook \<Rightarrow> subscription \<Rightarrow> time \<Rightarrow> bool" where
  "checkout_charged pw s now \<longleftrightarrow> 0 < pwh_Amount pw \<and> sub_StartDate s < now"

text \<open>Activate one subscription; the identifier of the last one charged is threaded through.\<close>

definition checkout_subscription ::
    "'d billing_env \<Rightarrow> string \<Rightarrow> payment_webhook \<Rightarrow> payment_method \<Rightarrow> string \<Rightarrow> subscription \<Rightarrow> ('d, string) svc" where
  "checkout_subscription E orgId pw pm subscriptionId s =
    bindS (if 0 < pwh_Amount pw then bindS nowS (\<lambda>now. retS (checkout_charged pw s now)) else retS False) (\<lambda>charged.
    if charged then
      bindS (fixedBaseAmount (env_dec E) orgId (sub_Id s)) (\<lambda>fixedBase.
      bindS nowS (\<lambda>now.
      let s1 = SetActivationDates s now in
      bindS (SubscriptionRepo_Update (s1\<lparr>sub_Status := SubscriptionStatusActive, sub_LastCharge := sub_StartDate s1,
               sub_TotalRevenue := fixedBase, sub_CyclesProcessed := 1, sub_PaymentMethodId := pmd_Id pm\<rparr>)) (\<lambda>_.
      retS (sub_Id s))))
    else
      bindS nowS (\<lambda>now.
      bindS (SubscriptionRepo_Update ((SetActivationDates s now)\<lparr>sub_Status := SubscriptionStatusTrial,
               sub_PaymentMethodId := pmd_Id pm\<rparr>)) (\<lambda>_.
      retS subscriptionId)))"

definition checkout_payment ::
    "string \<Rightarrow> string \<Rightarrow> payment_webhook \<Rightarrow> bool \<Rightarrow> string \<Rightarrow> string \<Rightarrow> ('d, unit) svc" where
  "checkout_payment orgId orderId pw recurring subscriptionId invoiceId =
    bindS (Generate ''pmt'') (\<lambda>pid.
    bindS nowS (\<lambda>createdAt.
    bindS nowS (\<lambda>updatedAt.
    bindS (PaymentRepo_Create
      \<lparr> pay_OrgId = orgId, pay_Id = pid, pay_Psp = pwh_Psp pw, pay_PspId = pwh_PspId pw, pay_Reference = pwh_Reference pw,
        pay_OrderId = orderId, pay_SubscriptionId = subscriptionId, pay_InvoiceId = invoiceId,
        pay_Status = PaymentStatusSucceeded, pay_Recurring = recurring, pay_Currency = pwh_Currency pw,
        pay_Amount = pwh_Amount pw, pay_PspFee = 0, pay_PlatformFee = 0, pay_NetAmount = pwh_Amount pw,
        pay_Metadata = Map.empty, pay_CompletedAt = pwh_PaidAt pw, pay_CreatedAt = createdAt, pay_UpdatedAt = updatedAt \<rparr>) (\<lambda>_.
    SettleOrderInvoice orgId invoiceId))))"

definition checkout_order ::
    "'d billing_env \<Rightarrow> string \<Rightarrow> string \<Rightarrow> payment_webhook \<Rightarrow> order \<Rightarrow> ('d, order) svc" where
  "checkout_order E orgId orderId pw ord =
    bindS (CustomerRepo_FindById orgId (ord_CustomerId ord)) (\<lambda>cu.
    bindS (Generate ''payment_method'') (\<lambda>pid.
    bindS nowS (\<lambda>createdAt.
    bindS nowS (\<lambda>updatedAt.
    bindS (PaymentMethodRepo_Create
      \<lparr> pmd_OrgId = orgId, pmd_Id = pid, pmd_Status = PaymentMethodStatusActive, pmd_Psp = pwh_Psp pw, pmd_Name = ''Default'',
        pmd_CustomerId = ord_CustomerId ord, pmd_BillingAddress = cus_BillingAddress cu, pmd_Type = pwh_MethodType pw,
        pmd_Token = pwh_MethodToken pw, pmd_Details = pwh_MethodDetails pw, pmd_Metadata = Map.empty, pmd_ExpireAt = 0,
        pmd_CreatedAt = createdAt, pmd_UpdatedAt = updatedAt \<rparr>) (\<lambda>pm.
    bindS nowS (\<lambda>now.
    bindS (OrderRepo_Update (ord\<lparr>ord_Status := OrderStatusCompleted, ord_UpdatedAt := now\<rparr>)) (\<lambda>ord.
    bindS (SubscriptionRepo_FindByOrderId orgId orderId) (\<lambda>subs.
    bindS (foldS (checkout_subscription E orgId pw pm) [] subs) (\<lambda>subscriptionId.
    bindS (CouponService_Consume \<lparr> cni_OrgId = orgId, cni_OrderId = orderId, cni_SubscriptionId = subscriptionId,
             cni_StartCycle = 0 \<rparr>) (\<lambda>_.
    bindS (tryS (BuildForOrder E ord) (\<lambda>r. case r of
             Inl e \<Rightarrow> if is_not_found e then retS [] else failS e
           | Inr i \<Rightarrow> retS (inv_Id i))) (\<lambda>invoiceId.
    bindS (if 0 < pwh_Amount pw
           then checkout_payment orgId orderId pw (subs \<noteq> [] \<and> 0 < pwh_Amount pw) subscriptionId invoiceId
           else retS ()) (\<lambda>_.
    retS ord))))))))))))"

definition checkout_tx ::
    "'d billing_env \<Rightarrow> string \<Rightarrow> string \<Rightarrow> payment_webhook \<Rightarrow> ('d, order \<times> bool) svc" where
  "checkout_tx E orgId orderId pw =
    bindS (mapErrS (\<lambda>e. if is_not_found e then WrapError ''order not found'' ErrNotFound else e)
             (OrderRepo_FindByIdForUpdate orgId orderId)) (\<lambda>ord.
    if ord_Status ord = OrderStatusCompleted then retS (ord, False)
    else if ord_Status ord \<noteq> OrderStatusPending then failS (NewCustomError ConflictError ''Order is not pending'' None)
    else bindS (checkout_order E orgId orderId pw ord) (\<lambda>ord. retS (ord, True)))"

definition CompleteCheckoutSession :: "'d billing_env \<Rightarrow> string \<Rightarrow> string \<Rightarrow> payment_webhook \<Rightarrow> ('d, order) svc" where
  "CompleteCheckoutSession E orgId orderId pw =
    bindS (RunInTx (checkout_tx E orgId orderId pw)) (\<lambda>(ord, shouldPublish).
    if shouldPublish then bindS (ignoreS (Publish (ord_OrgId ord) ''order.completed'' (MsgOrder ord))) (\<lambda>_. retS ord)
    else retS ord)"

section \<open>An order is completed once\<close>

text \<open>Completing an order writes its row once, and at most one payment.  The other steps
  write the tables of a frame: a part f of the database outside those tables is kept.\<close>

definition account_frame :: "('d db \<Rightarrow> 'x) \<Rightarrow> bool" where
  "account_frame f \<longleftrightarrow> (\<forall>db a b c d e. f (db\<lparr>t_subscriptions := a\<rparr>) = f db \<and> f (db\<lparr>t_payment_methods := b\<rparr>) = f db \<and>
     f (db\<lparr>t_discounts := c\<rparr>) = f db \<and> f (db\<lparr>t_coupon_codes := d\<rparr>) = f db \<and> f (db\<lparr>t_reservations := e\<rparr>) = f db)"

definition billing_frame :: "('d db \<Rightarrow> 'x) \<Rightarrow> bool" where
  "billing_frame f \<longleftrightarrow> account_frame f \<and> (\<forall>db g h i j. f (db\<lparr>t_invoices := g\<rparr>) = f db \<and>
     f (db\<lparr>t_invoice_lines := h\<rparr>) = f db \<and> f (db\<lparr>t_invoice_counters := i\<rparr>) = f db \<and> f (db\<lparr>t_outbox := j\<rparr>) = f db)"

lemma frames [simp]: "billing_frame t_orders" "billing_frame t_payments" "account_frame t_invoices"
    "billing_frame f \<Longrightarrow> account_frame f"
  by (simp_all add: billing_frame_def account_frame_def)

named_theorems framed

lemma framed_reads [simp, framed]:
  "obeys (same_on f) (SubscriptionRepo_FindByOrderId a b)" "obeys (same_on f) (ReservationRepo_FindByOrder a b)"
  "obeys (same_on f) (CustomerRepo_FindPaymentMethodById a b)" "obeys (same_on f) (CustomerRepo_FindById a b)"
  "obeys (same_on f) (PriceRepo_FindById a b)" "obeys (same_on f) (OrderRepo_FindOrderItemsBySubscriptionId a b)"
  "obeys (same_on f) (OrderRepo_FindOrderItemsByOrderId a b)"
  "obeys (same_on f) (InvoiceRepo_FindById a b)" "obeys (same_on f) (InvoiceRepo_FindOrderInvoice a b)"
  unfolding SubscriptionRepo_FindByOrderId_def ReservationRepo_FindByOrder_def CustomerRepo_FindPaymentMethodById_def
    CustomerRepo_FindById_def PriceRepo_FindById_def OrderRepo_FindOrderItemsBySubscriptionId_def
    OrderRepo_FindOrderItemsByOrderId_def InvoiceRepo_FindById_def InvoiceRepo_FindOrderInvoice_def with_lines_def
  by (auto intro!: keep.obeys_bind)

lemma framed_accounts [framed]:
  assumes "account_frame f"
  shows "obeys (same_on f) (SubscriptionRepo_Update s)" "obeys (same_on f) (PaymentMethodRepo_Create m)"
    "obeys (same_on f) (DiscountRepo_Create d)" "obeys (same_on f) (CouponCodeRepo_IncrementRedeemed a b)"
    "obeys (same_on f) (ReservationRepo_DeleteByOrder a b)"
  unfolding SubscriptionRepo_Update_def SubscriptionRepo_FindById_def PaymentMethodRepo_Create_def
    PaymentMethodRepo_FindById_def DiscountRepo_Create_def DiscountRepo_FindById_def
    CouponCodeRepo_IncrementRedeemed_def ReservationRepo_DeleteByOrder_def
  using assms by (auto intro!: keep.obeys_bind keep_exec simp: account_frame_def)

lemma framed_invoices [framed]:
  assumes "billing_frame f"
  shows "obeys (same_on f) (InvoiceRepo_Update i)" "obeys (same_on f) (InvoiceRepo_NextInvoiceNumber a)"
    "obeys (same_on f) (InvoiceRepo_Create i)"
  unfolding InvoiceRepo_Update_def InvoiceRepo_NextInvoiceNumber_def InvoiceRepo_Create_def
  using assms
  by (auto intro!: keep.obeys_intros keep_exec keep.obeys_stmt framed_reads
      simp: billing_frame_def same_on_def insert_invoice_def insert_line_def Let_def split: option.splits if_splits)

lemma framed_Publish [framed]: "billing_frame f \<Longrightarrow> obeys (same_on f) (Publish a t m)"
  by (rule keep_Publish) (simp add: billing_frame_def)

lemma framed_invoice [framed]:
  fixes f :: "'d db \<Rightarrow> 'x"
  assumes f: "billing_frame f"
  shows "obeys (same_on f) (SettleOrderInvoice a b :: ('d, unit) svc)" "obeys (same_on f) (BuildForOrder E ord)"
proof -
  have t: "obeys (same_on f) (invoice_transition a b g)" for a b and g :: "'d invoice \<Rightarrow> 'd invoice res"
    unfolding invoice_transition_def by (intro keep.obeys_bind framed f) simp_all
  show "obeys (same_on f) (SettleOrderInvoice a b :: ('d, unit) svc)"
    unfolding SettleOrderInvoice_def InvoiceService_MarkOpen_def InvoiceService_MarkSettled_def
    by (auto intro!: keep.obeys_bind keep.obeys_mapErr t)
  have "obeys (same_on f) (build_order E ord)"
    unfolding build_order_def number_and_create_def Let_def
    by (auto intro!: keep.obeys_intros framed f keep_lines keep_reference frames(4))
  then show "obeys (same_on f) (BuildForOrder E ord)"
    unfolding BuildForOrder_def by (intro keep.obeys_tryS framed) (auto split: sum.split)
qed

lemma framed_consume [framed]: "account_frame f \<Longrightarrow> obeys (same_on f) (CouponService_Consume inp)"
  unfolding CouponService_Consume_def
  by (intro keep.obeys_tx keep.obeys_bind framed)
    (auto intro!: keep.obeys_bind keep.obeys_tryS framed split: list.split sum.split)

lemma framed_complete [framed]:
  assumes "account_frame f"
  shows "obeys (same_on f) (complete_method u inp ord)" "obeys (same_on f) (activate_subscription inp pm p s)"
    "obeys (same_on f) (checkout_subscription E o1 pw pm acc s)"
  unfolding complete_method_def activate_subscription_def checkout_subscription_def fixedBaseAmount_def Let_def
  by (auto intro!: keep.obeys_intros framed assms split: option.split)

lemma orders_kept_payments [framed]: "obeys (same_on t_orders) (PaymentRepo_Create p)"
  "obeys (same_on t_orders) (settle_order E inp ord act p)" "obeys (same_on t_orders) (checkout_payment o1 i pw rec sid iid)"
proof -
  show p: "obeys (same_on t_orders) (PaymentRepo_Create p)" for p
    unfolding PaymentRepo_Create_def PaymentRepo_FindById_def by (auto intro!: keep.obeys_bind keep_exec)
  show "obeys (same_on t_orders) (settle_order E inp ord act p)" "obeys (same_on t_orders) (checkout_payment o1 i pw rec sid iid)"
    unfolding settle_order_def order_payment_def checkout_payment_def Let_def
    by (auto intro!: keep.obeys_intros framed p split: sum.split list.split)
qed

lemma order_SetMetadata_fields [simp]: "ord_key (order_SetMetadata o1 m) = ord_key o1"
    "ord_Status (order_SetMetadata o1 m) = ord_Status o1" "ord_OrgId (order_SetMetadata o1 m) = ord_OrgId o1"
    "ord_Id (order_SetMetadata o1 m) = ord_Id o1"
  by (simp_all add: order_SetMetadata_def ord_key_def)

lemma OrderRepo_FindById_ok: "OrderRepo_FindById o1 i w = (Inr r, w1) \<Longrightarrow>
    w_db w1 = w_db w \<and> find_row ord_key (o1, i) (t_orders (w_db w)) = Some r \<and> ord_key r = (o1, i)"
  by (auto simp: OrderRepo_FindById_def ok_simps dest: find_row_key)

lemma OrderRepo_Update_ok:
  assumes "OrderRepo_Update o1 w = (Inr r, w1)"
  shows "w_db w1 = (w_db w)\<lparr>t_orders := update_row ord_key ord_merge o1 (t_orders (w_db w))\<rparr> \<and>
    (\<exists>old. find_row ord_key (ord_key o1) (t_orders (w_db w)) = Some old \<and> r = ord_merge old o1) \<and>
    find_row ord_key (ord_key o1) (t_orders (w_db w1)) = Some r"
proof -
  have k: "ord_key (ord_merge old o1) = ord_key o1" for old by (simp add: ord_key_def ord_merge_def)
  from assms obtain db where d: "w_db w1 = (w_db w)\<lparr>t_orders := update_row ord_key ord_merge o1 (t_orders (w_db w))\<rparr>"
      and "find_row ord_key (ord_OrgId o1, ord_Id o1) (t_orders (w_db w1)) = Some r"
    by (auto simp: OrderRepo_Update_def OrderRepo_FindById_def ok_simps)
  then have f: "find_row ord_key (ord_key o1) (t_orders (w_db w1)) = Some r" by (simp add: ord_key_def)
  then show ?thesis using d k by (auto simp: find_row_update)
qed

text \<open>The order's row, before and after a completion.\<close>

definition order_at :: "'d db \<Rightarrow> string \<Rightarrow> string \<Rightarrow> order option" where
  "order_at db orgId oid = find_row ord_key (orgId, oid) (t_orders db)"

definition is_completed :: "'d db \<Rightarrow> string \<Rightarrow> string \<Rightarrow> bool" where
  "is_completed db orgId oid \<longleftrightarrow> (\<exists>o1. order_at db orgId oid = Some o1 \<and> ord_Status o1 = OrderStatusCompleted)"

lemma order_at_cong: "t_orders a = t_orders b \<Longrightarrow> order_at a o1 i = order_at b o1 i"
  by (simp add: order_at_def)

lemma orders_kept_steps: "obeys (same_on t_orders) (complete_steps E u inp ord)"
  unfolding complete_steps_def Let_def by (auto intro!: keep.obeys_intros framed)

text \<open>The two statements both completions begin with.\<close>

lemma completed_row:
  assumes "order_at (w_db w) a i = Some ord" and "OrderRepo_Update o1 w1 = (Inr r, w2)"
    and "ord_key o1 = ord_key ord" and "ord_Status o1 = OrderStatusCompleted"
    and "t_orders (w_db w1) = t_orders (w_db w)" and "t_orders (w_db w3) = t_orders (w_db w2)"
  shows "is_completed (w_db w3) a i"
proof -
  have "ord_key ord = (a, i)" using assms(1) by (auto simp: order_at_def dest: find_row_key)
  then have "find_row ord_key (a, i) (t_orders (w_db w3)) = Some r" and "ord_Status r = OrderStatusCompleted"
    using OrderRepo_Update_ok[OF assms(2)] assms by (auto simp: ord_merge_def)
  then show ?thesis by (simp add: is_completed_def order_at_def)
qed

lemma complete_order_row:
  assumes "complete_order_tx E u inp w = (Inr (o1, act), w1)"
  obtains ord where "order_at (w_db w) (cmi_OrgId inp) (cmi_Id inp) = Some ord" and "ord_Status ord = OrderStatusPending"
    and "is_completed (w_db w1) (cmi_OrgId inp) (cmi_Id inp)" and "ord_Status o1 = OrderStatusCompleted"
proof -
  from assms obtain ord w2 r w4 where l: "OrderRepo_FindById (cmi_OrgId inp) (cmi_Id inp) w = (Inr ord, w2)"
      and p: "ord_Status ord = OrderStatusPending" and k: "ord_key o1 = ord_key ord"
      and st: "ord_Status o1 = OrderStatusCompleted"
      and up: "OrderRepo_Update o1 (w2\<lparr>w_ticks := Suc (w_ticks w2)\<rparr>) = (Inr r, w4)" and rest: "complete_steps E u inp o1 w4 = (Inr act, w1)"
    unfolding complete_order_tx_def Let_def
    by (elim bindS_InrE) (auto simp: mapErrS_Inr bindS_Inr ord_key_def split: if_splits)
  have o: "order_at (w_db w) (cmi_OrgId inp) (cmi_Id inp) = Some ord" and "w_db w2 = w_db w"
    using OrderRepo_FindById_ok[OF l] by (simp_all add: order_at_def)
  then show thesis
    by (intro that[OF o p _ st] completed_row[OF o up k st]) (simp_all add: keeps[OF orders_kept_steps rest])
qed

lemma checkout_row:
  assumes "checkout_tx E a i pw w = (Inr (o1, fresh), w1)"
  obtains ord where "order_at (w_db w) a i = Some ord" and "is_completed (w_db w1) a i"
    and "ord_Status ord = OrderStatusCompleted \<and> \<not> fresh \<and> w_db w1 = w_db w \<or> ord_Status ord = OrderStatusPending \<and> fresh"
proof -
  from assms obtain ord w2 where l: "OrderRepo_FindByIdForUpdate a i w = (Inr ord, w2)"
    unfolding checkout_tx_def by (elim bindS_InrE) (auto simp: mapErrS_Inr)
  have o: "order_at (w_db w) a i = Some ord" and db: "w_db w2 = w_db w"
    using l by (auto simp: OrderRepo_FindByIdForUpdate_def order_at_def ok_simps)
  show thesis
  proof (cases "ord_Status ord = OrderStatusCompleted")
    case True
    then show thesis using assms l db o that unfolding checkout_tx_def by (auto simp: bindS_Inr mapErrS_Inr is_completed_def)
  next
    case False
    then have p: "ord_Status ord = OrderStatusPending" and run: "checkout_order E a i pw ord w2 = (Inr o1, w1)" and d: fresh
      using assms l unfolding checkout_tx_def by (auto simp: bindS_Inr mapErrS_Inr split: if_splits)
    define tail where "tail pm ord = bindS (SubscriptionRepo_FindByOrderId a i) (\<lambda>subs.
        bindS (foldS (checkout_subscription E a pw pm) [] subs) (\<lambda>subscriptionId.
        bindS (CouponService_Consume \<lparr> cni_OrgId = a, cni_OrderId = i, cni_SubscriptionId = subscriptionId, cni_StartCycle = 0 \<rparr>) (\<lambda>_.
        bindS (tryS (BuildForOrder E ord) (\<lambda>r. case r of
             Inl e \<Rightarrow> if is_not_found e then retS [] else failS e | Inr i \<Rightarrow> retS (inv_Id i))) (\<lambda>invoiceId.
        bindS (if 0 < pwh_Amount pw then checkout_payment a i pw (subs \<noteq> [] \<and> 0 < pwh_Amount pw) subscriptionId invoiceId
           else retS ()) (\<lambda>_. retS ord)))))" for pm ord
    have tail: "obeys (same_on t_orders) (tail pm ord)" for pm ord
      unfolding tail_def by (auto intro!: keep.obeys_intros framed split: sum.split)
    from run obtain cu pid t1 t2 t3 pm r w3 w5 w6 where
      c: "CustomerRepo_FindById a (ord_CustomerId ord) w2 = (Inr cu, w3)" and m: "t_orders (w_db w5) = t_orders (w_db w3)"
      and u: "OrderRepo_Update (ord\<lparr>ord_Status := OrderStatusCompleted, ord_UpdatedAt := t3\<rparr>) (w5\<lparr>w_ticks := Suc (w_ticks w5)\<rparr>) = (Inr r, w6)"
      and rest: "tail pm r w6 = (Inr o1, w1)"
      unfolding checkout_order_def tail_def[symmetric] by (auto simp: bindS_Inr dest!: keeps[OF framed_accounts(2)[OF frames(4)[OF frames(1)]]])
    show thesis
    proof (rule that[OF o])
      show "is_completed (w_db w1) a i"
        using completed_row[OF o u] keeps[OF framed_reads(4)[of "\<lambda>d. d"] c] m db keeps[OF tail rest]
        by (simp add: ord_key_def)
    qed (simp add: p d)
  qed
qed

section \<open>What a completion records\<close>

text \<open>The invoices of an order; settling one pays it and takes it to no other order.\<close>

definition order_bills :: "'d db \<Rightarrow> string \<Rightarrow> string \<Rightarrow> 'd invoice list" where
  "order_bills db orgId orderId = filter (\<lambda>j. inv_OrgId j = orgId \<and> inv_OrderId j = orderId \<and> inv_Cycle j = 0) (t_invoices db)"

lemma transition_bill:
  assumes "invoice_transition o1 i (transition_to st) w = (Inr j, w1)" and "invoices_distinct (w_db w)"
    and "x \<in> set (order_bills (w_db w) o1 oid)" and "inv_Id x = i"
  shows "\<exists>y\<in>set (order_bills (w_db w1) o1 oid). inv_Id y = i \<and> inv_Status y = st"
proof -
  from invoice_transition_rows[OF assms(1)] obtain old t where old: "invoice_at (w_db w) (o1, i) = Some old"
    and db: "w_db w1 = (w_db w)\<lparr>t_invoices := update_row inv_key inv_merge (old\<lparr>inv_Status := st, inv_UpdatedAt := t\<rparr>) (t_invoices (w_db w))\<rparr>"
    by blast
  have x: "x \<in> set (t_invoices (w_db w))" "inv_key x = (o1, i)" "inv_OrgId x = o1" "inv_OrderId x = oid" "inv_Cycle x = 0"
    using assms(3,4) by (auto simp: order_bills_def inv_key_def)
  obtain r where r: "find_row inv_key (o1, i) (t_invoices (w_db w)) = Some r" "old = hydrate (w_db w) r"
    using old by (auto simp: invoice_at_def)
  have "inv_key r = inv_key x" "r \<in> set (t_invoices (w_db w))" using find_row_key[OF r(1)] x(2) by auto
  then have "r = x" using x(1) assms(2) by (auto simp: invoices_distinct_def distinct_map dest: inj_onD)
  then have "inv_merge x (old\<lparr>inv_Status := st, inv_UpdatedAt := t\<rparr>) \<in> set (t_invoices (w_db w1))"
    using x r(2) by (auto simp: db update_row_def hydrate_def inv_key_def image_iff intro!: bexI[of _ x])
  then show ?thesis
    using x r(2) \<open>r = x\<close> assms(4)
    by (intro bexI[of _ "inv_merge x (old\<lparr>inv_Status := st, inv_UpdatedAt := t\<rparr>)"]) (auto simp: order_bills_def inv_merge_def hydrate_def)
qed

lemma settled_invoice:
  assumes "SettleOrderInvoice o1 i w = (Inr (u :: unit), w1)" and "i \<noteq> []" and "invoices_distinct (w_db w)"
    and "x \<in> set (order_bills (w_db w) o1 oid)" and "inv_Id x = i"
  shows "(\<exists>rows. w_db w1 = (w_db w)\<lparr>t_invoices := rows\<rparr>) \<and>
    (\<exists>y\<in>set (order_bills (w_db w1) o1 oid). inv_Id y = i \<and> inv_Status y = InvoiceStatusPaid)"
proof -
  from assms(1,2) obtain j1 w2 j2 where a: "InvoiceService_MarkOpen o1 i w = (Inr (j1 :: 'a invoice), w2)"
    and b: "InvoiceService_MarkSettled o1 i w2 = (Inr (j2 :: 'a invoice), w1)"
    by (auto simp: SettleOrderInvoice_def bindS_Inr mapErrS_Inr)
  note a' = a[unfolded InvoiceService_MarkOpen_def invoice_MarkOpen_def[abs_def]]
  note b' = b[unfolded InvoiceService_MarkSettled_def invoice_MarkPaid_def[abs_def]]
  from transition_bill[OF a' assms(3-5)] obtain y where "y \<in> set (order_bills (w_db w2) o1 oid)" "inv_Id y = i" by blast
  from transition_bill[OF b' transition_distinct[OF a' assms(3)] this] show ?thesis
    using invoice_transition_ok[OF a'] invoice_transition_ok[OF b'] by auto
qed

lemma BuildForOrder_bill:
  assumes "BuildForOrder E ord w = (r, w1)" and "ord_Id ord \<noteq> []"
  shows "case r of
      Inl e \<Rightarrow> w_db w1 = w_db w \<and> (is_not_found e \<longrightarrow> order_bills (w_db w) (ord_OrgId ord) (ord_Id ord) = [])
    | Inr i \<Rightarrow> (invoices_distinct (w_db w) \<longrightarrow> invoices_distinct (w_db w1)) \<and>
        (\<exists>x\<in>set (order_bills (w_db w1) (ord_OrgId ord) (ord_Id ord)). inv_Id x = inv_Id i)"
proof -
  have bills: "set (order_invoices db ord) = set (order_bills db (ord_OrgId ord) (ord_Id ord))" for db :: "'a db"
    using assms(2) by (auto simp: order_invoices_def order_bills_def col_eq_def)
  obtain r0 w0 where f: "InvoiceRepo_FindOrderInvoice (ord_OrgId ord) (ord_Id ord) w = (r0, w0)" by (metis surj_pair)
  note k = order_read[OF f]
  show ?thesis
  proof (cases r0)
    case (Inr j)
    then have "r = Inr j" "w1 = w0" using assms(1) f by (simp_all add: BuildForOrder_def tryS_def)
    moreover obtain x xs where "order_invoices (w_db w) ord = x # xs" "j = hydrate (w_db w) x" using k Inr by auto
    moreover from this have "x \<in> set (order_bills (w_db w) (ord_OrgId ord) (ord_Id ord))" by (metis bills list.set_intros(1))
    ultimately show ?thesis using k by (auto simp: hydrate_def)
  next
    case (Inl e0)
    show ?thesis
    proof (cases "is_not_found e0")
      case True
      then have none: "order_bills (w_db w) (ord_OrgId ord) (ord_Id ord) = []" using k Inl bills[of "w_db w"] by auto
      from True have b: "build_order E ord w0 = (r, w1)" using assms(1) f Inl by (simp add: BuildForOrder_def tryS_def)
      show ?thesis
      proof (cases r)
        case (Inl e)
        have fold: "obeys (same_on (\<lambda>d. d)) (foldS (order_line E ord q) i items)" for q i items
          by (rule keep.obeys_fold) (rule keep_lines)
        have whole: "all_or_nothing (build_order E ord)"
          unfolding build_order_def number_and_create_def Let_def
          by (intro atomic_bind framed_reads fold keep_lines atomic_tx) (auto intro!: atomic_bind fold keep_lines atomic_tx)
        then show ?thesis using all_or_nothingD[OF whole b[unfolded Inl]] k none Inl by simp
      next
        case (Inr i)
        from build_order_ok[OF b[unfolded Inr]] obtain x iid now q where d: "drafted (order_invoice ord q iid now) x"
          and x: "w_db w1 = stored (w_db w0) (ord_OrgId ord) x" "\<forall>b\<in>set (t_invoices (w_db w0)). \<not> inv_clash x b"
            "i = hydrate (w_db w1) (x\<lparr>inv_LineItems := []\<rparr>)" by blast
        have h: "inv_OrgId x = ord_OrgId ord" "inv_OrderId x = ord_Id ord" "inv_Cycle x = 0"
          using d header_fields unfolding drafted_def by (fastforce simp: order_invoice_def Let_def split: prod.splits)+
        then have "x\<lparr>inv_LineItems := []\<rparr> \<in> set (order_bills (w_db w1) (ord_OrgId ord) (ord_Id ord))"
          using x(1) by (simp add: order_bills_def stored_def)
        moreover have "invoices_distinct (w_db w) \<longrightarrow> invoices_distinct (w_db w1)"
          using x(1,2) k by (auto simp: invoices_distinct_def stored_def inv_key_def inv_clash_def)
        ultimately show ?thesis using Inr x(3) by (auto simp: hydrate_def intro!: bexI[of _ "x\<lparr>inv_LineItems := []\<rparr>"])
      qed
    next
      case False
      then show ?thesis using assms(1) f Inl k by (auto simp: BuildForOrder_def tryS_def)
    qed
  qed
qed

lemma BuildForOrder_Id:
  assumes "BuildForOrder E ord w = (Inr i, w1)" and "\<forall>j\<in>set (t_invoices (w_db w)). inv_Id j \<noteq> []"
  shows "inv_Id i \<noteq> []"
proof -
  obtain r0 w0 where f: "InvoiceRepo_FindOrderInvoice (ord_OrgId ord) (ord_Id ord) w = (r0, w0)" by (metis surj_pair)
  note k = order_read[OF f]
  show ?thesis
  proof (cases r0)
    case (Inr j)
    then obtain x where "x \<in> set (order_invoices (w_db w) ord)" and "i = hydrate (w_db w) x"
      using k assms(1) f by (metis (no_types, lifting) BuildForOrder_def Inr case_prod_conv list.set_intros(1) old.sum.simps(6) prod.inject retS_apply sum.inject(2) tryS_def)
    then show ?thesis using assms(2) by (auto simp: order_invoices_def hydrate_def)
  next
    case (Inl e)
    then have "build_order E ord w0 = (Inr i, w1)" using assms(1) f by (simp add: BuildForOrder_def tryS_def split: if_splits)
    from build_order_ok[OF this] obtain x iid now s where "drafted (order_invoice ord s iid now) x"
      and "i = hydrate (w_db w1) (x\<lparr>inv_LineItems := []\<rparr>)" and "iid \<noteq> []" by auto
    then show ?thesis using header_fields unfolding drafted_def
      by (fastforce simp: order_invoice_def hydrate_def Let_def split: prod.splits)
  qed
qed

text \<open>What a completion with a payment leaves behind: the payment, the order's invoice it is for paid, the event last.\<close>

definition payment_booked :: "'d db \<Rightarrow> 'd db \<Rightarrow> complete_order_input \<Rightarrow> payment \<Rightarrow> bool" where
  "payment_booked db db1 inp p \<longleftrightarrow>
    t_payments db1 = t_payments db @ [p] \<and> pay_OrgId p = cmi_OrgId inp \<and> pay_OrderId p = cmi_Id inp \<and>
    pay_Amount p = cop_Amount (cmi_Payment inp) \<and> pay_Status p = PaymentStatusSucceeded \<and>
    (\<exists>j\<in>set (order_bills db1 (cmi_OrgId inp) (cmi_Id inp)). inv_Id j = pay_InvoiceId p \<and> inv_Status j = InvoiceStatusPaid) \<and>
    (\<exists>evs ev. t_outbox db1 = evs @ [ev] \<and> obx_Topic ev = ''order.completed'')"

definition books :: "'d db \<Rightarrow> 'd db \<Rightarrow> complete_order_input \<Rightarrow> bool" where
  "books db db1 inp \<longleftrightarrow>
    (if 0 < cop_Amount (cmi_Payment inp) \<and> order_bills db1 (cmi_OrgId inp) (cmi_Id inp) \<noteq> []
     then \<exists>p. payment_booked db db1 inp p else t_payments db1 = t_payments db) \<and>
    (order_bills db (cmi_OrgId inp) (cmi_Id inp) \<noteq> [] \<longrightarrow> order_bills db1 (cmi_OrgId inp) (cmi_Id inp) \<noteq> [])"

lemma books_cong: "t_payments db = t_payments db' \<Longrightarrow> t_invoices db = t_invoices db' \<Longrightarrow> books db db1 inp = books db' db1 inp"
proof -
  assume a: "t_payments db = t_payments db'" "t_invoices db = t_invoices db'"
  then have "payment_booked db db1 inp = payment_booked db' db1 inp" by (intro ext) (simp add: payment_booked_def)
  with a show ?thesis by (simp add: books_def order_bills_def)
qed

lemma settle_order_ok:
  assumes "settle_order E inp ord act (first_payment inp subs) w = (Inr u, w1)"
    and "\<forall>j\<in>set (t_invoices (w_db w)). inv_Id j \<noteq> []" and "ord_OrgId ord = cmi_OrgId inp" and "ord_Id ord = cmi_Id inp"
    and "invoices_distinct (w_db w)" and "cmi_Id inp \<noteq> []"
  shows "books (w_db w) (w_db w1) inp"
proof -
  let ?p = "first_payment inp subs" and ?bills = "\<lambda>db. order_bills db (cmi_OrgId inp) (cmi_Id inp)"
  obtain r w2 where b: "BuildForOrder E ord w = (r, w2)" by (metis surj_pair)
  have pw2: "t_payments (w_db w2) = t_payments (w_db w)" by (rule keeps[OF framed_invoice(2)[OF frames(2)] b])
  have bill: "case r of Inl e \<Rightarrow> w_db w2 = w_db w \<and> (is_not_found e \<longrightarrow> ?bills (w_db w) = [])
    | Inr i \<Rightarrow> (invoices_distinct (w_db w) \<longrightarrow> invoices_distinct (w_db w2)) \<and> (\<exists>x\<in>set (?bills (w_db w2)). inv_Id x = inv_Id i)"
    using BuildForOrder_bill[OF b] assms(3,4,6) by (cases r) auto
  show ?thesis
  proof (cases r)
    case (Inl e)
    then have "w1 = w2" "is_not_found e" using assms(1) b by (auto simp: settle_order_def tryS_def split: if_splits)
    then show ?thesis using pw2 bill Inl by (simp add: books_def)
  next
    case (Inr i)
    note ne = BuildForOrder_Id[OF b[unfolded Inr] assms(2)]
    from bill Inr assms(5) obtain x where x: "x \<in> set (?bills (w_db w2))" "inv_Id x = inv_Id i" and d2: "invoices_distinct (w_db w2)" by auto
    show ?thesis
    proof (cases "0 < cop_Amount (cmi_Payment inp)")
      case False
      then have "Publish (ord_OrgId ord) ''order.completed'' (MsgOrder ord) w2 = (Inr u, w1)"
        using assms(1) b Inr by (simp add: settle_order_def tryS_def)
      from Publish_ok[OF this] show ?thesis using pw2 False x(1) by (auto simp: books_def order_bills_def filter_empty_conv)
    next
      case True
      with assms(1) b Inr obtain q w3 w4 where o: "order_payment inp ord act ?p (inv_Id i) w2 = (Inr q, w3)"
        and s: "SettleOrderInvoice (cmi_OrgId inp) (inv_Id i) w3 = (Inr (), w4)"
        and e: "Publish (ord_OrgId ord) ''order.completed'' (MsgOrder ord) w4 = (Inr u, w1)"
        using assms(3) by (auto simp: settle_order_def tryS_def bindS_Inr)
      from o obtain p w2' where c: "PaymentRepo_Create p w2' = (Inr q, w3)" and d: "w_db w2' = w_db w2"
        and pf: "pay_OrgId p = cmi_OrgId inp" "pay_OrderId p = cmi_Id inp" "pay_Amount p = cop_Amount (cmi_Payment inp)"
          "pay_Status p = PaymentStatusSucceeded" "pay_InvoiceId p = inv_Id i"
        unfolding order_payment_def Let_def using True assms(3,4)
        by (fastforce simp: bindS_Inr first_payment_def Let_def zero_payment_def split: list.splits)
      have w3: "t_invoices (w_db w3) = t_invoices (w_db w2)" using PaymentRepo_Create_ok[OF c] d by simp
      then have "invoices_distinct (w_db w3)" "x \<in> set (?bills (w_db w3))" using d2 x by (simp_all add: invoices_distinct_def order_bills_def)
      from settled_invoice[OF s ne this x(2)] obtain y rows where j: "w_db w4 = (w_db w3)\<lparr>t_invoices := rows\<rparr>"
        "y \<in> set (?bills (w_db w4))" "inv_Id y = inv_Id i" "inv_Status y = InvoiceStatusPaid" by blast
      from Publish_ok[OF e] obtain ev where v: "w_db w1 = (w_db w4)\<lparr>t_outbox := t_outbox (w_db w4) @ [ev]\<rparr>"
        "obx_Topic ev = ''order.completed''" by blast
      have bills: "?bills (w_db w1) = ?bills (w_db w4)" using v by (simp add: order_bills_def)
      have "payment_booked (w_db w) (w_db w1) inp p"
        using PaymentRepo_Create_ok[OF c] pw2 d pf j v unfolding payment_booked_def bills by auto
      moreover have "?bills (w_db w1) \<noteq> []" using j(2) bills by auto
      ultimately show ?thesis using True by (auto simp: books_def)
    qed
  qed
qed

lemma complete_method_ok: "complete_method u inp ord w = (Inr pm, w1) \<Longrightarrow> com_Token (cmi_PaymentMethod inp) = [] \<Longrightarrow>
    cmi_PaymentMethodId inp \<noteq> [] \<Longrightarrow> pmd_Id pm = cmi_PaymentMethodId inp"
  by (auto simp: complete_method_def bindS_Inr mapErrS_Inr CustomerRepo_FindPaymentMethodById_def ok_simps dest!: find_row_key split: if_splits)

lemma activate_subscription_ok: "activate_subscription inp pm p s w = (Inr s1, w1) \<Longrightarrow>
    sub_Id s1 = sub_Id s \<and> sub_Status s1 = SubscriptionStatusActive \<and> sub_PaymentMethodId s1 = pmd_Id pm"
  unfolding activate_subscription_def Let_def
  by (auto simp: bindS_Inr sub_merge_def SetActive_def SetActivationDates_def subscription_SetMetadata_def Let_def
      dest!: SubscriptionRepo_Update_ok)

lemma complete_steps_ok:
  assumes "complete_steps E u inp ord w = (Inr act, w1)"
    and "\<forall>j\<in>set (t_invoices (w_db w)). inv_Id j \<noteq> []" and "ord_OrgId ord = cmi_OrgId inp" and "ord_Id ord = cmi_Id inp"
    and "invoices_distinct (w_db w)" and "cmi_Id inp \<noteq> []"
  shows "books (w_db w) (w_db w1) inp \<and>
    (\<exists>pm. (com_Token (cmi_PaymentMethod inp) = [] \<longrightarrow> cmi_PaymentMethodId inp \<noteq> [] \<longrightarrow> pm = cmi_PaymentMethodId inp) \<and>
      (\<forall>s\<in>set act. sub_Status s = SubscriptionStatusActive \<and> sub_PaymentMethodId s = pm))"
proof -
  from assms(1) obtain pm w2 where a: "complete_method u inp ord w = (Inr pm, w2)"
    and "tryS (SubscriptionRepo_FindByOrderId (cmi_OrgId inp) (cmi_Id inp)) (\<lambda>r.
      let subs = (case r of Inr ss \<Rightarrow> ss | Inl _ \<Rightarrow> []); p = first_payment inp subs in
      bindS (mapS (activate_subscription inp pm p) subs) (\<lambda>activated.
      bindS (CouponService_Consume \<lparr> cni_OrgId = cmi_OrgId inp, cni_OrderId = ord_Id ord,
             cni_SubscriptionId = (case activated of [] \<Rightarrow> [] | s # _ \<Rightarrow> sub_Id s), cni_StartCycle = 0 \<rparr>) (\<lambda>_.
      bindS (settle_order E inp ord activated p) (\<lambda>_. retS activated)))) w2 = (Inr act, w1)"
    unfolding complete_steps_def by (elim bindS_InrE)
  then obtain r w3 subs d x w4 w5 where b: "SubscriptionRepo_FindByOrderId (cmi_OrgId inp) (cmi_Id inp) w2 = (r, w3)"
    and c: "mapS (activate_subscription inp pm (first_payment inp subs)) subs w3 = (Inr act, w4)"
    and e: "CouponService_Consume d w4 = (Inr x, w5)" and f: "settle_order E inp ord act (first_payment inp subs) w5 = (Inr (), w1)"
    by (auto simp: tryS_def bindS_Inr Let_def case_prod_beta) (metis surjective_pairing)
  have k: "g (w_db w5) = g (w_db w)" if "account_frame g" for g
    using keeps[OF framed_complete(1)[OF that] a] keeps[OF framed_reads(1)[of g] b]
      keeps[OF keep.obeys_map[OF framed_complete(2)[OF that]] c] keeps[OF framed_consume[OF that] e] by simp
  have "list_all2 (\<lambda>_ s. sub_Status s = SubscriptionStatusActive \<and> sub_PaymentMethodId s = pmd_Id pm) subs act"
    by (rule mapS_all2[OF c]) (auto dest: activate_subscription_ok)
  then have "\<forall>s\<in>set act. sub_Status s = SubscriptionStatusActive \<and> sub_PaymentMethodId s = pmd_Id pm"
    by (auto simp: list_all2_conv_all_nth in_set_conv_nth)
  moreover have "books (w_db w5) (w_db w1) inp"
    using assms(2,5) k[OF frames(3)] by (intro settle_order_ok[OF f _ assms(3,4) _ assms(6)]) (simp_all add: invoices_distinct_def)
  then have "books (w_db w) (w_db w1) inp"
    using books_cong[of "w_db w5" "w_db w" "w_db w1" inp] k[of t_payments] k[OF frames(3)] by simp
  ultimately show ?thesis using complete_method_ok[OF a] by blast
qed

lemma CompleteOrder_run:
  assumes "CompleteOrder E u inp w = (r, w1)"
  shows "if isl r then w_db w1 = w_db w else is_completed (w_db w1) (cmi_OrgId inp) (cmi_Id inp) \<and>
    (\<exists>old. order_at (w_db w) (cmi_OrgId inp) (cmi_Id inp) = Some old \<and> ord_Status old = OrderStatusPending)"
proof (cases r)
  case (Inl e)
  then show ?thesis using RunInTx_Inl assms by (fastforce simp: CompleteOrder_def)
next
  case (Inr x)
  from RunInTx_Inr[OF assms[unfolded CompleteOrder_def Inr]] obtain w2
    where "complete_order_tx E u inp (w\<lparr>w_stmts := Suc (w_stmts w), w_tx := True\<rparr>) = (Inr x, w2)" and "w_db w1 = w_db w2" by auto
  then show ?thesis using Inr by (cases x) (auto elim!: complete_order_row)
qed

lemma CompleteCheckoutSession_run:
  fixes w :: "'d world"
  assumes "CompleteCheckoutSession E a i pw w = (r, w1)"
  shows "(isl r \<longrightarrow> w_db w1 = w_db w) \<and>
    (\<not> isl r \<longrightarrow> is_completed (w_db w1) a i \<and> (\<exists>old. order_at (w_db w) a i = Some old \<and>
      (ord_Status old = OrderStatusPending \<or> ord_Status old = OrderStatusCompleted \<and> w_db w1 = w_db w)))"
proof -
  obtain q w2 where q: "RunInTx (checkout_tx E a i pw) w = (q, w2)" by (metis surj_pair)
  show ?thesis
  proof (cases q)
    case (Inl e)
    then have "r = Inl e" "w1 = w2" using assms q by (auto simp: CompleteCheckoutSession_def bindS_def)
    then show ?thesis using RunInTx_Inl[of "checkout_tx E a i pw" w e w2] q Inl by simp
  next
    case (Inr x)
    then obtain o1 b where x: "q = Inr (o1, b)" by (cases x) simp
    from RunInTx_Inr[OF q[unfolded x]] obtain w3
      where "checkout_tx E a i pw (w\<lparr>w_stmts := Suc (w_stmts w), w_tx := True\<rparr>) = (Inr (o1, b), w3)" and "w_db w2 = w_db w3" by auto
    then obtain ord where c: "is_completed (w_db w2) a i" and o: "order_at (w_db w) a i = Some ord"
      and n: "ord_Status ord = OrderStatusCompleted \<and> \<not> b \<and> w_db w2 = w_db w \<or> ord_Status ord = OrderStatusPending \<and> b"
      by (auto elim!: checkout_row)
    obtain r3 w3 where p: "ignoreS (Publish (ord_OrgId o1) ''order.completed'' (MsgOrder o1)) w2 = (r3, w3)"
      by (metis surj_pair)
    have k: "t_orders (w_db w3) = t_orders (w_db w2)"
      by (rule keeps[OF keep.obeys_ignore[OF framed_Publish[OF frames(1)]] p])
    have "r3 = Inr ()" using p by (simp add: ignoreS_def)
    then have "r = Inr o1 \<and> w1 = (if b then w3 else w2)" using assms q p x by (cases b) (simp_all add: CompleteCheckoutSession_def bindS_def)
    then show ?thesis using c k n o by (auto simp: is_completed_def order_at_def)
  qed
qed

text \<open>C16: An order is completed once.  A completion, by the caller or by the payment
  webhook, succeeds only on a stored order that is pending (the webhook also answers for a completed one,
  and then changes nothing) and leaves it completed; once it is completed, completing it by the caller
  is refused, so no second payment, activation or invoice comes of
  a retry or of both paths being taken.  A completion that fails changes nothing.\<close>

theorem order_completed_once:
  fixes w :: "'d world"
  shows "(CompleteOrder E u inp w = (Inr (o1, act), w1) \<longrightarrow> cmi_OrgId inp = a \<and> cmi_Id inp = i \<longrightarrow>
      (\<exists>old. order_at (w_db w) a i = Some old \<and> ord_Status old = OrderStatusPending) \<and> is_completed (w_db w1) a i) \<and>
    (CompleteOrder E u inp w = (Inl e, w1) \<longrightarrow> w_db w1 = w_db w) \<and>
    (CompleteCheckoutSession E a i pw w = (Inr o2, w2) \<longrightarrow> is_completed (w_db w2) a i \<and>
      (\<exists>old. order_at (w_db w) a i = Some old \<and>
        (ord_Status old = OrderStatusPending \<or> ord_Status old = OrderStatusCompleted \<and> w_db w2 = w_db w))) \<and>
    (CompleteCheckoutSession E a i pw w = (Inl e2, w2) \<longrightarrow> w_db w2 = w_db w) \<and>
    (is_completed (w_db w) (cmi_OrgId inp) (cmi_Id inp) \<longrightarrow>
      isl (fst (CompleteOrder E u inp w)) \<and> w_db (snd (CompleteOrder E u inp w)) = w_db w) \<and>
    (is_completed (w_db w) a i \<longrightarrow> w_db (snd (CompleteCheckoutSession E a i pw w)) = w_db w)"
proof -
  obtain r1 w2 where a1: "CompleteOrder E u inp w = (r1, w2)" by (metis surj_pair)
  obtain r2 w3 where a2: "CompleteCheckoutSession E a i pw w = (r2, w3)" by (metis surj_pair)
  have "is_completed (w_db w) (cmi_OrgId inp) (cmi_Id inp) \<Longrightarrow> isl r1"
    using CompleteOrder_run[OF a1] by (auto simp: is_completed_def split: if_splits)
  then show ?thesis
    using CompleteOrder_run[OF a1] CompleteCheckoutSession_run[OF a2]
    by (intro conjI impI) (auto simp: a1 a2 is_completed_def split: if_splits)
qed


section \<open>Samples\<close>

lemmas run_complete = CompleteOrder_def complete_order_tx_def OrderRepo_FindById_def OrderRepo_Update_def complete_steps_def
  complete_method_def CustomerRepo_FindPaymentMethodById_def SubscriptionRepo_FindByOrderId_def CouponService_Consume_def
  ReservationRepo_FindByOrder_def settle_order_def BuildForOrder_def InvoiceRepo_FindOrderInvoice_def order_payment_def
  PaymentRepo_Create_def PaymentRepo_FindById_def SettleOrderInvoice_def InvoiceService_MarkOpen_def
  InvoiceService_MarkSettled_def invoice_transition_def InvoiceRepo_FindById_def InvoiceRepo_Update_def
  invoice_MarkOpen_def invoice_MarkPaid_def transition_to_def with_lines_def invoice_lines_def

lemmas run_rows = find_row_def update_row_def insert_row_def ord_key_def ord_merge_def order_SetMetadata_def inv_key_def
  inv_merge_def pay_key_def col_eq_def

definition sample_completion :: "int \<Rightarrow> complete_order_input" where
  "sample_completion amount = \<lparr> cmi_OrgId = ''o'', cmi_Id = ''or'', cmi_PaymentMethodId = ''pm'',
     cmi_PaymentMethod = \<lparr> com_Psp = [], com_Name = [], com_Type = [], com_Details = None, com_Token = [], com_Metadata = Map.empty \<rparr>,
     cmi_Payment = \<lparr> cop_PspId = ''x'', cop_CompletedAt = 4, cop_Reference = ''y'', cop_Amount = amount, cop_Currency = ''USD'',
       cop_Metadata = Map.empty \<rparr>, cmi_Metadata = Map.empty \<rparr>"

definition sample_webhook :: payment_webhook where
  "sample_webhook = \<lparr> pwh_Psp = ''memory'', pwh_MethodType = ''card'', pwh_MethodToken = ''t'', pwh_MethodDetails = [],
     pwh_Currency = ''USD'', pwh_Reference = ''y'', pwh_PspId = ''x'', pwh_Amount = 500, pwh_PaidAt = 4 \<rparr>"

text \<open>An order whose invoice was opened when it was created.\<close>

definition upfront_world :: "rat world" where
  "upfront_world = world_of (empty_db\<lparr>t_orders := [sample_order], t_payment_methods := [sample_method],
     t_invoices := [(order_invoice sample_order None ''inv'' 1)\<lparr>inv_Status := InvoiceStatusOpen, inv_Total := 500\<rparr>]\<rparr>) (\<lambda>n. int n + 5)"

lemmas run_sample = sample_completion_def upfront_world_def world_of_def empty_db_def sample_order_def sample_method_def
  order_invoice_def first_payment_def zero_payment_def

lemma sample_completed:
  obtains o1 act w1 where "CompleteOrder sample_env (\<lambda>_. None) (sample_completion 500) upfront_world = (Inr (o1, act), w1)"
    and "t_payments (w_db w1) \<noteq> []"
proof -
  have "\<exists>x w1. CompleteOrder sample_env (\<lambda>_. None) (sample_completion 500) upfront_world = (Inr x, w1) \<and> t_payments (w_db w1) \<noteq> []"
    by (simp add: run_basic run_complete run_rows run_sample cong: run_cong)
  then show thesis using that by auto
qed

theorem order_completed_once_witness:
  "\<exists>w1 :: rat world. is_completed (w_db w1) ''o'' ''or'' \<and>
     isl (fst (CompleteOrder sample_env (\<lambda>_. None) (sample_completion 500) w1)) \<and>
     w_db (snd (CompleteCheckoutSession sample_env ''o'' ''or'' sample_webhook w1)) = w_db w1"
proof -
  obtain o1 act w1 where r: "CompleteOrder sample_env (\<lambda>_. None) (sample_completion 500) upfront_world = (Inr (o1, act), w1)"
    by (rule sample_completed)
  have k: "cmi_OrgId (sample_completion 500) = ''o''" "cmi_Id (sample_completion 500) = ''or''"
    by (simp_all add: sample_completion_def)
  then have c: "is_completed (w_db w1) ''o'' ''or''"
    using order_completed_once[of sample_env "\<lambda>_. None" "sample_completion 500" upfront_world o1 act w1 "''o''" "''or''"] r by blast
  with order_completed_once[of sample_env "\<lambda>_. None" "sample_completion 500" w1 _ _ _ "''o''" "''or''" _ sample_webhook] k
  show ?thesis by (intro exI[of _ w1]) simp
qed


section \<open>Findings\<close>

lemma never_charged_next: "sub_LastCharge s = 0 \<Longrightarrow> sub_CyclesProcessed s = 0 \<Longrightarrow> sub_BillingInterval s \<noteq> BillingIntervalOther [] \<Longrightarrow>
    0 < sub_BillingIntervalQty s \<Longrightarrow> CalculateNextBillingDate s = sub_StartDate s"
  by (simp add: CalculateNextBillingDate_def IsZero_def)

lemma reads_fixedBase: "reads (fixedBaseAmount D o1 i)"
  unfolding fixedBaseAmount_def OrderRepo_FindOrderItemsBySubscriptionId_def PriceRepo_FindById_def
  by (intro reads_bind reads_fold reads_sel reads_selOne reads_ret)

lemma activation_dates: "sub_StartDate (SetActivationDates s t) = t" "sub_key (SetActivationDates s t) = sub_key s"
    "sub_OrgId (SetActivationDates s t) = sub_OrgId s" "sub_Id (SetActivationDates s t) = sub_Id s"
    "sub_LastCharge s = 0 \<Longrightarrow> sub_CyclesProcessed s = 0 \<Longrightarrow> sub_BillingInterval s \<noteq> BillingIntervalOther [] \<Longrightarrow>
      0 < sub_BillingIntervalQty s \<Longrightarrow> sub_RenewsAt (SetActivationDates s t) = t"
    "sub_TrialInterval s = BillingIntervalNone \<Longrightarrow> sub_TrialEndsAt (SetActivationDates s t) = 0"
  by (simp_all add: SetActivationDates_def Let_def sub_key_def never_charged_next)

text \<open>The webhook charges the first period of a subscription but leaves it due at once: its
  renewal date is the date of the activation, so the next billing run charges cycle one.\<close>

theorem checkout_renews_immediately:
  assumes "checkout_subscription E o1 pw pm acc s w = (Inr sid, w1)" and "checkout_charged pw s (w_clock w (w_ticks w))"
    and "sub_LastCharge s = 0" and "sub_CyclesProcessed s = 0"
    and "sub_BillingInterval s \<noteq> BillingIntervalOther []" and "0 < sub_BillingIntervalQty s" and "\<forall>n. w_clock w n \<noteq> 0"
  shows "\<exists>row. find_row sub_key (sub_key s) (t_subscriptions (w_db w1)) = Some row \<and> sub_CyclesProcessed row = 1 \<and>
    (\<forall>now. sub_StartDate row \<le> now \<longrightarrow> due_row now row)"
proof -
  let ?w = "w\<lparr>w_ticks := Suc (w_ticks w)\<rparr>"
  from assms(1,2) obtain base w2 r t where f: "fixedBaseAmount (env_dec E) o1 (sub_Id s) ?w = (Inr base, w2)"
    and t: "t = w_clock w2 (w_ticks w2)"
    and u: "SubscriptionRepo_Update ((SetActivationDates s t)\<lparr>sub_Status := SubscriptionStatusActive,
        sub_LastCharge := sub_StartDate (SetActivationDates s t), sub_TotalRevenue := base, sub_CyclesProcessed := 1,
        sub_PaymentMethodId := pmd_Id pm\<rparr>) (w2\<lparr>w_ticks := Suc (w_ticks w2)\<rparr>) = (Inr r, w1)"
    unfolding checkout_subscription_def checkout_charged_def Let_def by (auto simp: bindS_Inr split: if_splits)
  have t0: "t \<noteq> 0" using quietD[OF readsD[OF reads_fixedBase f]] assms(7) t by simp
  from SubscriptionRepo_Update_ok[OF u] obtain old where
    r: "find_row sub_key (sub_key s) (t_subscriptions (w_db w1)) = Some r"
      "r = sub_merge old ((SetActivationDates s t)\<lparr>sub_Status := SubscriptionStatusActive, sub_LastCharge := t,
        sub_TotalRevenue := base, sub_CyclesProcessed := 1, sub_PaymentMethodId := pmd_Id pm\<rparr>)"
    by (auto simp: activation_dates sub_key_def)
  then have "sub_CyclesProcessed r = 1 \<and> sub_StartDate r = t \<and> sub_RenewsAt r = t \<and> sub_Status r = SubscriptionStatusActive"
    using activation_dates(5)[OF assms(3-6)] by (simp add: sub_merge_def activation_dates)
  then show ?thesis using r(1) t0 by (intro exI[of _ r]) (auto simp: due_row_def)
qed

text \<open>A subscription without a trial period whose checkout charged nothing is put on trial with
  no end, and is never due.\<close>

theorem free_checkout_never_due:
  assumes "checkout_subscription E o1 pw pm acc s w = (Inr sid, w1)" and "pwh_Amount pw \<le> 0"
    and "sub_TrialInterval s = BillingIntervalNone"
  shows "\<exists>row. find_row sub_key (sub_key s) (t_subscriptions (w_db w1)) = Some row \<and> sub_Status row = SubscriptionStatusTrial \<and>
    (\<forall>now. \<not> due_row now row)"
proof -
  from assms(1,2) obtain r t where u: "SubscriptionRepo_Update ((SetActivationDates s t)\<lparr>sub_Status := SubscriptionStatusTrial,
        sub_PaymentMethodId := pmd_Id pm\<rparr>) (w\<lparr>w_ticks := Suc (w_ticks w)\<rparr>) = (Inr r, w1)"
    unfolding checkout_subscription_def by (auto simp: bindS_Inr)
  from SubscriptionRepo_Update_ok[OF u] obtain old where
    r: "find_row sub_key (sub_key s) (t_subscriptions (w_db w1)) = Some r"
      "r = sub_merge old ((SetActivationDates s t)\<lparr>sub_Status := SubscriptionStatusTrial, sub_PaymentMethodId := pmd_Id pm\<rparr>)"
    by (auto simp: activation_dates sub_key_def)
  then have "sub_Status r = SubscriptionStatusTrial \<and> sub_TrialEndsAt r = 0"
    using activation_dates(6)[OF assms(3)] by (simp add: sub_merge_def)
  then show ?thesis using r(1) by (intro exI[of _ r]) (auto simp: due_row_def)
qed

text \<open>Completing an order with a trial but without a payment makes its subscription active and
  due at once: the trial is not observed.\<close>

theorem completion_skips_trial:
  assumes "t \<noteq> 0" and "sub_LastCharge s = 0" and "sub_CyclesProcessed s = 0"
    and "sub_BillingInterval s \<noteq> BillingIntervalOther []" and "0 < sub_BillingIntervalQty s"
  shows "due_row t (SetActive s zero_payment t)"
  using assms activation_dates(5)[OF assms(2-5)] by (simp add: SetActive_def zero_payment_def due_row_def Let_def)

text \<open>The coupon of a subscription order is consumed for the subscription before the order's
  invoice is built, and no longer counts as the order's: the invoice is not discounted.\<close>

theorem consumed_coupon_not_applied:
  assumes "CouponService_Consume \<lparr> cni_OrgId = ord_OrgId ord, cni_OrderId = ord_Id ord, cni_SubscriptionId = sid, cni_StartCycle = n \<rparr> w
      = (Inr x, w1)" and "sid \<noteq> []"
    and "\<not> (\<exists>d\<in>set (t_discounts (w_db w)). dsc_OrgId d = ord_OrgId ord \<and> col_eq (dsc_OrderId d) (ord_Id ord) \<and> dsc_SubscriptionId d = [])"
    and "applyOrderDiscounts E ord m i w1 = (Inr j, w2)"
  shows "j = i"
proof -
  let ?holds = "\<lambda>db. filter (\<lambda>r. crs_OrgId r = ord_OrgId ord \<and> col_eq (crs_OrderId r) (ord_Id ord)) (t_reservations db)"
  let ?own = "\<lambda>db. filter (\<lambda>d. dsc_OrgId d = ord_OrgId ord \<and> dsc_Status d = DiscountStatusActive \<and>
        col_eq (dsc_OrderId d) (ord_Id ord) \<and> dsc_SubscriptionId d = []) (t_discounts db)"
  have "?holds (w_db w1) = [] \<and> ?own (w_db w1) = []"
    using Consume_ok[OF assms(1)] assms(2,3) by (cases x) (auto simp: order_holds_def filter_empty_conv)
  then show ?thesis
    using assms(4) unfolding applyOrderDiscounts_def DiscountRepo_ActiveForOrder_def ReservationRepo_FindByOrder_def
    by (auto simp: bindS_Inr sel_Inr)
qed

text \<open>When the invoice cannot be built because a row it needs is gone, the completion still
  succeeds: the payment is not recorded and the event is not sent.\<close>

definition priceless_world :: "rat world" where
  "priceless_world = world_of (empty_db\<lparr>t_orders := [sample_order], t_payment_methods := [sample_method],
     t_order_items := [sample_item ''gone'']\<rparr>) (\<lambda>n. int n + 5)"

theorem completion_drops_payment:
  "\<exists>o1 w1. CompleteOrder sample_env (\<lambda>_. None) (sample_completion 500) priceless_world = (Inr (o1, []), w1) \<and>
     ord_Status o1 = OrderStatusCompleted \<and> t_payments (w_db w1) = [] \<and> t_outbox (w_db w1) = []"
  by (simp add: run_basic run_complete run_rows run_sample priceless_world_def sample_item_def build_order_def
      OrderRepo_FindOrderItemsByOrderId_def order_line_def PriceRepo_FindById_def cong: run_cong)

end
