(* ===== verification/Outbox_Relay.thy ===== *)
theory Outbox_Relay
  imports Effects
begin

text \<open>
  The relay that drains the outbox to the message broker: src/internal/lib/pubsub/relay.go
  with the queries of src/internal/adapter/db/postgrespgx/outbox_repo.go.  Each event is
  claimed, published and marked in its own transaction; the broker takes the message
  whether or not the transaction commits.  The lemmas show at-least-once delivery, that a
  drain ends, that it delivers what is due when nothing fails, and what the backoff is.
  The run loop is a sequence of ticks; locks between relays are not modelled.
\<close>

section \<open>The queries of the repository\<close>

definition pending_row :: "int \<Rightarrow> time \<Rightarrow> 'd outbox_event \<Rightarrow> bool" where
  "pending_row maxAttempts now ev \<longleftrightarrow> obx_PublishedAt ev = None \<and> obx_Attempts ev < maxAttempts \<and>
     (case obx_NextAttemptAt ev of None \<Rightarrow> True | Some t \<Rightarrow> t \<le> now)"

definition OutboxRepo_ClaimPending :: "nat \<Rightarrow> int \<Rightarrow> time \<Rightarrow> ('d, 'd outbox_event list) svc" where
  "OutboxRepo_ClaimPending limit maxAttempts now =
    sel (\<lambda>db. take limit (sort_key obx_Id (filter (pending_row maxAttempts now) (t_outbox db))))"

definition update_event :: "int \<Rightarrow> ('d outbox_event \<Rightarrow> 'd outbox_event) \<Rightarrow> 'd db \<Rightarrow> 'd db" where
  "update_event eid f db = db\<lparr>t_outbox := map (\<lambda>ev. if obx_Id ev = eid then f ev else ev) (t_outbox db)\<rparr>"

definition OutboxRepo_MarkPublished :: "int \<Rightarrow> time \<Rightarrow> ('d, unit) svc" where
  "OutboxRepo_MarkPublished eid t = exec (\<lambda>db. Some (update_event eid (\<lambda>ev. ev\<lparr>obx_PublishedAt := Some t\<rparr>) db))"

definition OutboxRepo_RecordFailure :: "int \<Rightarrow> string \<Rightarrow> time \<Rightarrow> ('d, unit) svc" where
  "OutboxRepo_RecordFailure eid lastError nextAttemptAt =
    exec (\<lambda>db. Some (update_event eid (\<lambda>ev. ev\<lparr>obx_Attempts := obx_Attempts ev + 1, obx_LastError := lastError,
      obx_NextAttemptAt := Some nextAttemptAt\<rparr>) db))"

definition purgeable :: "time \<Rightarrow> 'd outbox_event \<Rightarrow> bool" where
  "purgeable olderThan ev \<longleftrightarrow> (case obx_PublishedAt ev of None \<Rightarrow> False | Some t \<Rightarrow> t < olderThan)"

definition OutboxRepo_PurgePublished :: "time \<Rightarrow> ('d, int) svc" where
  "OutboxRepo_PurgePublished olderThan =
    stmt (\<lambda>db. Some (int (length (filter (purgeable olderThan) (t_outbox db))),
                     db\<lparr>t_outbox := filter (\<lambda>ev. \<not> purgeable olderThan ev) (t_outbox db)\<rparr>))"

section \<open>One event\<close>

definition relayMaxAttempts :: int where "relayMaxAttempts = 10"
definition relayBatchSize :: nat where "relayBatchSize = 100"
definition relayBackoffBase :: duration where "relayBackoffBase = Second"
definition relayBackoffCap :: duration where "relayBackoffCap = 5 * Minute"

text \<open>The shift is on an int64 and may wrap; a negative count, which panics, does not occur.\<close>

definition backoff :: "int \<Rightarrow> duration" where
  "backoff attempts =
    (let d = wrap64 (relayBackoffBase * 2 ^ nat attempts) in if d \<le> 0 \<or> relayBackoffCap < d then relayBackoffCap else d)"

definition PublishPayload :: "'d outbox_event \<Rightarrow> ('d, unit) svc" where
  "PublishPayload ev w =
    (let w1 = w\<lparr>w_posts := Suc (w_posts w)\<rparr> in
     case w_broker w (w_posts w) of
       Some e \<Rightarrow> (Inl (InfraError e), w1)
     | None \<Rightarrow> (Inr (), w1\<lparr>w_sent := w_sent w @ [ev]\<rparr>))"

text \<open>The text of an error as the broker gives it.\<close>

fun broker_message :: "app_error \<Rightarrow> string" where
  "broker_message (InfraError e) = e"
| "broker_message _ = []"

definition relay_body :: "('d, bool) svc" where
  "relay_body =
    bindS nowS (\<lambda>now.
    bindS (OutboxRepo_ClaimPending 1 relayMaxAttempts now) (\<lambda>events.
    case events of
      [] \<Rightarrow> retS False
    | ev # _ \<Rightarrow> tryS (PublishPayload ev) (\<lambda>r. case r of
        Inl e \<Rightarrow> bindS (OutboxRepo_RecordFailure (obx_Id ev) (broker_message e) (time_Add now (backoff (obx_Attempts ev)))) (\<lambda>_. retS True)
      | Inr _ \<Rightarrow> bindS (OutboxRepo_MarkPublished (obx_Id ev) now) (\<lambda>_. retS True))))"

definition relayNext :: "('d, bool) svc" where
  "relayNext = RunInTx relay_body"

section \<open>Batches and the run loop\<close>

text \<open>The loop of a batch: how many events were handled and the error that ended it.\<close>

fun relay_loop :: "nat \<Rightarrow> nat \<Rightarrow> 'd world \<Rightarrow> (nat \<times> app_error option) \<times> 'd world" where
  "relay_loop i 0 w = ((i, None), w)"
| "relay_loop i (Suc k) w = (case relayNext w of
     (Inl e, w1) \<Rightarrow> ((i, Some e), w1)
   | (Inr claimed, w1) \<Rightarrow> if claimed then relay_loop (Suc i) k w1 else ((i, None), w1))"

definition relayBatch :: "'d world \<Rightarrow> (nat \<times> app_error option) \<times> 'd world" where
  "relayBatch w = relay_loop 0 relayBatchSize w"

text \<open>The n-th look at the stop channel is an input; None stands for a drain that never ends.\<close>

partial_function (option) drain :: "(nat \<Rightarrow> bool) \<Rightarrow> nat \<Rightarrow> 'd world \<Rightarrow> 'd world option" where
  "drain stop n w =
    (if stop n then Some w
     else case relayBatch w of ((m, err), w1) \<Rightarrow>
       if err \<noteq> None then Some w1
       else if m < relayBatchSize then Some w1
       else drain stop (Suc n) w1)"

declare drain.simps [code]

datatype relay_tick = Tick_poll "nat \<Rightarrow> bool" | Tick_purge

definition relay_purge :: "duration \<Rightarrow> 'd world \<Rightarrow> 'd world" where
  "relay_purge retention w = snd (bindS nowS (\<lambda>now. OutboxRepo_PurgePublished (time_Add now (- retention))) w)"

fun relay_run :: "duration \<Rightarrow> relay_tick list \<Rightarrow> 'd world \<Rightarrow> 'd world option" where
  "relay_run retention [] w = Some w"
| "relay_run retention (Tick_poll stop # ts) w =
     (case drain stop 0 w of None \<Rightarrow> None | Some w1 \<Rightarrow> relay_run retention ts w1)"
| "relay_run retention (Tick_purge # ts) w = relay_run retention ts (relay_purge retention w)"

text \<open>NewRelay: the intervals with their defaults.\<close>

definition NewRelay :: "duration \<Rightarrow> duration \<Rightarrow> duration \<times> duration" where
  "NewRelay purgeInterval retention =
    (if purgeInterval \<le> 0 then 1 * Hour else purgeInterval, if retention \<le> 0 then 24 * Hour else retention)"

section \<open>What one step does\<close>

definition claimable :: "time \<Rightarrow> 'd db \<Rightarrow> 'd outbox_event list" where
  "claimable now db = sort_key obx_Id (filter (pending_row relayMaxAttempts now) (t_outbox db))"

lemma claimable_set: "ev \<in> set (claimable now db) \<longleftrightarrow> ev \<in> set (t_outbox db) \<and> pending_row relayMaxAttempts now ev"
  by (simp add: claimable_def)

text \<open>The parts of the world that are not in the database.\<close>

definition outside :: "'d world \<Rightarrow> (nat \<Rightarrow> time) \<times> nat \<times> (nat \<Rightarrow> string option) \<times> (nat \<Rightarrow> string option) \<times> 'd outbox_event list" where
  "outside w = (w_clock w, w_ticks w, w_fault w, w_broker w, w_sent w)"

definition at_rest :: "'d world \<Rightarrow> bool" where
  "at_rest w \<longleftrightarrow> \<not> w_tx w \<and> \<not> w_aborted w"

lemma sel_outside: "sel f w = (r, w1) \<Longrightarrow> outside w1 = outside w \<and> w_tx w1 = w_tx w \<and> (w_tx w \<or> w_aborted w1 = w_aborted w) \<and>
    (\<not> isl r \<longrightarrow> w_aborted w1 = w_aborted w \<and> \<not> w_aborted w)"
  by (auto simp: sel_def stmt_def outside_def Let_def split: option.splits if_splits)

lemma RunInTx_ran:
  assumes "RunInTx m w = (r, w1)" and "at_rest w"
  shows "at_rest w1 \<and> (isl r \<and> w_db w1 = w_db w \<and> outside w1 = outside w \<or>
     (\<exists>r0 w2. m (w\<lparr>w_stmts := Suc (w_stmts w), w_tx := True\<rparr>) = (r0, w2) \<and> outside w1 = outside w2 \<and>
       (if isl r then w_db w1 = w_db w else r = r0 \<and> w_db w1 = w_db w2)))"
proof -
  obtain b w0 where b: "sel (\<lambda>_. ()) w = (b, w0)" by (metis surj_pair)
  note o0 = sel_outside[OF b] sel_dbD[OF b]
  show ?thesis
  proof (cases b)
    case (Inl e)
    then show ?thesis using assms b o0 by (auto simp: RunInTx_def RunInTxE_def at_rest_def)
  next
    case (Inr u)
    then have w0: "w0 = w\<lparr>w_stmts := Suc (w_stmts w)\<rparr>" using b by (simp add: sel_Inr)
    obtain r0 w2 where m: "m (w\<lparr>w_stmts := Suc (w_stmts w), w_tx := True\<rparr>) = (r0, w2)" by (metis surj_pair)
    obtain c w3 where c: "sel (\<lambda>_. ()) w2 = (c, w3)" by (metis surj_pair)
    note o2 = sel_outside[OF c] sel_dbD[OF c]
    have run: "RunInTx m w = (case r0 of Inl e \<Rightarrow> (Inl e, w2\<lparr>w_db := w_db w, w_tx := w_tx w, w_aborted := w_aborted w\<rparr>)
        | Inr x \<Rightarrow> (case c of Inl e \<Rightarrow> (Inl e, w3\<lparr>w_db := w_db w, w_tx := w_tx w, w_aborted := w_aborted w\<rparr>)
          | Inr _ \<Rightarrow> (Inr x, w3\<lparr>w_tx := w_tx w\<rparr>)))"
      by (simp add: RunInTx_def RunInTxE_def b Inr w0 m c split: sum.split)
    have rest: "\<not> w_tx w" "\<not> w_aborted w" using assms(2) by (simp_all add: at_rest_def)
    have "at_rest w1 \<and> outside w1 = outside w2 \<and> (if isl r then w_db w1 = w_db w else r = r0 \<and> w_db w1 = w_db w2)"
    proof (cases r0)
      case (Inl e)
      then show ?thesis using run assms(1) rest by (auto simp: at_rest_def outside_def)
    next
      case r0: (Inr x)
      show ?thesis
        using run assms(1) rest o2 unfolding r0 by (cases c) (auto simp: at_rest_def outside_def)
    qed
    then show ?thesis using m by blast
  qed
qed

lemma take_1: "take (Suc 0) xs = (case xs of [] \<Rightarrow> [] | x # _ \<Rightarrow> [x])"
  by (cases xs) simp_all

text \<open>The rows that a delivery and a failed delivery leave.\<close>

definition delivered :: "time \<Rightarrow> 'd outbox_event \<Rightarrow> 'd db \<Rightarrow> 'd db" where
  "delivered now ev = update_event (obx_Id ev) (\<lambda>e. e\<lparr>obx_PublishedAt := Some now\<rparr>)"

definition postponed :: "time \<Rightarrow> string \<Rightarrow> 'd outbox_event \<Rightarrow> 'd db \<Rightarrow> 'd db" where
  "postponed now msg ev = update_event (obx_Id ev) (\<lambda>e. e\<lparr>obx_Attempts := obx_Attempts e + 1, obx_LastError := msg,
     obx_NextAttemptAt := Some (time_Add now (backoff (obx_Attempts ev)))\<rparr>)"

definition unmoved :: "'d world \<Rightarrow> 'd world \<Rightarrow> bool" where
  "unmoved w w1 \<longleftrightarrow> w_clock w1 = w_clock w \<and> w_ticks w1 = w_ticks w \<and> w_fault w1 = w_fault w \<and> w_broker w1 = w_broker w \<and>
     w_posts w1 = w_posts w \<and> w_sent w1 = w_sent w"

lemma claim_step: "OutboxRepo_ClaimPending 1 relayMaxAttempts now w = (r, w1) \<Longrightarrow> unmoved w w1 \<and> w_db w1 = w_db w \<and>
    (isl r \<or> r = Inr (case claimable now (w_db w) of [] \<Rightarrow> [] | ev # _ \<Rightarrow> [ev]))"
  by (auto simp: OutboxRepo_ClaimPending_def sel_def stmt_def Let_def unmoved_def claimable_def take_1 split: option.splits if_splits)

lemma mark_step: "OutboxRepo_MarkPublished (obx_Id ev) now w = (r, w1) \<Longrightarrow> unmoved w w1 \<and> (isl r \<or> w_db w1 = delivered now ev (w_db w))"
  by (auto simp: OutboxRepo_MarkPublished_def exec_def stmt_def Let_def unmoved_def delivered_def split: option.splits if_splits)

lemma failure_step: "OutboxRepo_RecordFailure (obx_Id ev) msg (time_Add now (backoff (obx_Attempts ev))) w = (r, w1) \<Longrightarrow>
    unmoved w w1 \<and> (isl r \<or> w_db w1 = postponed now msg ev (w_db w))"
  by (auto simp: OutboxRepo_RecordFailure_def exec_def stmt_def Let_def unmoved_def postponed_def split: option.splits if_splits)

text \<open>The answer to one claimed event.\<close>

lemma publish_cases:
  assumes "tryS (PublishPayload ev) (\<lambda>r. case r of
        Inl e \<Rightarrow> bindS (OutboxRepo_RecordFailure (obx_Id ev) (broker_message e) (time_Add now (backoff (obx_Attempts ev)))) (\<lambda>_. retS True)
      | Inr _ \<Rightarrow> bindS (OutboxRepo_MarkPublished (obx_Id ev) now) (\<lambda>_. retS True)) w = (r, w1)"
  shows "w_clock w1 = w_clock w \<and> w_ticks w1 = w_ticks w \<and> w_fault w1 = w_fault w \<and> w_broker w1 = w_broker w \<and>
    (isl r \<and> w_sent w1 \<in> {w_sent w, w_sent w @ [ev]} \<or>
     r = Inr True \<and> (w_sent w1 = w_sent w @ [ev] \<and> w_db w1 = delivered now ev (w_db w) \<or>
       w_sent w1 = w_sent w \<and> (\<exists>e msg. w_broker w (w_posts w) = Some e \<and> w_db w1 = postponed now msg ev (w_db w))))"
proof (cases "w_broker w (w_posts w)")
  case None
  let ?w = "w\<lparr>w_posts := Suc (w_posts w), w_sent := w_sent w @ [ev]\<rparr>"
  obtain q w2 where m: "OutboxRepo_MarkPublished (obx_Id ev) now ?w = (q, w2)" by (metis surj_pair)
  show ?thesis using assms None m mark_step[OF m]
    by (cases q) (auto simp: tryS_def PublishPayload_def Let_def bindS_def unmoved_def)
next
  case (Some msg)
  let ?w = "w\<lparr>w_posts := Suc (w_posts w)\<rparr>"
  obtain q w2 where m: "OutboxRepo_RecordFailure (obx_Id ev) msg (time_Add now (backoff (obx_Attempts ev))) ?w = (q, w2)"
    by (metis surj_pair)
  show ?thesis using assms Some m failure_step[OF m]
    by (cases q) (auto simp: tryS_def PublishPayload_def Let_def bindS_def unmoved_def)
qed

lemma relay_body_cases:
  assumes "relay_body w = (r, w1)"
  shows "w_clock w1 = w_clock w \<and> w_ticks w1 = Suc (w_ticks w) \<and> w_fault w1 = w_fault w \<and> w_broker w1 = w_broker w \<and>
    (let now = w_clock w (w_ticks w) in case claimable now (w_db w) of
       [] \<Rightarrow> w_sent w1 = w_sent w \<and> (isl r \<or> r = Inr False \<and> w_db w1 = w_db w)
     | ev # _ \<Rightarrow> isl r \<and> w_sent w1 \<in> {w_sent w, w_sent w @ [ev]} \<or>
         r = Inr True \<and> (w_sent w1 = w_sent w @ [ev] \<and> w_db w1 = delivered now ev (w_db w) \<or>
                         w_sent w1 = w_sent w \<and> (\<exists>e msg. w_broker w (w_posts w) = Some e \<and> w_db w1 = postponed now msg ev (w_db w))))"
proof -
  let ?now = "w_clock w (w_ticks w)" and ?w = "w\<lparr>w_ticks := Suc (w_ticks w)\<rparr>"
  obtain c w2 where c: "OutboxRepo_ClaimPending 1 relayMaxAttempts ?now ?w = (c, w2)" by (metis surj_pair)
  note s = claim_step[OF c, unfolded unmoved_def]
  have run: "relay_body w = (case c of Inl e \<Rightarrow> (Inl e, w2) | Inr evs \<Rightarrow> (case evs of [] \<Rightarrow> retS False
    | ev # _ \<Rightarrow> tryS (PublishPayload ev) (\<lambda>r. case r of
        Inl e \<Rightarrow> bindS (OutboxRepo_RecordFailure (obx_Id ev) (broker_message e) (time_Add ?now (backoff (obx_Attempts ev)))) (\<lambda>_. retS True)
      | Inr _ \<Rightarrow> bindS (OutboxRepo_MarkPublished (obx_Id ev) ?now) (\<lambda>_. retS True))) w2)"
    using c by (cases c) (simp_all add: relay_body_def nowS_def bindS_def)
  show ?thesis
  proof (cases c)
    case (Inl e)
    then show ?thesis using run assms s by (auto simp: Let_def split: list.splits)
  next
    case (Inr evs)
    show ?thesis
    proof (cases "claimable ?now (w_db w)")
      case Nil
      then show ?thesis using run assms s Inr by (simp add: Let_def)
    next
      case (Cons ev rest)
      then show ?thesis using run assms s Inr publish_cases[of ev ?now w2 r w1] by (simp add: Let_def)
    qed
  qed
qed

lemma relayNext_cases:
  assumes "relayNext w = (r, w1)" and "at_rest w" and "now = w_clock w (w_ticks w)"
  shows "at_rest w1 \<and> w_clock w1 = w_clock w \<and> w_ticks w \<le> w_ticks w1 \<and> w_fault w1 = w_fault w \<and> w_broker w1 = w_broker w \<and>
    (isl r \<and> w_db w1 = w_db w \<and> (w_sent w1 = w_sent w \<or> (\<exists>ev rest. claimable now (w_db w) = ev # rest \<and> w_sent w1 = w_sent w @ [ev])) \<or>
     r = Inr False \<and> w_db w1 = w_db w \<and> w_sent w1 = w_sent w \<and> claimable now (w_db w) = [] \<or>
     r = Inr True \<and> (\<exists>ev rest. claimable now (w_db w) = ev # rest \<and>
       (w_sent w1 = w_sent w @ [ev] \<and> w_db w1 = delivered now ev (w_db w) \<or>
        w_sent w1 = w_sent w \<and> (\<exists>n e msg. w_broker w n = Some e \<and> w_db w1 = postponed now msg ev (w_db w)))))"
proof -
  note ran = RunInTx_ran[OF assms(1)[unfolded relayNext_def] assms(2)]
  show ?thesis
  proof (cases "isl r \<and> w_db w1 = w_db w \<and> outside w1 = outside w")
    case True
    then show ?thesis using ran by (simp add: outside_def)
  next
    case False
    then obtain r0 w2 where b: "relay_body (w\<lparr>w_stmts := Suc (w_stmts w), w_tx := True\<rparr>) = (r0, w2)"
      and o: "outside w1 = outside w2" and d: "if isl r then w_db w1 = w_db w else r = r0 \<and> w_db w1 = w_db w2"
      using ran by blast
    have k: "w_clock w1 = w_clock w \<and> w_ticks w \<le> w_ticks w1 \<and> w_fault w1 = w_fault w \<and> w_broker w1 = w_broker w"
      and body: "case claimable now (w_db w) of
       [] \<Rightarrow> w_sent w1 = w_sent w \<and> (isl r0 \<or> r0 = Inr False \<and> w_db w2 = w_db w)
     | ev # _ \<Rightarrow> isl r0 \<and> w_sent w1 \<in> {w_sent w, w_sent w @ [ev]} \<or>
         r0 = Inr True \<and> (w_sent w1 = w_sent w @ [ev] \<and> w_db w2 = delivered now ev (w_db w) \<or>
           w_sent w1 = w_sent w \<and> (\<exists>e msg. w_broker w (w_posts w) = Some e \<and> w_db w2 = postponed now msg ev (w_db w)))"
      using relay_body_cases[OF b] o assms(3) by (cases "claimable now (w_db w)"; simp add: outside_def Let_def)+
    show ?thesis
      using k body d ran by (cases "claimable now (w_db w)") (auto split: if_splits)
  qed
qed

section \<open>The relay as a transition system\<close>

type_synonym 'd relay_view = "'d db \<times> 'd outbox_event list"

definition relay_view :: "'d world \<Rightarrow> 'd relay_view" where
  "relay_view w = (w_db w, w_sent w)"

text \<open>A message is sent although its row is not marked, sent and marked, postponed, or purged.\<close>

inductive relay_step :: "'d relay_view \<Rightarrow> 'd relay_view \<Rightarrow> bool" where
  resend: "ev \<in> set (claimable now db) \<Longrightarrow> relay_step (db, sent) (db, sent @ [ev])"
| deliver: "ev \<in> set (claimable now db) \<Longrightarrow> relay_step (db, sent) (delivered now ev db, sent @ [ev])"
| postpone: "ev \<in> set (claimable now db) \<Longrightarrow> relay_step (db, sent) (postponed now msg ev db, sent)"
| purge: "relay_step (db, sent) (db\<lparr>t_outbox := filter (\<lambda>ev. \<not> purgeable t ev) (t_outbox db)\<rparr>, sent)"

lemma head_in_set: "xs = x # ys \<Longrightarrow> x \<in> set xs"
  by simp

lemmas relay_stepI = resend[OF head_in_set] deliver[OF head_in_set] postpone[OF head_in_set]

inductive_cases relay_stepE: "relay_step (db, sent) v"

lemma relayNext_steps:
  assumes "relayNext w = (r, w1)" and "at_rest w"
  shows "at_rest w1 \<and> relay_step\<^sup>*\<^sup>* (relay_view w) (relay_view w1)"
proof -
  have "relay_view w1 = relay_view w \<or> relay_step (relay_view w) (relay_view w1)"
    using relayNext_cases[OF assms refl] unfolding relay_view_def
    by (elim conjE disjE exE) (auto intro: relay_stepI)
  then show ?thesis using relayNext_cases[OF assms refl] by auto
qed

section \<open>A drain ends\<close>

text \<open>How often the pending events can still be claimed.\<close>

definition tries_left :: "'d outbox_event \<Rightarrow> nat" where
  "tries_left ev = (if obx_PublishedAt ev = None then nat (relayMaxAttempts - obx_Attempts ev) else 0)"

definition remaining :: "'d db \<Rightarrow> nat" where
  "remaining db = sum_list (map tries_left (t_outbox db))"

lemma sum_list_map_less:
  fixes f g :: "'a \<Rightarrow> nat"
  assumes "x \<in> set xs" and "g x < f x" and "\<And>y. g y \<le> f y"
  shows "sum_list (map g xs) < sum_list (map f xs)"
  using assms(1)
proof (induction xs)
  case (Cons y ys)
  have "sum_list (map g ys) \<le> sum_list (map f ys)" using assms(3) by (rule sum_list_mono)
  then show ?case using Cons assms(2) assms(3)[of y] by (cases "x = y") (auto simp: add_less_le_mono add_le_less_mono)
qed simp

lemma remaining_update:
  assumes "ev \<in> set (claimable now db)" and "\<And>e. tries_left (f e) \<le> tries_left e"
    and "pending_row relayMaxAttempts now ev \<Longrightarrow> tries_left (f ev) < tries_left ev"
  shows "remaining (update_event (obx_Id ev) f db) < remaining db"
proof -
  have "sum_list (map (\<lambda>e. tries_left (if obx_Id e = obx_Id ev then f e else e)) (t_outbox db)) < sum_list (map tries_left (t_outbox db))"
    using assms by (intro sum_list_map_less[of ev]) (auto simp: claimable_set)
  then show ?thesis by (simp add: remaining_def update_event_def comp_def)
qed

lemma remaining_step: "ev \<in> set (claimable now db) \<Longrightarrow> remaining (delivered now2 ev db) < remaining db"
  "ev \<in> set (claimable now db) \<Longrightarrow> remaining (postponed now2 msg ev db) < remaining db"
  unfolding delivered_def postponed_def
  by (rule remaining_update; auto simp: tries_left_def pending_row_def relayMaxAttempts_def)+

lemma relay_loop_count:
  "relay_loop i k w = ((m, None), w1) \<Longrightarrow> at_rest w \<Longrightarrow>
    i \<le> m \<and> m \<le> i + k \<and> remaining (w_db w1) + (m - i) \<le> remaining (w_db w) \<and> w_ticks w \<le> w_ticks w1 \<and> w_clock w1 = w_clock w \<and>
    (m < i + k \<longrightarrow> (\<exists>t\<ge>w_ticks w. claimable (w_clock w t) (w_db w1) = []))"
proof (induction i k w arbitrary: w1 rule: relay_loop.induct)
  case (2 i k w)
  obtain r w2 where n: "relayNext w = (r, w2)" by (metis surj_pair)
  note c = relayNext_cases[OF n 2(3) refl]
  show ?case
  proof (cases "r = Inr True")
    case True
    then have l: "relay_loop (Suc i) k w2 = ((m, None), w1)" using 2(2) n by simp
    have "remaining (w_db w2) < remaining (w_db w)"
      using c True by (auto intro: remaining_step[OF head_in_set])
    moreover have k: "at_rest w2" "w_clock w2 = w_clock w" "w_ticks w \<le> w_ticks w2" using c by simp_all
    moreover note 2(1)[OF n[symmetric] True TrueI l k(1)]
    ultimately show ?thesis by (auto intro: order_trans)
  next
    case False
    then show ?thesis using 2(2) n c by (auto split: sum.splits if_splits)
  qed
qed simp

text \<open>What every claim of the relay respects holds over a whole drain.\<close>

locale relay_relation =
  fixes Q :: "'d world \<Rightarrow> 'd world \<Rightarrow> bool"
  assumes refl: "Q w w" and trans: "Q a b \<Longrightarrow> Q b c \<Longrightarrow> Q a c"
    and claim: "relayNext w = (r, w1) \<Longrightarrow> at_rest w \<Longrightarrow> Q w w1"
begin

lemma loop: "relay_loop i k w = (res, w1) \<Longrightarrow> at_rest w \<Longrightarrow> at_rest w1 \<and> Q w w1"
proof (induction i k w arbitrary: res rule: relay_loop.induct)
  case (2 i k w)
  obtain r w2 where n: "relayNext w = (r, w2)" by (metis surj_pair)
  have rest: "at_rest w2" using relayNext_cases[OF n 2(3) HOL.refl] by simp
  note q = claim[OF n 2(3)]
  show ?case
  proof (cases "r = Inr True")
    case True
    then have "relay_loop (Suc i) k w2 = (res, w1)" using 2(2) n by simp
    then show ?thesis using 2(1)[OF n[symmetric] True TrueI _ rest] trans[OF q] by blast
  next
    case False
    then show ?thesis using 2(2) n q rest by (auto split: sum.splits)
  qed
qed (simp add: refl)

lemma drain:
  assumes "at_rest w"
  shows "\<exists>w1. drain stop n w = Some w1 \<and> at_rest w1 \<and> Q w w1 \<and>
    ((\<exists>m. stop m) \<or> (\<exists>w0 m e. relayBatch w0 = ((m, Some e), w1) \<and> at_rest w0 \<and> Q w w0) \<or>
     (\<exists>t\<ge>w_ticks w. claimable (w_clock w t) (w_db w1) = []))"
  using assms
proof (induction "remaining (w_db w)" arbitrary: n w rule: less_induct)
  case less
  obtain m err w2 where b: "relayBatch w = ((m, err), w2)" by (metis surj_pair)
  note l = b[unfolded relayBatch_def]
  have q: "at_rest w2" "Q w w2" using loop[OF l less(2)] by simp_all
  show ?case
  proof (cases "stop n \<or> err \<noteq> None \<or> m < relayBatchSize")
    case True
    then show ?thesis
      using b l q less(2) refl relay_loop_count[of 0 relayBatchSize w m w2] by (subst drain.simps) auto
  next
    case False
    then have l2: "relay_loop 0 relayBatchSize w = ((m, None), w2)" and m: "0 < m" using l by (auto simp: relayBatchSize_def)
    note c = relay_loop_count[OF l2 less(2)]
    then have "remaining (w_db w2) < remaining (w_db w)" using m by linarith
    from less(1)[OF this q(1), of "Suc n"] obtain w1 where "drain stop (Suc n) w2 = Some w1" "at_rest w1" "Q w2 w1"
      and e: "(\<exists>m. stop m) \<or> (\<exists>w0 m e. relayBatch w0 = ((m, Some e), w1) \<and> at_rest w0 \<and> Q w2 w0) \<or>
         (\<exists>t\<ge>w_ticks w2. claimable (w_clock w2 t) (w_db w1) = [])" by blast
    moreover have "drain stop n w = drain stop (Suc n) w2" using False b by (subst drain.simps) simp
    moreover have "w_clock w2 = w_clock w" "w_ticks w \<le> w_ticks w2" using c by simp_all
    ultimately show ?thesis using trans[OF q(2)] by (metis order_trans)
  qed
qed

end

interpretation steps: relay_relation "\<lambda>w w1. relay_step\<^sup>*\<^sup>* (relay_view w) (relay_view w1)"
  by unfold_locales (auto dest: relayNext_steps)

section \<open>At least once\<close>

text \<open>What a receiver sees of an event.\<close>

definition message_of :: "'d outbox_event \<Rightarrow> int \<times> string \<times> string \<times> string \<times> 'd message" where
  "message_of ev = (obx_Id ev, obx_EventId ev, obx_OrgId ev, obx_Topic ev, obx_Payload ev)"

abbreviation messages :: "'d outbox_event list \<Rightarrow> (int \<times> string \<times> string \<times> string \<times> 'd message) set" where
  "messages evs \<equiv> message_of ` set evs"

definition relay_ok :: "'d relay_view \<Rightarrow> bool" where
  "relay_ok v \<longleftrightarrow> distinct (map obx_Id (t_outbox (fst v))) \<and>
     (\<forall>ev\<in>set (t_outbox (fst v)). obx_PublishedAt ev \<noteq> None \<longrightarrow> message_of ev \<in> messages (snd v))"

text \<open>Nothing is lost before it was sent, nothing is sent that was not stored.\<close>

definition preserves_messages :: "'d relay_view \<Rightarrow> 'd relay_view \<Rightarrow> bool" where
  "preserves_messages v v1 \<longleftrightarrow> messages (snd v) \<subseteq> messages (snd v1) \<and>
     messages (t_outbox (fst v)) \<subseteq> messages (t_outbox (fst v1)) \<union> messages (snd v1) \<and>
     messages (t_outbox (fst v1)) \<subseteq> messages (t_outbox (fst v)) \<and>
     messages (snd v1) \<subseteq> messages (snd v) \<union> messages (t_outbox (fst v))"

lemma preserves_refl [simp]: "preserves_messages v v"
  by (simp add: preserves_messages_def)

lemma preserves_trans:
  assumes "preserves_messages a b" and "preserves_messages b c"
  shows "preserves_messages a c"
proof -
  have "A \<subseteq> A2 \<and> B \<subseteq> B2 \<union> A2 \<and> B2 \<subseteq> B \<and> A2 \<subseteq> A \<union> B"
    if "A \<subseteq> A1" "B \<subseteq> B1 \<union> A1" "B1 \<subseteq> B" "A1 \<subseteq> A \<union> B" "A1 \<subseteq> A2" "B1 \<subseteq> B2 \<union> A2" "B2 \<subseteq> B1" "A2 \<subseteq> A1 \<union> B1"
    for A B A1 B1 A2 B2 :: "'m set"
    using that by blast
  then show ?thesis using assms unfolding preserves_messages_def by meson
qed

lemma update_event_messages:
  assumes "\<And>e. message_of (f e) = message_of e"
  shows "map message_of (t_outbox (update_event i f db)) = map message_of (t_outbox db)"
  using assms by (simp add: update_event_def)

lemma row_messages: "message_of (e\<lparr>obx_PublishedAt := p\<rparr>) = message_of e"
    "message_of (e\<lparr>obx_Attempts := n, obx_LastError := m, obx_NextAttemptAt := t\<rparr>) = message_of e"
  by (simp_all add: message_of_def)

lemma updated_rows:
  "map message_of (t_outbox (delivered now ev db)) = map message_of (t_outbox db)"
  "map message_of (t_outbox (postponed now msg ev db)) = map message_of (t_outbox db)"
  unfolding delivered_def postponed_def by (rule update_event_messages, rule row_messages)+

lemma message_ids: "map message_of xs = map message_of ys \<Longrightarrow> map obx_Id xs = map obx_Id ys \<and> messages xs = messages ys"
proof -
  assume m: "map message_of xs = map message_of ys"
  have "map obx_Id zs = map fst (map message_of zs)" for zs :: "'a outbox_event list" by (simp add: message_of_def)
  then show ?thesis using m by (metis list.set_map)
qed

lemma relay_step_ok:
  assumes "relay_step v v1" and "relay_ok v"
  shows "relay_ok v1 \<and> preserves_messages v v1"
  using assms
proof cases
  case (resend ev now db sent)
  then show ?thesis using assms(2) by (auto simp: relay_ok_def preserves_messages_def claimable_set)
next
  case (deliver ev now db sent)
  have ids: "map obx_Id (t_outbox (delivered now ev db)) = map obx_Id (t_outbox db)"
    and ms: "messages (t_outbox (delivered now ev db)) = messages (t_outbox db)"
    using message_ids[OF updated_rows(1)] by blast+
  have ev: "ev \<in> set (t_outbox db)" using deliver by (simp add: claimable_set)
  have d: "distinct (map obx_Id (t_outbox db))" using assms(2) deliver by (simp add: relay_ok_def)
  have "message_of e1 \<in> messages (sent @ [ev])" if "e1 \<in> set (t_outbox (delivered now ev db))" and "obx_PublishedAt e1 \<noteq> None" for e1
  proof -
    from that(1) obtain e where e: "e \<in> set (t_outbox db)" "e1 = (if obx_Id e = obx_Id ev then e\<lparr>obx_PublishedAt := Some now\<rparr> else e)"
      by (auto simp: delivered_def update_event_def)
    show ?thesis
    proof (cases "obx_Id e = obx_Id ev")
      case True
      then have "e = ev" using d e(1) ev by (metis distinct_map inj_onD)
      then show ?thesis using e(2) by (simp add: row_messages)
    next
      case False
      then show ?thesis using e that(2) assms(2) deliver by (auto simp: relay_ok_def)
    qed
  qed
  then show ?thesis using deliver d ids ms ev by (auto simp: relay_ok_def preserves_messages_def)
next
  case (postpone ev now db sent msg)
  have "map obx_Id (t_outbox (postponed now msg ev db)) = map obx_Id (t_outbox db)"
    and "messages (t_outbox (postponed now msg ev db)) = messages (t_outbox db)"
    using message_ids[OF updated_rows(2)] by blast+
  moreover have "message_of e1 \<in> messages sent" if "e1 \<in> set (t_outbox (postponed now msg ev db))" and "obx_PublishedAt e1 \<noteq> None" for e1
    using that assms(2) postpone by (auto simp: postponed_def update_event_def relay_ok_def row_messages split: if_splits)
  ultimately show ?thesis using assms(2) postpone by (auto simp: relay_ok_def preserves_messages_def)
next
  case (purge db sent t)
  have "messages (t_outbox db) \<subseteq> messages (filter (\<lambda>ev. \<not> purgeable t ev) (t_outbox db)) \<union> messages sent"
    using assms(2) purge by (auto simp: relay_ok_def purgeable_def image_iff split: option.splits)
  then show ?thesis using assms(2) purge by (auto simp: relay_ok_def preserves_messages_def distinct_map_filter)
qed

lemma relay_steps_ok: "relay_step\<^sup>*\<^sup>* v v1 \<Longrightarrow> relay_ok v \<Longrightarrow> relay_ok v1 \<and> preserves_messages v v1"
  by (induction rule: rtranclp_induct) (auto dest: relay_step_ok intro: preserves_trans)

lemma relay_purge_step: "at_rest w \<Longrightarrow> at_rest (relay_purge retention w) \<and> relay_step\<^sup>*\<^sup>* (relay_view w) (relay_view (relay_purge retention w))"
  by (auto simp: relay_purge_def OutboxRepo_PurgePublished_def bindS_def stmt_def Let_def relay_view_def at_rest_def
      intro!: r_into_rtranclp purge split: option.splits)

lemma relay_run_steps: "at_rest w \<Longrightarrow> \<exists>w1. relay_run retention ticks w = Some w1 \<and> at_rest w1 \<and>
    relay_step\<^sup>*\<^sup>* (relay_view w) (relay_view w1)"
proof (induction ticks arbitrary: w)
  case (Cons t ts)
  show ?case
  proof (cases t)
    case (Tick_poll stop)
    then show ?thesis using steps.drain[OF Cons.prems, of stop 0] Cons.IH by (fastforce intro: rtranclp_trans)
  next
    case Tick_purge
    then show ?thesis using relay_purge_step[OF Cons.prems, of retention] Cons.IH by (fastforce intro: rtranclp_trans)
  qed
qed simp

section \<open>Delivery when nothing fails\<close>

text \<open>A faultless relay marks rows as published and changes nothing else.\<close>

definition marked :: "'d db \<Rightarrow> 'd db \<Rightarrow> bool" where
  "marked db db1 \<longleftrightarrow> list_all2 (\<lambda>a b. b = a \<or> (\<exists>t. b = a\<lparr>obx_PublishedAt := Some t\<rparr>)) (t_outbox db) (t_outbox db1)"

lemma marked_refl [simp]: "marked db db"
  by (simp add: marked_def list_all2_refl)

lemma marked_trans: "marked a b \<Longrightarrow> marked b c \<Longrightarrow> marked a c"
  unfolding marked_def by (erule (1) list_all2_trans[rotated]) auto

lemma marked_delivered: "marked db (delivered now ev db)"
  by (auto simp: marked_def delivered_def update_event_def list_all2_conv_all_nth)

definition faultless :: "'d world \<Rightarrow> bool" where
  "faultless w \<longleftrightarrow> w_fault w = (\<lambda>_. None) \<and> w_broker w = (\<lambda>_. None)"

definition only_marks :: "'d world \<Rightarrow> 'd world \<Rightarrow> bool" where
  "only_marks w w1 \<longleftrightarrow> (faultless w \<longrightarrow> faultless w1 \<and> marked (w_db w) (w_db w1))"

interpretation marks: relay_relation only_marks
proof (unfold_locales, goal_cases)
  case (2 a b c)
  then show ?case unfolding only_marks_def using marked_trans by blast
next
  case (3 w r w1)
  then show ?case using relayNext_cases[OF 3 refl] by (auto simp: only_marks_def faultless_def marked_delivered)
qed (simp add: only_marks_def)

lemma faultless_claim:
  assumes "relayNext w = (r, w1)" and "at_rest w" and "faultless w"
  shows "\<not> isl r"
  using assms
  by (auto simp: relayNext_def RunInTx_def RunInTxE_def relay_body_def run_steps sel_def exec_def stmt_def Let_def at_rest_def
      faultless_def OutboxRepo_ClaimPending_def OutboxRepo_MarkPublished_def PublishPayload_def split: list.splits)

lemma faultless_loop: "relay_loop i k w = ((m, err), w1) \<Longrightarrow> at_rest w \<Longrightarrow> faultless w \<Longrightarrow> err = None"
proof (induction i k w arbitrary: m err rule: relay_loop.induct)
  case (2 i k w)
  obtain r w2 where n: "relayNext w = (r, w2)" by (metis surj_pair)
  have "at_rest w2" using relayNext_cases[OF n 2(3) refl] by simp
  moreover have "faultless w2" using marks.claim[OF n 2(3)] 2(4) by (simp add: only_marks_def)
  moreover obtain claimed where r: "r = Inr claimed" using faultless_claim[OF n 2(3,4)] by (cases r) auto
  ultimately show ?case using 2(1)[OF n[symmetric] r] 2(2) n by (auto split: if_splits)
qed simp

section \<open>Properties\<close>

definition sample_event :: "int \<Rightarrow> string \<Rightarrow> 'd outbox_event" where
  "sample_event i eid = \<lparr>obx_Id = i, obx_EventId = eid, obx_OrgId = ''org'', obx_Topic = ''order.created'',
     obx_Payload = MsgSubscription sample_subscription, obx_Attempts = 0, obx_NextAttemptAt = None, obx_LastError = [], obx_PublishedAt = None, obx_CreatedAt = 0\<rparr>"

definition relay_world :: "rat world" where
  "relay_world = world_of (empty_db\<lparr>t_outbox := [sample_event 2 ''b'', sample_event 1 ''a'']\<rparr>) (\<lambda>n. int n * Second)"

lemmas relay_world_defs = relay_world_def world_of_def empty_db_def sample_event_def at_rest_def

text \<open>C21: A drain always ends, whatever fails on the way and however the clock runs: each
  event that is claimed uses up one of its ten attempts or leaves the queue.\<close>

theorem drain_ends:
  assumes "at_rest w"
  shows "\<exists>w1. drain stop n w = Some w1 \<and> at_rest w1"
  using steps.drain[OF assms] by blast

theorem drain_ends_witness: "\<exists>w1. drain (\<lambda>_. False) 0 relay_world = Some w1 \<and> at_rest w1"
  by (rule drain_ends) (simp add: relay_world_defs)

text \<open>C19: Delivery is at least once.  Over any run of the relay, with any failures of
  statements and of the broker: an event is marked as published only after the broker
  took its message; every stored event is still stored or was sent; and only messages of
  stored events are sent.\<close>

theorem relay_at_least_once:
  assumes "at_rest w" and "relay_ok (relay_view w)"
  shows "\<exists>w1. relay_run retention ticks w = Some w1 \<and> relay_ok (relay_view w1) \<and>
    messages (t_outbox (w_db w)) \<subseteq> messages (t_outbox (w_db w1)) \<union> messages (w_sent w1) \<and>
    messages (w_sent w1) \<subseteq> messages (w_sent w) \<union> messages (t_outbox (w_db w))"
proof -
  obtain w1 where r: "relay_run retention ticks w = Some w1" and s: "relay_step\<^sup>*\<^sup>* (relay_view w) (relay_view w1)"
    using relay_run_steps[OF assms(1), of retention ticks] by blast
  from relay_steps_ok[OF s assms(2)] have "relay_ok (relay_view w1)" "preserves_messages (relay_view w) (relay_view w1)" by simp_all
  with r show ?thesis unfolding preserves_messages_def by (intro exI[of _ w1]) (simp add: relay_view_def)
qed

theorem relay_at_least_once_witness:
  "\<exists>w1. relay_run Hour [Tick_poll (\<lambda>_. False), Tick_purge, Tick_poll (\<lambda>_. False)] relay_world = Some w1 \<and> relay_ok (relay_view w1) \<and>
    messages (t_outbox (w_db relay_world)) \<subseteq> messages (t_outbox (w_db w1)) \<union> messages (w_sent w1) \<and>
    messages (w_sent w1) \<subseteq> messages (w_sent relay_world) \<union> messages (t_outbox (w_db relay_world))"
  by (rule relay_at_least_once) (simp_all add: relay_world_defs relay_ok_def relay_view_def)

text \<open>C20: When no statement fails and the broker accepts, a drain that is not stopped sends
  every event that was due when it began and marks it as published.\<close>

theorem drain_delivers:
  assumes "at_rest w" and "faultless w" and "relay_ok (relay_view w)" and "\<And>m. \<not> stop m" and "mono (w_clock w)"
    and "ev \<in> set (t_outbox (w_db w))" and "pending_row relayMaxAttempts (w_clock w (w_ticks w)) ev"
  shows "\<exists>w1 ev1. drain stop n w = Some w1 \<and> message_of ev \<in> messages (w_sent w1) \<and>
    ev1 \<in> set (t_outbox (w_db w1)) \<and> message_of ev1 = message_of ev \<and> obx_PublishedAt ev1 \<noteq> None"
proof -
  obtain w1 where d: "drain stop n w = Some w1" and m: "only_marks w w1"
    and e: "(\<exists>w0 m e. relayBatch w0 = ((m, Some e), w1) \<and> at_rest w0 \<and> only_marks w w0) \<or>
       (\<exists>t\<ge>w_ticks w. claimable (w_clock w t) (w_db w1) = [])"
    using marks.drain[OF assms(1), of stop n] assms(4) by blast
  have "\<not> (\<exists>w0 m e. relayBatch w0 = ((m, Some e), w1) \<and> at_rest w0 \<and> only_marks w w0)"
    using faultless_loop assms(2) unfolding relayBatch_def only_marks_def by blast
  then obtain t where t: "w_ticks w \<le> t" "claimable (w_clock w t) (w_db w1) = []" using e by blast
  have "marked (w_db w) (w_db w1)" using m assms(2) by (simp add: only_marks_def)
  then obtain ev1 where ev1: "ev1 \<in> set (t_outbox (w_db w1))" "ev1 = ev \<or> (\<exists>t. ev1 = ev\<lparr>obx_PublishedAt := Some t\<rparr>)"
  proof -
    obtain i where "i < length (t_outbox (w_db w))" "t_outbox (w_db w) ! i = ev" using assms(6) by (auto simp: in_set_conv_nth)
    then show ?thesis using that[of "t_outbox (w_db w1) ! i"] \<open>marked (w_db w) (w_db w1)\<close>
      by (auto simp: marked_def list_all2_conv_all_nth)
  qed
  have "w_clock w (w_ticks w) \<le> w_clock w t" using assms(5) t(1) by (rule monoD)
  then have "pending_row relayMaxAttempts (w_clock w t) ev" using assms(7) by (auto simp: pending_row_def split: option.splits)
  moreover have "\<not> pending_row relayMaxAttempts (w_clock w t) ev1" using t(2) ev1(1) by (metis claimable_set empty_iff empty_set)
  ultimately have p: "obx_PublishedAt ev1 \<noteq> None" "message_of ev1 = message_of ev" using ev1(2) by (auto simp: row_messages)
  have "relay_ok (relay_view w1)" using steps.drain[OF assms(1), of stop n] d relay_steps_ok[OF _ assms(3)] by auto
  then have "message_of ev1 \<in> messages (w_sent w1)" using ev1(1) p(1) by (simp add: relay_ok_def relay_view_def)
  then show ?thesis using d p ev1(1) by (intro exI[of _ w1] exI[of _ ev1]) simp
qed

theorem drain_delivers_witness:
  "\<exists>w1 ev1. drain (\<lambda>_. False) 0 relay_world = Some w1 \<and> message_of (sample_event 2 ''b'' :: rat outbox_event) \<in> messages (w_sent w1) \<and>
    ev1 \<in> set (t_outbox (w_db w1)) \<and> message_of ev1 = message_of (sample_event 2 ''b'' :: rat outbox_event) \<and> obx_PublishedAt ev1 \<noteq> None"
  by (rule drain_delivers)
    (simp_all add: relay_world_defs relay_ok_def relay_view_def faultless_def pending_row_def relayMaxAttempts_def mono_def duration_defs)

lemma wrap64_dvd: "2 ^ m dvd x \<Longrightarrow> m \<le> 63 \<Longrightarrow> 2 ^ m dvd wrap64 x"
  unfolding wrap64_def by (intro dvd_diff dvd_mod dvd_add le_imp_power_dvd) simp_all

text \<open>The backoff after n failures doubles from one second and stays at five minutes, also
  where the shift of the int64 overflows.\<close>

theorem backoff_doubles:
  assumes "0 \<le> attempts"
  shows "backoff attempts = min (2 ^ nat attempts * Second) (5 * Minute)"
proof -
  let ?n = "nat attempts"
  show ?thesis
  proof (cases "?n \<le> 33")
    case True
    then have "(2 :: int) ^ ?n \<le> 2 ^ 33" by (intro power_increasing) simp_all
    then have "Second * 2 ^ ?n \<le> Second * 2 ^ 33" by (intro mult_left_mono) (simp_all add: duration_defs)
    also have "Second * 2 ^ 33 < 2 ^ 63" by (simp add: duration_defs)
    finally have "in64 (Second * 2 ^ ?n)" by (intro in64_between) (simp_all add: duration_defs)
    then have "wrap64 (Second * 2 ^ ?n) = 2 ^ ?n * Second" by (simp add: mult.commute)
    moreover have "\<not> 2 ^ ?n * Second \<le> 0" by (simp add: duration_defs)
    ultimately show ?thesis
      by (simp add: backoff_def relayBackoffBase_def relayBackoffCap_def Let_def min_def)
  next
    case False
    then obtain k where k: "?n = k + 34" by (metis add.commute le_add_diff_inverse not_le_imp_less Suc_leI Suc_numeral semiring_norm(2,5,8))
    have big: "5 * Minute \<le> 2 ^ ?n * Second"
    proof -
      have "(2 :: int) ^ 34 \<le> 2 ^ ?n" unfolding k by (intro power_increasing) simp_all
      then have "2 ^ 34 * Second \<le> 2 ^ ?n * Second" by (intro mult_right_mono) (simp_all add: duration_defs)
      then show ?thesis by (simp add: duration_defs)
    qed
    let ?d = "wrap64 (Second * 2 ^ ?n)"
    have "2 ^ 43 dvd Second * 2 ^ ?n"
    proof -
      have "Second * 2 ^ ?n = 2 ^ 43 * (1953125 * 2 ^ k)" unfolding k power_add by (simp add: duration_defs)
      then show ?thesis by (metis dvd_triv_left)
    qed
    then have "2 ^ 43 dvd ?d" by (rule wrap64_dvd) simp
    then have "\<not> (0 < ?d \<and> ?d \<le> 5 * Minute)" using zdvd_imp_le[of "2 ^ 43" ?d] by (auto simp: duration_defs)
    then have "backoff attempts = 5 * Minute"
      unfolding backoff_def relayBackoffBase_def relayBackoffCap_def Let_def by auto
    then show ?thesis using big by simp
  qed
qed

theorem backoff_doubles_witness: "backoff 8 = 256 * Second \<and> backoff 60 = 5 * Minute"
  using backoff_doubles[of 8] backoff_doubles[of 60] by (simp add: duration_defs)

end
