(* ===== verification/Dunning_Service.thy ===== *)
theory Dunning_Service
  imports Subscription_Service Faultless
begin

text \<open>
  The dunning service: src/internal/core/service/dunning.go and dunning_orchestration.go
  with their inputs (src/internal/core/port/dunning_input.go) and the queries of
  configurations (src/internal/adapter/db/postgrespgx/dunning_repo.go).  Campaigns
  collect the amount of a failed charge; an attempt charges it and its result recovers,
  suspends or cancels the subscription.  The lemmas show what each operation writes, how
  often a charge is sent, that a token is used at most as often as allowed, and that a
  campaign keeps the policy it was started under.

  Logging is left out.  The object decoded from a gateway's response is a parameter; the
  engine's answers are inputs.
\<close>

section \<open>Inputs\<close>

record create_campaign_input =
  cci_OrgId :: string
  cci_SubscriptionId :: string
  cci_CustomerId :: string
  cci_FailedAmount :: int
  cci_Currency :: string
  cci_InitialFailureReason :: string
  cci_ParentWorkflowId :: string
  cci_ConfigSnapshot :: config_blob
  cci_Metadata :: metadata

record start_dunning_input =
  sdi_OrgId :: string
  sdi_SubscriptionId :: string
  sdi_CustomerId :: string
  sdi_FailedAmount :: int
  sdi_Currency :: string
  sdi_InitialFailureReason :: string
  sdi_ParentWorkflowId :: string
  sdi_PaymentResult :: charge_result
  sdi_Metadata :: metadata

record campaign_change_input =
  chg_cmp_OrgId :: string
  chg_cmp_CampaignId :: string
  chg_cmp_Reason :: string

record manual_attempt_input =
  mai_OrgId :: string
  mai_CampaignId :: string
  mai_PaymentMethodId :: string
  mai_TriggeredBy :: string

record create_configuration_input =
  dci_OrgId :: string
  dci_Name :: string
  dci_Description :: string
  dci_Priority :: int
  dci_AppliesTo :: dunning_config_scope
  dci_TargetRules :: metadata
  dci_Config :: dunning_config
  dci_IsAbTest :: bool
  dci_AbTestPercentage :: rat
  dci_CreatedBy :: string

text \<open>A pointer or a map that may be nil is an option; an empty text leaves a field alone.\<close>

record update_configuration_input =
  dcu_OrgId :: string
  dcu_Id :: string
  dcu_Name :: string
  dcu_Description :: string
  dcu_Priority :: int
  dcu_AppliesTo :: dunning_config_scope
  dcu_TargetRules :: "metadata option"
  dcu_Config :: "dunning_config option"
  dcu_Status :: config_status
  dcu_IsAbTest :: "bool option"
  dcu_AbTestPercentage :: "rat option"

record create_token_input =
  cti_OrgId :: string
  cti_SubscriptionId :: string
  cti_CustomerId :: string
  cti_DunningCampaignId :: string
  cti_MaxUses :: int
  cti_ExpiryHours :: int
  cti_AllowedActions :: "(string \<rightharpoonup> bool) option"
  cti_AdminGenerated :: bool
  cti_AdminUserId :: string
  cti_AdminReason :: string
  cti_AdminNotes :: string
  cti_CreatedBy :: string

record activate_token_input =
  ati_OrgId :: string
  ati_TokenId :: string
  ati_UsedIp :: string

section \<open>Queries of configurations\<close>

definition dcn_key :: "dunning_configuration \<Rightarrow> string \<times> string" where
  "dcn_key c = (dcn_OrgId c, dcn_Id c)"

definition DunningRepo_FindConfigurationById :: "string \<Rightarrow> string \<Rightarrow> ('d, dunning_configuration) svc" where
  "DunningRepo_FindConfigurationById orgId cid = selOne (\<lambda>db. find_row dcn_key (orgId, cid) (t_configurations db))"

definition DunningRepo_CreateConfiguration :: "dunning_configuration \<Rightarrow> ('d, dunning_configuration) svc" where
  "DunningRepo_CreateConfiguration c =
    bindS (exec (\<lambda>db. map_option (\<lambda>rs. db\<lparr>t_configurations := rs\<rparr>)
                  (insert_row (\<lambda>a b. dcn_key a = dcn_key b) c (t_configurations db)))) (\<lambda>_.
    DunningRepo_FindConfigurationById (dcn_OrgId c) (dcn_Id c))"

definition dcn_merge :: "dunning_configuration \<Rightarrow> dunning_configuration \<Rightarrow> dunning_configuration" where
  "dcn_merge old c = c\<lparr>dcn_CreatedAt := dcn_CreatedAt old\<rparr>"

definition DunningRepo_UpdateConfiguration :: "dunning_configuration \<Rightarrow> ('d, dunning_configuration) svc" where
  "DunningRepo_UpdateConfiguration c =
    bindS (exec (\<lambda>db. Some (db\<lparr>t_configurations := update_row dcn_key dcn_merge c (t_configurations db)\<rparr>))) (\<lambda>_.
    DunningRepo_FindConfigurationById (dcn_OrgId c) (dcn_Id c))"

section \<open>Campaigns\<close>

abbreviation internal :: "string \<Rightarrow> app_error \<Rightarrow> app_error" where
  "internal msg e \<equiv> NewCustomError InternalError msg (Some e)"

abbreviation missing :: "string \<Rightarrow> app_error \<Rightarrow> app_error" where
  "missing msg e \<equiv> NewCustomError NotFoundError msg (Some e)"

text \<open>Errors that come with the value they were refused for.\<close>

type_synonym ('d, 'a) graded = "'d world \<Rightarrow> (('a option \<times> app_error) + 'a) \<times> 'd world"

definition alone :: "('d, 'a) svc \<Rightarrow> ('d, 'a) graded" where
  "alone m = tryS m (\<lambda>r. Pair (case r of Inl e \<Rightarrow> Inl (None, e) | Inr x \<Rightarrow> Inr x))"

definition refused :: "'a \<Rightarrow> string \<Rightarrow> ('d, 'a) graded" where
  "refused x msg = Pair (Inl (Some x, NewCustomError BadRequestError msg None))"

definition error_only :: "('d, 'a) graded \<Rightarrow> ('d, 'a) svc" where
  "error_only m w = (case m w of (Inl (_, e), w1) \<Rightarrow> (Inl e, w1) | (Inr x, w1) \<Rightarrow> (Inr x, w1))"

definition CreateCampaign :: "create_campaign_input \<Rightarrow> ('d, dunning_campaign) svc" where
  "CreateCampaign inp =
    bindS (mapErrS (missing ''Subscription not found'') (SubscriptionRepo_FindById (cci_OrgId inp) (cci_SubscriptionId inp))) (\<lambda>_.
    bindS (mapErrS (missing ''Customer not found'') (CustomerRepo_FindById (cci_OrgId inp) (cci_CustomerId inp))) (\<lambda>_.
    bindS nowS (\<lambda>now.
    bindS (Generate ''dunning_campaign'') (\<lambda>newId.
    bindS (mapErrS (internal ''Failed to create dunning campaign'') (DunningRepo_CreateCampaign
      \<lparr> cmp_OrgId = cci_OrgId inp, cmp_Id = newId, cmp_SubscriptionId = cci_SubscriptionId inp,
        cmp_CustomerId = cci_CustomerId inp, cmp_WorkflowId = [], cmp_WorkflowRunId = [],
        cmp_ParentWorkflowId = cci_ParentWorkflowId inp, cmp_Status = DunningStatusActive,
        cmp_FailedAmount = cci_FailedAmount inp, cmp_Currency = cci_Currency inp,
        cmp_InitialFailureReason = cci_InitialFailureReason inp, cmp_TotalAttempts = 0, cmp_ImmediateAttempts = 0,
        cmp_ProgressiveAttempts = 0, cmp_StartedAt = now, cmp_LastAttemptAt = 0, cmp_NextAttemptAt = 0,
        cmp_CompletedAt = 0, cmp_RecoveryMethod = [], cmp_RecoveredAmount = 0, cmp_RecoveredAt = 0,
        cmp_FinalFailureReason = [], cmp_ConfigSnapshot = cci_ConfigSnapshot inp, cmp_Metadata = cci_Metadata inp,
        cmp_CreatedAt = now, cmp_UpdatedAt = now \<rparr>)) (\<lambda>created.
    bindS (ignoreS (Publish (cmp_OrgId created) ''dunning.started'' (MsgCampaign created))) (\<lambda>_.
    retS created))))))"

definition FindCampaignById :: "string \<Rightarrow> string \<Rightarrow> ('d, dunning_campaign) svc" where
  "FindCampaignById orgId cid = mapErrS (missing ''Dunning campaign not found'') (DunningRepo_FindCampaignById orgId cid)"

text \<open>A change of a campaign that was read, stored and published.\<close>

definition store_campaign :: "dunning_campaign \<Rightarrow> string \<Rightarrow> string \<Rightarrow> ('d, dunning_campaign) svc" where
  "store_campaign c msg topic =
    bindS (mapErrS (internal msg) (DunningRepo_UpdateCampaign c)) (\<lambda>updated.
    bindS (ignoreS (Publish (cmp_OrgId updated) topic (MsgCampaign updated))) (\<lambda>_. retS updated))"

definition PauseCampaign :: "campaign_change_input \<Rightarrow> ('d, dunning_campaign) graded" where
  "PauseCampaign inp = tryS (FindCampaignById (chg_cmp_OrgId inp) (chg_cmp_CampaignId inp)) (\<lambda>r. case r of
     Inl e \<Rightarrow> Pair (Inl (None, e))
   | Inr c \<Rightarrow> if cmp_Status c \<noteq> DunningStatusActive then refused c ''Only active campaigns can be paused''
       else alone (bindS nowS (\<lambda>now.
         store_campaign (c\<lparr>cmp_Status := DunningStatusPaused, cmp_UpdatedAt := now\<rparr>) ''Failed to pause campaign'' ''dunning.paused'')))"

definition ResumeCampaign :: "campaign_change_input \<Rightarrow> ('d, dunning_campaign) graded" where
  "ResumeCampaign inp = tryS (FindCampaignById (chg_cmp_OrgId inp) (chg_cmp_CampaignId inp)) (\<lambda>r. case r of
     Inl e \<Rightarrow> Pair (Inl (None, e))
   | Inr c \<Rightarrow> if cmp_Status c \<noteq> DunningStatusPaused then refused c ''Only paused campaigns can be resumed''
       else alone (bindS nowS (\<lambda>now.
         store_campaign (c\<lparr>cmp_Status := DunningStatusActive, cmp_UpdatedAt := now\<rparr>) ''Failed to resume campaign'' ''dunning.resumed'')))"

definition CancelCampaign :: "campaign_change_input \<Rightarrow> ('d, dunning_campaign) graded" where
  "CancelCampaign inp = tryS (FindCampaignById (chg_cmp_OrgId inp) (chg_cmp_CampaignId inp)) (\<lambda>r. case r of
     Inl e \<Rightarrow> Pair (Inl (None, e))
   | Inr c \<Rightarrow> if cmp_Status c \<noteq> DunningStatusActive \<and> cmp_Status c \<noteq> DunningStatusPaused
       then refused c ''Only active or paused campaigns can be cancelled''
       else alone (bindS nowS (\<lambda>now.
         store_campaign (c\<lparr>cmp_Status := DunningStatusCancelled, cmp_CompletedAt := now,
             cmp_FinalFailureReason := chg_cmp_Reason inp, cmp_UpdatedAt := now\<rparr>)
           ''Failed to cancel campaign'' ''dunning.cancelled'')))"

definition UpdateCampaign :: "dunning_campaign \<Rightarrow> ('d, dunning_campaign) svc" where
  "UpdateCampaign c =
    bindS nowS (\<lambda>now. mapErrS (internal ''Failed to update campaign'') (DunningRepo_UpdateCampaign (c\<lparr>cmp_UpdatedAt := now\<rparr>)))"

definition MarkCampaignRecovered :: "string \<Rightarrow> string \<Rightarrow> string \<Rightarrow> int \<Rightarrow> ('d, dunning_campaign) svc" where
  "MarkCampaignRecovered orgId cid recoveryMethod recoveredAmount =
    bindS (FindCampaignById orgId cid) (\<lambda>c.
    bindS nowS (\<lambda>now.
    store_campaign (c\<lparr>cmp_Status := DunningStatusRecovered, cmp_RecoveryMethod := recoveryMethod,
        cmp_RecoveredAmount := recoveredAmount, cmp_RecoveredAt := now, cmp_CompletedAt := now, cmp_UpdatedAt := now\<rparr>)
      ''Failed to mark campaign recovered'' ''dunning.recovered''))"

definition MarkCampaignFailed :: "string \<Rightarrow> string \<Rightarrow> string \<Rightarrow> ('d, dunning_campaign) svc" where
  "MarkCampaignFailed orgId cid finalFailureReason =
    bindS (FindCampaignById orgId cid) (\<lambda>c.
    bindS nowS (\<lambda>now.
    store_campaign (c\<lparr>cmp_Status := DunningStatusFailed, cmp_FinalFailureReason := finalFailureReason,
        cmp_CompletedAt := now, cmp_UpdatedAt := now\<rparr>)
      ''Failed to mark campaign failed'' ''dunning.failed''))"

definition writeOffCurrentInvoice :: "subscription \<Rightarrow> ('d, unit) svc" where
  "writeOffCurrentInvoice s =
    tryS (FindCurrentCycle (sub_OrgId s) (sub_Id s) (sub_CyclesProcessed s)) (\<lambda>r. case r of
      Inl _ \<Rightarrow> retS ()
    | Inr (i :: 'd invoice) \<Rightarrow>
        if inv_Status i \<noteq> InvoiceStatusOpen \<and> inv_Status i \<noteq> InvoiceStatusDraft then retS ()
        else ignoreS (InvoiceService_MarkUncollectible (sub_OrgId s) (inv_Id i) :: ('d, 'd invoice) svc))"

definition cancel_for_dunning :: "subscription \<Rightarrow> ('d, subscription) svc" where
  "cancel_for_dunning s =
    bindS nowS (\<lambda>now.
    let s1 = s\<lparr>sub_Status := SubscriptionStatusCancelled, sub_CancelledAt := now\<rparr> in
    bindS (ignoreS (SubscriptionRepo_Update s1)) (\<lambda>_. retS s1))"

definition FailCampaignAndCancelSubscription :: "string \<Rightarrow> string \<Rightarrow> string \<Rightarrow> ('d, dunning_campaign) svc" where
  "FailCampaignAndCancelSubscription orgId cid finalFailureReason =
    bindS (FindCampaignById orgId cid) (\<lambda>c.
    bindS (tryS (SubscriptionRepo_FindById orgId (cmp_SubscriptionId c)) (\<lambda>r. case r of
        Inl _ \<Rightarrow> retS ()
      | Inr s \<Rightarrow> bindS (if sub_Status s \<noteq> SubscriptionStatusCancelled then cancel_for_dunning s else retS s) writeOffCurrentInvoice)) (\<lambda>_.
    MarkCampaignFailed orgId cid finalFailureReason))"

section \<open>Attempts\<close>

definition attempt_status :: "charge_payment_status \<Rightarrow> payment_status" where
  "attempt_status st = (case st of
     ChargePaymentStatusSuccess \<Rightarrow> PaymentStatusSucceeded
   | ChargePaymentStatusPending \<Rightarrow> PaymentStatusPending
   | ChargePaymentStatusError \<Rightarrow> PaymentStatusFailed
   | ChargePaymentStatusGatewayError \<Rightarrow> PaymentStatusFailed
   | ChargePaymentStatusOther _ \<Rightarrow> PaymentStatusFailed)"

definition Milliseconds :: "duration \<Rightarrow> int" where
  "Milliseconds d = quot64 d 1000000"

definition counted :: "dunning_campaign \<Rightarrow> dunning_attempt_type \<Rightarrow> time \<Rightarrow> dunning_campaign" where
  "counted c attemptType completedAt =
    (let c = c\<lparr>cmp_TotalAttempts := add64 (cmp_TotalAttempts c) 1\<rparr>;
         c = (case attemptType of
                DunningAttemptTypeImmediate \<Rightarrow> c\<lparr>cmp_ImmediateAttempts := add64 (cmp_ImmediateAttempts c) 1\<rparr>
              | DunningAttemptTypeProgressive \<Rightarrow> c\<lparr>cmp_ProgressiveAttempts := add64 (cmp_ProgressiveAttempts c) 1\<rparr>
              | _ \<Rightarrow> c)
     in c\<lparr>cmp_LastAttemptAt := completedAt, cmp_UpdatedAt := completedAt\<rparr>)"

text \<open>What follows the answer of the gateway.\<close>

definition record_attempt ::
    "(string \<Rightarrow> string) \<Rightarrow> string \<Rightarrow> dunning_campaign \<Rightarrow> subscription \<Rightarrow> payment_method \<Rightarrow> dunning_attempt_type \<Rightarrow>
     string \<Rightarrow> time \<Rightarrow> charge_payment_response \<Rightarrow> ('d, dunning_attempt) svc" where
  "record_attempt decode_object orgId c s pm attemptType triggeredBy startedAt r =
    bindS nowS (\<lambda>completedAt.
    let status = attempt_status (cpr_Status r) in
    bindS (Generate ''dunning_attempt'') (\<lambda>newId.
    bindS (mapErrS (internal ''Failed to record attempt'') (DunningRepo_CreateAttempt
      \<lparr> att_OrgId = orgId, att_Id = newId, att_DunningCampaignId = cmp_Id c, att_SubscriptionId = sub_Id s,
        att_AttemptNumber = add64 (cmp_TotalAttempts c) 1, att_AttemptType = attemptType,
        att_Amount = cpr_AmountCharged r, att_Currency = cpr_Currency r, att_PaymentMethodId = pmd_Id pm,
        att_Status = status, att_FailureReason = cpr_ErrorReason r, att_FailureCode = cpr_ErrorCode r,
        att_ProcessorResponse = decode_object (cpr_PspResponse r),
        att_ProcessingTimeMs = Milliseconds (time_Sub completedAt startedAt), att_AttemptedAt = startedAt,
        att_CompletedAt = completedAt, att_TriggeredBy = triggeredBy, att_Metadata = Map.empty,
        att_CreatedAt = completedAt \<rparr>)) (\<lambda>created.
    bindS (ignoreS (DunningRepo_UpdateCampaign (counted c attemptType completedAt))) (\<lambda>_.
    bindS (ignoreS (Publish orgId
       (if status = PaymentStatusSucceeded then ''dunning.attempt_succeeded'' else ''dunning.attempt_failed'')
       (MsgAttempt created (cmp_CustomerId c) False False))) (\<lambda>_.
    retS created)))))"

text \<open>What an attempt loads before it charges.\<close>

definition attempt_setup :: "string \<Rightarrow> string \<Rightarrow> string \<Rightarrow>
    ('d, dunning_campaign \<times> subscription \<times> customer \<times> payment_method \<times> gateway) svc" where
  "attempt_setup orgId cid paymentMethodIdOverride =
    bindS (FindCampaignById orgId cid) (\<lambda>c.
    bindS (mapErrS (missing ''Subscription not found'') (SubscriptionRepo_FindById orgId (cmp_SubscriptionId c))) (\<lambda>s.
    bindS (mapErrS (internal ''Failed to load customer'') (CustomerRepo_FindById (sub_OrgId s) (sub_CustomerId s))) (\<lambda>cu.
    let pmId = (if paymentMethodIdOverride \<noteq> [] then paymentMethodIdOverride else sub_PaymentMethodId s) in
    bindS (mapErrS (missing ''Payment method not found'') (CustomerRepo_FindPaymentMethodById orgId pmId)) (\<lambda>pm.
    bindS (mapErrS (internal ''Failed to get gateway'') (NewGateway orgId (sub_PspId s))) (\<lambda>gw.
    retS (c, s, cu, pm, gw))))))"

definition runChargeAttempt ::
    "(string \<Rightarrow> string) \<Rightarrow> string \<Rightarrow> string \<Rightarrow> dunning_attempt_type \<Rightarrow> string \<Rightarrow> string \<Rightarrow> ('d, dunning_attempt) svc" where
  "runChargeAttempt decode_object orgId cid attemptType triggeredBy paymentMethodIdOverride =
    bindS (attempt_setup orgId cid paymentMethodIdOverride) (\<lambda>(c, s, cu, pm, gw).
    bindS nowS (\<lambda>startedAt.
    bindS (ChargePayment \<lparr> chi_OrgId = orgId, chi_OrderId = sub_OrderId s, chi_SubscriptionId = sub_Id s,
             chi_Amount = cmp_FailedAmount c, chi_Currency = cmp_Currency c, chi_PspId = gw, chi_Method = pm,
             chi_Customer = cu \<rparr>)
      (record_attempt decode_object orgId c s pm attemptType triggeredBy startedAt)))"

definition TriggerManualAttempt :: "(string \<Rightarrow> string) \<Rightarrow> manual_attempt_input \<Rightarrow> ('d, dunning_attempt) svc" where
  "TriggerManualAttempt decode_object inp =
    bindS (runChargeAttempt decode_object (mai_OrgId inp) (mai_CampaignId inp) DunningAttemptTypeManual (mai_TriggeredBy inp)
             (mai_PaymentMethodId inp)) (\<lambda>a.
    bindS (if att_Status a = PaymentStatusSucceeded
           then ignoreS (MarkCampaignRecovered (att_OrgId a) (att_DunningCampaignId a) ''manual_retry'' (att_Amount a))
           else retS ()) (\<lambda>_.
    retS a))"

definition attempt_type_text :: "dunning_attempt_type \<Rightarrow> string" where
  "attempt_type_text t = (case t of
     DunningAttemptTypeImmediate \<Rightarrow> ''immediate'' | DunningAttemptTypeProgressive \<Rightarrow> ''progressive''
   | DunningAttemptTypeManual \<Rightarrow> ''manual'' | DunningAttemptTypeTriggered \<Rightarrow> ''triggered''
   | DunningAttemptTypeOther s \<Rightarrow> s)"

definition ExecuteAttempt :: "(string \<Rightarrow> string) \<Rightarrow> string \<Rightarrow> string \<Rightarrow> dunning_attempt_type \<Rightarrow> ('d, dunning_attempt) svc" where
  "ExecuteAttempt decode_object orgId cid attemptType =
    runChargeAttempt decode_object orgId cid attemptType (attempt_type_text attemptType) []"

section \<open>Escalation\<close>

definition dunning_event :: "dunning_campaign \<Rightarrow> subscription \<Rightarrow> subscription_status \<Rightarrow> subscription_status \<Rightarrow> 'd message" where
  "dunning_event c s oldStatus newStatus = MsgDunningSubscription
     \<lparr> dse_OrgId = cmp_OrgId c, dse_CampaignId = cmp_Id c, dse_SubscriptionId = sub_Id s,
       dse_CustomerId = cmp_CustomerId c, dse_OldStatus = oldStatus, dse_NewStatus = newStatus \<rparr>"

definition reactivate :: "dunning_campaign \<Rightarrow> ('d, unit) svc" where
  "reactivate c = tryS (SubscriptionRepo_FindById (cmp_OrgId c) (cmp_SubscriptionId c)) (\<lambda>r. case r of
     Inl _ \<Rightarrow> retS ()
   | Inr s \<Rightarrow> if sub_Status s = SubscriptionStatusActive then retS ()
       else tryS (SubscriptionRepo_Update (s\<lparr>sub_Status := SubscriptionStatusActive\<rparr>)) (\<lambda>u. case u of
          Inl _ \<Rightarrow> retS ()
        | Inr _ \<Rightarrow> ignoreS (Publish (cmp_OrgId c) ''dunning.subscription_reactivated''
              (dunning_event c s (sub_Status s) SubscriptionStatusActive))))"

definition cancel_exhausted :: "dunning_campaign \<Rightarrow> ('d, unit) svc" where
  "cancel_exhausted c = tryS (SubscriptionRepo_FindById (cmp_OrgId c) (cmp_SubscriptionId c)) (\<lambda>r. case r of
     Inl _ \<Rightarrow> retS ()
   | Inr s \<Rightarrow> bindS (cancel_for_dunning s) writeOffCurrentInvoice)"

definition suspend :: "dunning_campaign \<Rightarrow> ('d, unit) svc" where
  "suspend c = tryS (SubscriptionRepo_FindById (cmp_OrgId c) (cmp_SubscriptionId c)) (\<lambda>r. case r of
     Inl _ \<Rightarrow> retS ()
   | Inr s \<Rightarrow>
       if sub_Status s \<noteq> SubscriptionStatusUnpaid \<and> sub_Status s \<noteq> SubscriptionStatusCancelled \<and>
          sub_Status s \<noteq> SubscriptionStatusExpired \<and> sub_Status s \<noteq> SubscriptionStatusCompleted
       then tryS (SubscriptionRepo_Update (s\<lparr>sub_Status := SubscriptionStatusUnpaid\<rparr>)) (\<lambda>u. case u of
              Inl _ \<Rightarrow> retS ()
            | Inr _ \<Rightarrow> bindS (ignoreS (Publish (cmp_OrgId c) ''dunning.subscription_suspended''
                  (dunning_event c s (sub_Status s) SubscriptionStatusUnpaid))) (\<lambda>_.
                writeOffCurrentInvoice (s\<lparr>sub_Status := SubscriptionStatusUnpaid\<rparr>)))
       else retS ())"

definition reached :: "int \<Rightarrow> int \<Rightarrow> bool" where
  "reached threshold attemptNumber \<longleftrightarrow> 0 < threshold \<and> threshold \<le> attemptNumber"

definition UpdateCampaignWithAttemptResult ::
    "dunning_attempt \<Rightarrow> dunning_config \<Rightarrow> dunning_attempt_context \<Rightarrow> ('d, dunning_campaign) svc" where
  "UpdateCampaignWithAttemptResult a config ctx =
    bindS (FindCampaignById (att_OrgId a) (att_DunningCampaignId a)) (\<lambda>c.
    if att_Status a = PaymentStatusSucceeded then
      bindS (MarkCampaignRecovered (cmp_OrgId c) (cmp_Id c) ''retry_recovered'' (att_Amount a)) (\<lambda>updated.
      bindS (if dac_WasSubscriptionSuspended ctx then reactivate c else retS ()) (\<lambda>_.
      retS updated))
    else let rules = dcf_EscalationRules config in
      if reached (esc_CancelAfterAttempt rules) (dac_AttemptNumber ctx) then
        bindS (cancel_exhausted c) (\<lambda>_.
        MarkCampaignFailed (cmp_OrgId c) (cmp_Id c) ''max_attempts_reached'')
      else
        let isFinalNotice = reached (esc_FinalNoticeAttempt rules) (dac_AttemptNumber ctx);
            shouldSuspend = reached (esc_SuspendAfterAttempt rules) (dac_AttemptNumber ctx)
        in bindS (if shouldSuspend then suspend c else retS ()) (\<lambda>_.
           bindS (ignoreS (Publish (cmp_OrgId c) ''dunning.attempt_failed'' (MsgAttempt a (cmp_CustomerId c) shouldSuspend isFinalNotice))) (\<lambda>_.
           retS c)))"

definition SendCommunication :: "string \<Rightarrow> string \<Rightarrow> int \<Rightarrow> ('d, unit) svc" where
  "SendCommunication orgId cid attemptNumber =
    bindS (FindCampaignById orgId cid) (\<lambda>c.
    Publish orgId ''dunning.communication_sent''
      (MsgCommunication orgId (cmp_Id c) (cmp_CustomerId c) attemptNumber CommunicationStatusPending))"

section \<open>Tokens\<close>

text \<open>The layout RFC 3339 of a time in UTC.\<close>

definition format_RFC3339 :: "time \<Rightarrow> string" where
  "format_RFC3339 t = (case (time_Date t, time_Clock t) of ((y, m, d), (h, mi, s)) \<Rightarrow>
     sprintf_0d 4 y @ ''-'' @ sprintf_0d 2 m @ ''-'' @ sprintf_0d 2 d @ ''T'' @
     sprintf_0d 2 h @ '':'' @ sprintf_0d 2 mi @ '':'' @ sprintf_0d 2 s @ ''Z'')"

definition default_actions :: "string \<rightharpoonup> bool" where
  "default_actions = [''update_payment_method'' \<mapsto> True, ''retry_payment'' \<mapsto> True]"

definition CreatePaymentUpdateToken :: "create_token_input \<Rightarrow> ('d, payment_update_token) svc" where
  "CreatePaymentUpdateToken inp =
    bindS (mapErrS (missing ''Subscription not found'') (SubscriptionRepo_FindById (cti_OrgId inp) (cti_SubscriptionId inp))) (\<lambda>_.
    bindS (mapErrS (missing ''Customer not found'') (CustomerRepo_FindById (cti_OrgId inp) (cti_CustomerId inp))) (\<lambda>_.
    let maxUses = (if cti_MaxUses inp \<le> 0 then 5 else cti_MaxUses inp);
        expiryHours = (if cti_ExpiryHours inp \<le> 0 then 72 else cti_ExpiryHours inp);
        allowed = (case cti_AllowedActions inp of None \<Rightarrow> default_actions | Some m \<Rightarrow> m)
    in bindS nowS (\<lambda>now.
    let expiresAt = time_Add now (mul64 expiryHours Hour) in
    bindS (Generate ''payment_update_token'') (\<lambda>newId.
    bindS (mapErrS (internal ''Failed to create token'') (DunningRepo_CreateToken
      \<lparr> tok_OrgId = cti_OrgId inp, tok_TokenId = newId, tok_SubscriptionId = cti_SubscriptionId inp,
        tok_CustomerId = cti_CustomerId inp, tok_DunningCampaignId = cti_DunningCampaignId inp,
        tok_TokenData = \<lparr> tkd_ExpiresAt = format_RFC3339 expiresAt, tkd_MaxUses = maxUses, tkd_AllowedActions = allowed \<rparr>,
        tok_Signature = [], tok_ExpiresAt = expiresAt, tok_MaxUses = maxUses, tok_UsedCount = 0,
        tok_Status = TokenStatusActive, tok_AllowedActions = allowed, tok_AdminGenerated = cti_AdminGenerated inp,
        tok_AdminUserId = cti_AdminUserId inp, tok_AdminReason = cti_AdminReason inp, tok_AdminNotes = cti_AdminNotes inp,
        tok_CreatedBy = cti_CreatedBy inp, tok_CreatedAt = now, tok_LastUsedAt = 0, tok_LastUsedIp = [] \<rparr>)) (\<lambda>created.
    bindS (ignoreS (Publish (tok_OrgId created) ''dunning.token_created'' (MsgToken created))) (\<lambda>_.
    retS created))))))"

text \<open>A token that is refused because of its time or its uses is also stored as such.\<close>

definition expire_token :: "payment_update_token \<Rightarrow> token_status \<Rightarrow> string \<Rightarrow> ('d, payment_update_token) graded" where
  "expire_token t st msg =
    tryS (ignoreS (DunningRepo_UpdateToken (t\<lparr>tok_Status := st\<rparr>))) (\<lambda>_. refused (t\<lparr>tok_Status := st\<rparr>) msg)"

definition VerifyPaymentUpdateToken :: "string \<Rightarrow> string \<Rightarrow> ('d, payment_update_token) graded" where
  "VerifyPaymentUpdateToken orgId tokenId =
    tryS (mapErrS (missing ''Token not found'') (DunningRepo_FindTokenById orgId tokenId)) (\<lambda>r. case r of
      Inl e \<Rightarrow> Pair (Inl (None, e))
    | Inr t \<Rightarrow>
        if tok_Status t \<noteq> TokenStatusActive then refused t ''Token is not active''
        else with_now (\<lambda>now.
          if tok_ExpiresAt t < now then expire_token t TokenStatusExpired ''Token has expired''
          else if tok_MaxUses t \<le> tok_UsedCount t then expire_token t TokenStatusMaxUsesReached ''Token has reached max uses''
          else Pair (Inr t)))"

definition used_token :: "payment_update_token \<Rightarrow> time \<Rightarrow> string \<Rightarrow> payment_update_token" where
  "used_token t now ip =
    (let t = t\<lparr>tok_UsedCount := add64 (tok_UsedCount t) 1, tok_LastUsedAt := now, tok_LastUsedIp := ip\<rparr>
     in if tok_MaxUses t \<le> tok_UsedCount t then t\<lparr>tok_Status := TokenStatusMaxUsesReached\<rparr> else t)"

definition ActivatePaymentUpdateToken :: "activate_token_input \<Rightarrow> ('d, payment_update_token) svc" where
  "ActivatePaymentUpdateToken inp =
    bindS (error_only (VerifyPaymentUpdateToken (ati_OrgId inp) (ati_TokenId inp))) (\<lambda>t.
    bindS nowS (\<lambda>now.
    bindS (mapErrS (internal ''Failed to update token'') (DunningRepo_UpdateToken (used_token t now (ati_UsedIp inp)))) (\<lambda>updated.
    bindS (ignoreS (Publish (tok_OrgId updated) ''dunning.token_activated'' (MsgToken updated))) (\<lambda>_.
    retS updated))))"

definition RevokePaymentUpdateToken :: "string \<Rightarrow> string \<Rightarrow> ('d, payment_update_token) graded" where
  "RevokePaymentUpdateToken orgId tokenId =
    tryS (mapErrS (missing ''Token not found'') (DunningRepo_FindTokenById orgId tokenId)) (\<lambda>r. case r of
      Inl e \<Rightarrow> Pair (Inl (None, e))
    | Inr t \<Rightarrow>
        if tok_Status t \<noteq> TokenStatusActive then refused t ''Only active tokens can be revoked''
        else alone (
          bindS (mapErrS (internal ''Failed to revoke token'') (DunningRepo_UpdateToken (t\<lparr>tok_Status := TokenStatusRevoked\<rparr>))) (\<lambda>updated.
          bindS (ignoreS (Publish (tok_OrgId updated) ''dunning.token_revoked'' (MsgToken updated))) (\<lambda>_.
          retS updated))))"

section \<open>Configurations\<close>

definition CreateConfiguration :: "create_configuration_input \<Rightarrow> ('d, dunning_configuration) svc" where
  "CreateConfiguration inp =
    bindS nowS (\<lambda>now.
    bindS (Generate ''dunning_configuration'') (\<lambda>newId.
    bindS (mapErrS (internal ''Failed to create configuration'') (DunningRepo_CreateConfiguration
      \<lparr> dcn_OrgId = dci_OrgId inp, dcn_Id = newId, dcn_Name = dci_Name inp, dcn_Description = dci_Description inp,
        dcn_Priority = dci_Priority inp, dcn_AppliesTo = dci_AppliesTo inp, dcn_TargetRules = dci_TargetRules inp,
        dcn_Config = configToMap (dci_Config inp), dcn_Status = ConfigStatusActive, dcn_IsAbTest = dci_IsAbTest inp,
        dcn_AbTestPercentage = dci_AbTestPercentage inp, dcn_CreatedBy = dci_CreatedBy inp, dcn_CreatedAt = now,
        dcn_UpdatedAt = now \<rparr>)) (\<lambda>created.
    bindS (ignoreS (Publish (dcn_OrgId created) ''dunning.configuration_created'' (MsgConfiguration created))) (\<lambda>_.
    retS created))))"

definition GetConfiguration :: "string \<Rightarrow> string \<Rightarrow> ('d, dunning_configuration) svc" where
  "GetConfiguration orgId cid = mapErrS (missing ''Configuration not found'') (DunningRepo_FindConfigurationById orgId cid)"

definition changed_configuration :: "update_configuration_input \<Rightarrow> dunning_configuration \<Rightarrow> dunning_configuration" where
  "changed_configuration inp c =
    (let c = (if dcu_Name inp \<noteq> [] then c\<lparr>dcn_Name := dcu_Name inp\<rparr> else c);
         c = (if dcu_Description inp \<noteq> [] then c\<lparr>dcn_Description := dcu_Description inp\<rparr> else c);
         c = (if dcu_Priority inp \<noteq> 0 then c\<lparr>dcn_Priority := dcu_Priority inp\<rparr> else c);
         c = (if dcu_AppliesTo inp \<noteq> DunningConfigScopeOther [] then c\<lparr>dcn_AppliesTo := dcu_AppliesTo inp\<rparr> else c);
         c = (case dcu_TargetRules inp of None \<Rightarrow> c | Some m \<Rightarrow> c\<lparr>dcn_TargetRules := m\<rparr>);
         c = (case dcu_Config inp of None \<Rightarrow> c | Some cfg \<Rightarrow> c\<lparr>dcn_Config := configToMap cfg\<rparr>);
         c = (if dcu_Status inp \<noteq> ConfigStatusOther [] then c\<lparr>dcn_Status := dcu_Status inp\<rparr> else c);
         c = (case dcu_IsAbTest inp of None \<Rightarrow> c | Some b \<Rightarrow> c\<lparr>dcn_IsAbTest := b\<rparr>);
         c = (case dcu_AbTestPercentage inp of None \<Rightarrow> c | Some q \<Rightarrow> c\<lparr>dcn_AbTestPercentage := q\<rparr>)
     in c)"

definition UpdateConfiguration :: "update_configuration_input \<Rightarrow> ('d, dunning_configuration) svc" where
  "UpdateConfiguration inp =
    bindS (GetConfiguration (dcu_OrgId inp) (dcu_Id inp)) (\<lambda>c.
    bindS nowS (\<lambda>now.
    bindS (mapErrS (internal ''Failed to update configuration'')
       (DunningRepo_UpdateConfiguration ((changed_configuration inp c)\<lparr>dcn_UpdatedAt := now\<rparr>))) (\<lambda>updated.
    bindS (ignoreS (Publish (dcn_OrgId updated) ''dunning.configuration_updated'' (MsgConfiguration updated))) (\<lambda>_.
    retS updated))))"

text \<open>The first configuration that decodes.\<close>

fun first_decoded :: "dunning_configuration list \<Rightarrow> dunning_config" where
  "first_decoded [] = DefaultDunningConfig"
| "first_decoded (c # cs) = (case configFromMap (dcn_Config c) of Inr cfg \<Rightarrow> cfg | Inl _ \<Rightarrow> first_decoded cs)"

definition ResolveConfig :: "string \<Rightarrow> ('d, dunning_config) svc" where
  "ResolveConfig orgId = tryS (DunningRepo_FindConfigurationsByPriority orgId) (\<lambda>r. case r of
     Inl _ \<Rightarrow> retS DefaultDunningConfig
   | Inr configs \<Rightarrow> retS (first_decoded configs))"

definition LoadConfigForCampaign :: "string \<Rightarrow> string \<Rightarrow> ('d, dunning_config) svc" where
  "LoadConfigForCampaign orgId cid =
    bindS (FindCampaignById orgId cid) (\<lambda>c.
    if cmp_ConfigSnapshot c \<noteq> NoConfig then
      (case configFromMap (cmp_ConfigSnapshot c) of Inr cfg \<Rightarrow> retS cfg | Inl _ \<Rightarrow> ResolveConfig orgId)
    else ResolveConfig orgId)"

section \<open>Orchestration\<close>

text \<open>The engine answers a start with the handles of the run, or with an error.\<close>

type_synonym dunning_engine_start = "start_dunning_input \<Rightarrow> string + (string \<times> string)"

definition StartDunningWorkflow :: "dunning_engine_start \<Rightarrow> start_dunning_input \<Rightarrow> ('d, dunning_campaign) graded" where
  "StartDunningWorkflow engine inp =
    tryS (bindS (ResolveConfig (sdi_OrgId inp)) (\<lambda>resolved.
          CreateCampaign \<lparr> cci_OrgId = sdi_OrgId inp, cci_SubscriptionId = sdi_SubscriptionId inp,
            cci_CustomerId = sdi_CustomerId inp, cci_FailedAmount = sdi_FailedAmount inp, cci_Currency = sdi_Currency inp,
            cci_InitialFailureReason = sdi_InitialFailureReason inp, cci_ParentWorkflowId = sdi_ParentWorkflowId inp,
            cci_ConfigSnapshot = configToMap resolved, cci_Metadata = sdi_Metadata inp \<rparr>)) (\<lambda>r. case r of
      Inl e \<Rightarrow> Pair (Inl (None, e))
    | Inr c \<Rightarrow> (case engine inp of
        Inl e \<Rightarrow> Pair (Inl (Some c, internal ''Failed to start dunning workflow'' (InfraError e)))
      | Inr (workflowId, runId) \<Rightarrow>
          tryS (UpdateCampaign (c\<lparr>cmp_WorkflowId := workflowId, cmp_WorkflowRunId := runId\<rparr>)) (\<lambda>u. case u of
            Inl _ \<Rightarrow> Pair (Inr (c\<lparr>cmp_WorkflowId := workflowId, cmp_WorkflowRunId := runId\<rparr>))
          | Inr updated \<Rightarrow> Pair (Inr updated))))"

text \<open>The input built from the message of a failed charge; errors are reported only.\<close>

definition failure_input :: "subscription \<Rightarrow> charge_result \<Rightarrow> start_dunning_input" where
  "failure_input s charge = \<lparr> sdi_OrgId = sub_OrgId s, sdi_SubscriptionId = sub_Id s, sdi_CustomerId = sub_CustomerId s,
     sdi_FailedAmount = chg_Amount charge, sdi_Currency = chg_Currency charge,
     sdi_InitialFailureReason = chg_ErrorReason charge, sdi_ParentWorkflowId = [], sdi_PaymentResult = charge,
     sdi_Metadata = [''triggered_by'' \<mapsto> ''subscription_charge_failure'', ''failure_code'' \<mapsto> chg_ErrorCode charge,
                     ''subscription_id'' \<mapsto> sub_Id s] \<rparr>"

definition DunningOrchestration_HandleSubscriptionChargeFailure ::
    "dunning_engine_start \<Rightarrow> subscription \<Rightarrow> charge_result \<Rightarrow> 'd world \<Rightarrow> 'd world" where
  "DunningOrchestration_HandleSubscriptionChargeFailure engine s charge w = snd (StartDunningWorkflow engine (failure_input s charge) w)"

text \<open>The transitions together with the signal sent to the engine; a signal that fails is logged.\<close>

datatype dunning_signal = Signal_pause | Signal_resume | Signal_cancel

definition signalled :: "dunning_signal \<Rightarrow> ('d, 'a) graded \<Rightarrow> 'd world \<Rightarrow>
    ((('a option \<times> app_error) + 'a) \<times> dunning_signal option) \<times> 'd world" where
  "signalled g m w = (case m w of (r, w1) \<Rightarrow> ((r, if isl r then None else Some g), w1))"

definition DunningOrchestration_PauseCampaign where
  "DunningOrchestration_PauseCampaign inp = signalled Signal_pause (PauseCampaign inp)"

definition DunningOrchestration_ResumeCampaign where
  "DunningOrchestration_ResumeCampaign inp = signalled Signal_resume (ResumeCampaign inp)"

definition DunningOrchestration_CancelCampaign where
  "DunningOrchestration_CancelCampaign inp = signalled Signal_cancel (CancelCampaign inp)"

section \<open>Writing off an invoice\<close>

text \<open>No invoice of the current cycle is still to be collected.\<close>

definition nothing_due :: "subscription \<Rightarrow> 'd db \<Rightarrow> bool" where
  "nothing_due s db \<longleftrightarrow> (\<forall>i. current_invoice s db = Some i \<longrightarrow> inv_Status i \<notin> {InvoiceStatusOpen, InvoiceStatusDraft})"

lemma current_row: "current_invoice s db = Some i \<Longrightarrow> invoices_distinct db \<Longrightarrow> find_row inv_key (inv_OrgId i, inv_Id i) (t_invoices db) = Some i"
proof -
  assume c: "current_invoice s db = Some i" and d: "invoices_distinct db"
  have "i \<in> set (t_invoices db)" using c by (auto simp: current_invoice_def find_Some_iff)
  then obtain j where j: "find_row inv_key (inv_key i) (t_invoices db) = Some j" by (cases "find_row inv_key (inv_key i) (t_invoices db)") (auto simp: find_row_None)
  then have "j = i" using find_row_key[OF j] \<open>i \<in> set _\<close> d by (auto simp: invoices_distinct_def distinct_map dest: inj_onD)
  then show ?thesis using j by (simp add: inv_key_def)
qed

lemma runs_writeOff [runsI]:
  assumes "invoices_distinct db"
    and q: "\<And>rows. invoices_distinct (db\<lparr>t_invoices := rows\<rparr>) \<Longrightarrow> nothing_due s (db\<lparr>t_invoices := rows\<rparr>) \<Longrightarrow> Q (Inr ()) (db\<lparr>t_invoices := rows\<rparr>)"
  shows "runs (writeOffCurrentInvoice s) db Q"
proof -
  have same: "Q (Inr ()) db" if "nothing_due s db" using q[of "t_invoices db"] that assms(1) by simp
  have closed: "Q (Inr ()) (db\<lparr>t_invoices := update_row inv_key inv_merge (i\<lparr>inv_LineItems := ls, inv_Status := InvoiceStatusUncollectible, inv_UpdatedAt := t\<rparr>) (t_invoices db)\<rparr>)"
    (is "Q _ (db\<lparr>t_invoices := update_row inv_key inv_merge ?j _\<rparr>)")
    if c: "current_invoice s db = Some i" for i ls t
  proof (rule q)
    have k: "map inv_key (update_row inv_key inv_merge ?j (t_invoices db)) = map inv_key (t_invoices db)"
      by (rule update_row_keys) (simp add: inv_key_def inv_merge_def)
    show "invoices_distinct (db\<lparr>t_invoices := update_row inv_key inv_merge ?j (t_invoices db)\<rparr>)"
      using assms(1) by (simp add: invoices_distinct_def k)
    have "current_invoice s (db\<lparr>t_invoices := update_row inv_key inv_merge ?j (t_invoices db)\<rparr>) = Some (inv_merge i ?j)"
      using c assms(1) unfolding current_invoice_def invoices_distinct_def
      by (simp, intro find_updated) (auto simp: inv_key_def inv_merge_def find_Some_iff)
    then show "nothing_due s (db\<lparr>t_invoices := update_row inv_key inv_merge ?j (t_invoices db)\<rparr>)"
      by (simp add: nothing_due_def inv_merge_def)
  qed
  show ?thesis
  proof (cases "current_invoice s db")
    case None
    then show ?thesis using same unfolding writeOffCurrentInvoice_def FindCurrentCycle_def
      by (intro runs_try runs_current_invoice) (simp add: nothing_due_def runs_ret)
  next
    case (Some i)
    have org: "inv_OrgId i = sub_OrgId s" using Some by (auto simp: current_invoice_def find_Some_iff)
    have at: "invoice_at db (sub_OrgId s, inv_Id i) = Some (hydrate db i)"
      using current_row[OF Some assms(1)] by (simp add: invoice_at_def org)
    have "runs (InvoiceService_MarkUncollectible (sub_OrgId s) (inv_Id i)) db (\<lambda>_. Q (Inr ()))"
      if "inv_Status i = InvoiceStatusOpen \<or> inv_Status i = InvoiceStatusDraft"
    proof -
      have t: "transition_to InvoiceStatusUncollectible (hydrate db i) = Inr ((hydrate db i)\<lparr>inv_Status := InvoiceStatusUncollectible\<rparr>)"
        using that by (auto simp: transition_to_def hydrate_def)
      show ?thesis
        unfolding InvoiceService_MarkUncollectible_def invoice_transition_def invoice_MarkUncollectible_def
        by (intro runs_bind runs_invoice_Find)
          (simp add: at, intro runs_bind runs_ret, simp add: t, intro runs_bind runs_clock,
           simp, rule runs_invoice_Update, use closed[OF Some] in \<open>simp add: hydrate_def\<close>)
    qed
    then show ?thesis using same unfolding writeOffCurrentInvoice_def FindCurrentCycle_def
      by (intro runs_try runs_current_invoice) (auto simp: Some nothing_due_def hydrate_def intro!: runsI)
  qed
qed

section \<open>Escalation without faults\<close>

abbreviation subscription_row :: "'d db \<Rightarrow> string \<times> string \<Rightarrow> subscription option" where
  "subscription_row db k \<equiv> find_row sub_key k (t_subscriptions db)"

abbreviation campaign_row :: "'d db \<Rightarrow> string \<times> string \<Rightarrow> dunning_campaign option" where
  "campaign_row db k \<equiv> find_row cmp_key k (t_campaigns db)"

lemma sub_updated [simp]: "find_row sub_key k (update_row sub_key sub_merge s rows) =
    (if k = sub_key s then map_option (\<lambda>old. sub_merge old s) (find_row sub_key k rows) else find_row sub_key k rows)"
  by (rule find_row_update) (simp add: sub_key_def sub_merge_def)

lemma camp_updated [simp]: "find_row cmp_key k (update_row cmp_key cmp_merge c rows) =
    (if k = cmp_key c then map_option (\<lambda>old. cmp_merge old c) (find_row cmp_key k rows) else find_row cmp_key k rows)"
  by (rule find_row_update) (simp add: cmp_key_def cmp_merge_def)

lemma merged [simp]: "sub_Status (sub_merge so s) = sub_Status s" "cmp_Status (cmp_merge old c) = cmp_Status c"
    "cmp_SubscriptionId (cmp_merge old c) = cmp_SubscriptionId c" "cmp_key (cmp_merge old c) = cmp_key c"
    "cmp_OrgId (cmp_merge old c) = cmp_OrgId c" "cmp_Id (cmp_merge old c) = cmp_Id c"
  by (simp_all add: sub_merge_def cmp_merge_def cmp_key_def)

lemma current_same [simp]: "current_invoice (s\<lparr>sub_Status := st\<rparr>) db = current_invoice s db"
    "current_invoice (s\<lparr>sub_Status := st, sub_CancelledAt := t\<rparr>) db = current_invoice s db"
    "current_invoice s (db\<lparr>t_campaigns := cs\<rparr>) = current_invoice s db"
    "current_invoice s (db\<lparr>t_outbox := evs\<rparr>) = current_invoice s db"
    "current_invoice s (db\<lparr>t_subscriptions := ss\<rparr>) = current_invoice s db"
  by (simp_all add: current_invoice_def)

lemma due_same [simp]: "nothing_due (s\<lparr>sub_Status := st\<rparr>) db = nothing_due s db"
    "nothing_due (s\<lparr>sub_Status := st, sub_CancelledAt := t\<rparr>) db = nothing_due s db"
    "nothing_due s (db\<lparr>t_campaigns := cs\<rparr>) = nothing_due s db"
    "nothing_due s (db\<lparr>t_outbox := evs\<rparr>) = nothing_due s db"
  by (simp_all add: nothing_due_def)

lemma distinct_same [simp]: "invoices_distinct (db\<lparr>t_campaigns := cs\<rparr>) = invoices_distinct db"
    "invoices_distinct (db\<lparr>t_outbox := evs\<rparr>) = invoices_distinct db"
    "invoices_distinct (db\<lparr>t_subscriptions := ss\<rparr>) = invoices_distinct db"
  by (simp_all add: invoices_distinct_def)

lemma runs_FindCampaign:
  "campaign_row db (o1, i) = Some c \<Longrightarrow> Q (Inr c) db \<Longrightarrow> runs (FindCampaignById o1 i) db Q"
  unfolding FindCampaignById_def by (intro runsI) simp

lemma runs_store_campaign:
  assumes "campaign_row db (cmp_key c) = Some old"
    and "\<And>evs. Q (Inr (cmp_merge old c)) (db\<lparr>t_campaigns := update_row cmp_key cmp_merge c (t_campaigns db), t_outbox := evs\<rparr>)"
  shows "runs (store_campaign c msg topic) db Q"
  unfolding store_campaign_def
  by (intro runs_bind runs_mapErr runs_camp_Update[OF assms(1)]) (simp, intro runsI, simp, intro runsI assms(2))

text \<open>What a database keeps when a campaign of it is stored with another status.\<close>

definition status_stored :: "'d db \<Rightarrow> string \<times> string \<Rightarrow> dunning_status \<Rightarrow> 'd db \<Rightarrow> bool" where
  "status_stored db k st d \<longleftrightarrow> (\<exists>c1. campaign_row d k = Some c1 \<and> cmp_Status c1 = st) \<and>
     t_subscriptions d = t_subscriptions db \<and> t_invoices d = t_invoices db \<and> t_payments d = t_payments db"

lemma runs_store_status:
  assumes "campaign_row db (o1, i) = Some c" and "cmp_key c1 = cmp_key c"
    and "\<And>c2 d. cmp_Status c2 = cmp_Status c1 \<Longrightarrow> cmp_key c2 = (o1, i) \<Longrightarrow> status_stored db (o1, i) (cmp_Status c1) d \<Longrightarrow> Q (Inr c2) d"
  shows "runs (store_campaign c1 msg topic) db Q"
proof -
  have k: "cmp_key c1 = (o1, i)" using find_row_key[OF assms(1)] assms(2) by simp
  show ?thesis
    by (rule runs_store_campaign[where old = c]) (use assms(1) k in \<open>auto simp: status_stored_def intro!: assms(3)\<close>)
qed

lemma runs_MarkRecovered:
  assumes "campaign_row db (o1, i) = Some c"
    and "\<And>c1 d. cmp_Status c1 = DunningStatusRecovered \<Longrightarrow> cmp_key c1 = (o1, i) \<Longrightarrow> status_stored db (o1, i) DunningStatusRecovered d \<Longrightarrow> Q (Inr c1) d"
  shows "runs (MarkCampaignRecovered o1 i method amount) db Q"
  unfolding MarkCampaignRecovered_def
  by (intro runs_bind runs_FindCampaign[OF assms(1)])
    (simp, intro runsI, simp, rule runs_store_status[OF assms(1)], simp_all add: cmp_key_def assms(2))

lemma runs_MarkFailed:
  assumes "campaign_row db (o1, i) = Some c"
    and "\<And>c1 d. cmp_Status c1 = DunningStatusFailed \<Longrightarrow> cmp_key c1 = (o1, i) \<Longrightarrow> status_stored db (o1, i) DunningStatusFailed d \<Longrightarrow> Q (Inr c1) d"
  shows "runs (MarkCampaignFailed o1 i reason) db Q"
  unfolding MarkCampaignFailed_def
  by (intro runs_bind runs_FindCampaign[OF assms(1)])
    (simp, intro runsI, simp, rule runs_store_status[OF assms(1)], simp_all add: cmp_key_def assms(2))

text \<open>What the changes of a subscription leave: its status, and the campaigns as they were.\<close>

definition moved :: "'d db \<Rightarrow> string \<times> string \<Rightarrow> subscription_status \<Rightarrow> 'd db \<Rightarrow> bool" where
  "moved db k st d \<longleftrightarrow> t_campaigns d = t_campaigns db \<and> invoices_distinct d \<and> t_payments d = t_payments db \<and>
     (\<exists>s1. subscription_row d k = Some s1 \<and> sub_Status s1 = st)"

lemma runs_reactivate:
  assumes "subscription_row db (cmp_OrgId c, cmp_SubscriptionId c) = Some s" and "invoices_distinct db"
    and "\<And>d. moved db (cmp_OrgId c, cmp_SubscriptionId c) SubscriptionStatusActive d \<Longrightarrow> Q (Inr ()) d"
  shows "runs (reactivate c) db Q"
proof -
  have k: "sub_key s = (cmp_OrgId c, cmp_SubscriptionId c)" using find_row_key[OF assms(1)] by simp
  have key: "sub_key (s\<lparr>sub_Status := st\<rparr>) = sub_key s" for st by (simp add: sub_key_def)
  show ?thesis
    unfolding reactivate_def
    by (intro runs_try runs_sub_Find)
      (auto simp: assms(1) k key moved_def assms(2) intro!: runsI runs_sub_Update[where old = s] assms(3))
qed

lemma runs_cancel_for_dunning:
  assumes "subscription_row db (sub_key s) = Some s" and "invoices_distinct db"
    and "\<And>d. moved db (sub_key s) SubscriptionStatusCancelled d \<Longrightarrow> nothing_due s d \<Longrightarrow> Q (Inr ()) d"
  shows "runs (bindS (cancel_for_dunning s) writeOffCurrentInvoice) db Q"
proof -
  have key: "sub_key (s\<lparr>sub_Status := st, sub_CancelledAt := t\<rparr>) = sub_key s" for st t by (simp add: sub_key_def)
  show ?thesis
    unfolding cancel_for_dunning_def Let_def
    by (intro runs_bind runs_clock)
      (simp, intro runsI runs_sub_Update[where old = s],
       auto simp: assms(1,2) key moved_def intro!: runsI assms(3))
qed

definition suspendable :: "subscription_status \<Rightarrow> bool" where
  "suspendable st \<longleftrightarrow> st \<notin> {SubscriptionStatusUnpaid, SubscriptionStatusCancelled, SubscriptionStatusExpired, SubscriptionStatusCompleted}"

lemma runs_suspend:
  assumes "subscription_row db (cmp_OrgId c, cmp_SubscriptionId c) = Some s" and "invoices_distinct db"
    and "\<And>d. moved db (cmp_OrgId c, cmp_SubscriptionId c) (if suspendable (sub_Status s) then SubscriptionStatusUnpaid else sub_Status s) d \<Longrightarrow>
      (suspendable (sub_Status s) \<Longrightarrow> nothing_due s d) \<Longrightarrow> Q (Inr ()) d"
  shows "runs (suspend c) db Q"
proof -
  have k: "sub_key s = (cmp_OrgId c, cmp_SubscriptionId c)" using find_row_key[OF assms(1)] by simp
  have key: "sub_key (s\<lparr>sub_Status := st\<rparr>) = sub_key s" for st by (simp add: sub_key_def)
  show ?thesis
  proof (cases "suspendable (sub_Status s)")
    case True
    then show ?thesis
      unfolding suspend_def
      by (intro runs_try runs_sub_Find)
        (auto simp: assms(1,2) k key moved_def suspendable_def
          intro!: runsI runs_sub_Update[where old = s] assms(3))
  next
    case False
    then show ?thesis
      unfolding suspend_def
      by (intro runs_try runs_sub_Find) (auto simp: assms(1,2) moved_def suspendable_def intro!: runsI assms(3))
  qed
qed

lemma runs_cancel_exhausted:
  assumes "subscription_row db (cmp_OrgId c, cmp_SubscriptionId c) = Some s" and "invoices_distinct db"
    and "\<And>d. moved db (cmp_OrgId c, cmp_SubscriptionId c) SubscriptionStatusCancelled d \<Longrightarrow> nothing_due s d \<Longrightarrow> Q (Inr ()) d"
  shows "runs (cancel_exhausted c) db Q"
proof -
  have k: "sub_key s = (cmp_OrgId c, cmp_SubscriptionId c)" using find_row_key[OF assms(1)] by simp
  show ?thesis
    unfolding cancel_exhausted_def
    using runs_cancel_for_dunning[of s db Q] assms by (intro runs_try runs_sub_Find) (simp add: k)
qed

text \<open>The escalation policy on the pair of statuses alone.\<close>

definition escalate ::
    "bool \<Rightarrow> escalation_rules \<Rightarrow> dunning_attempt_context \<Rightarrow> subscription_status \<times> dunning_status \<Rightarrow> subscription_status \<times> dunning_status" where
  "escalate paid rules ctx = (\<lambda>(st, cst).
    if paid then (if dac_WasSubscriptionSuspended ctx then SubscriptionStatusActive else st, DunningStatusRecovered)
    else if reached (esc_CancelAfterAttempt rules) (dac_AttemptNumber ctx) then (SubscriptionStatusCancelled, DunningStatusFailed)
    else (if reached (esc_SuspendAfterAttempt rules) (dac_AttemptNumber ctx) \<and> suspendable st then SubscriptionStatusUnpaid else st, cst))"

definition dunning_view :: "string \<times> string \<Rightarrow> string \<times> string \<Rightarrow> 'd db \<Rightarrow> (subscription_status \<times> dunning_status) option" where
  "dunning_view sk ck db = (case (subscription_row db sk, campaign_row db ck) of
     (Some s, Some c) \<Rightarrow> Some (sub_Status s, cmp_Status c) | _ \<Rightarrow> None)"

lemma view_stored: "status_stored db ck st d \<Longrightarrow> subscription_row db sk = Some s \<Longrightarrow> dunning_view sk ck d = Some (sub_Status s, st)"
  by (auto simp: status_stored_def dunning_view_def)

lemma view_moved: "moved db sk st d \<Longrightarrow> campaign_row db ck = Some c \<Longrightarrow> dunning_view sk ck d = Some (st, cmp_Status c)"
  by (auto simp: moved_def dunning_view_def)

definition result_applied :: "dunning_attempt \<Rightarrow> dunning_config \<Rightarrow> dunning_attempt_context \<Rightarrow> subscription \<Rightarrow> dunning_campaign \<Rightarrow>
    'd db \<Rightarrow> app_error + dunning_campaign \<Rightarrow> 'd db \<Rightarrow> bool" where
  "result_applied a config ctx s c db r d \<longleftrightarrow>
    (let paid = (att_Status a = PaymentStatusSucceeded); rules = dcf_EscalationRules config;
         v = escalate paid rules ctx (sub_Status s, cmp_Status c) in
     invoices_distinct d \<and> t_payments d = t_payments db \<and>
     dunning_view (cmp_OrgId c, cmp_SubscriptionId c) (cmp_key c) d = Some v \<and>
     (\<exists>c1. r = Inr c1 \<and> cmp_Status c1 = snd v \<and> cmp_key c1 = cmp_key c) \<and>
     (\<not> paid \<and> (fst v \<noteq> sub_Status s \<or> reached (esc_CancelAfterAttempt rules) (dac_AttemptNumber ctx)) \<longrightarrow> nothing_due s d))"

lemma runs_result:
  assumes c: "campaign_row db (att_OrgId a, att_DunningCampaignId a) = Some c"
    and s: "subscription_row db (cmp_OrgId c, cmp_SubscriptionId c) = Some s" and i: "invoices_distinct db"
  shows "runs (UpdateCampaignWithAttemptResult a config ctx) db (result_applied a config ctx s c db)"
proof -
  have key: "cmp_key c = (att_OrgId a, att_DunningCampaignId a)" using find_row_key[OF c] by simp
  have ck: "campaign_row db (cmp_OrgId c, cmp_Id c) = Some c" using c key by (simp add: cmp_key_def)
  let ?rules = "dcf_EscalationRules config"
  have found: "runs (FindCampaignById (att_OrgId a) (att_DunningCampaignId a)) db Q" if "Q (Inr c) db" for Q
    using that by (rule runs_FindCampaign[OF c])
  let ?R = "result_applied a config ctx s c db"
  have keep: "subscription_row d (cmp_OrgId c, cmp_SubscriptionId c) = Some s \<and> invoices_distinct d" if "status_stored db k st d" for d k st
    using that s i by (simp add: status_stored_def invoices_distinct_def)
  have kept: "campaign_row d (cmp_OrgId c, cmp_Id c) = Some c" if "moved db k st d" for d k st
    using that ck by (simp add: moved_def)
  have paid: "runs (bindS (MarkCampaignRecovered (cmp_OrgId c) (cmp_Id c) ''retry_recovered'' (att_Amount a)) (\<lambda>updated.
      bindS (if dac_WasSubscriptionSuspended ctx then reactivate c else retS ()) (\<lambda>_. retS updated))) db ?R"
    if "att_Status a = PaymentStatusSucceeded"
  proof (rule runs_bind, rule runs_MarkRecovered[OF ck], simp only: sum.case, rule runs_bind, rule runs_if, goal_cases)
    case (1 c1 d)
    then show ?case using keep[OF 1(3)] that
      by (elim conjE runs_reactivate) (auto intro!: runsI simp: result_applied_def moved_def status_stored_def dunning_view_def cmp_key_def escalate_def)
  next
    case (2 c1 d)
    then show ?case using keep[OF 2(3)] that
      by (auto intro!: runsI simp: result_applied_def status_stored_def dunning_view_def cmp_key_def escalate_def)
  qed
  have cancel: "runs (bindS (cancel_exhausted c) (\<lambda>_. MarkCampaignFailed (cmp_OrgId c) (cmp_Id c) ''max_attempts_reached'')) db ?R"
    if "att_Status a \<noteq> PaymentStatusSucceeded" and "reached (esc_CancelAfterAttempt ?rules) (dac_AttemptNumber ctx)"
  proof (rule runs_bind, rule runs_cancel_exhausted[OF s i], simp, goal_cases)
    case (1 d)
    show ?case
      by (rule runs_MarkFailed[OF kept[OF 1(1)]]) (use 1 that in \<open>auto simp: result_applied_def status_stored_def moved_def
        dunning_view_def cmp_key_def escalate_def invoices_distinct_def nothing_due_def current_invoice_def\<close>)
  qed
  have go_on: "runs (bindS (if b then suspend c else retS ()) (\<lambda>_.
      bindS (ignoreS (Publish (cmp_OrgId c) topic m)) (\<lambda>_. retS c))) db ?R"
    if "att_Status a \<noteq> PaymentStatusSucceeded" and "\<not> reached (esc_CancelAfterAttempt ?rules) (dac_AttemptNumber ctx)"
      and "b = reached (esc_SuspendAfterAttempt ?rules) (dac_AttemptNumber ctx)" for b topic m
  proof (rule runs_bind, rule runs_if, rule runs_suspend[OF s i], goal_cases)
    case (1 d)
    then show ?case using that ck
      by (auto intro!: runsI simp: result_applied_def moved_def dunning_view_def cmp_key_def escalate_def)
  next
    case 2
    then show ?case using that ck s i
      by (auto intro!: runsI simp: result_applied_def dunning_view_def cmp_key_def escalate_def)
  qed
  show ?thesis
    unfolding UpdateCampaignWithAttemptResult_def Let_def
    by (intro runs_bind found) (simp add: paid cancel go_on)
qed

lemma runs_FailCampaign:
  assumes c: "campaign_row db (o1, i) = Some c" and s: "subscription_row db (o1, cmp_SubscriptionId c) = Some s" and d: "invoices_distinct db"
  shows "runs (FailCampaignAndCancelSubscription o1 i reason) db (\<lambda>r d. invoices_distinct d \<and> nothing_due s d \<and> t_payments d = t_payments db \<and>
    dunning_view (o1, cmp_SubscriptionId c) (o1, i) d = Some (SubscriptionStatusCancelled, DunningStatusFailed) \<and>
    (\<exists>c1. r = Inr c1 \<and> cmp_Status c1 = DunningStatusFailed))"
proof -
  let ?R = "\<lambda>r d. invoices_distinct d \<and> nothing_due s d \<and> t_payments d = t_payments db \<and>
    dunning_view (o1, cmp_SubscriptionId c) (o1, i) d = Some (SubscriptionStatusCancelled, DunningStatusFailed) \<and>
    (\<exists>c1. r = Inr c1 \<and> cmp_Status c1 = DunningStatusFailed)"
  have k: "sub_key s = (o1, cmp_SubscriptionId c)" using find_row_key[OF s] by simp
  have finish: "runs (MarkCampaignFailed o1 i reason) d1 ?R"
    if "moved db (o1, cmp_SubscriptionId c) SubscriptionStatusCancelled d1" and "nothing_due s d1" for d1
    by (rule runs_MarkFailed) (use c that in \<open>auto simp: status_stored_def moved_def dunning_view_def invoices_distinct_def
      nothing_due_def current_invoice_def\<close>)
  have cancel: "runs (bindS (if sub_Status s \<noteq> SubscriptionStatusCancelled then cancel_for_dunning s else retS s) writeOffCurrentInvoice) db
      (\<lambda>r d1. r = Inr () \<and> moved db (o1, cmp_SubscriptionId c) SubscriptionStatusCancelled d1 \<and> nothing_due s d1)"
  proof (cases "sub_Status s = SubscriptionStatusCancelled")
    case True
    then show ?thesis using s d by (auto intro!: runsI simp: moved_def)
  next
    case False
    have "subscription_row db (sub_key s) = Some s" using s k by simp
    then show ?thesis using False d by (simp, elim runs_cancel_for_dunning) (simp_all add: k)
  qed
  show ?thesis
    unfolding FailCampaignAndCancelSubscription_def
    by (rule runs_bind, rule runs_FindCampaign[OF c], simp only: sum.case, rule runs_bind, rule runs_try, rule runs_sub_Find,
        simp only: s option.case sum.case, rule runs_weaken[OF cancel]) (auto intro: finish)
qed

section \<open>Attempts, with any faults\<close>

lemma exec_cases: "exec f w = (r, w1) \<Longrightarrow> w_charges w1 = w_charges w \<and> (isl r \<and> w_db w1 = w_db w \<or> r = Inr () \<and> f (w_db w) = Some (w_db w1))"
  by (auto simp: exec_def stmt_def Let_def split: option.splits if_splits)

lemma then_read_cases:
  assumes "bindS (exec f) (\<lambda>_. selOne g) w = (r, w1)"
  shows "w_charges w1 = w_charges w \<and> (isl r \<and> w_db w1 = w_db w \<or> f (w_db w) = Some (w_db w1) \<and> (\<forall>x. r = Inr x \<longrightarrow> g (w_db w1) = Some x))"
proof -
  obtain q w2 where e: "exec f w = (q, w2)" by (metis surj_pair)
  note c = exec_cases[OF e]
  show ?thesis
  proof (cases q)
    case (Inl err)
    then show ?thesis using assms e c by (auto simp: bindS_def)
  next
    case (Inr u)
    then have s: "selOne g w2 = (r, w1)" using assms e by (simp add: bindS_def)
    have "w_db w1 = w_db w2" by (rule keeps[OF keep.obeys_selOne s])
    moreover have "w_charges w1 = w_charges w2" by (rule silentD[OF silent_selOne s])
    ultimately show ?thesis using c Inr s by (auto simp: selOne_Inr)
  qed
qed

lemma CreateAttempt_cases:
  assumes "DunningRepo_CreateAttempt a w = (r, w1)"
  shows "w_charges w1 = w_charges w \<and> (isl r \<and> w_db w1 = w_db w \<or>
    w_db w1 = (w_db w)\<lparr>t_attempts := t_attempts (w_db w) @ [a]\<rparr> \<and> (\<forall>b. r = Inr b \<longrightarrow> b = a))"
proof -
  let ?k = "\<lambda>x. (att_OrgId x, att_Id x)"
  have f: "find_row ?k (?k a) rs = Some a \<and> rs = t_attempts (w_db w) @ [a]"
    if i: "insert_row (\<lambda>x y. att_OrgId x = att_OrgId y \<and> att_Id x = att_Id y) a (t_attempts (w_db w)) = Some rs" for rs
  proof
    show "find_row ?k (?k a) rs = Some a" by (subst find_row_insert[OF i, of ?k]) simp_all
    show "rs = t_attempts (w_db w) @ [a]" using i by (simp add: insert_row_def split: if_splits)
  qed
  note c = then_read_cases[OF assms[unfolded DunningRepo_CreateAttempt_def]]
  show ?thesis
  proof (cases "isl r \<and> w_db w1 = w_db w")
    case False
    then obtain rs where rs: "insert_row (\<lambda>x y. att_OrgId x = att_OrgId y \<and> att_Id x = att_Id y) a (t_attempts (w_db w)) = Some rs"
      and db: "w_db w1 = (w_db w)\<lparr>t_attempts := rs\<rparr>"
      using c by auto
    have t: "t_attempts (w_db w1) = rs" using db by simp
    have "\<forall>x. r = Inr x \<longrightarrow> find_row ?k (?k a) (t_attempts (w_db w1)) = Some x" using c False by blast
    then have "\<forall>x. r = Inr x \<longrightarrow> x = a" using f[OF rs] unfolding t by (metis option.inject)
    moreover have "w_charges w1 = w_charges w" using c by blast
    ultimately show ?thesis using f[OF rs] db by metis
  qed (use c in simp)
qed

lemma UpdateCampaign_cases:
  assumes "DunningRepo_UpdateCampaign c w = (r, w1)"
  shows "w_charges w1 = w_charges w \<and> (w_db w1 = w_db w \<or>
    w_db w1 = (w_db w)\<lparr>t_campaigns := update_row cmp_key cmp_merge c (t_campaigns (w_db w))\<rparr>)"
  using then_read_cases[OF assms[unfolded DunningRepo_UpdateCampaign_def DunningRepo_FindCampaignById_def]] by auto

lemma Publish_cases:
  assumes "Publish o1 topic m w = (r, w1)"
  shows "w_charges w1 = w_charges w \<and> (\<exists>evs. w_db w1 = (w_db w)\<lparr>t_outbox := evs\<rparr>)"
proof
  show "w_charges w1 = w_charges w" by (rule silentD[OF silent_Publish assms])
  have "obeys (same_on (\<lambda>d. d\<lparr>t_outbox := []\<rparr>)) (Publish o1 topic m)" by (rule keep_Publish) simp
  from keeps[OF this assms] have "((w_db w1)\<lparr>t_outbox := []\<rparr>)\<lparr>t_outbox := t_outbox (w_db w1)\<rparr> = ((w_db w)\<lparr>t_outbox := []\<rparr>)\<lparr>t_outbox := t_outbox (w_db w1)\<rparr>" by simp
  then show "\<exists>evs. w_db w1 = (w_db w)\<lparr>t_outbox := evs\<rparr>" by auto
qed

text \<open>Steps before the charge: nothing is written and nothing sent.\<close>

definition still :: "('d world \<Rightarrow> 'r \<times> 'd world) \<Rightarrow> bool" where
  "still m \<longleftrightarrow> (\<forall>w. let w1 = snd (m w) in w_db w1 = w_db w \<and> w_charges w1 = w_charges w \<and> w_gateway w1 = w_gateway w)"

lemma still_reads: "reads m \<Longrightarrow> still m"
  by (auto simp: still_def Let_def reads_def dest: quietD)

lemma still_more: "still m \<Longrightarrow> still (mapErrS g m)" "still (NewGateway a b)"
  by (auto simp: still_def mapErrS_def NewGateway_def Let_def prod.case_eq_if split: sum.split option.split)

lemma still_bind: "still m \<Longrightarrow> (\<And>x. still (f x)) \<Longrightarrow> still (bindS m f)"
  by (auto simp: still_def bindS_def Let_def prod.case_eq_if split: sum.split)

lemma still_step:
  assumes "bindS m f w = (r, w1)" and "still m"
  shows "isl r \<and> w_db w1 = w_db w \<and> w_charges w1 = w_charges w \<or>
    (\<exists>x w2. m w = (Inr x, w2) \<and> w_db w2 = w_db w \<and> w_charges w2 = w_charges w \<and> w_gateway w2 = w_gateway w \<and> f x w2 = (r, w1))"
proof -
  obtain r0 w0 where m0: "m w = (r0, w0)" by (cases "m w")
  have "w_db w0 = w_db w \<and> w_charges w0 = w_charges w \<and> w_gateway w0 = w_gateway w"
    using assms(2) m0 unfolding still_def Let_def by (metis snd_conv)
  then show ?thesis using assms(1) by (cases r0) (auto simp: bindS_def m0)
qed

text \<open>What a recorded attempt leaves: a row of attempts, the counters of the campaign, an event.\<close>

definition recorded :: "dunning_campaign \<Rightarrow> dunning_attempt_type \<Rightarrow> charge_payment_response \<Rightarrow> 'd db \<Rightarrow> app_error + dunning_attempt \<Rightarrow> 'd db \<Rightarrow> bool" where
  "recorded c ty resp db r d \<longleftrightarrow> (\<exists>cs ats evs. d = db\<lparr>t_campaigns := cs, t_attempts := ats, t_outbox := evs\<rparr> \<and>
     (cs = t_campaigns db \<or> (\<exists>t. cs = update_row cmp_key cmp_merge (counted c ty t) (t_campaigns db))) \<and>
     (ats = t_attempts db \<or> (\<exists>a. ats = t_attempts db @ [a])) \<and>
     (\<forall>a. r = Inr a \<longrightarrow> ats = t_attempts db @ [a] \<and> att_OrgId a = cmp_OrgId c \<and> att_DunningCampaignId a = cmp_Id c \<and>
       att_Amount a = cpr_AmountCharged resp \<and> att_Status a = attempt_status (cpr_Status resp) \<and>
       att_AttemptNumber a = add64 (cmp_TotalAttempts c) 1))"

lemma record_attempt_effect:
  assumes "record_attempt J (cmp_OrgId c) c s pm ty tb st resp w = (r, w1)"
  shows "w_charges w1 = w_charges w \<and> recorded c ty resp (w_db w) r (w_db w1)"
proof -
  let ?t = "w_clock w (w_ticks w)"
  define a where "a = \<lparr> att_OrgId = cmp_OrgId c, att_Id = id_prefix ''dunning_attempt'' @ ''_'' @ w_random w (w_drawn w), att_DunningCampaignId = cmp_Id c, att_SubscriptionId = sub_Id s,
        att_AttemptNumber = add64 (cmp_TotalAttempts c) 1, att_AttemptType = ty,
        att_Amount = cpr_AmountCharged resp, att_Currency = cpr_Currency resp, att_PaymentMethodId = pmd_Id pm,
        att_Status = attempt_status (cpr_Status resp), att_FailureReason = cpr_ErrorReason resp, att_FailureCode = cpr_ErrorCode resp,
        att_ProcessorResponse = J (cpr_PspResponse resp),
        att_ProcessingTimeMs = Milliseconds (time_Sub ?t st), att_AttemptedAt = st,
        att_CompletedAt = ?t, att_TriggeredBy = tb, att_Metadata = Map.empty, att_CreatedAt = ?t \<rparr>"
  let ?w = "w\<lparr>w_ticks := Suc (w_ticks w), w_drawn := Suc (w_drawn w)\<rparr>"
  obtain q w2 where cr: "DunningRepo_CreateAttempt a ?w = (q, w2)" by (metis surj_pair)
  note c1 = CreateAttempt_cases[OF cr]
  show ?thesis
  proof (cases q)
    case (Inl e)
    have "r = Inl (internal ''Failed to record attempt'' e) \<and> w1 = w2"
      using assms cr Inl by (simp add: record_attempt_def bindS_def mapErrS_def a_def Let_def)
    then show ?thesis using c1 unfolding recorded_def
      by (intro conjI exI[of _ "t_campaigns (w_db w1)"] exI[of _ "t_attempts (w_db w1)"] exI[of _ "t_outbox (w_db w1)"]) auto
  next
    case (Inr b)
    then have b: "b = a" and d2: "w_db w2 = (w_db w)\<lparr>t_attempts := t_attempts (w_db w) @ [a]\<rparr>" and ch2: "w_charges w2 = w_charges w" using c1 by auto
    obtain q3 w3 where up: "DunningRepo_UpdateCampaign (counted c ty ?t) w2 = (q3, w3)" by (metis surj_pair)
    define pub where "pub = (Publish (cmp_OrgId c) (if att_Status a = PaymentStatusSucceeded then ''dunning.attempt_succeeded'' else ''dunning.attempt_failed'')
       (MsgAttempt a (cmp_CustomerId c) False False) :: 'a world \<Rightarrow> _)"
    obtain q4 w4 where pu: "pub w3 = (q4, w4)" by (metis surj_pair)
    have "r = Inr a \<and> w1 = w4"
      using assms cr Inr up pu by (simp add: record_attempt_def bindS_def mapErrS_def ignoreS_def a_def[symmetric] b pub_def Let_def) (simp add: a_def)
    moreover note UpdateCampaign_cases[OF up] Publish_cases[OF pu[unfolded pub_def]] 
    ultimately show ?thesis using d2 ch2 unfolding recorded_def
      by (intro conjI exI[of _ "t_campaigns (w_db w1)"] exI[of _ "t_attempts (w_db w1)"] exI[of _ "t_outbox (w_db w1)"])
        (auto simp: a_def)
  qed
qed

text \<open>The charge that an attempt sends.\<close>

definition attempt_charge :: "string \<Rightarrow> dunning_campaign \<Rightarrow> subscription \<Rightarrow> charge_input \<Rightarrow> bool" where
  "attempt_charge o1 c s inp \<longleftrightarrow> chi_OrgId inp = o1 \<and> chi_SubscriptionId inp = sub_Id s \<and> chi_OrderId inp = sub_OrderId s \<and>
     chi_Amount inp = cmp_FailedAmount c \<and> chi_Currency inp = cmp_Currency c"

lemma still_setup: "still (attempt_setup o1 cid pmid)"
  unfolding attempt_setup_def Let_def
  by (intro still_bind still_more)
    (auto simp: FindCampaignById_def DunningRepo_FindCampaignById_def SubscriptionRepo_FindById_def CustomerRepo_FindById_def
      CustomerRepo_FindPaymentMethodById_def intro!: still_reads reads_mapErr)

lemma setup_ok:
  assumes "attempt_setup o1 cid pmid w = (Inr (c, s, cu, pm, gw), w1)"
  shows "campaign_row (w_db w) (o1, cid) = Some c \<and> subscription_row (w_db w) (o1, cmp_SubscriptionId c) = Some s \<and>
    cmp_OrgId c = o1 \<and> cmp_Id c = cid"
proof -
  have "campaign_row (w_db w) (o1, cid) = Some c \<and> subscription_row (w_db w) (o1, cmp_SubscriptionId c) = Some s"
    using assms unfolding attempt_setup_def Let_def FindCampaignById_def DunningRepo_FindCampaignById_def SubscriptionRepo_FindById_def
    by (auto simp: bindS_Inr mapErrS_Inr selOne_Inr)
  then show ?thesis using find_row_key[of cmp_key "(o1, cid)" _ c] by (auto simp: cmp_key_def)
qed

lemma runChargeAttempt_cases:
  assumes "runChargeAttempt J o1 cid ty tb pmid w = (r, w1)"
  shows "isl r \<and> w_db w1 = w_db w \<and> w_charges w1 = w_charges w \<or>
    (\<exists>c s inp n. campaign_row (w_db w) (o1, cid) = Some c \<and> subscription_row (w_db w) (o1, cmp_SubscriptionId c) = Some s \<and>
      attempt_charge o1 c s inp \<and> w_charges w1 = w_charges w @ [inp] \<and> recorded c ty (w_gateway w n inp) (w_db w) r (w_db w1))"
  using still_step[OF assms[unfolded runChargeAttempt_def] still_setup]
proof (elim disjE exE conjE)
  fix x w2
  assume x: "attempt_setup o1 cid pmid w = (Inr x, w2)" and w2: "w_db w2 = w_db w" "w_charges w2 = w_charges w" "w_gateway w2 = w_gateway w"
    and run: "(case x of (c, s, cu, pm, gw) \<Rightarrow> bindS nowS (\<lambda>startedAt.
      bindS (ChargePayment \<lparr> chi_OrgId = o1, chi_OrderId = sub_OrderId s, chi_SubscriptionId = sub_Id s,
             chi_Amount = cmp_FailedAmount c, chi_Currency = cmp_Currency c, chi_PspId = gw, chi_Method = pm, chi_Customer = cu \<rparr>)
      (record_attempt J o1 c s pm ty tb startedAt))) w2 = (r, w1)"
  obtain c s cu pm gw where t: "x = (c, s, cu, pm, gw)" by (metis prod_cases5)
  note ok = setup_ok[OF x[unfolded t]]
  let ?inp = "\<lparr> chi_OrgId = o1, chi_OrderId = sub_OrderId s, chi_SubscriptionId = sub_Id s, chi_Amount = cmp_FailedAmount c,
    chi_Currency = cmp_Currency c, chi_PspId = gw, chi_Method = pm, chi_Customer = cu \<rparr>"
  let ?w = "w2\<lparr>w_ticks := Suc (w_ticks w2), w_calls := Suc (w_calls w2), w_charges := w_charges w2 @ [?inp]\<rparr>"
  have rec: "record_attempt J (cmp_OrgId c) c s pm ty tb (w_clock w2 (w_ticks w2)) (w_gateway w2 (w_calls w2) ?inp) ?w = (r, w1)"
    using run ok by (simp add: t bindS_def ChargePayment_def)
  from record_attempt_effect[OF rec] show ?thesis
    using ok w2 by (intro disjI2 exI[of _ c] exI[of _ s] exI[of _ ?inp] exI[of _ "w_calls w2"]) (simp add: attempt_charge_def)
qed simp

section \<open>Tokens\<close>

definition token_at :: "'d db \<Rightarrow> string \<times> string \<Rightarrow> payment_update_token option" where
  "token_at db k = find_row tok_key k (t_tokens db)"

lemma token_updated:
  "token_at (db\<lparr>t_tokens := update_row tok_key tok_merge t (t_tokens db)\<rparr>) k =
    (if k = tok_key t then map_option (\<lambda>old. tok_merge old t) (token_at db k) else token_at db k)"
proof -
  have "tok_key (tok_merge old t) = tok_key t" if "tok_key old = tok_key t" for old by (simp add: tok_key_def tok_merge_def)
  from find_row_update[of tok_key t tok_merge, OF this] show ?thesis by (simp add: token_at_def)
qed

lemma token_fields [simp]: "tok_MaxUses (tok_merge old t) = tok_MaxUses t" "tok_UsedCount (tok_merge old t) = tok_UsedCount t"
    "tok_Status (tok_merge old t) = tok_Status t"
  by (simp_all add: tok_merge_def)

lemma UpdateToken_cases:
  assumes "DunningRepo_UpdateToken t w = (r, w1)"
  shows "isl r \<and> w_db w1 = w_db w \<or> w_db w1 = (w_db w)\<lparr>t_tokens := update_row tok_key tok_merge t (t_tokens (w_db w))\<rparr>"
  using then_read_cases[OF assms[unfolded DunningRepo_UpdateToken_def DunningRepo_FindTokenById_def]] by auto

text \<open>A token as its uses go by: the limit stays, the count grows, and what is not active stays so.\<close>

definition token_ages :: "string \<times> string \<Rightarrow> 'd db \<Rightarrow> 'd db \<Rightarrow> bool" where
  "token_ages k a b \<longleftrightarrow> (\<forall>t. token_at a k = Some t \<and> in64 (tok_UsedCount t) \<and> in64 (tok_MaxUses t) \<longrightarrow>
     (\<exists>t1. token_at b k = Some t1 \<and> tok_MaxUses t1 = tok_MaxUses t \<and> tok_UsedCount t \<le> tok_UsedCount t1 \<and> in64 (tok_UsedCount t1) \<and>
       (tok_Status t \<noteq> TokenStatusActive \<longrightarrow> tok_Status t1 \<noteq> TokenStatusActive)))"

lemma ages_same: "t_tokens b = t_tokens a \<Longrightarrow> token_ages k a b"
  by (auto simp: token_ages_def token_at_def)

lemma ages_cong: "t_tokens b1 = t_tokens b \<Longrightarrow> token_ages k a b \<Longrightarrow> token_ages k a b1"
  by (simp add: token_ages_def token_at_def)

lemma ages_update:
  assumes "token_at a (o1, i) = Some t" and "tok_key t1 = tok_key t" and "tok_MaxUses t1 = tok_MaxUses t"
    and "in64 (tok_UsedCount t) \<Longrightarrow> in64 (tok_MaxUses t) \<Longrightarrow> tok_UsedCount t \<le> tok_UsedCount t1 \<and> in64 (tok_UsedCount t1)"
    and "tok_Status t \<noteq> TokenStatusActive \<Longrightarrow> tok_Status t1 \<noteq> TokenStatusActive"
  shows "token_ages k a (a\<lparr>t_tokens := update_row tok_key tok_merge t1 (t_tokens a)\<rparr>)"
proof -
  have "tok_key t = (o1, i)" using assms(1) unfolding token_at_def by (metis find_row_key)
  then show ?thesis using assms by (auto simp: token_ages_def token_updated)
qed

lemma verify_cases:
  assumes "VerifyPaymentUpdateToken o1 i w = (r, w1)"
  shows "token_ages k (w_db w) (w_db w1) \<and> (\<forall>t. r = Inr t \<longrightarrow> w_db w1 = w_db w \<and> token_at (w_db w) (o1, i) = Some t \<and>
    tok_Status t = TokenStatusActive \<and> tok_UsedCount t < tok_MaxUses t)"
proof -
  obtain q w2 where f: "DunningRepo_FindTokenById o1 i w = (q, w2)" by (metis surj_pair)
  have d: "w_db w2 = w_db w" by (rule keeps[OF keep.obeys_selOne f[unfolded DunningRepo_FindTokenById_def]])
  show ?thesis
  proof (cases q)
    case (Inl e)
    then show ?thesis using assms f d by (auto simp: VerifyPaymentUpdateToken_def tryS_def mapErrS_def intro: ages_same)
  next
    case (Inr t)
    have t: "token_at (w_db w) (o1, i) = Some t" using f Inr by (auto simp: DunningRepo_FindTokenById_def selOne_Inr token_at_def)
    let ?w = "w2\<lparr>w_ticks := Suc (w_ticks w2)\<rparr>"
    have ex: "token_ages k (w_db w) (w_db w4)"
      if "tok_Status t = TokenStatusActive" "DunningRepo_UpdateToken (t\<lparr>tok_Status := st\<rparr>) ?w = (x, w4)" "st \<noteq> TokenStatusActive" for st x w4
    proof -
      have "w_db w4 = w_db w \<or> w_db w4 = (w_db w)\<lparr>t_tokens := update_row tok_key tok_merge (t\<lparr>tok_Status := st\<rparr>) (t_tokens (w_db w))\<rparr>"
        using UpdateToken_cases[OF that(2)] d by auto
      moreover have "token_ages k (w_db w) ((w_db w)\<lparr>t_tokens := update_row tok_key tok_merge (t\<lparr>tok_Status := st\<rparr>) (t_tokens (w_db w))\<rparr>)"
        by (rule ages_update[OF t]) (simp_all add: tok_key_def that)
      ultimately show ?thesis using ages_same[OF HOL.refl] by metis
    qed
    obtain x1 w4 where u1: "DunningRepo_UpdateToken (t\<lparr>tok_Status := TokenStatusExpired\<rparr>) ?w = (x1, w4)" by (metis surj_pair)
    obtain x2 w5 where u2: "DunningRepo_UpdateToken (t\<lparr>tok_Status := TokenStatusMaxUsesReached\<rparr>) ?w = (x2, w5)" by (metis surj_pair)
    have run: "VerifyPaymentUpdateToken o1 i w = (if tok_Status t \<noteq> TokenStatusActive then refused t ''Token is not active'' w2
       else let now = w_clock w2 (w_ticks w2) in
         if tok_ExpiresAt t < now then expire_token t TokenStatusExpired ''Token has expired'' ?w
         else if tok_MaxUses t \<le> tok_UsedCount t then expire_token t TokenStatusMaxUsesReached ''Token has reached max uses'' ?w
         else (Inr t, ?w))"
      by (simp add: VerifyPaymentUpdateToken_def tryS_def mapErrS_def f Inr with_now_def Let_def)
    have e1: "expire_token t TokenStatusExpired m ?w = (Inl (Some (t\<lparr>tok_Status := TokenStatusExpired\<rparr>), NewCustomError BadRequestError m None), w4)"
      "expire_token t TokenStatusMaxUsesReached m ?w = (Inl (Some (t\<lparr>tok_Status := TokenStatusMaxUsesReached\<rparr>), NewCustomError BadRequestError m None), w5)" for m
      using u1 u2 by (simp_all add: expire_token_def tryS_def ignoreS_def refused_def)
    have "token_ages k (w_db w) (w_db w2)" using d by (intro ages_same) simp
    then show ?thesis
      using assms run t d ex[OF _ u1] ex[OF _ u2]
      by (cases "tok_Status t \<noteq> TokenStatusActive"; cases "tok_ExpiresAt t < w_clock w2 (w_ticks w2)"; cases "tok_MaxUses t \<le> tok_UsedCount t")
        (simp_all add: e1 refused_def Let_def; force)+
  qed
qed

lemma revoke_ages: "RevokePaymentUpdateToken o1 i w = (r, w1) \<Longrightarrow> token_ages k (w_db w) (w_db w1)"
proof -
  assume run: "RevokePaymentUpdateToken o1 i w = (r, w1)"
  obtain q w2 where f: "DunningRepo_FindTokenById o1 i w = (q, w2)" by (metis surj_pair)
  have d: "w_db w2 = w_db w" by (rule keeps[OF keep.obeys_selOne f[unfolded DunningRepo_FindTokenById_def]])
  show ?thesis
  proof (cases q)
    case (Inl e)
    then show ?thesis using run f d by (auto simp: RevokePaymentUpdateToken_def tryS_def mapErrS_def intro: ages_same)
  next
    case (Inr t)
    have t: "token_at (w_db w) (o1, i) = Some t" using f Inr by (auto simp: DunningRepo_FindTokenById_def selOne_Inr token_at_def)
    obtain x w3 where u: "DunningRepo_UpdateToken (t\<lparr>tok_Status := TokenStatusRevoked\<rparr>) w2 = (x, w3)" by (metis surj_pair)
    have "t_tokens (w_db w1) = t_tokens (w_db w2) \<or> t_tokens (w_db w1) = t_tokens (w_db w3)"
    proof (cases x)
      case (Inl e)
      then show ?thesis using run f Inr u by (auto simp: RevokePaymentUpdateToken_def tryS_def mapErrS_def refused_def alone_def bindS_def split: if_splits)
    next
      case x: (Inr b)
      obtain y w4 where p: "Publish (tok_OrgId b) ''dunning.token_revoked'' (MsgToken b) w3 = (y, w4)" by (metis surj_pair)
      then show ?thesis using run f Inr u x Publish_cases[OF p]
        by (auto simp: RevokePaymentUpdateToken_def tryS_def mapErrS_def refused_def alone_def bindS_def ignoreS_def split: if_splits)
    qed
    moreover have "t_tokens (w_db w3) = t_tokens (w_db w) \<or> t_tokens (w_db w3) = update_row tok_key tok_merge (t\<lparr>tok_Status := TokenStatusRevoked\<rparr>) (t_tokens (w_db w))"
      using UpdateToken_cases[OF u] d by auto
    moreover have "token_ages k (w_db w) ((w_db w)\<lparr>t_tokens := update_row tok_key tok_merge (t\<lparr>tok_Status := TokenStatusRevoked\<rparr>) (t_tokens (w_db w))\<rparr>)"
      by (rule ages_update[OF t]) (simp_all add: tok_key_def)
    ultimately show ?thesis using d ages_same[of "w_db w1" "w_db w" k]
      ages_cong[of "w_db w1" "(w_db w)\<lparr>t_tokens := update_row tok_key tok_merge (t\<lparr>tok_Status := TokenStatusRevoked\<rparr>) (t_tokens (w_db w))\<rparr>" k "w_db w"] by auto
  qed
qed

lemma activate_cases:
  assumes run: "ActivatePaymentUpdateToken inp w = (r, w1)"
  shows "token_ages k (w_db w) (w_db w1) \<and> (\<not> isl r \<longrightarrow> (\<exists>t t1. token_at (w_db w) (ati_OrgId inp, ati_TokenId inp) = Some t \<and>
    tok_Status t = TokenStatusActive \<and> tok_UsedCount t < tok_MaxUses t \<and>
    token_at (w_db w1) (ati_OrgId inp, ati_TokenId inp) = Some t1 \<and> tok_UsedCount t1 = add64 (tok_UsedCount t) 1))"
proof -
  obtain q w2 where v: "VerifyPaymentUpdateToken (ati_OrgId inp) (ati_TokenId inp) w = (q, w2)" by (metis surj_pair)
  note vc = verify_cases[OF v, of k]
  show ?thesis
  proof (cases q)
    case (Inl e)
    then have "isl r \<and> w1 = w2" using run v by (cases e) (auto simp: ActivatePaymentUpdateToken_def bindS_def error_only_def)
    then show ?thesis using vc by simp
  next
    case (Inr t)
    let ?t = "used_token t (w_clock w2 (w_ticks w2)) (ati_UsedIp inp)"
    let ?db = "(w_db w)\<lparr>t_tokens := update_row tok_key tok_merge ?t (t_tokens (w_db w))\<rparr>"
    have t: "token_at (w_db w) (ati_OrgId inp, ati_TokenId inp) = Some t" "tok_Status t = TokenStatusActive"
      "tok_UsedCount t < tok_MaxUses t" "w_db w2 = w_db w" using vc Inr by auto
    have used: "tok_key ?t = tok_key t" "tok_MaxUses ?t = tok_MaxUses t" "tok_UsedCount ?t = add64 (tok_UsedCount t) 1"
      by (simp_all add: used_token_def Let_def tok_key_def)
    have ages: "token_ages k (w_db w) ?db"
      using t used by (intro ages_update[OF t(1)]) (auto simp: add64_def in64_def)
    have key: "tok_key t = (ati_OrgId inp, ati_TokenId inp)" using t(1) unfolding token_at_def by (metis find_row_key)
    obtain x w3 where u: "DunningRepo_UpdateToken ?t (w2\<lparr>w_ticks := Suc (w_ticks w2)\<rparr>) = (x, w3)" by (metis surj_pair)
    show ?thesis
    proof (cases x)
      case Err: (Inl e)
      then have "isl r \<and> w1 = w3" using run v Inr u by (auto simp: ActivatePaymentUpdateToken_def bindS_def error_only_def mapErrS_def)
      then show ?thesis using UpdateToken_cases[OF u] t(4) ages ages_same[OF HOL.refl, of k "w_db w"] by auto
    next
      case x: (Inr b)
      have d3: "w_db w3 = ?db" using UpdateToken_cases[OF u] x t(4) by simp
      obtain y w4 where p: "Publish (tok_OrgId b) ''dunning.token_activated'' (MsgToken b) w3 = (y, w4)" by (metis surj_pair)
      have "w1 = w4" using run v Inr u x p by (auto simp: ActivatePaymentUpdateToken_def bindS_def error_only_def mapErrS_def ignoreS_def)
      then have tk: "t_tokens (w_db w1) = t_tokens ?db" using Publish_cases[OF p] d3 by auto
      have "token_at (w_db w1) (ati_OrgId inp, ati_TokenId inp) = token_at ?db (ati_OrgId inp, ati_TokenId inp)" using tk by (simp add: token_at_def)
      also have "\<dots> = Some (tok_merge t ?t)" unfolding token_updated using t(1) used(1) key by simp
      finally show ?thesis using t used ages_cong[OF tk ages] by auto
    qed
  qed
qed

text \<open>A history of a token: verifications, activations and revocations of any tokens, and other
  steps of the program.\<close>

datatype 'd token_op =
  Tok_verify string string | Tok_activate activate_token_input | Tok_revoke string string | Tok_other "'d world \<Rightarrow> 'd world"

fun token_op_step :: "'d token_op \<Rightarrow> 'd world \<Rightarrow> 'd world" where
  "token_op_step (Tok_verify o1 i) w = snd (VerifyPaymentUpdateToken o1 i w)"
| "token_op_step (Tok_activate inp) w = snd (ActivatePaymentUpdateToken inp w)"
| "token_op_step (Tok_revoke o1 i) w = snd (RevokePaymentUpdateToken o1 i w)"
| "token_op_step (Tok_other f) w = f w"

fun is_use :: "string \<times> string \<Rightarrow> 'd token_op \<Rightarrow> 'd world \<Rightarrow> bool" where
  "is_use k (Tok_activate inp) w = ((ati_OrgId inp, ati_TokenId inp) = k \<and> \<not> isl (fst (ActivatePaymentUpdateToken inp w)))"
| "is_use k _ w = False"

fun token_uses :: "string \<times> string \<Rightarrow> 'd token_op list \<Rightarrow> 'd world \<Rightarrow> nat" where
  "token_uses k [] w = 0"
| "token_uses k (op # ops) w = (if is_use k op w then 1 else 0) + token_uses k ops (token_op_step op w)"

lemma token_op_ages:
  assumes "\<And>f. op = Tok_other f \<Longrightarrow> t_tokens (w_db (f w)) = t_tokens (w_db w)"
  shows "token_ages k (w_db w) (w_db (token_op_step op w))"
proof (cases op)
  case (Tok_verify o1 i)
  then show ?thesis using verify_cases[of o1 i w] by (metis prod.collapse token_op_step.simps(1))
next
  case (Tok_activate inp)
  then show ?thesis using activate_cases[of inp w] by (metis prod.collapse token_op_step.simps(2))
next
  case (Tok_revoke o1 i)
  then show ?thesis using revoke_ages[of o1 i w] by (metis prod.collapse token_op_step.simps(3))
next
  case (Tok_other f)
  then show ?thesis using assms by (simp add: ages_same)
qed

section \<open>The policy of a campaign\<close>

lemma DunningRepo_CreateCampaign_ok:
  assumes "DunningRepo_CreateCampaign c w = (Inr c1, w1)"
  shows "c1 = c \<and> campaign_row (w_db w1) (cmp_key c) = Some c"
proof -
  obtain rs where i: "insert_row (\<lambda>a b. cmp_key a = cmp_key b) c (t_campaigns (w_db w)) = Some rs"
    and f: "find_row cmp_key (cmp_OrgId c, cmp_Id c) rs = Some c1" and d: "w_db w1 = (w_db w)\<lparr>t_campaigns := rs\<rparr>"
    using assms by (auto simp: DunningRepo_CreateCampaign_def DunningRepo_FindCampaignById_def ok_simps)
  show ?thesis using f find_row_insert[OF i, of cmp_key] by (auto simp: cmp_key_def d)
qed

lemma ignored_Publish: "ignoreS (Publish o1 topic m) w = (r, w1) \<Longrightarrow> \<exists>evs. w_db w1 = (w_db w)\<lparr>t_outbox := evs\<rparr>"
proof -
  assume "ignoreS (Publish o1 topic m) w = (r, w1)"
  then have "Publish o1 topic m w = (fst (Publish o1 topic m w), w1)" by (auto simp: ignoreS_def)
  then show ?thesis using Publish_cases by blast
qed

lemma CreateCampaign_stored:
  assumes "CreateCampaign inp w = (Inr c, w1)"
  shows "campaign_row (w_db w1) (cmp_key c) = Some c \<and> cmp_ConfigSnapshot c = cci_ConfigSnapshot inp \<and> cmp_OrgId c = cci_OrgId inp"
proof -
  obtain c0 w2 w3 u where cr: "DunningRepo_CreateCampaign c0 w2 = (Inr c, w3)"
    and c0: "cmp_ConfigSnapshot c0 = cci_ConfigSnapshot inp" "cmp_OrgId c0 = cci_OrgId inp"
    and pu: "ignoreS (Publish (cmp_OrgId c) ''dunning.started'' (MsgCampaign c)) w3 = (u, w1)"
    using assms unfolding CreateCampaign_def by (elim bindS_InrE) (auto simp: mapErrS_Inr)
  show ?thesis using DunningRepo_CreateCampaign_ok[OF cr] ignored_Publish[OF pu] c0 by auto
qed

lemma UpdateCampaign_keeps:
  assumes "UpdateCampaign c w = (r, w1)" and "campaign_row (w_db w) (cmp_key c) = Some old"
  shows "\<exists>c1. campaign_row (w_db w1) (cmp_key c) = Some c1 \<and> cmp_ConfigSnapshot c1 \<in> {cmp_ConfigSnapshot old, cmp_ConfigSnapshot c} \<and>
    (\<forall>c2. r = Inr c2 \<longrightarrow> cmp_key c2 = cmp_key c)"
proof -
  let ?c = "c\<lparr>cmp_UpdatedAt := w_clock w (w_ticks w)\<rparr>"
  obtain q w2 where u: "DunningRepo_UpdateCampaign ?c (w\<lparr>w_ticks := Suc (w_ticks w)\<rparr>) = (q, w2)" by (metis surj_pair)
  have w2: "w1 = w2" and q: "\<And>c2. r = Inr c2 \<Longrightarrow> q = Inr c2"
    using assms(1) u by (auto simp: UpdateCampaign_def bindS_def mapErrS_def split: sum.splits)
  have "cmp_key c2 = cmp_key c" if "r = Inr c2" for c2
    using camps.store_ok[OF u[unfolded q[OF that]]] by (auto simp: cmp_key_def cmp_merge_def)
  moreover have "\<exists>c1. campaign_row (w_db w1) (cmp_key c) = Some c1 \<and> cmp_ConfigSnapshot c1 \<in> {cmp_ConfigSnapshot old, cmp_ConfigSnapshot c}"
    using UpdateCampaign_cases[OF u]
  proof (elim conjE disjE)
    assume "w_db w2 = w_db (w\<lparr>w_ticks := Suc (w_ticks w)\<rparr>)"
    then show ?thesis using assms(2) by (simp add: w2)
  next
    assume d: "w_db w2 = (w_db (w\<lparr>w_ticks := Suc (w_ticks w)\<rparr>))\<lparr>t_campaigns := update_row cmp_key cmp_merge ?c (t_campaigns (w_db (w\<lparr>w_ticks := Suc (w_ticks w)\<rparr>)))\<rparr>"
    have "cmp_key ?c = cmp_key c" by (simp add: cmp_key_def)
    then show ?thesis using assms(2) by (simp add: w2 d cmp_merge_def)
  qed
  ultimately show ?thesis by blast
qed

text \<open>Changes of the configurations of any organisation.\<close>

datatype config_edit = Edit_create create_configuration_input | Edit_update update_configuration_input

fun config_edits :: "config_edit list \<Rightarrow> 'd world \<Rightarrow> 'd world" where
  "config_edits [] w = w"
| "config_edits (Edit_create inp # es) w = config_edits es (snd (CreateConfiguration inp w))"
| "config_edits (Edit_update inp # es) w = config_edits es (snd (UpdateConfiguration inp w))"

lemma config_ops_keep: "obeys (same_on t_campaigns) (CreateConfiguration inp)" "obeys (same_on t_campaigns) (UpdateConfiguration upd)"
  unfolding CreateConfiguration_def UpdateConfiguration_def GetConfiguration_def DunningRepo_FindConfigurationById_def
    DunningRepo_CreateConfiguration_def DunningRepo_UpdateConfiguration_def
  by (auto intro!: keep.obeys_intros keep_exec keep_Publish)

lemma config_edit_keep [simp]: "t_campaigns (w_db (snd (CreateConfiguration inp w))) = t_campaigns (w_db w)"
    "t_campaigns (w_db (snd (UpdateConfiguration upd w))) = t_campaigns (w_db w)"
  using config_ops_keep by (auto simp: obeys_def same_on_def)

lemma config_edits_keep: "t_campaigns (w_db (config_edits es w)) = t_campaigns (w_db w)"
  by (induction es w rule: config_edits.induct) simp_all

section \<open>Properties\<close>

text \<open>C26: A payment update token is used at most as often as its limit allows, over any history
  of verifications, activations and revocations, with any failures; a token that is not
  active (revoked, expired, used up) is never used again.\<close>

theorem token_uses_bounded:
  assumes "token_at (w_db w) k = Some t" and "in64 (tok_UsedCount t)" and "in64 (tok_MaxUses t)"
    and "\<And>f w. Tok_other f \<in> set ops \<Longrightarrow> t_tokens (w_db (f w)) = t_tokens (w_db w)"
  shows "int (token_uses k ops w) \<le> max 0 (tok_MaxUses t - tok_UsedCount t) \<and>
    (tok_Status t \<noteq> TokenStatusActive \<longrightarrow> token_uses k ops w = 0)"
  using assms
proof (induction ops arbitrary: w t)
  case (Cons op ops)
  let ?w = "token_op_step op w"
  have "token_ages k (w_db w) (w_db ?w)" using Cons.prems(4) by (intro token_op_ages) simp
  then obtain t1 where t1: "token_at (w_db ?w) k = Some t1" "tok_MaxUses t1 = tok_MaxUses t" "tok_UsedCount t \<le> tok_UsedCount t1"
      "in64 (tok_UsedCount t1)" "tok_Status t \<noteq> TokenStatusActive \<longrightarrow> tok_Status t1 \<noteq> TokenStatusActive"
    using Cons.prems(1-3) by (auto simp: token_ages_def)
  have ih: "int (token_uses k ops ?w) \<le> max 0 (tok_MaxUses t - tok_UsedCount t1) \<and> (tok_Status t1 \<noteq> TokenStatusActive \<longrightarrow> token_uses k ops ?w = 0)"
    using Cons.IH[of ?w t1] t1 Cons.prems(3,4) by simp
  show ?case
  proof (cases "is_use k op w")
    case True
    then obtain inp where op: "op = Tok_activate inp" and k: "(ati_OrgId inp, ati_TokenId inp) = k" and ok: "\<not> isl (fst (ActivatePaymentUpdateToken inp w))"
      by (cases op) auto
    note a = activate_cases[of inp w "fst (ActivatePaymentUpdateToken inp w)" ?w, unfolded k]
    have "tok_Status t = TokenStatusActive \<and> tok_UsedCount t < tok_MaxUses t \<and> tok_UsedCount t1 = add64 (tok_UsedCount t) 1"
      using a ok Cons.prems(1) t1(1) by (simp add: op)
    moreover then have "add64 (tok_UsedCount t) 1 = tok_UsedCount t + 1" using Cons.prems(2,3) by (simp add: add64_def in64_def)
    ultimately show ?thesis using ih t1(2) True by simp
  next
    case False
    then show ?thesis using ih t1 by auto
  qed
qed simp

definition sample_campaign :: dunning_campaign where
  "sample_campaign = \<lparr> cmp_OrgId = ''o'', cmp_Id = ''k'', cmp_SubscriptionId = ''s'', cmp_CustomerId = ''c'', cmp_WorkflowId = [],
     cmp_WorkflowRunId = [], cmp_ParentWorkflowId = [], cmp_Status = DunningStatusActive, cmp_FailedAmount = 500, cmp_Currency = ''USD'',
     cmp_InitialFailureReason = ''network_error'', cmp_TotalAttempts = 0, cmp_ImmediateAttempts = 0, cmp_ProgressiveAttempts = 0,
     cmp_StartedAt = 1, cmp_LastAttemptAt = 0, cmp_NextAttemptAt = 0, cmp_CompletedAt = 0, cmp_RecoveryMethod = [],
     cmp_RecoveredAmount = 0, cmp_RecoveredAt = 0, cmp_FinalFailureReason = [], cmp_ConfigSnapshot = ConfigOf DefaultDunningConfig,
     cmp_Metadata = Map.empty, cmp_CreatedAt = 1, cmp_UpdatedAt = 1 \<rparr>"

definition sample_token :: payment_update_token where
  "sample_token = \<lparr> tok_OrgId = ''o'', tok_TokenId = ''t'', tok_SubscriptionId = ''s'', tok_CustomerId = ''c'', tok_DunningCampaignId = ''k'',
     tok_TokenData = \<lparr> tkd_ExpiresAt = [], tkd_MaxUses = 2, tkd_AllowedActions = default_actions \<rparr>, tok_Signature = [],
     tok_ExpiresAt = 1000, tok_MaxUses = 2, tok_UsedCount = 0, tok_Status = TokenStatusActive, tok_AllowedActions = default_actions,
     tok_AdminGenerated = False, tok_AdminUserId = [], tok_AdminReason = [], tok_AdminNotes = [], tok_CreatedBy = [], tok_CreatedAt = 0,
     tok_LastUsedAt = 0, tok_LastUsedIp = [] \<rparr>"

definition dunning_world_in :: "dunning_status \<Rightarrow> rat world" where
  "dunning_world_in st = world_of (empty_db\<lparr>t_subscriptions := [minute_sub], t_customers := [sample_customer], t_payment_methods := [sample_method],
     t_campaigns := [sample_campaign\<lparr>cmp_Status := st\<rparr>], t_tokens := [sample_token]\<rparr>) (\<lambda>n. int n)"

definition dunning_world :: "rat world" where
  "dunning_world = dunning_world_in DunningStatusActive"

lemmas dunning_world_defs = dunning_world_def dunning_world_in_def world_of_def empty_db_def sample_campaign_def sample_token_def

theorem token_uses_bounded_witness:
  "int (token_uses (''o'', ''t'') (replicate 3 (Tok_activate \<lparr> ati_OrgId = ''o'', ati_TokenId = ''t'', ati_UsedIp = [] \<rparr>)) dunning_world) \<le> 2"
  using token_uses_bounded[of dunning_world "(''o'', ''t'')" sample_token
      "replicate 3 (Tok_activate \<lparr> ati_OrgId = ''o'', ati_TokenId = ''t'', ati_UsedIp = [] \<rparr>)"]
  by (simp add: dunning_world_defs token_at_def find_row_def tok_key_def in64_def)

text \<open>C25: When no statement fails, the result of an attempt implements the escalation policy on the
  statuses of subscription and campaign: a success recovers the campaign (and lifts a
  suspension), a failure cancels, suspends or waits by the thresholds; a subscription that
  it suspends or cancels has no invoice of its cycle left open.  (A failing update of
  the subscription is only logged, so nothing of the kind holds then; invoices have distinct keys.)\<close>

theorem attempt_result_refines:
  assumes "calm w" and "UpdateCampaignWithAttemptResult a config ctx w = (r, w1)"
    and "campaign_row (w_db w) (att_OrgId a, att_DunningCampaignId a) = Some c"
    and "subscription_row (w_db w) (cmp_OrgId c, cmp_SubscriptionId c) = Some s" and "invoices_distinct (w_db w)"
    and "paid = (att_Status a = PaymentStatusSucceeded)" and "v = escalate paid (dcf_EscalationRules config) ctx (sub_Status s, cmp_Status c)"
  shows "(\<exists>c1. r = Inr c1 \<and> cmp_Status c1 = snd v) \<and>
    dunning_view (cmp_OrgId c, cmp_SubscriptionId c) (cmp_key c) (w_db w1) = Some v \<and>
    (\<not> paid \<and> (fst v \<noteq> sub_Status s \<or> reached (esc_CancelAfterAttempt (dcf_EscalationRules config)) (dac_AttemptNumber ctx))
       \<longrightarrow> nothing_due s (w_db w1))"
  using runsD[OF runs_result[OF assms(3-5)] assms(2,1) HOL.refl] assms(6,7)
  by (simp add: result_applied_def Let_def) blast

definition failed_attempt :: dunning_attempt where
  "failed_attempt = \<lparr> att_OrgId = ''o'', att_Id = ''a'', att_DunningCampaignId = ''k'', att_SubscriptionId = ''s'', att_AttemptNumber = 3,
     att_AttemptType = DunningAttemptTypeImmediate, att_Amount = 500, att_Currency = ''USD'', att_PaymentMethodId = ''pm'',
     att_Status = PaymentStatusFailed, att_FailureReason = [], att_FailureCode = [], att_ProcessorResponse = [], att_ProcessingTimeMs = 0,
     att_AttemptedAt = 0, att_CompletedAt = 0, att_TriggeredBy = [], att_Metadata = Map.empty, att_CreatedAt = 0 \<rparr>"

definition third_attempt :: dunning_attempt_context where
  "third_attempt = \<lparr> dac_AttemptNumber = 3, dac_WasSubscriptionSuspended = False \<rparr>"

lemma minute_sub_more: "sub_key minute_sub = (''o'', ''s'')" "sub_Status minute_sub = SubscriptionStatusActive" "sub_OrgId minute_sub = ''o''"
    "sub_CustomerId minute_sub = ''c''" "sub_PaymentMethodId minute_sub = ''pm''"
  by (simp_all add: sub_key_def minute_sub_def metered_sub_def sample_subscription_def)

lemma sample_rows: "campaign_row (w_db dunning_world) (''o'', ''k'') = Some sample_campaign"
    "subscription_row (w_db dunning_world) (''o'', ''s'') = Some minute_sub" "calm dunning_world" "invoices_distinct (w_db dunning_world)"
  by (simp_all add: dunning_world_defs find_row_def cmp_key_def minute_sub_more calm_def invoices_distinct_def)

theorem attempt_result_refines_witness:
  "\<exists>c1 (w1 :: rat world). UpdateCampaignWithAttemptResult failed_attempt DefaultDunningConfig third_attempt dunning_world = (Inr c1, w1) \<and>
    dunning_view (''o'', ''s'') (''o'', ''k'') (w_db w1) = Some (SubscriptionStatusUnpaid, DunningStatusActive)"
proof -
  obtain r w1 where run: "UpdateCampaignWithAttemptResult failed_attempt DefaultDunningConfig third_attempt dunning_world = (r, w1)" by (metis surj_pair)
  have c: "campaign_row (w_db dunning_world) (att_OrgId failed_attempt, att_DunningCampaignId failed_attempt) = Some sample_campaign"
    and s: "subscription_row (w_db dunning_world) (cmp_OrgId sample_campaign, cmp_SubscriptionId sample_campaign) = Some minute_sub"
    using sample_rows by (simp_all add: failed_attempt_def sample_campaign_def)
  have v: "escalate False (dcf_EscalationRules DefaultDunningConfig) third_attempt (sub_Status minute_sub, cmp_Status sample_campaign) =
      (SubscriptionStatusUnpaid, DunningStatusActive)"
    by (simp add: escalate_def third_attempt_def reached_def DefaultDunningConfig_def suspendable_def minute_sub_more sample_campaign_def)
  have "cmp_key sample_campaign = (''o'', ''k'')" "cmp_OrgId sample_campaign = ''o''" "cmp_SubscriptionId sample_campaign = ''s''"
    by (simp_all add: cmp_key_def sample_campaign_def)
  then show ?thesis using attempt_result_refines[OF sample_rows(3) run c s sample_rows(4) HOL.refl HOL.refl] run
    by (auto simp: failed_attempt_def v)
qed

text \<open>A campaign keeps the dunning policy that was in force when it was started: whatever
  configurations are created or changed later, the policy loaded for it is the one that
  was resolved then.\<close>

theorem campaign_keeps_config:
  assumes "StartDunningWorkflow engine inp w = (Inr c, w1)"
    and "LoadConfigForCampaign (sdi_OrgId inp) (cmp_Id c) (config_edits edits w1) = (r, w2)" and "\<not> isl r"
  shows "r = fst (ResolveConfig (sdi_OrgId inp) w)"
proof -
  let ?o = "sdi_OrgId inp"
  obtain cfg wa where cfg: "ResolveConfig ?o w = (Inr cfg, wa)"
  proof -
    obtain q w0 where "DunningRepo_FindConfigurationsByPriority ?o w = (q, w0)" by (metis surj_pair)
    then show ?thesis using that by (cases q) (simp_all add: ResolveConfig_def tryS_def)
  qed
  define cci where "cci = \<lparr> cci_OrgId = ?o, cci_SubscriptionId = sdi_SubscriptionId inp,
            cci_CustomerId = sdi_CustomerId inp, cci_FailedAmount = sdi_FailedAmount inp, cci_Currency = sdi_Currency inp,
            cci_InitialFailureReason = sdi_InitialFailureReason inp, cci_ParentWorkflowId = sdi_ParentWorkflowId inp,
            cci_ConfigSnapshot = configToMap cfg, cci_Metadata = sdi_Metadata inp \<rparr>"
  obtain q wb where cr: "CreateCampaign cci wa = (q, wb)" by (metis surj_pair)
  have run: "StartDunningWorkflow engine inp w = (case q of Inl e \<Rightarrow> (Inl (None, e), wb) | Inr c \<Rightarrow> (case engine inp of
        Inl e \<Rightarrow> Pair (Inl (Some c, internal ''Failed to start dunning workflow'' (InfraError e)))
      | Inr (workflowId, runId) \<Rightarrow>
          tryS (UpdateCampaign (c\<lparr>cmp_WorkflowId := workflowId, cmp_WorkflowRunId := runId\<rparr>)) (\<lambda>u. case u of
            Inl _ \<Rightarrow> Pair (Inr (c\<lparr>cmp_WorkflowId := workflowId, cmp_WorkflowRunId := runId\<rparr>))
          | Inr updated \<Rightarrow> Pair (Inr updated))) wb)"
    using cr by (cases q) (simp_all add: StartDunningWorkflow_def tryS_def bindS_def cfg cci_def[symmetric])
  then obtain c0 h where q: "q = Inr c0" and h: "engine inp = Inr h" using assms(1) by (cases q; cases "engine inp") auto
  note st = CreateCampaign_stored[OF cr[unfolded q]]
  let ?c = "c0\<lparr>cmp_WorkflowId := fst h, cmp_WorkflowRunId := snd h\<rparr>"
  obtain u wc where u: "UpdateCampaign ?c wb = (u, wc)" by (metis surj_pair)
  have k: "cmp_key ?c = cmp_key c0" "cmp_key c0 = (?o, cmp_Id c0)" using st by (simp_all add: cmp_key_def cci_def)
  have "w1 = wc \<and> cmp_Id c = cmp_Id c0"
    using assms(1) u UpdateCampaign_keeps[OF u, of c0] st unfolding run k
    by (cases u) (auto simp: q h tryS_def cmp_key_def split: prod.splits)
  then obtain c1 where c1: "campaign_row (w_db w1) (?o, cmp_Id c) = Some c1" "cmp_ConfigSnapshot c1 = ConfigOf cfg"
    using UpdateCampaign_keeps[OF u, of c0] st k by (auto simp: cci_def configToMap_def)
  have "campaign_row (w_db (config_edits edits w1)) (?o, cmp_Id c) = Some c1" using c1(1) by (simp add: config_edits_keep)
  then show ?thesis
    using assms(2,3) c1(2) by (auto simp: LoadConfigForCampaign_def FindCampaignById_def DunningRepo_FindCampaignById_def bindS_def mapErrS_def
        selOne_Inr configFromMap_def cfg split: prod.splits sum.splits)
qed

lemmas run_dunning = StartDunningWorkflow_def ResolveConfig_def CreateCampaign_def UpdateCampaign_def LoadConfigForCampaign_def
  CreateConfiguration_def FindCampaignById_def DunningRepo_FindConfigurationsByPriority_def DunningRepo_CreateCampaign_def
  DunningRepo_UpdateCampaign_def DunningRepo_FindCampaignById_def DunningRepo_CreateConfiguration_def
  DunningRepo_FindConfigurationById_def runChargeAttempt_def attempt_setup_def record_attempt_def DunningRepo_CreateAttempt_def
  CancelCampaign_def store_campaign_def ignoreS_def alone_def

lemmas run_rows_dunning = find_row_def update_row_def insert_row_def sub_key_def cmp_key_def cmp_merge_def dcn_key_def
  SubscriptionRepo_FindById_def CustomerRepo_FindById_def CustomerRepo_FindPaymentMethodById_def NewGateway_def ChargePayment_def

definition sample_start :: start_dunning_input where
  "sample_start = failure_input minute_sub (sample_charge\<lparr>chg_Status := PaymentStatusFailed\<rparr>)"

definition no_retries :: create_configuration_input where
  "no_retries = \<lparr> dci_OrgId = ''o'', dci_Name = [], dci_Description = [], dci_Priority = 9, dci_AppliesTo = DunningConfigScopeOrganization,
     dci_TargetRules = Map.empty, dci_Config = zero_config, dci_IsAbTest = False, dci_AbTestPercentage = 0, dci_CreatedBy = [] \<rparr>"

lemma sample_started: "\<exists>c w1. StartDunningWorkflow (\<lambda>_. Inr (''w'', ''r'')) sample_start dunning_world = (Inr c, w1) \<and> calm w1 \<and>
    (\<exists>c1. campaign_row (w_db w1) (''o'', cmp_Id c) = Some c1 \<and> cmp_ConfigSnapshot c1 = ConfigOf DefaultDunningConfig)"
  by (simp add: run_basic run_dunning run_rows_dunning dunning_world_defs sample_start_def failure_input_def minute_sub_fields minute_sub_more
      configToMap_def sample_customer_def calm_def cong: run_cong)

lemma runs_CreateConfiguration: "runs (CreateConfiguration inp) db (\<lambda>_ _. True)"
  unfolding CreateConfiguration_def DunningRepo_CreateConfiguration_def DunningRepo_FindConfigurationById_def
  by (auto intro!: runsI split: option.splits)

lemma runs_LoadConfig:
  "campaign_row db (o1, i) = Some c \<Longrightarrow> cmp_ConfigSnapshot c = ConfigOf cfg \<Longrightarrow> runs (LoadConfigForCampaign o1 i) db (\<lambda>r _. r = Inr cfg)"
  unfolding LoadConfigForCampaign_def by (intro runs_bind runs_FindCampaign) (auto simp: configFromMap_def intro!: runsI)

theorem campaign_keeps_config_witness:
  "\<exists>c (w1 :: rat world) w2. StartDunningWorkflow (\<lambda>_. Inr (''w'', ''r'')) sample_start dunning_world = (Inr c, w1) \<and>
     LoadConfigForCampaign ''o'' (cmp_Id c) (config_edits [Edit_create no_retries] w1) = (fst (ResolveConfig ''o'' dunning_world), w2)"
proof -
  obtain c w1 c1 where st: "StartDunningWorkflow (\<lambda>_. Inr (''w'', ''r'')) sample_start dunning_world = (Inr c, w1)" and w1: "calm w1"
    and c1: "campaign_row (w_db w1) (''o'', cmp_Id c) = Some c1" "cmp_ConfigSnapshot c1 = ConfigOf DefaultDunningConfig"
    using sample_started by blast
  let ?w = "config_edits [Edit_create no_retries] w1"
  have "calm ?w" using runs_CreateConfiguration[of no_retries "w_db w1"] w1 by (simp add: runs_def)
  moreover have "campaign_row (w_db ?w) (''o'', cmp_Id c) = Some c1" using c1(1) by simp
  moreover obtain r w2 where l: "LoadConfigForCampaign ''o'' (cmp_Id c) ?w = (r, w2)" by (metis surj_pair)
  ultimately have "r = Inr DefaultDunningConfig" using runsD[OF runs_LoadConfig[OF _ c1(2)] l] by blast
  moreover have o: "sdi_OrgId sample_start = ''o''" by (simp add: sample_start_def failure_input_def minute_sub_more)
  ultimately show ?thesis using campaign_keeps_config[OF st, unfolded o, OF l] st l by auto
qed

text \<open>C24: One attempt sends at most one charge, for the amount the campaign collects; when it
  returns, the charge was sent and its result is recorded in a new attempt.  It writes
  no subscription, invoice or payment, whatever fails.\<close>

theorem dunning_attempt_charges_once:
  assumes "runChargeAttempt J o1 cid ty tb pmid w = (r, w1)"
  shows "t_subscriptions (w_db w1) = t_subscriptions (w_db w) \<and> t_invoices (w_db w1) = t_invoices (w_db w) \<and> t_payments (w_db w1) = t_payments (w_db w) \<and>
    (isl r \<and> w_db w1 = w_db w \<and> w_charges w1 = w_charges w \<or>
     (\<exists>c s inp n. campaign_row (w_db w) (o1, cid) = Some c \<and> subscription_row (w_db w) (o1, cmp_SubscriptionId c) = Some s \<and>
       attempt_charge o1 c s inp \<and> w_charges w1 = w_charges w @ [inp] \<and>
       (\<forall>a. r = Inr a \<longrightarrow> t_attempts (w_db w1) = t_attempts (w_db w) @ [a] \<and> att_AttemptNumber a = add64 (cmp_TotalAttempts c) 1 \<and>
         att_Amount a = cpr_AmountCharged (w_gateway w n inp) \<and>
         (att_Status a = PaymentStatusSucceeded \<longleftrightarrow> cpr_Status (w_gateway w n inp) = ChargePaymentStatusSuccess))))"
proof -
  have status: "attempt_status st = PaymentStatusSucceeded \<longleftrightarrow> st = ChargePaymentStatusSuccess" for st
    by (cases st) (simp_all add: attempt_status_def)
  from runChargeAttempt_cases[OF assms] show ?thesis
  proof (elim disjE exE conjE)
    fix c s inp n
    assume run: "campaign_row (w_db w) (o1, cid) = Some c" "subscription_row (w_db w) (o1, cmp_SubscriptionId c) = Some s"
      "attempt_charge o1 c s inp" "w_charges w1 = w_charges w @ [inp]" and rec: "recorded c ty (w_gateway w n inp) (w_db w) r (w_db w1)"
    from rec obtain cs ats evs where d: "w_db w1 = (w_db w)\<lparr>t_campaigns := cs, t_attempts := ats, t_outbox := evs\<rparr>"
      and a: "\<forall>a. r = Inr a \<longrightarrow> ats = t_attempts (w_db w) @ [a] \<and> att_OrgId a = cmp_OrgId c \<and> att_DunningCampaignId a = cmp_Id c \<and>
       att_Amount a = cpr_AmountCharged (w_gateway w n inp) \<and> att_Status a = attempt_status (cpr_Status (w_gateway w n inp)) \<and>
       att_AttemptNumber a = add64 (cmp_TotalAttempts c) 1" unfolding recorded_def by blast
    have "\<forall>a. r = Inr a \<longrightarrow> t_attempts (w_db w1) = t_attempts (w_db w) @ [a] \<and> att_AttemptNumber a = add64 (cmp_TotalAttempts c) 1 \<and>
         att_Amount a = cpr_AmountCharged (w_gateway w n inp) \<and>
         (att_Status a = PaymentStatusSucceeded \<longleftrightarrow> cpr_Status (w_gateway w n inp) = ChargePaymentStatusSuccess)"
      using a by (simp add: d status)
    moreover have "t_subscriptions (w_db w1) = t_subscriptions (w_db w) \<and> t_invoices (w_db w1) = t_invoices (w_db w) \<and> t_payments (w_db w1) = t_payments (w_db w)"
      by (simp add: d)
    ultimately show ?thesis using run by blast
  qed simp
qed

lemma counted_key [simp]: "cmp_OrgId (counted c ty t) = cmp_OrgId c" "cmp_Id (counted c ty t) = cmp_Id c"
  by (simp_all add: counted_def Let_def split: dunning_attempt_type.split)

lemma runs_CreateAttempt:
  assumes "t_attempts db = []" and "Q (Inr a) (db\<lparr>t_attempts := [a]\<rparr>)"
  shows "runs (DunningRepo_CreateAttempt a) db Q"
  unfolding DunningRepo_CreateAttempt_def
  by (rule runs_bind, rule runs_exec, simp add: assms(1) insert_row_def, rule runs_selOne) (simp add: find_row_def assms(2))

lemma runs_record:
  assumes "campaign_row db (cmp_key c) = Some old" and "t_attempts db = []"
  shows "runs (record_attempt J o1 c s pm ty tb st resp) db (\<lambda>r _. \<not> isl r)"
proof -
  have k: "campaign_row d (cmp_key (counted c ty t)) = Some old" if "t_campaigns d = t_campaigns db" for d t
    using assms(1) that by (simp add: cmp_key_def)
  have up: "runs (DunningRepo_UpdateCampaign (counted c ty t)) d Q" if "t_campaigns d = t_campaigns db" "\<And>r d1. Q r d1" for d t Q
    using k[OF that(1)] that(2) by (rule runs_camp_Update)
  show ?thesis
    unfolding record_attempt_def Let_def
    by (rule runs_bind, rule runs_clock, simp only: sum.case, rule runs_bind, rule runs_clock, simp only: sum.case,
        rule runs_bind, rule runs_mapErr, rule runs_CreateAttempt[OF assms(2)], simp only: sum.case,
        rule runs_bind, rule runs_ignore, rule up, simp, simp only: sum.case, intro runsI, simp, intro runsI, simp)
qed

lemma sample_attempt: "\<exists>a w1. runChargeAttempt (\<lambda>t. t) ''o'' ''k'' DunningAttemptTypeImmediate [] [] (dunning_world_in st) = (Inr a, w1)"
proof -
  let ?c = "sample_campaign\<lparr>cmp_Status := st\<rparr>" and ?d = "dunning_world_in st"
  have "\<exists>cu pm gw w2. attempt_setup ''o'' ''k'' [] ?d = (Inr (?c, minute_sub, cu, pm, gw), w2) \<and> calm w2"
    by (simp add: run_basic run_dunning run_rows_dunning dunning_world_defs minute_sub_fields minute_sub_more
      sample_customer_def sample_method_def calm_def cong: run_cong)
  then obtain cu pm gw w2 where su: "attempt_setup ''o'' ''k'' [] ?d = (Inr (?c, minute_sub, cu, pm, gw), w2)" and w2: "calm w2"
    by blast
  have db: "w_db w2 = w_db ?d" using still_setup su unfolding still_def Let_def by (metis snd_conv)
  let ?w = "snd (ChargePayment \<lparr> chi_OrgId = ''o'', chi_OrderId = sub_OrderId minute_sub, chi_SubscriptionId = sub_Id minute_sub,
    chi_Amount = cmp_FailedAmount ?c, chi_Currency = cmp_Currency ?c, chi_PspId = gw, chi_Method = pm,
    chi_Customer = cu \<rparr> (w2\<lparr>w_ticks := Suc (w_ticks w2)\<rparr>))"
  have w: "calm ?w" "w_db ?w = w_db ?d" using w2 db by (simp_all add: calm_def ChargePayment_def)
  have c: "campaign_row (w_db ?d) (cmp_key ?c) = Some ?c" "t_attempts (w_db ?d) = []"
    by (simp_all add: dunning_world_defs cmp_key_def find_row_def)
  have "\<not> isl (fst (record_attempt (\<lambda>t. t) ''o'' ?c minute_sub pm DunningAttemptTypeImmediate [] t resp ?w))" for t resp
    using runs_record[OF c] w unfolding runs_def by blast
  then have "\<not> isl (fst (runChargeAttempt (\<lambda>t. t) ''o'' ''k'' DunningAttemptTypeImmediate [] [] ?d))"
    by (simp add: runChargeAttempt_def bindS_def su ChargePayment_def)
  then show ?thesis by (metis isl_def old.sum.exhaust prod.exhaust_sel)
qed

theorem dunning_attempt_charges_once_witness:
  "\<exists>a (w1 :: rat world) inp. runChargeAttempt (\<lambda>t. t) ''o'' ''k'' DunningAttemptTypeImmediate [] [] dunning_world = (Inr a, w1) \<and>
     w_charges w1 = [inp] \<and> chi_Amount inp = 500 \<and> att_AttemptNumber a = 1"
proof -
  obtain a w1 where run: "runChargeAttempt (\<lambda>t. t) ''o'' ''k'' DunningAttemptTypeImmediate [] [] dunning_world = (Inr a, w1)"
    using sample_attempt unfolding dunning_world_def by blast
  have "w_charges dunning_world = []" "cmp_FailedAmount sample_campaign = 500" "add64 (cmp_TotalAttempts sample_campaign) 1 = 1"
    by (simp_all add: dunning_world_defs add64_def in64_def)
  then show ?thesis using dunning_attempt_charges_once[OF run] run sample_rows(1) by (auto simp: attempt_charge_def)
qed

section \<open>Deviations\<close>

text \<open>An attempt does not look at the status of its campaign: a campaign that was cancelled (the
  signal to the engine may fail, which is only logged) or that is recovered already is
  charged again.\<close>

lemma ended_campaign_charged:
  "\<exists>a w1 inp. runChargeAttempt (\<lambda>t. t) ''o'' ''k'' DunningAttemptTypeImmediate [] [] (dunning_world_in st) = (Inr a, w1) \<and>
     w_charges w1 = [inp] \<and> chi_Amount inp = 500"
proof -
  obtain a w1 where run: "runChargeAttempt (\<lambda>t. t) ''o'' ''k'' DunningAttemptTypeImmediate [] [] (dunning_world_in st) = (Inr a, w1)"
    using sample_attempt by blast
  from runChargeAttempt_cases[OF this] obtain c s inp where
    c: "campaign_row (w_db (dunning_world_in st)) (''o'', ''k'') = Some c" "attempt_charge ''o'' c s inp" "w_charges w1 = w_charges (dunning_world_in st) @ [inp]"
    by auto
  have "cmp_FailedAmount c = 500" "w_charges (dunning_world_in st) = []" using c(1) by (auto simp: dunning_world_defs find_row_def cmp_key_def)
  then show ?thesis using run c(2,3) by (auto simp: attempt_charge_def)
qed

text \<open>When the statement that records an attempt fails, the charge has been sent and nothing of it
  is stored; the error makes the engine run the attempt again.\<close>

lemma lost_charge:
  "\<exists>e w1 inp. runChargeAttempt (\<lambda>t. t) ''o'' ''k'' DunningAttemptTypeImmediate [] []
       (dunning_world\<lparr>w_fault := (\<lambda>n. if n = 4 then Some ''timeout'' else None)\<rparr>) = (Inl e, w1) \<and>
     w_charges w1 = [inp] \<and> w_db w1 = w_db dunning_world"
  by (simp add: run_basic run_dunning run_rows_dunning dunning_world_defs minute_sub_fields minute_sub_more
      sample_customer_def sample_method_def cong: run_cong)

end
