(* ===== verification/Dunning_Runner.thy ===== *)
theory Dunning_Runner
  imports Dunning_Service
begin

text \<open>
  The run of one campaign: src/internal/adapter/hatchet/workflows/dunning_runner.go, which
  src/internal/adapter/temporal/workflows/dunning_runner.go mirrors, its child tasks
  (dunning_attempt.go, dunning_result.go, dunning_communication.go with the steps of
  src/internal/adapter/hatchet/steps/dunning_steps.go) and the parsing of an interval in
  src/internal/core/domain/dunning_config.go.  The engine is an input: what its n-th wait
  reports and how often it runs a failed child task again.  The lemmas bound the charges
  of a run, show that it ends, and say in which state it leaves campaign and subscription.

  Other parts of the program that run while the runner waits are not interleaved.
\<close>

section \<open>Intervals\<close>

text \<open>strconv.Atoi with its error.\<close>

definition Atoi_checked :: "string \<Rightarrow> int option" where
  "Atoi_checked s =
    (let (neg, ds) = (case s of c # cs \<Rightarrow> if c = CHR ''-'' then (True, cs) else if c = CHR ''+'' then (False, cs) else (False, s)
                     | [] \<Rightarrow> (False, []))
     in if ds = [] \<or> (\<exists>d\<in>set ds. \<not> (CHR ''0'' \<le> d \<and> d \<le> CHR ''9'')) then None
        else let n = int (read_digits ds); v = (if neg then - n else n) in if in64 v then Some v else None)"

text \<open>
  time.ParseDuration: an optional sign and numbers with units, added up.  The part after
  the point is taken exactly and cut off to nanoseconds, where Go rounds in floating point.
\<close>

definition is_digit :: "char \<Rightarrow> bool" where
  "is_digit c \<longleftrightarrow> CHR ''0'' \<le> c \<and> c \<le> CHR ''9''"

definition duration_unit :: "string \<Rightarrow> int option" where
  "duration_unit u =
    (if u = ''ns'' then Some 1 else if u = ''us'' then Some 1000 else if u = ''ms'' then Some 1000000
     else if u = ''s'' then Some Second else if u = ''m'' then Some Minute else if u = ''h'' then Some Hour else None)"

definition in_unit :: "char \<Rightarrow> bool" where
  "in_unit c \<longleftrightarrow> c \<noteq> CHR ''.'' \<and> \<not> is_digit c"

function parse_parts :: "int \<Rightarrow> string \<Rightarrow> int option" where
  "parse_parts acc s =
    (if s = [] then Some acc
     else let whole = takeWhile is_digit s; s1 = dropWhile is_digit s;
              dot = (case s1 of c # _ \<Rightarrow> c = CHR ''.'' | [] \<Rightarrow> False);
              s2 = (if dot then tl s1 else s1);
              frac = (if dot then takeWhile is_digit s2 else []); s3 = (if dot then dropWhile is_digit s2 else s2);
              u = takeWhile in_unit s3; s4 = dropWhile in_unit s3
          in if (whole = [] \<and> frac = []) \<or> u = [] then None
             else case duration_unit u of None \<Rightarrow> None
             | Some un \<Rightarrow>
                 let v = int (read_digits whole) * un + int (read_digits frac) * un div 10 ^ length frac
                 in if 2 ^ 63 < int (read_digits whole) * un \<or> 2 ^ 63 < v \<or> 2 ^ 63 < acc + v then None
                    else parse_parts (acc + v) s4)"
  by auto

lemma dropWhile_shorter: "length (dropWhile P xs) \<le> length xs"
  by (induction xs) auto

lemma takeWhile_dropWhile_less: "takeWhile P xs \<noteq> [] \<Longrightarrow> length (dropWhile P xs) < length xs"
  by (cases xs) (auto simp: less_Suc_eq_le dropWhile_shorter split: if_splits)

termination parse_parts
proof (relation "measure (\<lambda>(_, s). length s)", goal_cases)
  case (2 acc s whole s1 dot s2 frac s3 u s4 un v)
  have "length s4 < length s3" using 2 takeWhile_dropWhile_less[of in_unit s3] by auto
  moreover have "length s3 \<le> length s2" using 2 dropWhile_shorter[of is_digit s2] by auto
  moreover have "length s2 \<le> length s1" using 2 by (cases s1) auto
  moreover have "length s1 \<le> length s" using 2 dropWhile_shorter[of is_digit s] by auto
  ultimately show ?case by simp
qed simp

definition std_ParseDuration :: "string \<Rightarrow> duration option" where
  "std_ParseDuration s =
    (let (neg, s1) = (case s of c # cs \<Rightarrow> if c = CHR ''-'' then (True, cs) else if c = CHR ''+'' then (False, cs) else (False, s)
                     | [] \<Rightarrow> (False, []))
     in if s1 = ''0'' then Some 0
        else if s1 = [] then None
        else case parse_parts 0 s1 of None \<Rightarrow> None
             | Some d \<Rightarrow> if neg then Some (- d) else if d = 2 ^ 63 then None else Some d)"

definition ParseDuration :: "string \<Rightarrow> duration option" where
  "ParseDuration s =
    (let s = TrimSpace s in
     if s = [] then None
     else if last s = CHR ''d'' then map_option (\<lambda>days. mul64 (mul64 days 24) Hour) (Atoi_checked (butlast s))
     else std_ParseDuration s)"

lemma default_intervals:
  "map ParseDuration (rcf_Intervals (dcf_ImmediateRetries DefaultDunningConfig)) = map Some [2 * Minute, 10 * Minute, 30 * Minute]"
  "map ParseDuration (rcf_Intervals (dcf_ProgressiveRetries DefaultDunningConfig)) = map Some [3 * Day, 4 * Day, 7 * Day, 14 * Day, 30 * Day]"
  by code_simp+

section \<open>The engine\<close>

datatype runner_key = Key_pause | Key_resume | Key_cancel | Key_payment_method

text \<open>The answers of the waits, each an error or the keys that fired, and how often the n-th child
  is run again, at most as often as its task declares.\<close>

record dunning_engine =
  den_wait :: "nat \<Rightarrow> duration \<Rightarrow> string + runner_key list"
  den_resume :: "nat \<Rightarrow> string + runner_key list"
  den_reruns :: "nat \<Rightarrow> nat"

record 'd run_state =
  rs_world :: "'d world"
  rs_waits :: nat
  rs_tasks :: nat

fun rerun :: "nat \<Rightarrow> ('d, 'a) svc \<Rightarrow> ('d, 'a) svc" where
  "rerun 0 m w = m w"
| "rerun (Suc n) m w = (case m w of (Inl _, w1) \<Rightarrow> rerun n m w1 | (Inr x, w1) \<Rightarrow> (Inr x, w1))"

definition child_task :: "dunning_engine \<Rightarrow> nat \<Rightarrow> ('d, 'a) svc \<Rightarrow> 'd run_state \<Rightarrow> 'a res \<times> 'd run_state" where
  "child_task e retries m st =
    (case rerun (min retries (den_reruns e (rs_tasks st))) m (rs_world st) of
       (r, w1) \<Rightarrow> (r, st\<lparr>rs_world := w1, rs_tasks := Suc (rs_tasks st)\<rparr>))"

section \<open>Waiting\<close>

datatype dunning_action = dunningActionTimer | dunningActionPaused | dunningActionCancel | dunningActionImmediateRetry

definition awaitDunningInterval :: "dunning_engine \<Rightarrow> duration \<Rightarrow> 'd run_state \<Rightarrow> (string + dunning_action) \<times> 'd run_state" where
  "awaitDunningInterval e wait st =
    (let wait = (if wait < Second then Second else wait); st1 = st\<lparr>rs_waits := Suc (rs_waits st)\<rparr> in
     case den_wait e (rs_waits st) wait of
       Inl err \<Rightarrow> (Inl err, st1)
     | Inr keys \<Rightarrow> (Inr (if Key_cancel \<in> set keys then dunningActionCancel
                       else if Key_pause \<in> set keys then dunningActionPaused
                       else if Key_payment_method \<in> set keys then dunningActionImmediateRetry
                       else dunningActionTimer), st1))"

text \<open>None stands for a wait that never ends.\<close>

partial_function (option) waitForResume ::
    "dunning_engine \<Rightarrow> 'd run_state \<Rightarrow> ((string + dunning_action) \<times> 'd run_state) option" where
  "waitForResume e st =
    (let st1 = st\<lparr>rs_waits := Suc (rs_waits st)\<rparr> in
     case den_resume e (rs_waits st) of
       Inl err \<Rightarrow> Some (Inl err, st1)
     | Inr keys \<Rightarrow>
         if Key_cancel \<in> set keys then Some (Inr dunningActionCancel, st1)
         else if Key_resume \<in> set keys then Some (Inr dunningActionTimer, st1)
         else waitForResume e st1)"

declare waitForResume.simps [code]

text \<open>The wait before an attempt with the pause it may turn into.\<close>

definition wait_turn :: "dunning_engine \<Rightarrow> duration \<Rightarrow> 'd run_state \<Rightarrow> ((string + dunning_action) \<times> 'd run_state) option" where
  "wait_turn e wait st =
    (case awaitDunningInterval e wait st of
       (Inr dunningActionPaused, st1) \<Rightarrow> waitForResume e st1
     | (q, st1) \<Rightarrow> Some (q, st1))"

section \<open>The run\<close>

definition isDunningTerminal :: "dunning_status \<Rightarrow> bool" where
  "isDunningTerminal s \<longleftrightarrow> s = DunningStatusRecovered \<or> s = DunningStatusFailed \<or> s = DunningStatusCancelled \<or> s = DunningStatusExpired"

definition shouldUseImmediateRetries :: "string \<Rightarrow> string list \<Rightarrow> bool" where
  "shouldUseImmediateRetries initialFailureReason immediateFailureTypes \<longleftrightarrow>
    initialFailureReason \<noteq> [] \<and> initialFailureReason \<in> set immediateFailureTypes"

text \<open>What the runner returns so far: the campaign beside an error, or the campaign to go on with.\<close>

datatype dunning_turn = Stop dunning_campaign "app_error option" | Continue dunning_campaign

record dunning_run =
  drn_OrgId :: string
  drn_CampaignId :: string
  drn_InitialFailureReason :: string

text \<open>The child workflows, each a task with the number of its retries, and their runs.\<close>

definition NewDunningCommunicationWorkflow :: "string \<Rightarrow> string \<Rightarrow> int \<Rightarrow> nat \<times> ('d, unit) svc" where
  "NewDunningCommunicationWorkflow orgId cid attemptNumber = (3, SendCommunication orgId cid attemptNumber)"

definition NewDunningAttemptWorkflow :: "(string \<Rightarrow> string) \<Rightarrow> string \<Rightarrow> string \<Rightarrow> dunning_attempt_type \<Rightarrow> nat \<times> ('d, dunning_attempt) svc" where
  "NewDunningAttemptWorkflow J orgId cid attemptType = (10, ExecuteAttempt J orgId cid attemptType)"

definition NewDunningResultWorkflow :: "dunning_attempt \<Rightarrow> dunning_config \<Rightarrow> dunning_attempt_context \<Rightarrow> nat \<times> ('d, dunning_campaign) svc" where
  "NewDunningResultWorkflow attempt config ctx = (5, UpdateCampaignWithAttemptResult attempt config ctx)"

definition run_workflow :: "dunning_engine \<Rightarrow> nat \<times> ('d, 'a) svc \<Rightarrow> 'd run_state \<Rightarrow> 'a res \<times> 'd run_state" where
  "run_workflow e flow = child_task e (fst flow) (snd flow)"

definition runDunningCommunication :: "dunning_engine \<Rightarrow> string \<Rightarrow> string \<Rightarrow> int \<Rightarrow> 'd run_state \<Rightarrow> unit res \<times> 'd run_state" where
  "runDunningCommunication e orgId cid attemptNumber = run_workflow e (NewDunningCommunicationWorkflow orgId cid attemptNumber)"

definition runDunningAttempt :: "dunning_engine \<Rightarrow> (string \<Rightarrow> string) \<Rightarrow> string \<Rightarrow> string \<Rightarrow> dunning_attempt_type \<Rightarrow>
    'd run_state \<Rightarrow> dunning_attempt res \<times> 'd run_state" where
  "runDunningAttempt e J orgId cid attemptType = run_workflow e (NewDunningAttemptWorkflow J orgId cid attemptType)"

definition runDunningResult :: "dunning_engine \<Rightarrow> dunning_attempt \<Rightarrow> dunning_config \<Rightarrow> dunning_attempt_context \<Rightarrow>
    'd run_state \<Rightarrow> dunning_campaign res \<times> 'd run_state" where
  "runDunningResult e attempt config ctx = run_workflow e (NewDunningResultWorkflow attempt config ctx)"

lemmas charge_runs = run_workflow_def runDunningAttempt_def runDunningResult_def NewDunningAttemptWorkflow_def NewDunningResultWorkflow_def
lemmas message_runs = run_workflow_def runDunningCommunication_def NewDunningCommunicationWorkflow_def

definition attempt_turn :: "dunning_engine \<Rightarrow> (string \<Rightarrow> string) \<Rightarrow> dunning_run \<Rightarrow> dunning_config \<Rightarrow> dunning_attempt_type \<Rightarrow> int \<Rightarrow>
    dunning_campaign \<Rightarrow> 'd run_state \<Rightarrow> dunning_turn \<times> 'd run_state" where
  "attempt_turn e J inp config ty n c st =
    (let st1 = (if ty = DunningAttemptTypeProgressive
                then snd (runDunningCommunication e (drn_OrgId inp) (drn_CampaignId inp) n st) else st) in
     case runDunningAttempt e J (drn_OrgId inp) (drn_CampaignId inp) ty st1 of
       (Inl err, st2) \<Rightarrow> (Stop c (Some err), st2)
     | (Inr attempt, st2) \<Rightarrow>
         let wasSuspended = (ty = DunningAttemptTypeProgressive \<and> reached (esc_SuspendAfterAttempt (dcf_EscalationRules config)) n) in
         case runDunningResult e attempt config
                \<lparr> dac_AttemptNumber = n, dac_WasSubscriptionSuspended = wasSuspended \<rparr> st2 of
           (Inl err, st3) \<Rightarrow> (Stop c (Some err), st3)
         | (Inr updated, st3) \<Rightarrow> (if isDunningTerminal (cmp_Status updated) then Stop updated None else Continue updated, st3))"

definition dunning_iteration :: "dunning_engine \<Rightarrow> (string \<Rightarrow> string) \<Rightarrow> dunning_run \<Rightarrow> dunning_config \<Rightarrow> dunning_attempt_type \<Rightarrow> duration \<Rightarrow>
    int \<Rightarrow> string \<Rightarrow> dunning_campaign \<Rightarrow> 'd run_state \<Rightarrow> (dunning_turn \<times> 'd run_state) option" where
  "dunning_iteration e J inp config ty fallback n interval c st =
    (case wait_turn e (case ParseDuration interval of None \<Rightarrow> fallback | Some d \<Rightarrow> d) st of
       None \<Rightarrow> None
     | Some (Inl err, st1) \<Rightarrow> Some (Stop c (Some (InfraError err)), st1)
     | Some (Inr action, st1) \<Rightarrow>
         if action = dunningActionCancel then Some (Stop c None, st1)
         else Some (attempt_turn e J inp config ty n c st1))"

text \<open>The loop over the intervals of a phase; n is the number of the attempt.\<close>

fun dunning_phase :: "dunning_engine \<Rightarrow> (string \<Rightarrow> string) \<Rightarrow> dunning_run \<Rightarrow> dunning_config \<Rightarrow> dunning_attempt_type \<Rightarrow> duration \<Rightarrow>
    int \<Rightarrow> string list \<Rightarrow> dunning_campaign \<Rightarrow> 'd run_state \<Rightarrow> (dunning_turn \<times> 'd run_state) option" where
  "dunning_phase e J inp config ty fallback n [] c st = Some (Continue c, st)"
| "dunning_phase e J inp config ty fallback n (interval # rest) c st =
    (case dunning_iteration e J inp config ty fallback n interval c st of
       None \<Rightarrow> None
     | Some (Stop c1 err, st1) \<Rightarrow> Some (Stop c1 err, st1)
     | Some (Continue c1, st1) \<Rightarrow> dunning_phase e J inp config ty fallback (n + 1) rest c1 st1)"

definition phase_intervals :: "retries_config \<Rightarrow> string list" where
  "phase_intervals r = take (nat (rcf_MaxAttempts r)) (rcf_Intervals r)"

definition zero_campaign :: dunning_campaign where
  "zero_campaign = \<lparr> cmp_OrgId = [], cmp_Id = [], cmp_SubscriptionId = [], cmp_CustomerId = [], cmp_WorkflowId = [],
     cmp_WorkflowRunId = [], cmp_ParentWorkflowId = [], cmp_Status = DunningStatusOther [], cmp_FailedAmount = 0, cmp_Currency = [],
     cmp_InitialFailureReason = [], cmp_TotalAttempts = 0, cmp_ImmediateAttempts = 0, cmp_ProgressiveAttempts = 0,
     cmp_StartedAt = 0, cmp_LastAttemptAt = 0, cmp_NextAttemptAt = 0, cmp_CompletedAt = 0, cmp_RecoveryMethod = [],
     cmp_RecoveredAmount = 0, cmp_RecoveredAt = 0, cmp_FinalFailureReason = [], cmp_ConfigSnapshot = NoConfig,
     cmp_Metadata = Map.empty, cmp_CreatedAt = 0, cmp_UpdatedAt = 0 \<rparr>"

definition immediate_phase where
  "immediate_phase e J inp config c st =
    (if rcf_Enabled (dcf_ImmediateRetries config) \<and>
        shouldUseImmediateRetries (drn_InitialFailureReason inp) (rcf_FailureTypes (dcf_ImmediateRetries config))
     then dunning_phase e J inp config DunningAttemptTypeImmediate (5 * Minute) 1 (phase_intervals (dcf_ImmediateRetries config)) c st
     else Some (Continue c, st))"

definition progressive_phase where
  "progressive_phase e J inp config c st =
    (if rcf_Enabled (dcf_ProgressiveRetries config)
     then dunning_phase e J inp config DunningAttemptTypeProgressive (3 * 24 * Hour) 1 (phase_intervals (dcf_ProgressiveRetries config)) c st
     else Some (Continue c, st))"

definition exhaust_campaign :: "dunning_run \<Rightarrow> dunning_campaign \<Rightarrow> 'd run_state \<Rightarrow> (dunning_campaign \<times> app_error option) \<times> 'd run_state" where
  "exhaust_campaign inp c st =
    (case FailCampaignAndCancelSubscription (drn_OrgId inp) (drn_CampaignId inp) ''all_attempts_failed'' (rs_world st) of
       (Inl err, w1) \<Rightarrow> ((c, Some err), st\<lparr>rs_world := w1\<rparr>)
     | (Inr final, w1) \<Rightarrow> ((final, None), st\<lparr>rs_world := w1\<rparr>))"

definition DunningRunner :: "dunning_engine \<Rightarrow> (string \<Rightarrow> string) \<Rightarrow> dunning_run \<Rightarrow> 'd run_state \<Rightarrow>
    ((dunning_campaign \<times> app_error option) \<times> 'd run_state) option" where
  "DunningRunner e J inp st =
    (case LoadConfigForCampaign (drn_OrgId inp) (drn_CampaignId inp) (rs_world st) of
       (Inl err, w1) \<Rightarrow> Some ((zero_campaign, Some err), st\<lparr>rs_world := w1\<rparr>)
     | (Inr config, w1) \<Rightarrow>
         (case immediate_phase e J inp config (zero_campaign\<lparr>cmp_OrgId := drn_OrgId inp, cmp_Id := drn_CampaignId inp\<rparr>) (st\<lparr>rs_world := w1\<rparr>) of
            None \<Rightarrow> None
          | Some (Stop c err, st2) \<Rightarrow> Some ((c, err), st2)
          | Some (Continue c, st2) \<Rightarrow>
              (case progressive_phase e J inp config c st2 of
                 None \<Rightarrow> None
               | Some (Stop c err, st3) \<Rightarrow> Some ((c, err), st3)
               | Some (Continue c, st3) \<Rightarrow> Some (exhaust_campaign inp c st3))))"

section \<open>What a run collects\<close>

text \<open>A part of a row that the steps of a run leave as it is.\<close>

definition holds :: "('d db \<Rightarrow> 'x option) \<Rightarrow> 'x \<Rightarrow> 'd db \<Rightarrow> 'd db \<Rightarrow> bool" where
  "holds pr b d d1 \<longleftrightarrow> (pr d = Some b \<longrightarrow> pr d1 = Some b)"

interpretation held: step_relation "holds pr b" for pr b
  by unfold_locales (simp_all add: holds_def)

lemma held_other: "obeys (same_on f) m \<Longrightarrow> (\<And>d d1. f d1 = f d \<Longrightarrow> pr d1 = pr d) \<Longrightarrow> obeys (holds pr b) m"
  unfolding obeys_def same_on_def holds_def by metis

lemma held_try:
  assumes "\<And>q. found q \<Longrightarrow> obeys (holds pr b) (f q)" and "obeys (same_on pr) m"
    and "\<And>w q w1. m w = (q, w1) \<Longrightarrow> pr (w_db w) = Some b \<Longrightarrow> found q"
  shows "obeys (holds pr b) (tryS m f)"
proof (rule obeysI)
  fix w r w1
  assume run: "tryS m f w = (r, w1)"
  obtain q w0 where m: "m w = (q, w0)" by (metis surj_pair)
  have f: "f q w0 = (r, w1)" using run by (simp add: tryS_def m)
  have "found q" if "pr (w_db w) = Some b" using assms(3)[OF m that] .
  then have "pr (w_db w) = Some b \<Longrightarrow> holds pr b (w_db w0) (w_db w1)" using obeysD[OF assms(1) f] by blast
  then show "holds pr b (w_db w) (w_db w1)" using keeps[OF assms(2) m] by (simp add: holds_def)
qed

lemma bind_as_try: "bindS m f = tryS m (\<lambda>q. case q of Inl e \<Rightarrow> failS e | Inr x \<Rightarrow> f x)"
  by (intro ext) (simp add: bindS_def tryS_def failS_def split: prod.split sum.split)

type_synonym dunning_bill = "string \<times> int \<times> string"

definition bill_of :: "dunning_campaign \<Rightarrow> dunning_bill" where
  "bill_of c = (cmp_SubscriptionId c, cmp_FailedAmount c, cmp_Currency c)"

definition bill :: "string \<times> string \<Rightarrow> 'd db \<Rightarrow> dunning_bill option" where
  "bill k db = map_option bill_of (campaign_row db k)"

lemma bill_cong: "t_campaigns d1 = t_campaigns d \<Longrightarrow> bill k d1 = bill k d"
  by (simp add: bill_def)

lemma billed_other: "obeys (same_on t_campaigns) m \<Longrightarrow> obeys (holds (bill k) b) m"
  by (rule held_other, assumption, rule bill_cong)

lemma billed_find:
  assumes "\<And>c. cmp_key c = (o1, i) \<Longrightarrow> ((o1, i) = k \<Longrightarrow> bill_of c = b) \<Longrightarrow> obeys (holds (bill k) b) (f c)"
  shows "obeys (holds (bill k) b) (bindS (FindCampaignById o1 i) f)"
  unfolding bind_as_try
proof (rule held_try[where found = "\<lambda>q. \<forall>c. q = Inr c \<longrightarrow> cmp_key c = (o1, i) \<and> ((o1, i) = k \<longrightarrow> bill_of c = b)"])
  show "obeys (same_on (bill k)) (FindCampaignById o1 i)"
    unfolding FindCampaignById_def DunningRepo_FindCampaignById_def by (intro keep.obeys_intros) simp
qed (auto simp: assms FindCampaignById_def DunningRepo_FindCampaignById_def mapErrS_Inr selOne_Inr bill_def dest: find_row_key split: sum.split)

lemma billed_store:
  assumes "cmp_key c = k \<Longrightarrow> bill_of c = b"
  shows "obeys (holds (bill k) b) (store_campaign c msg topic)"
proof -
  have "holds (bill k) b d (d\<lparr>t_campaigns := update_row cmp_key cmp_merge c (t_campaigns d)\<rparr>)" for d :: "'a db"
    using assms by (auto simp: holds_def bill_def bill_of_def cmp_merge_def)
  then have "obeys (holds (bill k) b) (DunningRepo_UpdateCampaign c :: ('a, _) svc)"
    unfolding DunningRepo_UpdateCampaign_def DunningRepo_FindCampaignById_def
    by (intro held.obeys_bind held.obeys_exec) auto
  then show ?thesis unfolding store_campaign_def
    by (intro held.obeys_bind held.obeys_mapErr held.obeys_ignore billed_other[OF keep_Publish]) auto
qed

lemma billed_more: "bill_of (c\<lparr>cmp_Status := x1, cmp_FinalFailureReason := x2, cmp_CompletedAt := x3, cmp_UpdatedAt := x4\<rparr>) = bill_of c"
    "cmp_key (c\<lparr>cmp_Status := x1, cmp_FinalFailureReason := x2, cmp_CompletedAt := x3, cmp_UpdatedAt := x4\<rparr>) = cmp_key c"
    "bill_of (c\<lparr>cmp_Status := x1, cmp_RecoveryMethod := x5, cmp_RecoveredAmount := x6, cmp_RecoveredAt := x7, cmp_CompletedAt := x3, cmp_UpdatedAt := x4\<rparr>) = bill_of c"
    "cmp_key (c\<lparr>cmp_Status := x1, cmp_RecoveryMethod := x5, cmp_RecoveredAmount := x6, cmp_RecoveredAt := x7, cmp_CompletedAt := x3, cmp_UpdatedAt := x4\<rparr>) = cmp_key c"
  by (simp_all add: bill_of_def cmp_key_def)

lemma billed_marks: "obeys (holds (bill k) b) (MarkCampaignRecovered o1 i method amount)" "obeys (holds (bill k) b) (MarkCampaignFailed o1 i reason)"
  unfolding MarkCampaignRecovered_def MarkCampaignFailed_def
  by (rule billed_find, rule held.obeys_bind, simp, rule billed_store, simp add: billed_more)+

text \<open>The cycle a subscription is in; its invoice is the one that is written off.\<close>

definition cycle_of :: "subscription \<Rightarrow> string \<times> string \<times> int" where
  "cycle_of s = (sub_OrgId s, sub_Id s, sub_CyclesProcessed s)"

definition cycle_at :: "string \<times> string \<Rightarrow> 'd db \<Rightarrow> (string \<times> string \<times> int) option" where
  "cycle_at k db = map_option cycle_of (subscription_row db k)"

lemma nothing_due_cycle: "cycle_of s1 = cycle_of s \<Longrightarrow> nothing_due s1 db = nothing_due s db"
  by (simp add: cycle_of_def nothing_due_def current_invoice_def)

lemma cycle_other: "obeys (same_on t_subscriptions) m \<Longrightarrow> obeys (holds (cycle_at k) b) m"
  by (rule held_other, assumption) (simp add: cycle_at_def)

lemma cycle_store: "(sub_key s = k \<Longrightarrow> cycle_of s = b) \<Longrightarrow> obeys (holds (cycle_at k) b) (SubscriptionRepo_Update s)"
  unfolding SubscriptionRepo_Update_def SubscriptionRepo_FindById_def
  by (intro held.obeys_bind held.obeys_exec) (auto simp: holds_def cycle_at_def cycle_of_def sub_merge_def)

lemma cycle_find:
  assumes "\<And>s. sub_key s = (o1, i) \<Longrightarrow> ((o1, i) = k \<Longrightarrow> cycle_of s = b) \<Longrightarrow> obeys (holds (cycle_at k) b) (f (Inr s))"
    and "\<And>e. obeys (holds (cycle_at k) b) (f (Inl e))"
  shows "obeys (holds (cycle_at k) b) (tryS (SubscriptionRepo_FindById o1 i) f)"
proof (rule held_try[where found = "\<lambda>q. \<forall>s. q = Inr s \<longrightarrow> sub_key s = (o1, i) \<and> ((o1, i) = k \<longrightarrow> cycle_of s = b)"])
  fix q :: "app_error + subscription"
  assume "\<forall>s. q = Inr s \<longrightarrow> sub_key s = (o1, i) \<and> ((o1, i) = k \<longrightarrow> cycle_of s = b)"
  then show "obeys (holds (cycle_at k) b) (f q)" using assms by (cases q) auto
qed (auto simp: SubscriptionRepo_FindById_def selOne_Inr cycle_at_def dest: find_row_key)

lemma cycle_more: "cycle_of (s\<lparr>sub_Status := st\<rparr>) = cycle_of s" "cycle_of (s\<lparr>sub_Status := st, sub_CancelledAt := t\<rparr>) = cycle_of s"
    "sub_key (s\<lparr>sub_Status := st\<rparr>) = sub_key s" "sub_key (s\<lparr>sub_Status := st, sub_CancelledAt := t\<rparr>) = sub_key s"
  by (simp_all add: cycle_of_def sub_key_def)

lemma writeOff_keeps:
  assumes "\<And>d rows. f (d\<lparr>t_invoices := rows\<rparr>) = f d"
  shows "obeys (same_on f) (writeOffCurrentInvoice s)"
proof -
  have l: "obeys (same_on f) (InvoiceRepo_FindById a i)" "obeys (same_on f) (InvoiceRepo_FindBySubscriptionCycle a i n)" for a i n
    unfolding InvoiceRepo_FindById_def InvoiceRepo_FindBySubscriptionCycle_def with_lines_def by (auto intro!: keep.obeys_bind)
  have "obeys (same_on f) (InvoiceService_MarkUncollectible a i)" for a i
    unfolding InvoiceService_MarkUncollectible_def invoice_transition_def InvoiceRepo_Update_def
    by (auto intro!: keep.obeys_bind keep_exec l assms)
  then show ?thesis
    unfolding writeOffCurrentInvoice_def FindCurrentCycle_def
    by (auto intro!: keep.obeys_tryS keep.obeys_ignore l split: sum.split)
qed

lemma sub_writes_keep:
  assumes "\<And>d rows. f (d\<lparr>t_subscriptions := rows\<rparr>) = f d"
  shows "obeys (same_on f) (SubscriptionRepo_Update s)" "obeys (same_on f) (SubscriptionRepo_FindById o1 i)"
  unfolding SubscriptionRepo_Update_def SubscriptionRepo_FindById_def by (auto intro!: keep.obeys_bind keep_exec assms)

lemma dunning_subs_keep: "obeys (same_on t_campaigns) (reactivate c)" "obeys (same_on t_campaigns) (cancel_for_dunning s)"
    "obeys (same_on t_campaigns) (cancel_exhausted c)" "obeys (same_on t_campaigns) (suspend c)"
  unfolding reactivate_def cancel_exhausted_def suspend_def cancel_for_dunning_def Let_def
  by (auto intro!: keep.obeys_tryS keep.obeys_bind keep.obeys_ignore sub_writes_keep writeOff_keeps keep_Publish split: sum.split)

lemma billed_result: "obeys (holds (bill k) b) (UpdateCampaignWithAttemptResult a config ctx)"
  unfolding UpdateCampaignWithAttemptResult_def Let_def
  by (rule billed_find)
    (auto intro!: held.obeys_bind held.obeys_ignore billed_marks billed_other[OF keep_Publish] dunning_subs_keep[THEN billed_other])

lemma cycle_subs: "obeys (holds (cycle_at k) b) (reactivate c)" "obeys (holds (cycle_at k) b) (cancel_exhausted c)"
    "obeys (holds (cycle_at k) b) (suspend c)"
  unfolding reactivate_def cancel_exhausted_def suspend_def cancel_for_dunning_def Let_def
  by (rule cycle_find; auto intro!: held.obeys_tryS held.obeys_bind held.obeys_ignore cycle_store cycle_other[OF keep_Publish] cycle_other[OF writeOff_keeps]
      simp: cycle_more split: sum.split)+

lemma marks_keep_subs: "obeys (same_on t_subscriptions) (MarkCampaignRecovered o1 i method amount)"
    "obeys (same_on t_subscriptions) (MarkCampaignFailed o1 i reason)" "obeys (same_on t_subscriptions) (FindCampaignById o1 i)"
  unfolding MarkCampaignRecovered_def MarkCampaignFailed_def FindCampaignById_def DunningRepo_FindCampaignById_def store_campaign_def
    DunningRepo_UpdateCampaign_def
  by (auto intro!: keep.obeys_bind keep.obeys_mapErr keep.obeys_ignore keep_exec keep_Publish)

lemma cycle_result: "obeys (holds (cycle_at k) b) (UpdateCampaignWithAttemptResult a config ctx)"
  unfolding UpdateCampaignWithAttemptResult_def Let_def
  by (auto intro!: held.obeys_bind held.obeys_ignore cycle_subs marks_keep_subs[THEN cycle_other] cycle_other[OF keep_Publish])

lemma attempt_held:
  assumes "ExecuteAttempt J o1 i ty w = (r, w1)"
  shows "holds (bill k) b (w_db w) (w_db w1) \<and> t_subscriptions (w_db w1) = t_subscriptions (w_db w) \<and>
    t_invoices (w_db w1) = t_invoices (w_db w) \<and>
    map_option cmp_Status (campaign_row (w_db w1) k) = map_option cmp_Status (campaign_row (w_db w) k)"
  using runChargeAttempt_cases[OF assms[unfolded ExecuteAttempt_def]]
proof (elim disjE exE conjE)
  fix c s inp n
  assume c: "campaign_row (w_db w) (o1, i) = Some c" and rec: "recorded c ty (w_gateway w n inp) (w_db w) r (w_db w1)"
  have k: "cmp_key (counted c ty t) = (o1, i)" for t using find_row_key[OF c] by (simp add: cmp_key_def)
  have f: "bill_of (counted c ty t) = bill_of c" "cmp_Status (counted c ty t) = cmp_Status c" for t
    by (simp_all add: counted_def bill_of_def Let_def split: dunning_attempt_type.split)
  have m: "bill_of (cmp_merge old x) = bill_of x" for old x by (simp add: cmp_merge_def bill_of_def)
  from rec obtain cs ats evs where d: "w_db w1 = (w_db w)\<lparr>t_campaigns := cs, t_attempts := ats, t_outbox := evs\<rparr>"
    and cs: "cs = t_campaigns (w_db w) \<or> (\<exists>t. cs = update_row cmp_key cmp_merge (counted c ty t) (t_campaigns (w_db w)))"
    unfolding recorded_def by blast
  from cs show ?thesis
  proof (elim disjE exE)
    fix t assume "cs = update_row cmp_key cmp_merge (counted c ty t) (t_campaigns (w_db w))"
    then show ?thesis by (auto simp: d k f m c holds_def bill_def)
  qed (simp add: d holds_def bill_def)
qed (simp add: holds_def)

section \<open>Charges of a run\<close>

text \<open>The charges sent between two states, at most n, each of them for the bill of the campaign.\<close>

definition charge_for :: "string \<times> string \<Rightarrow> dunning_bill \<Rightarrow> charge_input \<Rightarrow> bool" where
  "charge_for k b inp \<longleftrightarrow> chi_OrgId inp = fst k \<and> (chi_SubscriptionId inp, chi_Amount inp, chi_Currency inp) = b"

definition collects :: "string \<times> string \<Rightarrow> dunning_bill \<Rightarrow> nat \<Rightarrow> 'd world \<Rightarrow> 'd world \<Rightarrow> bool" where
  "collects k b n w w1 \<longleftrightarrow> bill k (w_db w) = Some b \<longrightarrow>
    bill k (w_db w1) = Some b \<and> (\<exists>new. w_charges w1 = w_charges w @ new \<and> length new \<le> n \<and> (\<forall>inp\<in>set new. charge_for k b inp))"

lemma collects_trans: "collects k b n w w1 \<Longrightarrow> collects k b m w1 w2 \<Longrightarrow> n + m \<le> l \<Longrightarrow> collects k b l w w2"
proof -
  assume c: "collects k b n w w1" "collects k b m w1 w2" "n + m \<le> l"
  show ?thesis
    unfolding collects_def
  proof (intro impI)
    assume "bill k (w_db w) = Some b"
    then obtain new where w1: "bill k (w_db w1) = Some b" "w_charges w1 = w_charges w @ new" "length new \<le> n" "\<forall>inp\<in>set new. charge_for k b inp"
      using c(1) unfolding collects_def by blast
    then obtain more where w2: "bill k (w_db w2) = Some b" "w_charges w2 = w_charges w1 @ more" "length more \<le> m" "\<forall>inp\<in>set more. charge_for k b inp"
      using c(2) unfolding collects_def by blast
    show "bill k (w_db w2) = Some b \<and> (\<exists>new. w_charges w2 = w_charges w @ new \<and> length new \<le> l \<and> (\<forall>inp\<in>set new. charge_for k b inp))"
      using w1 w2 c(3) by (intro conjI exI[of _ "new @ more"]) auto
  qed
qed

lemma collects_same: "collects k b n w w"
  by (auto simp: collects_def)

lemma collects_more: "collects k b n w w1 \<Longrightarrow> n \<le> l \<Longrightarrow> collects k b l w w1"
  by (rule collects_trans[OF _ collects_same, where m = 0]) simp_all

lemma collects_silent: "obeys (holds (bill k) b) m \<Longrightarrow> silent m \<Longrightarrow> m w = (r, w1) \<Longrightarrow> collects k b 0 w w1"
  using silentD[of m w r w1] obeysD[of "holds (bill k) b" m w r w1] by (auto simp: collects_def holds_def)

lemma collects_attempt:
  assumes "ExecuteAttempt J o1 i ty w = (r, w1)"
  shows "collects (o1, i) b 1 w w1"
  unfolding collects_def
proof
  assume b: "bill (o1, i) (w_db w) = Some b"
  have "bill (o1, i) (w_db w1) = Some b" using attempt_held[OF assms, of "(o1, i)" b] b by (simp add: holds_def)
  moreover have "\<exists>new. w_charges w1 = w_charges w @ new \<and> length new \<le> 1 \<and> (\<forall>inp\<in>set new. charge_for (o1, i) b inp)"
    using runChargeAttempt_cases[OF assms[unfolded ExecuteAttempt_def]]
  proof (elim disjE exE conjE)
    fix c s inp n
    assume "campaign_row (w_db w) (o1, i) = Some c" "subscription_row (w_db w) (o1, cmp_SubscriptionId c) = Some s" "attempt_charge o1 c s inp"
      and ch: "w_charges w1 = w_charges w @ [inp]"
    moreover have "sub_Id s = cmp_SubscriptionId c" using find_row_key[OF calculation(2)] by (simp add: sub_key_def)
    ultimately have "charge_for (o1, i) b inp" using b by (auto simp: charge_for_def attempt_charge_def bill_def bill_of_def)
    then show ?thesis using ch by (intro exI[of _ "[inp]"]) simp
  qed simp
  ultimately show "bill (o1, i) (w_db w1) = Some b \<and> (\<exists>new. w_charges w1 = w_charges w @ new \<and> length new \<le> 1 \<and> (\<forall>inp\<in>set new. charge_for (o1, i) b inp))" ..
qed

lemma silent_dunning_writes [silence]: "silent (SubscriptionRepo_Update s)" "silent (SubscriptionRepo_FindById o1 i)"
    "silent (FindCampaignById o1 i)" "silent (store_campaign c msg topic)" "silent (writeOffCurrentInvoice s)"
proof -
  have "silent (InvoiceService_MarkUncollectible a i)" for a i
    unfolding InvoiceService_MarkUncollectible_def invoice_transition_def by (intro silence)
  then show "silent (writeOffCurrentInvoice s)" unfolding writeOffCurrentInvoice_def FindCurrentCycle_def
    by (intro silence) (auto split: sum.split intro!: silence)
qed (auto simp: SubscriptionRepo_Update_def SubscriptionRepo_FindById_def FindCampaignById_def DunningRepo_FindCampaignById_def
    store_campaign_def DunningRepo_UpdateCampaign_def intro!: silence)

lemma silent_dunning_steps [silence]: "silent (MarkCampaignRecovered o1 i method amount)" "silent (MarkCampaignFailed o1 i reason)"
    "silent (reactivate c)" "silent (cancel_for_dunning s)" "silent (suspend c)" "silent (SendCommunication o1 i n)" "silent (ResolveConfig o1)"
  unfolding MarkCampaignRecovered_def MarkCampaignFailed_def reactivate_def cancel_for_dunning_def suspend_def SendCommunication_def
    ResolveConfig_def DunningRepo_FindConfigurationsByPriority_def Let_def
  by (auto intro!: silence split: sum.split)

lemma silent_dunning_tasks: "silent (UpdateCampaignWithAttemptResult a config ctx)" "silent (FailCampaignAndCancelSubscription o1 i reason)"
    "silent (LoadConfigForCampaign o1 i)"
  unfolding UpdateCampaignWithAttemptResult_def cancel_exhausted_def FailCampaignAndCancelSubscription_def LoadConfigForCampaign_def Let_def
  by (auto intro!: silence split: sum.split)

lemma billed_fail: "obeys (holds (bill k) b) (FailCampaignAndCancelSubscription o1 i reason)"
proof -
  have "obeys (same_on t_campaigns) (tryS (SubscriptionRepo_FindById o1 x) (\<lambda>r. case r of Inl _ \<Rightarrow> retS ()
      | Inr s \<Rightarrow> bindS (if sub_Status s \<noteq> SubscriptionStatusCancelled then cancel_for_dunning s else retS s) writeOffCurrentInvoice))" for x
    by (auto intro!: keep.obeys_tryS keep.obeys_bind sub_writes_keep dunning_subs_keep writeOff_keeps split: sum.split)
  then show ?thesis
    unfolding FailCampaignAndCancelSubscription_def by (intro billed_find held.obeys_bind billed_other billed_marks)
qed

lemma billed_tasks: "obeys (holds (bill k) b) (SendCommunication o1 i n)" "obeys (holds (bill k) b) (LoadConfigForCampaign o1 i)"
  unfolding SendCommunication_def LoadConfigForCampaign_def ResolveConfig_def DunningRepo_FindConfigurationsByPriority_def
  by (rule billed_find; auto intro!: held.obeys_tryS billed_other[OF keep_Publish] split: sum.split)+

lemma rerun_collects:
  assumes "\<And>w r w1. m w = (r, w1) \<Longrightarrow> collects k b n w w1" and "rerun j m w = (r, w1)"
  shows "collects k b ((1 + j) * n) w w1"
  using assms(2)
proof (induction j arbitrary: w)
  case 0
  then show ?case using assms(1)[of w r w1] by simp
next
  case (Suc j)
  obtain q w0 where m: "m w = (q, w0)" by (metis surj_pair)
  have c: "collects k b n w w0" by (rule assms(1)[OF m])
  show ?case
  proof (cases q)
    case (Inl err)
    then have "collects k b ((1 + j) * n) w0 w1" using Suc by (simp add: m)
    then show ?thesis by (rule collects_trans[OF c]) simp
  next
    case (Inr x)
    then have "w1 = w0" using Suc.prems by (simp add: m)
    then show ?thesis using collects_more[OF c] by simp
  qed
qed

lemma child_collects:
  assumes "\<And>w r w1. m w = (r, w1) \<Longrightarrow> collects k b n w w1" and "child_task e j m st = (r, st1)"
  shows "collects k b ((1 + j) * n) (rs_world st) (rs_world st1)"
proof -
  obtain q w1 where run: "rerun (min j (den_reruns e (rs_tasks st))) m (rs_world st) = (q, w1)" by (metis surj_pair)
  have w1: "rs_world st1 = w1" using assms(2) run by (auto simp: child_task_def)
  have c: "collects k b ((1 + min j (den_reruns e (rs_tasks st))) * n) (rs_world st) w1"
    by (rule rerun_collects[OF _ run]) (rule assms(1))
  show ?thesis unfolding w1 by (rule collects_more[OF c]) simp
qed

lemma quiet_child: "obeys (holds (bill k) b) m \<Longrightarrow> silent m \<Longrightarrow> child_task e j m st = (r, st1) \<Longrightarrow> collects k b 0 (rs_world st) (rs_world st1)"
  using child_collects[of m k b 0 e j st r st1] collects_silent[of k b m] by simp

lemma attempt_turn_collects:
  assumes "attempt_turn e J inp config ty n c st = (t, st1)"
  shows "collects (drn_OrgId inp, drn_CampaignId inp) b 11 (rs_world st) (rs_world st1)"
proof -
  let ?k = "(drn_OrgId inp, drn_CampaignId inp)"
  define s1 where "s1 = (if ty = DunningAttemptTypeProgressive
      then snd (runDunningCommunication e (drn_OrgId inp) (drn_CampaignId inp) n st) else st)"
  have 1: "collects ?k b 0 (rs_world st) (rs_world s1)"
    using quiet_child[OF billed_tasks(1) silent_dunning_steps(6), where j = 3 and st = st and e = e]
    by (auto simp: s1_def collects_same message_runs) (metis prod.collapse)
  obtain q s2 where att: "child_task e 10 (ExecuteAttempt J (drn_OrgId inp) (drn_CampaignId inp) ty) s1 = (q, s2)" by (metis surj_pair)
  have 2: "collects ?k b 11 (rs_world s1) (rs_world s2)"
    using child_collects[OF collects_attempt[where b = b] att] by simp
  note 12 = collects_trans[OF 1 2, of 11, simplified]
  show ?thesis
  proof (cases q)
    case (Inl err)
    then show ?thesis using assms att 12 by (simp add: attempt_turn_def charge_runs s1_def[symmetric])
  next
    case (Inr a)
    let ?ctx = "\<lparr> dac_AttemptNumber = n, dac_WasSubscriptionSuspended =
      (ty = DunningAttemptTypeProgressive \<and> reached (esc_SuspendAfterAttempt (dcf_EscalationRules config)) n) \<rparr>"
    obtain q3 s3 where res: "child_task e 5 (UpdateCampaignWithAttemptResult a config ?ctx) s2 = (q3, s3)" by (metis surj_pair)
    have "collects ?k b 0 (rs_world s2) (rs_world s3)" by (rule quiet_child[OF billed_result silent_dunning_tasks(1) res])
    moreover have "st1 = s3" using assms att res Inr by (cases q3) (simp_all add: attempt_turn_def charge_runs s1_def[symmetric] Let_def)
    ultimately show ?thesis using collects_trans[OF 12] by simp
  qed
qed

section \<open>The end of a run\<close>

text \<open>A paused campaign is resumed or cancelled in the end: its wait answers with one of the
  two keys it waits for, or with an error.\<close>

definition answered :: "dunning_engine \<Rightarrow> bool" where
  "answered e \<longleftrightarrow> (\<forall>n keys. den_resume e n = Inr keys \<longrightarrow> Key_cancel \<in> set keys \<or> Key_resume \<in> set keys)"

lemma waitForResume_ends: "answered e \<Longrightarrow> \<exists>q st1. waitForResume e st = Some (q, st1) \<and> rs_world st1 = rs_world st"
  by (subst waitForResume.simps) (auto simp: answered_def Let_def split: sum.split)

lemma wait_turn_ends: "answered e \<Longrightarrow> \<exists>q st1. wait_turn e wait st = Some (q, st1) \<and> rs_world st1 = rs_world st"
proof -
  assume a: "answered e"
  obtain q st1 where w: "awaitDunningInterval e wait st = (q, st1)" by (metis surj_pair)
  have "rs_world st1 = rs_world st" using w by (auto simp: awaitDunningInterval_def Let_def split: sum.splits)
  then show ?thesis using waitForResume_ends[OF a, of st1]
    by (cases q) (auto simp: wait_turn_def w split: dunning_action.split)
qed

lemma iteration_ends:
  assumes "answered e"
  shows "\<exists>t st1. dunning_iteration e J inp config ty fallback n interval c st = Some (t, st1) \<and>
    collects (drn_OrgId inp, drn_CampaignId inp) b 11 (rs_world st) (rs_world st1)"
proof -
  let ?k = "(drn_OrgId inp, drn_CampaignId inp)"
  obtain q st1 where w: "wait_turn e (case ParseDuration interval of None \<Rightarrow> fallback | Some d \<Rightarrow> d) st = Some (q, st1)"
    and same: "rs_world st1 = rs_world st" using wait_turn_ends[OF assms] by blast
  have none: "collects ?k b 11 (rs_world st) (rs_world st1)" unfolding same by (rule collects_same)
  obtain t st2 where t: "attempt_turn e J inp config ty n c st1 = (t, st2)" by (metis surj_pair)
  have "collects ?k b 11 (rs_world st) (rs_world st2)" using attempt_turn_collects[OF t, of b] same by simp
  then show ?thesis using none by (cases q) (auto simp: dunning_iteration_def w t)
qed

lemma phase_ends:
  assumes "answered e"
  shows "\<exists>t st1. dunning_phase e J inp config ty fallback n intervals c st = Some (t, st1) \<and>
    collects (drn_OrgId inp, drn_CampaignId inp) b (11 * length intervals) (rs_world st) (rs_world st1)"
proof (induction intervals arbitrary: n c st)
  case (Cons i rest)
  obtain t st1 where it: "dunning_iteration e J inp config ty fallback n i c st = Some (t, st1)"
    and c1: "collects (drn_OrgId inp, drn_CampaignId inp) b 11 (rs_world st) (rs_world st1)" using iteration_ends[OF assms] by blast
  show ?case
  proof (cases t)
    case (Stop c1 err)
    then show ?thesis using it collects_more[OF c1, of "11 * length (i # rest)"] by simp
  next
    case (Continue c2)
    obtain t2 st2 where "dunning_phase e J inp config ty fallback (n + 1) rest c2 st1 = Some (t2, st2)"
      and "collects (drn_OrgId inp, drn_CampaignId inp) b (11 * length rest) (rs_world st1) (rs_world st2)" using Cons.IH by blast
    then show ?thesis using it Continue collects_trans[OF c1] by simp
  qed
qed (simp add: collects_same)

definition planned_immediate where
  "planned_immediate inp config = (if rcf_Enabled (dcf_ImmediateRetries config) \<and>
      shouldUseImmediateRetries (drn_InitialFailureReason inp) (rcf_FailureTypes (dcf_ImmediateRetries config))
    then length (phase_intervals (dcf_ImmediateRetries config)) else 0)"

definition planned_progressive where
  "planned_progressive config = (if rcf_Enabled (dcf_ProgressiveRetries config) then length (phase_intervals (dcf_ProgressiveRetries config)) else 0)"

definition planned_attempts :: "dunning_run \<Rightarrow> dunning_config \<Rightarrow> nat" where
  "planned_attempts inp config = planned_immediate inp config + planned_progressive config"

lemma phase_if:
  assumes "answered e"
  shows "\<exists>t st1. (if p then dunning_phase e J inp config ty fallback n xs c st else Some (Continue c, st)) = Some (t, st1) \<and>
      collects (drn_OrgId inp, drn_CampaignId inp) b (11 * (if p then length xs else 0)) (rs_world st) (rs_world st1)"
  by (cases p) (use phase_ends[OF assms] in \<open>simp_all add: collects_same\<close>)

lemma phases_end:
  assumes "answered e"
  shows "\<exists>t st1. immediate_phase e J inp config c st = Some (t, st1) \<and>
      collects (drn_OrgId inp, drn_CampaignId inp) b (11 * planned_immediate inp config) (rs_world st) (rs_world st1)"
    and "\<exists>t st1. progressive_phase e J inp config c st = Some (t, st1) \<and>
      collects (drn_OrgId inp, drn_CampaignId inp) b (11 * planned_progressive config) (rs_world st) (rs_world st1)"
  unfolding immediate_phase_def progressive_phase_def planned_immediate_def planned_progressive_def
  by (rule phase_if[OF assms])+

lemma exhaust_collects: "collects (drn_OrgId inp, drn_CampaignId inp) b 0 (rs_world st) (rs_world (snd (exhaust_campaign inp c st)))"
proof -
  obtain q w1 where f: "FailCampaignAndCancelSubscription (drn_OrgId inp) (drn_CampaignId inp) ''all_attempts_failed'' (rs_world st) = (q, w1)"
    by (metis surj_pair)
  have "rs_world (snd (exhaust_campaign inp c st)) = w1" by (cases q) (simp_all add: exhaust_campaign_def f)
  then show ?thesis using collects_silent[OF billed_fail silent_dunning_tasks(2) f] by simp
qed

text \<open>C23: The run of a campaign ends once every pause is answered, and for the attempts the
  campaign's policy plans it sends at most eleven charges each (the task is retried ten
  times), every one for the amount, currency and subscription of the campaign.\<close>

theorem dunning_run_bounded:
  assumes "answered e" and "bill (drn_OrgId inp, drn_CampaignId inp) (w_db (rs_world st)) = Some b"
  shows "\<exists>res st1 new. DunningRunner e J inp st = Some (res, st1) \<and> w_charges (rs_world st1) = w_charges (rs_world st) @ new \<and>
    (\<forall>charge\<in>set new. charge_for (drn_OrgId inp, drn_CampaignId inp) b charge) \<and>
    length new \<le> (case fst (LoadConfigForCampaign (drn_OrgId inp) (drn_CampaignId inp) (rs_world st)) of
       Inl _ \<Rightarrow> 0 | Inr config \<Rightarrow> 11 * planned_attempts inp config)"
proof -
  let ?k = "(drn_OrgId inp, drn_CampaignId inp)"
  let ?c = "zero_campaign\<lparr>cmp_OrgId := drn_OrgId inp, cmp_Id := drn_CampaignId inp\<rparr>"
  obtain q w1 where l: "LoadConfigForCampaign (drn_OrgId inp) (drn_CampaignId inp) (rs_world st) = (q, w1)" by (metis surj_pair)
  have 0: "collects ?k b 0 (rs_world st) w1" by (rule collects_silent[OF billed_tasks(2) silent_dunning_tasks(3) l])
  have "\<exists>res st1. DunningRunner e J inp st = Some (res, st1) \<and>
      collects ?k b (case q of Inl _ \<Rightarrow> 0 | Inr config \<Rightarrow> 11 * planned_attempts inp config) (rs_world st) (rs_world st1)"
  proof (cases q)
    case (Inr config)
    obtain t2 st2 where p1: "immediate_phase e J inp config ?c (st\<lparr>rs_world := w1\<rparr>) = Some (t2, st2)"
      and c1: "collects ?k b (11 * planned_immediate inp config) w1 (rs_world st2)"
      using phases_end(1)[OF assms(1), where st = "st\<lparr>rs_world := w1\<rparr>"] by fastforce
    have c2: "collects ?k b (11 * planned_immediate inp config) (rs_world st) (rs_world st2)" by (rule collects_trans[OF 0 c1]) simp
    show ?thesis
    proof (cases t2)
      case (Stop c err)
      then show ?thesis using collects_more[OF c2, of "11 * planned_attempts inp config"] by (simp add: DunningRunner_def l Inr p1 planned_attempts_def)
    next
      case (Continue c)
      obtain t3 st3 where p2: "progressive_phase e J inp config c st2 = Some (t3, st3)"
        and p: "collects ?k b (11 * planned_progressive config) (rs_world st2) (rs_world st3)" using phases_end(2)[OF assms(1)] by blast
      have c3: "collects ?k b (11 * planned_attempts inp config) (rs_world st) (rs_world st3)"
        by (rule collects_trans[OF c2 p]) (simp add: planned_attempts_def)
      show ?thesis
      proof (cases t3)
        case (Continue c4)
        obtain res st4 where ex: "exhaust_campaign inp c4 st3 = (res, st4)" by (metis surj_pair)
        have "collects ?k b (11 * planned_attempts inp config) (rs_world st) (rs_world st4)"
          using collects_trans[OF c3 exhaust_collects[of inp b st3 c4]] by (simp add: ex)
        then show ?thesis using \<open>t2 = _\<close> Continue by (simp add: DunningRunner_def l Inr p1 p2 ex)
      qed (use c3 Continue in \<open>simp add: DunningRunner_def l Inr p1 p2\<close>)
    qed
  qed (use 0 in \<open>simp add: DunningRunner_def l\<close>)
  then show ?thesis using assms(2) unfolding collects_def l fst_conv by blast
qed

section \<open>How a run leaves campaign and subscription\<close>

text \<open>A campaign of the run before its end, with the subscription it collects for.\<close>

definition ongoing :: "string \<times> string \<Rightarrow> dunning_bill \<Rightarrow> string \<times> string \<times> int \<Rightarrow> dunning_status \<Rightarrow> 'd world \<Rightarrow> bool" where
  "ongoing k b cy st w \<longleftrightarrow> calm w \<and> bill k (w_db w) = Some b \<and> cycle_at (fst k, fst b) (w_db w) = Some cy \<and>
     invoices_distinct (w_db w) \<and> map_option cmp_Status (campaign_row (w_db w) k) = Some st"

definition ended :: "string \<times> string \<Rightarrow> dunning_bill \<Rightarrow> dunning_status \<Rightarrow> 'd world \<Rightarrow> bool" where
  "ended k b st w \<longleftrightarrow> (\<exists>s. subscription_row (w_db w) (fst k, fst b) = Some s \<and>
     (\<exists>c1. campaign_row (w_db w) k = Some c1 \<and> cmp_Status c1 = st) \<and>
     (st = DunningStatusRecovered \<or> st = DunningStatusFailed \<and> sub_Status s = SubscriptionStatusCancelled \<and> nothing_due s (w_db w)))"

lemma runs_ExecuteAttempt: "runs (ExecuteAttempt J o1 i ty) db (\<lambda>_ _. True)"
proof -
  have rows: "runs (DunningRepo_CreateAttempt a) d (\<lambda>_ _. True)" "runs (DunningRepo_UpdateCampaign c) d (\<lambda>_ _. True)" for a c d
    unfolding DunningRepo_CreateAttempt_def DunningRepo_UpdateCampaign_def DunningRepo_FindCampaignById_def
    by (auto intro!: runsI split: option.split)
  have rec: "runs (record_attempt J o1 c s pm ty tb t r) d (\<lambda>_ _. True)" for c s pm tb t r d
    unfolding record_attempt_def Let_def
    by (rule runs_bind, rule runs_clock, simp only: sum.case, rule runs_bind, rule runs_clock, simp only: sum.case,
        rule runs_bind, rule runs_mapErr, rule runs_weaken[OF rows(1)])
      (auto intro!: runs_bind runs_ignore runs_weaken[OF rows(2)] runs_Publish runs_ret split: sum.split)
  have "runs (attempt_setup o1 i x) db (\<lambda>_ _. True)" for x
    unfolding attempt_setup_def Let_def FindCampaignById_def DunningRepo_FindCampaignById_def SubscriptionRepo_FindById_def
      CustomerRepo_FindById_def CustomerRepo_FindPaymentMethodById_def
    by (auto intro!: runsI split: option.split sum.split)
  then show ?thesis
    unfolding ExecuteAttempt_def runChargeAttempt_def
    by (rule runs_bind[OF runs_weaken]) (auto intro!: runsI rec split: sum.split)
qed

lemma attempt_stands:
  assumes "ongoing k b cy st w" and "ExecuteAttempt J (fst k) (snd k) ty w = (r, w1)"
  shows "ongoing k b cy st w1 \<and> (\<forall>a. r = Inr a \<longrightarrow> (att_OrgId a, att_DunningCampaignId a) = k)"
proof -
  have "calm w1" using runsD[OF runs_ExecuteAttempt assms(2)] assms(1) by (simp add: ongoing_def)
  moreover note h = attempt_held[OF assms(2), of k b]
  moreover have "(att_OrgId a, att_DunningCampaignId a) = k" if "r = Inr a" for a
    using runChargeAttempt_cases[OF assms(2)[unfolded ExecuteAttempt_def]] that
    by (auto simp: recorded_def cmp_key_def dest!: find_row_key[of cmp_key])
  ultimately show ?thesis using assms(1) by (auto simp: ongoing_def holds_def cycle_at_def invoices_distinct_def)
qed

lemma message_stands: "ongoing k b cy st w \<Longrightarrow> SendCommunication o1 i n w = (r, w1) \<Longrightarrow> ongoing k b cy st w1"
proof -
  assume s: "ongoing k b cy st w" and run: "SendCommunication o1 i n w = (r, w1)"
  have "runs (SendCommunication o1 i n) (w_db w) (\<lambda>_ d. \<exists>evs. d = (w_db w)\<lparr>t_outbox := evs\<rparr>)"
    unfolding SendCommunication_def FindCampaignById_def
    by (intro runsI) (auto intro!: runsI intro: exI[of _ "t_outbox (w_db w)"] split: option.split)
  from runsD[OF this run] s obtain evs where "calm w1" "w_db w1 = (w_db w)\<lparr>t_outbox := evs\<rparr>" unfolding ongoing_def by blast
  then show ?thesis using s by (simp add: ongoing_def bill_def cycle_at_def)
qed

lemma config_stands: "ongoing k b cy st w \<Longrightarrow> LoadConfigForCampaign o1 i w = (r, w1) \<Longrightarrow> ongoing k b cy st w1"
proof -
  assume s: "ongoing k b cy st w" and run: "LoadConfigForCampaign o1 i w = (r, w1)"
  have res: "runs (ResolveConfig o1) (w_db w) (\<lambda>_ d. d = w_db w)"
    unfolding ResolveConfig_def DunningRepo_FindConfigurationsByPriority_def by (intro runsI) (auto intro!: runsI)
  have "runs (LoadConfigForCampaign o1 i) (w_db w) (\<lambda>_ d. d = w_db w)"
    unfolding LoadConfigForCampaign_def FindCampaignById_def
    by (intro runsI) (auto intro!: runsI res split: option.split sum.split)
  from runsD[OF this run] s show ?thesis by (simp add: ongoing_def)
qed

lemma ongoing_rows:
  assumes "ongoing k b cy st w"
  shows "\<exists>c s. campaign_row (w_db w) k = Some c \<and> cmp_key c = k \<and> cmp_OrgId c = fst k \<and> cmp_SubscriptionId c = fst b \<and> cmp_Status c = st \<and>
    subscription_row (w_db w) (fst k, fst b) = Some s \<and> cycle_of s = cy"
proof -
  obtain c s where c: "campaign_row (w_db w) k = Some c" "bill_of c = b" "cmp_Status c = st"
    and s: "subscription_row (w_db w) (fst k, fst b) = Some s" "cycle_of s = cy"
    using assms by (auto simp: ongoing_def bill_def cycle_at_def)
  have "cmp_key c = k" using find_row_key[OF c(1)] by simp
  then show ?thesis using c s by (auto simp: bill_of_def cmp_key_def)
qed

lemma nothing_due_later:
  assumes "cycle_at sk db = Some (cycle_of s)" and "nothing_due s db"
  shows "\<exists>s1. subscription_row db sk = Some s1 \<and> nothing_due s1 db"
proof -
  obtain s1 where "subscription_row db sk = Some s1" "cycle_of s1 = cycle_of s" using assms(1) by (auto simp: cycle_at_def)
  then show ?thesis using nothing_due_cycle assms(2) by blast
qed

lemma view_rows: "dunning_view sk ck db = Some v \<Longrightarrow>
    \<exists>s c. subscription_row db sk = Some s \<and> campaign_row db ck = Some c \<and> sub_Status s = fst v \<and> cmp_Status c = snd v"
  by (auto simp: dunning_view_def split: option.splits)

lemma cycle_fail: "obeys (holds (cycle_at k) b) (FailCampaignAndCancelSubscription o1 i reason)"
proof -
  have "obeys (holds (cycle_at k) b) (tryS (SubscriptionRepo_FindById o1 x) (\<lambda>r. case r of Inl _ \<Rightarrow> retS ()
      | Inr s \<Rightarrow> bindS (if sub_Status s \<noteq> SubscriptionStatusCancelled then cancel_for_dunning s else retS s) writeOffCurrentInvoice))" for x
    unfolding cancel_for_dunning_def Let_def
    by (rule cycle_find) (auto intro!: held.obeys_bind held.obeys_ignore cycle_store cycle_other[OF writeOff_keeps] simp: cycle_more)
  then show ?thesis
    unfolding FailCampaignAndCancelSubscription_def by (intro held.obeys_bind marks_keep_subs[THEN cycle_other])
qed

lemma result_stands:
  assumes st: "ongoing k b cy st w" and a: "(att_OrgId a, att_DunningCampaignId a) = k"
    and run: "UpdateCampaignWithAttemptResult a config ctx w = (r, w1)"
  shows "\<exists>c1. r = Inr c1 \<and> (cmp_Status c1 = st \<and> ongoing k b cy st w1 \<or> ended k b (cmp_Status c1) w1)"
proof -
  obtain c s where c: "campaign_row (w_db w) k = Some c" "cmp_key c = k" "cmp_OrgId c = fst k" "cmp_SubscriptionId c = fst b" "cmp_Status c = st"
    and s: "subscription_row (w_db w) (fst k, fst b) = Some s" "cycle_of s = cy" using ongoing_rows[OF st] by blast
  let ?v = "escalate (att_Status a = PaymentStatusSucceeded) (dcf_EscalationRules config) ctx (sub_Status s, st)"
  have "calm w1 \<and> result_applied a config ctx s c (w_db w) r (w_db w1)"
    by (rule runsD[OF runs_result run]) (use st c s a in \<open>simp_all add: ongoing_def\<close>)
  then have after: "calm w1" "invoices_distinct (w_db w1)" "dunning_view (fst k, fst b) k (w_db w1) = Some ?v"
      "\<exists>c1. r = Inr c1 \<and> cmp_Status c1 = snd ?v"
      "att_Status a \<noteq> PaymentStatusSucceeded \<Longrightarrow> reached (esc_CancelAfterAttempt (dcf_EscalationRules config)) (dac_AttemptNumber ctx) \<Longrightarrow> nothing_due s (w_db w1)"
    using c by (auto simp: result_applied_def Let_def)
  have kept: "bill k (w_db w1) = Some b" "cycle_at (fst k, fst b) (w_db w1) = Some cy"
    using obeysD[OF billed_result[of k b] run] obeysD[OF cycle_result[of "(fst k, fst b)" cy] run] st by (auto simp: holds_def ongoing_def)
  obtain s1 c2 where rows: "subscription_row (w_db w1) (fst k, fst b) = Some s1" "sub_Status s1 = fst ?v"
    "campaign_row (w_db w1) k = Some c2" "cmp_Status c2 = snd ?v"
    using view_rows[OF after(3)] by blast
  have due: "nothing_due s1 (w_db w1)" if "nothing_due s (w_db w1)"
    using nothing_due_later[of "(fst k, fst b)" "w_db w1" s] that kept(2) s(2) rows(1) by simp
  show ?thesis
  proof (cases "snd ?v = st")
    case True
    then show ?thesis using after kept rows(3,4) by (auto simp: ongoing_def)
  next
    case False
    then have "ended k b (snd ?v) w1"
      using rows after(5) due by (auto simp: ended_def escalate_def split: if_splits)
    then show ?thesis using after(4) by auto
  qed
qed

lemma exhaust_ends:
  assumes st: "ongoing k b cy cst (rs_world st)" and k: "k = (drn_OrgId inp, drn_CampaignId inp)"
    and run: "exhaust_campaign inp c st = ((c1, err), st1)"
  shows "err = None \<and> ended k b (cmp_Status c1) (rs_world st1)"
proof -
  obtain c0 s where c: "campaign_row (w_db (rs_world st)) k = Some c0" "cmp_SubscriptionId c0 = fst b"
    and s: "subscription_row (w_db (rs_world st)) (fst k, fst b) = Some s" "cycle_of s = cy" using ongoing_rows[OF st] by blast
  obtain q w1 where f: "FailCampaignAndCancelSubscription (drn_OrgId inp) (drn_CampaignId inp) ''all_attempts_failed'' (rs_world st) = (q, w1)"
    by (metis surj_pair)
  have "calm w1 \<and> (invoices_distinct (w_db w1) \<and> nothing_due s (w_db w1) \<and> t_payments (w_db w1) = t_payments (w_db (rs_world st)) \<and>
      dunning_view (drn_OrgId inp, cmp_SubscriptionId c0) (drn_OrgId inp, drn_CampaignId inp) (w_db w1) = Some (SubscriptionStatusCancelled, DunningStatusFailed) \<and>
      (\<exists>c1. q = Inr c1 \<and> cmp_Status c1 = DunningStatusFailed))"
    by (rule runsD[OF runs_FailCampaign f]) (use st c s in \<open>simp_all add: ongoing_def k\<close>)
  then have after: "nothing_due s (w_db w1)" "dunning_view (fst k, fst b) k (w_db w1) = Some (SubscriptionStatusCancelled, DunningStatusFailed)"
    "\<exists>c1. q = Inr c1 \<and> cmp_Status c1 = DunningStatusFailed" using c(2) by (simp_all add: k)
  have "cycle_at (fst k, fst b) (w_db w1) = Some (cycle_of s)"
    using obeysD[OF cycle_fail[of "(fst k, fst b)" cy] f] st s(2) by (simp add: holds_def ongoing_def)
  note due = nothing_due_later[OF this after(1)]
  obtain c2 where q: "q = Inr c2" "cmp_Status c2 = DunningStatusFailed" using after(3) by blast
  then have st1: "c1 = c2" "err = None" "rs_world st1 = w1" using run f by (auto simp: exhaust_campaign_def)
  show ?thesis using view_rows[OF after(2)] due q st1 by (auto simp: ended_def)
qed

definition cancel_seen :: "dunning_engine \<Rightarrow> bool" where
  "cancel_seen e \<longleftrightarrow> (\<exists>n wait keys. den_wait e n wait = Inr keys \<and> Key_cancel \<in> set keys) \<or>
     (\<exists>n keys. den_resume e n = Inr keys \<and> Key_cancel \<in> set keys)"

lemma waitForResume_result:
  assumes "waitForResume e st = Some y"
  shows "rs_world (snd y) = rs_world st \<and> (fst y = Inr dunningActionCancel \<longrightarrow> cancel_seen e)"
proof (rule waitForResume.raw_induct[where P = "\<lambda>e st y. rs_world (snd y) = rs_world st \<and> (fst y = Inr dunningActionCancel \<longrightarrow> cancel_seen e)", OF _ assms], goal_cases)
  case (1 rec e st y)
  let ?st = "st\<lparr>rs_waits := Suc (rs_waits st)\<rparr>"
  show ?case
  proof (cases "den_resume e (rs_waits st)")
    case (Inl err)
    then show ?thesis using 1 by (auto simp: Let_def)
  next
    case (Inr keys)
    then show ?thesis using 1(1)[of e ?st y] 1(2) by (auto simp: cancel_seen_def Let_def split: if_splits)
  qed
qed

lemma wait_turn_result:
  assumes "wait_turn e wait st = Some (q, st1)"
  shows "rs_world st1 = rs_world st \<and> (q = Inr dunningActionCancel \<longrightarrow> cancel_seen e)"
proof -
  obtain q0 st0 where w: "awaitDunningInterval e wait st = (q0, st0)" by (metis surj_pair)
  have a: "rs_world st0 = rs_world st \<and> (q0 = Inr dunningActionCancel \<longrightarrow> cancel_seen e)"
    using w by (auto simp: awaitDunningInterval_def Let_def cancel_seen_def split: sum.splits if_splits)
  show ?thesis
  proof (cases "q0 = Inr dunningActionPaused")
    case True
    then show ?thesis using waitForResume_result[of e st0 "(q, st1)"] assms a by (simp add: wait_turn_def w)
  next
    case False
    then have "q = q0 \<and> st1 = st0" using assms by (auto simp: wait_turn_def w split: sum.splits dunning_action.splits)
    then show ?thesis using a by simp
  qed
qed

lemma rerun_stands:
  assumes "\<And>w r w1. P w \<Longrightarrow> m w = (r, w1) \<Longrightarrow> P w1 \<and> (\<forall>x. r = Inr x \<longrightarrow> Q x)" and "P w" and "rerun j m w = (r, w1)"
  shows "P w1 \<and> (\<forall>x. r = Inr x \<longrightarrow> Q x)"
  using assms(2,3)
proof (induction j arbitrary: w)
  case (Suc j)
  obtain q w0 where m: "m w = (q, w0)" by (metis surj_pair)
  then show ?case using Suc assms(1)[OF Suc.prems(1) m] by (cases q) auto
qed (use assms(1) in auto)

lemma rerun_Inr: "m w = (Inr x, w1) \<Longrightarrow> rerun j m w = (Inr x, w1)"
  by (cases j) simp_all

lemma child_stands:
  assumes "\<And>w r w1. P w \<Longrightarrow> m w = (r, w1) \<Longrightarrow> P w1 \<and> (\<forall>x. r = Inr x \<longrightarrow> Q x)" and "P (rs_world st)"
    and "child_task e j m st = (r, st1)"
  shows "P (rs_world st1) \<and> (\<forall>x. r = Inr x \<longrightarrow> Q x)"
proof -
  obtain q w1 where run: "rerun (min j (den_reruns e (rs_tasks st))) m (rs_world st) = (q, w1)" by (metis surj_pair)
  have "P w1 \<and> (\<forall>x. q = Inr x \<longrightarrow> Q x)"
  proof (rule rerun_stands[where P = P and Q = Q and m = m and w = "rs_world st" and j = "min j (den_reruns e (rs_tasks st))"])
    show "rerun (min j (den_reruns e (rs_tasks st))) m (rs_world st) = (q, w1)" by (rule run)
  qed (use assms(1,2) in blast)+
  then show ?thesis using assms(3) run by (auto simp: child_task_def)
qed

text \<open>What a turn or a phase may leave: the campaign ongoing, or ended for good.\<close>

definition turn_ok :: "string \<times> string \<Rightarrow> dunning_bill \<Rightarrow> string \<times> string \<times> int \<Rightarrow> dunning_status \<Rightarrow> bool \<Rightarrow> dunning_turn \<Rightarrow> 'd world \<Rightarrow> bool" where
  "turn_ok k b cy cst cancelled t w \<longleftrightarrow> (case t of Continue _ \<Rightarrow> ongoing k b cy cst w
     | Stop c None \<Rightarrow> ended k b (cmp_Status c) w \<or> cancelled \<and> ongoing k b cy cst w
     | Stop _ (Some _) \<Rightarrow> True)"

lemma attempt_turn_ok:
  assumes st: "ongoing k b cy cst (rs_world st)" and k: "k = (drn_OrgId inp, drn_CampaignId inp)"
    and active: "\<not> isDunningTerminal cst" and run: "attempt_turn e J inp config ty n c st = (t, st1)"
  shows "turn_ok k b cy cst False t (rs_world st1)"
proof -
  define s1 where "s1 = (if ty = DunningAttemptTypeProgressive
      then snd (runDunningCommunication e (drn_OrgId inp) (drn_CampaignId inp) n st) else st)"
  obtain q0 s0 where msg: "child_task e 3 (SendCommunication (drn_OrgId inp) (drn_CampaignId inp) n) st = (q0, s0)" by (metis surj_pair)
  have "ongoing k b cy cst (rs_world s0) \<and> (\<forall>x. q0 = Inr x \<longrightarrow> True)"
    by (rule child_stands[where P = "ongoing k b cy cst" and st = st, OF _ st msg]) (simp add: message_stands)
  then have 1: "ongoing k b cy cst (rs_world s1)" using st by (simp add: s1_def message_runs msg)
  obtain q s2 where att: "child_task e 10 (ExecuteAttempt J (drn_OrgId inp) (drn_CampaignId inp) ty) s1 = (q, s2)" by (metis surj_pair)
  have 2: "ongoing k b cy cst (rs_world s2) \<and> (\<forall>a. q = Inr a \<longrightarrow> (att_OrgId a, att_DunningCampaignId a) = k)"
    by (rule child_stands[where P = "ongoing k b cy cst" and st = s1, OF _ 1 att]) (use attempt_stands[of k b cy cst] in \<open>simp add: k\<close>)
  show ?thesis
  proof (cases q)
    case (Inl err)
    then show ?thesis using run att by (auto simp: attempt_turn_def charge_runs s1_def[symmetric] turn_ok_def)
  next
    case (Inr a)
    let ?m = "UpdateCampaignWithAttemptResult a config \<lparr> dac_AttemptNumber = n, dac_WasSubscriptionSuspended =
      (ty = DunningAttemptTypeProgressive \<and> reached (esc_SuspendAfterAttempt (dcf_EscalationRules config)) n) \<rparr>"
    obtain r w3 where m: "?m (rs_world s2) = (r, w3)" by (metis surj_pair)
    obtain c1 where r: "r = Inr c1" and done_or: "cmp_Status c1 = cst \<and> ongoing k b cy cst w3 \<or> ended k b (cmp_Status c1) w3"
      using result_stands[OF _ _ m, of k b cy cst] 2 Inr by blast
    have res: "child_task e 5 ?m s2 = (Inr c1, s2\<lparr>rs_world := w3, rs_tasks := Suc (rs_tasks s2)\<rparr>)"
      using rerun_Inr[where m = ?m, OF m[unfolded r]] by (simp add: child_task_def)
    have "ended k b (cmp_Status c1) w3 \<Longrightarrow> isDunningTerminal (cmp_Status c1)" by (auto simp: ended_def isDunningTerminal_def)
    then show ?thesis using run att res Inr done_or active
      by (auto simp: attempt_turn_def charge_runs s1_def[symmetric] Let_def turn_ok_def split: if_splits)
  qed
qed

lemma phase_ok:
  assumes "ongoing k b cy cst (rs_world st)" and "k = (drn_OrgId inp, drn_CampaignId inp)"
    and "\<not> isDunningTerminal cst" and "dunning_phase e J inp config ty fallback n intervals c st = Some (t, st1)"
  shows "turn_ok k b cy cst (cancel_seen e) t (rs_world st1)"
  using assms(1,4)
proof (induction intervals arbitrary: n c st)
  case (Cons i rest)
  from Cons.prems(2) obtain t0 st0 where it: "dunning_iteration e J inp config ty fallback n i c st = Some (t0, st0)"
    by (auto split: option.splits)
  then obtain q sw where w: "wait_turn e (case ParseDuration i of None \<Rightarrow> fallback | Some d \<Rightarrow> d) st = Some (q, sw)"
    by (auto simp: dunning_iteration_def split: option.splits)
  note same = wait_turn_result[OF w]
  have step: "turn_ok k b cy cst (cancel_seen e) t0 (rs_world st0)"
  proof (cases q)
    case (Inl err)
    then show ?thesis using it w by (auto simp: dunning_iteration_def turn_ok_def)
  next
    case (Inr act)
    show ?thesis
    proof (cases "act = dunningActionCancel")
      case True
      then show ?thesis using it w same Inr Cons.prems(1) by (auto simp: dunning_iteration_def turn_ok_def)
    next
      case False
      then have "attempt_turn e J inp config ty n c sw = (t0, st0)" using it w Inr by (simp add: dunning_iteration_def)
      then have "turn_ok k b cy cst False t0 (rs_world st0)"
        using attempt_turn_ok[OF _ assms(2,3)] same Cons.prems(1) by metis
      then show ?thesis by (auto simp: turn_ok_def split: dunning_turn.splits option.splits)
    qed
  qed
  show ?case
  proof (cases t0)
    case (Stop c1 err)
    then show ?thesis using step Cons.prems(2) it by simp
  next
    case (Continue c2)
    then show ?thesis using Cons.IH[of st0 "n + 1" c2] step Cons.prems(2) it by (simp add: turn_ok_def)
  qed
qed (auto simp: turn_ok_def)

text \<open>C22: Without failing statements, a run that returns no error has recovered the campaign, or has
  failed it and left its subscription cancelled with no invoice of its cycle to collect;
  only a cancel signal stops it before.\<close>

theorem dunning_run_settles:
  assumes "ongoing k b cy cst (rs_world st)" and "k = (drn_OrgId inp, drn_CampaignId inp)"
    and "\<not> isDunningTerminal cst" and "DunningRunner e J inp st = Some ((c, None), st1)"
  shows "ended k b (cmp_Status c) (rs_world st1) \<or> cancel_seen e \<and> ongoing k b cy cst (rs_world st1)"
proof -
  let ?c = "zero_campaign\<lparr>cmp_OrgId := drn_OrgId inp, cmp_Id := drn_CampaignId inp\<rparr>"
  obtain q w1 where l: "LoadConfigForCampaign (drn_OrgId inp) (drn_CampaignId inp) (rs_world st) = (q, w1)" by (metis surj_pair)
  then obtain config where q: "q = Inr config" using assms(4) by (cases q) (auto simp: DunningRunner_def)
  have w1: "ongoing k b cy cst w1" by (rule config_stands[OF assms(1) l])
  obtain t2 st2 where p1: "immediate_phase e J inp config ?c (st\<lparr>rs_world := w1\<rparr>) = Some (t2, st2)"
    using assms(4) by (auto simp: DunningRunner_def l q split: option.splits)
  have 1: "turn_ok k b cy cst (cancel_seen e) t2 (rs_world st2)"
    using p1 w1 phase_ok[OF _ assms(2,3), where st = "st\<lparr>rs_world := w1\<rparr>"]
    by (auto simp: immediate_phase_def turn_ok_def split: if_splits)
  show ?thesis
  proof (cases t2)
    case (Stop c2 err)
    then show ?thesis using assms(4) 1 by (auto simp: DunningRunner_def l q p1 turn_ok_def)
  next
    case (Continue c2)
    then have w2: "ongoing k b cy cst (rs_world st2)" using 1 by (simp add: turn_ok_def)
    obtain t3 st3 where p2: "progressive_phase e J inp config c2 st2 = Some (t3, st3)"
      using assms(4) Continue by (auto simp: DunningRunner_def l q p1 split: option.splits)
    have 2: "turn_ok k b cy cst (cancel_seen e) t3 (rs_world st3)"
      using p2 w2 phase_ok[OF w2 assms(2,3)] by (auto simp: progressive_phase_def turn_ok_def split: if_splits)
    show ?thesis
    proof (cases t3)
      case (Stop c3 err)
      then show ?thesis using assms(4) Continue 2 by (auto simp: DunningRunner_def l q p1 p2 turn_ok_def)
    next
      case (Continue c3)
      then have "exhaust_campaign inp c3 st3 = ((c, None), st1)" and "ongoing k b cy cst (rs_world st3)"
        using assms(4) \<open>t2 = _\<close> 2 by (simp_all add: DunningRunner_def l q p1 p2 turn_ok_def)
      then show ?thesis using exhaust_ends[OF _ assms(2)] by blast
    qed
  qed
qed

definition sample_run :: dunning_run where
  "sample_run = \<lparr> drn_OrgId = ''o'', drn_CampaignId = ''k'', drn_InitialFailureReason = ''network_error'' \<rparr>"

definition sample_engine :: dunning_engine where
  "sample_engine = \<lparr> den_wait = (\<lambda>_ _. Inr []), den_resume = (\<lambda>_. Inr [Key_resume]), den_reruns = (\<lambda>_. 10) \<rparr>"

theorem dunning_run_bounded_witness:
  "\<exists>res st1 new. DunningRunner sample_engine (\<lambda>t. t) sample_run \<lparr> rs_world = dunning_world, rs_waits = 0, rs_tasks = 0 \<rparr> = Some (res, st1) \<and>
    w_charges (rs_world st1) = w_charges dunning_world @ new \<and> length new \<le> 88 \<and> (\<forall>charge\<in>set new. chi_Amount charge = 500)"
proof -
  have b: "bill (''o'', ''k'') (w_db dunning_world) = Some (''s'', 500, ''USD'')" using sample_rows(1) by (simp add: bill_def bill_of_def sample_campaign_def)
  obtain q w1 where l: "LoadConfigForCampaign ''o'' ''k'' dunning_world = (q, w1)" by (metis surj_pair)
  have q: "q = Inr DefaultDunningConfig"
    using runsD[OF runs_LoadConfig[OF sample_rows(1)] l sample_rows(3) HOL.refl] by (simp add: sample_campaign_def)
  have "planned_attempts sample_run DefaultDunningConfig = 8" by code_simp
  then show ?thesis
    using dunning_run_bounded[of sample_engine sample_run "\<lparr> rs_world = dunning_world, rs_waits = 0, rs_tasks = 0 \<rparr>" "(''s'', 500, ''USD'')" "\<lambda>t. t"] b l q
    by (auto simp: sample_run_def answered_def sample_engine_def charge_for_def)
qed

text \<open>A campaign whose policy retries nothing.\<close>

definition no_retry_world :: "rat world" where
  "no_retry_world = dunning_world\<lparr>w_db := (w_db dunning_world)\<lparr>t_campaigns := [sample_campaign\<lparr>cmp_ConfigSnapshot := ConfigOf zero_config\<rparr>]\<rparr>\<rparr>"

theorem dunning_run_settles_witness:
  "\<exists>c st1. DunningRunner sample_engine (\<lambda>t. t) sample_run \<lparr> rs_world = no_retry_world, rs_waits = 0, rs_tasks = 0 \<rparr> = Some ((c, None), st1) \<and>
    ended (''o'', ''k'') (''s'', 500, ''USD'') (cmp_Status c) (rs_world st1)"
proof -
  let ?st = "\<lparr> rs_world = no_retry_world, rs_waits = 0, rs_tasks = 0 \<rparr>" and ?k = "(''o'', ''k'')" and ?b = "(''s'', 500, ''USD'')"
  let ?c = "sample_campaign\<lparr>cmp_ConfigSnapshot := ConfigOf zero_config\<rparr>"
  have row: "campaign_row (w_db no_retry_world) ?k = Some ?c"
    by (simp add: no_retry_world_def find_row_def cmp_key_def sample_campaign_def)
  have st: "ongoing ?k ?b (cycle_of minute_sub) DunningStatusActive (rs_world ?st)"
    using sample_rows row by (simp add: ongoing_def bill_def bill_of_def cycle_at_def sample_campaign_def calm_def no_retry_world_def invoices_distinct_def)
  then have calm: "calm no_retry_world" by (simp add: ongoing_def)
  obtain q w1 where l: "LoadConfigForCampaign ''o'' ''k'' no_retry_world = (q, w1)" by (metis surj_pair)
  have q: "q = Inr zero_config" using runsD[OF runs_LoadConfig[OF row] l calm HOL.refl] by simp
  let ?z = "zero_campaign\<lparr>cmp_OrgId := ''o'', cmp_Id := ''k''\<rparr>"
  obtain c err st1 where ex: "exhaust_campaign sample_run ?z (?st\<lparr>rs_world := w1\<rparr>) = ((c, err), st1)" by (metis surj_pair)
  have sw: "ongoing ?k ?b (cycle_of minute_sub) DunningStatusActive (rs_world (?st\<lparr>rs_world := w1\<rparr>))"
    using config_stands[OF st[simplified] l] by simp
  have k: "?k = (drn_OrgId sample_run, drn_CampaignId sample_run)" "drn_OrgId sample_run = ''o''" "drn_CampaignId sample_run = ''k''"
    by (simp_all add: sample_run_def)
  have off: "immediate_phase e J inp zero_config z st = Some (Continue z, st)" "progressive_phase e J inp zero_config z st = Some (Continue z, st)"
    for e J inp z and st :: "rat run_state"
    by (simp_all add: immediate_phase_def progressive_phase_def zero_config_def zero_retries_def)
  have "err = None" using exhaust_ends[OF sw k(1) ex] by blast
  then have run: "DunningRunner sample_engine (\<lambda>t. t) sample_run ?st = Some ((c, None), st1)"
    using ex by (simp add: DunningRunner_def k(2,3) l q off)
  have "\<not> cancel_seen sample_engine" by (auto simp: cancel_seen_def sample_engine_def)
  then show ?thesis
    using dunning_run_settles[OF st k(1) _ run] run by (auto simp: isDunningTerminal_def)
qed

section \<open>Deviations\<close>

text \<open>With the default policy the third immediate attempt suspends the subscription; the runner tells
  a later success of a suspension only from the third progressive attempt on, so a
  payment at the first leaves the campaign recovered and the subscription unpaid.\<close>

lemma suspension_not_lifted:
  "foldl (\<lambda>v (paid, n, suspended). escalate paid (dcf_EscalationRules DefaultDunningConfig)
       \<lparr> dac_AttemptNumber = n, dac_WasSubscriptionSuspended = suspended \<rparr> v)
     (SubscriptionStatusActive, DunningStatusActive)
     [(False, 1, False), (False, 2, False), (False, 3, False),
      (True, 1, reached (esc_SuspendAfterAttempt (dcf_EscalationRules DefaultDunningConfig)) 1)] =
   (SubscriptionStatusUnpaid, DunningStatusRecovered)"
  by (simp add: escalate_def reached_def DefaultDunningConfig_def suspendable_def)

text \<open>The adapters of both engines take the campaign of a run from the metadata of the start and
  fall back to the subscription; the orchestration never puts it there.\<close>

definition Engine_StartDunningWorkflow :: "start_dunning_input \<Rightarrow> dunning_run" where
  "Engine_StartDunningWorkflow inp =
    (let cid = (case sdi_Metadata inp ''campaign_id'' of None \<Rightarrow> [] | Some v \<Rightarrow> v) in
     \<lparr> drn_OrgId = sdi_OrgId inp, drn_CampaignId = (if cid = [] then sdi_SubscriptionId inp else cid),
       drn_InitialFailureReason = sdi_InitialFailureReason inp \<rparr>)"

text \<open>So the run that the message of a failed charge starts looks for a campaign under the id of the
  subscription, finds none, and ends with an error: it sends no charge, changes nothing,
  and the campaign that was stored stays active.\<close>

lemma started_run_finds_no_campaign:
  assumes "campaign_row (w_db (rs_world st)) (sub_OrgId s, sub_Id s) = None"
  shows "\<exists>err st1. DunningRunner e J (Engine_StartDunningWorkflow (failure_input s charge)) st = Some ((zero_campaign, Some err), st1) \<and>
    w_db (rs_world st1) = w_db (rs_world st) \<and> w_charges (rs_world st1) = w_charges (rs_world st)"
proof -
  let ?r = "Engine_StartDunningWorkflow (failure_input s charge)"
  have r: "drn_OrgId ?r = sub_OrgId s" "drn_CampaignId ?r = sub_Id s" by (simp_all add: Engine_StartDunningWorkflow_def failure_input_def)
  obtain q w1 where l: "FindCampaignById (sub_OrgId s) (sub_Id s) (rs_world st) = (q, w1)" by (metis surj_pair)
  then obtain e0 where q: "q = Inl e0"
    using assms by (cases q) (auto simp: FindCampaignById_def DunningRepo_FindCampaignById_def mapErrS_Inr selOne_Inr)
  have "w_db w1 = w_db (rs_world st)"
    using l by (intro keeps[where f = "\<lambda>d. d" and m = "FindCampaignById (sub_OrgId s) (sub_Id s)"])
      (auto simp: FindCampaignById_def DunningRepo_FindCampaignById_def intro!: keep.obeys_mapErr)
  moreover have "w_charges w1 = w_charges (rs_world st)" using silentD[OF silent_dunning_writes(3) l] .
  ultimately show ?thesis by (simp add: DunningRunner_def LoadConfigForCampaign_def bindS_def r l q)
qed

lemma started_run_finds_no_campaign_sample:
  "\<exists>err st1. DunningRunner sample_engine (\<lambda>t. t) (Engine_StartDunningWorkflow sample_start)
      \<lparr> rs_world = dunning_world, rs_waits = 0, rs_tasks = 0 \<rparr> = Some ((zero_campaign, Some err), st1)"
proof -
  have "campaign_row (w_db dunning_world) (sub_OrgId minute_sub, sub_Id minute_sub) = None"
    by (simp add: dunning_world_defs find_row_def cmp_key_def minute_sub_more minute_sub_fields)
  then show ?thesis
    using started_run_finds_no_campaign[of minute_sub "\<lparr> rs_world = dunning_world, rs_waits = 0, rs_tasks = 0 \<rparr>"]
    unfolding sample_start_def by (simp only: run_state.simps) blast
qed

end
