(* ===== verification/Webhooks.thy ===== *)
theory Webhooks
  imports Order_Service Dunning_Runner
begin

text \<open>
  Webhooks of payment providers: src/internal/core/service/webhook.go takes a delivery,
  claims its digest (src/internal/adapter/db/postgrespgx/idempotency_repo.go), and
  hands the parsed event to the workflow engine (src/internal/adapter/hatchet/hatchet.go),
  whose jobs complete an order (src/internal/adapter/hatchet/workflows/payment_success.go)
  or record a refund (src/internal/core/service/payment.go).  The lemmas show that the
  engine accepts one request per event however often it is delivered, that an event which
  is not accepted is not lost, and what a job leaves when the engine runs it again.

  The digest and the parsers of the providers are parameters; the answers of the engine
  are inputs.
\<close>

section \<open>Events and the engine\<close>

datatype webhook_type = Noop | PaymentSuccess | PaymentRefunded | RecurringSuccess | WebhookTypeOther string

record webhook_event =
  wev_Type :: webhook_type
  wev_OrgId :: string
  wev_OrderId :: string
  wev_Payment :: payment_webhook
  wev_RawData :: string

record webhook_payload =
  whp_Psp :: gateway
  whp_Signature :: string
  whp_Data :: string

text \<open>A parser checks the signature of the raw data and decodes it.\<close>

record webhook_parser =
  wps_Validate :: "string \<Rightarrow> string \<Rightarrow> app_error option"
  wps_Parse :: "string \<Rightarrow> webhook_event res"

text \<open>What the program asks the engine for: a run under its key, or an event.\<close>

datatype 'd engine_request =
    RunPaymentSuccess string webhook_event
  | RunPaymentRefunded string webhook_event
  | RunOutgoingWebhook webhook_subscription "'d outbox_event"
  | RunBillingCycleRunner string subscription
  | RunOrgBilling string string
  | RunRenewalReminder string subscription
  | PushEvent string charge_result

text \<open>The engine takes a request, refuses it, or takes it while its reply is lost.\<close>

datatype engine_answer = Taken | Refused string | Unheard string

record 'd runtime =
  rt_world :: "'d world"
  rt_answer :: "nat \<Rightarrow> engine_answer"
  rt_asked :: nat
  rt_requests :: "'d engine_request list"

definition ask :: "'d engine_request \<Rightarrow> 'd runtime \<Rightarrow> unit res \<times> 'd runtime" where
  "ask q st =
    (let st1 = st\<lparr>rt_asked := Suc (rt_asked st)\<rparr>; st2 = st1\<lparr>rt_requests := rt_requests st @ [q]\<rparr> in
     case rt_answer st (rt_asked st) of
       Taken \<Rightarrow> (Inr (), st2)
     | Refused e \<Rightarrow> (Inl (InfraError e), st1)
     | Unheard e \<Rightarrow> (Inl (InfraError e), st2))"

definition on_world :: "('d, 'a) svc \<Rightarrow> 'd runtime \<Rightarrow> 'a res \<times> 'd runtime" where
  "on_world m st = (case m (rt_world st) of (r, w) \<Rightarrow> (r, st\<lparr>rt_world := w\<rparr>))"

text \<open>The keys under which the engine runs and waits (keys.go).\<close>

definition WebhookEventKey :: "string \<Rightarrow> string \<Rightarrow> string" where
  "WebhookEventKey orgId subscriptionId = ''webhook:'' @ orgId @ '':'' @ subscriptionId"

definition PaymentSuccessRunKey :: "string \<Rightarrow> string \<Rightarrow> gateway \<Rightarrow> string \<Rightarrow> string" where
  "PaymentSuccessRunKey orgId orderId psp paymentIdentity =
    ''payment_success_'' @ orgId @ ''_'' @ orderId @ ''_'' @ psp @ ''_'' @ paymentIdentity"

definition PaymentRefundedRunKey :: "string \<Rightarrow> string \<Rightarrow> gateway \<Rightarrow> string \<Rightarrow> string" where
  "PaymentRefundedRunKey orgId orderId psp paymentIdentity =
    ''payment_refunded_'' @ orgId @ ''_'' @ orderId @ ''_'' @ psp @ ''_'' @ paymentIdentity"

definition paymentRunIdentity :: "webhook_event \<Rightarrow> string res" where
  "paymentRunIdentity ev =
    (if pwh_PspId (wev_Payment ev) \<noteq> [] then Inr (pwh_PspId (wev_Payment ev))
     else if pwh_Reference (wev_Payment ev) \<noteq> [] then Inr (pwh_Reference (wev_Payment ev))
     else Inl (InfraError ''payment webhook missing PSP payment identity''))"

datatype 'd workflow_start =
    WorkflowPaymentSuccess webhook_event
  | WorkflowPaymentRefunded webhook_event
  | WorkflowOutgoingWebhook webhook_subscription "'d outbox_event"

definition Engine_StartWorkflow :: "'d workflow_start \<Rightarrow> 'd runtime \<Rightarrow> unit res \<times> 'd runtime" where
  "Engine_StartWorkflow flow st =
    (case flow of
       WorkflowPaymentSuccess ev \<Rightarrow>
         (case paymentRunIdentity ev of
            Inl e \<Rightarrow> (Inl e, st)
          | Inr i \<Rightarrow> ask (RunPaymentSuccess (PaymentSuccessRunKey (wev_OrgId ev) (wev_OrderId ev) (pwh_Psp (wev_Payment ev)) i) ev) st)
     | WorkflowPaymentRefunded ev \<Rightarrow>
         (case paymentRunIdentity ev of
            Inl e \<Rightarrow> (Inl e, st)
          | Inr i \<Rightarrow> ask (RunPaymentRefunded (PaymentRefundedRunKey (wev_OrgId ev) (wev_OrderId ev) (pwh_Psp (wev_Payment ev)) i) ev) st)
     | WorkflowOutgoingWebhook sub ev \<Rightarrow> ask (RunOutgoingWebhook sub ev) st)"

definition Engine_SignalWebhook :: "subscription \<Rightarrow> charge_result \<Rightarrow> 'd runtime \<Rightarrow> unit res \<times> 'd runtime" where
  "Engine_SignalWebhook s charge = ask (PushEvent (WebhookEventKey (sub_OrgId s) (sub_Id s)) charge)"

section \<open>The claim on a delivery\<close>

text \<open>One statement inserts the key, or takes over a row that has expired; now() is the
  database's clock.\<close>

definition IdempotencyKeyRepo_Claim :: "string \<Rightarrow> time \<Rightarrow> ('d, bool) svc" where
  "IdempotencyKeyRepo_Claim key expiresAt =
    bindS nowS (\<lambda>now. stmt (\<lambda>db. Some (
      case find_row idk_Id key (t_idempotency_keys db) of
        None \<Rightarrow> (True, db\<lparr>t_idempotency_keys := t_idempotency_keys db @ [\<lparr>idk_Id = key, idk_ExpiresAt = expiresAt\<rparr>]\<rparr>)
      | Some row \<Rightarrow>
          if idk_ExpiresAt row < now
          then (True, db\<lparr>t_idempotency_keys := map (\<lambda>r. if idk_Id r = key then r\<lparr>idk_ExpiresAt := expiresAt\<rparr> else r)
                                               (t_idempotency_keys db)\<rparr>)
          else (False, db))))"

definition IdempotencyKeyRepo_Release :: "string \<Rightarrow> ('d, unit) svc" where
  "IdempotencyKeyRepo_Release key =
    exec (\<lambda>db. Some (db\<lparr>t_idempotency_keys := filter (\<lambda>r. idk_Id r \<noteq> key) (t_idempotency_keys db)\<rparr>))"

section \<open>A delivery\<close>

definition webhook_key :: "(string \<Rightarrow> string) \<Rightarrow> webhook_payload \<Rightarrow> string" where
  "webhook_key sha p = sha (whp_Psp p @ '':'' @ whp_Data p)"

definition recurring_result :: "webhook_payload \<Rightarrow> webhook_event \<Rightarrow> charge_result" where
  "recurring_result p ev =
    \<lparr> chg_Psp = whp_Psp p, chg_Amount = pwh_Amount (wev_Payment ev), chg_Status = PaymentStatusSucceeded,
      chg_ErrorReason = [], chg_ErrorCode = [], chg_Currency = pwh_Currency (wev_Payment ev),
      chg_PspId = pwh_PspId (wev_Payment ev), chg_Reference = pwh_Reference (wev_Payment ev),
      chg_ProcessedAt = pwh_PaidAt (wev_Payment ev), chg_RawData = wev_RawData ev \<rparr>"

text \<open>What is done with a parsed event; an error carries the reason under which the key is released.\<close>

definition dispatch_event :: "webhook_payload \<Rightarrow> webhook_event \<Rightarrow> 'd runtime \<Rightarrow> ((string \<times> app_error) + unit) \<times> 'd runtime" where
  "dispatch_event p ev st =
    (case wev_Type ev of
       PaymentSuccess \<Rightarrow>
         (case Engine_StartWorkflow (WorkflowPaymentSuccess ev) st of
            (Inl e, st1) \<Rightarrow> (Inl (''failed to start payment-success workflow'', e), st1)
          | (Inr _, st1) \<Rightarrow> (Inr (), st1))
     | RecurringSuccess \<Rightarrow>
         (case on_world (SubscriptionRepo_FindByOrderId (wev_OrgId ev) (wev_OrderId ev)) st of
            (Inl e, st1) \<Rightarrow> (Inl (''failed to load subscription for recurring charge'', e), st1)
          | (Inr [], st1) \<Rightarrow> (Inr (), st1)
          | (Inr (s # _), st1) \<Rightarrow>
              (case Engine_SignalWebhook s (recurring_result p ev) st1 of
                 (Inl e, st2) \<Rightarrow> (Inl (''failed to signal subscription workflow'', e), st2)
               | (Inr _, st2) \<Rightarrow> (Inr (), st2)))
     | PaymentRefunded \<Rightarrow>
         (case Engine_StartWorkflow (WorkflowPaymentRefunded ev) st of
            (Inl e, st1) \<Rightarrow> (Inl (''failed to start payment-refunded workflow'', e), st1)
          | (Inr _, st1) \<Rightarrow> (Inr (), st1))
     | _ \<Rightarrow> (Inr (), st))"

definition process_claimed ::
    "(gateway \<Rightarrow> webhook_parser option) \<Rightarrow> webhook_payload \<Rightarrow> 'd runtime \<Rightarrow> ((string \<times> app_error option) + unit) \<times> 'd runtime" where
  "process_claimed parsers p st =
    (case parsers (whp_Psp p) of
       None \<Rightarrow> (Inl (''no webhook parser registered for psp'', None), st)
     | Some parser \<Rightarrow>
        (case wps_Validate parser (whp_Data p) (whp_Signature p) of
           Some e \<Rightarrow> (Inl (''webhook validation failed'', Some e), st)
         | None \<Rightarrow>
            (case wps_Parse parser (whp_Data p) of
               Inl e \<Rightarrow> (Inl (''webhook parse failed'', Some e), st)
             | Inr ev \<Rightarrow>
                (case dispatch_event p ev st of
                   (Inl (reason, e), st1) \<Rightarrow> (Inl (reason, Some e), st1)
                 | (Inr _, st1) \<Rightarrow> (Inr (), st1)))))"

definition HandlePaymentWebhook ::
    "(string \<Rightarrow> string) \<Rightarrow> (gateway \<Rightarrow> webhook_parser option) \<Rightarrow> webhook_payload \<Rightarrow> 'd runtime \<Rightarrow> unit res \<times> 'd runtime" where
  "HandlePaymentWebhook sha parsers p st =
    (let key = webhook_key sha p in
     case on_world (bindS nowS (\<lambda>t. IdempotencyKeyRepo_Claim key (time_Add t (24 * Hour)))) st of
       (Inl e, st1) \<Rightarrow> (Inl (NewCustomError InternalError ''idempotency claim failed'' (Some e)), st1)
     | (Inr claimed, st1) \<Rightarrow>
         if \<not> claimed then (Inr (), st1)
         else (case process_claimed parsers p st1 of
                 (Inr _, st2) \<Rightarrow> (Inr (), st2)
               | (Inl (reason, cause), st2) \<Rightarrow>
                   (case on_world (IdempotencyKeyRepo_Release key) st2 of
                      (_, st3) \<Rightarrow> (Inl (NewCustomError InternalError reason cause), st3))))"

section \<open>What a delivery leaves\<close>

text \<open>Until when the key of a delivery is claimed.\<close>

definition key_expiry :: "'d db \<Rightarrow> string \<Rightarrow> time option" where
  "key_expiry db k = map_option idk_ExpiresAt (find_row idk_Id k (t_idempotency_keys db))"

lemma key_expiry_put:
  "key_expiry (db\<lparr>t_idempotency_keys := rows @ [r]\<rparr>) k =
    (case find_row idk_Id k rows of Some x \<Rightarrow> Some (idk_ExpiresAt x) | None \<Rightarrow> if idk_Id r = k then Some (idk_ExpiresAt r) else None)"
  by (induction rows) (auto simp: key_expiry_def find_row_def)

lemma key_expiry_renew:
  "key_expiry (db\<lparr>t_idempotency_keys := map (\<lambda>r. if idk_Id r = k1 then r\<lparr>idk_ExpiresAt := t\<rparr> else r) rows\<rparr>) k =
    (case find_row idk_Id k rows of Some x \<Rightarrow> Some (if k = k1 then t else idk_ExpiresAt x) | None \<Rightarrow> None)"
  by (induction rows) (auto simp: key_expiry_def find_row_def)

lemma key_expiry_release:
  "key_expiry (db\<lparr>t_idempotency_keys := filter (\<lambda>r. idk_Id r \<noteq> k1) rows\<rparr>) k =
    (if k = k1 then None else map_option idk_ExpiresAt (find_row idk_Id k rows))"
  by (induction rows) (auto simp: key_expiry_def find_row_def)

text \<open>A step of the world that touches the clock, the statements and the claims only.\<close>

definition claim_frame :: "'d world \<Rightarrow> 'd world \<Rightarrow> bool" where
  "claim_frame w w1 \<longleftrightarrow> w_clock w1 = w_clock w \<and> w_ticks w \<le> w_ticks w1 \<and> (calm w \<longrightarrow> calm w1)"

lemma claim_frame_trans: "claim_frame a b \<Longrightarrow> claim_frame b c \<Longrightarrow> claim_frame a c"
  by (auto simp: claim_frame_def)

lemma claim_cases:
  assumes "bindS nowS (\<lambda>t. IdempotencyKeyRepo_Claim k (time_Add t (24 * Hour))) w = (r, w1)"
  shows "claim_frame w w1 \<and> w_ticks w1 = w_ticks w + 2 \<and>
    (case r of Inl e \<Rightarrow> w_db w1 = w_db w \<and> \<not> calm w
     | Inr False \<Rightarrow> w_db w1 = w_db w \<and> (\<exists>x. key_expiry (w_db w) k = Some x \<and> w_clock w (Suc (w_ticks w)) \<le> x)
     | Inr True \<Rightarrow> (\<forall>x. key_expiry (w_db w) k = Some x \<longrightarrow> x < w_clock w (Suc (w_ticks w))) \<and>
         (\<forall>k1. key_expiry (w_db w1) k1 = (if k1 = k then Some (w_clock w (w_ticks w) + 24 * Hour) else key_expiry (w_db w) k1)))"
proof -
  let ?row = "find_row idk_Id k (t_idempotency_keys (w_db w))"
  have k: "find_row idk_Id k rows = Some x \<Longrightarrow> idk_Id x = k" for rows x by (auto simp: find_row_def find_Some_iff)
  show ?thesis
  proof (cases "?row")
    case None
    then show ?thesis
      using assms
      by (auto simp: IdempotencyKeyRepo_Claim_def bindS_def stmt_def Let_def claim_frame_def calm_def key_expiry_put time_Add_def
          key_expiry_def[of "w_db w"] split: option.splits if_splits sum.splits prod.splits)
  next
    case (Some x)
    then show ?thesis
      using assms
      by (auto simp: IdempotencyKeyRepo_Claim_def bindS_def stmt_def Let_def claim_frame_def calm_def key_expiry_renew time_Add_def
          key_expiry_def[of "w_db w"] split: option.splits if_splits sum.splits prod.splits)
  qed
qed

lemma release_cases:
  assumes "IdempotencyKeyRepo_Release k w = (r, w1)"
  shows "claim_frame w w1 \<and> w_ticks w1 = w_ticks w \<and> (calm w \<longrightarrow> key_expiry (w_db w1) k = None) \<and>
    (\<forall>x. key_expiry (w_db w1) k = Some x \<longrightarrow> key_expiry (w_db w) k = Some x) \<and>
    (\<forall>k1. k1 \<noteq> k \<longrightarrow> key_expiry (w_db w1) k1 = key_expiry (w_db w) k1)"
  using assms by (auto simp: IdempotencyKeyRepo_Release_def exec_def stmt_def Let_def claim_frame_def calm_def key_expiry_release
      key_expiry_def[of "w_db w"] split: option.splits if_splits)

text \<open>The engine's replies arrive.\<close>

definition heard :: "'d runtime \<Rightarrow> bool" where
  "heard st \<longleftrightarrow> (\<forall>n e. rt_answer st n \<noteq> Unheard e)"

definition starts_run :: "webhook_event \<Rightarrow> bool" where
  "starts_run ev \<longleftrightarrow> wev_Type ev = PaymentSuccess \<or> wev_Type ev = PaymentRefunded"

text \<open>What the handling of an event does to the runtime: at most one request, and none with an error.\<close>

definition handles :: "bool \<Rightarrow> bool \<Rightarrow> 'd runtime \<Rightarrow> 'd runtime \<Rightarrow> bool" where
  "handles failed sure st st1 \<longleftrightarrow>
     claim_frame (rt_world st) (rt_world st1) \<and> w_db (rt_world st1) = w_db (rt_world st) \<and>
     w_ticks (rt_world st1) = w_ticks (rt_world st) \<and> rt_answer st1 = rt_answer st \<and>
     (\<exists>new. rt_requests st1 = rt_requests st @ new \<and> length new \<le> 1 \<and>
        (heard st \<and> failed \<longrightarrow> new = []) \<and> (sure \<and> \<not> failed \<longrightarrow> new \<noteq> []))"

lemma claim_frame_refl [simp]: "claim_frame w w"
  by (simp add: claim_frame_def)

lemma handles_weaken: "handles f True st st1 \<Longrightarrow> handles f sure st st1"
  by (auto simp: handles_def)

lemma handles_nothing: "handles f False st st" "handles True sure st st"
  by (simp_all add: handles_def)

lemma ask_handles: "ask q st = (r, st1) \<Longrightarrow> handles (isl r) True st st1"
  by (auto simp: ask_def handles_def heard_def Let_def split: engine_answer.splits)

lemma start_handles: "Engine_StartWorkflow flow st = (r, st1) \<Longrightarrow> handles (isl r) True st st1"
  by (auto simp: Engine_StartWorkflow_def handles_nothing split: workflow_start.splits sum.splits dest: ask_handles)

lemma find_subs_frame:
  assumes "on_world (SubscriptionRepo_FindByOrderId a b) st = (r, st1)"
  shows "\<exists>w. st1 = st\<lparr>rt_world := w\<rparr> \<and> claim_frame (rt_world st) w \<and> w_db w = w_db (rt_world st) \<and> w_ticks w = w_ticks (rt_world st)"
  using assms by (auto simp: on_world_def SubscriptionRepo_FindByOrderId_def sel_def stmt_def Let_def claim_frame_def calm_def
      split: option.splits if_splits)

lemma handles_after:
  assumes "handles f sure st1 st2" and "st1 = st\<lparr>rt_world := w\<rparr>" and "claim_frame (rt_world st) w"
    and "w_db w = w_db (rt_world st)" and "w_ticks w = w_ticks (rt_world st)"
  shows "handles f sure st st2"
  using assms claim_frame_trans[OF assms(3)] by (auto simp: handles_def heard_def)

lemma dispatch_handles:
  assumes "dispatch_event p ev st = (r, st1)"
  shows "handles (isl r) (starts_run ev) st st1"
proof (cases "wev_Type ev")
  case RecurringSuccess
  obtain q st2 where q: "on_world (SubscriptionRepo_FindByOrderId (wev_OrgId ev) (wev_OrderId ev)) st = (q, st2)" by (metis surj_pair)
  from find_subs_frame[OF q] obtain w where w: "st2 = st\<lparr>rt_world := w\<rparr>" "claim_frame (rt_world st) w"
    "w_db w = w_db (rt_world st)" "w_ticks w = w_ticks (rt_world st)" by blast
  have "handles (isl r) False st2 st1"
    using assms RecurringSuccess q
    by (auto simp: dispatch_event_def Engine_SignalWebhook_def handles_nothing split: sum.splits list.splits prod.splits
        dest!: ask_handles intro: handles_weaken)
  then show ?thesis using handles_after[OF _ w] RecurringSuccess by (simp add: starts_run_def)
qed (use assms in \<open>auto simp: dispatch_event_def starts_run_def handles_nothing split: sum.splits prod.splits dest!: start_handles\<close>)

lemma process_handles:
  assumes "process_claimed parsers p st = (r, st1)"
    and "\<And>psr ev. parsers (whp_Psp p) = Some psr \<Longrightarrow> wps_Parse psr (whp_Data p) = Inr ev \<Longrightarrow> sure \<Longrightarrow> starts_run ev"
  shows "handles (isl r) sure st st1"
proof (cases "\<exists>psr ev. parsers (whp_Psp p) = Some psr \<and> wps_Validate psr (whp_Data p) (whp_Signature p) = None \<and> wps_Parse psr (whp_Data p) = Inr ev")
  case True
  then obtain psr ev where psr: "parsers (whp_Psp p) = Some psr" "wps_Validate psr (whp_Data p) (whp_Signature p) = None"
    "wps_Parse psr (whp_Data p) = Inr ev" by blast
  obtain q st2 where q: "dispatch_event p ev st = (q, st2)" by (metis surj_pair)
  have "isl r = isl q" "st2 = st1" using assms(1) psr q by (auto simp: process_claimed_def split: sum.splits)
  moreover have "handles (isl q) sure st st2"
    using dispatch_handles[OF q] assms(2)[OF psr(1,3)] by (cases sure) (auto simp: handles_def)
  ultimately show ?thesis by simp
next
  case False
  then have "isl r \<and> st1 = st" using assms(1)
    by (auto simp: process_claimed_def split: option.splits sum.splits)
  then show ?thesis by (auto simp: handles_nothing)
qed

text \<open>One delivery: the key is claimed as long as a request was accepted under it.\<close>

lemma delivery_cases:
  assumes "HandlePaymentWebhook sha parsers p st = (r, st1)" and k: "k = webhook_key sha p"
    and "\<And>psr ev. parsers (whp_Psp p) = Some psr \<Longrightarrow> wps_Parse psr (whp_Data p) = Inr ev \<Longrightarrow> sure \<Longrightarrow> starts_run ev"
  obtains new where "rt_requests st1 = rt_requests st @ new" "length new \<le> 1" "rt_answer st1 = rt_answer st"
    "claim_frame (rt_world st) (rt_world st1)" "w_ticks (rt_world st1) = w_ticks (rt_world st) + 2"
    "\<And>k1. k1 \<noteq> k \<Longrightarrow> key_expiry (w_db (rt_world st1)) k1 = key_expiry (w_db (rt_world st)) k1"
    "new = [] \<Longrightarrow> \<not> isl r \<Longrightarrow> sure \<Longrightarrow> \<exists>x. key_expiry (w_db (rt_world st)) k = Some x \<and>
       key_expiry (w_db (rt_world st1)) k = Some x \<and> w_clock (rt_world st) (Suc (w_ticks (rt_world st))) \<le> x"
    "new \<noteq> [] \<Longrightarrow> heard st \<Longrightarrow> \<not> isl r \<and> key_expiry (w_db (rt_world st1)) k = Some (w_clock (rt_world st) (w_ticks (rt_world st)) + 24 * Hour)"
    "\<And>x. key_expiry (w_db (rt_world st)) k = Some x \<Longrightarrow> w_clock (rt_world st) (Suc (w_ticks (rt_world st))) \<le> x \<Longrightarrow>
       new = [] \<and> key_expiry (w_db (rt_world st1)) k = Some x \<and> (calm (rt_world st) \<longrightarrow> \<not> isl r)"
    "isl r \<Longrightarrow> calm (rt_world st) \<Longrightarrow> key_expiry (w_db (rt_world st1)) k = None"
    "\<And>x. key_expiry (w_db (rt_world st)) k = None \<Longrightarrow> key_expiry (w_db (rt_world st1)) k = Some x \<Longrightarrow>
       x = w_clock (rt_world st) (w_ticks (rt_world st)) + 24 * Hour"
proof -
  obtain c st2 where c: "on_world (bindS nowS (\<lambda>t. IdempotencyKeyRepo_Claim k (time_Add t (24 * Hour)))) st = (c, st2)" by (metis surj_pair)
  then obtain w2 where w2: "bindS nowS (\<lambda>t. IdempotencyKeyRepo_Claim k (time_Add t (24 * Hour))) (rt_world st) = (c, w2)"
    "st2 = st\<lparr>rt_world := w2\<rparr>" by (auto simp: on_world_def split: prod.splits)
  note f = claim_cases[OF w2(1)]
  show thesis
  proof (cases "c = Inr True")
    case False
    have "st1 = st2 \<and> isl r = isl c" using assms(1) c False k
      by (cases c) (auto simp: HandlePaymentWebhook_def Let_def split: if_splits)
    then show thesis using f False w2 by (intro that[of "[]"]) (auto split: sum.splits bool.splits)
  next
    case True
    obtain q st3 where q: "process_claimed parsers p st2 = (q, st3)" by (metis surj_pair)
    have "handles (isl q) sure st2 st3" by (rule process_handles[OF q]) (rule assms(3))
    then have h: "claim_frame w2 (rt_world st3)" "w_db (rt_world st3) = w_db w2" "w_ticks (rt_world st3) = w_ticks w2"
        "rt_answer st3 = rt_answer st"
      and hn: "\<exists>new. rt_requests st3 = rt_requests st @ new \<and> length new \<le> 1 \<and>
        (heard st \<and> isl q \<longrightarrow> new = []) \<and> (sure \<and> \<not> isl q \<longrightarrow> new \<noteq> [])"
      by (auto simp: handles_def w2 heard_def)
    have fr: "claim_frame (rt_world st) (rt_world st3)" using f h(1) by (blast intro: claim_frame_trans)
    show thesis
    proof (cases q)
      case (Inr u)
      then have "st1 = st3 \<and> \<not> isl r" using assms(1) c True q k by (auto simp: HandlePaymentWebhook_def Let_def)
      with hn obtain new where "rt_requests st1 = rt_requests st @ new" "length new \<le> 1" "sure \<longrightarrow> new \<noteq> []" "\<not> isl r" "st1 = st3"
        using Inr by auto
      then show thesis using f h fr True by (intro that[of new]) auto
    next
      case (Inl e)
      obtain reason cause where e: "e = (reason, cause)" by (metis surj_pair)
      obtain d st4 where d: "on_world (IdempotencyKeyRepo_Release k) st3 = (d, st4)" by (metis surj_pair)
      then obtain w4 where w4: "IdempotencyKeyRepo_Release k (rt_world st3) = (d, w4)" "st4 = st3\<lparr>rt_world := w4\<rparr>"
        by (auto simp: on_world_def split: prod.splits)
      have "st1 = st4 \<and> isl r" using assms(1) c True q k Inl e d by (auto simp: HandlePaymentWebhook_def Let_def)
      with hn obtain new where "rt_requests st3 = rt_requests st @ new" "length new \<le> 1" "heard st \<longrightarrow> new = []" "isl r" "st1 = st4"
        using Inl by auto
      note rel = release_cases[OF w4(1)]
      have fr4: "claim_frame (rt_world st) w4" using claim_frame_trans[OF fr] rel by blast
      have calm4: "calm (rt_world st) \<Longrightarrow> key_expiry (w_db w4) k = None" using rel fr by (auto simp: claim_frame_def)
      have k2: "\<And>k1. key_expiry (w_db (rt_world st3)) k1 =
          (if k1 = k then Some (w_clock (rt_world st) (w_ticks (rt_world st)) + 24 * Hour) else key_expiry (w_db (rt_world st)) k1)"
        and free: "\<And>x. key_expiry (w_db (rt_world st)) k = Some x \<Longrightarrow> x < w_clock (rt_world st) (Suc (w_ticks (rt_world st)))"
        using f True h(2) by simp_all
      have st1: "rt_world st1 = w4" "rt_requests st1 = rt_requests st @ new" "rt_answer st1 = rt_answer st"
        using \<open>st1 = st4\<close> \<open>rt_requests st3 = _\<close> w4(2) h(4) by simp_all
      show thesis
      proof (rule that[of new])
        show "w_ticks (rt_world st1) = w_ticks (rt_world st) + 2" using rel f h(3) st1 by simp
        show "key_expiry (w_db (rt_world st1)) k1 = key_expiry (w_db (rt_world st)) k1" if "k1 \<noteq> k" for k1
          using rel k2[of k1] that st1 by simp
        show "x = w_clock (rt_world st) (w_ticks (rt_world st)) + 24 * Hour" if "key_expiry (w_db (rt_world st1)) k = Some x" for x
          using rel k2[of k] that st1 by simp
      qed (use st1 fr4 calm4 free \<open>isl r\<close> \<open>length new \<le> 1\<close> \<open>heard st \<longrightarrow> new = []\<close> in \<open>auto dest: free\<close>)
    qed
  qed
qed

section \<open>Properties\<close>

text \<open>Deliveries, one after another, with the parsers in force; the trail has the key, the
  result and the requests the engine took of each.\<close>

fun deliveries :: "(string \<Rightarrow> string) \<Rightarrow> ((gateway \<Rightarrow> webhook_parser option) \<times> webhook_payload) list \<Rightarrow> 'd runtime \<Rightarrow>
    (string \<times> unit res \<times> 'd engine_request list) list \<times> 'd runtime" where
  "deliveries sha [] st = ([], st)"
| "deliveries sha ((parsers, p) # ds) st =
    (case HandlePaymentWebhook sha parsers p st of (r, st1) \<Rightarrow>
     case deliveries sha ds st1 of (trail, st2) \<Rightarrow>
       ((webhook_key sha p, r, drop (length (rt_requests st)) (rt_requests st1)) # trail, st2))"

definition requests_for :: "string \<Rightarrow> (string \<times> unit res \<times> 'd engine_request list) list \<Rightarrow> 'd engine_request list" where
  "requests_for k trail = concat (map (\<lambda>(k1, r, new). if k1 = k then new else []) trail)"

definition acknowledged :: "string \<Rightarrow> (string \<times> unit res \<times> 'd engine_request list) list \<Rightarrow> bool" where
  "acknowledged k trail \<longleftrightarrow> (\<exists>(k1, r, new) \<in> set trail. k1 = k \<and> \<not> isl r)"

lemma trail_simps [simp]: "requests_for k [] = []" "requests_for k ((k1, r, new) # trail) = (if k1 = k then new else []) @ requests_for k trail"
    "\<not> acknowledged k []" "acknowledged k ((k1, r, new) # trail) \<longleftrightarrow> k1 = k \<and> \<not> isl r \<or> acknowledged k trail"
  by (auto simp: requests_for_def acknowledged_def)

text \<open>The deliveries of a key all carry an event that starts a run.\<close>

definition carries_run :: "(string \<Rightarrow> string) \<Rightarrow> string \<Rightarrow> ((gateway \<Rightarrow> webhook_parser option) \<times> webhook_payload) list \<Rightarrow> bool" where
  "carries_run sha k ds \<longleftrightarrow> (\<forall>(parsers, p) \<in> set ds. webhook_key sha p = k \<longrightarrow>
     (\<forall>psr ev. parsers (whp_Psp p) = Some psr \<longrightarrow> wps_Parse psr (whp_Data p) = Inr ev \<longrightarrow> starts_run ev))"

lemma deliveries_frame:
  "deliveries sha ds st = (trail, st1) \<Longrightarrow> w_ticks (rt_world st) \<le> w_ticks (rt_world st1) \<and> w_clock (rt_world st1) = w_clock (rt_world st)"
proof (induction ds arbitrary: st trail)
  case (Cons d ds)
  obtain parsers p where d: "d = (parsers, p)" by (metis surj_pair)
  obtain r st2 where r: "HandlePaymentWebhook sha parsers p st = (r, st2)" by (metis surj_pair)
  obtain l st3 where l: "deliveries sha ds st2 = (l, st3)" by (metis surj_pair)
  have st3: "st3 = st1" using Cons.prems by (simp add: d r l)
  have "claim_frame (rt_world st) (rt_world st2)" by (rule delivery_cases[OF r refl, of False]) simp_all
  then show ?case using Cons.IH[OF l[unfolded st3]] by (auto simp: claim_frame_def)
qed simp

lemma claimed_deliveries:
  assumes "deliveries sha ds st = (trail, st1)" and "heard st"
    and "\<And>n. w_ticks (rt_world st) \<le> n \<Longrightarrow> n < w_ticks (rt_world st1) \<Longrightarrow> t0 \<le> w_clock (rt_world st) n \<and> w_clock (rt_world st) n \<le> t0 + 24 * Hour"
    and "key_expiry (w_db (rt_world st)) k = Some x" and "t0 + 24 * Hour \<le> x"
  shows "requests_for k trail = []"
  using assms
proof (induction ds arbitrary: st trail)
  case (Cons d ds)
  obtain parsers p where d: "d = (parsers, p)" by (metis surj_pair)
  obtain r st2 where r: "HandlePaymentWebhook sha parsers p st = (r, st2)" by (metis surj_pair)
  obtain l st3 where l: "deliveries sha ds st2 = (l, st3)" by (metis surj_pair)
  have st3: "st3 = st1" and trail: "trail = (webhook_key sha p, r, drop (length (rt_requests st)) (rt_requests st2)) # l"
    using Cons.prems(1) by (simp_all add: d r l)
  note f = deliveries_frame[OF l[unfolded st3]]
  obtain new where new: "rt_requests st2 = rt_requests st @ new" "rt_answer st2 = rt_answer st"
      "claim_frame (rt_world st) (rt_world st2)" "w_ticks (rt_world st2) = w_ticks (rt_world st) + 2"
    and other: "webhook_key sha p \<noteq> k \<Longrightarrow> key_expiry (w_db (rt_world st2)) k = key_expiry (w_db (rt_world st)) k"
    and mine: "\<And>x. key_expiry (w_db (rt_world st)) (webhook_key sha p) = Some x \<Longrightarrow> w_clock (rt_world st) (Suc (w_ticks (rt_world st))) \<le> x \<Longrightarrow>
       new = [] \<and> key_expiry (w_db (rt_world st2)) (webhook_key sha p) = Some x"
    by (rule delivery_cases[OF r refl, of False]) auto
  have "w_clock (rt_world st) (Suc (w_ticks (rt_world st))) \<le> x"
    using Cons.prems(3)[of "Suc (w_ticks (rt_world st))"] f new(4) Cons.prems(5) by simp
  then have "key_expiry (w_db (rt_world st2)) k = Some x \<and> (webhook_key sha p = k \<longrightarrow> new = [])"
    using mine Cons.prems(4) other by (cases "webhook_key sha p = k") auto
  moreover have "requests_for k l = []" if "key_expiry (w_db (rt_world st2)) k = Some x"
    using Cons.IH[OF l[unfolded st3] _ _ that Cons.prems(5)] Cons.prems(2,3) new by (auto simp: heard_def claim_frame_def)
  ultimately show ?case by (simp add: trail new)
qed simp

lemma acknowledged_runs:
  assumes "deliveries sha ds st = (trail, st1)" and "calm (rt_world st)" and "carries_run sha k ds"
    and "key_expiry (w_db (rt_world st)) k = None" and "acknowledged k trail"
  shows "requests_for k trail \<noteq> []"
  using assms
proof (induction ds arbitrary: st trail)
  case (Cons d ds)
  obtain parsers p where d: "d = (parsers, p)" by (metis surj_pair)
  obtain r st2 where r: "HandlePaymentWebhook sha parsers p st = (r, st2)" by (metis surj_pair)
  obtain l st3 where l: "deliveries sha ds st2 = (l, st3)" by (metis surj_pair)
  have st3: "st3 = st1" and trail: "trail = (webhook_key sha p, r, drop (length (rt_requests st)) (rt_requests st2)) # l"
    using Cons.prems(1) by (simp_all add: d r l)
  have sure: "starts_run ev" if "parsers (whp_Psp p) = Some psr" "wps_Parse psr (whp_Data p) = Inr ev" "webhook_key sha p = k" for psr ev
    using Cons.prems(3) that by (auto simp: carries_run_def d)
  obtain new where new: "rt_requests st2 = rt_requests st @ new" "claim_frame (rt_world st) (rt_world st2)"
    and other: "webhook_key sha p \<noteq> k \<Longrightarrow> key_expiry (w_db (rt_world st2)) k = key_expiry (w_db (rt_world st)) k"
    and a: "new = [] \<Longrightarrow> \<not> isl r \<Longrightarrow> webhook_key sha p = k \<Longrightarrow> \<exists>x. key_expiry (w_db (rt_world st)) (webhook_key sha p) = Some x \<and>
       key_expiry (w_db (rt_world st2)) (webhook_key sha p) = Some x \<and> w_clock (rt_world st) (Suc (w_ticks (rt_world st))) \<le> x"
    and b: "isl r \<Longrightarrow> key_expiry (w_db (rt_world st2)) (webhook_key sha p) = None"
    by (rule delivery_cases[OF r refl, of "webhook_key sha p = k"], rule sure, assumption+, simp add: Cons.prems(2))
  have mine: "isl r \<and> key_expiry (w_db (rt_world st2)) k = None" if "new = []" "webhook_key sha p = k"
    using a b Cons.prems(4) that by (cases "isl r") auto
  show ?case
  proof (cases "webhook_key sha p = k \<and> new \<noteq> []")
    case False
    then have "key_expiry (w_db (rt_world st2)) k = None" "acknowledged k l"
      using mine other Cons.prems(4,5) by (auto simp: trail)
    moreover have "carries_run sha k ds" using Cons.prems(3) by (simp add: carries_run_def)
    ultimately have "requests_for k l \<noteq> []"
      using Cons.IH[OF l[unfolded st3]] Cons.prems(2) new(2) by (auto simp: claim_frame_def)
    then show ?thesis by (simp add: trail)
  qed (auto simp: trail new)
qed simp

lemma one_request:
  assumes "deliveries sha ds st = (trail, st1)" and "heard st" and "key_expiry (w_db (rt_world st)) k = None"
    and "\<And>n. w_ticks (rt_world st) \<le> n \<Longrightarrow> n < w_ticks (rt_world st1) \<Longrightarrow> t0 \<le> w_clock (rt_world st) n \<and> w_clock (rt_world st) n \<le> t0 + 24 * Hour"
  shows "length (requests_for k trail) \<le> 1 \<and> (requests_for k trail \<noteq> [] \<longrightarrow> acknowledged k trail)"
  using assms
proof (induction ds arbitrary: st trail)
  case (Cons d ds)
  obtain parsers p where d: "d = (parsers, p)" by (metis surj_pair)
  obtain r st2 where r: "HandlePaymentWebhook sha parsers p st = (r, st2)" by (metis surj_pair)
  obtain l st3 where l: "deliveries sha ds st2 = (l, st3)" by (metis surj_pair)
  have st3: "st3 = st1" and trail: "trail = (webhook_key sha p, r, drop (length (rt_requests st)) (rt_requests st2)) # l"
    using Cons.prems(1) by (simp_all add: d r l)
  note l = l[unfolded st3]
  note f = deliveries_frame[OF l]
  obtain new where new: "rt_requests st2 = rt_requests st @ new" "length new \<le> 1" "rt_answer st2 = rt_answer st"
      "claim_frame (rt_world st) (rt_world st2)" "w_ticks (rt_world st2) = w_ticks (rt_world st) + 2"
    and other: "webhook_key sha p \<noteq> k \<Longrightarrow> key_expiry (w_db (rt_world st2)) k = key_expiry (w_db (rt_world st)) k"
    and mine: "new \<noteq> [] \<Longrightarrow> \<not> isl r \<and> key_expiry (w_db (rt_world st2)) (webhook_key sha p) \<noteq> None"
    and claimed: "\<And>x. webhook_key sha p = k \<Longrightarrow> key_expiry (w_db (rt_world st2)) k = Some x \<Longrightarrow>
       x = w_clock (rt_world st) (w_ticks (rt_world st)) + 24 * Hour"
    by (rule delivery_cases[OF r refl, of False]) (use Cons.prems(2,3) in auto)
  have h: "heard st2" using Cons.prems(2) new(3) by (simp add: heard_def)
  have win: "t0 \<le> w_clock (rt_world st2) n \<and> w_clock (rt_world st2) n \<le> t0 + 24 * Hour"
    if "w_ticks (rt_world st2) \<le> n" "n < w_ticks (rt_world st1)" for n
    using Cons.prems(4)[of n] that new by (simp add: claim_frame_def)
  have now: "t0 \<le> w_clock (rt_world st) (w_ticks (rt_world st))"
    using Cons.prems(4)[of "w_ticks (rt_world st)"] f new(5) by simp
  show ?case
  proof (cases "key_expiry (w_db (rt_world st2)) k")
    case None
    then have "webhook_key sha p = k \<Longrightarrow> new = []" using mine by auto
    then show ?thesis using Cons.IH[OF l h None win] by (auto simp: trail new)
  next
    case (Some x)
    then have "webhook_key sha p = k" using other Cons.prems(3) by auto
    then have "requests_for k l = []" using claimed_deliveries[OF l h win Some] claimed[OF _ Some] now by simp
    then show ?thesis using new mine by (auto simp: trail)
  qed
qed simp

text \<open>C27: However often a provider delivers an event within the day its key is claimed for, and
  whatever statements and parsers fail in between, the engine takes at most one request for it;
  and when no statement fails, it takes one exactly if some delivery is acknowledged: an
  event that was answered with an error is taken up by a later delivery.\<close>

theorem webhook_once:
  assumes "deliveries sha ds st = (trail, st1)" and "heard st" and "key_expiry (w_db (rt_world st)) k = None"
    and "\<And>n. w_ticks (rt_world st) \<le> n \<Longrightarrow> n < w_ticks (rt_world st1) \<Longrightarrow> t0 \<le> w_clock (rt_world st) n \<and> w_clock (rt_world st) n \<le> t0 + 24 * Hour"
  shows "length (requests_for k trail) \<le> 1 \<and>
    (calm (rt_world st) \<and> carries_run sha k ds \<longrightarrow> (length (requests_for k trail) = 1 \<longleftrightarrow> acknowledged k trail))"
proof -
  note o = one_request[OF assms]
  have "requests_for k trail \<noteq> []" if "calm (rt_world st)" "carries_run sha k ds" "acknowledged k trail"
    by (rule acknowledged_runs[OF assms(1) that(1,2) assms(3) that(3)])
  then show ?thesis using o by (cases "requests_for k trail") auto
qed

section \<open>Examples\<close>

definition sample_event :: webhook_event where
  "sample_event = \<lparr> wev_Type = PaymentSuccess, wev_OrgId = ''o'', wev_OrderId = ''r'', wev_Payment = sample_webhook, wev_RawData = [] \<rparr>"

definition sample_delivery :: "(gateway \<Rightarrow> webhook_parser option) \<times> webhook_payload" where
  "sample_delivery =
    (\<lambda>_. Some \<lparr> wps_Validate = (\<lambda>_ _. None), wps_Parse = (\<lambda>_. Inr sample_event) \<rparr>,
     \<lparr> whp_Psp = ''x'', whp_Signature = [], whp_Data = ''d'' \<rparr>)"

definition sample_runtime :: "(nat \<Rightarrow> engine_answer) \<Rightarrow> rat world \<Rightarrow> rat runtime" where
  "sample_runtime answers w = \<lparr> rt_world = w, rt_answer = answers, rt_asked = 0, rt_requests = [] \<rparr>"

lemma paymentRunIdentity_sample: "paymentRunIdentity sample_event = Inr (pwh_PspId sample_webhook)"
  by (simp add: paymentRunIdentity_def sample_event_def sample_webhook_def)

lemmas delivery_defs = HandlePaymentWebhook_def process_claimed_def dispatch_event_def Engine_StartWorkflow_def ask_def
  on_world_def IdempotencyKeyRepo_Claim_def IdempotencyKeyRepo_Release_def webhook_key_def bindS_def stmt_def exec_def find_row_def

text \<open>The engine refuses the first request; the event is delivered three times.\<close>

lemma sample_deliveries:
  "case deliveries (\<lambda>s. s) [sample_delivery, sample_delivery, sample_delivery]
      (sample_runtime (\<lambda>n. if n = 0 then Refused ''down'' else Taken) (world_of empty_db (\<lambda>n. int n))) of (trail, st1) \<Rightarrow>
    acknowledged ''x:d'' trail \<and> w_ticks (rt_world st1) = 6"
  by code_simp

theorem webhook_once_witness:
  "length (requests_for ''x:d'' (fst (deliveries (\<lambda>s. s) [sample_delivery, sample_delivery, sample_delivery]
      (sample_runtime (\<lambda>n. if n = 0 then Refused ''down'' else Taken) (world_of empty_db (\<lambda>n. int n)))))) = 1"
proof -
  let ?st = "sample_runtime (\<lambda>n. if n = 0 then Refused ''down'' else Taken) (world_of empty_db (\<lambda>n. int n))"
  obtain trail st1 where run: "deliveries (\<lambda>s. s) [sample_delivery, sample_delivery, sample_delivery] ?st = (trail, st1)"
    and ack: "acknowledged ''x:d'' trail" and t: "w_ticks (rt_world st1) = 6" using sample_deliveries by (auto split: prod.splits)
  have c: "calm (rt_world ?st)" "heard ?st" "key_expiry (w_db (rt_world ?st)) ''x:d'' = None"
    by (auto simp: sample_runtime_def calm_def heard_def world_of_def key_expiry_def find_row_def empty_db_def)
  have s: "carries_run (\<lambda>s. s) ''x:d'' [sample_delivery, sample_delivery, sample_delivery]"
    by (simp add: carries_run_def sample_delivery_def starts_run_def sample_event_def)
  have win: "0 \<le> w_clock (rt_world ?st) n \<and> w_clock (rt_world ?st) n \<le> 0 + 24 * Hour" if "n < w_ticks (rt_world st1)" for n
    using that t by (simp add: sample_runtime_def world_of_def Hour_def Minute_def Second_def)
  show ?thesis using webhook_once[OF run c(2,3), of 0] win c(1) s ack by (simp add: run)
qed

text \<open>When the release fails after an engine that refused, the key stays: the next delivery is
  acknowledged although the engine never took the event.\<close>

theorem failed_release_loses_event:
  "case deliveries (\<lambda>s. s) [sample_delivery, sample_delivery]
      (sample_runtime (\<lambda>n. Refused ''down'') ((world_of empty_db (\<lambda>n. int n))\<lparr>w_fault := (\<lambda>n. if n = 1 then Some ''lost'' else None)\<rparr>)) of
    (trail, st1) \<Rightarrow> acknowledged ''x:d'' trail \<and> rt_requests st1 = []"
  by code_simp

text \<open>An order can own several subscriptions; a charge result is passed to the first one only.\<close>

theorem recurring_signals_first:
  assumes "wev_Type ev = RecurringSuccess"
    and "on_world (SubscriptionRepo_FindByOrderId (wev_OrgId ev) (wev_OrderId ev)) st = (Inr (s # rest), st1)"
    and "rt_answer st (rt_asked st) = Taken"
  shows "\<exists>st2. dispatch_event p ev st = (Inr (), st2) \<and>
    rt_requests st2 = rt_requests st @ [PushEvent (WebhookEventKey (sub_OrgId s) (sub_Id s)) (recurring_result p ev)]"
  using assms find_subs_frame[OF assms(2)] by (auto simp: dispatch_event_def Engine_SignalWebhook_def ask_def Let_def)

theorem recurring_signals_first_witness:
  "\<exists>st2. dispatch_event (snd sample_delivery) (sample_event\<lparr>wev_Type := RecurringSuccess, wev_OrderId := sub_OrderId minute_sub,
      wev_OrgId := sub_OrgId minute_sub\<rparr>) (sample_runtime (\<lambda>_. Taken) (world_of (empty_db\<lparr>t_subscriptions := [minute_sub]\<rparr>) (\<lambda>n. int n))) = (Inr (), st2)
    \<and> length (rt_requests st2) = 1"
proof -
  let ?ev = "sample_event\<lparr>wev_Type := RecurringSuccess, wev_OrderId := sub_OrderId minute_sub, wev_OrgId := sub_OrgId minute_sub\<rparr>"
  let ?st = "sample_runtime (\<lambda>_. Taken) (world_of (empty_db\<lparr>t_subscriptions := [minute_sub]\<rparr>) (\<lambda>n. int n))"
  have "\<exists>st1. on_world (SubscriptionRepo_FindByOrderId (wev_OrgId ?ev) (wev_OrderId ?ev)) ?st = (Inr (minute_sub # []), st1)"
    by (simp add: on_world_def SubscriptionRepo_FindByOrderId_def sel_def stmt_def sample_runtime_def world_of_def empty_db_def)
  then show ?thesis using recurring_signals_first[of ?ev ?st minute_sub "[]" _ "snd sample_delivery"] by (auto simp: sample_runtime_def)
qed

end
