(* ===== verification/Payment_Jobs.thy ===== *)
theory Payment_Jobs
  imports Webhooks
begin

text \<open>
  What the engine runs for an event, and what else the services ask of it: the job that
  completes an order and starts its subscriptions
  (src/internal/adapter/hatchet/workflows/payment_success.go), the job that records a refund
  (payment_refunded.go there, with src/internal/core/service/payment.go), the fan-out of
  events to the endpoints a tenant has registered (src/internal/core/service/workflow.go)
  and the transitions of a subscription that are passed to the engine
  (src/internal/core/service/subscription_orchestration.go and subscription_event_bridge.go).
  How often the engine runs a failed task again is an input, bounded by the number the
  task declares.
\<close>

section \<open>Starting the lifecycle of a subscription\<close>

text \<open>strconv.Itoa.\<close>

definition Itoa :: "int \<Rightarrow> string" where
  "Itoa n = (if n < 0 then CHR ''-'' # show_nat (nat (- n)) else show_nat (nat n))"

definition BillingRunKey :: "string \<Rightarrow> string \<Rightarrow> int \<Rightarrow> string" where
  "BillingRunKey orgId subscriptionId cycle = ''billing_'' @ orgId @ ''_'' @ subscriptionId @ ''_'' @ Itoa cycle"

text \<open>A subscription that is due is charged at once; any other waits for the sweep.\<close>

definition Engine_StartSubscriptionWorkflow :: "subscription \<Rightarrow> 'd runtime \<Rightarrow> unit res \<times> 'd runtime" where
  "Engine_StartSubscriptionWorkflow s st =
    (case on_world nowS st of
       (Inl e, st1) \<Rightarrow> (Inl e, st1)
     | (Inr now, st1) \<Rightarrow>
         if \<not> IsDueForBilling s now then (Inr (), st1)
         else ask (RunBillingCycleRunner (BillingRunKey (sub_OrgId s) (sub_Id s) (sub_CyclesProcessed s)) s) st1)"

fun start_subscriptions :: "subscription list \<Rightarrow> 'd runtime \<Rightarrow> unit res \<times> 'd runtime" where
  "start_subscriptions [] st = (Inr (), st)"
| "start_subscriptions (s # subs) st =
    (case Engine_StartSubscriptionWorkflow s st of
       (Inl e, st1) \<Rightarrow> (Inl (WrapError (''start subscription workflow '' @ sub_Id s) e), st1)
     | (Inr _, st1) \<Rightarrow> start_subscriptions subs st1)"

section \<open>The job of a successful payment\<close>

definition isPermanentCompleteOrderError :: "app_error \<Rightarrow> bool" where
  "isPermanentCompleteOrderError e \<longleftrightarrow> is_not_found e \<or>
    (case as_custom e of Some (ty, _) \<Rightarrow> ty \<in> {BadRequestError, ConflictError, NotFoundError, ValidationError} | None \<Rightarrow> False)"

text \<open>Run a task again after an error that is not permanent.\<close>

fun retry_task :: "(app_error \<Rightarrow> bool) \<Rightarrow> nat \<Rightarrow> ('s \<Rightarrow> 'a res \<times> 's) \<Rightarrow> 's \<Rightarrow> 'a res \<times> 's" where
  "retry_task permanent 0 m st = m st"
| "retry_task permanent (Suc n) m st =
    (case m st of
       (Inl e, st1) \<Rightarrow> if permanent e then (Inl e, st1) else retry_task permanent n m st1
     | (Inr x, st1) \<Rightarrow> (Inr x, st1))"

text \<open>How often the engine runs the three tasks again.\<close>

record task_retries =
  trt_complete :: nat
  trt_subscriptions :: nat
  trt_start :: nat

definition payment_success_job :: "'d billing_env \<Rightarrow> task_retries \<Rightarrow> webhook_event \<Rightarrow> 'd runtime \<Rightarrow> subscription list res \<times> 'd runtime" where
  "payment_success_job E n ev st =
    (case retry_task isPermanentCompleteOrderError (min 10 (trt_complete n))
            (on_world (CompleteCheckoutSession E (wev_OrgId ev) (wev_OrderId ev) (wev_Payment ev))) st of
       (Inl e, st1) \<Rightarrow> (Inl e, st1)
     | (Inr _, st1) \<Rightarrow>
        (case retry_task (\<lambda>_. False) (min 10 (trt_subscriptions n))
                (on_world (SubscriptionRepo_FindByOrderId (wev_OrgId ev) (wev_OrderId ev))) st1 of
           (Inl e, st2) \<Rightarrow> (Inl e, st2)
         | (Inr subs, st2) \<Rightarrow>
            (case retry_task (\<lambda>_. False) (min 5 (trt_start n)) (start_subscriptions subs) st2 of
               (Inl e, st3) \<Rightarrow> (Inl e, st3)
             | (Inr _, st3) \<Rightarrow> (Inr subs, st3))))"

section \<open>Refunds\<close>

definition PaymentRepo_FindByPspId :: "string \<Rightarrow> string \<Rightarrow> ('d, payment) svc" where
  "PaymentRepo_FindByPspId orgId pspId =
    selOne (\<lambda>db. find (\<lambda>p. pay_OrgId p = orgId \<and> col_eq (pay_PspId p) pspId) (t_payments db))"

definition rfd_key :: "refund \<Rightarrow> string \<times> string" where
  "rfd_key r = (rfd_OrgId r, rfd_Id r)"

definition PaymentRepo_CreateRefund :: "refund \<Rightarrow> ('d, refund) svc" where
  "PaymentRepo_CreateRefund entity =
    bindS (exec (\<lambda>db. map_option (\<lambda>rs. db\<lparr>t_refunds := rs\<rparr>)
                  (insert_row (\<lambda>a b. rfd_key a = rfd_key b) entity (t_refunds db)))) (\<lambda>_.
    selOne (\<lambda>db. find_row rfd_key (rfd_key entity) (t_refunds db)))"

definition ProcessRefund :: "webhook_event \<Rightarrow> ('d, payment) svc" where
  "ProcessRefund ev =
    bindS (PaymentRepo_FindByPspId (wev_OrgId ev) (pwh_PspId (wev_Payment ev))) (\<lambda>p.
    bindS (PaymentRepo_Update (p\<lparr>pay_Status := PaymentStatusRefunded\<rparr>)) (\<lambda>newPayment.
    bindS nowS (\<lambda>now.
    bindS (Generate ''refund'') (\<lambda>rid.
    bindS (PaymentRepo_CreateRefund
      \<lparr> rfd_OrgId = wev_OrgId ev, rfd_Id = rid, rfd_PspRefundId = [], rfd_PaymentId = pay_Id p,
        rfd_Amount = pwh_Amount (wev_Payment ev), rfd_Currency = pwh_Currency (wev_Payment ev), rfd_Reason = [],
        rfd_RefundedAt = now, rfd_CreatedAt = now, rfd_UpdatedAt = now \<rparr>) (\<lambda>_.
    retS newPayment)))))"

definition payment_refunded_job :: "nat \<Rightarrow> webhook_event \<Rightarrow> ('d, payment) svc" where
  "payment_refunded_job n ev = retry_task (\<lambda>_. False) (min 10 n) (ProcessRefund ev)"

section \<open>Events for the endpoints of a tenant\<close>

definition WebhookSubscriptionRepo_GetByID :: "string \<Rightarrow> string \<Rightarrow> ('d, webhook_subscription) svc" where
  "WebhookSubscriptionRepo_GetByID orgId wid =
    selOne (\<lambda>db. find_row (\<lambda>r. (whs_OrgID r, whs_Id r)) (orgId, wid) (t_webhooks db))"

text \<open>The identifier alone is the primary key.\<close>

definition WebhookSubscriptionRepo_Create :: "webhook_subscription \<Rightarrow> ('d, webhook_subscription) svc" where
  "WebhookSubscriptionRepo_Create entity =
    bindS (exec (\<lambda>db. map_option (\<lambda>rs. db\<lparr>t_webhooks := rs\<rparr>)
                  (insert_row (\<lambda>a b. whs_Id a = whs_Id b) entity (t_webhooks db)))) (\<lambda>_.
    WebhookSubscriptionRepo_GetByID (whs_OrgID entity) (whs_Id entity))"

definition WebhookSubscriptionRepo_FindByEvent :: "string \<Rightarrow> string \<Rightarrow> ('d, webhook_subscription list) svc" where
  "WebhookSubscriptionRepo_FindByEvent orgId event =
    sel (\<lambda>db. filter (\<lambda>r. whs_OrgID r = orgId \<and> event \<in> set (whs_Events r)) (t_webhooks db))"

definition WebhookSubscriptionRepo_Update :: "webhook_subscription \<Rightarrow> ('d, webhook_subscription) svc" where
  "WebhookSubscriptionRepo_Update entity =
    bindS (exec (\<lambda>db. Some (db\<lparr>t_webhooks := update_row (\<lambda>r. (whs_OrgID r, whs_Id r))
        (\<lambda>old r. r\<lparr>whs_CreatedAt := whs_CreatedAt old\<rparr>) entity (t_webhooks db)\<rparr>))) (\<lambda>_.
    WebhookSubscriptionRepo_GetByID (whs_OrgID entity) (whs_Id entity))"

definition WebhookSubscriptionRepo_Delete :: "string \<Rightarrow> ('d, unit) svc" where
  "WebhookSubscriptionRepo_Delete wid = exec (\<lambda>db. Some (db\<lparr>t_webhooks := filter (\<lambda>r. whs_Id r \<noteq> wid) (t_webhooks db)\<rparr>))"

text \<open>Register an endpoint; safe is the check of its address.\<close>

definition WebhookSubscriptionService_Create ::
    "(string \<Rightarrow> app_error option) \<Rightarrow> string \<Rightarrow> string list \<Rightarrow> string \<Rightarrow> string \<Rightarrow> ('d, webhook_subscription) svc" where
  "WebhookSubscriptionService_Create safe orgId events url secret =
    (case safe url of Some e \<Rightarrow> failS e
     | None \<Rightarrow>
        bindS (Generate ''webhook'') (\<lambda>wid.
        bindS nowS (\<lambda>createdAt.
        bindS nowS (\<lambda>updatedAt.
        bindS (WebhookSubscriptionRepo_Create \<lparr> whs_OrgID = orgId, whs_Id = wid, whs_Events = events, whs_URL = url,
                 whs_Secret = secret, whs_CreatedAt = createdAt, whs_UpdatedAt = updatedAt \<rparr>) (\<lambda>webhook.
        bindS (ignoreS (Publish orgId ''webhook.created'' (MsgWebhook webhook))) (\<lambda>_.
        retS webhook))))))"

text \<open>Every endpoint gets a run of its own; a start that fails is logged.\<close>

fun start_outgoing :: "'d outbox_event \<Rightarrow> webhook_subscription list \<Rightarrow> 'd runtime \<Rightarrow> 'd runtime" where
  "start_outgoing ev [] st = st"
| "start_outgoing ev (sub # subs) st = start_outgoing ev subs (snd (Engine_StartWorkflow (WorkflowOutgoingWebhook sub ev) st))"

text \<open>The message as received, or None where it does not decode.\<close>

definition HandleOutboundWebhook :: "'d outbox_event option \<Rightarrow> 'd runtime \<Rightarrow> 'd runtime" where
  "HandleOutboundWebhook payload st =
    (case payload of None \<Rightarrow> st
     | Some ev \<Rightarrow>
        (case on_world (WebhookSubscriptionRepo_FindByEvent (obx_OrgId ev) (obx_Topic ev)) st of
           (Inl _, st1) \<Rightarrow> st1
         | (Inr subs, st1) \<Rightarrow> start_outgoing ev subs st1))"

section \<open>Transitions that are passed to the engine\<close>

text \<open>The adapter has no run to update: both calls succeed without an effect.\<close>

definition Engine_UpdateSubscriptionWorkflow :: "string \<Rightarrow> subscription \<Rightarrow> 'd runtime \<Rightarrow> unit res \<times> 'd runtime" where
  "Engine_UpdateSubscriptionWorkflow updateName s st = (Inr (), st)"

definition Orchestration_Activate :: "string \<Rightarrow> string \<Rightarrow> 'd runtime \<Rightarrow> subscription res \<times> 'd runtime" where
  "Orchestration_Activate orgId sid st =
    (case on_world (Activate orgId sid) st of
       (Inl e, st1) \<Rightarrow> (Inl e, st1)
     | (Inr s, st1) \<Rightarrow> (case Engine_StartSubscriptionWorkflow s st1 of
         (Inl e, st2) \<Rightarrow> (Inl e, st2) | (Inr _, st2) \<Rightarrow> (Inr s, st2)))"

definition engine_error :: "app_error \<Rightarrow> app_error" where
  "engine_error e = (if as_custom e \<noteq> None then e else NewCustomError InternalError [] (Some e))"

text \<open>A transition, then the engine, then the event; the subscription handed out beside an error is dropped.\<close>

definition orchestrate :: "'d transition \<Rightarrow> string \<Rightarrow> 'd runtime \<Rightarrow> subscription res \<times> 'd runtime" where
  "orchestrate step topic st =
    (case step (rt_world st) of
       (Inl (_, e), w) \<Rightarrow> (Inl e, st\<lparr>rt_world := w\<rparr>)
     | (Inr s, w) \<Rightarrow>
        (case Engine_UpdateSubscriptionWorkflow topic s (st\<lparr>rt_world := w\<rparr>) of
           (Inl e, st1) \<Rightarrow> (Inl (engine_error e), st1)
         | (Inr _, st1) \<Rightarrow> (case on_world (ignoreS (Publish (sub_OrgId s) topic (MsgSubscription s))) st1 of
             (_, st2) \<Rightarrow> (Inr s, st2))))"

definition Orchestration_PauseSubscription :: "string \<Rightarrow> string \<Rightarrow> 'd runtime \<Rightarrow> subscription res \<times> 'd runtime" where
  "Orchestration_PauseSubscription orgId sid = orchestrate (PauseSubscription orgId sid) ''subscription.paused''"

definition Orchestration_ResumeSubscription :: "string \<Rightarrow> string \<Rightarrow> resume_behavior \<Rightarrow> 'd runtime \<Rightarrow> subscription res \<times> 'd runtime" where
  "Orchestration_ResumeSubscription orgId sid behavior = orchestrate (ResumeSubscription orgId sid behavior) ''subscription.resumed''"

definition Orchestration_CancelSubscription ::
    "string \<Rightarrow> string \<Rightarrow> outstanding_invoice_action \<Rightarrow> 'd runtime \<Rightarrow> subscription res \<times> 'd runtime" where
  "Orchestration_CancelSubscription orgId sid action = orchestrate (CancelSubscription orgId sid action) ''subscription.cancelled''"

definition Orchestration_UpdateWorkflowState :: "string \<Rightarrow> string \<Rightarrow> 'd runtime \<Rightarrow> subscription res \<times> 'd runtime" where
  "Orchestration_UpdateWorkflowState orgId sid st =
    (case on_world (SubscriptionRepo_FindById orgId sid) st of
       (Inl e, st1) \<Rightarrow> (Inl (NewCustomError NotFoundError ''Not found'' (Some e)), st1)
     | (Inr s, st1) \<Rightarrow> (case Engine_UpdateSubscriptionWorkflow ''refresh-state'' s st1 of
         (Inl e, st2) \<Rightarrow> (Inl (engine_error e), st2) | (Inr _, st2) \<Rightarrow> (Inr s, st2)))"

text \<open>The bridge forwards the topic of a pause and drops every other; sub is the decoded message.\<close>

definition SubscriptionEventBridge_Handle :: "string \<Rightarrow> subscription option \<Rightarrow> 'd runtime \<Rightarrow> 'd runtime" where
  "SubscriptionEventBridge_Handle topic sub st =
    (case sub of None \<Rightarrow> st
     | Some s \<Rightarrow> if topic = ''subscription.paused'' then snd (Engine_UpdateSubscriptionWorkflow topic s st) else st)"

section \<open>An order is completed by one job\<close>

text \<open>What running a task again preserves.\<close>

lemma retry_task_rule:
  assumes "retry_task permanent n m st = (r, st1)" and "I st"
    and "\<And>s e s1. I s \<Longrightarrow> m s = (Inl e, s1) \<Longrightarrow> I s1 \<and> P (Inl e) s1"
    and "\<And>s x s1. I s \<Longrightarrow> m s = (Inr x, s1) \<Longrightarrow> P (Inr x) s1"
  shows "P r st1"
  using assms(1,2)
proof (induction n arbitrary: st)
  case 0
  then show ?case using assms(3,4) by (cases r) auto
next
  case (Suc n)
  obtain q s1 where q: "m st = (q, s1)" by (metis surj_pair)
  show ?case
  proof (cases q)
    case (Inl e)
    then show ?thesis using Suc q assms(3)[OF Suc.prems(2)] by (auto split: if_splits)
  next
    case (Inr x)
    then show ?thesis using Suc q assms(4)[OF Suc.prems(2)] by auto
  qed
qed

text \<open>A step that completes an order, or changes nothing.\<close>

definition completes :: "string \<Rightarrow> string \<Rightarrow> 'd db \<Rightarrow> 'd db \<Rightarrow> bool" where
  "completes a i d d1 \<longleftrightarrow> d1 = d \<or> \<not> is_completed d a i \<and> is_completed d1 a i"

lemma complete_task:
  assumes "retry_task permanent n (on_world (CompleteCheckoutSession E a i pw)) st = (r, st1)"
  shows "completes a i (w_db (rt_world st)) (w_db (rt_world st1)) \<and> (\<not> isl r \<longrightarrow> is_completed (w_db (rt_world st1)) a i)"
proof -
  let ?d = "w_db (rt_world st)"
  show ?thesis
  proof (rule retry_task_rule[where I = "\<lambda>s. w_db (rt_world s) = ?d" and m = "on_world (CompleteCheckoutSession E a i pw)",
        OF assms refl], goal_cases)
    case (1 s e s1)
    then obtain w where "CompleteCheckoutSession E a i pw (rt_world s) = (Inl e, w)" "s1 = s\<lparr>rt_world := w\<rparr>"
      by (auto simp: on_world_def split: prod.splits)
    then show ?case using CompleteCheckoutSession_run[of E a i pw "rt_world s" "Inl e" w] 1 by (simp add: completes_def)
  next
    case (2 s x s1)
    then obtain w where "CompleteCheckoutSession E a i pw (rt_world s) = (Inr x, w)" "s1 = s\<lparr>rt_world := w\<rparr>"
      by (auto simp: on_world_def split: prod.splits)
    then show ?case using CompleteCheckoutSession_run[of E a i pw "rt_world s" "Inr x" w] 2 by (auto simp: completes_def is_completed_def)
  qed
qed

lemma find_task:
  assumes "retry_task permanent n (on_world (SubscriptionRepo_FindByOrderId a i)) st = (r, st1)"
  shows "w_db (rt_world st1) = w_db (rt_world st) \<and> rt_requests st1 = rt_requests st \<and> w_clock (rt_world st1) = w_clock (rt_world st)"
  by (rule retry_task_rule[where I = "\<lambda>s. w_db (rt_world s) = w_db (rt_world st) \<and> rt_requests s = rt_requests st \<and> w_clock (rt_world s) = w_clock (rt_world st)", OF assms])
    (auto dest!: find_subs_frame simp: claim_frame_def)

text \<open>The requests of a start are those of subscriptions that are due.\<close>

definition start_request :: "subscription \<Rightarrow> 'd engine_request" where
  "start_request s = RunBillingCycleRunner (BillingRunKey (sub_OrgId s) (sub_Id s) (sub_CyclesProcessed s)) s"

definition starts :: "subscription list \<Rightarrow> bool \<Rightarrow> 'd runtime \<Rightarrow> 'd runtime \<Rightarrow> bool" where
  "starts subs full st st1 \<longleftrightarrow>
    w_db (rt_world st1) = w_db (rt_world st) \<and> w_clock (rt_world st1) = w_clock (rt_world st) \<and>
    (\<exists>new. rt_requests st1 = rt_requests st @ new \<and> set new \<subseteq> start_request ` set subs \<and>
      (full \<longrightarrow> (\<forall>s\<in>set subs. (\<forall>n. IsDueForBilling s (w_clock (rt_world st) n)) \<longrightarrow> start_request s \<in> set new)))"

lemma starts_append:
  assumes "starts xs c1 st st1" and "starts ys c2 st1 st2" and "set xs \<subseteq> set zs" and "set ys \<subseteq> set zs"
    and "c \<Longrightarrow> (\<forall>z\<in>set zs. c1 \<and> z \<in> set xs \<or> c2 \<and> z \<in> set ys)"
  shows "starts zs c st st2"
proof -
  from assms(1,2) obtain n1 n2 where n: "rt_requests st2 = rt_requests st @ n1 @ n2"
      "set n1 \<subseteq> start_request ` set xs" "set n2 \<subseteq> start_request ` set ys"
    and d: "c1 \<longrightarrow> (\<forall>s\<in>set xs. (\<forall>n. IsDueForBilling s (w_clock (rt_world st) n)) \<longrightarrow> start_request s \<in> set n1)"
      "c2 \<longrightarrow> (\<forall>s\<in>set ys. (\<forall>n. IsDueForBilling s (w_clock (rt_world st) n)) \<longrightarrow> start_request s \<in> set n2)"
    unfolding starts_def by auto
  have "set (n1 @ n2) \<subseteq> start_request ` set zs" using n image_mono[OF assms(3), of start_request] image_mono[OF assms(4), of start_request] by auto
  moreover have "start_request s \<in> set (n1 @ n2)"
    if "c" "s \<in> set zs" "\<forall>n. IsDueForBilling s (w_clock (rt_world st) n)" for s
    using assms(5)[OF that(1)] that d by auto
  ultimately show ?thesis using assms(1,2) n(1) unfolding starts_def by auto
qed

lemma start_one:
  assumes "Engine_StartSubscriptionWorkflow s st = (r, st1)"
  shows "starts [s] (\<not> isl r) st st1"
  using assms by (auto simp: Engine_StartSubscriptionWorkflow_def on_world_def ask_def start_request_def starts_def Let_def
      split: if_splits engine_answer.splits)

lemma start_all: "start_subscriptions subs st = (r, st1) \<Longrightarrow> starts subs (\<not> isl r) st st1"
proof (induction subs arbitrary: st)
  case (Cons s subs)
  obtain q st2 where q: "Engine_StartSubscriptionWorkflow s st = (q, st2)" by (metis surj_pair)
  show ?case
  proof (cases q)
    case (Inl e)
    then have "isl r" "st1 = st2" using Cons.prems q by auto
    then show ?thesis using start_one[OF q] by (auto simp: starts_def)
  next
    case (Inr u)
    then have "start_subscriptions subs st2 = (r, st1)" using Cons.prems q by simp
    from start_one[OF q] Cons.IH[OF this] show ?thesis by (rule starts_append) (use Inr in auto)
  qed
qed (auto simp: starts_def)

lemma start_task:
  assumes "retry_task permanent n (start_subscriptions subs) st = (r, st1)"
  shows "starts subs (\<not> isl r) st st1"
proof (rule retry_task_rule[where I = "starts subs False st" and m = "start_subscriptions subs", OF assms])
  show "starts subs False st st" by (auto simp: starts_def)
  show "starts subs False st s1 \<and> starts subs (\<not> isl (Inl e)) st s1"
    if "starts subs False st s" "start_subscriptions subs s = (Inl e, s1)" for s e s1
    using starts_append[OF that(1) start_all[OF that(2)]] by simp
  show "starts subs (\<not> isl (Inr x)) st s1"
    if "starts subs False st s" "start_subscriptions subs s = (Inr x, s1)" for s x s1
    by (rule starts_append[OF that(1) start_all[OF that(2)]]) simp_all
qed

lemma payment_job:
  assumes "payment_success_job E n ev st = (r, st1)"
  shows "completes (wev_OrgId ev) (wev_OrderId ev) (w_db (rt_world st)) (w_db (rt_world st1))"
    and "r = Inr subs \<Longrightarrow> is_completed (w_db (rt_world st1)) (wev_OrgId ev) (wev_OrderId ev) \<and>
      (\<exists>st2. w_db (rt_world st2) = w_db (rt_world st1) \<and> starts subs True st2 st1)"
proof -
  let ?a = "wev_OrgId ev" and ?i = "wev_OrderId ev"
  obtain q st2 where q: "retry_task isPermanentCompleteOrderError (min 10 (trt_complete n))
      (on_world (CompleteCheckoutSession E ?a ?i (wev_Payment ev))) st = (q, st2)" by (metis surj_pair)
  obtain q1 st3 where q1: "retry_task (\<lambda>_. False) (min 10 (trt_subscriptions n)) (on_world (SubscriptionRepo_FindByOrderId ?a ?i)) st2 = (q1, st3)"
    by (metis surj_pair)
  have "w_db (rt_world st1) = w_db (rt_world st2) \<and> (\<not> isl r \<longrightarrow> \<not> isl q) \<and>
      (r = Inr subs \<longrightarrow> (\<exists>st2. w_db (rt_world st2) = w_db (rt_world st1) \<and> starts subs True st2 st1))"
  proof (cases "isl q \<or> isl q1")
    case True
    then show ?thesis using assms q q1 find_task[OF q1] by (auto simp: payment_success_job_def split: sum.splits)
  next
    case False
    then obtain o1 xs where qs: "q = Inr o1" "q1 = Inr xs" by (metis isl_def sum.exhaust_sel)
    obtain q2 st4 where q2: "retry_task (\<lambda>_. False) (min 5 (trt_start n)) (start_subscriptions xs) st3 = (q2, st4)" by (metis surj_pair)
    have "st1 = st4 \<and> (r = Inr subs \<longrightarrow> \<not> isl q2 \<and> xs = subs)"
      using assms q q1 qs q2 by (auto simp: payment_success_job_def split: sum.splits)
    then show ?thesis using find_task[OF q1] start_task[OF q2] qs by (auto simp: starts_def)
  qed
  then show "completes ?a ?i (w_db (rt_world st)) (w_db (rt_world st1))" "r = Inr subs \<Longrightarrow> is_completed (w_db (rt_world st1)) ?a ?i \<and>
      (\<exists>st2. w_db (rt_world st2) = w_db (rt_world st1) \<and> starts subs True st2 st1)"
    using complete_task[OF q] by auto
qed

text \<open>The databases before, between and after a sequence of jobs.\<close>

fun job_states :: "'d billing_env \<Rightarrow> (task_retries \<times> webhook_event) list \<Rightarrow> 'd runtime \<Rightarrow> 'd db list" where
  "job_states E [] st = [w_db (rt_world st)]"
| "job_states E ((n, ev) # jobs) st = w_db (rt_world st) # job_states E jobs (snd (payment_success_job E n ev st))"

lemma job_states_head: "\<exists>ds. job_states E jobs st = w_db (rt_world st) # ds"
  by (cases jobs) auto

lemma completed_jobs:
  assumes "\<forall>(n, ev) \<in> set jobs. wev_OrgId ev = a \<and> wev_OrderId ev = i" and "is_completed (w_db (rt_world st)) a i"
  shows "set (job_states E jobs st) = {w_db (rt_world st)}"
  using assms
proof (induction jobs arbitrary: st)
  case (Cons j jobs)
  obtain n ev where j: "j = (n, ev)" by (metis surj_pair)
  obtain r st1 where r: "payment_success_job E n ev st = (r, st1)" by (metis surj_pair)
  have "w_db (rt_world st1) = w_db (rt_world st)" using payment_job(1)[OF r] Cons.prems j by (auto simp: completes_def)
  then show ?case using Cons.IH[of st1] Cons.prems j r by auto
qed simp

lemma remdups_adj_singleton: "set xs \<subseteq> {x} \<Longrightarrow> length (remdups_adj xs) \<le> 1"
proof -
  assume "set xs \<subseteq> {x}"
  then have "xs = replicate (length xs) x" by (metis replicate_length_same singletonD subsetD)
  then have "remdups_adj xs = remdups_adj (replicate (length xs) x)" by (rule arg_cong)
  then show ?thesis by (simp add: remdups_adj_replicate)
qed

lemma remdups_adj_cons: "length (remdups_adj (x # xs)) \<le> Suc (length (remdups_adj xs))"
  by (cases xs) simp_all

lemma job_changes_once:
  assumes "\<forall>(n, ev) \<in> set jobs. wev_OrgId ev = a \<and> wev_OrderId ev = i"
  shows "length (remdups_adj (job_states E jobs st)) \<le> 2"
  using assms
proof (induction jobs arbitrary: st)
  case (Cons j jobs)
  obtain n ev where j: "j = (n, ev)" by (metis surj_pair)
  obtain r st1 where r: "payment_success_job E n ev st = (r, st1)" by (metis surj_pair)
  obtain ds where ds: "job_states E jobs st1 = w_db (rt_world st1) # ds" using job_states_head by blast
  show ?case
  proof (cases "w_db (rt_world st1) = w_db (rt_world st)")
    case True
    then show ?thesis using Cons.IH[of st1] Cons.prems j r ds by simp
  next
    case False
    then have "is_completed (w_db (rt_world st1)) a i" using payment_job(1)[OF r] Cons.prems j by (auto simp: completes_def)
    then have "length (remdups_adj (job_states E jobs st1)) \<le> 1"
      using completed_jobs[of jobs a i st1 E] Cons.prems by (intro remdups_adj_singleton[of _ "w_db (rt_world st1)"]) auto
    then show ?thesis using remdups_adj_cons[of "w_db (rt_world st)" "job_states E jobs st1"] by (simp add: j r)
  qed
qed simp


section \<open>A refund\<close>

lemma PaymentRepo_Update_ok:
  assumes "PaymentRepo_Update p w = (Inr q, w1)"
  shows "w_db w1 = (w_db w)\<lparr>t_payments := update_row pay_key pay_merge p (t_payments (w_db w))\<rparr> \<and>
    find_row pay_key (pay_key p) (t_payments (w_db w1)) = Some q"
  using assms by (auto simp: PaymentRepo_Update_def PaymentRepo_FindById_def ok_simps pay_key_def)

lemma PaymentRepo_FindByPspId_ok:
  assumes "PaymentRepo_FindByPspId orgId pspId w = (Inr p, w1)"
  shows "w_db w1 = w_db w \<and> p \<in> set (t_payments (w_db w)) \<and> pay_OrgId p = orgId \<and> pay_PspId p = pspId"
  using assms by (auto simp: PaymentRepo_FindByPspId_def ok_simps col_eq_def find_Some_iff)

lemma PaymentRepo_CreateRefund_ok:
  assumes "PaymentRepo_CreateRefund r w = (Inr q, w1)"
  shows "w_db w1 = (w_db w)\<lparr>t_refunds := t_refunds (w_db w) @ [r]\<rparr>"
  using assms by (auto simp: PaymentRepo_CreateRefund_def ok_simps insert_row_def split: if_splits)

lemma find_updated_payment:
  assumes "find_row pay_key (pay_key p) (update_row pay_key pay_merge p rows) = Some q"
  shows "\<exists>old\<in>set rows. q = pay_merge old p"
proof -
  from assms obtain x where x: "x \<in> set (update_row pay_key pay_merge p rows)" "pay_key x = pay_key p" "x = q"
    by (auto simp: find_row_def find_Some_iff in_set_conv_nth)
  then show ?thesis by (auto simp: update_row_def pay_merge_def pay_key_def split: if_splits)
qed

text \<open>A refund that is reported as processed appends one refund row with the amount of the
  event for a payment the provider's identifier names, and leaves that payment refunded with its amount
  unchanged, in the organisation of the event; no other table is written.  The payment is
  refunded as a whole also when the event carries a part of its amount.\<close>

theorem refund_recorded:
  assumes "ProcessRefund ev w = (Inr p1, w1)"
  shows "\<exists>p r. p \<in> set (t_payments (w_db w)) \<and> pay_OrgId p = wev_OrgId ev \<and> pay_PspId p = pwh_PspId (wev_Payment ev) \<and>
    pay_key p1 = pay_key p \<and> pay_Status p1 = PaymentStatusRefunded \<and> pay_Amount p1 = pay_Amount p \<and>
    find_row pay_key (pay_key p) (t_payments (w_db w1)) = Some p1 \<and>
    rfd_PaymentId r = pay_Id p \<and> rfd_OrgId r = wev_OrgId ev \<and> rfd_Amount r = pwh_Amount (wev_Payment ev) \<and>
    t_refunds (w_db w1) = t_refunds (w_db w) @ [r] \<and>
    w_db w1 = (w_db w)\<lparr>t_payments := update_row pay_key pay_merge (p\<lparr>pay_Status := PaymentStatusRefunded\<rparr>) (t_payments (w_db w)),
                       t_refunds := t_refunds (w_db w) @ [r]\<rparr>"
proof -
  from assms obtain p w2 w3 w4 r q where f: "PaymentRepo_FindByPspId (wev_OrgId ev) (pwh_PspId (wev_Payment ev)) w = (Inr p, w2)"
    and u: "PaymentRepo_Update (p\<lparr>pay_Status := PaymentStatusRefunded\<rparr>) w2 = (Inr p1, w3)"
    and c: "PaymentRepo_CreateRefund r w4 = (Inr q, w1)" and w4: "w_db w4 = w_db w3"
    and r: "rfd_PaymentId r = pay_Id p" "rfd_OrgId r = wev_OrgId ev" "rfd_Amount r = pwh_Amount (wev_Payment ev)"
    unfolding ProcessRefund_def by (elim bindS_InrE) fastforce
  note f = PaymentRepo_FindByPspId_ok[OF f] and u = PaymentRepo_Update_ok[OF u] and c = PaymentRepo_CreateRefund_ok[OF c]
  have k: "pay_key (p\<lparr>pay_Status := PaymentStatusRefunded\<rparr>) = pay_key p" by (simp add: pay_key_def)
  have "find_row pay_key (pay_key (p\<lparr>pay_Status := PaymentStatusRefunded\<rparr>))
      (update_row pay_key pay_merge (p\<lparr>pay_Status := PaymentStatusRefunded\<rparr>) (t_payments (w_db w2))) = Some p1"
    using u by (metis (no_types, lifting) db.select_convs(2) db.surjective db.update_convs(2))
  from find_updated_payment[OF this] obtain old where old: "p1 = pay_merge old (p\<lparr>pay_Status := PaymentStatusRefunded\<rparr>)" by blast
  show ?thesis
    by (intro exI[of _ p] exI[of _ r] conjI) (use f u c w4 r k old in \<open>auto simp: pay_merge_def pay_key_def\<close>)
qed

section \<open>Events for the endpoints\<close>

lemma start_outgoing_requests:
  assumes "\<And>n. rt_answer st n = Taken"
  shows "rt_requests (start_outgoing ev subs st) = rt_requests st @ map (\<lambda>s. RunOutgoingWebhook s ev) subs"
  using assms
proof (induction subs arbitrary: st)
  case (Cons s subs)
  then show ?case by (simp add: Engine_StartWorkflow_def ask_def Let_def)
qed simp

text \<open>An event that is published reaches every endpoint its organisation has registered for
  the topic, each by one request of its own in the order of registration, and no endpoint of
  another organisation; the database is left alone.\<close>

theorem outbound_fanout:
  assumes "calm (rt_world st)" and "\<And>n. rt_answer st n = Taken"
  shows "rt_requests (HandleOutboundWebhook (Some ev) st) = rt_requests st @
      map (\<lambda>s. RunOutgoingWebhook s ev)
        (filter (\<lambda>r. whs_OrgID r = obx_OrgId ev \<and> obx_Topic ev \<in> set (whs_Events r)) (t_webhooks (w_db (rt_world st))))"
proof -
  let ?subs = "filter (\<lambda>r. whs_OrgID r = obx_OrgId ev \<and> obx_Topic ev \<in> set (whs_Events r)) (t_webhooks (w_db (rt_world st)))"
  obtain w where "on_world (WebhookSubscriptionRepo_FindByEvent (obx_OrgId ev) (obx_Topic ev)) st = (Inr ?subs, st\<lparr>rt_world := w\<rparr>)"
    using assms(1) by (auto simp: on_world_def WebhookSubscriptionRepo_FindByEvent_def sel_def runs_stmt)
  then show ?thesis using start_outgoing_requests[of "st\<lparr>rt_world := w\<rparr>"] assms(2) by (simp add: HandleOutboundWebhook_def)
qed

section \<open>Examples\<close>


definition refund_world :: "rat world" where
  "refund_world = world_of (empty_db\<lparr>t_payments := [zero_payment\<lparr>pay_OrgId := ''o'', pay_Id := ''p'', pay_PspId := ''x'', pay_Amount := 900,
     pay_Status := PaymentStatusSucceeded\<rparr>]\<rparr>) (\<lambda>n. int n)"

lemmas refund_run = ProcessRefund_def PaymentRepo_FindByPspId_def PaymentRepo_Update_def PaymentRepo_FindById_def PaymentRepo_CreateRefund_def
  refund_world_def world_of_def empty_db_def zero_payment_def sample_event_def sample_webhook_def

text \<open>The event refunds 500 of a payment of 900.\<close>

theorem refund_recorded_witness:
  "\<exists>(w1 :: rat world) (p1 :: payment). t_refunds (w_db w1) \<noteq> [] \<and> pay_Status p1 = PaymentStatusRefunded \<and> pay_Amount p1 = 900 \<and>
     rfd_Amount (hd (t_refunds (w_db w1))) = 500"
proof -
  have "\<exists>p1 w1. ProcessRefund sample_event refund_world = (Inr p1, w1)"
    by (simp add: refund_run bindS_def selOne_def sel_def exec_def stmt_def col_eq_def find_row_def update_row_def insert_row_def
        pay_key_def pay_merge_def rfd_key_def translateErr_def)
  then obtain p1 w1 where r: "ProcessRefund sample_event refund_world = (Inr p1, w1)" by blast
  from refund_recorded[OF r] obtain p q where "p \<in> set (t_payments (w_db refund_world))" "pay_Amount p1 = pay_Amount p"
    "pay_Status p1 = PaymentStatusRefunded" "t_refunds (w_db w1) = t_refunds (w_db refund_world) @ [q]" "rfd_Amount q = pwh_Amount (wev_Payment sample_event)"
    by blast
  then have "t_refunds (w_db w1) \<noteq> [] \<and> pay_Status p1 = PaymentStatusRefunded \<and> pay_Amount p1 = 900 \<and>
     rfd_Amount (hd (t_refunds (w_db w1))) = 500" by (simp add: refund_run)
  then show ?thesis by blast
qed

text \<open>The row is written and reading it back fails: the task is run again and writes a second row.\<close>

theorem refund_recorded_twice:
  "case payment_refunded_job 1 sample_event (refund_world\<lparr>w_fault := (\<lambda>n. if n = 4 then Some ''lost'' else None)\<rparr>) of
    (r, w) \<Rightarrow> \<not> isl r \<and> map rfd_Amount (t_refunds (w_db w)) = [500, 500]"
  by code_simp

theorem outbound_fanout_witness:
  "length (rt_requests (HandleOutboundWebhook (Some \<lparr> obx_Id = 1, obx_EventId = ''e'', obx_OrgId = ''o'', obx_Topic = ''order.completed'',
       obx_Payload = MsgPayment zero_payment, obx_Attempts = 0, obx_NextAttemptAt = None, obx_LastError = [], obx_PublishedAt = None, obx_CreatedAt = 0 \<rparr>)
     (sample_runtime (\<lambda>_. Taken) (world_of (empty_db\<lparr>t_webhooks :=
       [\<lparr> whs_OrgID = ''o'', whs_Id = ''1'', whs_Events = [''order.completed''], whs_URL = [], whs_Secret = [], whs_CreatedAt = 0, whs_UpdatedAt = 0 \<rparr>,
        \<lparr> whs_OrgID = ''q'', whs_Id = ''2'', whs_Events = [''order.completed''], whs_URL = [], whs_Secret = [], whs_CreatedAt = 0, whs_UpdatedAt = 0 \<rparr>]\<rparr>) (\<lambda>n. int n))))) = 1"
  by (subst outbound_fanout) (simp_all add: sample_runtime_def calm_def world_of_def empty_db_def)

end
