(* ===== verification/Billing_Runner.thy ===== *)
theory Billing_Runner
  imports Payment_Jobs
begin

text \<open>
  The billing sweep of src/internal/adapter/hatchet/workflows: billing_sweep.go starts a run per
  organisation on every tick, which requests a charge for every subscription that is due and
  reminders for the ones that renew soon (src/internal/core/service/reminder_config.go and
  src/internal/core/domain/reminder_config.go hold when); billing_cycle_runner.go charges one cycle
  through the task of billing_cycle.go and books the result.  The keys are those of keys.go.
  The lemmas show that a tick asks for exactly the due subscriptions, that a run is one step of
  the billing state machine, and that a tick moves no subscription by more than a cycle.

  How often the engine repeats a charge and what a wait for the provider reports are inputs.
\<close>

section \<open>Durations and keys\<close>

text \<open>time.Duration: Round (half away from zero, saturating), and String for whole seconds;
  a fraction of a second is appended without trailing zeros.\<close>

definition duration_Round :: "duration \<Rightarrow> duration \<Rightarrow> duration" where
  "duration_Round d m =
    (if m \<le> 0 then d
     else let r = \<bar>d\<bar> mod m in
       if d < 0 then (if r + r < m then d + r else max (- (2 ^ 63)) (d - m + r))
       else (if r + r < m then d - r else min (2 ^ 63 - 1) (d + m - r)))"

definition strip_zeros :: "string \<Rightarrow> string" where
  "strip_zeros s = rev (dropWhile (\<lambda>c. c = CHR ''0'') (rev s))"

definition fraction :: "nat \<Rightarrow> nat \<Rightarrow> string" where
  "fraction v prec =
    (let ds = strip_zeros (sprintf_0d (int prec) (int (v mod 10 ^ prec))) in if ds = [] then [] else CHR ''.'' # ds)"

definition micro_sign :: string where
  "micro_sign = [char_of (194 :: nat), char_of (181 :: nat)]"

definition duration_String :: "duration \<Rightarrow> string" where
  "duration_String d =
    (let u = nat \<bar>d\<bar>; secs = u div 1000000000;
         body = (if u = 0 then ''0s''
           else if u < 1000 then show_nat u @ ''ns''
           else if u < 1000000 then show_nat (u div 1000) @ fraction u 3 @ micro_sign @ ''s''
           else if u < 1000000000 then show_nat (u div 1000000) @ fraction u 6 @ ''ms''
           else (if 3600 \<le> secs then show_nat (secs div 3600) @ ''h'' else []) @
                (if 60 \<le> secs then show_nat (secs div 60 mod 60) @ ''m'' else []) @
                show_nat (secs mod 60) @ fraction u 9 @ ''s'')
     in if d < 0 then CHR ''-'' # body else body)"

text \<open>Time.Truncate counts from the zero time, and the layout is year to minute.\<close>

definition time_Truncate :: "time \<Rightarrow> duration \<Rightarrow> time" where
  "time_Truncate t d = (if d \<le> 0 then t else t - t mod d)"

definition OrgBillingRunKey :: "string \<Rightarrow> time \<Rightarrow> string" where
  "OrgBillingRunKey orgId bucket = (case (time_Date bucket, time_Clock bucket) of ((y, m, d), (h, mi, _)) \<Rightarrow>
     ''orgbilling_'' @ orgId @ ''_'' @ sprintf_0d 4 y @ sprintf_0d 2 m @ sprintf_0d 2 d @ sprintf_0d 2 h @ sprintf_0d 2 mi)"

definition ReminderStageRunKey :: "string \<Rightarrow> string \<Rightarrow> int \<Rightarrow> duration \<Rightarrow> string" where
  "ReminderStageRunKey orgId subscriptionId cycle offset =
    ''reminder_'' @ orgId @ ''_'' @ subscriptionId @ ''_'' @ Itoa cycle @ ''_'' @ duration_String offset"

section \<open>The sweep\<close>

text \<open>The interval in whole minutes, at most an hour, with the schedule that fires it.\<close>

definition SweepCadence :: "duration \<Rightarrow> duration \<times> string" where
  "SweepCadence interval =
    (let m = quot64 (duration_Round interval Minute) Minute; m = (if m < 1 then 1 else m) in
     if 60 \<le> m then (Hour, ''0 * * * *'')
     else (m * Minute, ''*/'' @ Itoa m @ '' * * * *''))"

definition OrgRepo_ListIds :: "('d, string list) svc" where
  "OrgRepo_ListIds = sel (\<lambda>db. map org_Id (t_orgs db))"

text \<open>A start that fails is logged; the others go on.\<close>

fun ask_all :: "'d engine_request list \<Rightarrow> 'd runtime \<Rightarrow> 'd runtime" where
  "ask_all [] st = st"
| "ask_all (q # qs) st = ask_all qs (snd (ask q st))"

definition BillingSweep :: "duration \<Rightarrow> 'd runtime \<Rightarrow> unit res \<times> 'd runtime" where
  "BillingSweep interval st =
    (case on_world OrgRepo_ListIds st of
       (Inl e, st1) \<Rightarrow> (Inl e, st1)
     | (Inr ids, st1) \<Rightarrow> (case on_world nowS st1 of
           (Inl e, st2) \<Rightarrow> (Inl e, st2)
         | (Inr now, st2) \<Rightarrow>
             let bucket = time_Truncate now (fst (SweepCadence interval)) in
             (Inr (), ask_all (map (\<lambda>orgId. RunOrgBilling (OrgBillingRunKey orgId bucket) orgId) ids) st2)))"

section \<open>When reminders are sent\<close>

record reminder_config =
  rmc_Enabled :: bool
  rmc_Offsets :: "duration list"

definition DefaultReminderConfig :: reminder_config where
  "DefaultReminderConfig = \<lparr> rmc_Enabled = True, rmc_Offsets = [7 * 24 * Hour] \<rparr>"

text \<open>The stored value is a JSON document of a flag and durations as text; its encoder and
  decoder are parameters.\<close>

definition reminder_Marshal :: "(bool \<times> string list \<Rightarrow> string) \<Rightarrow> reminder_config \<Rightarrow> string" where
  "reminder_Marshal encode c = encode (rmc_Enabled c, map duration_String (rmc_Offsets c))"

definition ParseReminderConfig :: "(string \<Rightarrow> (bool \<times> string list) option) \<Rightarrow> string \<Rightarrow> reminder_config option" where
  "ParseReminderConfig decode raw =
    (if raw = [] then Some DefaultReminderConfig
     else case decode raw of None \<Rightarrow> None
     | Some (enabled, offsets) \<Rightarrow>
         if None \<in> set (map std_ParseDuration offsets) then None
         else Some \<lparr> rmc_Enabled = enabled, rmc_Offsets = map (\<lambda>s. the (std_ParseDuration s)) offsets \<rparr>)"

text \<open>Any failure falls back to the default.\<close>

definition ResolveReminderConfig :: "(string \<Rightarrow> (bool \<times> string list) option) \<Rightarrow> string \<Rightarrow> ('d, reminder_config) svc" where
  "ResolveReminderConfig decode orgId =
    tryS (SettingRepo_FindById orgId ''billing'' ''renewal_reminders'') (\<lambda>r. case r of
      Inl _ \<Rightarrow> retS DefaultReminderConfig
    | Inr setting \<Rightarrow> (case ParseReminderConfig decode (set_Value setting) of
        None \<Rightarrow> retS DefaultReminderConfig | Some cfg \<Rightarrow> retS cfg))"

definition SetReminderConfig :: "(bool \<times> string list \<Rightarrow> string) \<Rightarrow> string \<Rightarrow> reminder_config \<Rightarrow> ('d, unit) svc" where
  "SetReminderConfig encode orgId cfg =
    bindS nowS (\<lambda>now.
    bindS (SettingRepo_Upsert \<lparr> set_OrgId = orgId, set_ParentId = ''billing'', set_Id = ''renewal_reminders'',
             set_Type = ''json'', set_Value = reminder_Marshal encode cfg, set_CreatedAt = now, set_UpdatedAt = now \<rparr>) (\<lambda>_.
    retS ()))"

section \<open>The run of an organisation\<close>

definition billing_requests :: "subscription list \<Rightarrow> 'd engine_request list" where
  "billing_requests due = map (\<lambda>s. RunBillingCycleRunner (BillingRunKey (sub_OrgId s) (sub_Id s) (sub_CyclesProcessed s)) s) due"

definition reminder_requests :: "time \<Rightarrow> duration list \<Rightarrow> subscription list \<Rightarrow> 'd engine_request list" where
  "reminder_requests now offsets upcoming =
    concat (map (\<lambda>s. map (\<lambda>offset. RunRenewalReminder (ReminderStageRunKey (sub_OrgId s) (sub_Id s) (sub_CyclesProcessed s) offset) s)
                      (filter (\<lambda>offset. \<not> now < time_Add (sub_RenewsAt s) (- offset)) offsets)) upcoming)"

definition OrgBilling :: "(string \<Rightarrow> (bool \<times> string list) option) \<Rightarrow> string \<Rightarrow> 'd runtime \<Rightarrow> unit res \<times> 'd runtime" where
  "OrgBilling decode orgId st =
    (case on_world nowS st of
       (Inl e, st1) \<Rightarrow> (Inl e, st1)
     | (Inr now, st1) \<Rightarrow> (case on_world (SubscriptionRepo_FindDueForBilling orgId now) st1 of
         (Inl e, st2) \<Rightarrow> (Inl e, st2)
       | (Inr due, st2) \<Rightarrow>
          (let st3 = ask_all (billing_requests due) st2 in
           case on_world (ResolveReminderConfig decode orgId) st3 of
             (Inl _, st4) \<Rightarrow> (Inr (), st4)
           | (Inr cfg, st4) \<Rightarrow>
               if rmc_Enabled cfg \<and> rmc_Offsets cfg \<noteq> [] then
                 (case on_world (SubscriptionRepo_FindUpcomingRenewals orgId now (Max (set (rmc_Offsets cfg)))) st4 of
                    (Inl _, st5) \<Rightarrow> (Inr (), st5)
                  | (Inr upcoming, st5) \<Rightarrow> (Inr (), ask_all (reminder_requests now (rmc_Offsets cfg) upcoming) st5))
               else (Inr (), st4))))"

definition SendRenewalReminderWorkflow :: "subscription \<Rightarrow> ('d, unit) svc" where
  "SendRenewalReminderWorkflow s = SendRenewalReminder (sub_OrgId s) (sub_Id s)"

section \<open>The run of a billing cycle\<close>

text \<open>The task that charges, run again up to 50 times.\<close>

definition BillingCycleWorkflow :: "'d billing_env \<Rightarrow> nat \<Rightarrow> subscription \<Rightarrow> ('d, charge_result) svc" where
  "BillingCycleWorkflow E n s = retry_task (\<lambda>_. False) (min 50 n) (ChargeForBillingPeriod E s)"

text \<open>What a pending charge is waited for: the provider's result, if it arrives and decodes within the hour.\<close>

definition awaited :: "charge_result option \<Rightarrow> charge_result \<Rightarrow> charge_result" where
  "awaited wait charge =
    (if chg_Status charge = PaymentStatusPending then (case wait of None \<Rightarrow> charge | Some c \<Rightarrow> c) else charge)"

definition BillingCycleRunner :: "'d billing_env \<Rightarrow> nat \<Rightarrow> charge_result option \<Rightarrow> subscription \<Rightarrow> ('d, subscription) svc" where
  "BillingCycleRunner E n wait s =
    bindS (BillingCycleWorkflow E n s) (\<lambda>charge.
    if chg_Status (awaited wait charge) = PaymentStatusSucceeded
    then HandleSubscriptionChargeSuccess E s (awaited wait charge)
    else HandleSubscriptionChargeFailure E s (awaited wait charge))"

section \<open>What a tick asks for\<close>

text \<open>The query for the due subscriptions and the check in the domain are the same condition.\<close>

lemma due_row_is_due: "due_row now s \<longleftrightarrow> IsDueForBilling s now"
  by (auto simp: due_row_def IsDueForBilling_def IsZero_def not_less split: subscription_status.split)

lemma ask_all_taken:
  assumes "\<And>n. rt_answer st n = Taken"
  shows "rt_requests (ask_all qs st) = rt_requests st @ qs \<and> rt_world (ask_all qs st) = rt_world st \<and> rt_answer (ask_all qs st) = rt_answer st"
  using assms by (induction qs arbitrary: st) (simp_all add: ask_def Let_def)

lemma calm_sel: "calm w \<Longrightarrow> sel f w = (Inr (f (w_db w)), w\<lparr>w_stmts := Suc (w_stmts w)\<rparr>) \<and> calm (w\<lparr>w_stmts := n\<rparr>)"
  by (simp add: sel_def runs_stmt calm_def)

lemma resolve_reminders:
  "\<exists>cfg w1. ResolveReminderConfig decode orgId w = (Inr cfg, w1) \<and> (calm w \<longrightarrow> calm w1) \<and> w_db w1 = w_db w"
proof -
  obtain r w1 where f: "SettingRepo_FindById orgId ''billing'' ''renewal_reminders'' w = (r, w1)" by (metis surj_pair)
  have "w_db w1 = w_db w \<and> (calm w \<longrightarrow> calm w1)"
    using f by (auto simp: SettingRepo_FindById_def selOne_def sel_def stmt_def Let_def bindS_def calm_def translateErr_def
        split: option.splits if_splits sum.splits prod.splits)
  then show ?thesis using f by (auto simp: ResolveReminderConfig_def tryS_def split: sum.split option.split)
qed

lemma reminder_is_early:
  assumes "q \<in> set (reminder_requests now offsets upcoming)"
  shows "\<exists>s offset. q = RunRenewalReminder (ReminderStageRunKey (sub_OrgId s) (sub_Id s) (sub_CyclesProcessed s) offset) s \<and>
    s \<in> set upcoming \<and> offset \<in> set offsets \<and> sub_RenewsAt s - offset \<le> now"
  using assms by (auto simp: reminder_requests_def time_Add_def not_less)

text \<open>C29: When no statement fails and the engine takes every request, a tick asks it for the charge of exactly those subscriptions of the
  organisation that the domain calls due at its instant, each under the key of its cycle and
  in table order; every reminder it asks for concerns an active subscription of the organisation
  that renews later and is within a configured lead time, so no subscription is reminded and
  charged by one tick.\<close>

theorem tick_requests_due:
  fixes st :: "'d runtime"
  assumes "calm (rt_world st)" and "\<And>n. rt_answer st n = Taken" and "now = w_clock (rt_world st) (w_ticks (rt_world st))"
  shows "\<exists>reminders. rt_requests (snd (OrgBilling decode orgId st)) = rt_requests st @
      map (\<lambda>s. RunBillingCycleRunner (BillingRunKey (sub_OrgId s) (sub_Id s) (sub_CyclesProcessed s)) s)
        (filter (\<lambda>s. sub_OrgId s = orgId \<and> IsDueForBilling s now) (t_subscriptions (w_db (rt_world st)))) @ reminders \<and>
    (\<forall>q\<in>set reminders. \<exists>s offset. q = RunRenewalReminder (ReminderStageRunKey (sub_OrgId s) (sub_Id s) (sub_CyclesProcessed s) offset) s \<and>
       s \<in> set (t_subscriptions (w_db (rt_world st))) \<and> sub_OrgId s = orgId \<and> sub_Status s = SubscriptionStatusActive \<and>
       sub_RenewsAt s - offset \<le> now \<and> now < sub_RenewsAt s \<and> \<not> IsDueForBilling s now)"
proof -
  let ?due = "filter (\<lambda>s. sub_OrgId s = orgId \<and> IsDueForBilling s now) (t_subscriptions (w_db (rt_world st)))"
  define w2 where "w2 = (rt_world st)\<lparr>w_ticks := Suc (w_ticks (rt_world st)), w_stmts := Suc (w_stmts (rt_world st))\<rparr>"
  have w2: "calm w2" "w_db w2 = w_db (rt_world st)" using assms(1) by (simp_all add: w2_def calm_def)
  define st3 where "st3 = ask_all (billing_requests ?due) (st\<lparr>rt_world := w2\<rparr>)"
  have st3: "rt_requests st3 = rt_requests st @ billing_requests ?due" "rt_world st3 = w2" "\<And>n. rt_answer st3 n = Taken"
    using ask_all_taken[of "st\<lparr>rt_world := w2\<rparr>" "billing_requests ?due"] assms(2) by (simp_all add: st3_def)
  from resolve_reminders[of decode orgId w2] obtain cfg w4 where
    cfg: "ResolveReminderConfig decode orgId w2 = (Inr cfg, w4)" "calm w4" "w_db w4 = w_db (rt_world st)" using w2 by auto
  let ?up = "filter (\<lambda>s. sub_OrgId s = orgId \<and> sub_Status s = SubscriptionStatusActive \<and> sub_RenewsAt s \<noteq> 0 \<and> now < sub_RenewsAt s \<and>
      sub_RenewsAt s \<le> time_Add now (Max (set (rmc_Offsets cfg)))) (t_subscriptions (w_db (rt_world st)))"
  let ?rem = "if rmc_Enabled cfg \<and> rmc_Offsets cfg \<noteq> [] then reminder_requests now (rmc_Offsets cfg) ?up else []"
  have a: "on_world nowS st = (Inr now, st\<lparr>rt_world := (rt_world st)\<lparr>w_ticks := Suc (w_ticks (rt_world st))\<rparr>\<rparr>)"
    by (simp add: on_world_def assms(3))
  have b: "on_world (SubscriptionRepo_FindDueForBilling orgId now) (st\<lparr>rt_world := (rt_world st)\<lparr>w_ticks := Suc (w_ticks (rt_world st))\<rparr>\<rparr>) =
      (Inr ?due, st\<lparr>rt_world := w2\<rparr>)"
    using assms(1) by (simp add: on_world_def SubscriptionRepo_FindDueForBilling_def sel_def runs_stmt calm_def w2_def due_row_is_due)
  have c: "on_world (SubscriptionRepo_FindUpcomingRenewals orgId now (Max (set (rmc_Offsets cfg)))) (st3\<lparr>rt_world := w4\<rparr>) =
      (Inr ?up, st3\<lparr>rt_world := w4\<lparr>w_stmts := Suc (w_stmts w4)\<rparr>\<rparr>)"
    using cfg by (simp add: on_world_def SubscriptionRepo_FindUpcomingRenewals_def sel_def runs_stmt)
  define rem :: "'d engine_request list" where "rem = ?rem"
  have r: "rt_requests (snd (OrgBilling decode orgId st)) = rt_requests st3 @ rem"
    unfolding rem_def using ask_all_taken[of "st3\<lparr>rt_world := w4\<lparr>w_stmts := Suc (w_stmts w4)\<rparr>\<rparr>"] st3 cfg(1) c
    by (simp add: OrgBilling_def a b st3_def[symmetric] on_world_def[of "ResolveReminderConfig decode orgId"] Let_def)
  have "\<exists>s offset. q = RunRenewalReminder (ReminderStageRunKey (sub_OrgId s) (sub_Id s) (sub_CyclesProcessed s) offset) s \<and>
       s \<in> set (t_subscriptions (w_db (rt_world st))) \<and> sub_OrgId s = orgId \<and> sub_Status s = SubscriptionStatusActive \<and>
       sub_RenewsAt s - offset \<le> now \<and> now < sub_RenewsAt s \<and> \<not> IsDueForBilling s now" if "q \<in> set rem" for q
  proof -
    have "q \<in> set (reminder_requests now (rmc_Offsets cfg) ?up)" using that by (simp add: rem_def split: if_splits)
    from reminder_is_early[OF this] show ?thesis by (fastforce simp: IsDueForBilling_def)
  qed
  then show ?thesis using r st3(1) unfolding billing_requests_def by (intro exI[of _ rem]) auto
qed

section \<open>A run charges one cycle\<close>

text \<open>The task that charges builds an invoice and opens it; it touches neither the subscriptions
  nor the settings, and leaves the connection as it was.\<close>

lemma charge_frames: "obeys (same_on (\<lambda>d. (t_subscriptions d, t_settings d))) (ChargeForBillingPeriod E s)"
proof -
  let ?f = "\<lambda>d. (t_subscriptions d, t_settings d)"
  have b: "obeys (same_on ?f) (BuildForBillingPeriod E s)" for s
    by (rule obeysI) (simp add: same_on_def besides_fields[OF build_besides])
  have m: "obeys (same_on ?f) (InvoiceService_MarkOpen a i :: ('a, 'a invoice) svc)" for a i
    unfolding InvoiceService_MarkOpen_def invoice_transition_def InvoiceRepo_Update_def
    by (auto intro!: keep.obeys_bind keep_exec framed_reads)
  have g: "obeys (same_on ?f) (call_gateway s i)" for s and i :: "'a invoice"
    by (rule obeysI) (simp add: same_on_def call_gateway_cases)
  show ?thesis unfolding ChargeForBillingPeriod_def SubscriptionRepo_FindById_def
    by (intro keep.obeys_bind b m g) simp
qed

lemma charge_steady: "steadily (ChargeForBillingPeriod E s)"
proof -
  have r: "silent (charge_result_for s c)" for s c
    unfolding charge_result_for_def by (auto intro!: silence split: charge_payment_status.split)
  show ?thesis
    unfolding ChargeForBillingPeriod_def call_gateway_def SubscriptionRepo_FindById_def CustomerRepo_FindById_def
      CustomerRepo_FindPaymentMethodById_def
    by (intro steadily_bind steadily_charge) (auto intro!: steadily_silent r)
qed

text \<open>A step that leaves a part of the database alone when it fails.\<close>

definition fails_safe :: "('d db \<Rightarrow> 'x) \<Rightarrow> ('d, 'a) svc \<Rightarrow> bool" where
  "fails_safe f m \<longleftrightarrow> (\<forall>w e w1. m w = (Inl e, w1) \<longrightarrow> f (w_db w1) = f (w_db w))"

lemma fails_safeI: "obeys (same_on f) m \<Longrightarrow> fails_safe f m" "fails_safe f (RunInTx m1)"
  unfolding fails_safe_def by (blast dest: keeps, simp add: RunInTx_Inl)

lemma fails_safe_bind: "obeys (same_on f) m \<Longrightarrow> (\<And>x. fails_safe f (g x)) \<Longrightarrow> fails_safe f (bindS m g)"
  unfolding fails_safe_def
proof (intro allI impI)
  fix w e w1
  assume m: "obeys (same_on f) m" and g: "\<And>x. \<forall>w e w1. g x w = (Inl e, w1) \<longrightarrow> f (w_db w1) = f (w_db w)" and r: "bindS m g w = (Inl e, w1)"
  obtain q w2 where q: "m w = (q, w2)" by (metis surj_pair)
  show "f (w_db w1) = f (w_db w)" using r q g keeps[OF m q] by (cases q) (auto simp: bindS_def)
qed

lemma handlers_fail_safe: "fails_safe t_subscriptions (HandleSubscriptionChargeSuccess E s c)"
  "fails_safe t_subscriptions (HandleSubscriptionChargeFailure E s c)"
proof -
  have b: "obeys (same_on t_subscriptions) (BuildForBillingPeriod E s)"
    by (rule obeysI) (simp add: same_on_def besides_fields[OF build_besides])
  have p: "obeys (same_on t_subscriptions) (charge_payment s c i)" for i
    unfolding charge_payment_def by (intro keep.obeys_bind) simp_all
  have q: "obeys (same_on t_subscriptions) (GetRetryPolicy E o1)" for o1
    by (rule obeysI) (simp add: same_on_def GetRetryPolicy_ok)
  have r: "obeys (same_on t_subscriptions) (SubscriptionRepo_FindById o1 i)" for o1 i
    by (simp add: SubscriptionRepo_FindById_def)
  show "fails_safe t_subscriptions (HandleSubscriptionChargeSuccess E s c)"
    "fails_safe t_subscriptions (HandleSubscriptionChargeFailure E s c)"
    unfolding HandleSubscriptionChargeSuccess_def HandleSubscriptionChargeFailure_def
    by (auto intro!: fails_safe_bind b p q r fails_safeI(2) simp: fails_safeI(1))
qed

text \<open>The charges of the repeated task.\<close>

definition sends :: "nat \<Rightarrow> subscription \<Rightarrow> 'd world \<Rightarrow> 'd world \<Rightarrow> bool" where
  "sends n s w w1 \<longleftrightarrow> t_subscriptions (w_db w1) = t_subscriptions (w_db w) \<and>
    t_settings (w_db w1) = t_settings (w_db w) \<and> steady w w1 \<and>
    (\<exists>cs. w_charges w1 = w_charges w @ cs \<and> length cs \<le> n \<and> (\<forall>c\<in>set cs. chi_SubscriptionId c = sub_Id s))"

lemma charge_sends: "ChargeForBillingPeriod E s w = (r, w1) \<Longrightarrow> sends 1 s w w1 \<and> (\<not> isl r \<longrightarrow> w_charges w1 \<noteq> w_charges w)"
proof -
  assume run: "ChargeForBillingPeriod E s w = (r, w1)"
  note k = keeps[OF charge_frames run] steadilyD[OF charge_steady run]
  from ChargeForBillingPeriod_cases[OF run] show ?thesis
  proof (elim disjE exE conjE)
    fix cur inp
    assume "sub_key cur = sub_key s" "w_charges w1 = w_charges w @ [inp]" "chi_SubscriptionId inp = sub_Id cur"
    then show ?thesis using k by (auto simp: sends_def sub_key_def)
  qed (use k in \<open>auto simp: sends_def\<close>)
qed

lemma sends_trans: "sends a s w w1 \<Longrightarrow> sends b s w1 w2 \<Longrightarrow> sends (a + b) s w w2"
proof -
  assume "sends a s w w1" and "sends b s w1 w2"
  from \<open>sends a s w w1\<close> obtain c1 where 1: "w_charges w1 = w_charges w @ c1" "length c1 \<le> a" "\<forall>c\<in>set c1. chi_SubscriptionId c = sub_Id s"
    "t_subscriptions (w_db w1) = t_subscriptions (w_db w)" "t_settings (w_db w1) = t_settings (w_db w)" "steady w w1" unfolding sends_def by blast
  from \<open>sends b s w1 w2\<close> obtain c2 where 2: "w_charges w2 = w_charges w1 @ c2" "length c2 \<le> b" "\<forall>c\<in>set c2. chi_SubscriptionId c = sub_Id s"
    "t_subscriptions (w_db w2) = t_subscriptions (w_db w1)" "t_settings (w_db w2) = t_settings (w_db w1)" "steady w1 w2" unfolding sends_def by blast
  from 1 2 show ?thesis unfolding sends_def by (intro conjI exI[of _ "c1 @ c2"]) (auto intro: steady_trans)
qed

lemma task_sends:
  "retry_task permanent n (ChargeForBillingPeriod E s) w = (r, w1) \<Longrightarrow>
    sends (n + 1) s w w1 \<and> (\<not> isl r \<longrightarrow> w_charges w1 \<noteq> w_charges w)"
proof (induction n arbitrary: w)
  case 0
  then show ?case using charge_sends by simp
next
  case (Suc n)
  obtain q w2 where q: "ChargeForBillingPeriod E s w = (q, w2)" by (metis surj_pair)
  note c = charge_sends[OF q]
  show ?case
  proof (cases "\<exists>e. q = Inl e \<and> \<not> permanent e")
    case True
    then have "retry_task permanent n (ChargeForBillingPeriod E s) w2 = (r, w1)" using Suc.prems q by auto
    from Suc.IH[OF this] c sends_trans[of 1 s w w2 "n + 1" w1] show ?thesis by (auto simp: sends_def)
  next
    case False
    then have "r = q \<and> w1 = w2" using Suc.prems q by (cases q) auto
    then show ?thesis using c by (auto simp: sends_def)
  qed
qed

definition sent_for :: "subscription \<Rightarrow> 'd world \<Rightarrow> 'd world \<Rightarrow> bool" where
  "sent_for s w w1 \<longleftrightarrow> (\<exists>cs. w_charges w1 = w_charges w @ cs \<and> length cs \<le> 51 \<and> (\<forall>c\<in>set cs. chi_SubscriptionId c = sub_Id s))"

lemma runner_cases:
  assumes "BillingCycleRunner E n wait s w = (r, w1)"
  shows "sent_for s w w1 \<and> (\<not> isl r \<longrightarrow> w_charges w1 \<noteq> w_charges w) \<and>
    (isl r \<longrightarrow> t_subscriptions (w_db w1) = t_subscriptions (w_db w)) \<and>
    (\<forall>s1. r = Inr s1 \<longrightarrow> (\<exists>w2 charge. BillingCycleWorkflow E n s w = (Inr charge, w2) \<and>
      t_subscriptions (w_db w2) = t_subscriptions (w_db w) \<and> t_settings (w_db w2) = t_settings (w_db w) \<and> (calm w \<longrightarrow> calm w2) \<and>
      (if chg_Status (awaited wait charge) = PaymentStatusSucceeded
       then HandleSubscriptionChargeSuccess E s (awaited wait charge) w2 = (Inr s1, w1)
       else HandleSubscriptionChargeFailure E s (awaited wait charge) w2 = (Inr s1, w1))))"
proof -
  obtain q w2 where q: "retry_task (\<lambda>_. False) (min 50 n) (ChargeForBillingPeriod E s) w = (q, w2)" by (metis surj_pair)
  note t = task_sends[OF q]
  have k: "min 50 n + 1 \<le> 51" by simp
  then have s2: "sent_for s w w2" using t unfolding sent_for_def sends_def by (meson order_trans)
  show ?thesis
  proof (cases q)
    case (Inl e)
    then have "r = Inl e \<and> w1 = w2" using assms q by (simp add: BillingCycleRunner_def BillingCycleWorkflow_def bindS_def)
    then show ?thesis using s2 t by (simp add: sends_def)
  next
    case (Inr charge)
    let ?c = "awaited wait charge"
    have run: "(if chg_Status ?c = PaymentStatusSucceeded then HandleSubscriptionChargeSuccess E s ?c else HandleSubscriptionChargeFailure E s ?c) w2 = (r, w1)"
      using assms q Inr by (simp add: BillingCycleRunner_def BillingCycleWorkflow_def bindS_def)
    then have c: "w_charges w1 = w_charges w2"
      using silentD[OF silent_handlers(1)] silentD[OF silent_handlers(2)] by (auto split: if_splits)
    have f: "t_subscriptions (w_db w1) = t_subscriptions (w_db w2)" if "isl r"
      using run that handlers_fail_safe(1)[of E s ?c, unfolded fails_safe_def] handlers_fail_safe(2)[of E s ?c, unfolded fails_safe_def]
      by (cases r; cases "chg_Status ?c = PaymentStatusSucceeded"; simp)
    have "sent_for s w w1" using s2 c by (simp add: sent_for_def)
    moreover have "w_charges w1 \<noteq> w_charges w" using t c Inr by simp
    moreover have "isl r \<longrightarrow> t_subscriptions (w_db w1) = t_subscriptions (w_db w)" using f t by (simp add: sends_def)
    moreover have "t_subscriptions (w_db w2) = t_subscriptions (w_db w) \<and> t_settings (w_db w2) = t_settings (w_db w) \<and> (calm w \<longrightarrow> calm w2)"
      using t by (auto simp: sends_def steady_def calm_def)
    moreover have "BillingCycleWorkflow E n s w = (Inr charge, w2)" using q Inr by (simp add: BillingCycleWorkflow_def)
    ultimately show ?thesis using run by auto
  qed
qed

text \<open>A handler that returns has written the row it returns, and no other.\<close>

lemma handler_row:
  fixes w :: "'d world"
  assumes "HandleSubscriptionChargeSuccess E s c w = (Inr s1, w1) \<or> HandleSubscriptionChargeFailure E s c w = (Inr s1, w1)"
    and "find_row sub_key (sub_key s) (t_subscriptions (w_db w)) = Some s"
  shows "sub_key s1 = sub_key s \<and> find_row sub_key (sub_key s) (t_subscriptions (w_db w1)) = Some s1 \<and>
    (\<forall>k. k \<noteq> sub_key s \<longrightarrow> find_row sub_key k (t_subscriptions (w_db w1)) = find_row sub_key k (t_subscriptions (w_db w)))"
  using assms(1)
proof
  assume "HandleSubscriptionChargeSuccess E s c w = (Inr s1, w1)"
  from success_applied[OF this assms(2) order_refl] obtain db p t evs and i :: "'d invoice" where b: "besides_invoices db = besides_invoices (w_db w)"
    and s1: "s1 = sub_merge s (charged s (inv_Total i) t)" and sc: "settled_charge db (w_db w1) (sub_OrgId s) p s1 evs" by blast
  have "sub_key s1 = sub_key s" by (simp add: s1)
  then show ?thesis using sc besides_fields[OF b] by (auto simp: settled_charge_def)
next
  assume "HandleSubscriptionChargeFailure E s c w = (Inr s1, w1)"
  from failure_applied[OF this assms(2) order_refl order_refl] obtain db p t evs policy where b: "besides_invoices db = besides_invoices (w_db w)"
    and s1: "s1 = sub_merge s (failed_row policy s t)" and sc: "settled_charge db (w_db w1) (sub_OrgId s) p s1 evs" by blast
  have "sub_key s1 = sub_key s" by (simp add: s1)
  then show ?thesis using sc besides_fields[OF b] by (auto simp: settled_charge_def)
qed

lemma handler_cycle:
  fixes w :: "'d world"
  assumes "HandleSubscriptionChargeSuccess E s c w = (Inr s1, w1) \<or> HandleSubscriptionChargeFailure E s c w = (Inr s1, w1)"
    and "find_row sub_key (sub_key s) (t_subscriptions (w_db w)) = Some s" and "in64 (sub_CyclesProcessed s + 1)"
  shows "sub_CyclesProcessed s1 \<in> {sub_CyclesProcessed s, sub_CyclesProcessed s + 1}"
  using assms(1)
proof
  assume "HandleSubscriptionChargeSuccess E s c w = (Inr s1, w1)"
  from success_applied[OF this assms(2) order_refl] obtain i t where "s1 = sub_merge s (charged s (inv_Total (i :: 'd invoice)) t)" by blast
  then show ?thesis by (simp add: wrap_succ[OF assms(3)])
next
  assume "HandleSubscriptionChargeFailure E s c w = (Inr s1, w1)"
  from failure_applied[OF this assms(2) order_refl order_refl] obtain policy t where "s1 = sub_merge s (failed_row policy s t)" by blast
  then show ?thesis by simp
qed

text \<open>C30: A run for a due subscription that returns is one step of the billing state machine on
  its row, and touches no other subscription: the paid step when the charge of the task, once
  waited for, has succeeded, and otherwise a failure under the retry policy its organisation has
  stored (the default one, should the statement that reads it fail).  It has sent at least
  one and at most 51 charges, all for that subscription.  A run that fails leaves every
  subscription as it was.  (The period of the policy lies between 0 and 10000 intervals.)\<close>

theorem runner_refines:
  assumes "BillingCycleRunner E n wait s w = (r, w1)"
    and "find_row sub_key (sub_key s) (t_subscriptions (w_db w)) = Some s" and "0 < sub_RenewsAt s" and "0 \<le> sub_Retries s"
    and "in64 (sub_CyclesProcessed s + 1)" and "in64 (sub_Retries s + 1)"
    and "policy = retry_policy_of E (w_db w) (sub_OrgId s)" and "policy_ok policy"
  shows "(\<exists>cs. w_charges w1 = w_charges w @ cs \<and> length cs \<le> 51 \<and> (\<forall>c\<in>set cs. chi_SubscriptionId c = sub_Id s) \<and> (cs = [] \<longrightarrow> isl r)) \<and>
    (case r of
       Inl _ \<Rightarrow> t_subscriptions (w_db w1) = t_subscriptions (w_db w)
     | Inr s1 \<Rightarrow> (\<exists>w2 charge. BillingCycleWorkflow E n s w = (Inr charge, w2) \<and>
           sub_CyclesProcessed s1 = sub_CyclesProcessed s + (if chg_Status (awaited wait charge) = PaymentStatusSucceeded then 1 else 0)) \<and>
         (\<exists>p\<in>{policy, default_retry_policy}. (calm w \<longrightarrow> p = policy) \<and>
           billing_step (sub_Cycles s) p (billing_view s) (billing_view s1)) \<and>
         find_row sub_key (sub_key s) (t_subscriptions (w_db w1)) = Some s1 \<and>
         (\<forall>k. k \<noteq> sub_key s \<longrightarrow> find_row sub_key k (t_subscriptions (w_db w1)) = find_row sub_key k (t_subscriptions (w_db w))))"
proof -
  note c = runner_cases[OF assms(1)]
  show ?thesis
  proof (cases r)
    case (Inr s1)
    with c obtain w2 ch where w2: "BillingCycleWorkflow E n s w = (Inr ch, w2)" "t_subscriptions (w_db w2) = t_subscriptions (w_db w)"
        "t_settings (w_db w2) = t_settings (w_db w)" "calm w \<longrightarrow> calm w2"
      and h: "if chg_Status (awaited wait ch) = PaymentStatusSucceeded then HandleSubscriptionChargeSuccess E s (awaited wait ch) w2 = (Inr s1, w1)
        else HandleSubscriptionChargeFailure E s (awaited wait ch) w2 = (Inr s1, w1)" by blast
    have row: "find_row sub_key (sub_key s) (t_subscriptions (w_db w2)) = Some s" using w2 assms(2) by simp
    have p: "retry_policy_of E (w_db w2) (sub_OrgId s) = policy" using w2 assms(7) by (simp add: retry_policy_of_def)
    have "sub_CyclesProcessed s1 = sub_CyclesProcessed s + (if chg_Status (awaited wait ch) = PaymentStatusSucceeded then 1 else 0) \<and>
      (\<exists>p\<in>{policy, default_retry_policy}. (calm w \<longrightarrow> p = policy) \<and> billing_step (sub_Cycles s) p (billing_view s) (billing_view s1))"
    proof (cases "chg_Status (awaited wait ch) = PaymentStatusSucceeded")
      case True
      then show ?thesis using charged_step[OF _ row assms(5), of E "awaited wait ch" s1 w1 policy] h by auto
    next
      case False
      then have "HandleSubscriptionChargeFailure E s (awaited wait ch) w2 = (Inr s1, w1)" using h by simp
      from unpaid_step[OF this row assms(3,4,6)] p assms(8) w2(4) False show ?thesis by auto
    qed
    moreover have "HandleSubscriptionChargeSuccess E s (awaited wait ch) w2 = (Inr s1, w1) \<or>
      HandleSubscriptionChargeFailure E s (awaited wait ch) w2 = (Inr s1, w1)" using h by (auto split: if_splits)
    ultimately show ?thesis using handler_row[OF _ row] w2 Inr c unfolding sent_for_def by auto
  qed (use c in \<open>auto simp: sent_for_def\<close>)
qed

lemma find_row_distinct: "distinct (map key rows) \<Longrightarrow> r \<in> set rows \<Longrightarrow> find_row key (key r) rows = Some r"
  by (cases "find_row key (key r) rows") (auto simp: find_row_None distinct_map dest!: find_row_key dest: inj_onD)

lemma runner_row:
  fixes w :: "'d world"
  assumes "BillingCycleRunner E n wait s w = (r, w1)" and "find_row sub_key (sub_key s) (t_subscriptions (w_db w)) = Some s"
    and "in64 (sub_CyclesProcessed s + 1)"
  shows "(\<exists>s1. find_row sub_key (sub_key s) (t_subscriptions (w_db w1)) = Some s1 \<and>
      sub_CyclesProcessed s1 \<in> {sub_CyclesProcessed s, sub_CyclesProcessed s + 1}) \<and>
    (\<forall>k. k \<noteq> sub_key s \<longrightarrow> find_row sub_key k (t_subscriptions (w_db w1)) = find_row sub_key k (t_subscriptions (w_db w)))"
proof (cases r)
  case (Inr s1)
  with runner_cases[OF assms(1)] obtain w2 ch where w2: "t_subscriptions (w_db w2) = t_subscriptions (w_db w)" and
    h: "HandleSubscriptionChargeSuccess E s ch w2 = (Inr s1, w1) \<or> HandleSubscriptionChargeFailure E s ch w2 = (Inr s1, w1)"
    by (auto split: if_splits)
  have row: "find_row sub_key (sub_key s) (t_subscriptions (w_db w2)) = Some s" using w2 assms(2) by simp
  show ?thesis using handler_row[OF h row] handler_cycle[OF h row assms(3)] w2 by auto
qed (use runner_cases[OF assms(1)] assms(2) in auto)

text \<open>The runs a tick asked for, one after the other; how often each task is repeated and what
  each wait reports differs from run to run.\<close>

fun run_cycles :: "'d billing_env \<Rightarrow> (subscription \<Rightarrow> nat \<times> charge_result option) \<Rightarrow> subscription list \<Rightarrow> 'd world \<Rightarrow> 'd world" where
  "run_cycles E luck [] w = w"
| "run_cycles E luck (s # ss) w = run_cycles E luck ss (snd (BillingCycleRunner E (fst (luck s)) (snd (luck s)) s w))"

lemma runs_advance:
  fixes w :: "'d world"
  assumes "distinct (map sub_key ss)" and "\<And>s. s \<in> set ss \<Longrightarrow> find_row sub_key (sub_key s) (t_subscriptions (w_db w)) = Some s"
    and "\<And>s. s \<in> set ss \<Longrightarrow> in64 (sub_CyclesProcessed s + 1)"
  shows "(\<forall>s\<in>set ss. \<exists>s1. find_row sub_key (sub_key s) (t_subscriptions (w_db (run_cycles E luck ss w))) = Some s1 \<and>
      sub_CyclesProcessed s1 \<in> {sub_CyclesProcessed s, sub_CyclesProcessed s + 1}) \<and>
    (\<forall>k. k \<notin> sub_key ` set ss \<longrightarrow>
      find_row sub_key k (t_subscriptions (w_db (run_cycles E luck ss w))) = find_row sub_key k (t_subscriptions (w_db w)))"
  using assms
proof (induction ss arbitrary: w)
  case (Cons s ss)
  obtain r w1 where run: "BillingCycleRunner E (fst (luck s)) (snd (luck s)) s w = (r, w1)" by (metis surj_pair)
  note one = runner_row[OF run Cons.prems(2)[OF list.set_intros(1)] Cons.prems(3)[OF list.set_intros(1)]]
  have kept: "find_row sub_key (sub_key x) (t_subscriptions (w_db w1)) = Some x" if "x \<in> set ss" for x
  proof -
    have "sub_key s \<notin> sub_key ` set ss" using Cons.prems(1) by simp
    then have "sub_key x \<noteq> sub_key s" using that by (metis imageI)
    from one[THEN conjunct2, THEN spec, THEN mp, OF this] show ?thesis using Cons.prems(2)[of x] that by simp
  qed
  have rest: "(\<forall>x\<in>set ss. \<exists>s1. find_row sub_key (sub_key x) (t_subscriptions (w_db (run_cycles E luck ss w1))) = Some s1 \<and>
      sub_CyclesProcessed s1 \<in> {sub_CyclesProcessed x, sub_CyclesProcessed x + 1}) \<and>
    (\<forall>k. k \<notin> sub_key ` set ss \<longrightarrow>
      find_row sub_key k (t_subscriptions (w_db (run_cycles E luck ss w1))) = find_row sub_key k (t_subscriptions (w_db w1)))"
    by (rule Cons.IH) (use Cons.prems kept in auto)
  have "sub_key s \<notin> sub_key ` set ss" using Cons.prems(1) by simp
  then have "find_row sub_key (sub_key s) (t_subscriptions (w_db (run_cycles E luck ss w1))) = find_row sub_key (sub_key s) (t_subscriptions (w_db w1))"
    using rest by blast
  then show ?case using rest one run by (auto simp del: split_paired_All)
qed simp

text \<open>C31: One tick of the sweep moves no subscription by more than a cycle: when the runs it
  asked for have ended, each due subscription has processed the same number of cycles as before
  or one more, however often its charge was repeated, and every other row is as it was.\<close>

theorem tick_advances_once:
  fixes st :: "'d runtime"
  assumes "distinct (map sub_key (t_subscriptions (w_db (rt_world st))))"
    and "\<And>s. s \<in> set (t_subscriptions (w_db (rt_world st))) \<Longrightarrow> in64 (sub_CyclesProcessed s + 1)"
    and "on_world (SubscriptionRepo_FindDueForBilling orgId now) st = (Inr due, st1)"
  shows "\<forall>s\<in>set (t_subscriptions (w_db (rt_world st))).
    \<exists>s1. find_row sub_key (sub_key s) (t_subscriptions (w_db (run_cycles E luck due (rt_world st1)))) = Some s1 \<and>
      (if sub_OrgId s = orgId \<and> IsDueForBilling s now
       then sub_CyclesProcessed s1 \<in> {sub_CyclesProcessed s, sub_CyclesProcessed s + 1} else s1 = s)"
proof -
  let ?t = "t_subscriptions (w_db (rt_world st))"
  have db: "w_db (rt_world st1) = w_db (rt_world st)" and due: "due = filter (\<lambda>s. sub_OrgId s = orgId \<and> IsDueForBilling s now) ?t"
    using assms(3) by (auto simp: on_world_def SubscriptionRepo_FindDueForBilling_def sel_Inr due_row_is_due split: prod.splits)
  have found: "find_row sub_key (sub_key s) ?t = Some s" if "s \<in> set ?t" for s by (rule find_row_distinct[OF assms(1) that])
  have d: "distinct (map sub_key due)" using assms(1) by (simp add: due distinct_map_filter)
  have adv: "(\<forall>s\<in>set due. \<exists>s1. find_row sub_key (sub_key s) (t_subscriptions (w_db (run_cycles E luck due (rt_world st1)))) = Some s1 \<and>
      sub_CyclesProcessed s1 \<in> {sub_CyclesProcessed s, sub_CyclesProcessed s + 1}) \<and>
    (\<forall>k. k \<notin> sub_key ` set due \<longrightarrow>
      find_row sub_key k (t_subscriptions (w_db (run_cycles E luck due (rt_world st1)))) = find_row sub_key k ?t)"
    using runs_advance[OF d, of "rt_world st1" E luck] found assms(2) db by (simp add: due)
  show ?thesis
  proof
    fix s assume s: "s \<in> set ?t"
    show "\<exists>s1. find_row sub_key (sub_key s) (t_subscriptions (w_db (run_cycles E luck due (rt_world st1)))) = Some s1 \<and>
      (if sub_OrgId s = orgId \<and> IsDueForBilling s now
       then sub_CyclesProcessed s1 \<in> {sub_CyclesProcessed s, sub_CyclesProcessed s + 1} else s1 = s)"
    proof (cases "sub_OrgId s = orgId \<and> IsDueForBilling s now")
      case True
      then have "s \<in> set due" using s by (simp add: due)
      with adv True show ?thesis by auto
    next
      case False
      have "sub_key s \<notin> sub_key ` set due"
      proof
        assume "sub_key s \<in> sub_key ` set due"
        then obtain x where x: "x \<in> set due" "sub_key x = sub_key s" by auto
        then have "x = s" using s assms(1) by (auto simp: due distinct_map inj_on_def)
        then show False using x False by (simp add: due)
      qed
      from adv[THEN conjunct2, THEN spec, THEN mp, OF this] show ?thesis using False found[OF s] by auto
    qed
  qed
qed

section \<open>Witnesses\<close>

definition tick_world :: "rat world" where
  "tick_world = charging_world\<lparr>w_clock := \<lambda>n. 131 * Day + int n\<rparr>"

lemma tick_subscriptions: "t_subscriptions (w_db tick_world) = [minute_sub]" "t_subscriptions (w_db charging_world) = [minute_sub]"
  by (simp_all add: tick_world_def charging_world_def billing_world_def world_of_def)

lemma minute_sub_due: "IsDueForBilling minute_sub (131 * Day)"
  by (simp add: IsDueForBilling_def minute_sub_def metered_sub_def sample_subscription_def IsZero_def duration_defs)

theorem tick_requests_due_witness:
  "\<exists>rest. rt_requests (snd (OrgBilling (\<lambda>_. None) ''o'' (sample_runtime (\<lambda>_. Taken) tick_world))) =
    RunBillingCycleRunner (BillingRunKey ''o'' ''s'' 1) minute_sub # rest"
proof -
  let ?st = "sample_runtime (\<lambda>_. Taken) tick_world"
  have "calm (rt_world ?st)" "\<And>n. rt_answer ?st n = Taken" "131 * Day = w_clock (rt_world ?st) (w_ticks (rt_world ?st))"
    by (simp_all add: sample_runtime_def tick_world_def charging_world_def billing_world_def world_of_def calm_def)
  from tick_requests_due[OF this, of "\<lambda>_. None" "''o''"] tick_subscriptions minute_sub_due show ?thesis
    by (auto simp: sample_runtime_def minute_sub_def metered_sub_def sample_subscription_def)
qed

text \<open>A run whose charge is declined, for an organisation that stored a policy of its own.\<close>

definition declined_world :: "rat world" where
  "declined_world = strict_world\<lparr>w_db := (w_db strict_world)
     \<lparr>t_customers := [sample_customer], t_payment_methods := [sample_method]\<rparr>,
     w_gateway := (\<lambda>_ inp. (approve inp)\<lparr>cpr_Status := ChargePaymentStatusError\<rparr>)\<rparr>"

lemma declined_facts: "find_row sub_key (sub_key minute_sub) (t_subscriptions (w_db declined_world)) = Some minute_sub"
    "calm declined_world" "retry_policy_of strict_env (w_db declined_world) (sub_OrgId minute_sub) = strict_policy"
  using strict_facts(1,2,4) by (simp_all add: declined_world_def calm_def retry_policy_of_def)

theorem runner_refines_witness:
  "\<exists>s1 w1. BillingCycleRunner strict_env 0 None minute_sub declined_world = (Inr s1, w1) \<and>
    w_charges w1 \<noteq> [] \<and> sub_Status s1 = SubscriptionStatusPastDue \<and> sub_CyclesProcessed s1 = 1 \<and> sub_Retries s1 = 1"
proof -
  have "case fst (BillingCycleRunner strict_env 0 None minute_sub declined_world) of
      Inl e \<Rightarrow> False | Inr s1 \<Rightarrow> sub_CyclesProcessed s1 = 1" by code_simp
  then obtain s1 w1 where run: "BillingCycleRunner strict_env 0 None minute_sub declined_world = (Inr s1, w1)"
    and c: "sub_CyclesProcessed s1 = 1" by (cases "BillingCycleRunner strict_env 0 None minute_sub declined_world") (auto split: sum.splits)
  have v: "billing_view minute_sub = (SubscriptionStatusActive, 1, 0)" "rtp_RetryAttempts strict_policy = 1"
    by (simp_all add: billing_view_def minute_sub_def metered_sub_def sample_subscription_def strict_policy_def)
  from runner_refines[OF run declined_facts(1) strict_facts(7) _ _ _ declined_facts(3)[symmetric] strict_facts(5)]
  have "billing_step 0 strict_policy (SubscriptionStatusActive, 1, 0) (billing_view s1)" "w_charges w1 \<noteq> []"
    using declined_facts(2) v(1) by (auto simp: minute_sub_fields in64_def)
  then show ?thesis using run c v(2) by (auto simp: billing_view_def elim!: billing_stepE)
qed

theorem tick_advances_once_witness:
  "\<exists>st1 s1. on_world (SubscriptionRepo_FindDueForBilling ''o'' (131 * Day)) (sample_runtime (\<lambda>_. Taken) tick_world) = (Inr [minute_sub], st1) \<and>
    find_row sub_key (sub_key minute_sub) (t_subscriptions (w_db (run_cycles sample_env (\<lambda>_. (0, Some sample_charge)) [minute_sub] (rt_world st1)))) = Some s1 \<and>
    sub_CyclesProcessed s1 \<le> 2"
proof -
  let ?st = "sample_runtime (\<lambda>_. Taken) tick_world"
  obtain st1 where q: "on_world (SubscriptionRepo_FindDueForBilling ''o'' (131 * Day)) ?st = (Inr [minute_sub], st1)"
    using minute_sub_due tick_subscriptions
    by (simp add: on_world_def SubscriptionRepo_FindDueForBilling_def sel_def stmt_def sample_runtime_def due_row_is_due tick_world_def
        charging_world_def billing_world_def world_of_def) (simp add: minute_sub_def metered_sub_def sample_subscription_def)
  have "\<forall>s\<in>set (t_subscriptions (w_db (rt_world ?st))). \<exists>s1. find_row sub_key (sub_key s)
      (t_subscriptions (w_db (run_cycles sample_env (\<lambda>_. (0, Some sample_charge)) [minute_sub] (rt_world st1)))) = Some s1 \<and>
      (if sub_OrgId s = ''o'' \<and> IsDueForBilling s (131 * Day)
       then sub_CyclesProcessed s1 \<in> {sub_CyclesProcessed s, sub_CyclesProcessed s + 1} else s1 = s)"
    by (rule tick_advances_once[OF _ _ q]) (simp_all add: sample_runtime_def tick_subscriptions minute_sub_fields in64_def)
  then obtain s1 where "find_row sub_key (sub_key minute_sub)
      (t_subscriptions (w_db (run_cycles sample_env (\<lambda>_. (0, Some sample_charge)) [minute_sub] (rt_world st1)))) = Some s1"
    "sub_CyclesProcessed s1 \<le> 2"
    by (auto simp: sample_runtime_def tick_subscriptions minute_sub_fields split: if_splits)
  with q show ?thesis by blast
qed

end
