(* ===== verification/Catalog_Service.thy ===== *)
theory Catalog_Service
  imports Shop_Repositories
begin

text \<open>
  The catalog: products with their variants and prices, from
  src/internal/core/service/product.go and src/internal/core/port/product_input.go,
  variant_input.go and price_input.go, on the repositories product_repo.go, variant_repo.go and
  price_repo.go of src/internal/adapter/db/postgrespgx.  The foreign keys between the three
  tables, and from the lines of orders, are those of
  src/schemas/app/migrations/00001_baseline.sql: here they decide what a
  deletion does, so the statements check them.  The clause every listing ends with
  (scopes.go) is modelled with the order of the rows as a parameter: the database defines it.
  The lemmas show that the catalog stays consistent, what an archived product is, which
  price configurations are stored, and what the details of a product leave out.
\<close>

section \<open>Pages\<close>

record pagination =
  pag_Page :: int
  pag_Limit :: int
  pag_Offset :: int
  pag_SortDirection :: string
  pag_SortBy :: string

text \<open>strings.ToLower on ASCII strings.\<close>

definition lower_char :: "char \<Rightarrow> char" where
  "lower_char c = (let n = of_char c :: nat in if 65 \<le> n \<and> n \<le> 90 then char_of (n + 32) else c)"

definition is_lower :: "char \<Rightarrow> bool" where
  "is_lower c \<longleftrightarrow> (let n = of_char c :: nat in (97 \<le> n \<and> n \<le> 122) \<or> c = CHR ''_'')"

definition is_number :: "char \<Rightarrow> bool" where
  "is_number c \<longleftrightarrow> (let n = of_char c :: nat in 48 \<le> n \<and> n \<le> 57)"

definition safeIdentifier :: "string \<Rightarrow> bool" where
  "safeIdentifier s \<longleftrightarrow> (case s of [] \<Rightarrow> False | c # cs \<Rightarrow> is_lower c \<and> list_all (\<lambda>d. is_lower d \<or> is_number d) cs)"

record page_clause =
  pgc_Column :: string
  pgc_Direction :: string
  pgc_Limit :: int
  pgc_Offset :: int

definition paginationClause :: "pagination \<Rightarrow> page_clause" where
  "paginationClause p =
    (let col = map lower_char (TrimSpace (pag_SortBy p));
         col = (if safeIdentifier col then col else ''created_at'');
         dir = ToUpper (TrimSpace (pag_SortDirection p));
         dir = (if dir \<noteq> ''ASC'' \<and> dir \<noteq> ''DESC'' then ''DESC'' else dir);
         limit = pag_Limit p;
         limit = (if limit \<le> 0 then 10 else if 200 < limit then 200 else limit);
         offset = pag_Offset p;
         offset = (if offset < 0 then 0 else offset)
     in \<lparr> pgc_Column = col, pgc_Direction = dir, pgc_Limit = limit, pgc_Offset = offset \<rparr>)"

text \<open>The rows of a page, where order gives the database's ORDER BY of a column and a direction.\<close>

definition page_of :: "(string \<Rightarrow> string \<Rightarrow> 'r list \<Rightarrow> 'r list) \<Rightarrow> pagination \<Rightarrow> 'r list \<Rightarrow> 'r list" where
  "page_of order p rows =
    (let c = paginationClause p in take (nat (pgc_Limit c)) (drop (nat (pgc_Offset c)) (order (pgc_Column c) (pgc_Direction c) rows)))"

section \<open>Repositories\<close>

definition prc_key :: "'d price \<Rightarrow> string \<times> string" where
  "prc_key p = (prc_OrgId p, prc_Id p)"

definition var_key :: "variant \<Rightarrow> string \<times> string" where
  "var_key v = (var_OrgId v, var_Id v)"

text \<open>Two statements: the number of all matching rows, then the page.\<close>

definition counted_page :: "(string \<Rightarrow> string \<Rightarrow> 'r list \<Rightarrow> 'r list) \<Rightarrow> pagination \<Rightarrow> ('d db \<Rightarrow> 'r list) \<Rightarrow> ('d, 'r list \<times> int) svc" where
  "counted_page order p rows =
    bindS (sel (\<lambda>db. int (length (rows db)))) (\<lambda>count.
    bindS (sel (\<lambda>db. page_of order p (rows db))) (\<lambda>out.
    retS (out, count)))"

definition ProductRepo_Find ::
    "(string \<Rightarrow> string \<Rightarrow> product list \<Rightarrow> product list) \<Rightarrow> string \<Rightarrow> pagination \<Rightarrow> product_status list \<Rightarrow> ('d, product list \<times> int) svc" where
  "ProductRepo_Find order orgId p statuses =
    counted_page order p (\<lambda>db. filter (\<lambda>r. pdt_OrgId r = orgId \<and> (statuses \<noteq> [] \<longrightarrow> pdt_Status r \<in> set statuses)) (t_products db))"

text \<open>A line of an order keeps its variant, and with it the product, from being deleted.\<close>

definition ordered_variant :: "'d db \<Rightarrow> string \<Rightarrow> string \<Rightarrow> bool" where
  "ordered_variant db orgId vid \<longleftrightarrow> list_ex (\<lambda>i. itm_OrgId i = orgId \<and> col_eq (itm_VariantId i) vid) (t_order_items db)"

definition variants_of :: "'d db \<Rightarrow> string \<Rightarrow> string \<Rightarrow> variant list" where
  "variants_of db orgId pid = filter (\<lambda>v. var_OrgId v = orgId \<and> var_ProductId v = pid) (t_variants db)"

definition asConflictOnFK :: "string \<Rightarrow> app_error \<Rightarrow> app_error" where
  "asConflictOnFK msg e =
    (if e = InfraError ''constraint violation'' then NewCustomError ConflictError msg (Some e) else e)"

definition cascade_product :: "string \<Rightarrow> string \<Rightarrow> 'd db \<Rightarrow> 'd db" where
  "cascade_product orgId pid db =
    (let gone = map var_Id (variants_of db orgId pid) in
     db\<lparr>t_products := filter (\<lambda>r. pdt_key r \<noteq> (orgId, pid)) (t_products db),
        t_variants := filter (\<lambda>v. \<not> (var_OrgId v = orgId \<and> var_ProductId v = pid)) (t_variants db),
        t_prices := filter (\<lambda>p. \<not> (prc_OrgId p = orgId \<and> prc_VariantId p \<in> set gone)) (t_prices db)\<rparr>)"

definition ProductRepo_Delete :: "string \<Rightarrow> string \<Rightarrow> ('d, unit) svc" where
  "ProductRepo_Delete orgId pid =
    mapErrS (asConflictOnFK ''Cannot delete a product that has existing orders.'')
      (exec (\<lambda>db. if list_ex (\<lambda>v. ordered_variant db orgId (var_Id v)) (variants_of db orgId pid) then None
                  else Some (cascade_product orgId pid db)))"

definition VariantRepo_FindById :: "string \<Rightarrow> string \<Rightarrow> ('d, variant) svc" where
  "VariantRepo_FindById orgId vid = selOne (\<lambda>db. find_row var_key (orgId, vid) (t_variants db))"

definition VariantRepo_Create :: "variant \<Rightarrow> ('d, variant) svc" where
  "VariantRepo_Create v =
    bindS (exec (\<lambda>db. if (var_OrgId v, var_ProductId v) \<notin> set (map pdt_key (t_products db)) then None
                  else map_option (\<lambda>rs. db\<lparr>t_variants := rs\<rparr>) (insert_row (\<lambda>a b. var_key a = var_key b) v (t_variants db)))) (\<lambda>_.
    VariantRepo_FindById (var_OrgId v) (var_Id v))"

definition VariantRepo_FindByProductId ::
    "(string \<Rightarrow> string \<Rightarrow> variant list \<Rightarrow> variant list) \<Rightarrow> string \<Rightarrow> string \<Rightarrow> pagination \<Rightarrow> ('d, variant list \<times> int) svc" where
  "VariantRepo_FindByProductId order orgId pid p = counted_page order p (\<lambda>db. variants_of db orgId pid)"

definition var_merge :: "variant \<Rightarrow> variant \<Rightarrow> variant" where
  "var_merge old v = v\<lparr>var_CreatedAt := var_CreatedAt old\<rparr>"

definition VariantRepo_Update :: "variant \<Rightarrow> ('d, variant) svc" where
  "VariantRepo_Update v =
    bindS (exec (\<lambda>db. if var_key v \<in> set (map var_key (t_variants db)) \<and>
                         (var_OrgId v, var_ProductId v) \<notin> set (map pdt_key (t_products db)) then None
                  else Some (db\<lparr>t_variants := update_row var_key var_merge v (t_variants db)\<rparr>))) (\<lambda>_.
    VariantRepo_FindById (var_OrgId v) (var_Id v))"

definition VariantRepo_Delete :: "string \<Rightarrow> string \<Rightarrow> ('d, unit) svc" where
  "VariantRepo_Delete orgId vid =
    exec (\<lambda>db. if ordered_variant db orgId vid then None
      else Some (db\<lparr>t_variants := filter (\<lambda>v. var_key v \<noteq> (orgId, vid)) (t_variants db),
                    t_prices := filter (\<lambda>p. \<not> (prc_OrgId p = orgId \<and> prc_VariantId p = vid)) (t_prices db)\<rparr>))"

definition PriceRepo_Create :: "'d price \<Rightarrow> ('d, 'd price) svc" where
  "PriceRepo_Create p =
    bindS (exec (\<lambda>db. if (prc_OrgId p, prc_VariantId p) \<notin> set (map var_key (t_variants db)) then None
                  else map_option (\<lambda>rs. db\<lparr>t_prices := rs\<rparr>) (insert_row (\<lambda>a b. prc_key a = prc_key b) p (t_prices db)))) (\<lambda>_.
    PriceRepo_FindById (prc_OrgId p) (prc_Id p))"

definition PriceRepo_FindByVariantId ::
    "(string \<Rightarrow> string \<Rightarrow> 'd price list \<Rightarrow> 'd price list) \<Rightarrow> string \<Rightarrow> string \<Rightarrow> pagination \<Rightarrow> ('d, 'd price list \<times> int) svc" where
  "PriceRepo_FindByVariantId order orgId vid p =
    counted_page order p (\<lambda>db. filter (\<lambda>r. prc_OrgId r = orgId \<and> prc_VariantId r = vid) (t_prices db))"

definition PriceRepo_FindByVariantIds :: "string \<Rightarrow> string list \<Rightarrow> ('d, 'd price list) svc" where
  "PriceRepo_FindByVariantIds orgId vids =
    (if vids = [] then retS []
     else sel (\<lambda>db. filter (\<lambda>r. prc_OrgId r = orgId \<and> prc_VariantId r \<in> set vids) (t_prices db)))"

definition prc_merge :: "'d price \<Rightarrow> 'd price \<Rightarrow> 'd price" where
  "prc_merge old p = p\<lparr>prc_CreatedAt := prc_CreatedAt old\<rparr>"

definition PriceRepo_Update :: "'d price \<Rightarrow> ('d, 'd price) svc" where
  "PriceRepo_Update p =
    bindS (exec (\<lambda>db. if prc_key p \<in> set (map prc_key (t_prices db)) \<and>
                         (prc_OrgId p, prc_VariantId p) \<notin> set (map var_key (t_variants db)) then None
                  else Some (db\<lparr>t_prices := update_row prc_key prc_merge p (t_prices db)\<rparr>))) (\<lambda>_.
    PriceRepo_FindById (prc_OrgId p) (prc_Id p))"

definition PriceRepo_Delete :: "string \<Rightarrow> string \<Rightarrow> ('d, unit) svc" where
  "PriceRepo_Delete orgId pid = exec (\<lambda>db. Some (db\<lparr>t_prices := filter (\<lambda>p. prc_key p \<noteq> (orgId, pid)) (t_prices db)\<rparr>))"

section \<open>Inputs\<close>

record 'd product_price_input =
  ppi_Label :: string
  ppi_Category :: price_category
  ppi_Scheme :: pricing_scheme
  ppi_Cycles :: int
  ppi_Currency :: string
  ppi_UnitPrice :: int
  ppi_UnitCount :: int
  ppi_MinPrice :: int
  ppi_SuggestedPrice :: int
  ppi_BillingInterval :: billing_interval
  ppi_BillingIntervalQty :: int
  ppi_TrialInterval :: billing_interval
  ppi_TrialIntervalQty :: int
  ppi_TaxCode :: string
  ppi_BillableMetricId :: string
  ppi_Tiers :: "'d price_tier list"
  ppi_FilterField :: string
  ppi_FilterValue :: string
  ppi_ProrateOnIncrease :: bool
  ppi_CreditOnDecrease :: bool
  ppi_Metadata :: metadata

text \<open>The input of a price names its organisation and variant as well.\<close>

record 'd create_price_input =
  cpi_OrgId :: string
  cpi_VariantId :: string
  cpi_Price :: "'d product_price_input"

record 'd product_variant_input =
  pvi_Name :: string
  pvi_Description :: string
  pvi_Metadata :: metadata
  pvi_Prices :: "'d product_price_input list"

record 'd create_product_input =
  cdi_Name :: string
  cdi_Description :: string
  cdi_Metadata :: metadata
  cdi_Variants :: "'d product_variant_input list"

record update_product_input =
  upi_Name :: string
  upi_Description :: string
  upi_Metadata :: metadata

text \<open>The service reads the first identifiers from its own arguments, not from the input.\<close>

record create_variant_input =
  cvi_OrgId :: string
  cvi_Id :: string
  cvi_ProductId :: string
  cvi_Name :: string
  cvi_Description :: string
  cvi_Metadata :: metadata

record update_variant_input =
  uvi_Name :: string
  uvi_Description :: string
  uvi_Metadata :: metadata

text \<open>The interval left out is the empty string.\<close>

definition default_interval :: "billing_interval \<Rightarrow> billing_interval" where
  "default_interval i = (if i = BillingIntervalOther [] then BillingIntervalNone else i)"

definition ToPrice :: "'d product_price_input \<Rightarrow> string \<Rightarrow> string \<Rightarrow> ('d, 'd price) svc" where
  "ToPrice inp orgId variantId =
    bindS (Generate ''price'') (\<lambda>pid.
    bindS nowS (\<lambda>createdAt.
    bindS nowS (\<lambda>updatedAt.
    retS \<lparr> prc_OrgId = orgId, prc_Id = pid, prc_VariantId = variantId, prc_Label = ppi_Label inp,
      prc_Category = ppi_Category inp, prc_Scheme = ppi_Scheme inp, prc_Cycles = ppi_Cycles inp,
      prc_Currency = ppi_Currency inp, prc_UnitPrice = ppi_UnitPrice inp, prc_UnitCount = max 1 (ppi_UnitCount inp),
      prc_MinPrice = ppi_MinPrice inp, prc_SuggestedPrice = ppi_SuggestedPrice inp,
      prc_BillingInterval = default_interval (ppi_BillingInterval inp), prc_BillingIntervalQty = ppi_BillingIntervalQty inp,
      prc_TrialInterval = default_interval (ppi_TrialInterval inp), prc_TrialIntervalQty = ppi_TrialIntervalQty inp,
      prc_TaxCode = ppi_TaxCode inp, prc_BillableMetricId = ppi_BillableMetricId inp, prc_Tiers = ppi_Tiers inp,
      prc_FilterField = ppi_FilterField inp, prc_FilterValue = ppi_FilterValue inp,
      prc_ProrateOnIncrease = ppi_ProrateOnIncrease inp, prc_CreditOnDecrease = ppi_CreditOnDecrease inp,
      prc_Metadata = ppi_Metadata inp, prc_CreatedAt = createdAt, prc_UpdatedAt = updatedAt \<rparr>)))"

definition em_dash :: string where
  "em_dash = [char_of (226 :: nat), char_of (128 :: nat), char_of (148 :: nat)]"

definition bad_price :: "string \<Rightarrow> unit res" where
  "bad_price msg = Inl (NewCustomError BadRequestError msg None)"

definition validatePriceConfig :: "pricing_scheme \<Rightarrow> 'd price_tier list \<Rightarrow> int \<Rightarrow> string \<Rightarrow> unit res" where
  "validatePriceConfig scheme tiers unitCount metricId =
    (if scheme \<in> {Graduated, Volume, Tiered} then
       (if tiers = [] then bad_price ''tiers are required for graduated, volume, or tiered schemes''
        else if 1 < unitCount then bad_price ''unit_count applies only to the fixed and package schemes''
        else Inr ())
     else if scheme = Package then
       (if metricId = [] then bad_price (''package scheme requires a billable metric '' @ em_dash @ '' it bills started blocks of usage'')
        else if tiers \<noteq> [] then bad_price (''package scheme is flat '' @ em_dash @ '' tiers are not allowed'')
        else Inr ())
     else Inr ())"

section \<open>The service\<close>

text \<open>A created product carries its variants and their prices.  The description and the metadata of a
  variant and the two switches of a price do not reach the rows.\<close>

definition create_price_of :: "string \<Rightarrow> variant \<Rightarrow> unit \<Rightarrow> 'd product_price_input \<Rightarrow> ('d, unit) svc" where
  "create_price_of orgId v _ p =
    bindS (ToPrice (p\<lparr>ppi_ProrateOnIncrease := False, ppi_CreditOnDecrease := False\<rparr>) orgId (var_Id v)) (\<lambda>price.
    bindS (PriceRepo_Create price) (\<lambda>_. retS ()))"

definition create_variant_of :: "string \<Rightarrow> product \<Rightarrow> unit \<Rightarrow> 'd product_variant_input \<Rightarrow> ('d, unit) svc" where
  "create_variant_of orgId p _ v =
    bindS (Generate ''var'') (\<lambda>vid.
    bindS nowS (\<lambda>createdAt.
    bindS nowS (\<lambda>updatedAt.
    bindS (VariantRepo_Create \<lparr> var_OrgId = orgId, var_Id = vid, var_ProductId = pdt_Id p, var_Name = pvi_Name v,
             var_Description = [], var_Metadata = Map.empty, var_CreatedAt = createdAt, var_UpdatedAt = updatedAt \<rparr>) (\<lambda>variant.
    foldS (create_price_of orgId variant) () (pvi_Prices v)))))"

definition CreateProduct :: "string \<Rightarrow> 'd create_product_input \<Rightarrow> ('d, product) svc" where
  "CreateProduct orgId inp =
    bindS (Generate ''prod'') (\<lambda>pid.
    bindS nowS (\<lambda>createdAt.
    bindS nowS (\<lambda>updatedAt.
    bindS (ProductRepo_Create \<lparr> pdt_OrgId = orgId, pdt_Id = pid, pdt_Name = cdi_Name inp, pdt_Description = cdi_Description inp,
             pdt_Status = ProductStatusActive, pdt_ArchivedAt = None, pdt_Metadata = cdi_Metadata inp,
             pdt_CreatedAt = createdAt, pdt_UpdatedAt = updatedAt \<rparr>) (\<lambda>product.
    bindS (foldS (create_variant_of orgId product) () (cdi_Variants inp)) (\<lambda>_.
    bindS (ProductRepo_FindById orgId (pdt_Id product)) (\<lambda>product.
    bindS (ignoreS (Publish orgId ''product.created'' (MsgProduct product))) (\<lambda>_.
    retS product)))))))"

definition CreateProductPrice :: "'d create_price_input \<Rightarrow> ('d, 'd price) svc" where
  "CreateProductPrice inp =
    bindS (liftS (validatePriceConfig (ppi_Scheme (cpi_Price inp)) (ppi_Tiers (cpi_Price inp)) (ppi_UnitCount (cpi_Price inp))
             (ppi_BillableMetricId (cpi_Price inp)))) (\<lambda>_.
    bindS (ToPrice (cpi_Price inp) (cpi_OrgId inp) (cpi_VariantId inp)) (\<lambda>entity.
    bindS (PriceRepo_Create entity) (\<lambda>price.
    bindS (ignoreS (Publish (cpi_OrgId inp) ''price.created'' (MsgPrice price))) (\<lambda>_.
    retS price))))"

definition UpdateProduct :: "string \<Rightarrow> string \<Rightarrow> update_product_input \<Rightarrow> ('d, product) svc" where
  "UpdateProduct orgId pid inp =
    bindS (ProductRepo_FindById orgId pid) (\<lambda>product.
    bindS nowS (\<lambda>now.
    bindS (ProductRepo_Update (product\<lparr>pdt_Name := upi_Name inp, pdt_Description := upi_Description inp,
             pdt_Metadata := upi_Metadata inp, pdt_UpdatedAt := now\<rparr>)) (\<lambda>product.
    bindS (ignoreS (Publish orgId ''product.updated'' (MsgProduct product))) (\<lambda>_.
    retS product))))"

definition ArchiveProduct :: "string \<Rightarrow> string \<Rightarrow> ('d, product) svc" where
  "ArchiveProduct orgId pid =
    bindS (ProductRepo_FindById orgId pid) (\<lambda>product.
    if IsArchived product then retS product
    else
      bindS nowS (\<lambda>now.
      bindS (ProductRepo_Update (product\<lparr>pdt_Status := ProductStatusArchived, pdt_ArchivedAt := Some now, pdt_UpdatedAt := now\<rparr>)) (\<lambda>product.
      bindS (ignoreS (Publish orgId ''product.archived'' (MsgProduct product))) (\<lambda>_.
      retS product))))"

definition UnarchiveProduct :: "string \<Rightarrow> string \<Rightarrow> ('d, product) svc" where
  "UnarchiveProduct orgId pid =
    bindS (ProductRepo_FindById orgId pid) (\<lambda>product.
    if \<not> IsArchived product then retS product
    else
      bindS nowS (\<lambda>now.
      bindS (ProductRepo_Update (product\<lparr>pdt_Status := ProductStatusActive, pdt_ArchivedAt := None, pdt_UpdatedAt := now\<rparr>)) (\<lambda>product.
      bindS (ignoreS (Publish orgId ''product.unarchived'' (MsgProduct product))) (\<lambda>_.
      retS product))))"

definition DeleteProduct :: "string \<Rightarrow> string \<Rightarrow> ('d, unit) svc" where
  "DeleteProduct orgId pid =
    bindS (ProductRepo_FindById orgId pid) (\<lambda>product.
    bindS (ProductRepo_Delete orgId pid) (\<lambda>_.
    bindS (ignoreS (Publish orgId ''product.deleted'' (MsgProduct product))) (\<lambda>_.
    retS ())))"

definition CreateVariant :: "string \<Rightarrow> string \<Rightarrow> create_variant_input \<Rightarrow> ('d, variant) svc" where
  "CreateVariant orgId productId inp =
    bindS (Generate ''var'') (\<lambda>vid.
    bindS nowS (\<lambda>createdAt.
    bindS nowS (\<lambda>updatedAt.
    bindS (VariantRepo_Create \<lparr> var_OrgId = orgId, var_Id = vid, var_ProductId = productId, var_Name = cvi_Name inp,
             var_Description = cvi_Description inp, var_Metadata = cvi_Metadata inp,
             var_CreatedAt = createdAt, var_UpdatedAt = updatedAt \<rparr>) (\<lambda>variant.
    bindS (ignoreS (Publish orgId ''variant.created'' (MsgVariant variant))) (\<lambda>_.
    retS variant)))))"

definition UpdateVariant :: "string \<Rightarrow> string \<Rightarrow> update_variant_input \<Rightarrow> ('d, variant) svc" where
  "UpdateVariant orgId vid inp =
    bindS (VariantRepo_FindById orgId vid) (\<lambda>variant.
    bindS nowS (\<lambda>now.
    bindS (VariantRepo_Update (variant\<lparr>var_Name := uvi_Name inp, var_Description := uvi_Description inp,
             var_Metadata := uvi_Metadata inp, var_UpdatedAt := now\<rparr>)) (\<lambda>variant.
    bindS (ignoreS (Publish orgId ''variant.updated'' (MsgVariant variant))) (\<lambda>_.
    retS variant))))"

definition DeleteVariant :: "string \<Rightarrow> string \<Rightarrow> ('d, unit) svc" where
  "DeleteVariant orgId vid =
    bindS (VariantRepo_FindById orgId vid) (\<lambda>variant.
    bindS (VariantRepo_Delete orgId vid) (\<lambda>_.
    bindS (ignoreS (Publish orgId ''variant.deleted'' (MsgVariant variant))) (\<lambda>_.
    retS ())))"

definition changed_price :: "'d product_price_input \<Rightarrow> time \<Rightarrow> 'd price \<Rightarrow> 'd price" where
  "changed_price inp now p =
    p\<lparr>prc_Label := ppi_Label inp, prc_Category := ppi_Category inp, prc_Scheme := ppi_Scheme inp, prc_Cycles := ppi_Cycles inp,
      prc_Currency := ppi_Currency inp, prc_UnitPrice := ppi_UnitPrice inp, prc_UnitCount := max 1 (ppi_UnitCount inp),
      prc_MinPrice := ppi_MinPrice inp, prc_SuggestedPrice := ppi_SuggestedPrice inp,
      prc_BillingInterval := default_interval (ppi_BillingInterval inp), prc_BillingIntervalQty := ppi_BillingIntervalQty inp,
      prc_TrialInterval := default_interval (ppi_TrialInterval inp), prc_TrialIntervalQty := ppi_TrialIntervalQty inp,
      prc_TaxCode := ppi_TaxCode inp, prc_BillableMetricId := ppi_BillableMetricId inp, prc_Tiers := ppi_Tiers inp,
      prc_FilterField := ppi_FilterField inp, prc_FilterValue := ppi_FilterValue inp,
      prc_ProrateOnIncrease := ppi_ProrateOnIncrease inp, prc_CreditOnDecrease := ppi_CreditOnDecrease inp,
      prc_Metadata := ppi_Metadata inp, prc_UpdatedAt := now\<rparr>"

definition UpdatePrice :: "string \<Rightarrow> string \<Rightarrow> 'd product_price_input \<Rightarrow> ('d, 'd price) svc" where
  "UpdatePrice orgId pid inp =
    bindS (liftS (validatePriceConfig (ppi_Scheme inp) (ppi_Tiers inp) (ppi_UnitCount inp) (ppi_BillableMetricId inp))) (\<lambda>_.
    bindS (PriceRepo_FindById orgId pid) (\<lambda>price.
    bindS nowS (\<lambda>now.
    bindS (PriceRepo_Update (changed_price inp now price)) (\<lambda>price.
    bindS (ignoreS (Publish orgId ''price.updated'' (MsgPrice price))) (\<lambda>_.
    retS price)))))"

definition DeletePrice :: "string \<Rightarrow> string \<Rightarrow> ('d, unit) svc" where
  "DeletePrice orgId pid =
    bindS (PriceRepo_FindById orgId pid) (\<lambda>price.
    bindS (PriceRepo_Delete orgId pid) (\<lambda>_.
    bindS (ignoreS (Publish orgId ''price.deleted'' (MsgPrice price))) (\<lambda>_.
    retS ())))"

text \<open>The read model: a product with its variants, each with its prices.\<close>

record 'd variant_details =
  vrd_Variant :: variant
  vrd_Prices :: "'d price list"

record 'd product_details =
  prd_Product :: product
  prd_Variants :: "'d variant_details list"

definition first_page :: "int \<Rightarrow> pagination" where
  "first_page limit = \<lparr> pag_Page = 1, pag_Limit = limit, pag_Offset = 0, pag_SortDirection = [], pag_SortBy = [] \<rparr>"

definition details_of :: "(string \<Rightarrow> string \<Rightarrow> variant list \<Rightarrow> variant list) \<Rightarrow> string \<Rightarrow> product \<Rightarrow> ('d, 'd product_details) svc" where
  "details_of order orgId product =
    bindS (VariantRepo_FindByProductId order orgId (pdt_Id product) (first_page 1000)) (\<lambda>(variants, _).
    bindS (PriceRepo_FindByVariantIds orgId (map var_Id variants)) (\<lambda>prices.
    retS \<lparr> prd_Product = product,
      prd_Variants = map (\<lambda>v. \<lparr> vrd_Variant = v, vrd_Prices = filter (\<lambda>p. prc_VariantId p = var_Id v) prices \<rparr>) variants \<rparr>))"

definition ProductService_GetDetails :: "(string \<Rightarrow> string \<Rightarrow> variant list \<Rightarrow> variant list) \<Rightarrow> string \<Rightarrow> string \<Rightarrow> ('d, 'd product_details) svc" where
  "ProductService_GetDetails order orgId pid =
    bindS (ProductRepo_FindById orgId pid) (\<lambda>product. details_of order orgId product)"

definition ListDetails ::
    "(string \<Rightarrow> string \<Rightarrow> variant list \<Rightarrow> variant list) \<Rightarrow> (string \<Rightarrow> string \<Rightarrow> product list \<Rightarrow> product list) \<Rightarrow>
     string \<Rightarrow> pagination \<Rightarrow> product_status list \<Rightarrow> ('d, 'd product_details list \<times> int) svc" where
  "ListDetails vorder order orgId p statuses =
    bindS (ProductRepo_Find order orgId p statuses) (\<lambda>(products, count).
    bindS (mapS (details_of vorder orgId) products) (\<lambda>out.
    retS (out, count)))"

definition GetVariantDetails :: "(string \<Rightarrow> string \<Rightarrow> 'd price list \<Rightarrow> 'd price list) \<Rightarrow> string \<Rightarrow> string \<Rightarrow> ('d, 'd variant_details) svc" where
  "GetVariantDetails order orgId vid =
    bindS (VariantRepo_FindById orgId vid) (\<lambda>variant.
    bindS (PriceRepo_FindByVariantId order orgId (var_Id variant) (first_page 1000)) (\<lambda>(prices, _).
    retS \<lparr> vrd_Variant = variant, vrd_Prices = prices \<rparr>))"

section \<open>The catalog stays consistent\<close>

text \<open>Every variant has its product, every price its variant, and every line of an order its variant.\<close>

definition catalog_ok :: "'d db \<Rightarrow> bool" where
  "catalog_ok db \<longleftrightarrow>
    (\<forall>v\<in>set (t_variants db). (var_OrgId v, var_ProductId v) \<in> pdt_key ` set (t_products db)) \<and>
    (\<forall>p\<in>set (t_prices db). (prc_OrgId p, prc_VariantId p) \<in> var_key ` set (t_variants db)) \<and>
    (\<forall>i\<in>set (t_order_items db). itm_VariantId i \<noteq> [] \<longrightarrow> (itm_OrgId i, itm_VariantId i) \<in> var_key ` set (t_variants db))"

definition keeps_catalog :: "'d db \<Rightarrow> 'd db \<Rightarrow> bool" where
  "keeps_catalog db db1 \<longleftrightarrow> (catalog_ok db \<longrightarrow> catalog_ok db1)"

interpretation cat: step_relation keeps_catalog
  by unfold_locales (auto simp: keeps_catalog_def)

lemma catalog_frame:
  "t_products d1 = t_products d \<Longrightarrow> t_variants d1 = t_variants d \<Longrightarrow> t_prices d1 = t_prices d \<Longrightarrow> t_order_items d1 = t_order_items d \<Longrightarrow>
    catalog_ok d1 = catalog_ok d"
  by (simp add: catalog_ok_def)

lemma keeps_Publish [obey]: "obeys keeps_catalog (Publish a t m)"
proof (rule obeysI)
  fix w r w1
  assume "Publish a t m w = (r, w1)"
  from keeps[OF keep_Publish[of "\<lambda>d. (t_products d, t_variants d, t_prices d, t_order_items d)"] this] have "t_products (w_db w1) = t_products (w_db w)" "t_variants (w_db w1) = t_variants (w_db w)"
      "t_prices (w_db w1) = t_prices (w_db w)" "t_order_items (w_db w1) = t_order_items (w_db w)"
    by simp_all
  then show "keeps_catalog (w_db w) (w_db w1)" by (simp add: keeps_catalog_def catalog_ok_def)
qed

lemma update_row_key_set:
  assumes "\<And>old. key old = key r \<Longrightarrow> key (merge old r) = key r"
  shows "key ` set (update_row key merge r rows) = key ` set rows"
proof -
  have "map key (update_row key merge r rows) = map key rows" using assms by (induction rows) (auto simp: update_row_def)
  then show ?thesis by (metis set_map)
qed

lemma update_row_all:
  "x \<in> set (update_row key merge r rows) \<Longrightarrow> \<forall>y\<in>set rows. Q y \<Longrightarrow>
    (\<And>old. old \<in> set rows \<Longrightarrow> key old = key r \<Longrightarrow> Q (merge old r)) \<Longrightarrow> Q x"
  by (auto simp: update_row_def split: if_splits)

lemma insert_row_set: "insert_row clash r rows = Some rs \<Longrightarrow> set rs = insert r (set rows)"
  by (auto simp: insert_row_def split: if_splits)

lemma keeps_guarded:
  "(\<And>d. catalog_ok d \<Longrightarrow> \<not> c d \<Longrightarrow> catalog_ok (g d)) \<Longrightarrow> obeys keeps_catalog (exec (\<lambda>d. if c d then None else Some (g d)))"
  by (rule cat.obeys_exec) (auto simp: keeps_catalog_def split: if_splits)

lemma keeps_product_writes [obey]: "obeys keeps_catalog (ProductRepo_Create p)" "obeys keeps_catalog (ProductRepo_Update p)"
proof -
  show "obeys keeps_catalog (ProductRepo_Create p)"
    unfolding ProductRepo_Create_def ProductRepo_FindById_def
    by (intro cat.obeys_bind cat.obeys_exec cat.obeys_selOne) (auto simp: keeps_catalog_def catalog_ok_def dest!: insert_row_set)
  have k: "pdt_key ` set (update_row pdt_key pdt_merge p rows) = pdt_key ` set rows" for rows
    by (rule update_row_key_set) (simp add: pdt_key_def pdt_merge_def)
  show "obeys keeps_catalog (ProductRepo_Update p)"
    unfolding ProductRepo_Update_def ProductRepo_FindById_def
    by (intro cat.obeys_bind cat.obeys_exec cat.obeys_selOne) (auto simp: keeps_catalog_def catalog_ok_def k)
qed

lemma keeps_variant_writes [obey]: "obeys keeps_catalog (VariantRepo_Create v)" "obeys keeps_catalog (VariantRepo_Update v)"
proof -
  show "obeys keeps_catalog (VariantRepo_Create v)"
    unfolding VariantRepo_Create_def VariantRepo_FindById_def
    by (intro cat.obeys_bind cat.obeys_exec cat.obeys_selOne)
      (auto simp: keeps_catalog_def catalog_ok_def split: if_splits dest!: insert_row_set)
  have u: "catalog_ok (d\<lparr>t_variants := update_row var_key var_merge v (t_variants d)\<rparr>)"
    if ok: "catalog_ok d" and fk: "\<not> (var_key v \<in> set (map var_key (t_variants d)) \<and> (var_OrgId v, var_ProductId v) \<notin> set (map pdt_key (t_products d)))"
    for d
  proof -
    have k: "var_key ` set (update_row var_key var_merge v (t_variants d)) = var_key ` set (t_variants d)"
      by (rule update_row_key_set) (simp add: var_key_def var_merge_def)
    have "(var_OrgId x, var_ProductId x) \<in> pdt_key ` set (t_products d)" if "x \<in> set (update_row var_key var_merge v (t_variants d))" for x
    proof (rule update_row_all[OF that])
      fix old assume "old \<in> set (t_variants d)" and "var_key old = var_key v"
      then have "var_key v \<in> set (map var_key (t_variants d))" by (simp, metis imageI)
      then show "(var_OrgId (var_merge old v), var_ProductId (var_merge old v)) \<in> pdt_key ` set (t_products d)"
        using fk by (simp add: var_merge_def)
    qed (use ok in \<open>simp add: catalog_ok_def\<close>)
    then show ?thesis using ok k by (simp add: catalog_ok_def)
  qed
  show "obeys keeps_catalog (VariantRepo_Update v)"
    unfolding VariantRepo_Update_def VariantRepo_FindById_def
    by (intro cat.obeys_bind cat.obeys_selOne keeps_guarded u)
qed

lemma keeps_price_writes [obey]: "obeys keeps_catalog (PriceRepo_Create p)" "obeys keeps_catalog (PriceRepo_Update p)"
    "obeys keeps_catalog (PriceRepo_Delete o1 i)"
proof -
  show "obeys keeps_catalog (PriceRepo_Create p)"
    unfolding PriceRepo_Create_def PriceRepo_FindById_def
    by (intro cat.obeys_bind cat.obeys_exec cat.obeys_selOne)
      (auto simp: keeps_catalog_def catalog_ok_def split: if_splits dest!: insert_row_set)
  have u: "catalog_ok (d\<lparr>t_prices := update_row prc_key prc_merge p (t_prices d)\<rparr>)"
    if ok: "catalog_ok d" and fk: "\<not> (prc_key p \<in> set (map prc_key (t_prices d)) \<and> (prc_OrgId p, prc_VariantId p) \<notin> set (map var_key (t_variants d)))"
    for d
  proof -
    have "(prc_OrgId x, prc_VariantId x) \<in> var_key ` set (t_variants d)" if "x \<in> set (update_row prc_key prc_merge p (t_prices d))" for x
    proof (rule update_row_all[OF that])
      fix old assume "old \<in> set (t_prices d)" and "prc_key old = prc_key p"
      then have "prc_key p \<in> set (map prc_key (t_prices d))" by (simp, metis imageI)
      then show "(prc_OrgId (prc_merge old p), prc_VariantId (prc_merge old p)) \<in> var_key ` set (t_variants d)"
        using fk by (simp add: prc_merge_def)
    qed (use ok in \<open>simp add: catalog_ok_def\<close>)
    then show ?thesis using ok by (simp add: catalog_ok_def)
  qed
  show "obeys keeps_catalog (PriceRepo_Update p)"
    unfolding PriceRepo_Update_def PriceRepo_FindById_def
    by (intro cat.obeys_bind cat.obeys_selOne keeps_guarded u)
  show "obeys keeps_catalog (PriceRepo_Delete o1 i)"
    unfolding PriceRepo_Delete_def by (rule cat.obeys_exec) (auto simp: keeps_catalog_def catalog_ok_def)
qed

lemma cascade_ok:
  assumes ok: "catalog_ok db" and free: "\<not> list_ex (\<lambda>v. ordered_variant db o1 (var_Id v)) (variants_of db o1 i)"
  shows "catalog_ok (cascade_product o1 i db)"
proof -
  have v: "(a, b) \<in> var_key ` {v \<in> set (t_variants db). \<not> (var_OrgId v = o1 \<and> var_ProductId v = i)}"
    if "(a, b) \<in> var_key ` set (t_variants db)" and "a = o1 \<Longrightarrow> b \<notin> set (map var_Id (variants_of db o1 i))" for a b
    using that by (force simp: var_key_def variants_of_def)
  have f: "itm_VariantId x \<notin> set (map var_Id (variants_of db o1 i))"
    if "x \<in> set (t_order_items db)" and "itm_OrgId x = o1" and "itm_VariantId x \<noteq> []" for x
    using that free by (auto simp: list_ex_iff ordered_variant_def col_eq_def)
  have p: "(a, b) \<in> pdt_key ` {r \<in> set (t_products db). pdt_key r \<noteq> (o1, i)}"
    if "(a, b) \<in> pdt_key ` set (t_products db)" and "(a, b) \<noteq> (o1, i)" for a b
    using that by force
  let ?d = "cascade_product o1 i db"
  have t: "set (t_products ?d) = {r \<in> set (t_products db). pdt_key r \<noteq> (o1, i)}"
      "set (t_variants ?d) = {v \<in> set (t_variants db). \<not> (var_OrgId v = o1 \<and> var_ProductId v = i)}"
      "set (t_prices ?d) = {p \<in> set (t_prices db). \<not> (prc_OrgId p = o1 \<and> prc_VariantId p \<in> set (map var_Id (variants_of db o1 i)))}"
      "t_order_items ?d = t_order_items db"
    by (simp_all add: cascade_product_def Let_def)
  show ?thesis using ok unfolding catalog_ok_def t by (intro conjI ballI impI p v) (auto dest: f)
qed

lemma drop_variant_ok:
  assumes ok: "catalog_ok db" and free: "\<not> ordered_variant db o1 i"
  shows "catalog_ok (db\<lparr>t_variants := filter (\<lambda>v. var_key v \<noteq> (o1, i)) (t_variants db),
    t_prices := filter (\<lambda>p. \<not> (prc_OrgId p = o1 \<and> prc_VariantId p = i)) (t_prices db)\<rparr>)"
proof -
  have v: "(a, b) \<in> var_key ` {v \<in> set (t_variants db). var_key v \<noteq> (o1, i)}"
    if "(a, b) \<in> var_key ` set (t_variants db)" and "(a, b) \<noteq> (o1, i)" for a b
    using that by force
  have f: "(itm_OrgId x, itm_VariantId x) \<noteq> (o1, i)" if "x \<in> set (t_order_items db)" and "itm_VariantId x \<noteq> []" for x
    using that free by (auto simp: list_ex_iff ordered_variant_def col_eq_def)
  let ?d = "db\<lparr>t_variants := filter (\<lambda>v. var_key v \<noteq> (o1, i)) (t_variants db),
    t_prices := filter (\<lambda>p. \<not> (prc_OrgId p = o1 \<and> prc_VariantId p = i)) (t_prices db)\<rparr>"
  have t: "t_products ?d = t_products db" "set (t_variants ?d) = {v \<in> set (t_variants db). var_key v \<noteq> (o1, i)}"
      "set (t_prices ?d) = {p \<in> set (t_prices db). \<not> (prc_OrgId p = o1 \<and> prc_VariantId p = i)}" "t_order_items ?d = t_order_items db"
    by simp_all
  show ?thesis using ok unfolding catalog_ok_def t by (intro conjI ballI impI v) (auto dest: f)
qed

lemma keeps_deletes [obey]: "obeys keeps_catalog (ProductRepo_Delete o1 i)" "obeys keeps_catalog (VariantRepo_Delete o1 i)"
  unfolding ProductRepo_Delete_def VariantRepo_Delete_def
  by (intro cat.obeys_mapErr keeps_guarded cascade_ok, assumption, assumption)
    (intro keeps_guarded drop_variant_ok, assumption, assumption)

lemmas catalog_steps = cat.obeys_bind cat.obeys_ignore cat.obeys_fold obey

lemma keeps_catalog_ops [obey]:
  "obeys keeps_catalog (CreateProduct o1 cdi)" "obeys keeps_catalog (CreateProductPrice cpi)"
  "obeys keeps_catalog (UpdateProduct o1 i upi)" "obeys keeps_catalog (ArchiveProduct o1 i)" "obeys keeps_catalog (UnarchiveProduct o1 i)"
  "obeys keeps_catalog (DeleteProduct o1 i)" "obeys keeps_catalog (CreateVariant o1 i cvi)" "obeys keeps_catalog (UpdateVariant o1 i uvi)"
  "obeys keeps_catalog (DeleteVariant o1 i)" "obeys keeps_catalog (UpdatePrice o1 i ppi)" "obeys keeps_catalog (DeletePrice o1 i)"
  unfolding CreateProduct_def create_variant_of_def create_price_of_def CreateProductPrice_def ToPrice_def UpdateProduct_def
    ArchiveProduct_def UnarchiveProduct_def DeleteProduct_def CreateVariant_def UpdateVariant_def DeleteVariant_def UpdatePrice_def
    DeletePrice_def ProductRepo_FindById_def VariantRepo_FindById_def PriceRepo_FindById_def
  by (auto intro!: catalog_steps)

text \<open>What a tenant can do to its catalog.\<close>

datatype 'd catalog_op =
    Op_CreateProduct string "'d create_product_input"
  | Op_UpdateProduct string string update_product_input
  | Op_ArchiveProduct string string
  | Op_UnarchiveProduct string string
  | Op_DeleteProduct string string
  | Op_CreateVariant string string create_variant_input
  | Op_UpdateVariant string string update_variant_input
  | Op_DeleteVariant string string
  | Op_CreatePrice "'d create_price_input"
  | Op_UpdatePrice string string "'d product_price_input"
  | Op_DeletePrice string string

fun catalog_run :: "'d catalog_op \<Rightarrow> 'd world \<Rightarrow> 'd world" where
  "catalog_run (Op_CreateProduct a x) w = snd (CreateProduct a x w)"
| "catalog_run (Op_UpdateProduct a b x) w = snd (UpdateProduct a b x w)"
| "catalog_run (Op_ArchiveProduct a b) w = snd (ArchiveProduct a b w)"
| "catalog_run (Op_UnarchiveProduct a b) w = snd (UnarchiveProduct a b w)"
| "catalog_run (Op_DeleteProduct a b) w = snd (DeleteProduct a b w)"
| "catalog_run (Op_CreateVariant a b x) w = snd (CreateVariant a b x w)"
| "catalog_run (Op_UpdateVariant a b x) w = snd (UpdateVariant a b x w)"
| "catalog_run (Op_DeleteVariant a b) w = snd (DeleteVariant a b w)"
| "catalog_run (Op_CreatePrice x) w = snd (CreateProductPrice x w)"
| "catalog_run (Op_UpdatePrice a b x) w = snd (UpdatePrice a b x w)"
| "catalog_run (Op_DeletePrice a b) w = snd (DeletePrice a b w)"

lemma catalog_run_keeps: "catalog_ok (w_db w) \<Longrightarrow> catalog_ok (w_db (catalog_run op w))"
proof -
  have o1: "catalog_ok (w_db w) \<longrightarrow> catalog_ok (w_db (snd (m w)))" if "obeys keeps_catalog m" for m :: "'a world \<Rightarrow> 'r \<times> 'a world"
    using that by (auto simp: obeys_def keeps_catalog_def)
  assume "catalog_ok (w_db w)"
  then show ?thesis by (cases op) (simp_all add: o1[OF keeps_catalog_ops(1), rule_format] o1[rule_format] keeps_catalog_ops)
qed

text \<open>C32: Whatever is done to the catalog, in any order and with any statement failing, every variant
  keeps its product, every price its variant, and every line of an order the variant it was
  sold as: no deletion leaves a row behind or takes one away that an order needs.\<close>

theorem catalog_consistent:
  assumes "catalog_ok (w_db w)"
  shows "catalog_ok (w_db (fold catalog_run ops w))"
  using assms by (induction ops arbitrary: w) (simp_all add: catalog_run_keeps)

section \<open>Price configurations\<close>

definition price_ok :: "'d price \<Rightarrow> bool" where
  "price_ok p \<longleftrightarrow> 1 \<le> prc_UnitCount p \<and>
    (prc_Scheme p \<in> {Graduated, Volume, Tiered} \<longrightarrow> prc_Tiers p \<noteq> [] \<and> prc_UnitCount p = 1) \<and>
    (prc_Scheme p = Package \<longrightarrow> prc_BillableMetricId p \<noteq> [] \<and> prc_Tiers p = []) \<and>
    prc_BillingInterval p \<noteq> BillingIntervalOther [] \<and> prc_TrialInterval p \<noteq> BillingIntervalOther []"

lemma validated_ok:
  assumes "validatePriceConfig (ppi_Scheme inp) (ppi_Tiers inp) (ppi_UnitCount inp) (ppi_BillableMetricId inp) = Inr ()"
    and "prc_Scheme p = ppi_Scheme inp" "prc_Tiers p = ppi_Tiers inp" "prc_UnitCount p = max 1 (ppi_UnitCount inp)"
      "prc_BillableMetricId p = ppi_BillableMetricId inp" "prc_BillingInterval p = default_interval (ppi_BillingInterval inp)"
      "prc_TrialInterval p = default_interval (ppi_TrialInterval inp)"
  shows "price_ok p"
  using assms by (auto simp: price_ok_def validatePriceConfig_def bad_price_def default_interval_def split: if_splits)

lemma PriceRepo_Create_ok:
  assumes "PriceRepo_Create p w = (Inr q, w1)"
  shows "q = p \<and> p \<in> set (t_prices (w_db w1))"
proof -
  obtain rs where ins: "insert_row (\<lambda>a b. prc_key a = prc_key b) p (t_prices (w_db w)) = Some rs" and rs: "t_prices (w_db w1) = rs"
    and f: "find_row prc_key (prc_key p) rs = Some q"
    using assms by (auto simp: PriceRepo_Create_def PriceRepo_FindById_def bindS_Inr exec_Inr selOne_Inr prc_key_def[abs_def]
        simp del: not_None_eq split: if_splits)
  have "find_row prc_key (prc_key p) rs = Some p" by (subst find_row_insert[OF ins]) simp_all
  then show ?thesis using f rs insert_row_set[OF ins] by auto
qed

lemma PriceRepo_Update_ok:
  assumes "PriceRepo_Update p w = (Inr q, w1)"
  shows "\<exists>old. q = prc_merge old p \<and> q \<in> set (t_prices (w_db w1))"
proof -
  have f: "find_row prc_key (prc_key p) (update_row prc_key prc_merge p (t_prices (w_db w))) = Some q"
      and t: "t_prices (w_db w1) = update_row prc_key prc_merge p (t_prices (w_db w))"
    using assms by (auto simp: PriceRepo_Update_def PriceRepo_FindById_def bindS_Inr exec_Inr selOne_Inr prc_key_def[abs_def] split: if_splits)
  from find_row_key[OF f] have k: "prc_key q = prc_key p" and q: "q \<in> set (update_row prc_key prc_merge p (t_prices (w_db w)))" by auto
  then have "\<exists>old. q = prc_merge old p" by (auto simp: update_row_def split: if_splits)
  then show ?thesis using q t by auto
qed

lemma liftS_Inr: "liftS r w = (Inr x, w1) \<longleftrightarrow> r = Inr x \<and> w1 = w"
  by (auto simp: liftS_def)

lemma ignored_Publish_catalog: "bindS (ignoreS (Publish a t m)) (\<lambda>_. retS x) w = (Inr y, w1) \<Longrightarrow>
    y = x \<and> t_products (w_db w1) = t_products (w_db w) \<and> t_variants (w_db w1) = t_variants (w_db w) \<and>
    t_prices (w_db w1) = t_prices (w_db w) \<and> t_order_items (w_db w1) = t_order_items (w_db w)"
proof -
  assume run: "bindS (ignoreS (Publish a t m)) (\<lambda>_. retS x) w = (Inr y, w1)"
  obtain r w2 where p: "Publish a t m w = (r, w2)" by (metis surj_pair)
  have "y = x \<and> w1 = w2" using run p by (simp add: bindS_def ignoreS_def retS_def)
  then show ?thesis
    using keeps[OF keep_Publish[of "\<lambda>d. (t_products d, t_variants d, t_prices d, t_order_items d)"] p] by simp
qed

text \<open>C33: A price that was created or changed on its own has a configuration its scheme can bill:
  tiered schemes have tiers and count single units, a package is metered and flat, the
  number of units is positive and the intervals are given.  An input that breaks the rules is
  refused before anything is read or written.\<close>

theorem price_configurations:
  shows "(CreateProductPrice cpi w = (Inr p, w1) \<longrightarrow> price_ok p \<and> p \<in> set (t_prices (w_db w1))) \<and>
    (UpdatePrice o1 i ppi w = (Inr p, w1) \<longrightarrow> price_ok p \<and> p \<in> set (t_prices (w_db w1))) \<and>
    (validatePriceConfig (ppi_Scheme ppi) (ppi_Tiers ppi) (ppi_UnitCount ppi) (ppi_BillableMetricId ppi) = Inl e \<longrightarrow>
      UpdatePrice o1 i ppi w = (Inl e, w) \<and> CreateProductPrice \<lparr> cpi_OrgId = o1, cpi_VariantId = v, cpi_Price = ppi \<rparr> w = (Inl e, w))"
proof (intro conjI impI)
  assume "CreateProductPrice cpi w = (Inr p, w1)"
  then obtain entity w2 w3 q where val: "validatePriceConfig (ppi_Scheme (cpi_Price cpi)) (ppi_Tiers (cpi_Price cpi))
        (ppi_UnitCount (cpi_Price cpi)) (ppi_BillableMetricId (cpi_Price cpi)) = Inr ()"
    and entity: "ToPrice (cpi_Price cpi) (cpi_OrgId cpi) (cpi_VariantId cpi) w = (Inr entity, w2)" and c: "PriceRepo_Create entity w2 = (Inr q, w3)"
    and rest: "bindS (ignoreS (Publish (cpi_OrgId cpi) ''price.created'' (MsgPrice q))) (\<lambda>_. retS q) w3 = (Inr p, w1)"
    by (auto simp: CreateProductPrice_def bindS_Inr[of "liftS _"] bindS_Inr[of "ToPrice _ _ _"] bindS_Inr[of "PriceRepo_Create _"] liftS_Inr)
  have "price_ok entity" by (rule validated_ok[OF val]) (use entity in \<open>auto simp: ToPrice_def bindS_Inr\<close>)
  then show "price_ok p" "p \<in> set (t_prices (w_db w1))" using PriceRepo_Create_ok[OF c] ignored_Publish_catalog[OF rest] by auto
next
  assume "UpdatePrice o1 i ppi w = (Inr p, w1)"
  then obtain row w2 t w3 w4 q where val: "validatePriceConfig (ppi_Scheme ppi) (ppi_Tiers ppi) (ppi_UnitCount ppi) (ppi_BillableMetricId ppi) = Inr ()"
    and u: "PriceRepo_Update (changed_price ppi t row) w3 = (Inr q, w4)"
    and rest: "bindS (ignoreS (Publish o1 ''price.updated'' (MsgPrice q))) (\<lambda>_. retS q) w4 = (Inr p, w1)"
    by (auto simp: UpdatePrice_def bindS_Inr[of "liftS _"] bindS_Inr[of "PriceRepo_FindById _ _"] bindS_Inr[of nowS] bindS_Inr[of "PriceRepo_Update _"] liftS_Inr)
  obtain old where q: "q = prc_merge old (changed_price ppi t row)" "q \<in> set (t_prices (w_db w4))" using PriceRepo_Update_ok[OF u] by blast
  have "price_ok q" by (rule validated_ok[OF val]) (simp_all add: q(1) prc_merge_def changed_price_def)
  then show "price_ok p" "p \<in> set (t_prices (w_db w1))" using q ignored_Publish_catalog[OF rest] by auto
qed (simp_all add: UpdatePrice_def CreateProductPrice_def bindS_def liftS_def)

section \<open>The lifecycle of a product\<close>

lemma ProductRepo_Update_ok:
  assumes "ProductRepo_Update p w = (Inr q, w1)"
  shows "\<exists>old. q = pdt_merge old p \<and> find_row pdt_key (pdt_key p) (t_products (w_db w1)) = Some q"
proof -
  have f: "find_row pdt_key (pdt_key p) (update_row pdt_key pdt_merge p (t_products (w_db w))) = Some q"
      and t: "t_products (w_db w1) = update_row pdt_key pdt_merge p (t_products (w_db w))"
    using assms by (auto simp: ProductRepo_Update_def ProductRepo_FindById_def bindS_Inr exec_Inr selOne_Inr pdt_key_def[abs_def])
  from find_row_key[OF f] have k: "pdt_key q = pdt_key p" and q: "q \<in> set (update_row pdt_key pdt_merge p (t_products (w_db w)))" by auto
  then have "\<exists>old. q = pdt_merge old p" by (auto simp: update_row_def split: if_splits)
  then show ?thesis using f t by auto
qed

text \<open>Archiving returns an archived product that is stored, and an archived one as it is; a product taken
  back is not archived and has no date of archiving.\<close>

theorem archive_lifecycle:
  assumes "find_row pdt_key (o1, i) (t_products (w_db w)) = Some row"
  shows "(ArchiveProduct o1 i w = (Inr p, w1) \<longrightarrow> IsArchived p \<and> find_row pdt_key (o1, i) (t_products (w_db w1)) = Some p \<and>
      (IsArchived row \<longrightarrow> p = row \<and> w_db w1 = w_db w) \<and> (\<not> IsArchived row \<longrightarrow> pdt_ArchivedAt p \<noteq> None)) \<and>
    (UnarchiveProduct o1 i w = (Inr p, w1) \<longrightarrow> \<not> IsArchived p \<and> find_row pdt_key (o1, i) (t_products (w_db w1)) = Some p \<and>
      (\<not> IsArchived row \<longrightarrow> p = row \<and> w_db w1 = w_db w) \<and> (IsArchived row \<longrightarrow> pdt_ArchivedAt p = None))"
proof -
  have k: "pdt_key row = (o1, i)" using find_row_key[OF assms] by simp
  have row: "x = row \<and> w_db w2 = w_db w" if "ProductRepo_FindById o1 i w = (Inr x, w2)" for x w2
    using that assms by (auto simp: ProductRepo_FindById_def selOne_Inr)
  have change: "(\<exists>old. p = pdt_merge old x) \<and> find_row pdt_key (o1, i) (t_products (w_db w1)) = Some p"
    if run: "bindS (ProductRepo_Update x) (\<lambda>q. bindS (ignoreS (Publish o1 t (MsgProduct q))) (\<lambda>_. retS q)) w3 = (Inr p, w1)"
      and key: "pdt_key x = (o1, i)" for x w3 t
  proof -
    obtain q w4 where u: "ProductRepo_Update x w3 = (Inr q, w4)"
      and rest: "bindS (ignoreS (Publish o1 t (MsgProduct q))) (\<lambda>_. retS q) w4 = (Inr p, w1)"
      by (rule bindS_InrE[OF run])
    show ?thesis using ProductRepo_Update_ok[OF u] ignored_Publish_catalog[OF rest] key by auto
  qed
  show ?thesis
  proof (intro conjI[of "ArchiveProduct o1 i w = (Inr p, w1) \<longrightarrow> _"] impI)
    assume "ArchiveProduct o1 i w = (Inr p, w1)"
    then obtain w2 where w2: "w_db w2 = w_db w" and run: "(if IsArchived row then retS row
        else bindS nowS (\<lambda>now. bindS (ProductRepo_Update (row\<lparr>pdt_Status := ProductStatusArchived, pdt_ArchivedAt := Some now, pdt_UpdatedAt := now\<rparr>))
          (\<lambda>product. bindS (ignoreS (Publish o1 ''product.archived'' (MsgProduct product))) (\<lambda>_. retS product)))) w2 = (Inr p, w1)"
      unfolding ArchiveProduct_def by (elim bindS_InrE) (use row in blast)
    show "IsArchived p \<and> find_row pdt_key (o1, i) (t_products (w_db w1)) = Some p \<and>
      (IsArchived row \<longrightarrow> p = row \<and> w_db w1 = w_db w) \<and> (\<not> IsArchived row \<longrightarrow> pdt_ArchivedAt p \<noteq> None)"
    proof (cases "IsArchived row")
      case False
      with run obtain t w3 where "bindS (ProductRepo_Update (row\<lparr>pdt_Status := ProductStatusArchived, pdt_ArchivedAt := Some t, pdt_UpdatedAt := t\<rparr>))
          (\<lambda>product. bindS (ignoreS (Publish o1 ''product.archived'' (MsgProduct product))) (\<lambda>_. retS product)) w3 = (Inr p, w1)"
        by (auto elim: bindS_InrE)
      from change[OF this] show ?thesis using k False by (auto simp: pdt_key_def pdt_merge_def IsArchived_def)
    qed (use run assms w2 in \<open>auto simp: retS_def\<close>)
  next
    assume "UnarchiveProduct o1 i w = (Inr p, w1)"
    then obtain w2 where w2: "w_db w2 = w_db w" and run: "(if \<not> IsArchived row then retS row
        else bindS nowS (\<lambda>now. bindS (ProductRepo_Update (row\<lparr>pdt_Status := ProductStatusActive, pdt_ArchivedAt := None, pdt_UpdatedAt := now\<rparr>))
          (\<lambda>product. bindS (ignoreS (Publish o1 ''product.unarchived'' (MsgProduct product))) (\<lambda>_. retS product)))) w2 = (Inr p, w1)"
      unfolding UnarchiveProduct_def by (elim bindS_InrE) (use row in blast)
    show "\<not> IsArchived p \<and> find_row pdt_key (o1, i) (t_products (w_db w1)) = Some p \<and>
      (\<not> IsArchived row \<longrightarrow> p = row \<and> w_db w1 = w_db w) \<and> (IsArchived row \<longrightarrow> pdt_ArchivedAt p = None)"
    proof (cases "IsArchived row")
      case True
      with run obtain t w3 where "bindS (ProductRepo_Update (row\<lparr>pdt_Status := ProductStatusActive, pdt_ArchivedAt := None, pdt_UpdatedAt := t\<rparr>))
          (\<lambda>product. bindS (ignoreS (Publish o1 ''product.unarchived'' (MsgProduct product))) (\<lambda>_. retS product)) w3 = (Inr p, w1)"
        by (auto elim: bindS_InrE)
      from change[OF this] show ?thesis using k True by (auto simp: pdt_key_def pdt_merge_def IsArchived_def)
    qed (use run assms w2 in \<open>auto simp: retS_def\<close>)
  qed
qed

section \<open>Pages and details\<close>

lemma page_limit: "pgc_Limit (paginationClause p) \<le> 200"
  by (simp add: paginationClause_def Let_def)

text \<open>The text that is put into the statement is a plain identifier and a fixed direction, whatever was
  asked for, and a page has between one and 200 rows.\<close>

theorem page_clause_safe:
  "safeIdentifier (pgc_Column (paginationClause p)) \<and> pgc_Direction (paginationClause p) \<in> {''ASC'', ''DESC''} \<and>
    1 \<le> pgc_Limit (paginationClause p) \<and> pgc_Limit (paginationClause p) \<le> 200 \<and> 0 \<le> pgc_Offset (paginationClause p)"
proof -
  have "safeIdentifier ''created_at''" by code_simp
  then show ?thesis by (simp add: paginationClause_def Let_def)
qed

lemma page_length: "length (page_of order p rows) \<le> 200"
  using page_limit[of p] by (simp add: page_of_def Let_def min_le_iff_disj) (metis nat_mono nat_numeral)

text \<open>The details of a product ask for a page of 1000 variants and get at most 200.\<close>

theorem details_truncated:
  assumes "ProductService_GetDetails order o1 i w = (Inr d, w1)"
  shows "length (prd_Variants d) \<le> 200"
  using assms by (auto simp: ProductService_GetDetails_def details_of_def VariantRepo_FindByProductId_def counted_page_def bindS_Inr sel_Inr
      page_length split: prod.splits)

section \<open>What a new product drops\<close>

definition plain_price_input :: "rat product_price_input" where
  "plain_price_input = \<lparr> ppi_Label = ''l'', ppi_Category = PriceCategorySubscription, ppi_Scheme = Fixed, ppi_Cycles = 0, ppi_Currency = ''USD'',
     ppi_UnitPrice = 100, ppi_UnitCount = 1, ppi_MinPrice = 0, ppi_SuggestedPrice = 0, ppi_BillingInterval = BillingIntervalMonth,
     ppi_BillingIntervalQty = 1, ppi_TrialInterval = BillingIntervalOther [], ppi_TrialIntervalQty = 0, ppi_TaxCode = [],
     ppi_BillableMetricId = [], ppi_Tiers = [], ppi_FilterField = [], ppi_FilterValue = [], ppi_ProrateOnIncrease = True,
     ppi_CreditOnDecrease = True, ppi_Metadata = Map.empty \<rparr>"

definition new_product :: "rat product_price_input \<Rightarrow> rat create_product_input" where
  "new_product p = \<lparr> cdi_Name = ''n'', cdi_Description = [], cdi_Metadata = Map.empty,
     cdi_Variants = [\<lparr> pvi_Name = ''v'', pvi_Description = ''about'', pvi_Metadata = Map.empty, pvi_Prices = [p] \<rparr>] \<rparr>"

text \<open>A product created with its prices stores a graduated price without tiers, and loses the
  switches of a price and the description of a variant.\<close>

theorem nested_price_unchecked:
  "case CreateProduct ''o'' (new_product (plain_price_input\<lparr>ppi_Scheme := Graduated\<rparr>)) (world_of empty_db int) of
     (Inl _, _) \<Rightarrow> False
   | (Inr p, w1) \<Rightarrow> map prc_Scheme (t_prices (w_db w1)) = [Graduated] \<and> map prc_Tiers (t_prices (w_db w1)) = [[]] \<and>
       map prc_ProrateOnIncrease (t_prices (w_db w1)) = [False] \<and> map var_Description (t_variants (w_db w1)) = [[]]"
  by code_simp

section \<open>Witnesses\<close>

definition catalog_world :: "rat world" where
  "catalog_world = snd (CreateProduct ''o'' (new_product plain_price_input) (world_of empty_db int))"

theorem catalog_consistent_witness:
  "catalog_ok (w_db (fold catalog_run [Op_CreateProduct ''o'' (new_product plain_price_input), Op_DeleteProduct ''o'' ''prod_''] (world_of empty_db int)))"
proof -
  have "catalog_ok (w_db (world_of empty_db int :: rat world))" by (simp add: catalog_ok_def world_of_def empty_db_def)
  from catalog_consistent[OF this] show ?thesis .
qed

theorem price_configurations_witness:
  "\<exists>p w1. CreateProductPrice \<lparr> cpi_OrgId = ''o'', cpi_VariantId = ''var_k'', cpi_Price = plain_price_input \<rparr> catalog_world = (Inr p, w1) \<and>
    price_ok p \<and> p \<in> set (t_prices (w_db w1))"
proof -
  let ?inp = "\<lparr> cpi_OrgId = ''o'', cpi_VariantId = ''var_k'', cpi_Price = plain_price_input \<rparr>"
  have "\<not> isl (fst (CreateProductPrice ?inp catalog_world))" by code_simp
  then obtain p w1 where "CreateProductPrice ?inp catalog_world = (Inr p, w1)" by (metis isl_def old.sum.exhaust prod.exhaust_sel)
  then show ?thesis using price_configurations[of ?inp catalog_world p w1 "[]" "[]" plain_price_input] by auto
qed

theorem archive_lifecycle_witness:
  "\<exists>p w1. ArchiveProduct ''o'' ''prod_'' catalog_world = (Inr p, w1) \<and> IsArchived p \<and> pdt_ArchivedAt p \<noteq> None"
proof -
  have "\<not> isl (fst (ArchiveProduct ''o'' ''prod_'' catalog_world))" by code_simp
  then obtain p w1 where run: "ArchiveProduct ''o'' ''prod_'' catalog_world = (Inr p, w1)" by (metis isl_def old.sum.exhaust prod.exhaust_sel)
  have "\<exists>row. find_row pdt_key (''o'', ''prod_'') (t_products (w_db catalog_world)) = Some row \<and> \<not> IsArchived row"
  proof -
    have "case find_row pdt_key (''o'', ''prod_'') (t_products (w_db catalog_world)) of None \<Rightarrow> False | Some row \<Rightarrow> \<not> IsArchived row" by code_simp
    then show ?thesis by (auto split: option.splits)
  qed
  then obtain row where "find_row pdt_key (''o'', ''prod_'') (t_products (w_db catalog_world)) = Some row" "\<not> IsArchived row" by blast
  from archive_lifecycle[OF this(1), of p w1] this(2) run show ?thesis by blast
qed

end
