(* ===== verification/Idempotency.thy ===== *)
theory Idempotency
  imports Effects
begin

text \<open>
  What keeps a repeated request from being executed twice: the store behind the idempotency
  middleware (src/internal/adapter/db/postgrespgx/idempotency_store.go) and the way its keys are
  scoped (src/internal/adapter/http/middleware/idempotency.go).  A request claims its key; the
  first claim wins and gets the work, the others see that it is pending, get the stored
  response, or a conflict when their body differs.  The winner completes or abandons its claim
  with the token it drew.  The library that calls the store is not part of the repository:
  the lemmas hold for every sequence of calls, with any statement failing.
\<close>

section \<open>The store\<close>

datatype claim_status = IdempotencyNew | IdempotencyPending | IdempotencyCompleted | IdempotencyConflict

record idempotency_claim =
  icl_Status :: claim_status
  icl_Code :: int
  icl_Headers :: string
  icl_Body :: string

definition only_status :: "claim_status \<Rightarrow> idempotency_claim" where
  "only_status s = \<lparr> icl_Status = s, icl_Code = 0, icl_Headers = [], icl_Body = [] \<rparr>"

text \<open>What a claim is told about the row that is there.\<close>

definition classify :: "string \<Rightarrow> idempotency_request \<Rightarrow> idempotency_claim" where
  "classify requestHash row =
    (case idr_State row of
       Request_pending \<Rightarrow> only_status IdempotencyPending
     | Request_completed \<Rightarrow>
         if idr_RequestHash row \<noteq> requestHash then only_status IdempotencyConflict
         else \<lparr> icl_Status = IdempotencyCompleted, icl_Code = (case idr_Code row of None \<Rightarrow> 0 | Some c \<Rightarrow> c),
                icl_Headers = idr_Headers row, icl_Body = idr_Body row \<rparr>)"

definition swept :: "string \<Rightarrow> time \<Rightarrow> 'd db \<Rightarrow> 'd db" where
  "swept key now db = db\<lparr>t_idempotency_requests := filter (\<lambda>r. \<not> (idr_Key r = key \<and> idr_ExpiresAt r \<le> now)) (t_idempotency_requests db)\<rparr>"

definition claimed_row :: "duration \<Rightarrow> string \<Rightarrow> string \<Rightarrow> string \<Rightarrow> time \<Rightarrow> idempotency_request" where
  "claimed_row lockTTL key requestHash token now =
    \<lparr> idr_Key = key, idr_RequestHash = requestHash, idr_State = Request_pending, idr_Token = token, idr_Code = None,
      idr_Headers = [], idr_Body = [], idr_ExpiresAt = time_Add now lockTTL \<rparr>"

text \<open>The number of rows the insertion wrote, and the answer when it wrote none.\<close>

definition insert_claim :: "idempotency_request \<Rightarrow> ('d, nat) svc" where
  "insert_claim row =
    stmt (\<lambda>db. Some (if find_row idr_Key (idr_Key row) (t_idempotency_requests db) \<noteq> None then (0, db)
                     else (1, db\<lparr>t_idempotency_requests := t_idempotency_requests db @ [row]\<rparr>)))"

definition read_claim :: "string \<Rightarrow> string \<Rightarrow> ('d, idempotency_claim) svc" where
  "read_claim key requestHash =
    bindS (sel (\<lambda>db. find_row idr_Key key (t_idempotency_requests db))) (\<lambda>row.
    case row of None \<Rightarrow> retS (only_status IdempotencyPending) | Some r \<Rightarrow> retS (classify requestHash r))"

definition IdempotencyStore_Claim :: "duration \<Rightarrow> string \<Rightarrow> string \<Rightarrow> string \<Rightarrow> ('d, idempotency_claim) svc" where
  "IdempotencyStore_Claim lockTTL key requestHash token =
    bindS nowS (\<lambda>now.
    bindS (exec (\<lambda>db. Some (swept key now db))) (\<lambda>_.
    bindS (insert_claim (claimed_row lockTTL key requestHash token now)) (\<lambda>rowsAffected.
    if rowsAffected = 1 then retS (only_status IdempotencyNew) else read_claim key requestHash)))"

definition fenced :: "string \<Rightarrow> string \<Rightarrow> idempotency_request \<Rightarrow> bool" where
  "fenced key token r \<longleftrightarrow> idr_Key r = key \<and> idr_Token r = token \<and> idr_State r = Request_pending"

definition settled_claim :: "time \<Rightarrow> int \<Rightarrow> string \<Rightarrow> string \<Rightarrow> idempotency_request \<Rightarrow> idempotency_request" where
  "settled_claim expiresAt statusCode headers body r =
    r\<lparr>idr_State := Request_completed, idr_Code := Some statusCode, idr_Headers := headers, idr_Body := body, idr_ExpiresAt := expiresAt\<rparr>"

definition IdempotencyStore_Complete :: "duration \<Rightarrow> string \<Rightarrow> string \<Rightarrow> int \<Rightarrow> string \<Rightarrow> string \<Rightarrow> ('d, unit) svc" where
  "IdempotencyStore_Complete retentionTTL key token statusCode headers body =
    bindS nowS (\<lambda>now.
    exec (\<lambda>db. Some (db\<lparr>t_idempotency_requests := map (\<lambda>r. if fenced key token r
      then settled_claim (time_Add now retentionTTL) statusCode headers body r else r) (t_idempotency_requests db)\<rparr>)))"

definition IdempotencyStore_Abandon :: "string \<Rightarrow> string \<Rightarrow> ('d, unit) svc" where
  "IdempotencyStore_Abandon key token =
    exec (\<lambda>db. Some (db\<lparr>t_idempotency_requests := filter (\<lambda>r. \<not> fenced key token r) (t_idempotency_requests db)\<rparr>))"

text \<open>The middleware puts the organisation of the caller in front of the key; without one the prefix is empty.\<close>

definition scopeKey :: "string \<Rightarrow> string \<Rightarrow> string" where
  "scopeKey org key = org @ '':'' @ key"

section \<open>One call\<close>

definition request_row :: "'d db \<Rightarrow> string \<Rightarrow> idempotency_request option" where
  "request_row db k = find_row idr_Key k (t_idempotency_requests db)"

definition keys_unique :: "'d db \<Rightarrow> bool" where
  "keys_unique db \<longleftrightarrow> distinct (map idr_Key (t_idempotency_requests db))"

lemma find_row_filter:
  "distinct (map key rows) \<Longrightarrow> find_row key k (filter P rows) = (case find_row key k rows of None \<Rightarrow> None | Some r \<Rightarrow> if P r then Some r else None)"
proof (induction rows)
  case (Cons a rows)
  show ?case
  proof (cases "key a = k")
    case True
    have "find_row key k (filter P rows) = None"
      using Cons.prems True by (auto simp: find_row_None)
    then show ?thesis using True by (simp add: find_row_def)
  qed (use Cons in \<open>simp add: find_row_def\<close>)
qed (simp add: find_row_def)

lemma find_row_single: "find_row key k [r] = (if key r = k then Some r else None)"
  by (simp add: find_row_def)

lemma find_row_map: "(\<And>r. key (f r) = key r) \<Longrightarrow> find_row key k (map f rows) = map_option f (find_row key k rows)"
  by (induction rows) (auto simp: find_row_def)

text \<open>The calls, and the clock they read.\<close>

datatype request_call =
    Call_Claim string string string
  | Call_Complete string string int string string
  | Call_Abandon string string

fun store_call :: "duration \<Rightarrow> duration \<Rightarrow> request_call \<Rightarrow> 'd world \<Rightarrow> idempotency_claim option \<times> 'd world" where
  "store_call L R (Call_Claim k h t) w =
    (case IdempotencyStore_Claim L k h t w of (Inl _, w1) \<Rightarrow> (None, w1) | (Inr c, w1) \<Rightarrow> (Some c, w1))"
| "store_call L R (Call_Complete k t code hs b) w = (None, snd (IdempotencyStore_Complete R k t code hs b w))"
| "store_call L R (Call_Abandon k t) w = (None, snd (IdempotencyStore_Abandon k t w))"

text \<open>A call reads the clock at most once, and every row it stores outlives that reading by a time to live.\<close>

definition clocked :: "'d world \<Rightarrow> 'd world \<Rightarrow> bool" where
  "clocked w w1 \<longleftrightarrow> w_clock w1 = w_clock w \<and> w_ticks w \<le> w_ticks w1 \<and> w_ticks w1 \<le> Suc (w_ticks w)"

lemma stmt_cases:
  assumes "stmt f w = (r, w1)"
  shows "w_clock w1 = w_clock w \<and> w_ticks w1 = w_ticks w \<and>
    ((\<exists>e. r = Inl e) \<and> w_db w1 = w_db w \<or> (\<exists>x d. r = Inr x \<and> f (w_db w) = Some (x, d) \<and> w_db w1 = d))"
  using assms by (auto simp: stmt_def Let_def split: if_splits option.splits)

definition live_row :: "time \<Rightarrow> 'd db \<Rightarrow> string \<Rightarrow> idempotency_request option" where
  "live_row now db key = (case request_row db key of None \<Rightarrow> None | Some row \<Rightarrow> if idr_ExpiresAt row \<le> now then None else Some row)"

lemma swept_rows:
  assumes "keys_unique db"
  shows "keys_unique (swept key now db) \<and> request_row (swept key now db) k = (if k = key then live_row now db key else request_row db k)"
  using assms by (auto simp: keys_unique_def swept_def request_row_def live_row_def find_row_filter distinct_map_filter
      dest: find_row_key split: option.split)

lemma claimed_row_fields [simp]: "idr_Key (claimed_row L key h t now) = key" "idr_Token (claimed_row L key h t now) = t"
    "idr_ExpiresAt (claimed_row L key h t now) = now + L" "idr_State (claimed_row L key h t now) = Request_pending"
    "idr_RequestHash (claimed_row L key h t now) = h"
  by (simp_all add: claimed_row_def time_Add_def)

lemma classify_status: "icl_Status (classify h row) \<noteq> IdempotencyNew"
  by (cases "idr_State row") (simp_all add: classify_def only_status_def)

lemma classify_not_new: "classify h row \<noteq> only_status IdempotencyNew"
  using classify_status[of h row] by (auto simp: only_status_def)

text \<open>A claim is told it is new exactly when it stored its row; any other leaves the row of the key as it
  was, or swept away once it had expired.\<close>

lemma claim_effect:
  assumes run: "IdempotencyStore_Claim L key h t w = (r, w1)" and u: "keys_unique (w_db w)"
  shows "clocked w w1 \<and> w_ticks w1 = Suc (w_ticks w) \<and> keys_unique (w_db w1) \<and>
    (\<forall>k. k \<noteq> key \<longrightarrow> request_row (w_db w1) k = request_row (w_db w) k) \<and>
    (if r = Inr (only_status IdempotencyNew)
     then live_row (w_clock w (w_ticks w)) (w_db w) key = None \<and> request_row (w_db w1) key = Some (claimed_row L key h t (w_clock w (w_ticks w)))
     else request_row (w_db w1) key \<in> {request_row (w_db w) key, live_row (w_clock w (w_ticks w)) (w_db w) key}) \<and>
    (\<forall>c. r = Inr c \<longrightarrow> c = only_status IdempotencyNew \<or>
      (\<exists>row. live_row (w_clock w (w_ticks w)) (w_db w) key = Some row \<and> request_row (w_db w1) key = Some row \<and> c = classify h row))"
proof -
  let ?now = "w_clock w (w_ticks w)"
  let ?w0 = "w\<lparr>w_ticks := Suc (w_ticks w)\<rparr>"
  note sw = swept_rows[OF u, of key ?now]
  obtain r1 w2 where d: "exec (\<lambda>db. Some (swept key ?now db)) ?w0 = (r1, w2)" by (metis surj_pair)
  note d1 = stmt_cases[OF d[unfolded exec_def]]
  show ?thesis
  proof (cases r1)
    case (Inl e)
    then show ?thesis using run d d1 u by (auto simp: IdempotencyStore_Claim_def bindS_def swept_def clocked_def)
  next
    case (Inr x)
    then have db2: "w_db w2 = swept key ?now (w_db w)" using d1 by auto
    obtain r2 w3 where i: "insert_claim (claimed_row L key h t ?now) w2 = (r2, w3)" by (metis surj_pair)
    note i1 = stmt_cases[OF i[unfolded insert_claim_def]]
    have run2: "(case r2 of Inl e \<Rightarrow> (Inl e, w3) | Inr n \<Rightarrow> if n = 1 then (Inr (only_status IdempotencyNew), w3)
        else read_claim key h w3) = (r, w1)"
      using run d Inr i by (cases r2) (simp_all add: IdempotencyStore_Claim_def bindS_def retS_def split: if_splits)
    show ?thesis
    proof (cases "r2 = Inr 1")
      case True
      have none: "live_row ?now (w_db w) key = None" and db3: "w_db w3 = (w_db w2)\<lparr>t_idempotency_requests := t_idempotency_requests (w_db w2) @ [claimed_row L key h t ?now]\<rparr>"
        using i1 True sw db2 by (auto simp: request_row_def split: if_splits)
      have rows: "request_row (w_db w3) k = (if k = key then Some (claimed_row L key h t ?now) else request_row (w_db w) k)" for k
        using sw[of k] none db2 by (auto simp: db3 request_row_def find_row_append find_row_single split: option.split)
      have "key \<notin> idr_Key ` set (t_idempotency_requests (w_db w2))" using sw[of key] none db2 by (simp add: request_row_def find_row_None)
      then have "keys_unique (w_db w3)" using sw db2 by (auto simp: keys_unique_def db3 claimed_row_def)
      then show ?thesis using run2 True none rows i1 d1 by (auto simp: clocked_def)
    next
      case False
      then have db3: "w_db w3 = w_db w2" using i1 by (auto split: if_splits)
      have tail: "w_db w1 = w_db w3 \<and> w_clock w1 = w_clock w3 \<and> w_ticks w1 = w_ticks w3 \<and> (\<forall>c. r = Inr c \<longrightarrow>
          (\<exists>row. request_row (w_db w2) key = Some row \<and> c = classify h row))"
      proof (cases r2)
        case (Inr n)
        then have some: "request_row (w_db w2) key \<noteq> None" using i1 False by (auto simp: request_row_def split: if_splits)
        obtain r3 w4 where q: "sel (\<lambda>db. find_row idr_Key key (t_idempotency_requests db)) w3 = (r3, w4)" by (metis surj_pair)
        note q1 = stmt_cases[OF q[unfolded sel_def]]
        show ?thesis using run2 False Inr q q1 some db3
          by (cases r3) (auto simp: read_claim_def bindS_def retS_def request_row_def split: option.splits)
      qed (use run2 in auto)
      have "r \<noteq> Inr (only_status IdempotencyNew)" using tail classify_not_new by metis
      then show ?thesis using tail db3 db2 sw i1 d1 by (auto simp: clocked_def)
    qed
  qed
qed

lemma settled_claim_fields [simp]: "idr_Key (settled_claim x code hs b r) = idr_Key r" "idr_Token (settled_claim x code hs b r) = idr_Token r"
    "idr_ExpiresAt (settled_claim x code hs b r) = x" "idr_State (settled_claim x code hs b r) = Request_completed"
  by (simp_all add: settled_claim_def)

lemma complete_effect:
  assumes "IdempotencyStore_Complete R key t code hs b w = (r, w1)"
  shows "clocked w w1 \<and> w_ticks w1 = Suc (w_ticks w) \<and> keys_unique (w_db w1) = keys_unique (w_db w) \<and>
    (if isl r then w_db w1 = w_db w
     else \<forall>k. request_row (w_db w1) k = map_option (\<lambda>row. if fenced key t row
       then settled_claim (w_clock w (w_ticks w) + R) code hs b row else row) (request_row (w_db w) k))"
proof -
  let ?f = "\<lambda>row. if fenced key t row then settled_claim (w_clock w (w_ticks w) + R) code hs b row else row"
  have "exec (\<lambda>db. Some (db\<lparr>t_idempotency_requests := map ?f (t_idempotency_requests db)\<rparr>)) (w\<lparr>w_ticks := Suc (w_ticks w)\<rparr>) = (r, w1)"
    using assms by (simp add: IdempotencyStore_Complete_def bindS_def time_Add_def cong: if_cong)
  note e = stmt_cases[OF this[unfolded exec_def]]
  show ?thesis
  proof (cases r)
    case (Inr x)
    then have rows: "t_idempotency_requests (w_db w1) = map ?f (t_idempotency_requests (w_db w))" using e by (auto simp del: map_eq_conv)
    have "map idr_Key (map ?f xs) = map idr_Key xs" for xs by (induction xs) simp_all
    then have "keys_unique (w_db w1) = keys_unique (w_db w)" unfolding keys_unique_def rows by metis
    moreover have "request_row (w_db w1) k1 = map_option ?f (request_row (w_db w) k1)" for k1
      unfolding request_row_def rows by (rule find_row_map) simp
    ultimately show ?thesis using e Inr by (auto simp: clocked_def)
  qed (use e in \<open>auto simp: clocked_def\<close>)
qed

lemma abandon_effect:
  assumes "IdempotencyStore_Abandon key t w = (r, w1)" and "keys_unique (w_db w)"
  shows "clocked w w1 \<and> keys_unique (w_db w1) \<and>
    (if isl r then w_db w1 = w_db w
     else \<forall>k. request_row (w_db w1) k = (case request_row (w_db w) k of None \<Rightarrow> None | Some row \<Rightarrow> if fenced key t row then None else Some row))"
proof -
  note e = stmt_cases[OF assms(1)[unfolded IdempotencyStore_Abandon_def exec_def]]
  show ?thesis
  proof (cases r)
    case (Inr x)
    then have rows: "t_idempotency_requests (w_db w1) = filter (\<lambda>r. \<not> fenced key t r) (t_idempotency_requests (w_db w))" using e by auto
    have "keys_unique (w_db w1)" using assms(2) unfolding keys_unique_def rows by (rule distinct_map_filter)
    moreover have "request_row (w_db w1) k = (case request_row (w_db w) k of None \<Rightarrow> None | Some row \<Rightarrow> if fenced key t row then None else Some row)" for k
      using find_row_filter[OF assms(2)[unfolded keys_unique_def], of k "\<lambda>r. \<not> fenced key t r"]
      unfolding request_row_def rows by (auto split: option.split)
    ultimately show ?thesis using e Inr by (auto simp: clocked_def)
  qed (use e assms(2) in \<open>auto simp: clocked_def\<close>)
qed

section \<open>One winner, and its response for the others\<close>

fun request_calls :: "duration \<Rightarrow> duration \<Rightarrow> request_call list \<Rightarrow> 'd world \<Rightarrow> idempotency_claim option list \<times> 'd world" where
  "request_calls L R [] w = ([], w)"
| "request_calls L R (c # cs) w =
    (case store_call L R c w of (x, w1) \<Rightarrow> (case request_calls L R cs w1 of (xs, w2) \<Rightarrow> (x # xs, w2)))"

lemma store_call_clocked: "store_call L R c w = (x, w1) \<Longrightarrow> keys_unique (w_db w) \<Longrightarrow> clocked w w1 \<and> keys_unique (w_db w1)"
proof (cases c)
  case (Call_Claim k h t)
  assume "store_call L R c w = (x, w1)" and u: "keys_unique (w_db w)"
  then obtain r where "IdempotencyStore_Claim L k h t w = (r, w1)" using Call_Claim by (auto split: prod.splits sum.splits)
  from claim_effect[OF this u] show ?thesis by blast
next
  case (Call_Complete k t code hs b)
  assume "store_call L R c w = (x, w1)" and u: "keys_unique (w_db w)"
  then obtain r where "IdempotencyStore_Complete R k t code hs b w = (r, w1)" using Call_Complete by (metis store_call.simps(2) prod.collapse snd_conv)
  from complete_effect[OF this] u show ?thesis by blast
next
  case (Call_Abandon k t)
  assume "store_call L R c w = (x, w1)" and u: "keys_unique (w_db w)"
  then obtain r where "IdempotencyStore_Abandon k t w = (r, w1)" using Call_Abandon by (metis store_call.simps(3) prod.collapse snd_conv)
  from abandon_effect[OF this u] show ?thesis by blast
qed


text \<open>The row a claim won: it keeps its token and its time to live through every call but the holder's own abandonment.\<close>

definition held :: "'d db \<Rightarrow> string \<Rightarrow> string \<Rightarrow> time \<Rightarrow> bool" where
  "held db k t until \<longleftrightarrow> (\<exists>row. request_row db k = Some row \<and> idr_Token row = t \<and> until \<le> idr_ExpiresAt row)"

lemma held_call:
  assumes run: "store_call L R c w = (x, w1)" and u: "keys_unique (w_db w)" and h: "held (w_db w) k t until"
    and now: "w_ticks w < w_ticks w1 \<Longrightarrow> w_clock w (w_ticks w) < until \<and> until \<le> w_clock w (w_ticks w) + R"
    and c: "c \<noteq> Call_Abandon k t"
  shows "held (w_db w1) k t until \<and> (\<forall>h1 t1 a. c = Call_Claim k h1 t1 \<longrightarrow> x = Some a \<longrightarrow> icl_Status a \<noteq> IdempotencyNew)"
proof (cases c)
  case (Call_Claim k1 h1 t1)
  obtain r where r: "IdempotencyStore_Claim L k1 h1 t1 w = (r, w1)" and x: "x = (case r of Inl _ \<Rightarrow> None | Inr a \<Rightarrow> Some a)"
    using run Call_Claim by (auto split: prod.splits sum.splits)
  note e = claim_effect[OF r u]
  have live: "live_row (w_clock w (w_ticks w)) (w_db w) k = request_row (w_db w) k"
    using h now e by (auto simp: held_def live_row_def)
  show ?thesis
  proof (cases "k1 = k")
    case True
    have ne: "r \<noteq> Inr (only_status IdempotencyNew)" using e live h True by (auto simp: held_def)
    then have "request_row (w_db w1) k = request_row (w_db w) k" using e live True by (auto split: if_splits)
    moreover have "icl_Status a \<noteq> IdempotencyNew" if "r = Inr a" for a
      using e ne that classify_status by auto
    ultimately show ?thesis using h x by (auto simp: held_def split: sum.splits)
  qed (use e h x Call_Claim in \<open>auto simp: held_def\<close>)
next
  case (Call_Complete k1 t1 code hs b)
  then obtain r where "IdempotencyStore_Complete R k1 t1 code hs b w = (r, w1)" using run by (metis store_call.simps(2) prod.collapse snd_conv)
  note e = complete_effect[OF this]
  from h obtain row where row: "request_row (w_db w) k = Some row" "idr_Token row = t" "until \<le> idr_ExpiresAt row" by (auto simp: held_def)
  have "held (w_db w1) k t until"
  proof (cases "isl r")
    case False
    then have "request_row (w_db w1) k = Some (if fenced k1 t1 row then settled_claim (w_clock w (w_ticks w) + R) code hs b row else row)"
      using e row by simp
    then show ?thesis using row now e by (auto simp: held_def)
  qed (use e h in simp)
  then show ?thesis using Call_Complete by simp
next
  case (Call_Abandon k1 t1)
  then obtain r where "IdempotencyStore_Abandon k1 t1 w = (r, w1)" using run by (metis store_call.simps(3) prod.collapse snd_conv)
  from abandon_effect[OF this u] h c show ?thesis using Call_Abandon
    by (cases r) (auto simp: held_def fenced_def dest: find_row_key simp: request_row_def split: option.splits)
qed

lemma request_calls_clocked:
  "request_calls L R cs w = (xs, w1) \<Longrightarrow> keys_unique (w_db w) \<Longrightarrow> w_clock w1 = w_clock w \<and> w_ticks w \<le> w_ticks w1 \<and> length xs = length cs"
proof (induction cs arbitrary: w xs)
  case (Cons c cs)
  obtain x w2 ys where c: "store_call L R c w = (x, w2)" and r: "request_calls L R cs w2 = (ys, w1)" "xs = x # ys"
    using Cons.prems(1) by (auto split: prod.splits)
  from store_call_clocked[OF c Cons.prems(2)] Cons.IH[OF r(1)] r(2) show ?case by (auto simp: clocked_def)
qed simp

lemma held_calls:
  assumes "request_calls L R cs w = (xs, w1)" and "keys_unique (w_db w)" and "held (w_db w) k t until" and "Call_Abandon k t \<notin> set cs"
    and "\<And>n. w_ticks w \<le> n \<Longrightarrow> n < w_ticks w1 \<Longrightarrow> w_clock w n < until \<and> until \<le> w_clock w n + R"
  shows "held (w_db w1) k t until \<and>
    (\<forall>(c, x) \<in> set (zip cs xs). \<forall>h1 t1 a. c = Call_Claim k h1 t1 \<longrightarrow> x = Some a \<longrightarrow> icl_Status a \<noteq> IdempotencyNew)"
  using assms
proof (induction cs arbitrary: w xs)
  case (Cons c cs)
  obtain x w2 ys where c: "store_call L R c w = (x, w2)" and r: "request_calls L R cs w2 = (ys, w1)" "xs = x # ys"
    using Cons.prems(1) by (auto split: prod.splits)
  note q = store_call_clocked[OF c Cons.prems(2)]
  then have q2: "keys_unique (w_db w2)" "w_clock w2 = w_clock w" "w_ticks w \<le> w_ticks w2" by (auto simp: clocked_def)
  note q3 = request_calls_clocked[OF r(1) q2(1)]
  have a: "c \<noteq> Call_Abandon k t" "Call_Abandon k t \<notin> set cs" using Cons.prems(4) by auto
  have n1: "w_clock w (w_ticks w) < until \<and> until \<le> w_clock w (w_ticks w) + R" if "w_ticks w < w_ticks w2"
    using Cons.prems(5)[of "w_ticks w"] that q3 by simp
  note h = held_call[OF c Cons.prems(2,3) n1 a(1)]
  have "held (w_db w1) k t until \<and>
    (\<forall>(c, x) \<in> set (zip cs ys). \<forall>h1 t1 a. c = Call_Claim k h1 t1 \<longrightarrow> x = Some a \<longrightarrow> icl_Status a \<noteq> IdempotencyNew)"
    by (rule Cons.IH[OF r(1) q2(1) _ a(2)]) (use h Cons.prems(5) q2 in auto)
  then show ?case using h by (simp add: r(2))
qed simp

text \<open>C34: Of all the requests that claim a key, one is told to do the work: after a claim has won, no
  other claim of the key wins while the holder has neither abandoned it nor been silent for the
  time to live, whatever calls come in between, completions with stale tokens and failing
  statements included.\<close>

theorem claim_single_winner:
  assumes "IdempotencyStore_Claim L k h t w = (Inr (only_status IdempotencyNew), w0)" and "keys_unique (w_db w)"
    and "request_calls L R cs w0 = (xs, w1)" and "Call_Abandon k t \<notin> set cs"
    and "\<And>n. w_ticks w0 \<le> n \<Longrightarrow> n < w_ticks w1 \<Longrightarrow>
      w_clock w (w_ticks w) \<le> w_clock w n \<and> w_clock w n < w_clock w (w_ticks w) + min L R"
  shows "\<forall>(c, x) \<in> set (zip cs xs). \<forall>h1 t1 a. c = Call_Claim k h1 t1 \<longrightarrow> x = Some a \<longrightarrow> icl_Status a \<noteq> IdempotencyNew"
proof -
  note e = claim_effect[OF assms(1,2)]
  have held: "held (w_db w0) k t (w_clock w (w_ticks w) + min L R)" using e by (auto simp: held_def)
  have "w_clock w0 n < w_clock w (w_ticks w) + min L R \<and> w_clock w (w_ticks w) + min L R \<le> w_clock w0 n + R"
    if "w_ticks w0 \<le> n" and "n < w_ticks w1" for n
    using assms(5)[OF that] e by (auto simp: clocked_def)
  from held_calls[OF assms(3) _ held assms(4) this] e show ?thesis by blast
qed

text \<open>A completed row does not change any more until it expires.\<close>

lemma completed_call:
  assumes run: "store_call L R c w = (x, w1)" and u: "keys_unique (w_db w)" and row: "request_row (w_db w) k = Some row"
    and fin: "idr_State row = Request_completed" and now: "w_ticks w < w_ticks w1 \<Longrightarrow> w_clock w (w_ticks w) < idr_ExpiresAt row"
  shows "request_row (w_db w1) k = Some row \<and> (\<forall>h1 t1 a. c = Call_Claim k h1 t1 \<longrightarrow> x = Some a \<longrightarrow> a = classify h1 row)"
proof (cases c)
  case (Call_Claim k1 h1 t1)
  obtain r where r: "IdempotencyStore_Claim L k1 h1 t1 w = (r, w1)" and x: "x = (case r of Inl _ \<Rightarrow> None | Inr a \<Rightarrow> Some a)"
    using run Call_Claim by (auto split: prod.splits sum.splits)
  note e = claim_effect[OF r u]
  have live: "live_row (w_clock w (w_ticks w)) (w_db w) k = Some row"
    using row now e by (auto simp: live_row_def)
  show ?thesis
  proof (cases "k1 = k")
    case True
    have ne: "r \<noteq> Inr (only_status IdempotencyNew)" using e live True by auto
    then show ?thesis using e live row x True Call_Claim by (auto split: sum.splits)
  qed (use e row x Call_Claim in auto)
next
  case (Call_Complete k1 t1 code hs b)
  then obtain r where "IdempotencyStore_Complete R k1 t1 code hs b w = (r, w1)" using run by (metis store_call.simps(2) prod.collapse snd_conv)
  from complete_effect[OF this] row fin show ?thesis using Call_Complete by (cases "isl r") (auto simp: fenced_def)
next
  case (Call_Abandon k1 t1)
  then obtain r where "IdempotencyStore_Abandon k1 t1 w = (r, w1)" using run by (metis store_call.simps(3) prod.collapse snd_conv)
  from abandon_effect[OF this u] row fin show ?thesis using Call_Abandon by (cases "isl r") (auto simp: fenced_def)
qed

text \<open>C35: A request that is repeated gets the stored response: after the holder of a key completed it,
  every claim within the retention that names the same body is answered with exactly that
  response, one with another body with a conflict, and nothing that is called meanwhile
  changes the answer.\<close>

theorem response_replayed:
  assumes "request_row (w_db w) k = Some row" and "fenced k t row" and "keys_unique (w_db w)"
    and "IdempotencyStore_Complete R k t code hs b w = (Inr (), w0)" and "request_calls L R cs w0 = (xs, w1)"
    and "\<And>n. w_ticks w0 \<le> n \<Longrightarrow> n < w_ticks w1 \<Longrightarrow> w_clock w n < w_clock w (w_ticks w) + R"
  shows "\<forall>(c, x) \<in> set (zip cs xs). \<forall>h1 t1 a. c = Call_Claim k h1 t1 \<longrightarrow> x = Some a \<longrightarrow>
    a = (if h1 = idr_RequestHash row then \<lparr> icl_Status = IdempotencyCompleted, icl_Code = code, icl_Headers = hs, icl_Body = b \<rparr>
         else only_status IdempotencyConflict)"
proof -
  let ?row = "settled_claim (w_clock w (w_ticks w) + R) code hs b row"
  have all: "\<forall>(c, x) \<in> set (zip cs xs). \<forall>h1 t1 a. c = Call_Claim k h1 t1 \<longrightarrow> x = Some a \<longrightarrow> a = classify h1 ?row"
    if "request_calls L R cs v = (xs, w1)" and "keys_unique (w_db v)" and "request_row (w_db v) k = Some ?row" and "w_clock v = w_clock w"
      and "\<And>n. w_ticks v \<le> n \<Longrightarrow> n < w_ticks w1 \<Longrightarrow> w_clock w n < w_clock w (w_ticks w) + R" for v cs xs
    using that
  proof (induction cs arbitrary: v xs)
    case (Cons c cs)
    obtain x w2 ys where c: "store_call L R c v = (x, w2)" and r: "request_calls L R cs w2 = (ys, w1)" "xs = x # ys"
      using Cons.prems(1) by (auto split: prod.splits)
    have q2: "keys_unique (w_db w2)" "w_clock w2 = w_clock w" "w_ticks v \<le> w_ticks w2"
      using store_call_clocked[OF c Cons.prems(2)] Cons.prems(4) by (auto simp: clocked_def)
    note q3 = request_calls_clocked[OF r(1) q2(1)]
    have h: "request_row (w_db w2) k = Some ?row \<and> (\<forall>h1 t1 a. c = Call_Claim k h1 t1 \<longrightarrow> x = Some a \<longrightarrow> a = classify h1 ?row)"
      by (rule completed_call[OF c Cons.prems(2,3)]) (use Cons.prems(4) Cons.prems(5)[of "w_ticks v"] q3 in auto)
    have "\<forall>(c, x) \<in> set (zip cs ys). \<forall>h1 t1 a. c = Call_Claim k h1 t1 \<longrightarrow> x = Some a \<longrightarrow> a = classify h1 ?row"
      by (rule Cons.IH[OF r(1) q2(1) _ q2(2)]) (use h Cons.prems(5) q2 in auto)
    then show ?case using h by (simp add: r(2))
  qed simp
  note e = complete_effect[OF assms(4)]
  have "request_row (w_db w0) k = Some ?row" using e assms(1,2) by simp
  from all[OF assms(5) _ this] e assms(3,6) show ?thesis
    by (fastforce simp: clocked_def classify_def settled_claim_def only_status_def)
qed

text \<open>A token that does not hold the row cannot touch it.\<close>

lemma stale_token:
  assumes "request_row (w_db w) k = Some row" and "\<not> fenced k t row" and "keys_unique (w_db w)"
  shows "IdempotencyStore_Complete R k t code hs b w = (r, w1) \<Longrightarrow> request_row (w_db w1) k = Some row"
    and "IdempotencyStore_Abandon k t w = (q, w2) \<Longrightarrow> request_row (w_db w2) k = Some row"
proof -
  assume "IdempotencyStore_Complete R k t code hs b w = (r, w1)"
  from complete_effect[OF this] assms show "request_row (w_db w1) k = Some row" by (cases "isl r") auto
next
  assume "IdempotencyStore_Abandon k t w = (q, w2)"
  from abandon_effect[OF this assms(3)] assms show "request_row (w_db w2) k = Some row" by (cases "isl q") auto
qed

text \<open>Two organisations whose names have no colon never share a key.\<close>

theorem scopes_disjoint:
  assumes "CHR '':'' \<notin> set org1" and "CHR '':'' \<notin> set org2"
  shows "scopeKey org1 k1 = scopeKey org2 k2 \<longleftrightarrow> org1 = org2 \<and> k1 = k2"
proof
  assume eq: "scopeKey org1 k1 = scopeKey org2 k2"
  have "takeWhile (\<lambda>c. c \<noteq> CHR '':'') (scopeKey o1 k) = o1" if "CHR '':'' \<notin> set o1" for o1 k
    using that by (induction o1) (auto simp: scopeKey_def)
  from this[OF assms(1), of k1] this[OF assms(2), of k2] eq have "org1 = org2" by simp
  then show "org1 = org2 \<and> k1 = k2" using eq by (simp add: scopeKey_def)
qed simp

section \<open>Witnesses\<close>

definition request_world :: "rat world" where
  "request_world = world_of empty_db (\<lambda>n. 100 + int n)"

theorem claim_single_winner_witness:
  "\<exists>w0 x w1. IdempotencyStore_Claim 60 ''o:k'' ''h'' ''t1'' request_world = (Inr (only_status IdempotencyNew), w0) \<and>
    request_calls 60 600 [Call_Claim ''o:k'' ''h'' ''t2''] w0 = ([Some x], w1) \<and> icl_Status x \<noteq> IdempotencyNew"
proof -
  have "case IdempotencyStore_Claim 60 ''o:k'' ''h'' ''t1'' request_world of
      (Inr c, w0) \<Rightarrow> c = only_status IdempotencyNew \<and> w_ticks w0 = 1 \<and>
        (case request_calls 60 600 [Call_Claim ''o:k'' ''h'' ''t2''] w0 of ([Some x], w1) \<Rightarrow> w_ticks w1 = 2 | _ \<Rightarrow> False)
    | _ \<Rightarrow> False" by code_simp
  then obtain w0 x w1 where c: "IdempotencyStore_Claim 60 ''o:k'' ''h'' ''t1'' request_world = (Inr (only_status IdempotencyNew), w0)"
    and r: "request_calls 60 600 [Call_Claim ''o:k'' ''h'' ''t2''] w0 = ([Some x], w1)" and t: "w_ticks w0 = 1" "w_ticks w1 = 2"
    by (auto split: prod.splits sum.splits list.splits option.splits)
  have u: "keys_unique (w_db request_world)" by (simp add: keys_unique_def request_world_def world_of_def empty_db_def)
  have "\<forall>(c, x) \<in> set (zip [Call_Claim ''o:k'' ''h'' ''t2''] [Some x]). \<forall>h1 t1 a. c = Call_Claim ''o:k'' h1 t1 \<longrightarrow> x = Some a \<longrightarrow> icl_Status a \<noteq> IdempotencyNew"
    by (rule claim_single_winner[OF c u r]) (use t in \<open>auto simp: request_world_def world_of_def\<close>)
  then show ?thesis using c r by auto
qed

theorem response_replayed_witness:
  "\<exists>w0 w2 x w1. IdempotencyStore_Claim 60 ''o:k'' ''h'' ''t1'' request_world = (Inr (only_status IdempotencyNew), w0) \<and>
    IdempotencyStore_Complete 600 ''o:k'' ''t1'' 201 ''H'' ''B'' w0 = (Inr (), w2) \<and>
    request_calls 60 600 [Call_Claim ''o:k'' ''h'' ''t2''] w2 = ([Some x], w1) \<and> icl_Code x = 201 \<and> icl_Body x = ''B''"
proof -
  have "case IdempotencyStore_Claim 60 ''o:k'' ''h'' ''t1'' request_world of
      (Inr c, w0) \<Rightarrow> c = only_status IdempotencyNew \<and> w_ticks w0 = 1 \<and>
        (case IdempotencyStore_Complete 600 ''o:k'' ''t1'' 201 ''H'' ''B'' w0 of
           (Inr _, w2) \<Rightarrow> w_ticks w2 = 2 \<and>
             (case request_calls 60 600 [Call_Claim ''o:k'' ''h'' ''t2''] w2 of ([Some x], w1) \<Rightarrow> w_ticks w1 = 3 | _ \<Rightarrow> False)
         | _ \<Rightarrow> False)
    | _ \<Rightarrow> False" by code_simp
  then obtain w0 w2 x w1 where c: "IdempotencyStore_Claim 60 ''o:k'' ''h'' ''t1'' request_world = (Inr (only_status IdempotencyNew), w0)"
    and d: "IdempotencyStore_Complete 600 ''o:k'' ''t1'' 201 ''H'' ''B'' w0 = (Inr (), w2)"
    and r: "request_calls 60 600 [Call_Claim ''o:k'' ''h'' ''t2''] w2 = ([Some x], w1)" and t: "w_ticks w0 = 1" "w_ticks w2 = 2" "w_ticks w1 = 3"
    by (auto split: prod.splits sum.splits list.splits option.splits)
  have u: "keys_unique (w_db request_world)" by (simp add: keys_unique_def request_world_def world_of_def empty_db_def)
  note e = claim_effect[OF c u]
  have row: "request_row (w_db w0) ''o:k'' = Some (claimed_row 60 ''o:k'' ''h'' ''t1'' (w_clock request_world (w_ticks request_world)))" using e by simp
  have clk: "w_clock w0 = (\<lambda>n. 100 + int n)" using e by (simp add: clocked_def request_world_def world_of_def)
  have "\<forall>(c, x) \<in> set (zip [Call_Claim ''o:k'' ''h'' ''t2''] [Some x]). \<forall>h1 t1 a. c = Call_Claim ''o:k'' h1 t1 \<longrightarrow> x = Some a \<longrightarrow>
    a = (if h1 = idr_RequestHash (claimed_row 60 ''o:k'' ''h'' ''t1'' (w_clock request_world (w_ticks request_world)))
         then \<lparr> icl_Status = IdempotencyCompleted, icl_Code = 201, icl_Headers = ''H'', icl_Body = ''B'' \<rparr> else only_status IdempotencyConflict)"
    by (rule response_replayed[OF row _ _ d r]) (use e t clk in \<open>auto simp: fenced_def\<close>)
  then have "x = \<lparr> icl_Status = IdempotencyCompleted, icl_Code = 201, icl_Headers = ''H'', icl_Body = ''B'' \<rparr>" by simp
  then show ?thesis using c d r by auto
qed

end
