(* ===== verification/Outgoing_Webhooks.thy ===== *)
theory Outgoing_Webhooks
  imports Payment_Jobs "HOL-Library.Word"
begin

unbundle bit_operations_syntax

text \<open>
  The delivery of events to the endpoints of tenants, and why it cannot be turned against the
  provider's own network: src/internal/core/service/webhook_url_safety.go (which addresses count
  as public, the check of a registered URL, and the check at the moment a connection is
  opened) and SendWebhook of webhook_subscription.go, run by the job of
  src/internal/adapter/hatchet/workflows/outgoing_webhook.go.  The predicates on addresses are
  those of Go's net package, which is written out here.  What the resolver answers, which
  connections succeed and where an endpoint redirects to are inputs that may change at every
  query; parsing a URL, splitting an address and the signature's hash are parameters.
\<close>

section \<open>Addresses\<close>

text \<open>net.IP: four or sixteen bytes; a nil address is the empty list.\<close>

type_synonym ip = "8 word list"

definition v4InV6Prefix :: ip where
  "v4InV6Prefix = replicate 10 0 @ [0xff, 0xff]"

definition To4 :: "ip \<Rightarrow> ip option" where
  "To4 p = (if length p = 4 then Some p
     else if length p = 16 \<and> take 12 p = v4InV6Prefix then Some (drop 12 p) else None)"

definition ip_Equal :: "ip \<Rightarrow> ip \<Rightarrow> bool" where
  "ip_Equal p x =
    (if length p = length x then p = x
     else if length p = 4 \<and> length x = 16 then take 12 x = v4InV6Prefix \<and> p = drop 12 x
     else if length p = 16 \<and> length x = 4 then take 12 p = v4InV6Prefix \<and> drop 12 p = x
     else False)"

definition IPv4 :: "8 word \<Rightarrow> 8 word \<Rightarrow> 8 word \<Rightarrow> 8 word \<Rightarrow> ip" where
  "IPv4 a b c d = v4InV6Prefix @ [a, b, c, d]"

definition IPv6loopback :: ip where
  "IPv6loopback = replicate 15 0 @ [1]"

definition IPv6unspecified :: ip where
  "IPv6unspecified = replicate 16 0"

definition IsUnspecified :: "ip \<Rightarrow> bool" where
  "IsUnspecified p \<longleftrightarrow> ip_Equal p (IPv4 0 0 0 0) \<or> ip_Equal p IPv6unspecified"

definition IsLoopback :: "ip \<Rightarrow> bool" where
  "IsLoopback p = (case To4 p of Some q \<Rightarrow> q ! 0 = 127 | None \<Rightarrow> ip_Equal p IPv6loopback)"

definition IsPrivate :: "ip \<Rightarrow> bool" where
  "IsPrivate p = (case To4 p of
      Some q \<Rightarrow> q ! 0 = 10 \<or> (q ! 0 = 172 \<and> q ! 1 AND 0xf0 = 16) \<or> (q ! 0 = 192 \<and> q ! 1 = 168)
    | None \<Rightarrow> length p = 16 \<and> p ! 0 AND 0xfe = 0xfc)"

definition IsMulticast :: "ip \<Rightarrow> bool" where
  "IsMulticast p = (case To4 p of Some q \<Rightarrow> q ! 0 AND 0xf0 = 0xe0 | None \<Rightarrow> length p = 16 \<and> p ! 0 = 0xff)"

definition IsInterfaceLocalMulticast :: "ip \<Rightarrow> bool" where
  "IsInterfaceLocalMulticast p \<longleftrightarrow> length p = 16 \<and> p ! 0 = 0xff \<and> p ! 1 AND 0x0f = 0x01"

definition IsLinkLocalMulticast :: "ip \<Rightarrow> bool" where
  "IsLinkLocalMulticast p = (case To4 p of
      Some q \<Rightarrow> q ! 0 = 224 \<and> q ! 1 = 0 \<and> q ! 2 = 0
    | None \<Rightarrow> length p = 16 \<and> p ! 0 = 0xff \<and> p ! 1 AND 0x0f = 0x02)"

definition IsLinkLocalUnicast :: "ip \<Rightarrow> bool" where
  "IsLinkLocalUnicast p = (case To4 p of
      Some q \<Rightarrow> q ! 0 = 169 \<and> q ! 1 = 254
    | None \<Rightarrow> length p = 16 \<and> p ! 0 = 0xfe \<and> p ! 1 AND 0xc0 = 0x80)"

definition isPublicUnicast :: "ip \<Rightarrow> bool" where
  "isPublicUnicast p =
    (if p = [] then False
     else if IsLoopback p \<or> IsLinkLocalUnicast p \<or> IsLinkLocalMulticast p \<or> IsInterfaceLocalMulticast p \<or> IsMulticast p \<or>
             IsUnspecified p \<or> IsPrivate p then False
     else if (case To4 p of Some q \<Rightarrow> q ! 0 = 100 \<and> q ! 1 AND 0xc0 = 64 | None \<Rightarrow> False) then False
     else if ip_Equal p (IPv4 255 255 255 255) then False
     else True)"

definition allowAllIPs :: "ip \<Rightarrow> bool" where
  "allowAllIPs p = True"

section \<open>Checking a URL and opening a connection\<close>

text \<open>
  What the network does: the answers of the resolver and the way of a request by the number of
  queries so far, and which attempt to connect succeeds.  A way is the address the request opens
  a connection to and those of the redirects it follows; it is empty where a connection is kept
  from an earlier delivery.  The answer is the status, or the error of reading it;
  the clock is read as the request is built.
\<close>

record net =
  net_lookup :: "nat \<Rightarrow> string \<Rightarrow> app_error + ip list"
  net_asked :: nat
  net_reach :: "nat \<Rightarrow> bool"
  net_route :: "nat \<Rightarrow> string list"
  net_answer :: "nat \<Rightarrow> int res"
  net_clock :: "nat \<Rightarrow> time"
  net_dialed :: "ip list"

record url =
  url_Scheme :: string
  url_Host :: string
  url_Hostname :: string

definition ErrUnsafeWebhookURL :: app_error where
  "ErrUnsafeWebhookURL = InfraError ''webhook url targets an internal-network address''"

definition LookupIP :: "string \<Rightarrow> net \<Rightarrow> ip list res \<times> net" where
  "LookupIP host n = (net_lookup n (net_asked n) host, n\<lparr>net_asked := Suc (net_asked n)\<rparr>)"

definition validateOutgoingWebhookURL :: "(ip \<Rightarrow> bool) \<Rightarrow> (string \<Rightarrow> url res) \<Rightarrow> string \<Rightarrow> net \<Rightarrow> unit res \<times> net" where
  "validateOutgoingWebhookURL allow url_Parse raw n =
    (case url_Parse (TrimSpace raw) of
       Inl e \<Rightarrow> (Inl (WrapError ''invalid webhook url'' e), n)
     | Inr u \<Rightarrow>
        if url_Scheme u \<noteq> ''https'' \<and> url_Scheme u \<noteq> ''http'' then
          (Inl (InfraError (''invalid webhook url scheme '' @ [CHR 0x22] @ url_Scheme u @ [CHR 0x22] @ '' (must be http or https)'')), n)
        else if url_Host u = [] then (Inl (InfraError ''invalid webhook url: missing host''), n)
        else if url_Hostname u = [] then (Inl (InfraError ''invalid webhook url: missing host''), n)
        else (case LookupIP (url_Hostname u) n of
            (Inl e, n1) \<Rightarrow> (Inl (WrapError ''webhook url DNS resolution failed'' e), n1)
          | (Inr ips, n1) \<Rightarrow>
              if ips = [] then (Inl (InfraError ''webhook url DNS resolution returned no addresses''), n1)
              else if \<not> list_all allow ips then (Inl ErrUnsafeWebhookURL, n1)
              else (Inr (), n1)))"

text \<open>The addresses are tried in turn until one answers.\<close>

fun dial_ips :: "ip list \<Rightarrow> net \<Rightarrow> bool \<times> net" where
  "dial_ips [] n = (False, n)"
| "dial_ips (ip # ips) n =
    (let n1 = n\<lparr>net_dialed := net_dialed n @ [ip]\<rparr> in
     if net_reach n (length (net_dialed n)) then (True, n1) else dial_ips ips n1)"

definition safeDialContextWith :: "(ip \<Rightarrow> bool) \<Rightarrow> (string \<Rightarrow> string res) \<Rightarrow> string \<Rightarrow> net \<Rightarrow> unit res \<times> net" where
  "safeDialContextWith allow split_host addr n =
    (case split_host addr of
       Inl e \<Rightarrow> (Inl e, n)
     | Inr host \<Rightarrow>
        (case LookupIP host n of
           (Inl e, n1) \<Rightarrow> (Inl e, n1)
         | (Inr ips, n1) \<Rightarrow>
            if \<not> list_all allow ips then (Inl ErrUnsafeWebhookURL, n1)
            else (case dial_ips ips n1 of
                (True, n2) \<Rightarrow> (Inr (), n2)
              | (False, n2) \<Rightarrow> (Inl (InfraError (if ips = [] then ''no IPs to dial'' else ''connection failed'')), n2))))"

section \<open>A delivery\<close>

record posted =
  pst_URL :: string
  pst_Body :: string
  pst_Signature :: "string option"
  pst_Timestamp :: string

definition generateHMACSignature :: "(string \<Rightarrow> string \<Rightarrow> string) \<Rightarrow> string \<Rightarrow> string \<Rightarrow> string" where
  "generateHMACSignature hmac_hex data secretKey = hmac_hex secretKey data"

fun client_Do :: "(ip \<Rightarrow> bool) \<Rightarrow> (string \<Rightarrow> string res) \<Rightarrow> string list \<Rightarrow> net \<Rightarrow> unit res \<times> net" where
  "client_Do allow split_host [] n = (Inr (), n)"
| "client_Do allow split_host (addr # hops) n =
    (case safeDialContextWith allow split_host addr n of
       (Inl e, n1) \<Rightarrow> (Inl e, n1)
     | (Inr _, n1) \<Rightarrow> client_Do allow split_host hops n1)"

definition httpClient_Do :: "(ip \<Rightarrow> bool) \<Rightarrow> (string \<Rightarrow> string res) \<Rightarrow> net \<Rightarrow> int res \<times> net" where
  "httpClient_Do allow split_host n =
    (case client_Do allow split_host (net_route n (net_asked n)) n of
       (Inl e, n1) \<Rightarrow> (Inl e, n1)
     | (Inr _, n1) \<Rightarrow> (net_answer n1 (net_asked n1), n1))"

text \<open>The libraries of a delivery.\<close>

record 'd delivery_env =
  dle_Parse :: "string \<Rightarrow> url res"
  dle_Split :: "string \<Rightarrow> string res"
  dle_Marshal :: "'d outbox_event \<Rightarrow> string res"
  dle_Request :: "string \<Rightarrow> app_error option"
  dle_Hmac :: "string \<Rightarrow> string \<Rightarrow> string"

definition webhook_request :: "'d delivery_env \<Rightarrow> time \<Rightarrow> webhook_subscription \<Rightarrow> string \<Rightarrow> posted" where
  "webhook_request E now hook body =
    \<lparr> pst_URL = whs_URL hook, pst_Body = body,
      pst_Signature = (if whs_Secret hook \<noteq> [] then Some (generateHMACSignature (dle_Hmac E) body (whs_Secret hook)) else None),
      pst_Timestamp = format_RFC3339 now \<rparr>"

text \<open>The result is the request that was delivered; the status it was answered with is only logged.\<close>

definition SendWebhook ::
    "'d delivery_env \<Rightarrow> (ip \<Rightarrow> bool) \<Rightarrow> webhook_subscription \<Rightarrow> 'd outbox_event \<Rightarrow> net \<Rightarrow> posted res \<times> net" where
  "SendWebhook E allow hook ev n =
    (case validateOutgoingWebhookURL allow (dle_Parse E) (whs_URL hook) n of
       (Inl e, n1) \<Rightarrow> (Inl e, n1)
     | (Inr _, n1) \<Rightarrow>
        (case dle_Marshal E ev of
           Inl e \<Rightarrow> (Inl e, n1)
         | Inr body \<Rightarrow>
            (case dle_Request E (whs_URL hook) of
               Some e \<Rightarrow> (Inl e, n1)
             | None \<Rightarrow>
                (case httpClient_Do allow (dle_Split E) n1 of
                   (Inl e, n2) \<Rightarrow> (Inl e, n2)
                 | (Inr status, n2) \<Rightarrow> (Inr (webhook_request E (net_clock n1 (net_asked n1)) hook body), n2)))))"

text \<open>The task: tried again up to five times.\<close>

definition outgoing_webhook_job ::
    "'d delivery_env \<Rightarrow> nat \<Rightarrow> webhook_subscription \<Rightarrow> 'd outbox_event \<Rightarrow> net \<Rightarrow> posted res \<times> net" where
  "outgoing_webhook_job E retries hook ev =
    retry_task (\<lambda>_. False) (min 5 retries) (SendWebhook E isPublicUnicast hook ev)"

text \<open>Registering an endpoint: its address is resolved and checked first.\<close>

definition register_webhook ::
    "(string \<Rightarrow> url res) \<Rightarrow> string \<Rightarrow> string list \<Rightarrow> string \<Rightarrow> string \<Rightarrow> net \<Rightarrow> 'd world \<Rightarrow> webhook_subscription res \<times> 'd world" where
  "register_webhook url_Parse orgId events url secret n =
    WebhookSubscriptionService_Create
      (\<lambda>u. case fst (validateOutgoingWebhookURL isPublicUnicast url_Parse u n) of Inl e \<Rightarrow> Some e | Inr _ \<Rightarrow> None)
      orgId events url secret"

section \<open>Reserved blocks\<close>

text \<open>A block of addresses holds those whose first k bits agree with its base.\<close>

definition byte_bits :: "8 word \<Rightarrow> bool list" where
  "byte_bits b = map (bit b) [7, 6, 5, 4, 3, 2, 1, 0]"

definition in_block :: "ip \<Rightarrow> ip \<times> nat \<Rightarrow> bool" where
  "in_block p blk = (length p = length (fst blk) \<and>
     take (snd blk) (concat (map byte_bits p)) = take (snd blk) (concat (map byte_bits (fst blk))))"

text \<open>The blocks the comment of isPublicUnicast lists.\<close>

definition reserved_v4 :: "(ip \<times> nat) list" where
  "reserved_v4 =
    [([127, 0, 0, 0], 8), ([169, 254, 0, 0], 16), ([10, 0, 0, 0], 8), ([172, 16, 0, 0], 12), ([192, 168, 0, 0], 16),
     ([224, 0, 0, 0], 4), ([0, 0, 0, 0], 32), ([255, 255, 255, 255], 32), ([100, 64, 0, 0], 10)]"

definition reserved_v6 :: "(ip \<times> nat) list" where
  "reserved_v6 =
    [(IPv6loopback, 128), (IPv6unspecified, 128), (0xfe # 0x80 # replicate 14 0, 10),
     (0xfc # replicate 15 0, 7), (0xff # replicate 15 0, 8)]"

definition internal_address :: "ip \<Rightarrow> bool" where
  "internal_address p =
    ((case To4 p of Some q \<Rightarrow> list_ex (in_block q) reserved_v4 | None \<Rightarrow> False) \<or> list_ex (in_block p) reserved_v6)"

lemma bytes_enum: "b \<in> set (map word_of_nat [0..<256])" for b :: "8 word"
proof -
  have "unat b < 256" using unsigned_less[of b] by simp
  then show ?thesis by (auto intro!: image_eqI[where x = "unat b"])
qed

lemma all_bytes:
  assumes "list_all P (map word_of_nat [0..<256])"
  shows "P (b :: 8 word)"
  using assms bytes_enum[of b] unfolding list_all_iff by blast

lemma byte_bits_eq: "byte_bits a = byte_bits b \<longleftrightarrow> a = b"
proof
  assume h: "byte_bits a = byte_bits b"
  show "a = b"
  proof (rule bit_word_eqI)
    fix n assume "n < LENGTH(8)"
    then have "n \<in> {0, 1, 2, 3, 4, 5, 6, 7}" by (simp add: numeral_eq_Suc less_Suc_eq) 
    then show "bit a n = bit b n" using h by (auto simp: byte_bits_def)
  qed
qed simp

lemma length_byte_bits[simp]: "length (byte_bits b) = 8"
  by (simp add: byte_bits_def)

lemma nibble_172: "take 4 (byte_bits b) = take 4 (byte_bits 16) \<longleftrightarrow> b AND 0xf0 = 16"
  by (rule all_bytes[of "\<lambda>b. take 4 (byte_bits b) = take 4 (byte_bits 16) \<longleftrightarrow> b AND 0xf0 = 16"]) code_simp

lemma nibble_224: "take 4 (byte_bits b) = take 4 (byte_bits 224) \<longleftrightarrow> b AND 0xf0 = 0xe0"
  by (rule all_bytes[of "\<lambda>b. take 4 (byte_bits b) = take 4 (byte_bits 224) \<longleftrightarrow> b AND 0xf0 = 0xe0"]) code_simp

lemma top_two_64: "take 2 (byte_bits b) = take 2 (byte_bits 64) \<longleftrightarrow> b AND 0xc0 = 64"
  by (rule all_bytes[of "\<lambda>b. take 2 (byte_bits b) = take 2 (byte_bits 64) \<longleftrightarrow> b AND 0xc0 = 64"]) code_simp

lemma top_two_80: "take 2 (byte_bits b) = take 2 (byte_bits 0x80) \<longleftrightarrow> b AND 0xc0 = 0x80"
  by (rule all_bytes[of "\<lambda>b. take 2 (byte_bits b) = take 2 (byte_bits 0x80) \<longleftrightarrow> b AND 0xc0 = 0x80"]) code_simp

lemma top_seven: "take 7 (byte_bits b) = take 7 (byte_bits 0xfc) \<longleftrightarrow> b AND 0xfe = 0xfc"
  by (rule all_bytes[of "\<lambda>b. take 7 (byte_bits b) = take 7 (byte_bits 0xfc) \<longleftrightarrow> b AND 0xfe = 0xfc"]) code_simp


text \<open>Blocks by their length.\<close>

lemma block8: "in_block [a, b, c, d] ([w, x, y, z], 8) \<longleftrightarrow> a = w"
  by (simp add: in_block_def byte_bits_eq)

lemma block16: "in_block [a, b, c, d] ([w, x, y, z], 16) \<longleftrightarrow> a = w \<and> b = x"
  by (simp add: in_block_def byte_bits_eq)

lemma block32: "in_block [a, b, c, d] ([w, x, y, z], 32) \<longleftrightarrow> a = w \<and> b = x \<and> c = y \<and> d = z"
  by (simp add: in_block_def byte_bits_eq)

lemma block4: "in_block [a, b, c, d] ([w, x, y, z], 4) \<longleftrightarrow> take 4 (byte_bits a) = take 4 (byte_bits w)"
  by (simp add: in_block_def)

lemma block12: "in_block [a, b, c, d] ([w, x, y, z], 12) \<longleftrightarrow> a = w \<and> take 4 (byte_bits b) = take 4 (byte_bits x)"
  by (simp add: in_block_def byte_bits_eq)

lemma block10: "in_block [a, b, c, d] ([w, x, y, z], 10) \<longleftrightarrow> a = w \<and> take 2 (byte_bits b) = take 2 (byte_bits x)"
  by (simp add: in_block_def byte_bits_eq)

lemmas blocks = block4 block8 block10 block12 block16 block32 nibble_172 nibble_224 top_two_64

lemma concat_bits_eq: "length p = length q \<Longrightarrow> concat (map byte_bits p) = concat (map byte_bits q) \<longleftrightarrow> p = q"
  by (induction p q rule: list_induct2) (auto simp: byte_bits_eq)

lemma length_bits: "length (concat (map byte_bits p)) = 8 * length p"
  by (induction p) auto

lemma block128: "length a = 16 \<Longrightarrow> in_block p (a, 128) \<longleftrightarrow> p = a"
  using concat_bits_eq[of p a] length_bits[of p] length_bits[of a] by (auto simp: in_block_def)

lemma block6:
  "length rest = 14 \<Longrightarrow> in_block (a # b # rest) (0xfe # 0x80 # replicate 14 0, 10) \<longleftrightarrow> a = 0xfe \<and> b AND 0xc0 = 0x80"
  "length bs = 15 \<Longrightarrow> in_block (a # bs) (0xfc # replicate 15 0, 7) \<longleftrightarrow> a AND 0xfe = 0xfc"
  "length bs = 15 \<Longrightarrow> in_block (a # bs) (0xff # replicate 15 0, 8) \<longleftrightarrow> a = 0xff"
  by (simp_all add: in_block_def byte_bits_eq top_two_80 top_seven del: replicate.simps)


lemmas ip_predicates = IsLoopback_def IsPrivate_def IsMulticast_def IsInterfaceLocalMulticast_def IsLinkLocalMulticast_def
  IsLinkLocalUnicast_def IsUnspecified_def

lemma prefix_list: "v4InV6Prefix = [0, 0, 0, 0, 0, 0, 0, 0, 0, 0, 0xff, 0xff]"
  by code_simp

lemma loopback_list: "IPv6loopback = [0, 0, 0, 0, 0, 0, 0, 0, 0, 0, 0, 0, 0, 0, 0, 1]"
  by code_simp

lemma unspecified_list: "IPv6unspecified = [0, 0, 0, 0, 0, 0, 0, 0, 0, 0, 0, 0, 0, 0, 0, 0]"
  by code_simp

lemma length_constants[simp]: "length v4InV6Prefix = 12" "length IPv6loopback = 16" "length IPv6unspecified = 16"
  by (simp_all add: prefix_list loopback_list unspecified_list)

lemma To4_simps[simp]: "To4 [a, b, c, d] = Some [a, b, c, d]" "To4 (IPv4 a b c d) = Some [a, b, c, d]"
  by (simp_all add: To4_def IPv4_def)

lemma length_IPv4[simp]: "length (IPv4 a b c d) = 16"
  by (simp add: IPv4_def)

lemma mapped_bytes: "IPv4 a b c d ! 0 = 0" "IPv4 a b c d \<noteq> []" "IPv4 a b c d \<noteq> IPv6unspecified" "IPv4 a b c d \<noteq> IPv6loopback"
  by (simp_all add: IPv4_def prefix_list loopback_list unspecified_list)

lemma ip_Equal_v4:
  "ip_Equal [a, b, c, d] (IPv4 w x y z) \<longleftrightarrow> a = w \<and> b = x \<and> c = y \<and> d = z"
  "ip_Equal (IPv4 a b c d) (IPv4 w x y z) \<longleftrightarrow> a = w \<and> b = x \<and> c = y \<and> d = z"
  "\<not> ip_Equal [a, b, c, d] IPv6unspecified"
  "\<not> ip_Equal (IPv4 a b c d) IPv6unspecified"
  by (auto simp: ip_Equal_def mapped_bytes) (auto simp: IPv4_def prefix_list unspecified_list)

lemma public_v4: "isPublicUnicast [a, b, c, d] \<longleftrightarrow> \<not> list_ex (in_block [a, b, c, d]) reserved_v4"
  unfolding isPublicUnicast_def
  by (simp add: ip_predicates ip_Equal_v4 reserved_v4_def blocks)

lemma list4: "length p = 4 \<Longrightarrow> \<exists>a b c d. p = [a, b, c, d]"
  by (auto simp: numeral_eq_Suc length_Suc_conv)

lemma mapped_cases:
  assumes "length p = 16" "To4 p = Some q"
  shows "\<exists>a b c d. q = [a, b, c, d] \<and> p = IPv4 a b c d"
proof -
  have q: "q = drop 12 p" "take 12 p = v4InV6Prefix" using assms by (simp_all add: To4_def split: if_splits)
  moreover have "length q = 4" using assms(1) q by simp
  ultimately show ?thesis using list4[of q] append_take_drop_id[of 12 p] by (metis IPv4_def)
qed

lemma public_mapped: "isPublicUnicast (IPv4 a b c d) = isPublicUnicast [a, b, c, d]"
  unfolding isPublicUnicast_def
  by (simp add: ip_predicates ip_Equal_v4 mapped_bytes)

lemma mapped_not_v6: "\<not> list_ex (in_block (IPv4 a b c d)) reserved_v6"
proof -
  have "IPv4 a b c d = 0 # 0 # [0, 0, 0, 0, 0, 0, 0, 0, 0xff, 0xff, a, b, c, d]" by (simp add: IPv4_def prefix_list)
  then show ?thesis
    using block6(1)[of "[0, 0, 0, 0, 0, 0, 0, 0, 0xff, 0xff, a, b, c, d]" 0 0]
      block6(2,3)[of "[0, 0, 0, 0, 0, 0, 0, 0, 0, 0xff, 0xff, a, b, c, d]" 0] mapped_bytes[of a b c d]
    by (simp add: reserved_v6_def block128 del: replicate.simps)
qed

lemma v4_not_v6: "\<not> list_ex (in_block [a, b, c, d]) reserved_v6"
  by (simp add: reserved_v6_def in_block_def)

lemma public_v6:
  assumes "length p = 16" "To4 p = None"
  shows "isPublicUnicast p \<longleftrightarrow> \<not> list_ex (in_block p) reserved_v6"
proof -
  obtain a b r where p: "p = a # b # r" "length r = 14"
    using assms(1) by (cases p; cases "tl p") auto
  have m: "take 12 p \<noteq> v4InV6Prefix" using assms by (auto simp: To4_def split: if_splits)
  then have "\<And>x y z w. \<not> ip_Equal p (IPv4 x y z w)" using assms(1)
    by (auto simp: ip_Equal_def IPv4_def)
  moreover have "ip_Equal p IPv6loopback \<longleftrightarrow> p = IPv6loopback" "ip_Equal p IPv6unspecified \<longleftrightarrow> p = IPv6unspecified"
    using assms(1) by (auto simp: ip_Equal_def)
  ultimately show ?thesis
    using assms block6(1)[of r a b] block6(2,3)[of "b # r" a] p(2) unfolding isPublicUnicast_def reserved_v6_def
    by (simp add: IsLoopback_def IsPrivate_def IsMulticast_def IsInterfaceLocalMulticast_def IsLinkLocalMulticast_def
        IsLinkLocalUnicast_def IsUnspecified_def block128) (auto simp: p(1))
qed

lemma public_blocks:
  assumes "length p = 4 \<or> length p = 16"
  shows "isPublicUnicast p \<longleftrightarrow> \<not> internal_address p"
  using assms
proof
  assume l: "length p = 4"
  then show ?thesis using list4[OF l] public_v4 v4_not_v6 by (auto simp: internal_address_def To4_def)
next
  assume l: "length p = 16"
  show ?thesis
  proof (cases "To4 p")
    case None
    then show ?thesis using public_v6[OF l] by (simp add: internal_address_def)
  next
    case (Some q)
    then show ?thesis
      using mapped_cases[OF l Some] public_mapped public_v4 mapped_not_v6 by (auto simp: internal_address_def)
  qed
qed

text \<open>C37: The addresses the code accepts are exactly those outside every reserved block its comment
  lists, in either notation of an IPv4 address.
\<close>

theorem public_unicast_blocks:
  assumes "length p = 4 \<or> length p = 16"
  shows "isPublicUnicast p \<longleftrightarrow> \<not> internal_address p"
  by (rule public_blocks[OF assms])

theorem public_unicast_blocks_witness:
  "(isPublicUnicast [169, 254, 169, 254] \<longleftrightarrow> \<not> internal_address [169, 254, 169, 254]) \<and>
   internal_address [169, 254, 169, 254] \<and> \<not> internal_address [8, 8, 8, 8]"
proof (intro conjI)
  show "isPublicUnicast [169, 254, 169, 254] \<longleftrightarrow> \<not> internal_address [169, 254, 169, 254]"
    by (rule public_unicast_blocks) simp
  show "internal_address [169, 254, 169, 254]" by code_simp
  show "\<not> internal_address [8, 8, 8, 8]" by code_simp
qed


section \<open>No connection to an internal address\<close>

text \<open>n1 follows n: it has dialed more addresses, and only such as are allowed.\<close>

definition dials :: "(ip \<Rightarrow> bool) \<Rightarrow> net \<Rightarrow> net \<Rightarrow> bool" where
  "dials allow n n1 \<longleftrightarrow> (\<exists>ips. net_dialed n1 = net_dialed n @ ips \<and> list_all allow ips)"

lemma dials_refl[intro, simp]: "dials allow n n"
  by (auto simp: dials_def)

lemma dials_trans: "dials allow n n1 \<Longrightarrow> dials allow n1 n2 \<Longrightarrow> dials allow n n2"
  by (auto simp: dials_def)

lemma dials_same: "net_dialed n1 = net_dialed n \<Longrightarrow> dials allow n n1"
  by (auto simp: dials_def)

lemma LookupIP_dialed[simp]: "net_dialed (snd (LookupIP host n)) = net_dialed n"
  by (simp add: LookupIP_def)

lemma dial_ips_dials: "list_all allow ips \<Longrightarrow> dials allow n (snd (dial_ips ips n))"
proof (induction ips n rule: dial_ips.induct)
  case (2 ip ips n)
  have "dials allow n (n\<lparr>net_dialed := net_dialed n @ [ip]\<rparr>)" using 2 by (auto simp: dials_def)
  then show ?case using 2 by (auto simp: Let_def intro: dials_trans)
qed simp

lemma safe_dial_dials: "dials allow n (snd (safeDialContextWith allow split addr n))"
proof (cases "split addr")
  case (Inr host)
  obtain r n1 where l: "LookupIP host n = (r, n1)" by (metis surj_pair)
  have d: "dials allow n n1" using LookupIP_dialed[of host n] l by (auto intro: dials_same)
  show ?thesis
  proof (cases "\<exists>ips. r = Inr ips \<and> list_all allow ips")
    case True
    then obtain ips where "r = Inr ips" "list_all allow ips" by auto
    then show ?thesis using Inr l d dial_ips_dials[of allow ips n1]
      by (auto simp: safeDialContextWith_def split: prod.splits bool.splits intro: dials_trans)
  qed (use Inr l d in \<open>auto simp: safeDialContextWith_def split: sum.splits\<close>)
qed (simp add: safeDialContextWith_def)

lemma client_dials: "dials allow n (snd (client_Do allow split hops n))"
proof (induction hops arbitrary: n)
  case (Cons addr hops)
  obtain r n1 where s: "safeDialContextWith allow split addr n = (r, n1)" by (metis surj_pair)
  then have "dials allow n n1" using safe_dial_dials[of allow n split addr] by simp
  then show ?case using s Cons[of n1] by (auto split: sum.splits intro: dials_trans)
qed simp

lemma validate_dials: "net_dialed (snd (validateOutgoingWebhookURL allow parse raw n)) = net_dialed n"
  by (auto simp: validateOutgoingWebhookURL_def LookupIP_def split: sum.splits)

lemma send_dials: "dials allow n (snd (SendWebhook E allow hook ev n))"
proof -
  obtain r n1 where v: "validateOutgoingWebhookURL allow (dle_Parse E) (whs_URL hook) n = (r, n1)" by (metis surj_pair)
  obtain q n2 where c: "client_Do allow (dle_Split E) (net_route n1 (net_asked n1)) n1 = (q, n2)" by (metis surj_pair)
  have "dials allow n n1" using validate_dials[of allow "dle_Parse E" "whs_URL hook" n] v by (auto intro: dials_same)
  moreover have "dials allow n1 n2" using client_dials[of allow n1] c by (metis snd_conv)
  ultimately show ?thesis using v c
    by (auto simp: SendWebhook_def httpClient_Do_def split: sum.splits option.splits intro: dials_trans)
qed

text \<open>C36: Whatever the resolver answers, at whatever moment it changes its answer, wherever the
  endpoint redirects to and however often the engine tries again: the job of an outgoing webhook
  never opens a connection to an address inside one of the blocks that internal_address lists, in
  either notation: loopback, link-local, private and unique local, multicast, carrier-grade NAT,
  the unspecified and the broadcast address.  (Reserved blocks that are not in the list are accepted: see
  accepted_reserved.)\<close>

theorem no_internal_dial:
  assumes "outgoing_webhook_job E retries hook ev n = (r, n1)"
  shows "\<exists>ips. net_dialed n1 = net_dialed n @ ips \<and>
           (\<forall>ip\<in>set ips. (length ip = 4 \<or> length ip = 16) \<longrightarrow> \<not> internal_address ip)"
proof -
  have "dials isPublicUnicast n n1"
  proof (rule retry_task_rule[where I = "dials isPublicUnicast n" and P = "\<lambda>_. dials isPublicUnicast n"])
    show "retry_task (\<lambda>_. False) (min 5 retries) (SendWebhook E isPublicUnicast hook ev) n = (r, n1)"
      using assms by (simp add: outgoing_webhook_job_def)
  qed (use send_dials[of isPublicUnicast _ E hook ev] in \<open>auto intro: dials_trans, (metis dials_trans snd_conv)+\<close>)
  then obtain ips where "net_dialed n1 = net_dialed n @ ips" "list_all isPublicUnicast ips" by (auto simp: dials_def)
  then show ?thesis using public_blocks by (auto simp: list_all_iff)
qed


text \<open>A resolver that changes its answer between the check and the connection; the second attempt goes through.\<close>

definition rebinding_net :: net where
  "rebinding_net = \<lparr> net_lookup = (\<lambda>k host. Inr [if k = 1 then [169, 254, 169, 254] else [8, 8, 8, 8]]), net_asked = 0,
     net_reach = (\<lambda>_. True), net_route = (\<lambda>_. [''example.com:443'']), net_answer = (\<lambda>_. Inr 200), net_clock = (\<lambda>_. 0),
     net_dialed = [] \<rparr>"

definition plain_delivery :: "rat delivery_env" where
  "plain_delivery = \<lparr> dle_Parse = (\<lambda>u. Inr \<lparr> url_Scheme = ''https'', url_Host = ''example.com:443'', url_Hostname = ''example.com'' \<rparr>),
     dle_Split = (\<lambda>a. Inr ''example.com''), dle_Marshal = (\<lambda>_. Inr ''{}''), dle_Request = (\<lambda>_. None), dle_Hmac = (\<lambda>k d. k @ d) \<rparr>"

definition plain_hook :: webhook_subscription where
  "plain_hook = \<lparr> whs_OrgID = ''o'', whs_Id = ''1'', whs_Events = [''webhook.created''], whs_URL = ''https://example.com'', whs_Secret = ''k'',
     whs_CreatedAt = 0, whs_UpdatedAt = 0 \<rparr>"

definition plain_event :: "rat outbox_event" where
  "plain_event = \<lparr> obx_Id = 1, obx_EventId = ''e'', obx_OrgId = ''o'', obx_Topic = ''webhook.created'', obx_Payload = MsgWebhook plain_hook,
     obx_Attempts = 0, obx_NextAttemptAt = None, obx_LastError = [], obx_PublishedAt = None, obx_CreatedAt = 0 \<rparr>"

theorem no_internal_dial_witness:
  "\<exists>n1 ips. snd (outgoing_webhook_job plain_delivery 1 plain_hook plain_event rebinding_net) = n1 \<and>
     net_dialed n1 = net_dialed rebinding_net @ ips \<and> ips = [[8, 8, 8, 8]] \<and>
     (\<forall>ip\<in>set ips. (length ip = 4 \<or> length ip = 16) \<longrightarrow> \<not> internal_address ip)"
proof -
  obtain r n1 where j: "outgoing_webhook_job plain_delivery 1 plain_hook plain_event rebinding_net = (r, n1)" by (metis surj_pair)
  have "net_dialed (snd (outgoing_webhook_job plain_delivery 1 plain_hook plain_event rebinding_net)) = [[8, 8, 8, 8]]" by code_simp
  moreover have "net_dialed rebinding_net = []" by (simp add: rebinding_net_def)
  ultimately show ?thesis using no_internal_dial[OF j] j by auto
qed

text \<open>What the first attempt ends with, and what the second one sends.\<close>

theorem rebinding_run:
  "fst (SendWebhook plain_delivery isPublicUnicast plain_hook plain_event rebinding_net) = Inl ErrUnsafeWebhookURL \<and>
   (case fst (outgoing_webhook_job plain_delivery 1 plain_hook plain_event rebinding_net) of
      Inl _ \<Rightarrow> False | Inr q \<Rightarrow> pst_Signature q = Some ''k{}'')"
  by code_simp

text \<open>A status of 500 counts as delivered: the job ends and is not tried again.\<close>

theorem failure_status_delivered:
  "\<not> isl (fst (outgoing_webhook_job plain_delivery 5 plain_hook plain_event (rebinding_net\<lparr>net_lookup := \<lambda>_ _. Inr [[8, 8, 8, 8]], net_answer := \<lambda>_. Inr 500\<rparr>))) \<and>
   length (net_dialed (snd (outgoing_webhook_job plain_delivery 5 plain_hook plain_event
     (rebinding_net\<lparr>net_lookup := \<lambda>_ _. Inr [[8, 8, 8, 8]], net_answer := \<lambda>_. Inr 500\<rparr>)))) = 1"
  by code_simp

text \<open>Blocks that are reserved and that the code takes for public: 240.0.0.0/4, 0.0.0.0/8 and NAT64 of a metadata address.\<close>

theorem accepted_reserved:
  "isPublicUnicast [240, 0, 0, 1] \<and> isPublicUnicast [0, 0, 0, 1] \<and>
   isPublicUnicast [0, 0x64, 0xff, 0x9b, 0, 0, 0, 0, 0, 0, 0, 0, 169, 254, 169, 254]"
  by code_simp

end
