(* ===== verification/Guarded.thy ===== *)
theory Guarded
  imports Effects
begin

text \<open>
  Services that keep an invariant of the database which single statements do not keep: a row may
  only be written because an earlier statement has found the row it refers to.  secures P m Q
  says that a run from a database with the invariant and P keeps the invariant, whatever
  fails, and ends with Q where it succeeds.  The locale proves the rules once for any
  invariant that does not look at the outbox.
\<close>

locale guarded =
  fixes I :: "'d db \<Rightarrow> bool"
  assumes outbox_free: "I (db\<lparr>t_outbox := es\<rparr>) = I db"
begin

definition secures :: "('d db \<Rightarrow> bool) \<Rightarrow> ('d, 'a) svc \<Rightarrow> ('a \<Rightarrow> 'd db \<Rightarrow> bool) \<Rightarrow> bool" where
  "secures P m Q \<longleftrightarrow> (\<forall>w r w1. I (w_db w) \<and> P (w_db w) \<and> m w = (r, w1) \<longrightarrow>
     I (w_db w1) \<and> (\<forall>x. r = Inr x \<longrightarrow> Q x (w_db w1)))"

lemma securesI:
  "(\<And>w r w1. I (w_db w) \<Longrightarrow> P (w_db w) \<Longrightarrow> m w = (r, w1) \<Longrightarrow> I (w_db w1) \<and> (\<forall>x. r = Inr x \<longrightarrow> Q x (w_db w1))) \<Longrightarrow> secures P m Q"
  by (auto simp: secures_def)

lemma securesD:
  assumes "secures P m Q" "I (w_db w)" "P (w_db w)" "m w = (r, w1)"
  shows "I (w_db w1) \<and> (\<forall>x. r = Inr x \<longrightarrow> Q x (w_db w1))"
  using assms unfolding secures_def by blast

lemma secures_weaken: "secures P m Q \<Longrightarrow> (\<And>db. P' db \<Longrightarrow> P db) \<Longrightarrow> (\<And>x db. Q x db \<Longrightarrow> Q' x db) \<Longrightarrow> secures P' m Q'"
  unfolding secures_def by blast

text \<open>What the assumption says of values that are fixed may be used in the proof.\<close>

lemma secures_pure: "(\<And>db. P db \<Longrightarrow> G) \<Longrightarrow> (G \<Longrightarrow> secures P m Q) \<Longrightarrow> secures P m Q"
  unfolding secures_def by blast

lemma secures_bind:
  assumes m: "secures P m Q" and f: "\<And>x. secures (Q x) (f x) R"
  shows "secures P (bindS m f) R"
proof (rule securesI)
  fix w r w1 assume i: "I (w_db w)" "P (w_db w)" and run: "bindS m f w = (r, w1)"
  obtain q w2 where q: "m w = (q, w2)" by (metis surj_pair)
  from securesD[OF m i q] have h: "I (w_db w2)" "\<And>x. q = Inr x \<Longrightarrow> Q x (w_db w2)" by auto
  show "I (w_db w1) \<and> (\<forall>x. r = Inr x \<longrightarrow> R x (w_db w1))"
  proof (cases q)
    case (Inr x)
    then show ?thesis using run q securesD[OF f h(1) h(2)[OF Inr]] by (simp add: bindS_def)
  qed (use run q h(1) in \<open>auto simp: bindS_def\<close>)
qed

lemma secures_ret: "(\<And>db. P db \<Longrightarrow> Q x db) \<Longrightarrow> secures P (retS x) Q"
  by (auto simp: secures_def retS_def)

lemma secures_fail: "secures P (failS e) Q"
  by (auto simp: secures_def failS_def)

lemma secures_lift: "secures P (liftS r) (\<lambda>_. P)"
  by (auto simp: secures_def liftS_def)

lemma secures_now: "secures P nowS (\<lambda>_. P)"
  by (auto simp: secures_def nowS_def)

lemma secures_Generate: "secures P (Generate p) (\<lambda>_. P)"
  by (auto simp: secures_def Generate_def)

lemma secures_sel: "secures P (sel f) (\<lambda>x db. P db \<and> x = f db)"
  by (auto simp: secures_def sel_def stmt_def Let_def split: if_splits option.splits)

lemma secures_selOne: "secures P (selOne f) (\<lambda>x db. P db \<and> f db = Some x)"
  unfolding selOne_def by (rule secures_bind[OF secures_sel]) (auto simp: secures_def translateErr_def failS_def retS_def split: option.splits)

lemma secures_exec:
  "(\<And>db d. I db \<Longrightarrow> P db \<Longrightarrow> f db = Some d \<Longrightarrow> I d \<and> Q d) \<Longrightarrow> secures P (exec f) (\<lambda>_. Q)"
  by (auto simp: secures_def exec_def stmt_def Let_def split: if_splits option.splits)

lemma secures_mapErr: "secures P m Q \<Longrightarrow> secures P (mapErrS g m) Q"
  unfolding secures_def mapErrS_def by (fastforce split: prod.splits sum.splits)

lemma secures_ignore:
  assumes "secures P m (\<lambda>_ _. True)"
  shows "secures P (ignoreS m) (\<lambda>_ _. True)"
  using assms unfolding secures_def ignoreS_def by (metis prod.inject surjective_pairing)

lemma secures_try:
  assumes "secures P m Q" and "\<And>x. secures (Q x) (f (Inr x)) R" and "\<And>e. secures (\<lambda>_. True) (f (Inl e)) R"
  shows "secures P (tryS m f) R"
proof (rule securesI)
  fix w r w1 assume i: "I (w_db w)" "P (w_db w)" and run: "tryS m f w = (r, w1)"
  obtain q w2 where q: "m w = (q, w2)" by (metis surj_pair)
  from securesD[OF assms(1) i q] have h: "I (w_db w2)" "\<And>x. q = Inr x \<Longrightarrow> Q x (w_db w2)" by auto
  have run2: "f q w2 = (r, w1)" using run q by (simp add: tryS_def)
  show "I (w_db w1) \<and> (\<forall>x. r = Inr x \<longrightarrow> R x (w_db w1))"
    using run2 securesD[OF assms(2) h(1) h(2)] securesD[OF assms(3) h(1)] by (cases q) auto
qed

lemma secures_Publish: "secures P (Publish a t m) (\<lambda>_ _. True)"
proof (rule securesI)
  fix w r w1 assume i: "I (w_db w)" and run: "Publish a t m w = (r, w1)"
  have "\<exists>es. w_db w1 = (w_db w)\<lparr>t_outbox := es\<rparr>"
    using run by (auto simp: Publish_def bindS_def nowS_def Generate_def outbox_Create_def exec_def stmt_def Let_def
        split: if_splits option.splits) (metis db.surjective db.update_convs(36))+
  then show "I (w_db w1) \<and> (\<forall>x. r = Inr x \<longrightarrow> True)" using i by (auto simp: outbox_free)
qed

lemma secures_publish: "secures P (ignoreS (Publish a t m)) (\<lambda>_ _. True)"
  by (rule secures_ignore[OF secures_Publish])

lemma secures_foldS:
  "(\<And>b x. secures P (f b x) (\<lambda>_. P)) \<Longrightarrow> secures P (foldS f b xs) (\<lambda>_. P)"
  by (induction xs arbitrary: b) (auto intro: secures_ret secures_bind)

lemma secures_keeps: "secures (\<lambda>_. True) m (\<lambda>_ _. True) \<Longrightarrow> I (w_db w) \<Longrightarrow> I (w_db (snd (m w)))"
  by (metis securesD surjective_pairing)

end

end
