(* ===== verification/Customer_Service.thy ===== *)
theory Customer_Service
  imports Guarded Order_Service
begin

text \<open>
  Customers, their payment methods and cohorts: src/internal/core/service/customer.go over the
  statements of customer_repo.go and payment_method_repo.go.  The lemmas show that whatever is
  done, and whatever fails, a payment method keeps its customer, a default payment method
  exists, a cohort entry refers to rows that are there, and no two customers of an organisation share an
  address or an external id.  The foreign keys of the two tables of cohorts are checked by the
  statements; those of customers and payment methods are proved never to be needed.
\<close>

section \<open>Statements\<close>

definition cus_key :: "customer \<Rightarrow> string \<times> string" where
  "cus_key c = (cus_OrgId c, cus_Id c)"

definition CustomerRepo_FindByEmail :: "string \<Rightarrow> string \<Rightarrow> ('d, customer) svc" where
  "CustomerRepo_FindByEmail orgId email =
    selOne (\<lambda>db. find (\<lambda>c. cus_OrgId c = orgId \<and> cus_Email c = email) (t_customers db))"

definition CustomerRepo_FindByIds :: "string \<Rightarrow> string list \<Rightarrow> ('d, customer list) svc" where
  "CustomerRepo_FindByIds orgId ids =
    (if ids = [] then retS [] else sel (\<lambda>db. filter (\<lambda>c. cus_OrgId c = orgId \<and> cus_Id c \<in> set ids) (t_customers db)))"

definition cus_merge :: "customer \<Rightarrow> customer \<Rightarrow> customer" where
  "cus_merge old c = c\<lparr>cus_CreatedAt := cus_CreatedAt old\<rparr>"

text \<open>An update may not give a customer what another one of the organisation has.\<close>

definition cus_taken :: "customer \<Rightarrow> customer list \<Rightarrow> bool" where
  "cus_taken c rows \<longleftrightarrow> cus_key c \<in> cus_key ` set rows \<and> list_ex (\<lambda>r. cus_key r \<noteq> cus_key c \<and> cus_clash c r) rows"

definition CustomerRepo_Update :: "customer \<Rightarrow> ('d, customer) svc" where
  "CustomerRepo_Update c =
    bindS (mapErrS (asConflictOnUnique ''A customer with this email or external id already exists'')
      (exec (\<lambda>db. if cus_taken c (t_customers db) then None
                  else Some (db\<lparr>t_customers := update_row cus_key cus_merge c (t_customers db)\<rparr>)))) (\<lambda>_.
    CustomerRepo_FindById (cus_OrgId c) (cus_Id c))"

definition coh_key :: "cohort \<Rightarrow> string \<times> string" where
  "coh_key c = (coh_OrgId c, coh_Id c)"

definition ccm_key :: "customer_cohort \<Rightarrow> string \<times> string \<times> string" where
  "ccm_key m = (ccm_OrgId m, ccm_CustomerId m, ccm_CohortId m)"

definition FindCohortById :: "string \<Rightarrow> string \<Rightarrow> ('d, cohort) svc" where
  "FindCohortById orgId cid = selOne (\<lambda>db. find_row coh_key (orgId, cid) (t_cohorts db))"

definition CreateCohort :: "cohort \<Rightarrow> ('d, cohort) svc" where
  "CreateCohort c =
    bindS (exec (\<lambda>db. map_option (\<lambda>rs. db\<lparr>t_cohorts := rs\<rparr>) (insert_row (\<lambda>a b. coh_key a = coh_key b) c (t_cohorts db)))) (\<lambda>_.
    FindCohortById (coh_OrgId c) (coh_Id c))"

definition coh_merge :: "cohort \<Rightarrow> cohort \<Rightarrow> cohort" where
  "coh_merge old c = c\<lparr>coh_CreatedAt := coh_CreatedAt old\<rparr>"

definition UpdateCohort :: "cohort \<Rightarrow> ('d, cohort) svc" where
  "UpdateCohort c =
    bindS (exec (\<lambda>db. Some (db\<lparr>t_cohorts := update_row coh_key coh_merge c (t_cohorts db)\<rparr>))) (\<lambda>_.
    FindCohortById (coh_OrgId c) (coh_Id c))"

text \<open>The entries of a cohort go with it.\<close>

definition DeleteCohort :: "cohort \<Rightarrow> ('d, cohort) svc" where
  "DeleteCohort c =
    bindS (exec (\<lambda>db. Some (db\<lparr>t_cohorts := filter (\<lambda>r. coh_key r \<noteq> coh_key c) (t_cohorts db),
        t_customer_cohorts := filter (\<lambda>m. (ccm_OrgId m, ccm_CohortId m) \<noteq> coh_key c) (t_customer_cohorts db)\<rparr>))) (\<lambda>_.
    retS c)"

definition AddToCohort :: "string \<Rightarrow> string \<Rightarrow> string \<Rightarrow> string \<Rightarrow> ('d, customer) svc" where
  "AddToCohort orgId customerId cohortId cohortValue =
    bindS nowS (\<lambda>now.
    bindS (exec (\<lambda>db.
      if (orgId, customerId) \<notin> cus_key ` set (t_customers db) \<or> (orgId, cohortId) \<notin> coh_key ` set (t_cohorts db) then None
      else map_option (\<lambda>rs. db\<lparr>t_customer_cohorts := rs\<rparr>)
        (insert_row (\<lambda>a b. ccm_key a = ccm_key b)
          \<lparr> ccm_OrgId = orgId, ccm_CustomerId = customerId, ccm_CohortId = cohortId, ccm_CohortValue = cohortValue,
            ccm_JoinedAt = now, ccm_CreatedAt = now, ccm_UpdatedAt = now \<rparr> (t_customer_cohorts db)))) (\<lambda>_.
    CustomerRepo_FindById orgId customerId))"

text \<open>The zero time stands for a method without an expiry.\<close>

definition expiring_method :: "time \<Rightarrow> payment_method \<Rightarrow> bool" where
  "expiring_method expiry p \<longleftrightarrow> pmd_ExpireAt p \<le> expiry \<and> 0 < pmd_ExpireAt p"

definition FindExpiringPaymentMethods :: "time \<Rightarrow> ('d, payment_method list) svc" where
  "FindExpiringPaymentMethods expiry = sel (\<lambda>db. filter (expiring_method expiry) (t_payment_methods db))"

section \<open>The service\<close>

record create_customer_input =
  cui_Email :: string
  cui_FirstName :: string
  cui_LastName :: string
  cui_BillingAddress :: address
  cui_Phone :: string
  cui_Metadata :: metadata

definition CustomerService_Create :: "string \<Rightarrow> create_customer_input \<Rightarrow> ('d, customer) svc" where
  "CustomerService_Create orgId inp =
    bindS (tryS (CustomerRepo_FindByEmail orgId (cui_Email inp)) (\<lambda>r. case r of
        Inl e \<Rightarrow> if is_not_found e then retS () else failS (NewCustomError InternalError ''Error creating customer'' (Some e))
      | Inr existing \<Rightarrow> if cus_Id existing \<noteq> [] then failS (NewCustomError BadRequestError ''Customer already exists'' None) else retS ())) (\<lambda>_.
    bindS (Generate ''cus'') (\<lambda>cid.
    bindS (CustomerRepo_Create \<lparr> cus_OrgId = orgId, cus_Id = cid, cus_ExternalId = [], cus_FirstName = cui_FirstName inp,
             cus_LastName = cui_LastName inp, cus_Email = cui_Email inp, cus_Phone = cui_Phone inp, cus_DefaultPaymentMethodId = [],
             cus_BillingAddress = cui_BillingAddress inp, cus_Metadata = cui_Metadata inp, cus_CreatedAt = 0, cus_UpdatedAt = 0 \<rparr>) (\<lambda>newCustomer.
    bindS (ignoreS (Publish orgId ''customer.created'' (MsgCustomer newCustomer))) (\<lambda>_.
    retS newCustomer))))"

record payment_method_input =
  pmi_CustomerId :: string
  pmi_PaymentMethodId :: string
  pmi_Psp :: string
  pmi_Name :: string
  pmi_Type :: string
  pmi_Details :: "string option"
  pmi_Token :: string
  pmi_IsDefault :: bool
  pmi_BillingAddress :: address
  pmi_Metadata :: metadata

definition unknown_customer :: "app_error \<Rightarrow> app_error" where
  "unknown_customer e = NewCustomError NotFoundError ''Customer not found'' (Some e)"

definition unknown_method :: "app_error \<Rightarrow> app_error" where
  "unknown_method e = NewCustomError NotFoundError ''Payment method not found'' (Some e)"

definition internal_failure :: "app_error \<Rightarrow> app_error" where
  "internal_failure e = NewCustomError InternalError ''An internal error occurred'' (Some e)"

definition GetPaymentMethod :: "string \<Rightarrow> string \<Rightarrow> ('d, payment_method) svc" where
  "GetPaymentMethod orgId pid = mapErrS unknown_method (PaymentMethodRepo_FindById orgId pid)"

definition CustomerService_Get :: "string \<Rightarrow> string \<Rightarrow> ('d, customer) svc" where
  "CustomerService_Get orgId cid = mapErrS unknown_customer (CustomerRepo_FindById orgId cid)"

text \<open>The address of the method, or else that of the customer; one of them has to be there.\<close>

definition method_address :: "address \<Rightarrow> customer \<Rightarrow> address res" where
  "method_address a c =
    (let billingAddress = (if \<not> address_IsEmpty a then a else cus_BillingAddress c) in
     if address_IsEmpty billingAddress
     then Inl (NewCustomError BadRequestError ''Either specify billing address or add a default billing address to the customer.'' None)
     else Inr billingAddress)"

definition details_expiry :: "(string \<Rightarrow> (string \<times> string) option) \<Rightarrow> string \<Rightarrow> string option \<Rightarrow> time \<Rightarrow> time res" where
  "details_expiry unmarshal ty details otherwise =
    (case details of None \<Rightarrow> Inr otherwise
     | Some d \<Rightarrow> (case ParsePaymentMethodDetails unmarshal ty d of
         Inl e \<Rightarrow> Inl (NewCustomError BadRequestError ''Invalid card details'' (Some e))
       | Inr det \<Rightarrow> Inr (GetExpiryDate det)))"

definition make_default :: "bool \<Rightarrow> customer \<Rightarrow> payment_method \<Rightarrow> ('d, unit) svc" where
  "make_default isDefault c pm =
    (if isDefault
     then bindS (mapErrS internal_failure (CustomerRepo_Update (c\<lparr>cus_DefaultPaymentMethodId := pmd_Id pm\<rparr>))) (\<lambda>_. retS ())
     else retS ())"

definition CreatePaymentMethod :: "(string \<Rightarrow> (string \<times> string) option) \<Rightarrow> string \<Rightarrow> payment_method_input \<Rightarrow> ('d, payment_method) svc" where
  "CreatePaymentMethod unmarshal orgId inp =
    bindS (mapErrS unknown_customer (CustomerRepo_FindById orgId (pmi_CustomerId inp))) (\<lambda>c.
    bindS (liftS (method_address (pmi_BillingAddress inp) c)) (\<lambda>billingAddress.
    bindS (liftS (details_expiry unmarshal (pmi_Type inp) (pmi_Details inp) 0)) (\<lambda>expireAt.
    bindS (Generate ''pm'') (\<lambda>pid.
    bindS nowS (\<lambda>createdAt.
    bindS nowS (\<lambda>updatedAt.
    bindS (mapErrS internal_failure (PaymentMethodRepo_Create
        \<lparr> pmd_OrgId = orgId, pmd_Id = pid, pmd_Status = PaymentMethodStatusActive, pmd_Psp = pmi_Psp inp, pmd_Name = pmi_Name inp,
          pmd_CustomerId = pmi_CustomerId inp, pmd_BillingAddress = billingAddress, pmd_Type = pmi_Type inp, pmd_Token = pmi_Token inp,
          pmd_Details = (case pmi_Details inp of None \<Rightarrow> [] | Some d \<Rightarrow> d), pmd_Metadata = pmi_Metadata inp, pmd_ExpireAt = expireAt,
          pmd_CreatedAt = createdAt, pmd_UpdatedAt = updatedAt \<rparr>)) (\<lambda>newPaymentMethod.
    bindS (make_default (pmi_IsDefault inp) c newPaymentMethod) (\<lambda>_.
    bindS (ignoreS (Publish orgId ''payment_method.created'' (MsgPaymentMethod newPaymentMethod))) (\<lambda>_.
    retS newPaymentMethod)))))))))"

definition changed_method :: "payment_method_input \<Rightarrow> time \<Rightarrow> payment_method \<Rightarrow> payment_method" where
  "changed_method inp expireAt pm =
    pm\<lparr>pmd_BillingAddress := (if \<not> address_IsEmpty (pmi_BillingAddress inp) then pmi_BillingAddress inp else pmd_BillingAddress pm),
       pmd_ExpireAt := expireAt,
       pmd_Token := (if pmi_Token inp \<noteq> [] then pmi_Token inp else pmd_Token pm),
       pmd_Details := (case pmi_Details inp of None \<Rightarrow> pmd_Details pm | Some d \<Rightarrow> d)\<rparr>"

definition UpdatePaymentMethod :: "(string \<Rightarrow> (string \<times> string) option) \<Rightarrow> string \<Rightarrow> payment_method_input \<Rightarrow> ('d, payment_method) svc" where
  "UpdatePaymentMethod unmarshal orgId inp =
    bindS (mapErrS unknown_customer (CustomerRepo_FindById orgId (pmi_CustomerId inp))) (\<lambda>c.
    bindS (mapErrS unknown_method (PaymentMethodRepo_FindById orgId (pmi_PaymentMethodId inp))) (\<lambda>pm.
    bindS (liftS (details_expiry unmarshal (pmi_Type inp) (pmi_Details inp) (pmd_ExpireAt pm))) (\<lambda>expireAt.
    bindS (mapErrS internal_failure (PaymentMethodRepo_Update (changed_method inp expireAt pm))) (\<lambda>newPaymentMethod.
    bindS (make_default (pmi_IsDefault inp) c newPaymentMethod) (\<lambda>_.
    bindS (ignoreS (Publish orgId ''payment_method.updated'' (MsgPaymentMethod newPaymentMethod))) (\<lambda>_.
    retS newPaymentMethod))))))"

definition publish_expired :: "unit \<Rightarrow> payment_method \<Rightarrow> ('d, unit) svc" where
  "publish_expired _ pm = ignoreS (Publish (pmd_OrgId pm) ''payment_method.expired'' (MsgPaymentMethod pm))"

text \<open>The monthly job; an error of the query is logged.\<close>

definition DetectExpiringPaymentMethods :: "('d, unit) svc" where
  "DetectExpiringPaymentMethods =
    ignoreS (bindS nowS (\<lambda>now.
      bindS (FindExpiringPaymentMethods now) (\<lambda>expiring.
      foldS publish_expired () expiring)))"

text \<open>A completed order puts its customer into the cohort of the day, in the time zone of the process.\<close>

definition CustomerService_HandleOrderEvent :: "(time \<Rightarrow> string) \<Rightarrow> string \<Rightarrow> order option \<Rightarrow> ('d, unit) svc" where
  "CustomerService_HandleOrderEvent format_day topic payload =
    (case payload of None \<Rightarrow> retS ()
     | Some ord \<Rightarrow>
        if topic = ''order.completed'' then
          ignoreS (bindS nowS (\<lambda>now. AddToCohort (ord_OrgId ord) (ord_CustomerId ord) ''signup_date'' (format_day now)))
        else retS ())"

section \<open>The records stay consistent\<close>

definition customers_ok :: "'d db \<Rightarrow> bool" where
  "customers_ok db \<longleftrightarrow>
    sorted_wrt (\<lambda>a b. \<not> cus_clash b a) (t_customers db) \<and>
    (\<forall>p\<in>set (t_payment_methods db). (pmd_OrgId p, pmd_CustomerId p) \<in> cus_key ` set (t_customers db)) \<and>
    (\<forall>c\<in>set (t_customers db). cus_DefaultPaymentMethodId c \<noteq> [] \<longrightarrow>
       (cus_OrgId c, cus_DefaultPaymentMethodId c) \<in> pmd_key ` set (t_payment_methods db)) \<and>
    (\<forall>m\<in>set (t_customer_cohorts db). (ccm_OrgId m, ccm_CustomerId m) \<in> cus_key ` set (t_customers db) \<and>
       (ccm_OrgId m, ccm_CohortId m) \<in> coh_key ` set (t_cohorts db))"

interpretation crm: guarded customers_ok
  by unfold_locales (simp add: customers_ok_def)

lemma customer_found:
  "crm.secures P (CustomerRepo_FindById a b) (\<lambda>c db. P db \<and> c \<in> set (t_customers db) \<and> cus_key c = (a, b))"
  unfolding CustomerRepo_FindById_def
  by (rule crm.secures_weaken[OF crm.secures_selOne[where P = P]]) (auto simp: cus_key_def dest!: find_row_key)

lemma method_found:
  "crm.secures P (PaymentMethodRepo_FindById a b) (\<lambda>p db. P db \<and> p \<in> set (t_payment_methods db) \<and> pmd_key p = (a, b))"
  unfolding PaymentMethodRepo_FindById_def
  by (rule crm.secures_weaken[OF crm.secures_selOne[where P = P]]) (auto dest!: find_row_key)

lemma cus_clash_sym: "cus_clash a b = cus_clash b a"
  by (auto simp: cus_clash_def col_eq_def)

lemma sorted_wrt_update:
  assumes "sorted_wrt (\<lambda>a b. \<not> cus_clash b a) rows" and "\<not> cus_taken c rows"
  shows "sorted_wrt (\<lambda>a b. \<not> cus_clash b a) (update_row cus_key cus_merge c rows)"
proof -
  have merged: "cus_clash (cus_merge old c) b = cus_clash c b" "cus_clash b (cus_merge old c) = cus_clash b c" for old b
    by (auto simp: cus_clash_def cus_merge_def)
  have free: "\<not> cus_clash c r" if "r \<in> set rows" "cus_key r \<noteq> cus_key c" "o1 \<in> set rows" "cus_key o1 = cus_key c" for r o1
  proof -
    have "cus_key c \<in> cus_key ` set rows" using that(3,4) by (metis imageI)
    then show ?thesis using assms(2) that(1,2) by (auto simp: cus_taken_def list_ex_iff)
  qed
  have once: "\<not> (cus_key a = cus_key c \<and> cus_key b = cus_key c)" if "\<not> cus_clash b a" for a b
    using that by (auto simp: cus_clash_def cus_key_def)
  have "sorted_wrt (\<lambda>a b. \<not> cus_clash (if cus_key b = cus_key c then cus_merge b c else b) (if cus_key a = cus_key c then cus_merge a c else a)) rows"
  proof (rule sorted_wrt_mono_rel[OF _ assms(1)])
    fix a b assume ab: "a \<in> set rows" "b \<in> set rows" "\<not> cus_clash b a"
    then show "\<not> cus_clash (if cus_key b = cus_key c then cus_merge b c else b) (if cus_key a = cus_key c then cus_merge a c else a)"
      using once[OF ab(3)] free[OF ab(1) _ ab(2)] free[OF ab(2) _ ab(1)] by (auto simp: merged cus_clash_sym[of _ c]) 
  qed
  then show ?thesis by (simp add: update_row_def sorted_wrt_map)
qed

lemma update_keys: "cus_key ` set (update_row cus_key cus_merge c rows) = cus_key ` set rows"
    "pmd_key ` set (update_row pmd_key pmd_merge p methods) = pmd_key ` set methods"
proof -
  have "map cus_key (update_row cus_key cus_merge c rows) = map cus_key rows"
    by (auto simp: update_row_def cus_key_def cus_merge_def)
  then show "cus_key ` set (update_row cus_key cus_merge c rows) = cus_key ` set rows" by (metis set_map)
  have "map pmd_key (update_row pmd_key pmd_merge p methods) = map pmd_key methods"
    by (auto simp: update_row_def pmd_key_def pmd_merge_def)
  then show "pmd_key ` set (update_row pmd_key pmd_merge p methods) = pmd_key ` set methods" by (metis set_map)
qed

lemma customer_created: "cus_DefaultPaymentMethodId c = [] \<Longrightarrow> crm.secures P (CustomerRepo_Create c) (\<lambda>_ _. True)"
  unfolding CustomerRepo_Create_def
  by (rule crm.secures_bind[OF crm.secures_mapErr[OF crm.secures_exec[where Q = "\<lambda>_. True"]]])
    (auto simp: customers_ok_def insert_row_def sorted_wrt_append list_ex_iff cus_clash_sym[of _ c] split: if_splits
      intro: crm.secures_weaken[OF customer_found])

lemma default_set:
  assumes "\<And>db. P db \<Longrightarrow> (cus_OrgId c, cus_DefaultPaymentMethodId c) \<in> pmd_key ` set (t_payment_methods db)"
  shows "crm.secures P (CustomerRepo_Update c) (\<lambda>_ _. True)"
  unfolding CustomerRepo_Update_def
proof (rule crm.secures_bind[OF crm.secures_mapErr[OF crm.secures_exec[where Q = "\<lambda>_. True"]]])
  fix db d assume ok: "customers_ok db" "P db"
    and d: "(if cus_taken c (t_customers db) then None else Some (db\<lparr>t_customers := update_row cus_key cus_merge c (t_customers db)\<rparr>)) = Some d"
  have old: "x \<in> set (t_customers db) \<or> (\<exists>o1. x = cus_merge o1 c)" if "x \<in> set (update_row cus_key cus_merge c (t_customers db))" for x
    using that by (auto simp: update_row_def split: if_splits)
  have d1: "\<not> cus_taken c (t_customers db)" "d = db\<lparr>t_customers := update_row cus_key cus_merge c (t_customers db)\<rparr>"
    using d by (auto split: if_splits)
  have "(cus_OrgId x, cus_DefaultPaymentMethodId x) \<in> pmd_key ` set (t_payment_methods db)"
    if x: "x \<in> set (update_row cus_key cus_merge c (t_customers db))" "cus_DefaultPaymentMethodId x \<noteq> []" for x
    using old[OF x(1)]
  proof
    assume "x \<in> set (t_customers db)"
    then show ?thesis using ok(1) x(2) by (simp add: customers_ok_def)
  next
    assume "\<exists>o1. x = cus_merge o1 c"
    then show ?thesis using assms[OF ok(2)] by (auto simp: cus_merge_def simp del: image_iff)
  qed
  then show "customers_ok d \<and> True"
    using ok(1) sorted_wrt_update[OF _ d1(1)] unfolding d1(2) customers_ok_def by (simp add: update_keys)
qed (rule crm.secures_weaken[OF customer_found], auto)


lemma method_created:
  assumes "\<And>db. P db \<Longrightarrow> (pmd_OrgId p, pmd_CustomerId p) \<in> cus_key ` set (t_customers db)"
  shows "crm.secures P (PaymentMethodRepo_Create p) (\<lambda>q db. q \<in> set (t_payment_methods db) \<and> pmd_key q = pmd_key p)"
  unfolding PaymentMethodRepo_Create_def
proof (rule crm.secures_bind[OF crm.secures_exec[where Q = "\<lambda>_. True"]])
  fix db d assume "customers_ok db" "P db"
    and "map_option (\<lambda>rs. db\<lparr>t_payment_methods := rs\<rparr>) (insert_row (\<lambda>a b. pmd_key a = pmd_key b) p (t_payment_methods db)) = Some d"
  then show "customers_ok d \<and> True" using assms by (auto simp: customers_ok_def insert_row_def split: if_splits)
qed (rule crm.secures_weaken[OF method_found], auto simp: pmd_key_def)

text \<open>A method that was read is written back for the same customer.\<close>

lemma method_kept:
  assumes "\<And>db. P db \<Longrightarrow> q \<in> set (t_payment_methods db)" and "pmd_OrgId p = pmd_OrgId q" "pmd_CustomerId p = pmd_CustomerId q"
  shows "crm.secures P (PaymentMethodRepo_Update p) (\<lambda>q db. q \<in> set (t_payment_methods db) \<and> pmd_key q = pmd_key p)"
  unfolding PaymentMethodRepo_Update_def
proof (rule crm.secures_bind[OF crm.secures_exec[where Q = "\<lambda>_. True"]])
  fix db d assume "customers_ok db" "P db"
    and "Some (db\<lparr>t_payment_methods := update_row pmd_key pmd_merge p (t_payment_methods db)\<rparr>) = Some d"
  moreover have "x \<in> set (t_payment_methods db) \<or> (\<exists>old. x = pmd_merge old p)"
    if "x \<in> set (update_row pmd_key pmd_merge p (t_payment_methods db))" for x
    using that by (auto simp: update_row_def split: if_splits)
  moreover have "(pmd_OrgId p, pmd_CustomerId p) \<in> cus_key ` set (t_customers db)"
    using \<open>customers_ok db\<close> assms(1)[OF \<open>P db\<close>] assms(2,3) by (simp add: customers_ok_def)
  ultimately show "customers_ok d \<and> True"
    by (fastforce simp: customers_ok_def update_keys pmd_merge_def)
qed (rule crm.secures_weaken[OF method_found], auto simp: pmd_key_def)

lemma secures_make_default:
  assumes "\<And>db. P db \<Longrightarrow> (cus_OrgId c, pmd_Id pm) \<in> pmd_key ` set (t_payment_methods db)"
  shows "crm.secures P (make_default d c pm) (\<lambda>_ _. True)"
  unfolding make_default_def
  by (auto intro!: crm.secures_bind[OF crm.secures_mapErr[OF default_set]] crm.secures_ret simp: assms)

text \<open>A method that was created or changed is published and handed back.\<close>

lemma secures_finish: "crm.secures P (bindS (ignoreS (Publish a t m)) (\<lambda>_. retS x)) (\<lambda>_ _. True)"
  by (rule crm.secures_bind[OF crm.secures_publish]) (rule crm.secures_ret, simp)

lemma secures_Create: "crm.secures (\<lambda>_. True) (CustomerService_Create a inp) (\<lambda>_ _. True)"
proof -
  have "crm.secures (\<lambda>_. True) (tryS (CustomerRepo_FindByEmail a (cui_Email inp)) (\<lambda>r. case r of
        Inl e \<Rightarrow> if is_not_found e then retS () else failS (NewCustomError InternalError ''Error creating customer'' (Some e))
      | Inr existing \<Rightarrow> if cus_Id existing \<noteq> [] then failS (NewCustomError BadRequestError ''Customer already exists'' None) else retS ())) (\<lambda>_ _. True)"
    unfolding CustomerRepo_FindByEmail_def
    by (rule crm.secures_try[OF crm.secures_selOne]) (auto intro: crm.secures_ret crm.secures_fail)
  then show ?thesis unfolding CustomerService_Create_def
    by (rule crm.secures_bind) (rule crm.secures_bind[OF crm.secures_Generate] crm.secures_bind[OF customer_created] secures_finish | simp)+
qed

lemma customer_key: "c \<in> set (t_customers db) \<and> cus_key c = k \<Longrightarrow> k \<in> cus_key ` set (t_customers db)"
  by (metis imageI)

lemma method_key: "q \<in> set ms \<and> pmd_key q = pmd_key p \<Longrightarrow> o1 = pmd_OrgId p \<Longrightarrow> (o1, pmd_Id q) \<in> pmd_key ` set ms"
  by (rule image_eqI[of _ _ q]) (auto simp: pmd_key_def)

lemma secures_CreateMethod: "crm.secures (\<lambda>_. True) (CreatePaymentMethod u a inp) (\<lambda>_ _. True)"
  unfolding CreatePaymentMethod_def
  apply (rule crm.secures_bind[OF crm.secures_mapErr[OF customer_found]])
  subgoal for c
    apply (rule crm.secures_pure[where G = "cus_OrgId c = a"])
     apply (simp add: cus_key_def)
    apply (rule crm.secures_bind[OF crm.secures_lift])+
    apply (rule crm.secures_bind[OF crm.secures_Generate])
    apply (rule crm.secures_bind[OF crm.secures_now])+
    apply (rule crm.secures_bind[OF crm.secures_mapErr[OF method_created]])
     apply (simp, erule customer_key)
    apply (rule crm.secures_bind[OF secures_make_default])
     apply (erule method_key, simp)
    apply (rule secures_finish)
    done
  done

lemma changed_method_keys: "pmd_OrgId (changed_method inp t pm) = pmd_OrgId pm" "pmd_Id (changed_method inp t pm) = pmd_Id pm"
    "pmd_CustomerId (changed_method inp t pm) = pmd_CustomerId pm"
  by (simp_all add: changed_method_def)

lemma secures_UpdateMethod: "crm.secures (\<lambda>_. True) (UpdatePaymentMethod u a inp) (\<lambda>_ _. True)"
  unfolding UpdatePaymentMethod_def
  apply (rule crm.secures_bind[OF crm.secures_mapErr[OF customer_found]])
  subgoal for c
    apply (rule crm.secures_pure[where G = "cus_OrgId c = a"])
     apply (simp add: cus_key_def)
    apply (rule crm.secures_bind[OF crm.secures_mapErr[OF method_found]])
    subgoal for pm
      apply (rule crm.secures_pure[where G = "pmd_OrgId pm = a"])
       apply (simp add: pmd_key_def)
      apply (rule crm.secures_bind[OF crm.secures_lift])
      subgoal for t
        apply (rule crm.secures_bind[OF crm.secures_mapErr[OF method_kept[where q = pm]]])
           apply blast
          apply (rule changed_method_keys)+
        apply (rule crm.secures_bind[OF secures_make_default])
         apply (erule method_key, simp add: changed_method_keys)
        apply (rule secures_finish)
        done
      done
    done
  done

lemma secures_expiring: "crm.secures (\<lambda>_. True) DetectExpiringPaymentMethods (\<lambda>_ _. True)"
  unfolding DetectExpiringPaymentMethods_def FindExpiringPaymentMethods_def
  by (intro crm.secures_ignore crm.secures_bind[OF crm.secures_now] crm.secures_bind[OF crm.secures_sel] crm.secures_weaken[OF crm.secures_foldS])
    (auto simp: publish_expired_def intro: crm.secures_weaken[OF crm.secures_publish])

lemma secures_AddToCohort: "crm.secures (\<lambda>_. True) (AddToCohort a c k v) (\<lambda>_ _. True)"
  unfolding AddToCohort_def CustomerRepo_FindById_def
  by (rule crm.secures_bind[OF crm.secures_now], rule crm.secures_bind[OF crm.secures_exec[where Q = "\<lambda>_. True"]])
    (auto simp: customers_ok_def insert_row_def split: if_splits intro: crm.secures_weaken[OF crm.secures_selOne])

lemma secures_order_event: "crm.secures (\<lambda>_. True) (CustomerService_HandleOrderEvent f topic payload) (\<lambda>_ _. True)"
  unfolding CustomerService_HandleOrderEvent_def
  by (auto split: option.splits intro!: crm.secures_ret crm.secures_ignore crm.secures_bind[OF crm.secures_now] secures_AddToCohort)

lemma key_left: "k \<noteq> k0 \<Longrightarrow> k \<in> key ` {r \<in> rows. key r \<noteq> k0} \<longleftrightarrow> k \<in> key ` rows"
  by auto

lemma cohort_deleted:
  assumes "customers_ok db"
  shows "customers_ok (db\<lparr>t_cohorts := filter (\<lambda>r. coh_key r \<noteq> coh_key k) (t_cohorts db),
      t_customer_cohorts := filter (\<lambda>m. (ccm_OrgId m, ccm_CohortId m) \<noteq> coh_key k) (t_customer_cohorts db)\<rparr>)"
  using assms unfolding customers_ok_def by (simp add: key_left)

lemma secures_cohorts:
  "crm.secures (\<lambda>_. True) (CreateCohort k) (\<lambda>_ _. True)" "crm.secures (\<lambda>_. True) (UpdateCohort k) (\<lambda>_ _. True)"
  "crm.secures (\<lambda>_. True) (DeleteCohort k) (\<lambda>_ _. True)"
proof -
  have u: "coh_key ` set (update_row coh_key coh_merge k rows) = coh_key ` set rows" for rows
  proof -
    have "map coh_key (update_row coh_key coh_merge k rows) = map coh_key rows"
      by (auto simp: update_row_def coh_key_def coh_merge_def)
    then show ?thesis by (metis set_map)
  qed
  show "crm.secures (\<lambda>_. True) (CreateCohort k) (\<lambda>_ _. True)" "crm.secures (\<lambda>_. True) (UpdateCohort k) (\<lambda>_ _. True)"
    unfolding CreateCohort_def UpdateCohort_def FindCohortById_def
    by (rule crm.secures_bind[OF crm.secures_exec[where Q = "\<lambda>_. True"]],
        auto simp: customers_ok_def insert_row_def u split: if_splits intro: crm.secures_weaken[OF crm.secures_selOne])+
  show "crm.secures (\<lambda>_. True) (DeleteCohort k) (\<lambda>_ _. True)"
    unfolding DeleteCohort_def
    by (rule crm.secures_bind[OF crm.secures_exec[where Q = "\<lambda>_. True"]]) (auto intro: crm.secures_ret cohort_deleted)
qed

text \<open>What a tenant, the scheduler and the events do to the customers.\<close>

datatype customer_op =
    Op_CreateCustomer string create_customer_input
  | Op_CreateMethod string payment_method_input
  | Op_UpdateMethod string payment_method_input
  | Op_DetectExpiring
  | Op_OrderEvent string "order option"
  | Op_CreateCohort cohort
  | Op_UpdateCohort cohort
  | Op_DeleteCohort cohort

fun customer_run :: "(string \<Rightarrow> (string \<times> string) option) \<Rightarrow> (time \<Rightarrow> string) \<Rightarrow> customer_op \<Rightarrow> 'd world \<Rightarrow> 'd world" where
  "customer_run u f (Op_CreateCustomer a x) w = snd (CustomerService_Create a x w)"
| "customer_run u f (Op_CreateMethod a x) w = snd (CreatePaymentMethod u a x w)"
| "customer_run u f (Op_UpdateMethod a x) w = snd (UpdatePaymentMethod u a x w)"
| "customer_run u f Op_DetectExpiring w = snd (DetectExpiringPaymentMethods w)"
| "customer_run u f (Op_OrderEvent t p) w = snd (CustomerService_HandleOrderEvent f t p w)"
| "customer_run u f (Op_CreateCohort k) w = snd (CreateCohort k w)"
| "customer_run u f (Op_UpdateCohort k) w = snd (UpdateCohort k w)"
| "customer_run u f (Op_DeleteCohort k) w = snd (DeleteCohort k w)"

lemma customer_run_keeps: "customers_ok (w_db w) \<Longrightarrow> customers_ok (w_db (customer_run u f op w))"
  by (cases op) (auto intro: crm.secures_keeps[OF secures_Create] crm.secures_keeps[OF secures_CreateMethod] crm.secures_keeps[OF secures_UpdateMethod]
      crm.secures_keeps[OF secures_expiring] crm.secures_keeps[OF secures_order_event] crm.secures_keeps[OF secures_cohorts(1)]
      crm.secures_keeps[OF secures_cohorts(2)] crm.secures_keeps[OF secures_cohorts(3)])

text \<open>C38: Whatever is done to the customers of all organisations, in any order and with any statement
  failing: two customers of an organisation share neither identifier nor address nor external
  id, each payment method has its customer, a default payment method exists, and an entry of a
  cohort refers to rows that are there.\<close>

theorem customers_consistent:
  assumes "customers_ok (w_db w)"
  shows "customers_ok (w_db (fold (customer_run u f) ops w))"
  using assms by (induction ops arbitrary: w) (simp_all add: customer_run_keeps)

section \<open>Examples\<close>

definition new_customer :: "string \<Rightarrow> create_customer_input" where
  "new_customer email = \<lparr> cui_Email = email, cui_FirstName = [], cui_LastName = [], cui_BillingAddress = zero_address\<lparr>adr_City := ''Accra''\<rparr>,
     cui_Phone = [], cui_Metadata = Map.empty \<rparr>"

definition new_method :: "string \<Rightarrow> payment_method_input" where
  "new_method cid = \<lparr> pmi_CustomerId = cid, pmi_PaymentMethodId = [], pmi_Psp = ''Paystack'', pmi_Name = [], pmi_Type = ''card'',
     pmi_Details = Some ''06/2025'', pmi_Token = ''t'', pmi_IsDefault = True, pmi_BillingAddress = zero_address, pmi_Metadata = Map.empty \<rparr>"

definition june :: "string \<Rightarrow> (string \<times> string) option" where
  "june d = Some (''06'', ''2025'')"

text \<open>Two customers; the second has a payment method, its default.\<close>

definition two_customers :: "rat world" where
  "two_customers = fold (customer_run june (\<lambda>_. ''day''))
     [Op_CreateCustomer ''o'' (new_customer ''a''), Op_CreateCustomer ''o'' (new_customer ''b''), Op_CreateMethod ''o'' (new_method ''cus_kk'')]
     (world_of empty_db int)"

theorem customers_consistent_witness:
  "customers_ok (w_db two_customers) \<and> length (t_customers (w_db two_customers)) = 2 \<and>
   map cus_DefaultPaymentMethodId (t_customers (w_db two_customers)) = [[], map pmd_Id (t_payment_methods (w_db two_customers)) ! 0]"
proof (intro conjI)
  have "customers_ok (w_db (world_of empty_db int :: rat world))" by (simp add: customers_ok_def world_of_def empty_db_def)
  from customers_consistent[OF this] show "customers_ok (w_db two_customers)" unfolding two_customers_def .
  show "length (t_customers (w_db two_customers)) = 2" by code_simp
  show "map cus_DefaultPaymentMethodId (t_customers (w_db two_customers)) = [[], map pmd_Id (t_payment_methods (w_db two_customers)) ! 0]"
    by code_simp
qed

text \<open>The method of one customer becomes the default of another: the two are only required to be of one organisation.\<close>

theorem foreign_default:
  "case UpdatePaymentMethod june ''o'' ((new_method ''cus_'')\<lparr>pmi_PaymentMethodId := ''pm_kkkk''\<rparr>) two_customers of
    (r, w) \<Rightarrow> \<not> isl r \<and> map (\<lambda>c. (cus_Email c, cus_DefaultPaymentMethodId c)) (t_customers (w_db w)) = [(''a'', ''pm_kkkk''), (''b'', ''pm_kkkk'')] \<and>
      map pmd_CustomerId (t_payment_methods (w_db w)) = [''cus_kk'']"
  by code_simp

text \<open>A card is good through the month printed on it; its method expires as that month begins.\<close>

theorem expires_a_month_early:
  "case CreatePaymentMethod june ''o'' (new_method ''cus_'') two_customers of
    (Inl _, _) \<Rightarrow> False | (Inr p, _) \<Rightarrow> pmd_ExpireAt p = go_Date 2025 6 1 0 0 0 0"
  by code_simp

text \<open>The status of an expired method never changes, so that every run of the job reports it again.\<close>

theorem expiry_reported_again:
  "let w = two_customers\<lparr>w_clock := (\<lambda>_. go_Date 2025 7 1 3 0 0 0)\<rparr>;
       w2 = snd (DetectExpiringPaymentMethods (snd (DetectExpiringPaymentMethods w)))
   in length (filter (\<lambda>e. obx_Topic e = ''payment_method.expired'') (t_outbox (w_db w2))) = 2 \<and>
      map pmd_Status (t_payment_methods (w_db w2)) = [PaymentMethodStatusActive]"
  by code_simp

end
