(* ===== verification/Secrets.thy ===== *)
theory Secrets
  imports Effects
begin

text \<open>
  The secret credentials of a payment gateway: sealed when a gateway is configured (psp.go) and
  opened only where the gateway is used (factory.go), with the envelope of
  src/internal/adapter/crypto/aesgcm.go.  The block cipher is a pair of functions, Seal and Open,
  whose laws are those of authenticated encryption; base64 is written out.  The lemmas show
  that what was sealed is what is opened, under a key of any version that is still known, and
  that an envelope opens for no other organisation or gateway.
\<close>

section \<open>Base64\<close>

definition b64_alphabet :: string where
  "b64_alphabet = ''ABCDEFGHIJKLMNOPQRSTUVWXYZabcdefghijklmnopqrstuvwxyz0123456789+/''"

definition b64_char :: "nat \<Rightarrow> char" where
  "b64_char n = b64_alphabet ! (n mod 64)"

definition b64_value :: "char \<Rightarrow> nat option" where
  "b64_value c = (let n = length (takeWhile (\<lambda>x. x \<noteq> c) b64_alphabet) in if n < 64 then Some n else None)"

text \<open>Three bytes are four characters; the last group is padded.\<close>

fun b64_encode :: "string \<Rightarrow> string" where
  "b64_encode [] = []"
| "b64_encode [a] =
    (let v = of_char a * 65536 in [b64_char (v div 262144), b64_char (v div 4096), CHR ''='', CHR ''=''])"
| "b64_encode [a, b] =
    (let v = of_char a * 65536 + of_char b * 256
     in [b64_char (v div 262144), b64_char (v div 4096), b64_char (v div 64), CHR ''=''])"
| "b64_encode (a # b # c # rest) =
    (let v = of_char a * 65536 + of_char b * 256 + of_char c
     in [b64_char (v div 262144), b64_char (v div 4096), b64_char (v div 64), b64_char v] @ b64_encode rest)"

definition b64_byte :: "nat \<Rightarrow> char" where
  "b64_byte n = char_of (n mod 256)"

text \<open>Groups of four; a padded group is the last one.\<close>

fun b64_groups :: "string \<Rightarrow> string option" where
  "b64_groups [] = Some []"
| "b64_groups (a # b # c # d # rest) =
    (case (b64_value a, b64_value b) of
       (Some p, Some q) \<Rightarrow>
         if c = CHR ''='' then
           (if d = CHR ''='' \<and> rest = [] then Some [b64_byte ((p * 262144 + q * 4096) div 65536)] else None)
         else (case b64_value c of
             None \<Rightarrow> None
           | Some r \<Rightarrow>
               if d = CHR ''='' then
                 (if rest = [] then Some [b64_byte ((p * 262144 + q * 4096 + r * 64) div 65536), b64_byte ((p * 262144 + q * 4096 + r * 64) div 256)]
                  else None)
               else (case b64_value d of
                   None \<Rightarrow> None
                 | Some s \<Rightarrow>
                     (let v = p * 262144 + q * 4096 + r * 64 + s
                      in map_option (\<lambda>out. [b64_byte (v div 65536), b64_byte (v div 256), b64_byte v] @ out) (b64_groups rest))))
     | _ \<Rightarrow> None)"
| "b64_groups _ = None"

text \<open>Line breaks are skipped.\<close>

definition b64_decode :: "string \<Rightarrow> string option" where
  "b64_decode cs = b64_groups (filter (\<lambda>c. c \<noteq> CHR 0x0A \<and> c \<noteq> CHR 0x0D) cs)"

lemma takeWhile_nth: "distinct xs \<Longrightarrow> i < length xs \<Longrightarrow> length (takeWhile (\<lambda>x. x \<noteq> xs ! i) xs) = i"
  by (induction xs arbitrary: i) (auto simp: nth_Cons split: nat.splits)

lemma alphabet: "length b64_alphabet = 64" "distinct b64_alphabet"
  by (simp_all add: b64_alphabet_def)

lemma b64_value_char: "b64_value (b64_char n) = Some (n mod 64)"
  using takeWhile_nth[OF alphabet(2), of "n mod 64"] by (simp add: b64_value_def b64_char_def alphabet(1) Let_def)

lemma b64_char_plain: "b64_char n \<noteq> CHR ''=''" "b64_char n \<noteq> CHR 0x0A" "b64_char n \<noteq> CHR 0x0D"
proof -
  have "b64_char n \<in> set b64_alphabet" by (simp add: b64_char_def alphabet(1))
  moreover have "CHR ''='' \<notin> set b64_alphabet" "CHR 0x0A \<notin> set b64_alphabet" "CHR 0x0D \<notin> set b64_alphabet"
    by (simp_all add: b64_alphabet_def)
  ultimately show "b64_char n \<noteq> CHR ''=''" "b64_char n \<noteq> CHR 0x0A" "b64_char n \<noteq> CHR 0x0D" by metis+
qed

lemma b64_byte_of: "b64_byte (k * 256 + of_char c) = c"
  unfolding b64_byte_def by (simp add: mod_simps)

text \<open>A number below 2 to the 24th is put together again from its four sextets.\<close>

lemma sextets:
  fixes v :: nat
  assumes "v < 16777216"
  shows "(v div 262144) mod 64 * 262144 + (v div 4096) mod 64 * 4096 + (v div 64) mod 64 * 64 + v mod 64 = v"
proof -
  have lin: "v = q1 * 64 + r0 \<Longrightarrow> q1 = q2 * 64 + r1 \<Longrightarrow> q2 = q3 * 64 + r2 \<Longrightarrow> q3 * 262144 + r2 * 4096 + r1 * 64 + r0 = v"
    for q1 q2 q3 r0 r1 r2 :: nat by simp
  have "v div 262144 mod 64 = v div 262144" using assms by simp
  moreover have "v div 64 = v div 4096 * 64 + v div 64 mod 64" "v div 4096 = v div 262144 * 64 + v div 4096 mod 64"
    using div_mult_mod_eq[of "v div 64" 64] div_mult_mod_eq[of "v div 4096" 64] by (simp_all flip: div_mult2_eq)
  moreover have "v = v div 64 * 64 + v mod 64" by simp
  ultimately show ?thesis using lin by metis
qed

lemma sextets_high:
  fixes v :: nat
  assumes "v < 16777216"
  shows "64 dvd v \<Longrightarrow> (v div 262144) mod 64 * 262144 + (v div 4096) mod 64 * 4096 + (v div 64) mod 64 * 64 = v"
    and "4096 dvd v \<Longrightarrow> (v div 262144) mod 64 * 262144 + (v div 4096) mod 64 * 4096 = v"
proof -
  show "64 dvd v \<Longrightarrow> (v div 262144) mod 64 * 262144 + (v div 4096) mod 64 * 4096 + (v div 64) mod 64 * 64 = v"
    using sextets[OF assms] by (simp only: dvd_eq_mod_eq_0 add_0_right)
  assume "4096 dvd v"
  then have "v div 64 mod 64 = 0 \<and> v mod 64 = 0"
    using mod_mult2_eq[of v 64 64] by (simp add: dvd_eq_mod_eq_0)
  then show "(v div 262144) mod 64 * 262144 + (v div 4096) mod 64 * 4096 = v"
    using sextets[OF assms] by (simp only: mult_0 add_0_right simp_thms)
qed

lemma groups_of_number:
  assumes "v < 16777216"
  shows "4096 dvd v \<Longrightarrow> b64_groups [b64_char (v div 262144), b64_char (v div 4096), CHR ''='', CHR ''=''] = Some [b64_byte (v div 65536)]"
    and "64 dvd v \<Longrightarrow> b64_groups [b64_char (v div 262144), b64_char (v div 4096), b64_char (v div 64), CHR ''=''] =
      Some [b64_byte (v div 65536), b64_byte (v div 256)]"
    and "b64_groups (b64_char (v div 262144) # b64_char (v div 4096) # b64_char (v div 64) # b64_char v # rest) =
      map_option (\<lambda>out. [b64_byte (v div 65536), b64_byte (v div 256), b64_byte v] @ out) (b64_groups rest)"
  using sextets[OF assms] sextets_high[OF assms]
  by (simp_all only: b64_groups.simps b64_value_char b64_char_plain option.case prod.case if_True if_False Let_def simp_thms)

lemma bytes_of_number:
  fixes a b c :: char
  defines "v \<equiv> of_char a * 65536 + of_char b * 256 + of_char c :: nat"
  shows "v < 16777216" "b64_byte (v div 65536) = a" "b64_byte (v div 256) = b" "b64_byte v = c"
proof -
  have low: "(k * 256 + of_char x) div 256 = k" for k :: nat and x :: char
    by (simp add: div_add1_eq)
  have "v = (of_char a * 256 + of_char b) * 256 + of_char c" by (simp add: v_def)
  then have "v div 256 = of_char a * 256 + of_char b" by (simp only: low)
  moreover have "v div 65536 = v div 256 div 256" using div_mult2_eq[of v 256 256] by simp
  ultimately have "v div 65536 = of_char a" "v div 256 = of_char a * 256 + of_char b" by (simp_all only: low)
  then show "b64_byte (v div 65536) = a" "b64_byte (v div 256) = b"
    using b64_byte_of[of 0 a] b64_byte_of[of "of_char a" b] by simp_all
  have "v = (of_char a * 256 + of_char b) * 256 + of_char c" by (simp add: v_def)
  then show "b64_byte v = c" by (simp only: b64_byte_of)
  have byte: "of_char x \<le> (255 :: nat)" for x :: char using nat_of_char_less_256[of x] by linarith
  show "v < 16777216"
    unfolding v_def using byte[of a] byte[of b] byte[of c] by linarith
qed

lemma zero_char: "of_char CHR 0x00 = (0 :: nat)"
  by simp

lemma b64_groups_encode: "b64_groups (b64_encode xs) = Some xs"
proof (induction xs rule: b64_encode.induct)
  case (2 a)
  let ?v = "of_char a * 65536 :: nat"
  have d: "4096 dvd ?v" by (intro dvd_mult) simp
  have "?v < 16777216" "b64_byte (?v div 65536) = a" using bytes_of_number(1,2)[of a "CHR 0x00" "CHR 0x00", unfolded zero_char mult_0 add_0_right] by blast+
  with groups_of_number(1)[OF this(1) d] show ?case by (simp only: b64_encode.simps Let_def)
next
  case (3 a b)
  let ?v = "of_char a * 65536 + of_char b * 256 :: nat"
  have d: "64 dvd ?v" by (intro dvd_add dvd_mult) simp_all
  have "?v < 16777216" "b64_byte (?v div 65536) = a" "b64_byte (?v div 256) = b"
    using bytes_of_number(1,2,3)[of a b "CHR 0x00", unfolded zero_char add_0_right] by blast+
  with groups_of_number(2)[OF this(1) d] show ?case by (simp only: b64_encode.simps Let_def)
next
  case (4 a b c rest)
  show ?case
    using groups_of_number(3)[OF bytes_of_number(1)[of a b c], of "b64_encode rest"] 4 bytes_of_number(2,3,4)[of a b c]
    by (simp only: b64_encode.simps Let_def append.simps option.map)
qed simp

lemma b64_encode_plain: "c \<in> set (b64_encode xs) \<Longrightarrow> c \<noteq> CHR 0x0A \<and> c \<noteq> CHR 0x0D"
  by (induction xs rule: b64_encode.induct) (auto simp: Let_def b64_char_plain)

lemma b64_decode_encode [simp]: "b64_decode (b64_encode xs) = Some xs"
proof -
  have "filter (\<lambda>c. c \<noteq> CHR 0x0A \<and> c \<noteq> CHR 0x0D) (b64_encode xs) = b64_encode xs"
    using b64_encode_plain by (simp add: filter_id_conv)
  then show ?thesis by (simp add: b64_decode_def b64_groups_encode)
qed

section \<open>Envelopes\<close>

text \<open>
  A block cipher in an authenticated mode under one key: Seal of a nonce, a plaintext and the
  data it is bound to, and Open, which fails unless all of them are those that were sealed.
\<close>

record aead =
  aed_Seal :: "string \<Rightarrow> string \<Rightarrow> string \<Rightarrow> string"
  aed_Open :: "string \<Rightarrow> string \<Rightarrow> string \<Rightarrow> string option"

record aes_gcm_cipher =
  agc_current :: char
  agc_keys :: "char \<rightharpoonup> aead"

definition nonceSize :: nat where
  "nonceSize = 12"

definition aad :: "string \<Rightarrow> string \<Rightarrow> string" where
  "aad orgId cid = orgId @ '':'' @ cid"

text \<open>The key has to be 32 bytes; the library that makes a cipher of it is a parameter.\<close>

definition NewAesGcmCipher :: "(string \<Rightarrow> aead res) \<Rightarrow> string \<Rightarrow> aes_gcm_cipher res" where
  "NewAesGcmCipher newAead base64Key =
    (case b64_decode base64Key of
       None \<Rightarrow> Inl (InfraError ''SECRETS_ENCRYPTION_KEY is not valid base64'')
     | Some key \<Rightarrow>
        if length key \<noteq> 32 then Inl (InfraError ''SECRETS_ENCRYPTION_KEY must decode to 32 bytes'')
        else (case newAead key of Inl e \<Rightarrow> Inl e
              | Inr a \<Rightarrow> Inr \<lparr> agc_current = CHR 0x01, agc_keys = [CHR 0x01 \<mapsto> a] \<rparr>))"

text \<open>The random bytes are an input; a cipher without its current key is a nil dereference.\<close>

definition cipher_Encrypt :: "aes_gcm_cipher \<Rightarrow> string res \<Rightarrow> string \<Rightarrow> string \<Rightarrow> string \<Rightarrow> string res" where
  "cipher_Encrypt c random orgId cid plaintext =
    (case random of Inl e \<Rightarrow> Inl e
     | Inr nonce \<Rightarrow>
        (case agc_keys c (agc_current c) of
           None \<Rightarrow> Inl (InfraError ''nil pointer dereference'')
         | Some a \<Rightarrow> Inr (b64_encode ([agc_current c] @ nonce @ aed_Seal a nonce plaintext (aad orgId cid)))))"

definition cipher_Decrypt :: "aes_gcm_cipher \<Rightarrow> string \<Rightarrow> string \<Rightarrow> string \<Rightarrow> string res" where
  "cipher_Decrypt c orgId cid envelope =
    (case b64_decode envelope of
       None \<Rightarrow> Inl (InfraError ''credentials envelope is not valid base64'')
     | Some raw \<Rightarrow>
        if length raw < 1 + nonceSize + 1 then Inl (InfraError ''credentials envelope is truncated'')
        else (case agc_keys c (raw ! 0) of
            None \<Rightarrow> Inl (InfraError ''credentials envelope has unknown key version'')
          | Some a \<Rightarrow>
              (case aed_Open a (take nonceSize (drop 1 raw)) (drop (1 + nonceSize) raw) (aad orgId cid) of
                 None \<Rightarrow> Inl (InfraError ''credentials envelope failed authentication'')
               | Some plaintext \<Rightarrow> Inr plaintext)))"

section \<open>Gateways\<close>

definition psp_key :: "psp_config \<Rightarrow> string \<times> string" where
  "psp_key p = (psp_OrgId p, psp_Id p)"

definition PspRepo_FindById :: "string \<Rightarrow> string \<Rightarrow> ('d, psp_config) svc" where
  "PspRepo_FindById orgId pid = selOne (\<lambda>db. find_row psp_key (orgId, pid) (t_gateways db))"

definition PspRepo_Create :: "psp_config \<Rightarrow> ('d, psp_config) svc" where
  "PspRepo_Create p =
    bindS (exec (\<lambda>db. map_option (\<lambda>rs. db\<lparr>t_gateways := rs\<rparr>) (insert_row (\<lambda>a b. psp_key a = psp_key b) p (t_gateways db)))) (\<lambda>_.
    PspRepo_FindById (psp_OrgId p) (psp_Id p))"

record create_gateway_input =
  cgi_OrgId :: string
  cgi_PspId :: string
  cgi_Name :: string
  cgi_Config :: metadata
  cgi_Credentials :: "(string \<times> string) list"

text \<open>The credentials as a list of keys and values; encoding them as JSON is a parameter.\<close>

definition CreateGateway ::
    "aes_gcm_cipher \<Rightarrow> ((string \<times> string) list \<Rightarrow> string res) \<Rightarrow> string res \<Rightarrow> create_gateway_input \<Rightarrow> ('d, psp_config) svc" where
  "CreateGateway c marshal random inp =
    (if cgi_Credentials inp = [] then failS (NewCustomError BadRequestError ''credentials are required'' None)
     else
      bindS (Generate ''psp'') (\<lambda>pid.
      bindS (liftS (marshal (cgi_Credentials inp))) (\<lambda>credsJson.
      bindS (liftS (cipher_Encrypt c random (cgi_OrgId inp) pid credsJson)) (\<lambda>envelope.
      PspRepo_Create \<lparr> psp_OrgId = cgi_OrgId inp, psp_Id = pid, psp_PspId = cgi_PspId inp, psp_Name = cgi_Name inp, psp_Active = True,
        psp_Config = cgi_Config inp, psp_EncryptedCredentials = envelope, psp_CreatedAt = 0, psp_UpdatedAt = 0 \<rparr>))))"

definition DecryptGatewayCredentials ::
    "aes_gcm_cipher option \<Rightarrow> (string \<Rightarrow> (string \<times> string) list res) \<Rightarrow> psp_config \<Rightarrow> (string \<times> string) list res" where
  "DecryptGatewayCredentials c unmarshal psp =
    (if psp_EncryptedCredentials psp = [] then Inr []
     else (case c of
         None \<Rightarrow> Inl (NewCustomError InternalError ''SECRETS_ENCRYPTION_KEY is not configured; cannot open gateway credentials'' None)
       | Some c \<Rightarrow> (case cipher_Decrypt c (psp_OrgId psp) (psp_Id psp) (psp_EncryptedCredentials psp) of
            Inl e \<Rightarrow> Inl e | Inr plaintext \<Rightarrow> unmarshal plaintext)))"

text \<open>The adapters by their provider; each makes a gateway of the settings and the credentials.\<close>

definition GatewayFactory_NewGateway ::
    "aes_gcm_cipher option \<Rightarrow> (string \<Rightarrow> (string \<times> string) list res) \<Rightarrow> (string \<rightharpoonup> (metadata \<Rightarrow> (string \<times> string) list \<Rightarrow> 'g res)) \<Rightarrow>
     string \<Rightarrow> string \<Rightarrow> ('d, 'g) svc" where
  "GatewayFactory_NewGateway c unmarshal adapters orgId pid =
    bindS (PspRepo_FindById orgId pid) (\<lambda>psp.
    bindS (liftS (DecryptGatewayCredentials c unmarshal psp)) (\<lambda>creds.
    case adapters (psp_PspId psp) of
      None \<Rightarrow> failS (NewCustomError BadRequestError ''Invalid payment processor'' None)
    | Some adapter \<Rightarrow> liftS (adapter (psp_Config psp) creds)))"

section \<open>What was sealed is opened, and only there\<close>

text \<open>The documented laws of an authenticated mode, for one key.\<close>

definition aead_ok :: "aead \<Rightarrow> bool" where
  "aead_ok a \<longleftrightarrow> (\<forall>n p d d1. aed_Seal a n p d \<noteq> [] \<and> aed_Open a n (aed_Seal a n p d) d1 = (if d1 = d then Some p else None))"

lemma decrypt_encrypt:
  assumes e: "cipher_Encrypt c (Inr nonce) o1 i1 plain = Inr env" and n: "length nonce = nonceSize"
    and k: "agc_keys c \<subseteq>\<^sub>m agc_keys c2" and ok: "\<And>v a. agc_keys c2 v = Some a \<Longrightarrow> aead_ok a"
  shows "cipher_Decrypt c2 o2 i2 env =
    (if aad o2 i2 = aad o1 i1 then Inr plain else Inl (InfraError ''credentials envelope failed authentication''))"
proof -
  obtain a where a: "agc_keys c (agc_current c) = Some a"
    and env: "env = b64_encode ([agc_current c] @ nonce @ aed_Seal a nonce plain (aad o1 i1))"
    using e by (auto simp: cipher_Encrypt_def split: option.splits)
  have a2: "agc_keys c2 (agc_current c) = Some a" using k a by (metis domI map_le_def)
  from ok[OF a2] have l: "aed_Seal a nonce plain (aad o1 i1) \<noteq> []"
    "aed_Open a nonce (aed_Seal a nonce plain (aad o1 i1)) (aad o2 i2) = (if aad o2 i2 = aad o1 i1 then Some plain else None)"
    by (simp_all add: aead_ok_def)
  have "\<not> length ([agc_current c] @ nonce @ aed_Seal a nonce plain (aad o1 i1)) < 1 + nonceSize + 1"
    using l(1) n by (cases "aed_Seal a nonce plain (aad o1 i1)") auto
  then show ?thesis using a2 l(2) n by (simp add: cipher_Decrypt_def env)
qed

lemma aad_eq:
  assumes "CHR '':'' \<notin> set o1" "CHR '':'' \<notin> set o2"
  shows "aad o1 i1 = aad o2 i2 \<longleftrightarrow> o1 = o2 \<and> i1 = i2"
  using assms unfolding aad_def
proof (induction o1 arbitrary: o2)
  case Nil
  then show ?case by (cases o2) auto
next
  case (Cons x xs)
  then show ?case by (cases o2) auto
qed

lemma inserted_gateway:
  "insert_row (\<lambda>a b. psp_key a = psp_key b) e rows = Some rs \<Longrightarrow> find_row psp_key (psp_OrgId e, psp_Id e) rs = Some p \<Longrightarrow> p = e"
  using find_row_insert[of "\<lambda>a b. psp_key a = psp_key b" e rows rs psp_key] by (simp add: psp_key_def)

lemma created_row: "PspRepo_Create e w = (Inr p, w1) \<Longrightarrow> p = e"
  by (auto simp: PspRepo_Create_def PspRepo_FindById_def selOne_def sel_def exec_def stmt_def Let_def bindS_def translateErr_def failS_def
      retS_def split: if_splits option.splits dest: inserted_gateway)

lemma created_gateway:
  assumes "CreateGateway c marshal random inp w = (Inr p, w1)"
  shows "\<exists>json. marshal (cgi_Credentials inp) = Inr json \<and> psp_OrgId p = cgi_OrgId inp \<and>
    cipher_Encrypt c random (cgi_OrgId inp) (psp_Id p) json = Inr (psp_EncryptedCredentials p)"
  using assms
  by (auto simp: CreateGateway_def bindS_def failS_def liftS_def Generate_def split: if_splits sum.splits dest!: created_row)

text \<open>C39: Credentials are sealed for the gateway they were stored with: they are read back as they were given,
  by any cipher that still has the key they were sealed under, and put into the row of another
  gateway or organisation they cannot be opened at all (identifiers of organisations contain no
  colon, encoding and decoding JSON are inverse, the block cipher authenticates).\<close>

theorem gateway_credentials_sealed:
  fixes p :: psp_config
  assumes "CreateGateway c marshal (Inr nonce) inp w = (Inr p, w1)" and "length nonce = nonceSize"
    and "agc_keys c \<subseteq>\<^sub>m agc_keys c2" and "\<And>v a. agc_keys c2 v = Some a \<Longrightarrow> aead_ok a"
    and "\<And>m json. marshal m = Inr json \<Longrightarrow> unmarshal json = Inr m"
    and "CHR '':'' \<notin> set (cgi_OrgId inp)" and "CHR '':'' \<notin> set (psp_OrgId q)"
  shows "DecryptGatewayCredentials (Some c2) unmarshal (q\<lparr>psp_EncryptedCredentials := psp_EncryptedCredentials p\<rparr>) =
    (if psp_key q = psp_key p then Inr (cgi_Credentials inp) else Inl (InfraError ''credentials envelope failed authentication''))"
proof -
  obtain json where j: "marshal (cgi_Credentials inp) = Inr json" "psp_OrgId p = cgi_OrgId inp"
    and e: "cipher_Encrypt c (Inr nonce) (cgi_OrgId inp) (psp_Id p) json = Inr (psp_EncryptedCredentials p)"
    using created_gateway[OF assms(1)] by blast
  have d: "cipher_Decrypt c2 (psp_OrgId q) (psp_Id q) (psp_EncryptedCredentials p) =
    (if psp_key q = psp_key p then Inr json else Inl (InfraError ''credentials envelope failed authentication''))"
    using decrypt_encrypt[OF e assms(2-4)] aad_eq[OF assms(7,6)] j(2) by (simp add: psp_key_def)
  have "psp_EncryptedCredentials p \<noteq> []"
    using d by (auto simp: cipher_Decrypt_def b64_decode_def split: if_splits)
  then show ?thesis using d assms(5)[OF j(1)] by (simp add: DecryptGatewayCredentials_def)
qed

section \<open>Example\<close>

lemma b64_no_bar: "CHR ''|'' \<notin> set (b64_encode xs)"
proof -
  have "CHR ''|'' \<notin> set b64_alphabet" by (simp add: b64_alphabet_def)
  moreover have "b64_char n \<in> set b64_alphabet" for n by (simp add: b64_char_def alphabet(1))
  ultimately have "CHR ''|'' \<noteq> b64_char n" for n by metis
  then show ?thesis by (induction xs rule: b64_encode.induct) (simp_all add: Let_def)
qed

text \<open>Stands for a block cipher: what it is bound to is written in front.\<close>

definition plain_aead :: aead where
  "plain_aead = \<lparr> aed_Seal = (\<lambda>n p d. b64_encode d @ CHR ''|'' # p),
     aed_Open = (\<lambda>n s d. if takeWhile (\<lambda>x. x \<noteq> CHR ''|'') s = b64_encode d then Some (drop 1 (dropWhile (\<lambda>x. x \<noteq> CHR ''|'') s)) else None) \<rparr>"

lemma plain_aead_ok: "aead_ok plain_aead"
proof -
  have inj: "b64_encode x = b64_encode y \<longleftrightarrow> x = y" for x y by (metis b64_decode_encode option.inject)
  have t: "takeWhile (\<lambda>x. x \<noteq> CHR ''|'') (b64_encode d @ CHR ''|'' # p) = b64_encode d"
    "dropWhile (\<lambda>x. x \<noteq> CHR ''|'') (b64_encode d @ CHR ''|'' # p) = CHR ''|'' # p" for d p
    using b64_no_bar[of d] by (auto simp: takeWhile_append2 dropWhile_append2 takeWhile_append dropWhile_append)
  show ?thesis by (auto simp: aead_ok_def plain_aead_def t inj)
qed

definition one_key :: aes_gcm_cipher where
  "one_key = \<lparr> agc_current = CHR 0x01, agc_keys = [CHR 0x01 \<mapsto> plain_aead] \<rparr>"

definition two_keys :: aes_gcm_cipher where
  "two_keys = \<lparr> agc_current = CHR 0x02, agc_keys = [CHR 0x01 \<mapsto> plain_aead, CHR 0x02 \<mapsto> plain_aead] \<rparr>"

definition one_secret :: create_gateway_input where
  "one_secret = \<lparr> cgi_OrgId = ''org_1'', cgi_PspId = ''Paystack'', cgi_Name = [], cgi_Config = Map.empty, cgi_Credentials = [(''secret_key'', ''sk'')] \<rparr>"

definition marshal_one :: "(string \<times> string) list \<Rightarrow> string res" where
  "marshal_one m = (if m = [(''secret_key'', ''sk'')] then Inr ''{}'' else Inl (InfraError ''json''))"

text \<open>Sealed under the first key, opened after the second was added, and not by the gateway of another organisation.\<close>

theorem gateway_credentials_sealed_witness:
  "\<exists>p w1. CreateGateway one_key marshal_one (Inr (replicate 12 CHR ''n'')) one_secret (world_of empty_db int :: rat world) = (Inr p, w1) \<and>
    DecryptGatewayCredentials (Some two_keys) (\<lambda>_. Inr [(''secret_key'', ''sk'')]) (p\<lparr>psp_EncryptedCredentials := psp_EncryptedCredentials p\<rparr>) =
      Inr [(''secret_key'', ''sk'')] \<and>
    isl (DecryptGatewayCredentials (Some two_keys) (\<lambda>_. Inr [(''secret_key'', ''sk'')])
      ((p\<lparr>psp_OrgId := ''org_2''\<rparr>)\<lparr>psp_EncryptedCredentials := psp_EncryptedCredentials p\<rparr>))"
proof -
  let ?run = "CreateGateway one_key marshal_one (Inr (replicate 12 CHR ''n'')) one_secret (world_of empty_db int :: rat world)"
  have "\<exists>p w1. ?run = (Inr p, w1)"
    by (simp add: CreateGateway_def bindS_def liftS_def Generate_def cipher_Encrypt_def marshal_one_def one_key_def one_secret_def
        PspRepo_Create_def PspRepo_FindById_def selOne_def sel_def exec_def stmt_def Let_def insert_row_def find_row_def psp_key_def
        translateErr_def retS_def world_of_def empty_db_def del: b64_encode.simps)
  then obtain p w1 where run: "?run = (Inr p, w1)" by blast
  have org: "psp_OrgId p = ''org_1''" using created_gateway[OF run] by (auto simp: one_secret_def)
  have keys: "agc_keys one_key \<subseteq>\<^sub>m agc_keys two_keys" by (simp add: one_key_def two_keys_def map_le_def)
  have ok: "\<And>v a. agc_keys two_keys v = Some a \<Longrightarrow> aead_ok a" by (auto simp: two_keys_def plain_aead_ok split: if_splits)
  have json: "\<And>m j. marshal_one m = Inr j \<Longrightarrow> Inr [(''secret_key'', ''sk'')] = (Inr m :: (string \<times> string) list res)"
    by (simp add: marshal_one_def split: if_splits)
  note sealed = gateway_credentials_sealed[OF run _ keys ok json]
  have opened: "DecryptGatewayCredentials (Some two_keys) (\<lambda>_. Inr [(''secret_key'', ''sk'')]) (p\<lparr>psp_EncryptedCredentials := psp_EncryptedCredentials p\<rparr>) =
      Inr [(''secret_key'', ''sk'')]"
    using sealed[where q = p] org by (simp add: nonceSize_def one_secret_def)
  have foreign: "isl (DecryptGatewayCredentials (Some two_keys) (\<lambda>_. Inr [(''secret_key'', ''sk'')])
      ((p\<lparr>psp_OrgId := ''org_2''\<rparr>)\<lparr>psp_EncryptedCredentials := psp_EncryptedCredentials p\<rparr>))"
    using sealed[where q = "p\<lparr>psp_OrgId := ''org_2''\<rparr>"] org by (simp add: nonceSize_def one_secret_def psp_key_def)
  show ?thesis by (intro exI[of _ p] exI[of _ w1] conjI run opened foreign)
qed

end
