(* ===== verification/Access.thy ===== *)
theory Access
  imports Customer_Service
begin

text \<open>
  Who a request acts for: API keys (api_key.go, src/internal/lib/apikey, the authenticator of
  src/internal/adapter/apikey and api_key_repo.go), the creation of an organisation with its
  first key (org.go), the middleware that tries the authenticators in turn
  (src/internal/adapter/http/middleware/authn.go), the ranking of roles (port/auth.go) and the
  address a request is attributed to (src/internal/adapter/http/clientip.go).  The keyed hash is
  a parameter, and so are the random secrets and the address parser.
\<close>

section \<open>Roles and users\<close>

datatype user_role = RoleAdmin | RoleSupport | RoleOwner | RoleMember | RoleOther string

record auth_user =
  usr_OrgId :: string
  usr_Id :: string
  usr_Email :: string
  usr_PrimaryRole :: user_role
  usr_Roles :: "user_role list"

definition rolesRank :: "user_role \<Rightarrow> int" where
  "rolesRank r = (case r of RoleAdmin \<Rightarrow> 4 | RoleSupport \<Rightarrow> 3 | RoleOwner \<Rightarrow> 2 | RoleMember \<Rightarrow> 1 | RoleOther _ \<Rightarrow> 0)"

definition GetPrimaryRole :: "user_role list \<Rightarrow> user_role" where
  "GetPrimaryRole roles = fold (\<lambda>role primaryRole. if rolesRank primaryRole < rolesRank role then role else primaryRole) roles RoleMember"

definition NewAuthUser :: "string \<Rightarrow> string \<Rightarrow> string \<Rightarrow> user_role list \<Rightarrow> auth_user" where
  "NewAuthUser orgId uid email roles =
    \<lparr> usr_OrgId = orgId, usr_Id = uid, usr_Email = email, usr_PrimaryRole = GetPrimaryRole roles, usr_Roles = roles \<rparr>"

section \<open>API keys\<close>

definition ErrMissingApiKeyPepper :: app_error where
  "ErrMissingApiKeyPepper = InfraError ''API_KEY_PEPPER not set: api key hashing requires a server-side pepper''"

text \<open>hmac is the keyed hash in hexadecimal, of the pepper and the key.\<close>

definition apikey_Hash :: "(string \<Rightarrow> string \<Rightarrow> string) \<Rightarrow> string \<Rightarrow> string \<Rightarrow> string res" where
  "apikey_Hash hmac rawKey pepper = (if pepper = [] then Inl ErrMissingApiKeyPepper else Inr (hmac pepper rawKey))"

definition apk_key :: "api_key \<Rightarrow> string \<times> string" where
  "apk_key k = (apk_OrgId k, apk_Id k)"

definition ApiKeyRepo_FindById :: "string \<Rightarrow> string \<Rightarrow> ('d, api_key) svc" where
  "ApiKeyRepo_FindById orgId kid = selOne (\<lambda>db. find_row apk_key (orgId, kid) (t_api_keys db))"

text \<open>Looked up over all organisations: the hash is unique.\<close>

definition ApiKeyRepo_FindByKey :: "string \<Rightarrow> ('d, api_key) svc" where
  "ApiKeyRepo_FindByKey key = selOne (\<lambda>db. find_row apk_KeyHash key (t_api_keys db))"

definition ApiKeyRepo_Create :: "api_key \<Rightarrow> ('d, api_key) svc" where
  "ApiKeyRepo_Create k =
    bindS (exec (\<lambda>db. map_option (\<lambda>rs. db\<lparr>t_api_keys := rs\<rparr>)
      (insert_row (\<lambda>a b. apk_key a = apk_key b \<or> apk_KeyHash a = apk_KeyHash b) k (t_api_keys db)))) (\<lambda>_.
    ApiKeyRepo_FindById (apk_OrgId k) (apk_Id k))"

definition apk_merge :: "api_key \<Rightarrow> api_key \<Rightarrow> api_key" where
  "apk_merge old k = k\<lparr>apk_CreatedAt := apk_CreatedAt old\<rparr>"

definition ApiKeyRepo_Update :: "api_key \<Rightarrow> ('d, api_key) svc" where
  "ApiKeyRepo_Update k =
    bindS (exec (\<lambda>db.
      if apk_key k \<in> apk_key ` set (t_api_keys db) \<and>
         list_ex (\<lambda>r. apk_key r \<noteq> apk_key k \<and> apk_KeyHash r = apk_KeyHash k) (t_api_keys db) then None
      else Some (db\<lparr>t_api_keys := update_row apk_key apk_merge k (t_api_keys db)\<rparr>))) (\<lambda>_.
    ApiKeyRepo_FindById (apk_OrgId k) (apk_Id k))"

definition ApiKeyRepo_Delete :: "string \<Rightarrow> string \<Rightarrow> ('d, unit) svc" where
  "ApiKeyRepo_Delete orgId kid = exec (\<lambda>db. Some (db\<lparr>t_api_keys := filter (\<lambda>k. apk_key k \<noteq> (orgId, kid)) (t_api_keys db)\<rparr>))"

text \<open>The stored key with the token, which is shown this once.\<close>

definition ApiKeyService_Create ::
    "(string \<Rightarrow> string \<Rightarrow> string) \<Rightarrow> string \<Rightarrow> string res \<Rightarrow> string \<Rightarrow> string \<Rightarrow> ('d, api_key \<times> string) svc" where
  "ApiKeyService_Create hmac pepper random orgId name =
    bindS (liftS random) (\<lambda>secret.
    bindS (Generate ''sk'') (\<lambda>keyId.
    bindS (liftS (apikey_Hash hmac (keyId @ ''_'' @ secret) pepper)) (\<lambda>keyHash.
    bindS nowS (\<lambda>createdAt.
    bindS nowS (\<lambda>updatedAt.
    bindS (ApiKeyRepo_Create \<lparr> apk_OrgId = orgId, apk_Id = keyId, apk_Name = name, apk_KeyHash = keyHash,
             apk_CreatedAt = createdAt, apk_UpdatedAt = updatedAt \<rparr>) (\<lambda>created.
    retS (created, keyId @ ''_'' @ secret)))))))"

definition ApiKeyService_Delete :: "string \<Rightarrow> string \<Rightarrow> ('d, unit) svc" where
  "ApiKeyService_Delete orgId kid = ApiKeyRepo_Delete orgId kid"

definition not_allowed :: app_error where
  "not_allowed = NewCustomError AuthenticationError ''not allowed'' None"

definition ApiKey_Authenticate :: "(string \<Rightarrow> string \<Rightarrow> string) \<Rightarrow> string \<Rightarrow> string \<Rightarrow> ('d, auth_user) svc" where
  "ApiKey_Authenticate hmac pepper token =
    (if token = [] then failS not_allowed
     else (case apikey_Hash hmac token pepper of
         Inl _ \<Rightarrow> failS not_allowed
       | Inr keyHash \<Rightarrow>
          bindS (mapErrS (\<lambda>_. not_allowed) (ApiKeyRepo_FindByKey keyHash)) (\<lambda>k.
          retS \<lparr> usr_OrgId = apk_OrgId k, usr_Id = apk_Id k, usr_Email = [], usr_PrimaryRole = RoleAdmin, usr_Roles = [RoleAdmin] \<rparr>)))"

section \<open>Organisations\<close>

definition OrgRepo_findById :: "string \<Rightarrow> ('d, org) svc" where
  "OrgRepo_findById oid = selOne (\<lambda>db. find_row org_Id oid (t_orgs db))"

definition OrgRepo_Create :: "org \<Rightarrow> ('d, org) svc" where
  "OrgRepo_Create entity =
    bindS (exec (\<lambda>db. map_option (\<lambda>rs. db\<lparr>t_orgs := rs\<rparr>) (insert_row (\<lambda>a b. org_Id a = org_Id b) entity (t_orgs db)))) (\<lambda>_.
    OrgRepo_findById (org_Id entity))"

record create_org_input =
  ogi_Owner :: auth_user
  ogi_Name :: string
  ogi_Country :: string
  ogi_Timezone :: string
  ogi_Metadata :: metadata

text \<open>The cohort every organisation starts with; an error is logged.\<close>

definition first_cohort :: "org \<Rightarrow> ('d, cohort) svc" where
  "first_cohort g =
    bindS nowS (\<lambda>createdAt.
    bindS nowS (\<lambda>updatedAt.
    CreateCohort \<lparr> coh_OrgId = org_Id g, coh_Id = ''signup_date'', coh_Name = ''signup_date'', coh_Type = ''signup_date'',
      coh_Metadata = Map.empty, coh_CreatedAt = createdAt, coh_UpdatedAt = updatedAt \<rparr>))"

text \<open>
  The provider's organisation, where an owner is given, names the one that is stored.  An error of the cohort is
  handed back together with the organisation; here it is the second component.
\<close>

definition OrgService_Create ::
    "(string \<Rightarrow> string \<Rightarrow> string) \<Rightarrow> string \<Rightarrow> string res \<Rightarrow> (org \<Rightarrow> string \<Rightarrow> string res) \<Rightarrow> create_org_input \<Rightarrow>
     ('d, org \<times> app_error option) svc" where
  "OrgService_Create hmac pepper random authProvider_CreateOrg inp =
    bindS (Generate ''org'') (\<lambda>oid.
    bindS nowS (\<lambda>createdAt.
    bindS nowS (\<lambda>updatedAt.
    let g = \<lparr> org_Id = oid, org_Name = ogi_Name inp, org_Country = ogi_Country inp, org_Timezone = ogi_Timezone inp,
              org_Status = OrgStatusActive, org_Metadata = ogi_Metadata inp, org_CreatedAt = createdAt, org_UpdatedAt = updatedAt \<rparr> in
    bindS (if usr_Id (ogi_Owner inp) \<noteq> [] then liftS (map_sum id (\<lambda>ext. g\<lparr>org_Id := ext\<rparr>) (authProvider_CreateOrg g (usr_Id (ogi_Owner inp))))
           else retS g) (\<lambda>g.
    bindS (OrgRepo_Create g) (\<lambda>g.
    bindS (ApiKeyService_Create hmac pepper random (org_Id g) []) (\<lambda>_.
    tryS (first_cohort g) (\<lambda>r.
    bindS (ignoreS (Publish (org_Id g) ''org.created'' (MsgOrg g))) (\<lambda>_.
    retS (g, (case r of Inl e \<Rightarrow> Some e | Inr _ \<Rightarrow> None))))))))))"

section \<open>The middleware\<close>

text \<open>The parts of a request that are looked at; a header that is absent is empty.\<close>

record http_request =
  req_Method :: string
  req_Path :: string
  req_Authorization :: string
  req_ApiKey :: string
  req_RealIP :: string
  req_ForwardedFor :: string
  req_RemoteAddr :: string

definition isPublicPath :: "http_request \<Rightarrow> bool" where
  "isPublicPath r \<longleftrightarrow>
    req_Method r = ''GET'' \<and> req_Path r = ''/api/health'' \<or> req_Path r = ''/api/notify'' \<or>
    req_Method r = ''GET'' \<and> req_Path r = ''/openapi.json''"

text \<open>An authenticator answers with a user, or with an error, the user it knows so far, and whether that user has no organisation yet.\<close>

datatype authn_answer = Authenticated auth_user | Refused app_error auth_user bool

datatype authn_result = Served "auth_user option" | Unauthorized

definition onboarding :: "http_request \<Rightarrow> bool" where
  "onboarding r \<longleftrightarrow> req_Method r = ''POST'' \<and> req_Path r = ''/api/organizations''"

fun try_authenticators :: "http_request \<Rightarrow> string \<Rightarrow> (string \<Rightarrow> authn_answer) list \<Rightarrow> authn_result" where
  "try_authenticators r token [] = Unauthorized"
| "try_authenticators r token (a # as) =
    (case a token of
       Authenticated u \<Rightarrow> Served (Some u)
     | Refused e u required \<Rightarrow> if required \<and> onboarding r then Served (Some u) else try_authenticators r token as)"

definition request_token :: "http_request \<Rightarrow> string" where
  "request_token r = (if req_Authorization r \<noteq> [] then req_Authorization r else req_ApiKey r)"

definition authn_Handler :: "(string \<Rightarrow> authn_answer) list \<Rightarrow> http_request \<Rightarrow> authn_result" where
  "authn_Handler authnList r =
    (if req_Method r = ''OPTIONS'' then Served None
     else if isPublicPath r then Served None
     else try_authenticators r (request_token r) authnList)"

section \<open>The address of a client\<close>

text \<open>split_port gives the host of an address with a port; trusted decides whether the peer is a proxy of ours.\<close>

definition direct_peer :: "(string \<Rightarrow> string option) \<Rightarrow> string \<Rightarrow> string" where
  "direct_peer split_port addr = (case split_port addr of Some host \<Rightarrow> host | None \<Rightarrow> addr)"

definition clientIP :: "(string \<Rightarrow> string option) \<Rightarrow> (string \<Rightarrow> bool) \<Rightarrow> http_request \<Rightarrow> string" where
  "clientIP split_port trusted r =
    (let direct = direct_peer split_port (req_RemoteAddr r) in
     if trusted direct then
       (if req_RealIP r \<noteq> [] then TrimSpace (req_RealIP r)
        else if req_ForwardedFor r \<noteq> [] then TrimSpace (takeWhile (\<lambda>c. c \<noteq> CHR '','') (req_ForwardedFor r))
        else direct)
     else direct)"

text \<open>The headers count only where the peer is trusted.\<close>

lemma untrusted_headers:
  assumes "\<not> trusted (direct_peer split_port (req_RemoteAddr r))"
  shows "clientIP split_port trusted (r\<lparr>req_RealIP := x, req_ForwardedFor := y\<rparr>) = clientIP split_port trusted r"
  using assms by (simp add: clientIP_def Let_def)

text \<open>
  A proxy appends the address it sees to the header; the first entry is what the client wrote.
  Behind such a proxy the caller chooses the address it is known by.
\<close>

lemma forwarded_by_client:
  assumes "trusted (direct_peer split_port (req_RemoteAddr r))"
    and "req_RealIP r = []" and "CHR '','' \<notin> set claimed" and "claimed \<noteq> []"
  shows "clientIP split_port trusted (r\<lparr>req_ForwardedFor := claimed @ '', '' @ seen\<rparr>) = TrimSpace claimed"
proof -
  have "takeWhile (\<lambda>c. c \<noteq> CHR '','') (claimed @ '', '' @ seen) = claimed"
    using assms(3) by (subst takeWhile_append2) auto
  then show ?thesis using assms by (simp add: clientIP_def Let_def)
qed

text \<open>The primary role is one of the roles, or member, and no role ranks above it.\<close>

lemma primary_role_fold:
  fixes p :: user_role
  shows "let q = fold (\<lambda>role primaryRole. if rolesRank primaryRole < rolesRank role then role else primaryRole) roles p
    in q \<in> insert p (set roles) \<and> (\<forall>r\<in>insert p (set roles). rolesRank r \<le> rolesRank q)"
proof (induction roles arbitrary: p)
  case (Cons r roles)
  show ?case using Cons.IH[of p] Cons.IH[of r] by (auto simp: Let_def)
qed simp

lemma primary_role:
  "GetPrimaryRole roles \<in> insert RoleMember (set roles) \<and> (\<forall>r\<in>set roles. rolesRank r \<le> rolesRank (GetPrimaryRole roles))"
  using primary_role_fold[of roles RoleMember] by (simp add: GetPrimaryRole_def Let_def)

section \<open>Only a key that was minted and not deleted lets a request in\<close>

datatype key_op = Mint string string "string res" | Revoke string string

text \<open>
  The operations on keys, with the tokens that are live: minted for an organisation under an identifier and not deleted.
  A token whose key was stored counts as minted also when an error kept it from being shown.
\<close>

definition drawn_key :: "'d world \<Rightarrow> string" where
  "drawn_key w = id_prefix ''sk'' @ ''_'' @ w_random w (w_drawn w)"

fun key_run :: "(string \<Rightarrow> string \<Rightarrow> string) \<Rightarrow> string \<Rightarrow> key_op \<Rightarrow> 'd world \<times> (string \<times> string \<times> string) list \<Rightarrow>
    'd world \<times> (string \<times> string \<times> string) list" where
  "key_run H pepper (Mint a name random) (w, live) =
    (snd (ApiKeyService_Create H pepper random a name w),
     (case random of Inl _ \<Rightarrow> live | Inr secret \<Rightarrow> (a, drawn_key w, drawn_key w @ ''_'' @ secret) # live))"
| "key_run H pepper (Revoke a i) (w, live) =
    (case ApiKeyService_Delete a i w of
       (Inl _, w1) \<Rightarrow> (w1, live)
     | (Inr _, w1) \<Rightarrow> (w1, filter (\<lambda>(b, j, t). (b, j) \<noteq> (a, i)) live))"

definition keys_ok :: "(string \<Rightarrow> string) \<Rightarrow> (string \<times> string \<times> string) list \<Rightarrow> 'd db \<Rightarrow> bool" where
  "keys_ok h live db \<longleftrightarrow> (\<forall>k\<in>set (t_api_keys db). \<exists>t. (apk_OrgId k, apk_Id k, t) \<in> set live \<and> apk_KeyHash k = h t)"

lemma created_key_rows:
  assumes "ApiKeyRepo_Create k w = (r, w1)"
  shows "set (t_api_keys (w_db w1)) \<subseteq> insert k (set (t_api_keys (w_db w)))"
  using assms
  by (auto simp: ApiKeyRepo_Create_def ApiKeyRepo_FindById_def selOne_def sel_def exec_def stmt_def Let_def bindS_def translateErr_def failS_def
      retS_def insert_row_def split: if_splits option.splits)

lemma mint_rows:
  assumes "ApiKeyService_Create H pepper random a name w = (r, w1)"
  shows "\<forall>k\<in>set (t_api_keys (w_db w1)). k \<in> set (t_api_keys (w_db w)) \<or>
    (\<exists>secret. random = Inr secret \<and> apk_OrgId k = a \<and> apk_Id k = drawn_key w \<and> apk_KeyHash k = H pepper (drawn_key w @ ''_'' @ secret))"
  using assms
  by (auto simp: ApiKeyService_Create_def bindS_def liftS_def Generate_def nowS_def apikey_Hash_def retS_def drawn_key_def
      split: sum.splits if_splits prod.splits dest!: created_key_rows subsetD)

lemma key_run_keeps:
  assumes "keys_ok (H pepper) live (w_db w)" and "key_run H pepper op (w, live) = (w1, live1)"
  shows "keys_ok (H pepper) live1 (w_db w1)"
proof (cases op)
  case (Mint a name random)
  obtain r where m: "ApiKeyService_Create H pepper random a name w = (r, w1)"
    and l: "live1 = (case random of Inl _ \<Rightarrow> live | Inr secret \<Rightarrow> (a, drawn_key w, drawn_key w @ ''_'' @ secret) # live)"
    using assms(2) Mint by (metis key_run.simps(1) prod.inject surjective_pairing)
  show ?thesis unfolding keys_ok_def
  proof
    fix k assume "k \<in> set (t_api_keys (w_db w1))"
    with mint_rows[OF m] show "\<exists>t. (apk_OrgId k, apk_Id k, t) \<in> set live1 \<and> apk_KeyHash k = H pepper t"
      using assms(1) unfolding keys_ok_def l by (fastforce split: sum.splits)
  qed
next
  case (Revoke a i)
  then show ?thesis using assms
    by (auto simp: keys_ok_def ApiKeyService_Delete_def ApiKeyRepo_Delete_def exec_def stmt_def Let_def apk_key_def
        split: if_splits option.splits sum.splits)
qed

lemma key_history:
  assumes "keys_ok (H pepper) live (w_db w)" and "fold (key_run H pepper) ops (w, live) = (w1, live1)"
  shows "keys_ok (H pepper) live1 (w_db w1)"
  using assms
proof (induction ops arbitrary: w live)
  case (Cons op ops)
  obtain w2 live2 where s: "key_run H pepper op (w, live) = (w2, live2)" by (metis surj_pair)
  show ?case using Cons.IH[OF key_run_keeps[OF Cons.prems(1) s]] Cons.prems(2) s by simp
qed simp

text \<open>C40: A token that is accepted as a key acts for the organisation it was minted for and under its identifier, and it has
  not been deleted since: whatever keys were minted and deleted for all organisations before, with
  any statement failing (the keyed hash does not collide).  Without a pepper nothing is accepted.\<close>

theorem api_key_scope:
  assumes "t_api_keys (w_db w) = []" and "fold (key_run H pepper) ops (w, []) = (w1, live)" and "inj (H pepper)"
    and "ApiKey_Authenticate H pepper token w1 = (Inr u, w2)"
  shows "(usr_OrgId u, usr_Id u, token) \<in> set live \<and> pepper \<noteq> []"
proof -
  have ok: "keys_ok (H pepper) live (w_db w1)" using key_history[OF _ assms(2)] assms(1) by (simp add: keys_ok_def)
  obtain k where k: "find_row apk_KeyHash (H pepper token) (t_api_keys (w_db w1)) = Some k" "usr_OrgId u = apk_OrgId k" "usr_Id u = apk_Id k"
    and p: "pepper \<noteq> []"
    using assms(4) by (auto simp: ApiKey_Authenticate_def apikey_Hash_def ApiKeyRepo_FindByKey_def mapErrS_def bindS_def failS_def retS_def
        selOne_def sel_def stmt_def Let_def translateErr_def split: if_splits option.splits sum.splits prod.splits)
  obtain t where t: "(apk_OrgId k, apk_Id k, t) \<in> set live" "apk_KeyHash k = H pepper t"
    using ok find_row_key[OF k(1)] unfolding keys_ok_def by blast
  have "t = token" using find_row_key[OF k(1)] t(2) injD[OF assms(3)] by metis
  then show ?thesis using t(1) k(2,3) p by simp
qed

text \<open>Who is served: without a user only where no credentials are asked for, and else the user an authenticator vouched for.\<close>

lemma authn_guard:
  assumes "authn_Handler authnList r = Served x"
  shows "case x of None \<Rightarrow> req_Method r = ''OPTIONS'' \<or> isPublicPath r
    | Some u \<Rightarrow> \<exists>a\<in>set authnList. a (request_token r) = Authenticated u \<or> (onboarding r \<and> (\<exists>e. a (request_token r) = Refused e u True))"
proof -
  have "\<exists>u. x = Some u \<and> (\<exists>a\<in>set authnList. a token = Authenticated u \<or> (onboarding r \<and> (\<exists>e. a token = Refused e u True)))"
    if "try_authenticators r token authnList = Served x" for token
    using that by (induction authnList) (auto split: authn_answer.splits if_splits)
  then show ?thesis using assms by (fastforce simp: authn_Handler_def split: if_splits option.splits)
qed

section \<open>Examples\<close>

definition plain_hash :: "string \<Rightarrow> string \<Rightarrow> string" where
  "plain_hash pepper k = pepper @ k"

definition key_ops :: "key_op list" where
  "key_ops = [Mint ''o'' [] (Inr ''x''), Mint ''q'' [] (Inr ''y''), Revoke ''q'' ''sk_k'']"

theorem api_key_scope_witness:
  "\<exists>w1 live u w2. fold (key_run plain_hash ''p'') key_ops (world_of empty_db int :: rat world, []) = (w1, live) \<and>
    ApiKey_Authenticate plain_hash ''p'' ''sk__x'' w1 = (Inr u, w2) \<and> (usr_OrgId u, usr_Id u, ''sk__x'') \<in> set live \<and> ''p'' \<noteq> []"
proof -
  obtain w1 live where f: "fold (key_run plain_hash ''p'') key_ops (world_of empty_db int :: rat world, []) = (w1, live)" by (metis surj_pair)
  have "\<not> isl (fst (ApiKey_Authenticate plain_hash ''p'' ''sk__x'' (fst (fold (key_run plain_hash ''p'') key_ops (world_of empty_db int :: rat world, [])))))"
    by code_simp
  then obtain u w2 where a: "ApiKey_Authenticate plain_hash ''p'' ''sk__x'' w1 = (Inr u, w2)"
    unfolding f by (metis fst_conv isl_def old.sum.exhaust surj_pair)
  have e: "t_api_keys (w_db (world_of empty_db int :: rat world)) = []" by (simp add: world_of_def empty_db_def)
  have i: "inj (plain_hash ''p'')" by (simp add: inj_def plain_hash_def)
  show ?thesis using api_key_scope[OF e f i a] f a by blast
qed

text \<open>The token of a deleted key is refused.\<close>

theorem revoked_refused:
  "fst (ApiKey_Authenticate plain_hash ''p'' ''sk_k_y'' (fst (fold (key_run plain_hash ''p'') key_ops (world_of empty_db int :: rat world, [])))) =
    Inl not_allowed"
  by code_simp

text \<open>The statement that creates the cohort fails: the organisation and its key are stored, and the error is handed back with it.\<close>

theorem cohort_error_returned:
  "case OrgService_Create plain_hash ''p'' (Inr ''x'') (\<lambda>_ _. Inr [])
      \<lparr> ogi_Owner = NewAuthUser [] [] [] [], ogi_Name = ''n'', ogi_Country = [], ogi_Timezone = [], ogi_Metadata = Map.empty \<rparr>
      ((world_of empty_db int :: rat world)\<lparr>w_fault := (\<lambda>n. if n = 4 then Some ''lost'' else None)\<rparr>) of
    (Inl _, _) \<Rightarrow> False
  | (Inr (g, e), w1) \<Rightarrow> e = Some (InfraError ''lost'') \<and> length (t_orgs (w_db w1)) = 1 \<and> length (t_api_keys (w_db w1)) = 1"
  by code_simp

end
