(* ===== verification/Spec2Isabelle.thy ===== *)
theory Spec2Isabelle
  imports Cart Order_Service Outbox_Relay Dunning_Runner Billing_Runner Catalog_Service Idempotency Outgoing_Webhooks Customer_Service
    Secrets Access
begin

text \<open>
  A verification development for GetPaidHQ, a subscription billing engine written in Go.
  It models the core of src/internal/core (domain and service), the PostgreSQL
  repositories the services run on (src/internal/adapter/db/postgrespgx), the outbox with
  its relay (src/internal/lib/pubsub) and the workflow of a dunning campaign
  (src/internal/adapter/hatchet).

  \<^bold>\<open>How the program works.\<close>  A shop puts priced products into a cart (cart.go), turns the
  cart into an order with its subscriptions, a coupon reservation and a payment session
  (order.go), and completes the order when the payment provider reports success
  (order_workflow.go): the subscriptions become active, the coupon is consumed into a
  discount, and the first invoice is numbered, stored and settled.  From then on every
  billing cycle builds one invoice (invoice.go) from the price, the metered usage of the
  period (usage.go) and the running discounts, charges the stored payment method, and
  books the result (subscription.go).  A charge that fails for good starts a dunning campaign
  (dunning_orchestration.go), which an engine works on (dunning_runner.go): it retries the
  charge on a schedule, suspends the subscription, and at the end cancels it and writes
  the open invoice off (dunning.go).  The charges of running subscriptions are started by a
  sweep over each organisation (billing_sweep.go), and one run per subscription and cycle
  charges it and books the result (billing_cycle_runner.go); what a payment provider reports later arrives
  as a webhook, which is claimed once and starts a job of its own (webhook.go,
  payment_success.go, payment_refunded.go).  Every service publishes what it did by writing
  a row to the outbox in its own transaction; the relay hands these rows to the message
  broker (relay.go), and each endpoint a tenant has registered for the topic gets a
  delivery of its own (workflow.go, webhook_subscription.go).  The products, variants and
  prices that carts are filled from are kept by the catalog (product.go), and a request that is
  repeated under the same key is answered from a store (idempotency_store.go).  A request
  acts for the organisation of the API key it carries (apikey/middleware.go).

  \<^bold>\<open>Which theory models what.\<close>  File and function names are those of the sources; a Go
  field F of a type T is the record field with the type's prefix (Subscription.Status is
  sub_Status); a repository method is <Repo>_<Method>, a service method has its own name.

    \<^item> Prelude: errors as values (src/internal/lib/errors), Go maps as partial functions,
      lemmas on lists and sums.  Go_Int: int64 with its wrap-around.  Go_Time: time stamps,
      durations and the calendar.  Decimal_Lib: the decimal package, which is not part of
      the repository, as a record of operations with a locale for its documented laws.
    \<^item> Pricing, Discounts, Cart, Payments, Subscriptions, Usage_Intervals, Invoices,
      Accounts, Dunning: the aggregates and pure functions of src/internal/core/domain.
    \<^item> Store: the database as a record of tables and the language in which the services are
      written (statements that can fail, transactions, the clock, identifiers, the payment
      gateway, the outbox).  Repositories and Shop_Repositories: the SQL statements.
    \<^item> Effects, Faultless and Tenancy: how proofs about services are done.  Effects gives
      the change a successful statement makes, Faultless runs a service without faults, and
      Tenancy shows that a step for one organisation leaves the others alone.  Guarded has the
      rules for an invariant that a service keeps and its single statements do not.
    \<^item> Coupon_Service, Usage_Service, Invoice_Service, Subscription_Service, Cart_Service,
      Order_Service, Dunning_Service: the services of src/internal/core/service.
    \<^item> Catalog_Service: products, variants and prices with their foreign keys and the paging of
      listings (scopes.go).  Customer_Service: customers, payment methods and cohorts
      (customer.go).  Idempotency: the store of requests under a key.
    \<^item> Secrets: the credentials of payment gateways (psp.go, factory.go) in their envelope
      (crypto/aesgcm.go), with base64 written out.  Access: API keys (api_key.go), organisations
      (org.go), the authentication of a request (authn.go) and the address it comes from
      (clientip.go).
    \<^item> Outbox_Relay and Dunning_Runner: two loops that drive the services from outside.
      Webhooks: the intake of provider events and the requests to the workflow engine
      (hatchet.go, keys.go).  Payment_Jobs: the jobs those events start, refunds, and the fan-out of
      events to endpoints.  Billing_Runner: the sweep, its reminders and the run of a cycle.
      Outgoing_Webhooks: a delivery, with the check of every address it connects to
      (webhook_url_safety.go) over 8-bit words.

  \<^bold>\<open>State and operations.\<close>  A service is a function from a world to a result and a world.
  The world holds the database (record of tables, each a list of rows in the order of
  insertion) and the streams of inputs the program cannot control: the clock, the
  identifiers drawn, which statement fails with which driver error, and what the gateway
  answers.  Errors are values of a sum type; each early return of the source is a branch.
  A transaction that does not commit restores the database, a nested one is a savepoint.
  The gateway's log is not part of the database, so a rollback does not take a charge back.

  \<^bold>\<open>What the lemmas show.\<close>
    \<^item> Amounts: discounts never exceed the line they reduce, are split exactly, and do not
      depend on the order of coupons redeemed at different instants; the graduated price is the sum over its tiers;
      proration credits stay within the price; a settled invoice is left alone.
    \<^item> Once only: a cycle has one invoice, one charge and one booked success however often
      the steps are repeated; an event is recorded once; a slice of usage is billed once; an
      order completes once; a coupon stays within its caps; a provider event starts one run;
      a tick of the sweep advances a subscription by at most one cycle; of all requests
      under a key one does the work and the others get its response.
    \<^item> Isolation: after any catalog operations no variant or price is left without its parent
      and no ordered variant is gone; no operation on customers leaves a payment method, a
      default or a cohort entry without the row it names; a delivery never connects to an address in a
      listed block, and the addresses it accepts are proved to be exactly those outside the list.  Credentials open only for
      the gateway they were sealed for; an API key lets a request in only for the organisation
      it was minted for, and not after it was deleted.
    \<^item> Refinement: charging and booking a cycle implements the state machine of
      subscriptions under the retry policy the organisation has stored (retry_policy_of), a dunning attempt implements the escalation policy, the cart service
      implements the operations of the aggregate.
    \<^item> Termination and liveness: retries end, a drain of the outbox ends and delivers what
      is due, a dunning run ends with the campaign recovered or failed.
    \<^item> Contracts are locales: the laws of decimals (Decimal_Lib), the relations every
      statement keeps (Store: an invariant of all rows, a relation between the databases
      before and after), each interpreted on the model's definitions; every service inherits
      them from the statements it runs.

  \<^bold>\<open>Hypotheses.\<close>  Where a property is about the invoice of a cycle or an order it
  assumes that invoices have distinct keys (invoices_distinct), which is the primary key of
  their table in the schema (src/schemas/app/migrations); where it is about a retry policy, that its period lies
  between 0 and 10000 intervals (policy_ok), since nothing checks the stored policy and a longer
  one wraps around.  A world is calm when no statement fails.

  \<^bold>\<open>Bounds and fuel.\<close>  Loops over data recurse on lists.  The pauses of a dunning run and
  its waits may go on for ever, so they are partial functions into option, and the lemmas
  state when they return.  No definition takes fuel.

  \<^bold>\<open>What the model leaves open.\<close>  Services run one after another: locks and isolation between
  concurrent transactions are not modelled, an interleaving is a sequence of complete
  operations.  SQL INTEGER columns hold every int64, and a time stamp column keeps its
  nanoseconds; decimals fit their columns.  A foreign key that is violated is one of the
  arbitrary faults, except in Catalog_Service and for cohorts, whose statements check theirs, and an error at
  commit rolls back.  How often the engine runs a task again, and whether it takes a
  request, are inputs.  A nil map and an empty one are the
  same.  ToUpper and TrimSpace are those of ASCII.  JSON encoders and decoders, the
  keyed hashes and the block cipher are parameters.  A panic is an error value.  Logging is left out.

  \<^bold>\<open>Not modelled.\<close>  The services of users, sessions, settings and
  metadata (their rows are modelled where billing reads them), the HTTP handlers with the
  rest of their middleware, the clients of payment providers (paystack, checkout_com), the
  identity providers and policies (clerk, cognito, cedar), the block cipher, message brokers and caches (nats, jetstream, redis, memory), the second event store
  (clickhouse), the wiring of the process (app, cmd), the command line with its generated
  client (cli), the web front end and the schemas: they translate between the core and the
  outside, or call libraries.  The Temporal workflows repeat the Hatchet ones.
\<close>

end
